(* ===== verification/Mdrap_Prelude.thy ===== *)
theory Mdrap_Prelude
  imports Complex_Main "HOL-Library.Word" "HOL-Library.AList"
begin

text \<open>
  Shared vocabulary of the development: the exceptions the Python sources raise, results that
  are either such an exception or a value, insertion-ordered dictionaries, byte strings, and the
  list lemmas that several components need.  The collections \<open>wire_simps\<close> (packing and
  unpacking), \<open>float_simps\<close> (binary64 facts) and \<open>dict_simps\<close> (dictionary updates) are filled
  by the theories that own the facts.
\<close>

named_theorems wire_simps \<open>rewrite rules for packing and unpacking binary records\<close>
named_theorems float_simps \<open>rewrite rules for binary64 values\<close>
named_theorems dict_simps \<open>rewrite rules for insertion-ordered dictionaries\<close>

section \<open>Exceptions and results\<close>

datatype pyexc =
    IndexError | KeyError | ValueError | TypeError | ZeroDivisionError | OverflowError
  | StructError | RuntimeError | FencingTokenError | QuorumLossError | StaleEpochError
  | IngestLogCorruptError | IngestLogPoisonedError | RecoveryError | IngressError

type_synonym 'a res = "pyexc + 'a"

abbreviation raise :: "pyexc \<Rightarrow> 'a res" where
  "raise e \<equiv> Inl e"

abbreviation ret :: "'a \<Rightarrow> 'a res" where
  "ret x \<equiv> Inr x"

definition bindr :: "'a res \<Rightarrow> ('a \<Rightarrow> 'b res) \<Rightarrow> 'b res" where
  "bindr m f = (case m of Inl e \<Rightarrow> Inl e | Inr x \<Rightarrow> f x)"

lemma bindr_simps [simp]:
  "bindr (Inl e) f = Inl e"
  "bindr (Inr x) f = f x"
  by (simp_all add: bindr_def)

lemma bindr_Inr: "(bindr m f = Inr y) = (\<exists>v. f v = Inr y \<and> m = Inr v)"
  by (cases m) auto

lemma bindr_Inr3:
  "(bindr m (\<lambda>(a, b, c). f a b c) = Inr y) = (\<exists>a b c. m = Inr (a, b, c) \<and> f a b c = Inr y)"
  by (cases m) auto

lemma bindr_cong:
  "m = m' \<Longrightarrow> (\<And>v. m' = Inr v \<Longrightarrow> f v = f' v) \<Longrightarrow> bindr m f = bindr m' f'"
  by (cases m') auto

section \<open>Insertion-ordered dictionaries\<close>

text \<open>
  A Python \<open>dict\<close> keeps its keys in insertion order; assigning to a present key keeps its
  position and a new key goes last.  That is an association list under \<^const>\<open>AList.update\<close> and
  \<^const>\<open>AList.delete\<close>, with distinct keys as the representation invariant.
\<close>

type_synonym ('k, 'v) dict = "('k \<times> 'v) list"

abbreviation dget :: "('k, 'v) dict \<Rightarrow> 'k \<Rightarrow> 'v option" where
  "dget d k \<equiv> map_of d k"

abbreviation dset :: "('k, 'v) dict \<Rightarrow> 'k \<Rightarrow> 'v \<Rightarrow> ('k, 'v) dict" where
  "dset d k v \<equiv> AList.update k v d"

abbreviation ddel :: "('k, 'v) dict \<Rightarrow> 'k \<Rightarrow> ('k, 'v) dict" where
  "ddel d k \<equiv> AList.delete k d"

abbreviation dkeys :: "('k, 'v) dict \<Rightarrow> 'k list" where
  "dkeys d \<equiv> map fst d"

definition din :: "'k \<Rightarrow> ('k, 'v) dict \<Rightarrow> bool" where
  "din k d = (map_of d k \<noteq> None)"

definition dgetd :: "('k, 'v) dict \<Rightarrow> 'k \<Rightarrow> 'v \<Rightarrow> 'v" where
  "dgetd d k v = (case map_of d k of None \<Rightarrow> v | Some x \<Rightarrow> x)"

definition dwf :: "('k, 'v) dict \<Rightarrow> bool" where
  "dwf d = distinct (map fst d)"

lemma din_iff [dict_simps]: "din k d \<longleftrightarrow> k \<in> fst ` set d"
  by (simp add: din_def map_of_eq_None_iff)

lemma dget_dset [dict_simps]: "dget (dset d k v) k' = (if k' = k then Some v else dget d k')"
  by (simp add: update_conv')

lemma dget_ddel [dict_simps]: "dget (ddel d k) k' = (if k' = k then None else dget d k')"
  by (simp add: delete_conv')

lemma din_dset [dict_simps]: "din k (dset d k' v) \<longleftrightarrow> k = k' \<or> din k d"
  by (auto simp: din_def update_conv')

lemma din_ddel [dict_simps]: "din k (ddel d k') \<longleftrightarrow> k \<noteq> k' \<and> din k d"
  by (auto simp: din_def delete_conv')

lemma dgetd_dset [dict_simps]: "dgetd (dset d k v) k' w = (if k' = k then v else dgetd d k' w)"
  by (simp add: dgetd_def update_conv')

lemma dwf_Nil [simp]: "dwf []"
  by (simp add: dwf_def)

lemma dwf_dset [simp]: "dwf d \<Longrightarrow> dwf (dset d k v)"
  by (simp add: dwf_def distinct_update)

lemma dwf_ddel [simp]: "dwf d \<Longrightarrow> dwf (ddel d k)"
  by (simp add: dwf_def distinct_delete)

lemma length_dset:
  "length (dset d k v) = (if din k d then length d else Suc (length d))"
  by (induction d) (auto simp: din_def)

lemma length_dset_le: "length (dset d k v) \<le> Suc (length d)"
  by (simp add: length_dset)

lemma length_ddel_le: "length (ddel d k) \<le> length d"
  by (rule length_delete_le)

lemma ddel_absent: "\<not> din k d \<Longrightarrow> ddel d k = d"
  by (induction d) (auto simp: din_def split: if_splits)

lemma length_ddel:
  "dwf d \<Longrightarrow> length (ddel d k) = (if din k d then length d - 1 else length d)"
proof (induction d)
  case Nil
  then show ?case by (simp add: din_def)
next
  case (Cons p d)
  then have wf: "dwf d" and notin: "fst p \<notin> fst ` set d"
    by (auto simp: dwf_def)
  show ?case
  proof (cases "fst p = k")
    case True
    then have "ddel d k = d"
      using notin by (intro ddel_absent) (auto simp: din_iff)
    then show ?thesis using True by (simp add: din_def)
  next
    case False
    then have "0 < length d" if "din k d"
      using that by (auto simp: din_def)
    then show ?thesis using False Cons.IH [OF wf]
      by (auto simp: din_def)
  qed
qed

lemma dset_absent: "\<not> din k d \<Longrightarrow> dset d k v = d @ [(k, v)]"
  by (induction d) (auto simp: din_def split: if_splits)

lemma dset_last: "\<not> din k d \<Longrightarrow> dset (d @ [(k, v)]) k w = d @ [(k, w)]"
  by (induction d) (auto simp: din_def split: if_splits)

lemma ddel_filter: "ddel d k = [p \<leftarrow> d. fst p \<noteq> k]"
  by (induction d) auto

lemma foldl_ddel: "foldl ddel d ks = [p \<leftarrow> d. fst p \<notin> set ks]"
proof (induction ks arbitrary: d)
  case (Cons k ks)
  have "foldl ddel d (k # ks) = [p \<leftarrow> ddel d k. fst p \<notin> set ks]" by (simp add: Cons)
  also have "\<dots> = [p \<leftarrow> d. fst p \<notin> set (k # ks)]"
    unfolding ddel_filter filter_filter by (rule filter_cong) auto
  finally show ?case .
qed simp

text \<open>An assignment is undone by assigning the old value again, or by deleting a key that was absent; the order of the keys
  is restored too.\<close>

lemma dset_restore: "dget d k = Some v \<Longrightarrow> dset (dset d k w) k v = d"
  by (induction d) auto

lemma ddel_restore: "dget d k = None \<Longrightarrow> ddel (dset d k w) k = d"
  by (induction d) (auto split: if_splits)

text \<open>The contract of a dictionary that its clients use, and its implementation above.\<close>

locale dict_contract =
  fixes lookup :: "'d \<Rightarrow> 'k \<Rightarrow> 'v option"
    and upd :: "'d \<Rightarrow> 'k \<Rightarrow> 'v \<Rightarrow> 'd"
    and del :: "'d \<Rightarrow> 'k \<Rightarrow> 'd"
    and invar :: "'d \<Rightarrow> bool"
  assumes lookup_upd: "invar d \<Longrightarrow> lookup (upd d k v) k' = (if k' = k then Some v else lookup d k')"
    and lookup_del: "invar d \<Longrightarrow> lookup (del d k) k' = (if k' = k then None else lookup d k')"
    and invar_upd: "invar d \<Longrightarrow> invar (upd d k v)"
    and invar_del: "invar d \<Longrightarrow> invar (del d k)"
begin

lemma upd_upd_other:
  "invar d \<Longrightarrow> k \<noteq> k' \<Longrightarrow> lookup (upd (upd d k v) k' v') x = lookup (upd (upd d k' v') k v) x"
  by (simp add: lookup_upd invar_upd)

lemma del_upd: "invar d \<Longrightarrow> lookup (del (upd d k v) k) x = lookup (del d k) x"
  by (simp add: lookup_upd lookup_del invar_upd)

lemma restore_upd:
  assumes "invar d"
  shows "lookup (case lookup d k of Some v' \<Rightarrow> upd (upd d k v) k v' | None \<Rightarrow> del (upd d k v) k) x
       = lookup d x"
  using assms by (auto simp: lookup_upd lookup_del invar_upd split: option.splits)

end

interpretation pydict: dict_contract map_of "\<lambda>d k v. AList.update k v d" "\<lambda>d k. AList.delete k d" dwf
  by unfold_locales (simp_all add: update_conv' delete_conv')

section \<open>Lists\<close>

lemma take_drop_middle [simp]:
  "length xs = n \<Longrightarrow> take m (drop n (xs @ ys)) = take m ys"
  by simp

lemma list_all_nthD: "list_all P xs \<Longrightarrow> i < length xs \<Longrightarrow> P (xs ! i)"
  by (simp add: list_all_length)

text \<open>Python list indexing, slicing from the front and appending with a bounded length.\<close>

definition py_index :: "'a list \<Rightarrow> int \<Rightarrow> 'a res" where
  "py_index xs i =
     (if - int (length xs) \<le> i \<and> i < int (length xs)
      then ret (xs ! nat (i mod int (length xs))) else raise IndexError)"

definition bounded_append :: "nat \<Rightarrow> 'a list \<Rightarrow> 'a \<Rightarrow> 'a list" where
  "bounded_append cap xs x = (let ys = xs @ [x] in if length ys > cap then tl ys else ys)"

lemma bounded_append_length:
  "length xs \<le> cap \<Longrightarrow> length (bounded_append cap xs x) \<le> cap"
  by (auto simp: bounded_append_def Let_def)

lemma bounded_append_mem: "0 < cap \<Longrightarrow> x \<in> set (bounded_append cap xs x)"
  by (cases xs) (auto simp: bounded_append_def Let_def)

text \<open>\<open>range a b\<close> is the list of integers Python's \<open>range(a, b)\<close> runs through.\<close>

abbreviation py_range :: "int \<Rightarrow> int \<Rightarrow> int list" where
  "py_range a b \<equiv> [a..b - 1]"

text \<open>\<open>str(n)\<close> of an integer.\<close>

fun dec_digits :: "nat \<Rightarrow> string" where
  "dec_digits n = (if n < 10 then [char_of (48 + n)] else dec_digits (n div 10) @ [char_of (48 + n mod 10)])"

declare dec_digits.simps [simp del]

definition py_str_int :: "int \<Rightarrow> string" where
  "py_str_int n = (if n < 0 then CHR ''-'' # dec_digits (nat (- n)) else dec_digits (nat n))"

section \<open>Bytes and words\<close>

type_synonym byte = "8 word"
type_synonym bytes = "byte list"

end
