(* ===== verification/Pyfloat.thy ===== *)
theory Pyfloat
  imports Mdrap_Prelude
begin

text \<open>
  Python's \<open>float\<close> is an IEEE 754 binary64 number.  A value is its 64-bit pattern, so packing
  and unpacking a double loses nothing, and signed zeros, infinities and NaNs are there as in the
  program.  Arithmetic is exact on rationals followed by one rounding to nearest, ties to even;
  comparisons are those of the sign-magnitude key, and every comparison with a NaN is false.
  The lemmas give what the components use: rounding is monotone and exact on representable
  values, and the order of the keys is the order of the values.
\<close>

unbundle bit_operations_syntax

type_synonym f64 = "64 word"

section \<open>Powers of two and rounding to an integer\<close>

function nlog2 :: "int \<Rightarrow> int" where
  "nlog2 n = (if n < 2 then 0 else 1 + nlog2 (n div 2))"
  by pat_completeness auto
termination by (relation "measure nat") auto

declare nlog2.simps [simp del]

definition pow2 :: "int \<Rightarrow> rat" where
  "pow2 k = (if 0 \<le> k then of_int (2 ^ nat k) else 1 / of_int (2 ^ nat (- k)))"

text \<open>Powers by repeated squaring, for evaluation.\<close>

function ipow2 :: "int \<Rightarrow> int" where
  "ipow2 k = (if k \<le> 0 then 1 else let h = ipow2 (k div 2) in if even k then h * h else 2 * (h * h))"
  by pat_completeness auto
termination by (relation "measure nat") auto

declare ipow2.simps [simp del]

lemma ipow2_eq: "ipow2 k = 2 ^ nat k"
proof (induction k rule: ipow2.induct)
  case (1 k)
  show ?case
  proof (cases "k \<le> 0")
    case True
    then show ?thesis by (simp add: ipow2.simps [of k])
  next
    case False
    then have IH: "ipow2 (k div 2) = 2 ^ nat (k div 2)" by (rule "1.IH")
    have "nat k = (if even k then nat (k div 2) + nat (k div 2) else Suc (nat (k div 2) + nat (k div 2)))"
      using False by (auto elim!: evenE oddE simp: nat_add_distrib)
    then show ?thesis using False IH by (simp add: ipow2.simps [of k] Let_def power_add)
  qed
qed

lemma pow2_code [code]: "pow2 k = (if 0 \<le> k then of_int (ipow2 k) else 1 / of_int (ipow2 (- k)))"
  by (simp only: pow2_def ipow2_eq)

definition flog2 :: "rat \<Rightarrow> int" where
  "flog2 q =
     (let (a, b) = quotient_of q;
          k = nlog2 a - nlog2 b
      in if pow2 k \<le> q then k else k - 1)"

definition rne :: "rat \<Rightarrow> int" where
  "rne x =
     (let f = \<lfloor>x\<rfloor>; d = x - of_int f
      in if d < 1 / 2 then f else if 1 / 2 < d then f + 1
         else if even f then f else f + 1)"

section \<open>Fields of a bit pattern\<close>

definition inf_mag :: int where
  "inf_mag = 0x7FF0000000000000"

definition round_mag :: "rat \<Rightarrow> int" where
  "round_mag q =
     (if q \<le> 0 then 0
      else let t = max (flog2 q - 52) (- 1074)
           in min inf_mag (rne (q / pow2 t) + (t + 1074) * 0x10000000000000))"

definition f_sign :: "f64 \<Rightarrow> bool" where
  "f_sign w = (0x8000000000000000 \<le> uint w)"

definition f_mag :: "f64 \<Rightarrow> int" where
  "f_mag w = uint w mod 0x8000000000000000"

definition mag_val :: "int \<Rightarrow> rat" where
  "mag_val m =
     (if m < 0x10000000000000 then of_int m * pow2 (- 1074)
      else of_int (0x10000000000000 + m mod 0x10000000000000)
           * pow2 (m div 0x10000000000000 - 1075))"

lemma mag_val_code [code]:
  "mag_val m =
     (if m = 0 then 0
      else if m < 0x10000000000000 then of_int m * pow2 (- 1074)
      else of_int (0x10000000000000 + m mod 0x10000000000000)
           * pow2 (m div 0x10000000000000 - 1075))"
  by (simp add: mag_val_def)

definition f_isnan :: "f64 \<Rightarrow> bool" where
  "f_isnan w = (inf_mag < f_mag w)"

definition f_isinf :: "f64 \<Rightarrow> bool" where
  "f_isinf w = (f_mag w = inf_mag)"

definition f_isfinite :: "f64 \<Rightarrow> bool" where
  "f_isfinite w = (f_mag w < inf_mag)"

definition f_val :: "f64 \<Rightarrow> rat" where
  "f_val w = (if f_sign w then - mag_val (f_mag w) else mag_val (f_mag w))"

definition f_mk :: "bool \<Rightarrow> int \<Rightarrow> f64" where
  "f_mk s m = word_of_int (m + (if s then 0x8000000000000000 else 0))"

definition f_key :: "f64 \<Rightarrow> int" where
  "f_key w = (if f_sign w then - f_mag w else f_mag w)"

section \<open>Comparisons, arithmetic and conversions\<close>

definition flt :: "f64 \<Rightarrow> f64 \<Rightarrow> bool" where
  "flt a b = (\<not> f_isnan a \<and> \<not> f_isnan b \<and> f_key a < f_key b)"

definition fle :: "f64 \<Rightarrow> f64 \<Rightarrow> bool" where
  "fle a b = (\<not> f_isnan a \<and> \<not> f_isnan b \<and> f_key a \<le> f_key b)"

definition feq :: "f64 \<Rightarrow> f64 \<Rightarrow> bool" where
  "feq a b = (\<not> f_isnan a \<and> \<not> f_isnan b \<and> f_key a = f_key b)"

definition f_nan :: f64 where
  "f_nan = 0x7FF8000000000000"

definition f_inf :: f64 where
  "f_inf = 0x7FF0000000000000"

definition f_of_rat :: "rat \<Rightarrow> f64" where
  "f_of_rat q = f_mk (q < 0) (round_mag \<bar>q\<bar>)"

definition fneg :: "f64 \<Rightarrow> f64" where
  "fneg w = f_mk (\<not> f_sign w) (f_mag w)"

definition fabs :: "f64 \<Rightarrow> f64" where
  "fabs w = f_mk False (f_mag w)"

definition fadd :: "f64 \<Rightarrow> f64 \<Rightarrow> f64" where
  "fadd a b =
     (if f_isnan a \<or> f_isnan b then f_nan
      else if f_isinf a then (if f_isinf b \<and> f_sign a \<noteq> f_sign b then f_nan else a)
      else if f_isinf b then b
      else let q = f_val a + f_val b
           in if q = 0 then f_mk (f_sign a \<and> f_sign b) 0 else f_of_rat q)"

definition fsub :: "f64 \<Rightarrow> f64 \<Rightarrow> f64" where
  "fsub a b = fadd a (fneg b)"

definition fmul :: "f64 \<Rightarrow> f64 \<Rightarrow> f64" where
  "fmul a b =
     (let s = (f_sign a \<noteq> f_sign b)
      in if f_isnan a \<or> f_isnan b then f_nan
         else if f_isinf a then (if f_mag b = 0 then f_nan else f_mk s inf_mag)
         else if f_isinf b then (if f_mag a = 0 then f_nan else f_mk s inf_mag)
         else f_mk s (round_mag \<bar>f_val a * f_val b\<bar>))"

text \<open>Python raises \<open>ZeroDivisionError\<close> for every zero divisor, whatever the dividend.\<close>

definition fdiv :: "f64 \<Rightarrow> f64 \<Rightarrow> f64 res" where
  "fdiv a b =
     (let s = (f_sign a \<noteq> f_sign b)
      in if f_mag b = 0 then Inl ZeroDivisionError
         else if f_isnan a \<or> f_isnan b then Inr f_nan
         else if f_isinf a then (if f_isinf b then Inr f_nan else Inr (f_mk s inf_mag))
         else if f_isinf b then Inr (f_mk s 0)
         else Inr (f_mk s (round_mag \<bar>f_val a / f_val b\<bar>)))"

text \<open>\<open>max(a, b)\<close> and \<open>min(a, b)\<close> keep the first argument unless the second is strictly better.\<close>

definition fmax :: "f64 \<Rightarrow> f64 \<Rightarrow> f64" where
  "fmax a b = (if flt a b then b else a)"

definition fmin :: "f64 \<Rightarrow> f64 \<Rightarrow> f64" where
  "fmin a b = (if flt b a then b else a)"

text \<open>\<open>float(n)\<close> for an integer, \<open>int(x)\<close> for a float, and \<open>round(x, d)\<close>.\<close>

definition f_of_int :: "int \<Rightarrow> f64 res" where
  "f_of_int n =
     (let m = round_mag \<bar>of_int n\<bar>
      in if m = inf_mag then Inl OverflowError else Inr (f_mk (n < 0) m))"

definition f_to_int :: "f64 \<Rightarrow> int res" where
  "f_to_int w =
     (if f_isnan w then Inl ValueError
      else if f_isinf w then Inl OverflowError
      else Inr (if f_sign w then - \<lfloor>mag_val (f_mag w)\<rfloor> else \<lfloor>mag_val (f_mag w)\<rfloor>))"

definition fround :: "f64 \<Rightarrow> nat \<Rightarrow> f64" where
  "fround w d =
     (if f_isfinite w
      then f_mk (f_sign w) (round_mag (of_int (rne (mag_val (f_mag w) * 10 ^ d)) / 10 ^ d))
      else w)"

text \<open>Correctly rounded square root: the integer root of the scaled argument, then to nearest.\<close>

function isqrt_from :: "int \<Rightarrow> int \<Rightarrow> int \<Rightarrow> int" where
  "isqrt_from n lo hi =
     (if hi - lo \<le> 1 then lo
      else let mid = (lo + hi) div 2
           in if mid * mid \<le> n then isqrt_from n mid hi else isqrt_from n lo mid)"
  by pat_completeness auto
termination by (relation "measure (\<lambda>(n, lo, hi). nat (hi - lo))") auto

declare isqrt_from.simps [simp del]

definition isqrt :: "int \<Rightarrow> int" where
  "isqrt n = isqrt_from n 0 (n + 1)"

definition fsqrt :: "f64 \<Rightarrow> f64 res" where
  "fsqrt w =
     (if f_isnan w then Inr w
      else if f_mag w = 0 then Inr w
      else if f_sign w then Inl ValueError
      else if f_isinf w then Inr w
      else let q = f_val w;
               t = flog2 q div 2 - 52;
               s = q / (pow2 t * pow2 t);
               r = isqrt \<lfloor>s\<rfloor>;
               n = (if (of_int r + 1 / 2) * (of_int r + 1 / 2) < s then r + 1 else r)
           in Inr (f_mk False (round_mag (of_int n * pow2 t))))"

definition fsum :: "f64 list \<Rightarrow> f64" where
  "fsum xs = foldl fadd (f_mk False 0) xs"


text \<open>Division of a float by a count, and the squared deviations of a sample.\<close>

definition fdiv_nat :: "f64 \<Rightarrow> nat \<Rightarrow> f64 res" where
  "fdiv_nat x n = bindr (f_of_int (int n)) (fdiv x)"

text \<open>\<open>x ** 2\<close>: a finite base whose square overflows raises.\<close>

definition fsquare :: "f64 \<Rightarrow> f64 res" where
  "fsquare x = (let p = fmul x x in if f_isinf p \<and> f_isfinite x then Inl OverflowError else Inr p)"

fun squares :: "f64 \<Rightarrow> f64 list \<Rightarrow> f64 list res" where
  "squares mu [] = Inr []"
| "squares mu (v # vs) = bindr (fsquare (fsub v mu)) (\<lambda>s. bindr (squares mu vs) (\<lambda>ss. Inr (s # ss)))"


section \<open>Powers of two and the binary logarithm\<close>

lemma pow2_powi: "pow2 k = 2 powi k"
  by (simp add: pow2_def power_int_def power_one_over inverse_eq_divide)

lemma pow2_pos [simp]: "0 < pow2 k"
  by (simp add: pow2_powi)

lemma pow2_nonneg [simp]: "0 \<le> pow2 k"
  using pow2_pos [of k] by linarith

lemma pow2_nz [simp]: "pow2 k \<noteq> 0"
  using pow2_pos [of k] by linarith

lemma pow2_add: "pow2 (a + b) = pow2 a * pow2 b"
  by (simp add: pow2_powi power_int_add)

lemma pow2_Suc: "pow2 (a + 1) = 2 * pow2 a"
  by (simp add: pow2_powi power_int_add)

lemma pow2_mono: "a \<le> b \<Longrightarrow> pow2 a \<le> pow2 b"
  by (simp add: pow2_powi power_int_increasing)

lemma pow2_strict_mono: "a < b \<Longrightarrow> pow2 a < pow2 b"
  by (simp add: pow2_powi power_int_strict_increasing)

lemma pow2_less_iff: "pow2 a < pow2 b \<longleftrightarrow> a < b"
  by (meson pow2_mono pow2_strict_mono not_le)

lemma nlog2_bounds:
  "1 \<le> n \<Longrightarrow> 0 \<le> nlog2 n \<and> 2 ^ nat (nlog2 n) \<le> n \<and> n < 2 * 2 ^ nat (nlog2 n)"
proof (induction n rule: nlog2.induct)
  case (1 n)
  show ?case
  proof (cases "n < 2")
    case True
    with "1.prems" show ?thesis by (simp add: nlog2.simps [of n])
  next
    case False
    let ?m = "nlog2 (n div 2)"
    have IH: "0 \<le> ?m \<and> 2 ^ nat ?m \<le> n div 2 \<and> n div 2 < 2 * 2 ^ nat ?m"
      using "1.IH" [OF False] False by simp
    have eq: "nlog2 n = 1 + ?m" using False by (simp add: nlog2.simps [of n])
    have "(2::int) ^ nat (1 + ?m) = 2 * 2 ^ nat ?m"
      using IH by (simp add: nat_add_distrib)
    then show ?thesis using IH unfolding eq by linarith
  qed
qed

lemma nlog2_pow2:
  assumes "1 \<le> n"
  shows "pow2 (nlog2 n) \<le> of_int n \<and> of_int n < pow2 (nlog2 n + 1)"
proof -
  note b = nlog2_bounds [OF assms]
  have e: "pow2 (nlog2 n) = of_int (2 ^ nat (nlog2 n))" using b by (simp add: pow2_def)
  have "(of_int (2 ^ nat (nlog2 n)) :: rat) \<le> of_int n" using b by (simp only: of_int_le_iff)
  moreover have "(of_int n :: rat) < of_int (2 * 2 ^ nat (nlog2 n))"
    using b by (simp only: of_int_less_iff)
  ultimately show ?thesis unfolding pow2_Suc e by simp
qed

lemma flog2_bounds:
  assumes "0 < q"
  shows "pow2 (flog2 q) \<le> q" and "q < pow2 (flog2 q + 1)"
proof -
  obtain a b where ab: "quotient_of q = (a, b)" by (cases "quotient_of q")
  have b: "0 < b" using ab by (rule quotient_of_denom_pos)
  have q: "q = of_int a / of_int b" using ab by (rule quotient_of_div)
  have a: "0 < a" using assms b by (simp add: q zero_less_divide_iff)
  define k where "k = nlog2 a - nlog2 b"
  have A: "pow2 (nlog2 a) \<le> of_int a" "of_int a < pow2 (nlog2 a + 1)"
    using nlog2_pow2 [of a] a by auto
  have B: "pow2 (nlog2 b) \<le> of_int b" "of_int b < pow2 (nlog2 b + 1)"
    using nlog2_pow2 [of b] b by auto
  have up: "q < pow2 (k + 1)"
  proof -
    have "of_int a < pow2 (nlog2 a + 1)" by (rule A)
    also have "\<dots> = pow2 (k + 1) * pow2 (nlog2 b)"
      by (simp add: k_def flip: pow2_add)
    also have "\<dots> \<le> pow2 (k + 1) * of_int b" using B by (intro mult_left_mono) auto
    finally show ?thesis using b by (simp add: q pos_divide_less_eq)
  qed
  have lo: "pow2 (k - 1) < q"
  proof -
    have "pow2 (k - 1) * of_int b < pow2 (k - 1) * pow2 (nlog2 b + 1)"
      using B by (intro mult_strict_left_mono) auto
    also have "\<dots> = pow2 (nlog2 a)" by (simp add: k_def flip: pow2_add)
    also have "\<dots> \<le> of_int a" by (rule A)
    finally show ?thesis using b by (simp add: q pos_less_divide_eq)
  qed
  have f: "flog2 q = (if pow2 k \<le> q then k else k - 1)"
    by (simp add: flog2_def ab k_def)
  show "pow2 (flog2 q) \<le> q" using lo by (simp add: f)
  show "q < pow2 (flog2 q + 1)" using up by (simp add: f)
qed

lemma flog2_mono:
  assumes "0 < p" and "p \<le> q"
  shows "flog2 p \<le> flog2 q"
proof -
  have "pow2 (flog2 p) \<le> p" using assms by (intro flog2_bounds)
  also have "\<dots> \<le> q" by (rule assms)
  also have "\<dots> < pow2 (flog2 q + 1)" using assms by (intro flog2_bounds) simp
  finally show ?thesis by (simp add: pow2_less_iff)
qed

lemma flog2_unique:
  assumes "pow2 e \<le> q" and "q < pow2 (e + 1)"
  shows "flog2 q = e"
proof -
  have q: "0 < q" using assms(1) pow2_pos [of e] by linarith
  have "pow2 e < pow2 (flog2 q + 1)" using assms(1) flog2_bounds(2) [OF q] by linarith
  moreover have "pow2 (flog2 q) < pow2 (e + 1)" using assms(2) flog2_bounds(1) [OF q] by linarith
  ultimately show ?thesis by (simp add: pow2_less_iff)
qed

section \<open>Rounding\<close>

lemma rne_of_int [simp]: "rne (of_int n) = n"
  by (simp add: rne_def)

lemma rne_near: "\<lfloor>x\<rfloor> \<le> rne x" "rne x \<le> \<lfloor>x\<rfloor> + 1"
  by (auto simp: rne_def Let_def)

lemma rne_mono: assumes "x \<le> y" shows "rne x \<le> rne y"
proof (cases "\<lfloor>x\<rfloor> = \<lfloor>y\<rfloor>")
  case True
  then show ?thesis using assms by (auto simp: rne_def Let_def)
next
  case False
  then have "\<lfloor>x\<rfloor> + 1 \<le> \<lfloor>y\<rfloor>" using floor_mono [OF assms] by linarith
  then show ?thesis using rne_near [of x] rne_near [of y] by linarith
qed

lemma rne_le_int: "x \<le> of_int n \<Longrightarrow> rne x \<le> n"
  using rne_mono [of x "of_int n"] by simp

lemma rne_ge_int: "of_int n \<le> x \<Longrightarrow> n \<le> rne x"
  using rne_mono [of "of_int n" x] by simp

definition quantum :: "rat \<Rightarrow> int" where
  "quantum q = max (flog2 q - 52) (- 1074)"

lemma scaled_bounds:
  assumes "0 < q"
  shows "q / pow2 (quantum q) \<le> 2 ^ 53"
    and "quantum q \<noteq> - 1074 \<Longrightarrow> 2 ^ 52 \<le> q / pow2 (quantum q)"
proof -
  have "q \<le> pow2 (flog2 q + 1)" using flog2_bounds(2) [OF assms] by simp
  also have "\<dots> \<le> pow2 (quantum q + 53)" by (rule pow2_mono) (simp add: quantum_def)
  also have "\<dots> = 2 ^ 53 * pow2 (quantum q)"
    unfolding pow2_add by (simp add: pow2_def [of 53])
  finally show "q / pow2 (quantum q) \<le> 2 ^ 53" by (simp add: pos_divide_le_eq)
next
  assume "quantum q \<noteq> - 1074"
  then have e: "flog2 q = quantum q + 52" by (simp add: quantum_def)
  have "2 ^ 52 * pow2 (quantum q) = pow2 (flog2 q)"
    unfolding e pow2_add by (simp add: pow2_def [of 52])
  also have "\<dots> \<le> q" using flog2_bounds(1) [OF assms] .
  finally show "2 ^ 52 \<le> q / pow2 (quantum q)" by (simp add: pos_le_divide_eq)
qed

definition raw_mag :: "rat \<Rightarrow> int" where
  "raw_mag q = rne (q / pow2 (quantum q)) + (quantum q + 1074) * 0x10000000000000"

lemma round_mag_raw: "0 < q \<Longrightarrow> round_mag q = min inf_mag (raw_mag q)"
  by (simp add: round_mag_def raw_mag_def quantum_def Let_def)

lemma raw_mag_mono:
  assumes "0 < p" and "p \<le> q"
  shows "raw_mag p \<le> raw_mag q"
proof (cases "quantum p = quantum q")
  case True
  have "rne (p / pow2 (quantum q)) \<le> rne (q / pow2 (quantum q))"
    using assms by (intro rne_mono divide_right_mono) auto
  then show ?thesis by (simp add: raw_mag_def True)
next
  case False
  have q: "0 < q" using assms by simp
  have "quantum p \<le> quantum q" using flog2_mono [OF assms] by (auto simp: quantum_def)
  with False have lt: "quantum p + 1 \<le> quantum q" by linarith
  have "- 1074 \<le> quantum p" by (simp add: quantum_def)
  with lt have "quantum q \<noteq> - 1074" by linarith
  then have "of_int (2 ^ 52) \<le> q / pow2 (quantum q)" using scaled_bounds(2) [OF q] by simp
  then have hi: "2 ^ 52 \<le> rne (q / pow2 (quantum q))" by (rule rne_ge_int)
  have "p / pow2 (quantum p) \<le> of_int (2 ^ 53)" using scaled_bounds(1) [OF assms(1)] by simp
  then have lo: "rne (p / pow2 (quantum p)) \<le> 2 ^ 53" by (rule rne_le_int)
  have "(quantum p + 1074) * 0x10000000000000 + 0x10000000000000
          \<le> (quantum q + 1074) * 0x10000000000000"
    using lt by (simp flip: distrib_right)
  with hi lo show ?thesis by (simp add: raw_mag_def)
qed

lemma raw_mag_nonneg: assumes "0 < q" shows "0 \<le> raw_mag q"
proof -
  have "0 \<le> rne (q / pow2 (quantum q))"
    by (rule rne_ge_int) (use assms in simp)
  moreover have "0 \<le> quantum q + 1074" by (simp add: quantum_def)
  ultimately show ?thesis by (simp add: raw_mag_def)
qed

lemma round_mag_range: "0 \<le> round_mag q" "round_mag q \<le> inf_mag"
  using raw_mag_nonneg [of q]
  by (auto simp: round_mag_raw round_mag_def inf_mag_def Let_def split: if_splits)
     (auto simp: raw_mag_def quantum_def)

lemma round_mag_mono: assumes "p \<le> q" shows "round_mag p \<le> round_mag q"
proof (cases "0 < p")
  case True
  then show ?thesis using raw_mag_mono [OF True assms] assms by (simp add: round_mag_raw)
next
  case False
  then show ?thesis using round_mag_range(1) [of q] by (simp add: round_mag_def)
qed


section \<open>Values of bit patterns\<close>

lemma mag_val_0 [simp]: "mag_val 0 = 0"
  by (simp add: mag_val_def)

lemma raw_mag_mag_val:
  assumes "0 < m"
  shows "0 < mag_val m" and "raw_mag (mag_val m) = m"
proof -
  have "0 < mag_val m \<and> raw_mag (mag_val m) = m"
  proof (cases "m < 0x10000000000000")
    case True
    have v: "mag_val m = of_int m * pow2 (- 1074)" using True by (simp add: mag_val_def)
    have pos: "0 < mag_val m" using assms by (simp add: v)
    have "mag_val m < of_int 0x10000000000000 * pow2 (- 1074)"
      unfolding v using True by (intro mult_strict_right_mono) (simp_all only: of_int_less_iff pow2_pos)
    also have "\<dots> = pow2 (52 + (- 1074))" unfolding pow2_add by (simp add: pow2_def [of 52])
    finally have "pow2 (flog2 (mag_val m)) < pow2 (- 1022)"
      using flog2_bounds(1) [OF pos] by simp
    then have "quantum (mag_val m) = - 1074" by (simp add: pow2_less_iff quantum_def)
    then show ?thesis using pos by (simp add: raw_mag_def v)
  next
    case False
    define e where "e = m div 0x10000000000000"
    define r where "r = m mod 0x10000000000000"
    have m: "m = e * 0x10000000000000 + r" by (simp add: e_def r_def)
    have e: "1 \<le> e" using False by (simp add: e_def)
    have r: "0 \<le> r" "r < 0x10000000000000" by (simp_all add: r_def)
    have v: "mag_val m = of_int (0x10000000000000 + r) * pow2 (e - 1075)"
      using False by (simp add: mag_val_def e_def r_def)
    have pos: "0 < mag_val m" using r by (simp add: v)
    have "of_int 0x10000000000000 * pow2 (e - 1075) \<le> mag_val m"
      unfolding v using r by (intro mult_right_mono) (simp_all only: of_int_le_iff pow2_nonneg)
    moreover have "of_int 0x10000000000000 * pow2 (e - 1075) = pow2 (52 + (e - 1075))"
      unfolding pow2_add by (simp add: pow2_def [of 52])
    ultimately have lo: "pow2 (e - 1023) \<le> mag_val m" by simp
    have "mag_val m < of_int 0x20000000000000 * pow2 (e - 1075)"
      unfolding v using r by (intro mult_strict_right_mono) (simp_all only: of_int_less_iff pow2_pos)
    moreover have "of_int 0x20000000000000 * pow2 (e - 1075) = pow2 (53 + (e - 1075))"
      unfolding pow2_add by (simp add: pow2_def [of 53])
    ultimately have hi: "mag_val m < pow2 (e - 1023 + 1)" by simp
    have "flog2 (mag_val m) = e - 1023" by (rule flog2_unique [OF lo hi])
    then have "quantum (mag_val m) = e - 1075" using e by (simp add: quantum_def)
    moreover have "mag_val m / pow2 (e - 1075) = of_int (0x10000000000000 + r)"
      by (simp add: v)
    ultimately have "raw_mag (mag_val m) = (0x10000000000000 + r) + (e - 1) * 0x10000000000000"
      unfolding raw_mag_def by (simp only: rne_of_int) (simp add: algebra_simps)
    then show ?thesis using pos by (simp add: m)
  qed
  then show "0 < mag_val m" and "raw_mag (mag_val m) = m" by auto
qed

lemma mag_val_nonneg: "0 \<le> m \<Longrightarrow> 0 \<le> mag_val m"
  using raw_mag_mag_val(1) [of m] by (cases "m = 0") auto

lemma round_mag_mag_val: "0 \<le> m \<Longrightarrow> m \<le> inf_mag \<Longrightarrow> round_mag (mag_val m) = m"
  using raw_mag_mag_val [of m] round_mag_raw [of "mag_val m"]
  by (cases "m = 0") (simp_all add: round_mag_def [of 0])

lemma mag_val_less_iff:
  assumes "0 \<le> m" and "0 \<le> n"
  shows "mag_val m < mag_val n \<longleftrightarrow> m < n"
proof -
  have *: "m \<le> n" if "0 \<le> m" "0 \<le> n" "mag_val m \<le> mag_val n" for m n
    using that raw_mag_mono [of "mag_val m" "mag_val n"] raw_mag_mag_val [of m] raw_mag_mag_val [of n]
    by (cases "m = 0"; cases "n = 0") auto
  show ?thesis
  proof
    assume lt: "mag_val m < mag_val n"
    then have "m \<le> n" using * [OF assms] by simp
    moreover have "m \<noteq> n" using lt by auto
    ultimately show "m < n" by simp
  next
    assume "m < n"
    then show "mag_val m < mag_val n" using * [OF assms(2,1)] by (meson not_le)
  qed
qed

lemma f_mag_range: "0 \<le> f_mag w" "f_mag w < 0x8000000000000000"
  by (simp_all add: f_mag_def)

lemma f_mk_fields:
  assumes "0 \<le> m" and "m < 0x8000000000000000"
  shows "f_mag (f_mk s m) = m" and "f_sign (f_mk s m) = s"
proof -
  have u: "uint (f_mk s m) = m + (if s then 0x8000000000000000 else 0)"
    unfolding f_mk_def using assms by (simp only: uint_word_of_int) (simp add: mod_pos_pos_trivial)
  show "f_mag (f_mk s m) = m" using assms by (simp add: f_mag_def u)
  show "f_sign (f_mk s m) = s" using assms by (simp add: f_sign_def u)
qed

lemma mod_within_double:
  assumes "0 \<le> (u::int)" and "u < 2 * M" and "0 < M"
  shows "u mod M = (if M \<le> u then u - M else u)"
proof (cases "M \<le> u")
  case True
  have "u mod M = (u - M) mod M" by simp
  also have "\<dots> = u - M" using True assms by (intro mod_pos_pos_trivial) auto
  finally show ?thesis using True by simp
qed (use assms in simp)

lemma f_mk_ident [simp]: "f_mk (f_sign w) (f_mag w) = w"
proof -
  have r: "0 \<le> uint w" "uint w < 0x10000000000000000"
    using uint_range_size [of w] by (simp_all add: word_size)
  have "uint w mod 0x8000000000000000
      = (if 0x8000000000000000 \<le> uint w then uint w - 0x8000000000000000 else uint w)"
    using r by (intro mod_within_double) simp_all
  then have "f_mag w + (if f_sign w then 0x8000000000000000 else 0) = uint w"
    by (simp add: f_mag_def f_sign_def)
  then show ?thesis unfolding f_mk_def by (simp only: word_of_int_uint)
qed

lemma round_mag_bound: "round_mag q < 0x8000000000000000"
  using round_mag_range(2) [of q] by (simp add: inf_mag_def)

lemma f_mk_round [simp]:
  "f_mag (f_mk s (round_mag q)) = round_mag q"
  "f_sign (f_mk s (round_mag q)) = s"
  using f_mk_fields [OF round_mag_range(1) round_mag_bound] by auto

lemma f_mk_zero [simp]: "f_mag (f_mk s 0) = 0" "f_sign (f_mk s 0) = s"
  by (simp_all add: f_mk_fields)

lemma f_mk_inf [simp]: "f_mag (f_mk s inf_mag) = inf_mag" "f_sign (f_mk s inf_mag) = s"
  by (simp_all add: f_mk_fields inf_mag_def)

lemma fabs_fields [simp]: "f_mag (fabs w) = f_mag w" "f_sign (fabs w) = False"
  using f_mk_fields [OF f_mag_range] by (auto simp: fabs_def)

lemma fneg_fields [simp]: "f_mag (fneg w) = f_mag w" "f_sign (fneg w) = (\<not> f_sign w)"
  using f_mk_fields [OF f_mag_range] by (auto simp: fneg_def)

lemma isnan_cases: "f_isfinite w \<or> f_isinf w \<or> f_isnan w"
  by (auto simp: f_isfinite_def f_isinf_def f_isnan_def)

lemma isfinite_not: "f_isfinite w \<Longrightarrow> \<not> f_isnan w \<and> \<not> f_isinf w"
  by (auto simp: f_isfinite_def f_isinf_def f_isnan_def)

section \<open>Order\<close>

definition rkey :: "rat \<Rightarrow> int" where
  "rkey q = (if q < 0 then - round_mag (- q) else round_mag q)"

lemma rkey_0 [simp]: "rkey 0 = 0"
  by (simp add: rkey_def round_mag_def)

lemma rkey_mono: assumes "p \<le> q" shows "rkey p \<le> rkey q"
proof (cases "q < 0")
  case True
  then show ?thesis using assms round_mag_mono [of "- q" "- p"] by (simp add: rkey_def)
next
  case False
  then show ?thesis
    using round_mag_mono [OF assms] round_mag_range(1) [of "- p"] round_mag_range(1) [of q]
    by (auto simp: rkey_def)
qed

lemma rkey_val: assumes "f_isfinite w" shows "rkey (f_val w) = f_key w"
proof -
  have m: "0 \<le> f_mag w" "f_mag w \<le> inf_mag"
    using f_mag_range [of w] assms by (simp_all add: f_isfinite_def)
  note rm = round_mag_mag_val [OF m]
  show ?thesis
  proof (cases "f_mag w = 0")
    case True
    then show ?thesis by (simp add: f_val_def f_key_def)
  next
    case False
    then have "0 < mag_val (f_mag w)" using m by (intro raw_mag_mag_val) simp
    then show ?thesis by (simp add: rkey_def f_val_def f_key_def rm)
  qed
qed

lemma f_key_less_val:
  "f_key a < f_key b \<longleftrightarrow> f_val a < f_val b"
proof -
  note r = f_mag_range(1) [of a] f_mag_range(1) [of b]
  note n = mag_val_nonneg [OF r(1)] mag_val_nonneg [OF r(2)]
  have z: "mag_val (f_mag x) = 0 \<longleftrightarrow> f_mag x = 0" for x
    using raw_mag_mag_val(1) [of "f_mag x"] f_mag_range(1) [of x] by force
  show ?thesis
    using mag_val_less_iff [OF r] mag_val_less_iff [OF r(2) r(1)] n z [of a] z [of b] r
    by (auto simp: f_key_def f_val_def)
qed

lemma f_key_le_val: "f_key a \<le> f_key b \<longleftrightarrow> f_val a \<le> f_val b"
  using f_key_less_val [of b a] by (simp add: not_less [symmetric])

lemma flt_val: "f_isfinite a \<Longrightarrow> f_isfinite b \<Longrightarrow> flt a b \<longleftrightarrow> f_val a < f_val b"
  by (auto simp: flt_def f_key_less_val dest: isfinite_not)

lemma fle_val: "f_isfinite a \<Longrightarrow> f_isfinite b \<Longrightarrow> fle a b \<longleftrightarrow> f_val a \<le> f_val b"
  by (auto simp: fle_def f_key_le_val dest: isfinite_not)

lemma fle_refl: "\<not> f_isnan a \<Longrightarrow> fle a a"
  by (simp add: fle_def)

lemma fle_trans: "fle a b \<Longrightarrow> fle b c \<Longrightarrow> fle a c"
  by (auto simp: fle_def)

lemma fle_total: "\<not> f_isnan a \<Longrightarrow> \<not> f_isnan b \<Longrightarrow> fle a b \<or> fle b a"
  by (auto simp: fle_def)

lemma not_flt: "\<not> f_isnan a \<Longrightarrow> \<not> f_isnan b \<Longrightarrow> \<not> flt a b \<longleftrightarrow> fle b a"
  by (auto simp: flt_def fle_def)

lemma flt_irrefl [simp]: "\<not> flt a a"
  by (simp add: flt_def)

lemma flt_imp_fle: "flt a b \<Longrightarrow> fle a b"
  by (auto simp: flt_def fle_def)

section \<open>Arithmetic on finite values\<close>

lemma f_val_fneg [simp]: "f_val (fneg a) = - f_val a"
  by (simp add: f_val_def)

lemma f_val_fabs [simp]: "f_val (fabs a) = \<bar>f_val a\<bar>"
  using mag_val_nonneg [OF f_mag_range(1), of a] by (simp add: f_val_def)

lemma isfinite_fneg [simp]: "f_isfinite (fneg a) = f_isfinite a"
  by (simp add: f_isfinite_def)

lemma isnan_fneg [simp]: "f_isnan (fneg a) = f_isnan a"
  by (simp add: f_isnan_def)

lemma isfinite_fabs [simp]: "f_isfinite (fabs a) = f_isfinite a"
  by (simp add: f_isfinite_def)

lemma round_not_nan [simp]: "\<not> f_isnan (f_mk s (round_mag q))"
  using round_mag_range(2) [of q] by (simp add: f_isnan_def)

lemma key_of_rat [simp]: "f_key (f_of_rat q) = rkey q" "\<not> f_isnan (f_of_rat q)"
  by (simp_all add: f_of_rat_def f_key_def rkey_def)

lemma zero_not_nan [simp]: "\<not> f_isnan (f_mk s 0)"
  by (simp add: f_isnan_def inf_mag_def)

lemma fadd_key:
  assumes "f_isfinite a" and "f_isfinite b"
  shows "f_key (fadd a b) = rkey (f_val a + f_val b)" and "\<not> f_isnan (fadd a b)"
proof -
  note nf = isfinite_not [OF assms(1)] isfinite_not [OF assms(2)]
  have "fadd a b = (if f_val a + f_val b = 0 then f_mk (f_sign a \<and> f_sign b) 0
                    else f_of_rat (f_val a + f_val b))"
    using nf by (simp add: fadd_def Let_def)
  then show "f_key (fadd a b) = rkey (f_val a + f_val b)" and "\<not> f_isnan (fadd a b)"
    by (simp_all add: f_key_def [of "f_mk _ 0"])
qed

lemma fsub_key:
  assumes "f_isfinite a" and "f_isfinite b"
  shows "f_key (fsub a b) = rkey (f_val a - f_val b)" and "\<not> f_isnan (fsub a b)"
  using fadd_key [of a "fneg b"] assms by (simp_all add: fsub_def)

lemma f_val_sign: "f_sign a \<Longrightarrow> f_val a \<le> 0" "\<not> f_sign a \<Longrightarrow> 0 \<le> f_val a"
  using mag_val_nonneg [OF f_mag_range(1), of a] by (simp_all add: f_val_def)

lemma signed_round_key:
  assumes "s \<longrightarrow> q \<le> 0" and "\<not> s \<longrightarrow> 0 \<le> q"
  shows "f_key (f_mk s (round_mag \<bar>q\<bar>)) = rkey q"
proof (cases s)
  case True
  then show ?thesis
    using assms by (cases "q = 0") (simp_all add: f_key_def rkey_def round_mag_def [of 0])
qed (use assms in \<open>simp add: f_key_def rkey_def\<close>)

lemma fmul_key:
  assumes "f_isfinite a" and "f_isfinite b"
  shows "f_key (fmul a b) = rkey (f_val a * f_val b)" and "\<not> f_isnan (fmul a b)"
proof -
  note nf = isfinite_not [OF assms(1)] isfinite_not [OF assms(2)]
  have e: "fmul a b = f_mk (f_sign a \<noteq> f_sign b) (round_mag \<bar>f_val a * f_val b\<bar>)"
    using nf by (simp add: fmul_def Let_def)
  have "(f_sign a \<noteq> f_sign b) \<longrightarrow> f_val a * f_val b \<le> 0"
    using f_val_sign [of a] f_val_sign [of b] by (auto intro: mult_nonneg_nonpos mult_nonpos_nonneg)
  moreover have "\<not> (f_sign a \<noteq> f_sign b) \<longrightarrow> 0 \<le> f_val a * f_val b"
    using f_val_sign [of a] f_val_sign [of b] by (auto intro: mult_nonneg_nonneg mult_nonpos_nonpos)
  ultimately show "f_key (fmul a b) = rkey (f_val a * f_val b)"
    unfolding e by (rule signed_round_key)
  show "\<not> f_isnan (fmul a b)" by (simp add: e)
qed

lemma mag_val_eq_0: "mag_val (f_mag w) = 0 \<longleftrightarrow> f_mag w = 0"
  using raw_mag_mag_val(1) [of "f_mag w"] f_mag_range(1) [of w] by force

lemma f_val_eq_0: "f_val w = 0 \<longleftrightarrow> f_mag w = 0"
  by (simp add: f_val_def mag_val_eq_0)

lemma fdiv_key:
  assumes "f_isfinite a" and "f_isfinite b" and "f_val b \<noteq> 0"
  obtains c where "fdiv a b = Inr c" and "f_key c = rkey (f_val a / f_val b)" and "\<not> f_isnan c"
proof -
  note nf = isfinite_not [OF assms(1)] isfinite_not [OF assms(2)]
  let ?s = "f_sign a \<noteq> f_sign b"
  have "fdiv a b = Inr (f_mk ?s (round_mag \<bar>f_val a / f_val b\<bar>))"
    using nf assms(3) by (simp add: fdiv_def Let_def f_val_eq_0)
  moreover have "?s \<longrightarrow> f_val a / f_val b \<le> 0" "\<not> ?s \<longrightarrow> 0 \<le> f_val a / f_val b"
    using f_val_sign [of a] f_val_sign [of b]
    by (auto intro: divide_nonneg_nonpos divide_nonpos_nonneg divide_nonneg_nonneg divide_nonpos_nonpos)
  ultimately show thesis using signed_round_key [of ?s "f_val a / f_val b"] that round_not_nan by blast
qed

lemma finite_between:
  assumes "\<not> f_isnan w" and "f_isfinite a" and "f_isfinite b"
    and "f_key a \<le> f_key w" and "f_key w \<le> f_key b"
  shows "f_isfinite w"
  using assms f_mag_range(1) [of w] f_mag_range(1) [of a] f_mag_range(1) [of b]
  by (auto simp: f_isfinite_def f_isnan_def f_key_def split: if_splits)

lemma fle_keyI: "\<not> f_isnan a \<Longrightarrow> \<not> f_isnan b \<Longrightarrow> f_key a \<le> f_key b \<Longrightarrow> fle a b"
  by (simp add: fle_def)

lemma fadd_mono:
  assumes "f_isfinite a" "f_isfinite b" "f_isfinite a'" "f_isfinite b'" "fle a a'" "fle b b'"
  shows "fle (fadd a b) (fadd a' b')"
  using assms by (intro fle_keyI) (simp_all add: fadd_key fle_val rkey_mono add_mono)

lemma fmul_mono:
  assumes "f_isfinite a" "f_isfinite b" "f_isfinite a'" "f_isfinite b'" "fle a a'" "fle b b'"
    and "0 \<le> f_val a" "0 \<le> f_val b"
  shows "fle (fmul a b) (fmul a' b')"
  using assms by (intro fle_keyI) (simp_all add: fmul_key fle_val rkey_mono mult_mono)

lemma fsub_le:
  assumes "f_isfinite x" and "f_isfinite t" and "0 \<le> f_val t"
  shows "fle (fsub x t) x"
proof (rule fle_keyI)
  have "rkey (f_val x - f_val t) \<le> rkey (f_val x)" using assms(3) by (intro rkey_mono) simp
  then show "f_key (fsub x t) \<le> f_key x" by (simp add: fsub_key assms rkey_val)
qed (use assms in \<open>auto simp: fsub_key dest: isfinite_not\<close>)

lemma fmin_le: "\<not> f_isnan a \<Longrightarrow> \<not> f_isnan b \<Longrightarrow> fle (fmin a b) a \<and> fle (fmin a b) b"
  by (auto simp: fmin_def flt_def fle_def)

lemma fmax_ge: "\<not> f_isnan a \<Longrightarrow> \<not> f_isnan b \<Longrightarrow> fle a (fmax a b) \<and> fle b (fmax a b)"
  by (auto simp: fmax_def flt_def fle_def)

text \<open>\<open>max(0.0, x)\<close> is never negative and never a NaN, whatever \<open>x\<close> is.\<close>

lemma fmax_zero_nonneg: "fle (f_mk False 0) (fmax (f_mk False 0) x)"
  by (auto simp: fmax_def flt_def fle_def)

text \<open>Integers from here on have no finite double.\<close>

definition F_OVERFLOW :: rat where
  "F_OVERFLOW = (2 ^ 54 - 1) * 2 ^ 970"

lemma raw_mag_overflow: "raw_mag F_OVERFLOW = inf_mag"
proof -
  have p: "pow2 1023 \<le> F_OVERFLOW" "F_OVERFLOW < pow2 (1023 + 1)" by (simp_all add: F_OVERFLOW_def pow2_def)
  then have "quantum F_OVERFLOW = 971" by (simp add: quantum_def flog2_unique [OF p])
  moreover have e: "F_OVERFLOW / pow2 971 = of_int (2 ^ 53 - 1) + 1 / 2" by (simp add: F_OVERFLOW_def pow2_def)
  moreover have "\<lfloor>18014398509481983 / 2 :: rat\<rfloor> = 9007199254740991" by (rule floor_unique) simp_all
  then have "rne (of_int (2 ^ 53 - 1) + 1 / 2) = 2 ^ 53" by (simp add: rne_def Let_def)
  ultimately show ?thesis unfolding raw_mag_def by (simp only: e) (simp add: inf_mag_def)
qed

lemma round_mag_overflow: "F_OVERFLOW \<le> q \<Longrightarrow> round_mag q = inf_mag"
proof -
  assume q: "F_OVERFLOW \<le> q"
  have pos: "0 < F_OVERFLOW" by (simp add: F_OVERFLOW_def)
  have "inf_mag \<le> raw_mag q" using raw_mag_mono [OF pos q] by (simp add: raw_mag_overflow)
  then show ?thesis using q pos by (simp add: round_mag_raw)
qed

lemma f_of_int_overflow: "F_OVERFLOW \<le> of_int n \<Longrightarrow> f_of_int n = Inl OverflowError"
  using round_mag_overflow [of "of_int n"] by (auto simp: f_of_int_def F_OVERFLOW_def)

lemma fsquare_overflow:
  assumes "f_isfinite a" and "F_OVERFLOW \<le> f_val a * f_val a"
  shows "fsquare a = Inl OverflowError"
  using assms isfinite_not [OF assms(1)] round_mag_overflow [OF assms(2)]
  by (simp add: fsquare_def fmul_def Let_def f_isinf_def)

end
