(* ===== verification/Consensus.thy ===== *)
theory Consensus
  imports Pyfloat "HOL-Library.List_Lexorder" "HOL-Library.Char_ord"
begin

text \<open>
  Leases and fencing of \<open>consensus.py\<close>: the writer that rejects stale or expired epoch tokens and
  the in-process coordinator that hands the tokens out to a majority.  The interface between a
  fence and its clients is the locale \<open>fence\<close>: whatever happens, the level never falls, and a
  token below the level is not admitted.  The clock readings \<open>time.time()\<close> are arguments.
\<close>

section \<open>The contract of a fence\<close>

locale fence =
  fixes level :: "'s \<Rightarrow> int"
    and step :: "'s \<Rightarrow> 'e \<Rightarrow> 's"
    and inv :: "'s \<Rightarrow> bool"
    and okev :: "'e \<Rightarrow> bool"
    and admits :: "'s \<Rightarrow> 't \<Rightarrow> bool"
    and ep :: "'t \<Rightarrow> int"
  assumes inv_step: "inv s \<Longrightarrow> okev e \<Longrightarrow> inv (step s e)"
    and level_step: "inv s \<Longrightarrow> okev e \<Longrightarrow> level s \<le> level (step s e)"
    and admits_level: "inv s \<Longrightarrow> admits s t \<Longrightarrow> level s \<le> ep t"
begin

lemma run_inv: "inv s \<Longrightarrow> list_all okev es \<Longrightarrow> inv (foldl step s es)"
  by (induction es arbitrary: s) (auto simp: inv_step)

lemma run_level: "inv s \<Longrightarrow> list_all okev es \<Longrightarrow> level s \<le> level (foldl step s es)"
proof (induction es arbitrary: s)
  case (Cons e es)
  have "level s \<le> level (step s e)" using Cons.prems by (simp add: level_step)
  also have "\<dots> \<le> level (foldl step s (e # es))" using Cons by (simp add: inv_step)
  finally show ?case .
qed simp

lemma stale_forever:
  assumes "inv s" and "list_all okev es" and "ep t < level s"
  shows "\<not> admits (foldl step s es) t"
proof
  assume "admits (foldl step s es) t"
  then have "level (foldl step s es) \<le> ep t" by (rule admits_level [OF run_inv [OF assms(1,2)]])
  then show False using run_level [OF assms(1,2)] assms(3) by simp
qed

end

section \<open>Tokens and the fenced writer\<close>

record epoch_token =
  tk_epoch :: int
  tk_leader :: string
  tk_issued :: f64
  tk_lease :: f64

definition is_expired :: "epoch_token \<Rightarrow> f64 \<Rightarrow> bool" where
  "is_expired t now = flt (fadd (tk_issued t) (tk_lease t)) now"

record fenced_writer =
  fw_partition :: string
  fw_highest :: int
  fw_leader :: "string option"
  fw_rejected :: int
  fw_accepted :: int

definition writer_init :: "string \<Rightarrow> fenced_writer" where
  "writer_init p = \<lparr>fw_partition = p, fw_highest = 0, fw_leader = None, fw_rejected = 0, fw_accepted = 0\<rparr>"

definition validate_write ::
  "fenced_writer \<Rightarrow> epoch_token \<Rightarrow> f64 \<Rightarrow> fenced_writer \<times> unit res" where
  "validate_write w t now =
     (if is_expired t now
      then (w\<lparr>fw_rejected := fw_rejected w + 1\<rparr>, raise FencingTokenError)
      else if tk_epoch t < fw_highest w
      then (w\<lparr>fw_rejected := fw_rejected w + 1\<rparr>, raise FencingTokenError)
      else let w1 = (if fw_highest w < tk_epoch t
                     then w\<lparr>fw_highest := tk_epoch t, fw_leader := Some (tk_leader t)\<rparr> else w)
           in (w1\<lparr>fw_accepted := fw_accepted w1 + 1\<rparr>, ret ()))"

definition writer_stats :: "fenced_writer \<Rightarrow> string \<times> int \<times> string option \<times> int \<times> int" where
  "writer_stats w = (fw_partition w, fw_highest w, fw_leader w, fw_accepted w, fw_rejected w)"

section \<open>The coordinator\<close>

record coordinator =
  cc_node :: string
  cc_nodes :: "string list"
  cc_quorum :: nat
  cc_lease :: f64
  cc_epoch :: int
  cc_leader :: "string option"
  cc_token :: "epoch_token option"
  cc_heartbeats :: "(string, f64) dict"
  cc_isolated :: "string list"

text \<open>\<open>now\<close> gives the clock reading at which a node's first heartbeat is entered.\<close>

definition coordinator_init ::
  "string \<Rightarrow> string list \<Rightarrow> f64 \<Rightarrow> int \<Rightarrow> (string \<Rightarrow> f64) \<Rightarrow> coordinator" where
  "coordinator_init node nodes lease epoch now =
     (let ns = sort (remdups nodes)
      in \<lparr>cc_node = node, cc_nodes = ns, cc_quorum = length ns div 2 + 1, cc_lease = lease,
          cc_epoch = epoch, cc_leader = None, cc_token = None,
          cc_heartbeats = map (\<lambda>n. (n, now n)) ns, cc_isolated = []\<rparr>)"

definition sync_epoch :: "coordinator \<Rightarrow> int \<Rightarrow> coordinator" where
  "sync_epoch c e = (if cc_epoch c < e then c\<lparr>cc_epoch := e\<rparr> else c)"

definition simulate_network_partition :: "coordinator \<Rightarrow> string list \<Rightarrow> coordinator" where
  "simulate_network_partition c ids = c\<lparr>cc_isolated := remdups ids\<rparr>"

definition heal_network_partition :: "coordinator \<Rightarrow> coordinator" where
  "heal_network_partition c = c\<lparr>cc_isolated := []\<rparr>"

definition reachable_nodes :: "coordinator \<Rightarrow> string list" where
  "reachable_nodes c = [n \<leftarrow> cc_nodes c. n \<notin> set (cc_isolated c)]"

definition issue_token :: "coordinator \<Rightarrow> f64 \<Rightarrow> epoch_token" where
  "issue_token c now =
     \<lparr>tk_epoch = cc_epoch c, tk_leader = cc_node c, tk_issued = now, tk_lease = cc_lease c\<rparr>"

definition request_leadership :: "coordinator \<Rightarrow> f64 \<Rightarrow> coordinator \<times> epoch_token res" where
  "request_leadership c now =
     (if length (reachable_nodes c) < cc_quorum c then (c, raise QuorumLossError)
      else let c1 = c\<lparr>cc_epoch := cc_epoch c + 1, cc_leader := Some (cc_node c)\<rparr>;
               t = issue_token c1 now
           in (c1\<lparr>cc_token := Some t\<rparr>, ret t))"

definition renew_lease :: "coordinator \<Rightarrow> f64 \<Rightarrow> coordinator \<times> epoch_token res" where
  "renew_lease c now =
     (if cc_leader c \<noteq> Some (cc_node c) then (c, raise FencingTokenError)
      else if length (reachable_nodes c) < cc_quorum c
      then (c\<lparr>cc_leader := None, cc_token := None\<rparr>, raise QuorumLossError)
      else let t = issue_token c now in (c\<lparr>cc_token := Some t\<rparr>, ret t))"

definition get_active_token :: "coordinator \<Rightarrow> epoch_token option" where
  "get_active_token c = cc_token c"

definition has_valid_lease :: "coordinator \<Rightarrow> f64 \<Rightarrow> bool" where
  "has_valid_lease c now = (case cc_token c of None \<Rightarrow> False | Some t \<Rightarrow> \<not> is_expired t now)"

section \<open>The writer is a fence\<close>

definition write_step :: "fenced_writer \<Rightarrow> epoch_token \<times> f64 \<Rightarrow> fenced_writer" where
  "write_step w ev = fst (validate_write w (fst ev) (snd ev))"

definition write_ok :: "fenced_writer \<Rightarrow> epoch_token \<times> f64 \<Rightarrow> bool" where
  "write_ok w ev = (snd (validate_write w (fst ev) (snd ev)) = ret ())"

lemma write_ok_iff:
  "write_ok w (t, now) \<longleftrightarrow> \<not> is_expired t now \<and> fw_highest w \<le> tk_epoch t"
  by (auto simp: write_ok_def validate_write_def Let_def)

lemma write_step_highest:
  "fw_highest (write_step w (t, now)) = (if write_ok w (t, now) then tk_epoch t else fw_highest w)"
  by (auto simp: write_step_def validate_write_def write_ok_iff Let_def)

lemma write_step_counts:
  "fw_accepted (write_step w ev) + fw_rejected (write_step w ev) = fw_accepted w + fw_rejected w + 1"
  by (auto simp: write_step_def validate_write_def Let_def)

interpretation writer_fence: fence fw_highest write_step "\<lambda>_. True" "\<lambda>_. True" write_ok "tk_epoch \<circ> fst"
  by unfold_locales (auto simp: write_step_highest write_ok_iff split: if_splits)

lemma write_run_counts:
  "fw_accepted (foldl write_step w evs) + fw_rejected (foldl write_step w evs)
   = fw_accepted w + fw_rejected w + int (length evs)"
  by (induction evs arbitrary: w) (simp_all add: write_step_counts)

text \<open>The epochs of the writes that a run accepts, in order.\<close>

fun accepted_epochs :: "fenced_writer \<Rightarrow> (epoch_token \<times> f64) list \<Rightarrow> int list" where
  "accepted_epochs w [] = []"
| "accepted_epochs w (ev # evs) =
     (if write_ok w ev then [tk_epoch (fst ev)] else []) @ accepted_epochs (write_step w ev) evs"

lemma accepted_above: "e \<in> set (accepted_epochs w evs) \<Longrightarrow> fw_highest w \<le> e"
proof (induction w evs rule: accepted_epochs.induct)
  case (2 w ev evs)
  have "fw_highest w \<le> fw_highest (write_step w ev)" using writer_fence.level_step by simp
  moreover have "fw_highest w \<le> tk_epoch (fst ev)" if "write_ok w ev"
    using writer_fence.admits_level [OF TrueI that] by simp
  ultimately show ?case using 2 by (auto split: if_splits)
qed simp

lemma accepted_sorted: "sorted (accepted_epochs w evs)"
proof (induction w evs rule: accepted_epochs.induct)
  case (2 w ev evs)
  have "tk_epoch (fst ev) \<le> e" if "write_ok w ev" "e \<in> set (accepted_epochs (write_step w ev) evs)" for e
    using that accepted_above [OF that(2)] by (cases ev) (simp add: write_step_highest)
  then show ?case using 2 by auto
qed simp

text \<open>The fenced writer accepts epochs in non-decreasing order whatever the sequence of
  attempts and clock readings, and counts every attempt exactly once as accepted or rejected.\<close>

theorem fenced_writer_monotone:
  "sorted (accepted_epochs (writer_init p) evs)
   \<and> fw_accepted (foldl write_step (writer_init p) evs)
     + fw_rejected (foldl write_step (writer_init p) evs) = int (length evs)"
  using write_run_counts [of "writer_init p" evs] by (simp add: accepted_sorted) (simp add: writer_init_def)

section \<open>Coordinator properties\<close>

lemma request_leadership_ok:
  assumes "request_leadership c now = (c', ret t)"
  shows "tk_epoch t = cc_epoch c + 1" and "cc_epoch c' = cc_epoch c + 1" and "tk_leader t = cc_node c"
    and "cc_token c' = Some t" and "cc_quorum c \<le> length (reachable_nodes c)"
  using assms by (auto simp: request_leadership_def issue_token_def Let_def split: if_splits)

datatype coord_ev =
  SyncEpoch int | SimPartition "string list" | HealPartition | RequestLeadership f64 | RenewLease f64

fun coord_step :: "coordinator \<Rightarrow> coord_ev \<Rightarrow> coordinator" where
  "coord_step c (SyncEpoch e) = sync_epoch c e"
| "coord_step c (SimPartition ids) = simulate_network_partition c ids"
| "coord_step c HealPartition = heal_network_partition c"
| "coord_step c (RequestLeadership now) = fst (request_leadership c now)"
| "coord_step c (RenewLease now) = fst (renew_lease c now)"

fun_cases coord_step_cases: "coord_step c (RequestLeadership now) = c'"

lemma coord_step_epoch: "cc_epoch c \<le> cc_epoch (coord_step c ev)"
  by (cases ev)
     (auto simp: sync_epoch_def simulate_network_partition_def heal_network_partition_def
       request_leadership_def renew_lease_def Let_def)

lemma coord_run_epoch: "cc_epoch c \<le> cc_epoch (foldl coord_step c evs)"
proof (induction evs arbitrary: c)
  case (Cons e evs)
  show ?case using coord_step_epoch [of c e] Cons [of "coord_step c e"] by simp
qed simp

lemma majorities_meet:
  assumes fin: "finite N" and A: "A \<subseteq> N" "card N div 2 + 1 \<le> card A"
    and B: "B \<subseteq> N" "card N div 2 + 1 \<le> card B"
  shows "A \<inter> B \<noteq> {}"
proof
  assume "A \<inter> B = {}"
  then have "card A + card B = card (A \<union> B)"
    using fin A(1) B(1) by (simp add: card_Un_disjoint finite_subset)
  also have "\<dots> \<le> card N" using fin A(1) B(1) by (intro card_mono) auto
  finally show False using A(2) B(2) by linarith
qed

definition coord_wf :: "coordinator \<Rightarrow> bool" where
  "coord_wf c = (distinct (cc_nodes c) \<and> cc_quorum c = length (cc_nodes c) div 2 + 1)"

lemma coord_wf_init: "coord_wf (coordinator_init n ns l e now)"
  by (simp add: coord_wf_def coordinator_init_def Let_def)

lemma coord_wf_step: "coord_wf c \<Longrightarrow> coord_wf (coord_step c ev)"
  by (cases ev)
     (auto simp: coord_wf_def sync_epoch_def simulate_network_partition_def heal_network_partition_def
       request_leadership_def renew_lease_def Let_def)

lemma coord_nodes_run: "cc_nodes (foldl coord_step c evs) = cc_nodes c"
proof (induction evs arbitrary: c)
  case (Cons ev evs)
  have "cc_nodes (coord_step c ev) = cc_nodes c"
    by (cases ev)
       (auto simp: sync_epoch_def simulate_network_partition_def heal_network_partition_def
         request_leadership_def renew_lease_def Let_def)
  then show ?case using Cons by simp
qed simp

lemma coord_wf_run: "coord_wf c \<Longrightarrow> coord_wf (foldl coord_step c evs)"
  by (induction evs arbitrary: c) (auto simp: coord_wf_step)

lemma quorum_card:
  assumes "coord_wf c" and "cc_quorum c \<le> length (reachable_nodes c)"
  shows "card (set (cc_nodes c)) div 2 + 1 \<le> card (set (reachable_nodes c))"
proof -
  have "card (set (reachable_nodes c)) = length (reachable_nodes c)"
    using assms(1) by (intro distinct_card) (simp add: coord_wf_def reachable_nodes_def)
  then show ?thesis using assms by (simp add: coord_wf_def distinct_card)
qed

text \<open>C35: leadership needs a majority.  Two coordinators of one cluster, each after any history of
  partitions, requests and renewals, that both obtain leadership reach a common node, so two sides
  of a network partition never both have a leader.\<close>

theorem leaders_share_a_node:
  assumes "set nodes = set nodes'"
    and "c = foldl coord_step (coordinator_init n nodes l e clk) evs"
    and "c' = foldl coord_step (coordinator_init n' nodes' l' e' clk') evs'"
    and "snd (request_leadership c now) = ret t" and "snd (request_leadership c' now') = ret t'"
  shows "set (reachable_nodes c) \<inter> set (reachable_nodes c') \<noteq> {}"
proof -
  have wf: "coord_wf c" "coord_wf c'" unfolding assms(2,3) by (simp_all add: coord_wf_run coord_wf_init)
  have N: "set (cc_nodes c) = set nodes" "set (cc_nodes c') = set nodes"
    using assms(1) by (simp_all add: assms(2,3) coord_nodes_run coordinator_init_def Let_def)
  have q: "cc_quorum c \<le> length (reachable_nodes c)" "cc_quorum c' \<le> length (reachable_nodes c')"
    using assms(4,5) by (auto simp: request_leadership_def Let_def split: if_splits)
  show ?thesis
    using majorities_meet [of "set nodes" "set (reachable_nodes c)" "set (reachable_nodes c')"]
      quorum_card [OF wf(1) q(1)] quorum_card [OF wf(2) q(2)] N
    by (auto simp: reachable_nodes_def)
qed

theorem leaders_share_a_node_witness:
  "set (reachable_nodes (foldl coord_step
          (coordinator_init ''a'' [''a'', ''b'', ''c''] 0 0 (\<lambda>_. 0)) [SimPartition [''c'']]))
   \<inter> set (reachable_nodes (foldl coord_step
          (coordinator_init ''b'' [''a'', ''b'', ''c''] 0 0 (\<lambda>_. 0)) [SimPartition [''a'']])) \<noteq> {}"
proof (rule leaders_share_a_node [OF refl refl refl])
  show "snd (request_leadership (foldl coord_step
          (coordinator_init ''a'' [''a'', ''b'', ''c''] 0 0 (\<lambda>_. 0)) [SimPartition [''c'']]) 0)
        = ret \<lparr>tk_epoch = 1, tk_leader = ''a'', tk_issued = 0, tk_lease = 0\<rparr>"
    by code_simp
  show "snd (request_leadership (foldl coord_step
          (coordinator_init ''b'' [''a'', ''b'', ''c''] 0 0 (\<lambda>_. 0)) [SimPartition [''a'']]) 0)
        = ret \<lparr>tk_epoch = 1, tk_leader = ''b'', tk_issued = 0, tk_lease = 0\<rparr>"
    by code_simp
qed

text \<open>C36: a deposed leader is locked out.  A coordinator issues a token, later (after any events)
  issues another; once the writer has accepted a write under the newer token, no write under the
  older one is ever accepted again, whatever other writes come in between.\<close>

theorem deposed_leader_is_fenced:
  assumes "request_leadership c now1 = (c1, ret t1)"
    and "request_leadership (foldl coord_step c1 evs) now2 = (c2, ret t2)"
    and "snd (validate_write w t2 now3) = ret ()"
  shows "snd (validate_write (foldl write_step (fst (validate_write w t2 now3)) writes) t1 now4)
         = raise FencingTokenError"
proof -
  have lt: "tk_epoch t1 < tk_epoch t2"
    using request_leadership_ok [OF assms(1)] request_leadership_ok [OF assms(2)]
      coord_run_epoch [of c1 evs] by simp
  have "fw_highest (fst (validate_write w t2 now3)) = tk_epoch t2"
    using assms(3) write_step_highest [of w t2 now3] by (simp add: write_step_def write_ok_def)
  then have "\<not> write_ok (foldl write_step (fst (validate_write w t2 now3)) writes) (t1, now4)"
    using lt by (intro writer_fence.stale_forever) (simp_all add: list_all_iff)
  then show ?thesis by (auto simp: write_ok_def validate_write_def Let_def split: if_splits)
qed

theorem deposed_leader_is_fenced_witness:
  "snd (validate_write (foldl write_step
      (fst (validate_write (writer_init ''p'') \<lparr>tk_epoch = 2, tk_leader = ''a'', tk_issued = 0, tk_lease = 0\<rparr> 0))
      []) \<lparr>tk_epoch = 1, tk_leader = ''a'', tk_issued = 0, tk_lease = 0\<rparr> 0) = raise FencingTokenError"
proof (rule deposed_leader_is_fenced)
  let ?c = "coordinator_init ''a'' [''a''] 0 0 (\<lambda>_. 0)"
  show "request_leadership ?c 0
      = (fst (request_leadership ?c 0), ret \<lparr>tk_epoch = 1, tk_leader = ''a'', tk_issued = 0, tk_lease = 0\<rparr>)"
    by code_simp
  show "request_leadership (foldl coord_step (fst (request_leadership ?c 0)) []) 0
      = (fst (request_leadership (fst (request_leadership ?c 0)) 0),
         ret \<lparr>tk_epoch = 2, tk_leader = ''a'', tk_issued = 0, tk_lease = 0\<rparr>)"
    by code_simp
  show "snd (validate_write (writer_init ''p'')
          \<lparr>tk_epoch = 2, tk_leader = ''a'', tk_issued = 0, tk_lease = 0\<rparr> 0) = ret ()"
    by code_simp
qed

end
