(* ===== verification/Failover.thy ===== *)
theory Failover
  imports Consensus
begin

text \<open>
  The active-passive node of \<open>failover.py\<close> and a cluster of such nodes that exchange heartbeats
  over a network which may lose, delay, reorder and repeat them.  A node is a record, each method
  one function; a heartbeat handler is the whole of \<open>receive_heartbeat\<close>.  The state-change
  callback is outside code whose exceptions are swallowed: its calls are kept in the order made.
\<close>

section \<open>State\<close>

datatype node_state = PRIMARY | STANDBY | SYNCING | FAILED | MAINTENANCE

record heartbeat =
  hb_node :: string
  hb_cluster :: string
  hb_epoch :: int
  hb_state :: node_state
  hb_seq :: int
  hb_timestamp :: f64
  hb_health :: f64
  hb_token :: int

record failover_node =
  fn_node :: string
  fn_cluster :: string
  fn_state :: node_state
  fn_timeout :: f64
  fn_epoch :: int
  fn_token :: int
  fn_last_hb :: f64
  fn_primary :: "string option"
  fn_primary_seq :: int
  fn_primary_epoch :: int
  fn_sent :: int
  fn_received :: int
  fn_failovers :: int
  fn_last_change :: f64
  fn_callback :: bool
  fn_calls :: "(node_state \<times> node_state) list"

definition node_init ::
  "string \<Rightarrow> string \<Rightarrow> node_state \<Rightarrow> f64 \<Rightarrow> int \<Rightarrow> f64 \<Rightarrow> failover_node" where
  "node_init node cluster st timeout epoch now =
     \<lparr>fn_node = node, fn_cluster = cluster, fn_state = st, fn_timeout = timeout, fn_epoch = epoch,
      fn_token = epoch, fn_last_hb = 0, fn_primary = None, fn_primary_seq = 0, fn_primary_epoch = 0,
      fn_sent = 0, fn_received = 0, fn_failovers = 0, fn_last_change = now,
      fn_callback = False, fn_calls = []\<rparr>"

section \<open>Operations\<close>

definition set_state_change_callback :: "failover_node \<Rightarrow> failover_node" where
  "set_state_change_callback n = n\<lparr>fn_callback := True\<rparr>"

definition transition_to :: "failover_node \<Rightarrow> node_state \<Rightarrow> f64 \<Rightarrow> failover_node" where
  "transition_to n st now =
     (if fn_state n = st then n
      else n\<lparr>fn_state := st, fn_last_change := now,
             fn_calls := fn_calls n @ (if fn_callback n then [(fn_state n, st)] else [])\<rparr>)"

definition f_one :: f64 where
  "f_one = 0x3FF0000000000000"

definition send_heartbeat ::
  "failover_node \<Rightarrow> int \<Rightarrow> f64 \<Rightarrow> f64 \<Rightarrow> failover_node \<times> heartbeat" where
  "send_heartbeat n last_seq health now =
     (n\<lparr>fn_sent := fn_sent n + 1\<rparr>,
      \<lparr>hb_node = fn_node n, hb_cluster = fn_cluster n, hb_epoch = fn_epoch n, hb_state = fn_state n,
       hb_seq = last_seq, hb_timestamp = now, hb_health = fmax 0 (fmin f_one health),
       hb_token = fn_token n\<rparr>)"

definition track_primary :: "failover_node \<Rightarrow> heartbeat \<Rightarrow> failover_node" where
  "track_primary n hb =
     n\<lparr>fn_last_hb := hb_timestamp hb, fn_primary := Some (hb_node hb),
       fn_primary_seq := hb_seq hb, fn_primary_epoch := hb_epoch hb\<rparr>"

definition receive_heartbeat ::
  "failover_node \<Rightarrow> heartbeat \<Rightarrow> f64 \<Rightarrow> failover_node \<times> bool" where
  "receive_heartbeat n0 hb now =
     (if hb_cluster hb \<noteq> fn_cluster n0 then (n0, False)
      else if hb_node hb = fn_node n0 then (n0, True)
      else
        let n = n0\<lparr>fn_received := fn_received n0 + 1\<rparr>;
            higher = (fn_epoch n < hb_epoch hb);
            n1 = (if higher then n\<lparr>fn_epoch := hb_epoch hb, fn_token := hb_token hb\<rparr> else n)
        in if higher \<and> fn_state n1 = PRIMARY \<and> hb_state hb = PRIMARY
           then (transition_to n1 STANDBY now, True)
           else if hb_epoch hb < fn_epoch n1 \<and> hb_state hb = PRIMARY then (n1, False)
           else if fn_state n1 = PRIMARY \<and> hb_state hb = PRIMARY \<and> hb_epoch hb = fn_epoch n1
           then (if hb_node hb < fn_node n1
                 then (track_primary (transition_to n1 STANDBY now) hb, True)
                 else (n1, False))
           else (if hb_state hb = PRIMARY then track_primary n1 hb else n1, True))"

definition promote :: "failover_node \<Rightarrow> f64 \<Rightarrow> failover_node" where
  "promote n now =
     (let e = fn_epoch n + 1
      in transition_to (n\<lparr>fn_epoch := e, fn_token := e, fn_failovers := fn_failovers n + 1\<rparr>) PRIMARY now)"

definition check_failover_condition ::
  "failover_node \<Rightarrow> int \<Rightarrow> f64 \<Rightarrow> f64 \<Rightarrow> failover_node \<times> bool" where
  "check_failover_condition n local_seq now now' =
     (if fn_state n \<noteq> STANDBY then (n, False)
      else if feq (fn_last_hb n) 0 then (n, False)
      else if fle (fsub now (fn_last_hb n)) (fn_timeout n) then (n, False)
      else if local_seq < fn_primary_seq n then (transition_to n SYNCING now', False)
      else (promote n now', True))"

definition demote :: "failover_node \<Rightarrow> f64 \<Rightarrow> failover_node" where
  "demote n now = transition_to n STANDBY now"

definition enter_maintenance :: "failover_node \<Rightarrow> f64 \<Rightarrow> failover_node" where
  "enter_maintenance n now = transition_to n MAINTENANCE now"

definition assert_fencing_token :: "failover_node \<Rightarrow> int \<Rightarrow> unit res" where
  "assert_fencing_token n token =
     (if fn_state n \<noteq> PRIMARY then raise StaleEpochError
      else if token < fn_token n then raise StaleEpochError else ret ())"

definition replicate_commit :: "failover_node \<Rightarrow> int \<Rightarrow> f64 \<Rightarrow> failover_node" where
  "replicate_commit n sq now =
     (if fn_state n \<notin> {STANDBY, SYNCING} then n
      else if fn_primary_seq n \<le> sq \<and> fn_state n = SYNCING then transition_to n STANDBY now
      else n)"

definition fail :: "failover_node \<Rightarrow> f64 \<Rightarrow> failover_node" where
  "fail n now = transition_to n FAILED now"

section \<open>Events of one node\<close>

datatype node_ev =
    EvSend int f64 f64
  | EvReceive heartbeat f64
  | EvCheck int f64 f64
  | EvPromote f64
  | EvDemote f64
  | EvMaintenance f64
  | EvReplicate int f64
  | EvFail f64

fun node_step :: "failover_node \<Rightarrow> node_ev \<Rightarrow> failover_node" where
  "node_step n (EvSend sq h now) = fst (send_heartbeat n sq h now)"
| "node_step n (EvReceive hb now) = fst (receive_heartbeat n hb now)"
| "node_step n (EvCheck sq now now') = fst (check_failover_condition n sq now now')"
| "node_step n (EvPromote now) = promote n now"
| "node_step n (EvDemote now) = demote n now"
| "node_step n (EvMaintenance now) = enter_maintenance n now"
| "node_step n (EvReplicate sq now) = replicate_commit n sq now"
| "node_step n (EvFail now) = fail n now"

fun ev_ok :: "node_ev \<Rightarrow> bool" where
  "ev_ok (EvReceive hb now) = (hb_token hb = hb_epoch hb)"
| "ev_ok _ = True"

lemma transition_fields [simp]:
  "fn_state (transition_to n st now) = st" "fn_epoch (transition_to n st now) = fn_epoch n"
  "fn_token (transition_to n st now) = fn_token n" "fn_node (transition_to n st now) = fn_node n"
  "fn_cluster (transition_to n st now) = fn_cluster n"
  by (simp_all add: transition_to_def)

lemma track_fields [simp]:
  "fn_state (track_primary n hb) = fn_state n" "fn_epoch (track_primary n hb) = fn_epoch n"
  "fn_token (track_primary n hb) = fn_token n" "fn_node (track_primary n hb) = fn_node n"
  "fn_cluster (track_primary n hb) = fn_cluster n"
  by (simp_all add: track_primary_def)

lemmas node_op_defs = send_heartbeat_def promote_def check_failover_condition_def demote_def
  enter_maintenance_def replicate_commit_def fail_def Let_def

lemma receive_fields:
  "fn_epoch (fst (receive_heartbeat n hb now)) =
     (if hb_cluster hb = fn_cluster n \<and> hb_node hb \<noteq> fn_node n then max (fn_epoch n) (hb_epoch hb)
      else fn_epoch n)"
  "fn_token (fst (receive_heartbeat n hb now)) =
     (if hb_cluster hb = fn_cluster n \<and> hb_node hb \<noteq> fn_node n \<and> fn_epoch n < hb_epoch hb
      then hb_token hb else fn_token n)"
  "fn_node (fst (receive_heartbeat n hb now)) = fn_node n"
  "fn_cluster (fst (receive_heartbeat n hb now)) = fn_cluster n"
  by (auto simp: receive_heartbeat_def Let_def max_def)

lemma node_step_ident: "fn_node (node_step n ev) = fn_node n" "fn_cluster (node_step n ev) = fn_cluster n"
  by (cases ev; auto simp: node_op_defs receive_fields)+

lemma node_step_epoch: "fn_epoch n \<le> fn_epoch (node_step n ev)"
  by (cases ev) (auto simp: node_op_defs receive_fields)

lemma node_step_token:
  "fn_token n = fn_epoch n \<Longrightarrow> ev_ok ev \<Longrightarrow> fn_token (node_step n ev) = fn_epoch (node_step n ev)"
  by (cases ev) (auto simp: node_op_defs receive_fields max_def)

text \<open>A node guards its writes with its fencing token; that is a fence in the sense of the contract.\<close>

interpretation node_fence: fence fn_token node_step "\<lambda>n. fn_token n = fn_epoch n" ev_ok
  "\<lambda>n t. assert_fencing_token n t = ret ()" "\<lambda>t. t"
proof unfold_locales
  fix n :: failover_node and ev :: node_ev
  assume inv: "fn_token n = fn_epoch n" and ok: "ev_ok ev"
  show tok: "fn_token (node_step n ev) = fn_epoch (node_step n ev)" using inv ok by (rule node_step_token)
  show "fn_token n \<le> fn_token (node_step n ev)" using inv tok node_step_epoch by simp
qed (auto simp: assert_fencing_token_def split: if_splits)

section \<open>The cluster\<close>

text \<open>
  The nodes by index and every heartbeat ever sent; delivery picks any of them, so messages may
  be lost, repeated and reordered.
\<close>

record cluster =
  cl_nodes :: "failover_node list"
  cl_msgs :: "heartbeat list"

inductive cluster_step :: "cluster \<Rightarrow> cluster \<Rightarrow> bool" where
  send: "i < length (cl_nodes c) \<Longrightarrow> send_heartbeat (cl_nodes c ! i) sq h now = (n', hb)
     \<Longrightarrow> cluster_step c (c\<lparr>cl_nodes := (cl_nodes c)[i := n'], cl_msgs := hb # cl_msgs c\<rparr>)"
| deliver: "i < length (cl_nodes c) \<Longrightarrow> hb \<in> set (cl_msgs c)
     \<Longrightarrow> cluster_step c (c\<lparr>cl_nodes := (cl_nodes c)[i := node_step (cl_nodes c ! i) (EvReceive hb now)]\<rparr>)"
| local: "i < length (cl_nodes c) \<Longrightarrow> (\<forall>hb now. ev \<noteq> EvReceive hb now)
     \<Longrightarrow> cluster_step c (c\<lparr>cl_nodes := (cl_nodes c)[i := node_step (cl_nodes c ! i) ev]\<rparr>)"

inductive_cases cluster_stepE: "cluster_step c c'"

definition cluster_inv :: "cluster \<Rightarrow> bool" where
  "cluster_inv c =
     (list_all (\<lambda>n. fn_token n = fn_epoch n) (cl_nodes c)
      \<and> list_all (\<lambda>hb. hb_token hb = hb_epoch hb) (cl_msgs c))"

lemma list_all_update: "list_all P xs \<Longrightarrow> P x \<Longrightarrow> list_all P (xs[i := x])"
  by (auto simp: list_all_iff dest!: set_update_subset_insert [THEN subsetD])

lemma cluster_step_inv:
  assumes "cluster_step c c'" and "cluster_inv c"
  shows "cluster_inv c'"
  using assms
proof cases
  case (send i sq h now n' hb)
  then have "fn_token (cl_nodes c ! i) = fn_epoch (cl_nodes c ! i)"
    using assms(2) by (simp add: cluster_inv_def list_all_length)
  then show ?thesis using send assms(2)
    by (auto simp: cluster_inv_def send_heartbeat_def intro!: list_all_update)
next
  case (deliver i hb now)
  then have "fn_token (cl_nodes c ! i) = fn_epoch (cl_nodes c ! i)" "ev_ok (EvReceive hb now)"
    using assms(2) by (auto simp: cluster_inv_def list_all_length in_set_conv_nth)
  then show ?thesis using deliver assms(2) node_step_token
    by (auto simp: cluster_inv_def intro!: list_all_update simp del: node_step.simps)
next
  case (local i ev)
  have "ev_ok ev" using local(3) by (cases ev) auto
  moreover have "fn_token (cl_nodes c ! i) = fn_epoch (cl_nodes c ! i)"
    using local assms(2) by (simp add: cluster_inv_def list_all_length)
  ultimately show ?thesis using local assms(2) node_step_token
    by (auto simp: cluster_inv_def intro!: list_all_update simp del: node_step.simps)
qed

lemma cluster_step_epochs:
  assumes "cluster_step c c'" and "i < length (cl_nodes c)"
  shows "length (cl_nodes c') = length (cl_nodes c)
         \<and> fn_epoch (cl_nodes c ! i) \<le> fn_epoch (cl_nodes c' ! i)"
  using assms
proof cases
  case (send j sq h now n' hb)
  then show ?thesis using assms(2) by (auto simp: nth_list_update send_heartbeat_def)
qed (use assms(2) node_step_epoch in \<open>auto simp: nth_list_update simp del: node_step.simps\<close>)

text \<open>C37: in a cluster started with arbitrary roles and epochs, over a network that loses, repeats
  and reorders heartbeats, no node's epoch ever decreases, and the fencing token of every node and
  of every message in flight is its epoch.\<close>

theorem cluster_epochs_monotone:
  assumes "cluster_step\<^sup>*\<^sup>* c c'" and "cluster_inv c" and "i < length (cl_nodes c)"
  shows "cluster_inv c' \<and> i < length (cl_nodes c') \<and> fn_epoch (cl_nodes c ! i) \<le> fn_epoch (cl_nodes c' ! i)"
  using assms
proof (induction rule: rtranclp_induct)
  case (step y z)
  then show ?case using cluster_step_inv [OF step(2)] cluster_step_epochs [OF step(2), of i] by auto
qed simp

theorem cluster_epochs_monotone_witness:
  "let a = node_init ''a'' ''k'' PRIMARY 0 1 0; c = \<lparr>cl_nodes = [a], cl_msgs = []\<rparr>;
       c' = \<lparr>cl_nodes = [node_step a (EvPromote 0)], cl_msgs = []\<rparr>
   in cluster_step c c' \<and> cluster_inv c' \<and> fn_epoch (cl_nodes c ! 0) \<le> fn_epoch (cl_nodes c' ! 0)"
proof -
  define a where "a = node_init ''a'' ''k'' PRIMARY 0 1 0"
  define c where "c = \<lparr>cl_nodes = [a], cl_msgs = []\<rparr>"
  define c' where "c' = \<lparr>cl_nodes = [node_step a (EvPromote 0)], cl_msgs = []\<rparr>"
  have st: "cluster_step c c'"
    using cluster_step.local [of 0 c "EvPromote 0"] by (simp add: c_def c'_def)
  moreover have "cluster_inv c" by (simp add: cluster_inv_def c_def a_def node_init_def)
  ultimately show ?thesis
    using cluster_epochs_monotone [OF r_into_rtranclp [of cluster_step c c'], of 0]
    by (simp add: c_def c'_def flip: a_def)
qed

text \<open>Once a node's fencing token exceeds a value, a write under that value is refused by the
  node for good, whatever events follow.\<close>

theorem node_rejects_stale_tokens_forever:
  assumes "fn_token n = fn_epoch n" and "list_all ev_ok evs" and "t < fn_token n"
  shows "assert_fencing_token (foldl node_step n evs) t = raise StaleEpochError"
  using node_fence.stale_forever [of n evs t] assms
  by (auto simp: assert_fencing_token_def split: if_splits)

theorem node_rejects_stale_tokens_forever_witness:
  "assert_fencing_token
     (foldl node_step (node_init ''a'' ''k'' STANDBY 0 3 0) [EvPromote 0, EvDemote 0, EvPromote 0]) 2
   = raise StaleEpochError"
  by (rule node_rejects_stale_tokens_forever) (simp_all add: node_init_def)

text \<open>C10: split-brain resolution.  When two primaries of one cluster at one epoch each receive a
  heartbeat the other sent, exactly the one with the smaller identifier remains primary.\<close>

theorem split_brain_resolved:
  assumes "fn_cluster a = fn_cluster b" and "fn_node a < fn_node b"
    and "fn_state a = PRIMARY" and "fn_state b = PRIMARY" and "fn_epoch a = fn_epoch b"
  shows "fn_state (fst (receive_heartbeat a (snd (send_heartbeat b sq h t)) t')) = PRIMARY
       \<and> fn_state (fst (receive_heartbeat b (snd (send_heartbeat a sq' h' u)) u')) = STANDBY
       \<and> fn_primary (fst (receive_heartbeat b (snd (send_heartbeat a sq' h' u)) u')) = Some (fn_node a)"
  using assms by (auto simp: receive_heartbeat_def send_heartbeat_def Let_def track_primary_def)

theorem split_brain_resolved_witness:
  "let a = node_init ''a'' ''k'' PRIMARY 0 1 0; b = node_init ''b'' ''k'' PRIMARY 0 1 0
   in fn_state (fst (receive_heartbeat a (snd (send_heartbeat b 7 0 0)) 0)) = PRIMARY
      \<and> fn_state (fst (receive_heartbeat b (snd (send_heartbeat a 9 0 0)) 0)) = STANDBY"
  using split_brain_resolved [of "node_init ''a'' ''k'' PRIMARY 0 1 0" "node_init ''b'' ''k'' PRIMARY 0 1 0"
      7 0 0 0 9 0 0 0]
  unfolding Let_def by (simp add: node_init_def less_char_def)

text \<open>Automatic promotion is safe.  \<open>check_failover_condition\<close> makes a node primary only from
  standby, after a primary was heard whose last heartbeat is older than the timeout, and only when the
  local sequence has reached that primary's; the new epoch then exceeds the one heard.  A node that
  lags enters syncing and is promoted only after \<open>replicate_commit\<close> has caught up.\<close>

theorem promotion_needs_parity:
  assumes "fn_state n \<noteq> PRIMARY"
  shows "(fn_state (fst (check_failover_condition n sq now now')) = PRIMARY \<longleftrightarrow>
           fn_state n = STANDBY \<and> \<not> feq (fn_last_hb n) 0
           \<and> \<not> fle (fsub now (fn_last_hb n)) (fn_timeout n) \<and> fn_primary_seq n \<le> sq)
       \<and> (snd (check_failover_condition n sq now now') \<longrightarrow>
            fn_token (fst (check_failover_condition n sq now now')) = fn_epoch n + 1)
       \<and> (fn_state n = SYNCING \<longrightarrow>
            (fn_state (replicate_commit n sq now) = STANDBY \<longleftrightarrow> fn_primary_seq n \<le> sq))"
  using assms by (auto simp: check_failover_condition_def promote_def replicate_commit_def Let_def)

theorem promotion_needs_parity_witness:
  "let n = (node_init ''a'' ''k'' STANDBY f_one 1 0)\<lparr>fn_last_hb := f_one, fn_primary_seq := 5\<rparr>
   in fn_state (fst (check_failover_condition n 5 0x4014000000000000 0)) = PRIMARY
      \<and> fn_state (fst (check_failover_condition n 4 0x4014000000000000 0)) \<noteq> PRIMARY"
proof -
  let ?n = "(node_init ''a'' ''k'' STANDBY f_one 1 0)\<lparr>fn_last_hb := f_one, fn_primary_seq := 5\<rparr>"
  have n: "fn_state ?n \<noteq> PRIMARY" by (simp add: node_init_def)
  have "\<not> feq f_one 0" "\<not> fle (fsub 0x4014000000000000 f_one) f_one" by code_simp+
  then show ?thesis
    using promotion_needs_parity [OF n, of 5 "0x4014000000000000" 0]
      promotion_needs_parity [OF n, of 4 "0x4014000000000000" 0]
    unfolding Let_def by (simp add: node_init_def)
qed

end
