(* ===== verification/Resequencer.thy ===== *)
theory Resequencer
  imports Pyfloat
begin

text \<open>
  What the two in-order delivery engines (\<open>multicast_arbitrator.py\<close>, \<open>recovery.py\<close>) share: the
  loop that drains a buffer from the expected number on, and the contract of a resequencer, from
  which it follows that everything a run delivers is one consecutive range of sequence numbers.
\<close>

section \<open>Draining a gap buffer\<close>

lemma length_ddel_less: "dget d k = Some v \<Longrightarrow> length (ddel d k) < length d"
proof (induction d)
  case (Cons p d)
  then show ?case using length_ddel_le [of k d] by (auto split: if_splits)
qed simp

function drain_buf :: "(int, 'p) dict \<Rightarrow> int \<Rightarrow> (int, 'p) dict \<times> int \<times> 'p list" where
  "drain_buf buf cur =
     (case dget buf cur of
        None \<Rightarrow> (buf, cur, [])
      | Some p \<Rightarrow> let (b, c, ps) = drain_buf (ddel buf cur) (cur + 1) in (b, c, p # ps))"
  by pat_completeness auto
termination by (relation "measure (length \<circ> fst)") (auto intro: length_ddel_less)

declare drain_buf.simps [simp del]

definition keyed :: "('p \<Rightarrow> int) \<Rightarrow> (int, 'p) dict \<Rightarrow> bool" where
  "keyed sq buf = list_all (\<lambda>(k, p). sq p = k) buf"

lemma keyed_Nil [simp]: "keyed sq []"
  by (simp add: keyed_def)

lemma keyed_dset: "keyed sq buf \<Longrightarrow> sq p = k \<Longrightarrow> keyed sq (dset buf k p)"
  by (induction buf) (auto simp: keyed_def)

lemma keyed_ddel: "keyed sq buf \<Longrightarrow> keyed sq (ddel buf k)"
  by (auto simp: keyed_def list_all_iff ddel_filter)

lemma keyed_dget: "keyed sq buf \<Longrightarrow> dget buf k = Some p \<Longrightarrow> sq p = k"
  by (auto simp: keyed_def list_all_iff dest!: map_of_SomeD)

text \<open>The loop stops at the first number that is not buffered; it takes exactly the numbers before.\<close>

lemma drain_buf_spec:
  assumes "keyed sq buf" and "drain_buf buf cur = (b, c, ps)"
  shows "keyed sq b \<and> cur \<le> c \<and> map sq ps = [cur..c - 1] \<and> \<not> din c b
         \<and> (\<forall>k. dget b k = (if cur \<le> k \<and> k < c then None else dget buf k))"
  using assms
proof (induction buf cur arbitrary: b c ps rule: drain_buf.induct)
  case (1 buf cur)
  show ?case
  proof (cases "dget buf cur")
    case None
    then show ?thesis using "1.prems" by (auto simp: drain_buf.simps [of buf] din_def)
  next
    case (Some p)
    obtain b' c' ps' where r: "drain_buf (ddel buf cur) (cur + 1) = (b', c', ps')"
      by (metis prod_cases3)
    have eq: "b = b'" "c = c'" "ps = p # ps'"
      using "1.prems"(2) by (auto simp: drain_buf.simps [of buf] Some r)
    have IH: "keyed sq b' \<and> cur + 1 \<le> c' \<and> map sq ps' = [cur + 1..c' - 1] \<and> \<not> din c' b'
         \<and> (\<forall>k. dget b' k = (if cur + 1 \<le> k \<and> k < c' then None else dget (ddel buf cur) k))"
      using "1.IH" [OF Some keyed_ddel [OF "1.prems"(1)] r] .
    have "sq p = cur" using keyed_dget [OF "1.prems"(1) Some] .
    then show ?thesis using IH upto_rec1 [of cur "c' - 1"]
      by (auto simp: eq dict_simps)
  qed
qed

lemma drain_buf_values:
  "drain_buf buf cur = (b, c, ps) \<Longrightarrow> cur \<le> c \<and> ps = map (\<lambda>k. the (dget buf k)) [cur..c - 1]"
proof (induction buf cur arbitrary: b c ps rule: drain_buf.induct)
  case (1 buf cur)
  show ?case
  proof (cases "dget buf cur")
    case None
    then show ?thesis using "1.prems" by (auto simp: drain_buf.simps [of buf])
  next
    case (Some p)
    obtain b' c' ps' where r: "drain_buf (ddel buf cur) (cur + 1) = (b', c', ps')"
      by (metis prod_cases3)
    have eq: "b = b'" "c = c'" "ps = p # ps'"
      using "1.prems" by (auto simp: drain_buf.simps [of buf] Some r)
    have "cur + 1 \<le> c' \<and> ps' = map (\<lambda>k. the (dget (ddel buf cur) k)) [cur + 1..c' - 1]"
      using "1.IH" [OF Some r] .
    then show ?thesis using upto_rec1 [of cur "c' - 1"] by (auto simp: eq Some dict_simps)
  qed
qed

lemma no_gap_drain:
  "drain_buf buf cur = (b, c, ps) \<Longrightarrow> cur \<le> k \<Longrightarrow> k < c \<Longrightarrow> din k buf"
proof (induction buf cur arbitrary: b c ps rule: drain_buf.induct)
  case (1 buf cur)
  show ?case
  proof (cases "dget buf cur")
    case None
    then show ?thesis using "1.prems" by (auto simp: drain_buf.simps [of buf])
  next
    case (Some p)
    obtain b' c' ps' where r: "drain_buf (ddel buf cur) (cur + 1) = (b', c', ps')"
      by (metis prod_cases3)
    have "c = c'" using "1.prems"(1) by (auto simp: drain_buf.simps [of buf] Some r)
    then show ?thesis using "1.IH" [OF Some r] "1.prems" Some
      by (cases "k = cur") (auto simp: din_ddel din_def dict_simps split: if_splits)
  qed
qed

text \<open>A buffer that holds exactly the numbers from the expected one to \<open>n\<close> is emptied.\<close>

lemma drain_buf_exact:
  assumes "keyed sq buf" and "cur \<le> n + 1" and "\<And>k. din k buf \<longleftrightarrow> cur \<le> k \<and> k \<le> n"
  shows "drain_buf buf cur = ([], n + 1, map (\<lambda>k. the (dget buf k)) [cur..n])"
proof -
  obtain b c ps where d: "drain_buf buf cur = (b, c, ps)" by (metis prod_cases3)
  note sp = drain_buf_spec [OF assms(1) d]
  have "\<not> din c b" and "cur \<le> c" using sp by auto
  then have "n < c" using sp assms(3) [of c] by (auto simp: din_def split: if_splits)
  moreover have "c \<le> n + 1"
  proof (rule ccontr)
    assume "\<not> c \<le> n + 1"
    then show False using no_gap_drain [OF d, of "n + 1"] assms(2) assms(3) [of "n + 1"] by simp
  qed
  ultimately have c: "c = n + 1" by simp
  have "dget b k = None" for k using sp assms(3) [of k] c by (auto simp: din_def)
  then have "b = []" by (cases b) (auto, metis option.distinct(1))
  then show ?thesis using d c drain_buf_values [OF d] by simp
qed

lemma drain_buf_absent: "\<not> din cur buf \<Longrightarrow> drain_buf buf cur = (buf, cur, [])"
  by (simp add: drain_buf.simps [of buf] din_def)

lemma drain_buf_keeps:
  assumes "keyed sq buf" and "drain_buf buf cur = (b, c, ps)" and "s < cur \<or> din s buf"
  shows "s < c \<or> din s b"
  using drain_buf_spec [OF assms(1,2)] assms(3) by (auto simp: din_def split: if_splits)

section \<open>The contract of a resequencer\<close>

fun outputs :: "('s \<Rightarrow> 'e \<Rightarrow> 's) \<Rightarrow> ('s \<Rightarrow> 'e \<Rightarrow> 'p list) \<Rightarrow> 's \<Rightarrow> 'e list \<Rightarrow> 'p list" where
  "outputs step out s [] = []"
| "outputs step out s (e # es) = out s e @ outputs step out (step s e) es"

locale resequencer =
  fixes nxt :: "'s \<Rightarrow> int"
    and step :: "'s \<Rightarrow> 'e \<Rightarrow> 's"
    and out :: "'s \<Rightarrow> 'e \<Rightarrow> 'p list"
    and sq :: "'p \<Rightarrow> int"
    and inv :: "'s \<Rightarrow> bool"
    and okev :: "'e \<Rightarrow> bool"
  assumes inv_step: "inv s \<Longrightarrow> okev e \<Longrightarrow> inv (step s e)"
    and nxt_step: "inv s \<Longrightarrow> okev e \<Longrightarrow> nxt s \<le> nxt (step s e)"
    and out_seqs: "inv s \<Longrightarrow> okev e \<Longrightarrow> map sq (out s e) = [nxt s..nxt (step s e) - 1]"
begin

lemma run_inv: "inv s \<Longrightarrow> list_all okev es \<Longrightarrow> inv (foldl step s es)"
  by (induction es arbitrary: s) (auto simp: inv_step)

lemma run_nxt: "inv s \<Longrightarrow> list_all okev es \<Longrightarrow> nxt s \<le> nxt (foldl step s es)"
proof (induction es arbitrary: s)
  case (Cons e es)
  have "nxt s \<le> nxt (step s e)" using Cons.prems by (simp add: nxt_step)
  also have "\<dots> \<le> nxt (foldl step s (e # es))" using Cons by (simp add: inv_step)
  finally show ?case .
qed simp

lemma run_outputs:
  "inv s \<Longrightarrow> list_all okev es
   \<Longrightarrow> map sq (outputs step out s es) = [nxt s..nxt (foldl step s es) - 1]"
proof (induction es arbitrary: s)
  case (Cons e es)
  then have ok: "okev e" "list_all okev es" by auto
  let ?s = "step s e" and ?n = "nxt (foldl step (step s e) es)"
  have i: "inv ?s" using Cons.prems(1) ok(1) by (rule inv_step)
  have "nxt s \<le> nxt ?s" "nxt ?s \<le> ?n"
    using nxt_step [OF Cons.prems(1) ok(1)] run_nxt [OF i ok(2)] by auto
  then have "[nxt s..?n - 1] = [nxt s..nxt ?s - 1] @ [nxt ?s..?n - 1]"
    using upto_split1 [of "nxt s" "nxt ?s" "?n - 1"] upto_split2 [of "nxt s" "nxt ?s - 1" "?n - 1"]
    by (cases "nxt s \<le> nxt ?s - 1"; cases "nxt ?s - 1 \<le> ?n - 1") auto
  then show ?case using Cons.IH [OF i ok(2)] out_seqs [OF Cons.prems(1) ok(1)] by simp
qed simp

lemma delivered_iff:
  assumes "inv s" and "list_all okev es"
  shows "k \<in> sq ` set (outputs step out s es) \<longleftrightarrow> nxt s \<le> k \<and> k < nxt (foldl step s es)"
proof -
  have "sq ` set (outputs step out s es) = set [nxt s..nxt (foldl step s es) - 1]"
    using run_outputs [OF assms] by (metis set_map)
  then show ?thesis by auto
qed

end

end
