(* ===== verification/Multicast.thy ===== *)
theory Multicast
  imports Resequencer
begin

text \<open>
  The A/B feed arbitrator of \<open>multicast_arbitrator.py\<close> and its feed simulator.  The replay client
  is outside code: it is an argument of the handler, a function from a channel and a range to
  packets or an exception, with no assumption on what it returns.  A background replay is two
  atomic steps under the lock, entering its packets and clearing its pending marks, which may
  interleave with packets.  Reading a missing gap buffer yields the empty one (a \<open>defaultdict\<close>).
\<close>

section \<open>State\<close>

record udp_packet =
  pk_channel :: string
  pk_seq :: int
  pk_feed :: string
  pk_payload :: bytes
  pk_send_ts :: f64
  pk_recv_ts :: f64

record arb_metrics =
  feed_a_packets :: int
  feed_b_packets :: int
  tcp_packets :: int
  dedup_dropped :: int
  in_order_dispatched :: int
  gaps_detected :: int
  tcp_replays_requested :: int
  tcp_packets_recovered :: int
  gap_buffer_overflows :: int

record arbitrator =
  ar_max_gap :: int
  ar_initial :: int
  ar_async :: bool
  ar_pool :: bool
  ar_pending :: "(string \<times> int) set"
  ar_jobs :: "(string \<times> int \<times> int) list"
  ar_expected :: "(string, int) dict"
  ar_gaps :: "(string, (int, udp_packet) dict) dict"
  ar_metrics :: arb_metrics

type_synonym replay_client = "string \<Rightarrow> int \<Rightarrow> int \<Rightarrow> udp_packet list res"

definition metrics_init :: arb_metrics where
  "metrics_init =
     \<lparr>feed_a_packets = 0, feed_b_packets = 0, tcp_packets = 0, dedup_dropped = 0,
      in_order_dispatched = 0, gaps_detected = 0, tcp_replays_requested = 0,
      tcp_packets_recovered = 0, gap_buffer_overflows = 0\<rparr>"

definition arb_init :: "int \<Rightarrow> int \<Rightarrow> bool \<Rightarrow> arbitrator" where
  "arb_init max_gap initial async =
     \<lparr>ar_max_gap = max_gap, ar_initial = initial, ar_async = async, ar_pool = async,
      ar_pending = {}, ar_jobs = [], ar_expected = [], ar_gaps = [], ar_metrics = metrics_init\<rparr>"

section \<open>Operations\<close>

definition arb_close :: "arbitrator \<Rightarrow> arbitrator" where
  "arb_close a = a\<lparr>ar_pool := False\<rparr>"

definition get_expected_seq :: "arbitrator \<Rightarrow> string \<Rightarrow> int" where
  "get_expected_seq a ch = dgetd (ar_expected a) ch (ar_initial a)"

definition set_expected_seq :: "arbitrator \<Rightarrow> string \<Rightarrow> int \<Rightarrow> arbitrator" where
  "set_expected_seq a ch s = a\<lparr>ar_expected := dset (ar_expected a) ch s\<rparr>"

definition gap_of :: "arbitrator \<Rightarrow> string \<Rightarrow> (int, udp_packet) dict" where
  "gap_of a ch = dgetd (ar_gaps a) ch []"

definition set_gap :: "arbitrator \<Rightarrow> string \<Rightarrow> (int, udp_packet) dict \<Rightarrow> arbitrator" where
  "set_gap a ch b = a\<lparr>ar_gaps := dset (ar_gaps a) ch b\<rparr>"

definition upd_metrics :: "(arb_metrics \<Rightarrow> arb_metrics) \<Rightarrow> arbitrator \<Rightarrow> arbitrator" where
  "upd_metrics f a = a\<lparr>ar_metrics := f (ar_metrics a)\<rparr>"

definition absorb1 :: "int \<Rightarrow> (int, udp_packet) dict \<times> int \<Rightarrow> udp_packet \<Rightarrow> (int, udp_packet) dict \<times> int" where
  "absorb1 expected bn p =
     (case bn of (b, n) \<Rightarrow>
        if \<not> din (pk_seq p) b \<and> expected \<le> pk_seq p then (dset b (pk_seq p) p, n + 1) else (b, n))"

definition absorb_replay :: "arbitrator \<Rightarrow> string \<Rightarrow> int \<Rightarrow> udp_packet list \<Rightarrow> arbitrator" where
  "absorb_replay a ch expected pkts =
     (let (b, n) = foldl (absorb1 expected) (gap_of a ch, 0) pkts
      in upd_metrics (\<lambda>m. m\<lparr>tcp_packets_recovered := tcp_packets_recovered m + n\<rparr>) (set_gap a ch b))"

text \<open>The two critical sections of \<open>_run_replay\<close>.\<close>

definition replay_enter :: "arbitrator \<Rightarrow> string \<Rightarrow> udp_packet list \<Rightarrow> arbitrator" where
  "replay_enter a ch pkts = absorb_replay a ch (get_expected_seq a ch) pkts"

definition replay_done :: "arbitrator \<Rightarrow> string \<Rightarrow> int \<Rightarrow> int \<Rightarrow> arbitrator" where
  "replay_done a ch start fin = a\<lparr>ar_pending := ar_pending a - Pair ch ` set [start..fin]\<rparr>"

definition run_replay :: "replay_client option \<Rightarrow> arbitrator \<Rightarrow> string \<Rightarrow> int \<Rightarrow> int \<Rightarrow> arbitrator" where
  "run_replay client a ch start fin =
     (case client of
        None \<Rightarrow> a
      | Some f \<Rightarrow> (case f ch start fin of
                    Inr pkts \<Rightarrow> replay_done (replay_enter a ch pkts) ch start fin
                  | Inl _ \<Rightarrow> replay_done a ch start fin))"

text \<open>Asking for the missing range; the flag says that the request went to the background pool and
  the handler returns at once.  The list of needed numbers ascends, so its ends are min and max.\<close>

definition request_replay ::
  "replay_client option \<Rightarrow> arbitrator \<Rightarrow> string \<Rightarrow> int \<Rightarrow> int \<Rightarrow> arbitrator \<times> bool" where
  "request_replay client a ch expected sq =
     (case client of
        None \<Rightarrow> (a, False)
      | Some f \<Rightarrow>
          let needed = [s \<leftarrow> py_range expected sq. \<not> din s (gap_of a ch) \<and> (ch, s) \<notin> ar_pending a]
          in if needed = [] then (a, False)
             else
               let req_start = hd needed; req_end = last needed;
                   a1 = upd_metrics (\<lambda>m. m\<lparr>tcp_replays_requested := tcp_replays_requested m + 1\<rparr>) a
               in if ar_async a1 \<and> ar_pool a1
                  then (a1\<lparr>ar_pending := ar_pending a1 \<union> Pair ch ` set [req_start..req_end],
                           ar_jobs := ar_jobs a1 @ [(ch, req_start, req_end)]\<rparr>, True)
                  else (case f ch req_start req_end of
                          Inr pkts \<Rightarrow> (absorb_replay a1 ch expected pkts, False)
                        | Inl _ \<Rightarrow> (a1, False)))"

definition drain_gap_buffer :: "arbitrator \<Rightarrow> string \<Rightarrow> arbitrator \<times> udp_packet list" where
  "drain_gap_buffer a ch =
     (let (b, c, ps) = drain_buf (gap_of a ch) (get_expected_seq a ch)
      in (set_expected_seq (set_gap a ch b) ch c, ps))"

definition count_dispatched :: "arbitrator \<Rightarrow> udp_packet list \<Rightarrow> arbitrator" where
  "count_dispatched a ps =
     upd_metrics (\<lambda>m. m\<lparr>in_order_dispatched := in_order_dispatched m + int (length ps)\<rparr>) a"

definition count_ingress :: "arbitrator \<Rightarrow> udp_packet \<Rightarrow> arbitrator" where
  "count_ingress a p =
     upd_metrics (\<lambda>m. if pk_feed p = ''A'' then m\<lparr>feed_a_packets := feed_a_packets m + 1\<rparr>
                      else if pk_feed p = ''B'' then m\<lparr>feed_b_packets := feed_b_packets m + 1\<rparr>
                      else m\<lparr>tcp_packets := tcp_packets m + 1\<rparr>) a"

definition count_dedup :: "arbitrator \<Rightarrow> arbitrator" where
  "count_dedup a = upd_metrics (\<lambda>m. m\<lparr>dedup_dropped := dedup_dropped m + 1\<rparr>) a"

text \<open>The branch \<open>seq > expected\<close>: buffering the packet, then asking for the missing range.\<close>

definition buffer_gap :: "arbitrator \<Rightarrow> string \<Rightarrow> udp_packet \<Rightarrow> arbitrator" where
  "buffer_gap a ch p =
     (let sq = pk_seq p; buf = gap_of a ch;
          a1 = (if din sq buf then count_dedup a else set_gap a ch (dset buf sq p))
      in upd_metrics (\<lambda>m. m\<lparr>gaps_detected := gaps_detected m + 1\<rparr>) a1)"

definition on_gap ::
  "replay_client option \<Rightarrow> arbitrator \<Rightarrow> string \<Rightarrow> int \<Rightarrow> udp_packet \<Rightarrow> arbitrator \<times> udp_packet list" where
  "on_gap client a ch expected p =
     (let sq = pk_seq p; buf = gap_of a ch
      in if \<not> din sq buf \<and> ar_max_gap a \<le> int (length buf)
         then (upd_metrics (\<lambda>m. m\<lparr>gap_buffer_overflows := gap_buffer_overflows m + 1\<rparr>) a, [])
         else
           let (a3, submitted) = request_replay client (buffer_gap a ch p) ch expected sq
           in if submitted then (a3, [])
              else if din expected (gap_of a3 ch)
              then let (a4, ps) = drain_gap_buffer a3 ch in (count_dispatched a4 ps, ps)
              else (a3, []))"

text \<open>The branch \<open>seq = expected\<close>.\<close>

definition on_in_order :: "arbitrator \<Rightarrow> string \<Rightarrow> int \<Rightarrow> udp_packet \<Rightarrow> arbitrator \<times> udp_packet list" where
  "on_in_order a ch expected p =
     (let a1 = set_expected_seq a ch (expected + 1);
          (a2, ps) = (if gap_of a1 ch \<noteq> [] \<and> din (expected + 1) (gap_of a1 ch)
                      then drain_gap_buffer a1 ch else (a1, []))
      in (count_dispatched a2 (p # ps), p # ps))"

definition enrol :: "arbitrator \<Rightarrow> string \<Rightarrow> arbitrator" where
  "enrol a ch = (if din ch (ar_expected a) then a else set_expected_seq a ch (ar_initial a))"

definition on_packet ::
  "replay_client option \<Rightarrow> arbitrator \<Rightarrow> udp_packet \<Rightarrow> arbitrator \<times> udp_packet list" where
  "on_packet client a p =
     (let ch = pk_channel p;
          a1 = count_ingress a p;
          a2 = enrol a1 ch;
          expected = get_expected_seq a2 ch
      in if pk_seq p < expected then (count_dedup a2, [])
         else if expected < pk_seq p then on_gap client a2 ch expected p
         else on_in_order a2 ch expected p)"

fun drain_channels :: "arbitrator \<Rightarrow> string list \<Rightarrow> arbitrator \<times> (string \<times> udp_packet list) list" where
  "drain_channels a [] = (a, [])"
| "drain_channels a (ch # chs) =
     (if din (get_expected_seq a ch) (gap_of a ch)
      then let (a1, d) = drain_gap_buffer a ch;
               (a2, r) = drain_channels (count_dispatched a1 d) chs
           in (a2, (ch, d) # r)
      else drain_channels a chs)"

definition drain_targets :: "arbitrator \<Rightarrow> string option \<Rightarrow> string list" where
  "drain_targets a cho =
     (case cho of Some ch \<Rightarrow> if din ch (ar_expected a) then [ch] else [] | None \<Rightarrow> dkeys (ar_expected a))"

definition arb_drain :: "arbitrator \<Rightarrow> string option \<Rightarrow> arbitrator \<times> udp_packet list" where
  "arb_drain a cho =
     (let (a1, r) = drain_channels a (drain_targets a cho) in (a1, concat (map snd r)))"

definition reset_channel :: "arbitrator \<Rightarrow> string \<Rightarrow> int \<Rightarrow> arbitrator" where
  "reset_channel a ch s = set_gap (set_expected_seq a ch s) ch []"

section \<open>Runs\<close>

datatype arb_ev =
    Packet udp_packet "replay_client option"
  | ReplayEnter string "udp_packet list"
  | ReplayDone string int int
  | Drain "string option"
  | Close

fun arb_step :: "arbitrator \<Rightarrow> arb_ev \<Rightarrow> arbitrator" where
  "arb_step a (Packet p client) = fst (on_packet client a p)"
| "arb_step a (ReplayEnter ch pkts) = replay_enter a ch pkts"
| "arb_step a (ReplayDone ch s e) = replay_done a ch s e"
| "arb_step a (Drain cho) = fst (arb_drain a cho)"
| "arb_step a Close = arb_close a"

text \<open>What one event dispatches on the channel \<open>c\<close>.\<close>

fun arb_out :: "string \<Rightarrow> arbitrator \<Rightarrow> arb_ev \<Rightarrow> udp_packet list" where
  "arb_out c a (Packet p client) = (if pk_channel p = c then snd (on_packet client a p) else [])"
| "arb_out c a (Drain cho) =
     concat (map snd [r \<leftarrow> snd (drain_channels a (drain_targets a cho)). fst r = c])"
| "arb_out c a _ = []"

definition arb_inv :: "arbitrator \<Rightarrow> bool" where
  "arb_inv a = (\<forall>ch. keyed pk_seq (gap_of a ch))"

section \<open>Reading the state after an update\<close>

lemma gap_of_simps [simp]:
  "gap_of (set_gap a ch b) ch' = (if ch' = ch then b else gap_of a ch')"
  "gap_of (set_expected_seq a ch s) ch' = gap_of a ch'"
  "gap_of (upd_metrics f a) ch' = gap_of a ch'"
  "gap_of (a\<lparr>ar_pending := P, ar_jobs := J\<rparr>) ch' = gap_of a ch'"
  "gap_of (a\<lparr>ar_pending := P\<rparr>) ch' = gap_of a ch'"
  "gap_of (a\<lparr>ar_pool := q\<rparr>) ch' = gap_of a ch'"
  by (simp_all add: gap_of_def set_gap_def set_expected_seq_def upd_metrics_def dict_simps)

lemma get_expected_simps [simp]:
  "get_expected_seq (set_gap a ch b) ch' = get_expected_seq a ch'"
  "get_expected_seq (set_expected_seq a ch s) ch' = (if ch' = ch then s else get_expected_seq a ch')"
  "get_expected_seq (upd_metrics f a) ch' = get_expected_seq a ch'"
  "get_expected_seq (a\<lparr>ar_pending := P, ar_jobs := J\<rparr>) ch' = get_expected_seq a ch'"
  "get_expected_seq (a\<lparr>ar_pending := P\<rparr>) ch' = get_expected_seq a ch'"
  "get_expected_seq (a\<lparr>ar_pool := q\<rparr>) ch' = get_expected_seq a ch'"
  by (simp_all add: get_expected_seq_def set_gap_def set_expected_seq_def upd_metrics_def dict_simps)

lemmas count_defs = count_dedup_def count_dispatched_def count_ingress_def

text \<open>The view of a channel: what is expected and what is buffered.  \<open>adv\<close> relates the views before
  and after a step that dispatches \<open>ps\<close>: consecutive numbers, nothing buffered is lost.\<close>

definition adv :: "int \<Rightarrow> (int, udp_packet) dict \<Rightarrow> int \<Rightarrow> (int, udp_packet) dict \<Rightarrow> udp_packet list \<Rightarrow> bool" where
  "adv e b e' b' ps =
     (keyed pk_seq b' \<and> e \<le> e' \<and> map pk_seq ps = [e..e' - 1]
      \<and> (\<forall>s. s < e \<or> din s b \<longrightarrow> s < e' \<or> din s b'))"

lemma adv_refl: "keyed pk_seq b \<Longrightarrow> adv e b e b []"
  by (simp add: adv_def)

lemma adv_grow:
  assumes "adv e b' e' b'' ps" and "\<And>s. din s b \<Longrightarrow> din s b'"
  shows "adv e b e' b'' ps"
  using assms by (auto simp: adv_def)

lemma adv_drain: "keyed pk_seq b \<Longrightarrow> drain_buf b e = (b', e', ps) \<Longrightarrow> adv e b e' b' ps"
  using drain_buf_spec [of pk_seq b e b' e' ps] drain_buf_keeps [of pk_seq b e b' e' ps]
  by (auto simp: adv_def)

lemma adv_cons:
  assumes "adv (e + 1) b e' b' ps" and "pk_seq p = e"
  shows "adv e b e' b' (p # ps)"
proof -
  have "[e..e' - 1] = e # [e + 1..e' - 1]" using assms(1) by (intro upto_rec1) (simp add: adv_def)
  then show ?thesis using assms unfolding adv_def
    by (metis add.commute dual_order.trans less_add_one less_imp_le list.simps(9) less_trans)
qed

lemma absorb_keyed:
  "keyed pk_seq b \<Longrightarrow> keyed pk_seq (fst (foldl (absorb1 e) (b, n) pkts))
   \<and> (din s b \<longrightarrow> din s (fst (foldl (absorb1 e) (b, n) pkts)))"
proof (induction pkts arbitrary: b n)
  case (Cons p pkts)
  then show ?case by (auto simp: absorb1_def keyed_dset din_dset)
qed simp

lemma absorb_replay_view:
  "gap_of (absorb_replay a ch e pkts) c =
     (if c = ch then fst (foldl (absorb1 e) (gap_of a ch, 0) pkts) else gap_of a c)"
  "get_expected_seq (absorb_replay a ch e pkts) c = get_expected_seq a c"
  by (auto simp: absorb_replay_def Let_def split_beta)

lemma request_replay_view:
  assumes "request_replay client a ch e sq = (a', sub)" and "arb_inv a"
  shows "arb_inv a' \<and> get_expected_seq a' c = get_expected_seq a c
         \<and> (din s (gap_of a c) \<longrightarrow> din s (gap_of a' c)) \<and> (c \<noteq> ch \<longrightarrow> gap_of a' c = gap_of a c)"
  using assms absorb_keyed [of "gap_of a ch" e 0 _ s]
  by (auto simp: request_replay_def arb_inv_def Let_def absorb_replay_view
        split: option.splits if_splits sum.splits prod.splits)

lemma drain_gap_buffer_view:
  assumes "arb_inv a" and "drain_gap_buffer a ch = (a', ps)"
  shows "arb_inv a'
    \<and> adv (get_expected_seq a ch) (gap_of a ch) (get_expected_seq a' ch) (gap_of a' ch) ps
    \<and> (c \<noteq> ch \<longrightarrow> get_expected_seq a' c = get_expected_seq a c \<and> gap_of a' c = gap_of a c)"
proof -
  obtain b e q where d: "drain_buf (gap_of a ch) (get_expected_seq a ch) = (b, e, q)"
    by (metis prod_cases3)
  have k: "keyed pk_seq (gap_of a ch)" using assms(1) by (simp add: arb_inv_def)
  have "keyed pk_seq b" using drain_buf_spec [OF k d] by simp
  then show ?thesis using assms adv_drain [OF k d]
    by (auto simp: drain_gap_buffer_def d arb_inv_def)
qed


definition ovf :: "arbitrator \<Rightarrow> int" where
  "ovf a = gap_buffer_overflows (ar_metrics a)"

lemma ovf_simps [simp]:
  "ovf (set_gap a ch b) = ovf a" "ovf (set_expected_seq a ch s) = ovf a"
  "ovf (a\<lparr>ar_pending := P, ar_jobs := J\<rparr>) = ovf a" "ovf (a\<lparr>ar_pending := P\<rparr>) = ovf a"
  "ovf (a\<lparr>ar_pool := q\<rparr>) = ovf a"
  "ovf (count_dedup a) = ovf a" "ovf (count_ingress a p) = ovf a" "ovf (count_dispatched a ps) = ovf a"
  by (simp_all add: ovf_def set_gap_def set_expected_seq_def count_defs upd_metrics_def)

lemma ovf_absorb [simp]: "ovf (absorb_replay a ch e pkts) = ovf a"
  by (simp add: absorb_replay_def Let_def split_beta) (simp add: ovf_def upd_metrics_def set_gap_def)

lemma ovf_drain: "drain_gap_buffer a ch = (a', ps) \<Longrightarrow> ovf a' = ovf a"
  by (auto simp: drain_gap_buffer_def Let_def split: prod.splits)

lemma ovf_request: "request_replay client a ch e sq = (a', sub) \<Longrightarrow> ovf a' = ovf a"
  by (auto simp: request_replay_def Let_def split: option.splits if_splits sum.splits)
     (simp_all add: ovf_def upd_metrics_def)

lemma enrol_view [simp]:
  "get_expected_seq (enrol a ch) d = get_expected_seq a d" "gap_of (enrol a ch) d = gap_of a d"
  "ovf (enrol a ch) = ovf a"
  by (simp_all add: enrol_def)
     (simp add: get_expected_seq_def set_expected_seq_def dgetd_def din_def dict_simps split: option.splits)

section \<open>One packet\<close>

lemma on_in_order_view:
  assumes inv: "arb_inv a" and e: "get_expected_seq a ch = pk_seq p"
    and r: "on_in_order a ch (pk_seq p) p = (a', ps)"
  shows "arb_inv a' \<and> adv (get_expected_seq a ch) (gap_of a ch) (get_expected_seq a' ch) (gap_of a' ch) ps
     \<and> (c \<noteq> ch \<longrightarrow> get_expected_seq a' c = get_expected_seq a c \<and> gap_of a' c = gap_of a c)
     \<and> pk_seq p < get_expected_seq a' ch \<and> ovf a' = ovf a"
proof -
  let ?a1 = "set_expected_seq a ch (pk_seq p + 1)"
  have inv1: "arb_inv ?a1" using inv by (simp add: arb_inv_def)
  have k: "keyed pk_seq (gap_of a ch)" using inv by (simp add: arb_inv_def)
  show ?thesis
  proof (cases "gap_of a ch \<noteq> [] \<and> din (pk_seq p + 1) (gap_of a ch)")
    case True
    obtain a2 qs where d: "drain_gap_buffer ?a1 ch = (a2, qs)" by fastforce
    note v = drain_gap_buffer_view [OF inv1 d, of c]
    have out: "a' = count_dispatched a2 (p # qs)" "ps = p # qs"
      using r True by (auto simp: on_in_order_def d)
    have "adv (pk_seq p) (gap_of a ch) (get_expected_seq a2 ch) (gap_of a2 ch) (p # qs)"
      using v by (intro adv_cons) simp_all
    moreover have "pk_seq p + 1 \<le> get_expected_seq a2 ch" using v by (simp add: adv_def)
    ultimately show ?thesis using v e ovf_drain [OF d]
      by (auto simp: out arb_inv_def) (auto simp: count_defs)
  next
    case False
    then have out: "a' = count_dispatched ?a1 [p]" "ps = [p]"
      using r by (auto simp: on_in_order_def)
    have "adv (pk_seq p) (gap_of a ch) (pk_seq p + 1) (gap_of a ch) [p]"
      using adv_refl [OF k] by (intro adv_cons) simp_all
    then show ?thesis using inv e by (auto simp: out arb_inv_def count_defs ovf_def)
       (auto simp: upd_metrics_def set_expected_seq_def)
  qed
qed

lemma on_gap_view:
  assumes inv: "arb_inv a" and r: "on_gap client a ch (get_expected_seq a ch) p = (a', ps)"
  shows "arb_inv a' \<and> adv (get_expected_seq a ch) (gap_of a ch) (get_expected_seq a' ch) (gap_of a' ch) ps
     \<and> (c \<noteq> ch \<longrightarrow> get_expected_seq a' c = get_expected_seq a c \<and> gap_of a' c = gap_of a c)
     \<and> (din (pk_seq p) (gap_of a ch) \<or> int (length (gap_of a ch)) < ar_max_gap a
          \<longrightarrow> pk_seq p < get_expected_seq a' ch \<or> din (pk_seq p) (gap_of a' ch))"
proof -
  let ?s = "pk_seq p" and ?e = "get_expected_seq a ch" and ?b = "gap_of a ch"
  have k: "keyed pk_seq ?b" using inv by (simp add: arb_inv_def)
  show ?thesis
  proof (cases "\<not> din ?s ?b \<and> ar_max_gap a \<le> int (length ?b)")
    case True
    then show ?thesis using r inv adv_refl [OF k]
      by (auto simp: on_gap_def arb_inv_def)
  next
    case room: False
    define a2 where "a2 = buffer_gap a ch p"
    have a2: "arb_inv a2" "get_expected_seq a2 d = get_expected_seq a d" "din ?s (gap_of a2 ch)"
      "din s ?b \<Longrightarrow> din s (gap_of a2 ch)" "d \<noteq> ch \<Longrightarrow> gap_of a2 d = gap_of a d" for d s
      using inv k by (auto simp: a2_def buffer_gap_def Let_def arb_inv_def keyed_dset din_dset count_defs)
    have o2: "ovf a2 = ovf a" by (simp add: a2_def buffer_gap_def Let_def ovf_def upd_metrics_def count_defs set_gap_def)
    obtain a3 sub where rq: "request_replay client a2 ch ?e ?s = (a3, sub)" by fastforce
    note v3 = request_replay_view [OF rq a2(1)]
    have o3: "ovf a3 = ovf a" using ovf_request [OF rq] o2 by simp
    have "arb_inv a3" using v3 by blast
    then have k3: "keyed pk_seq (gap_of a3 ch)" by (simp add: arb_inv_def)
    have e3: "get_expected_seq a3 d = get_expected_seq a d" for d using v3 [of d] a2(2) by simp
    have g3: "din s ?b \<Longrightarrow> din s (gap_of a3 ch)" for s using v3 [of ch s] a2(4) by blast
    have s3: "din ?s (gap_of a3 ch)" using v3 [of ch ?s] a2(3) by blast
    have oth: "d \<noteq> ch \<Longrightarrow> gap_of a3 d = gap_of a d" for d using v3 [of d] a2(5) by simp
    show ?thesis
    proof (cases "\<not> sub \<and> din ?e (gap_of a3 ch)")
      case False
      have out: "a' = a3" "ps = []" using r False
        unfolding on_gap_def Let_def a2_def [symmetric] rq if_not_P [OF room]
        by (simp_all split: if_splits)
      show ?thesis using \<open>arb_inv a3\<close> adv_grow [OF adv_refl [OF k3] g3] s3 oth by (simp add: out e3)
    next
      case True
      obtain a4 qs where d: "drain_gap_buffer a3 ch = (a4, qs)" by fastforce
      have "(count_dispatched a4 qs, qs) = (a', ps)" using r True
        unfolding on_gap_def Let_def a2_def [symmetric] rq if_not_P [OF room] by (simp add: d) (elim conjE, simp)
      then have out: "a' = count_dispatched a4 qs" "ps = qs" by auto
      note v4 = drain_gap_buffer_view [OF \<open>arb_inv a3\<close> d, of c]
      have ad: "adv ?e ?b (get_expected_seq a4 ch) (gap_of a4 ch) qs"
        using v4 adv_grow [OF _ g3] by (simp add: e3)
      have "?s < get_expected_seq a4 ch \<or> din ?s (gap_of a4 ch)" using v4 s3 by (auto simp: adv_def)
      then show ?thesis using ad v4 oth [of c] e3 [of c]
        by (auto simp: out arb_inv_def count_defs)
    qed
  qed
qed

lemma on_packet_view:
  assumes inv: "arb_inv a" and r: "on_packet client a p = (a', ps)" and ch: "ch = pk_channel p"
  shows "arb_inv a' \<and> adv (get_expected_seq a ch) (gap_of a ch) (get_expected_seq a' ch) (gap_of a' ch) ps
     \<and> (c \<noteq> ch \<longrightarrow> get_expected_seq a' c = get_expected_seq a c \<and> gap_of a' c = gap_of a c)
     \<and> (din (pk_seq p) (gap_of a ch) \<or> int (length (gap_of a ch)) < ar_max_gap a
          \<longrightarrow> pk_seq p < get_expected_seq a' ch \<or> din (pk_seq p) (gap_of a' ch))"
proof -
  define a2 where "a2 = enrol (count_ingress a p) ch"
  have e2: "get_expected_seq a2 d = get_expected_seq a d" for d by (simp add: a2_def count_defs)
  have g2: "gap_of a2 d = gap_of a d" for d
    by (simp add: a2_def count_defs)
  have i2: "arb_inv a2" and o2: "ar_max_gap a2 = ar_max_gap a"
    using inv g2 by (auto simp: arb_inv_def) (simp add: a2_def enrol_def set_expected_seq_def count_ingress_def upd_metrics_def)
  have k: "keyed pk_seq (gap_of a ch)" using inv by (simp add: arb_inv_def)
  have r': "(if pk_seq p < get_expected_seq a2 ch then (count_dedup a2, [])
      else if get_expected_seq a2 ch < pk_seq p then on_gap client a2 ch (get_expected_seq a2 ch) p
      else on_in_order a2 ch (get_expected_seq a2 ch) p) = (a', ps)"
    using r unfolding on_packet_def Let_def ch [symmetric] a2_def .
  consider "pk_seq p < get_expected_seq a2 ch" | "get_expected_seq a2 ch < pk_seq p"
    | "get_expected_seq a2 ch = pk_seq p" by linarith
  then show ?thesis
  proof cases
    case 1
    then show ?thesis using r' i2 adv_refl [OF k]
      by (auto simp: e2 g2 arb_inv_def) (auto simp: count_defs e2 g2)
  next
    case 2
    then show ?thesis using on_gap_view [OF i2, of client ch p a' ps c] r' by (simp add: e2 g2 o2)
  next
    case 3
    then show ?thesis using on_in_order_view [OF i2 3, of a' ps c] r' by (simp add: e2 g2 o2)
  qed
qed


section \<open>Runs\<close>

lemma drain_channels_view:
  assumes "arb_inv a" and "drain_channels a chs = (a', r)" and "distinct chs"
  shows "arb_inv a' \<and> ovf a' = ovf a
     \<and> adv (get_expected_seq a c) (gap_of a c) (get_expected_seq a' c) (gap_of a' c)
         (concat (map snd [x \<leftarrow> r. fst x = c]))
     \<and> (c \<notin> set chs \<longrightarrow> get_expected_seq a' c = get_expected_seq a c \<and> gap_of a' c = gap_of a c
                     \<and> [x \<leftarrow> r. fst x = c] = [])"
  using assms
proof (induction a chs arbitrary: a' r rule: drain_channels.induct)
  case (1 a)
  then show ?case using adv_refl by (auto simp: arb_inv_def)
next
  case (2 a ch chs)
  show ?case
  proof (cases "din (get_expected_seq a ch) (gap_of a ch)")
    case False
    then show ?thesis using 2 by auto
  next
    case True
    obtain a1 d where d: "drain_gap_buffer a ch = (a1, d)" by fastforce
    let ?a1 = "count_dispatched a1 d"
    obtain a2 r2 where r2: "drain_channels ?a1 chs = (a2, r2)" by fastforce
    have out: "a' = a2" "r = (ch, d) # r2" using "2.prems"(2) True by (auto simp: d r2)
    note v = drain_gap_buffer_view [OF "2.prems"(1) d]
    have eq1: "get_expected_seq ?a1 x = get_expected_seq a1 x" "gap_of ?a1 x = gap_of a1 x" for x
      by (simp_all add: count_defs)
    have i1: "arb_inv ?a1" using v by (simp add: arb_inv_def eq1)
    have ch: "ch \<notin> set chs" "distinct chs" using "2.prems"(3) by auto
    note IH = "2.IH"(1) [OF True d [symmetric] refl i1 r2 ch(2)]
    show ?thesis
    proof (cases "c = ch")
      case True
      then show ?thesis using IH v ch ovf_drain [OF d] by (simp add: out eq1)
    next
      case False
      then show ?thesis using IH v [of c] ovf_drain [OF d] by (simp add: out eq1)
    qed
  qed
qed

lemma arb_step_view:
  assumes inv: "arb_inv a" and wf: "dwf (ar_expected a)"
  shows "arb_inv (arb_step a ev)
     \<and> adv (get_expected_seq a c) (gap_of a c)
         (get_expected_seq (arb_step a ev) c) (gap_of (arb_step a ev) c) (arb_out c a ev)"
proof (cases ev)
  case (Packet p client)
  obtain a' ps where r: "on_packet client a p = (a', ps)" by fastforce
  have "keyed pk_seq (gap_of a c)" using inv by (simp add: arb_inv_def)
  then show ?thesis using on_packet_view [OF inv r refl, of c] adv_refl by (auto simp: Packet r)
next
  case (ReplayEnter ch pkts)
  have "keyed pk_seq (gap_of a d)" for d using inv by (simp add: arb_inv_def)
  then show ?thesis using absorb_keyed [of "gap_of a ch" "get_expected_seq a ch" 0 pkts]
    by (auto simp: ReplayEnter replay_enter_def arb_inv_def absorb_replay_view adv_def)
next
  case (Drain cho)
  obtain a' r where r: "drain_channels a (drain_targets a cho) = (a', r)" by fastforce
  have "distinct (drain_targets a cho)"
    using wf by (auto simp: drain_targets_def dwf_def split: option.splits)
  then show ?thesis using drain_channels_view [OF inv r, of c] by (simp add: Drain arb_drain_def r)
next
  case (ReplayDone ch st e)
  have "keyed pk_seq (gap_of a d)" for d using inv by (simp add: arb_inv_def)
  then show ?thesis using inv by (simp add: ReplayDone replay_done_def arb_inv_def adv_refl)
next
  case Close
  have "keyed pk_seq (gap_of a d)" for d using inv by (simp add: arb_inv_def)
  then show ?thesis using inv by (simp add: Close arb_close_def arb_inv_def adv_refl)
qed

lemma expected_of_updates [simp]:
  "ar_expected (upd_metrics f a) = ar_expected a" "ar_expected (set_gap a ch b) = ar_expected a"
  "ar_expected (set_expected_seq a ch s) = dset (ar_expected a) ch s"
  by (simp_all add: upd_metrics_def set_gap_def set_expected_seq_def)

lemma wf_drain: "dwf (ar_expected a) \<Longrightarrow> dwf (ar_expected (fst (drain_gap_buffer a ch)))"
  by (simp add: drain_gap_buffer_def split_beta)

lemma wf_absorb: "ar_expected (absorb_replay a ch e pkts) = ar_expected a"
  by (simp add: absorb_replay_def split_beta)

lemma wf_request: "ar_expected (fst (request_replay client a ch e sq)) = ar_expected a"
  by (auto simp: request_replay_def Let_def wf_absorb split: option.splits sum.splits)

lemma wf_gap: "dwf (ar_expected a) \<Longrightarrow> dwf (ar_expected (fst (on_gap client a ch e p)))"
  using wf_request [of client "buffer_gap a ch p" ch e "pk_seq p"]
  by (auto simp: on_gap_def Let_def split_beta buffer_gap_def count_defs wf_drain)

lemma wf_packet: "dwf (ar_expected a) \<Longrightarrow> dwf (ar_expected (fst (on_packet client a p)))"
  by (auto simp: on_packet_def Let_def enrol_def count_defs on_in_order_def split_beta wf_drain wf_gap)

lemma wf_drain_channels: "dwf (ar_expected a) \<Longrightarrow> dwf (ar_expected (fst (drain_channels a chs)))"
proof (induction a chs rule: drain_channels.induct)
  case (2 a ch chs)
  then show ?case using wf_drain [OF "2.prems", of ch] by (auto simp: split_beta count_defs)
qed simp

lemma arb_step_wf: "dwf (ar_expected a) \<Longrightarrow> dwf (ar_expected (arb_step a ev))"
  by (cases ev)
     (auto simp: wf_packet replay_enter_def wf_absorb replay_done_def arb_drain_def split_beta
        wf_drain_channels arb_close_def)

definition arb_ok :: "arbitrator \<Rightarrow> bool" where
  "arb_ok a = (arb_inv a \<and> dwf (ar_expected a))"

lemma arb_ok_init: "arb_ok (arb_init g i as)"
  by (simp add: arb_ok_def arb_inv_def arb_init_def gap_of_def dgetd_def)

text \<open>On every channel the arbitrator is a resequencer.\<close>

interpretation arb: resequencer "\<lambda>a. get_expected_seq a c" arb_step "arb_out c" pk_seq arb_ok "\<lambda>_. True"
  by unfold_locales (use arb_step_view [of _ _ c] arb_step_wf in \<open>auto simp: arb_ok_def adv_def\<close>)

lemma arb_keeps:
  "arb_ok a \<Longrightarrow> s < get_expected_seq a c \<or> din s (gap_of a c)
   \<Longrightarrow> s < get_expected_seq (foldl arb_step a evs) c \<or> din s (gap_of (foldl arb_step a evs) c)"
proof (induction evs arbitrary: a)
  case (Cons ev evs)
  have "arb_ok (arb_step a ev)" using Cons.prems(1) by (rule arb.inv_step) simp
  moreover have "s < get_expected_seq (arb_step a ev) c \<or> din s (gap_of (arb_step a ev) c)"
    using arb_step_view [of a ev c] Cons.prems by (auto simp: arb_ok_def adv_def)
  ultimately show ?case using Cons.IH by simp
qed simp

lemma arb_dispatched:
  "map pk_seq (outputs arb_step (arb_out c) (arb_init max_gap initial async) evs)
   = [initial..get_expected_seq (foldl arb_step (arb_init max_gap initial async) evs) c - 1]"
  using arb.run_outputs [OF arb_ok_init, of evs c max_gap initial async]
  by (simp add: list_all_iff) (simp add: arb_init_def get_expected_seq_def dgetd_def)

text \<open>C6: in-order, duplicate-free, gap-free delivery.  Whatever packets arrive on either feed, with
  whatever replay answers, background replays and drains in between, the sequence numbers dispatched
  on a channel are exactly the consecutive numbers from the initial one to the one before the final
  watermark, each once and in order.\<close>

theorem arbitrator_delivers_in_order:
  "map pk_seq (outputs arb_step (arb_out c) (arb_init max_gap initial async) evs)
   = [initial..get_expected_seq (foldl arb_step (arb_init max_gap initial async) evs) c - 1]"
  by (rule arb_dispatched)

text \<open>No packet is lost.  Consider a packet with a number not below the initial one that arrives, on
  either feed, while the gap buffer of its channel has room or holds its number already.  After any further packets, replays
  and drains, a packet with its number has been dispatched on its channel, or one is still in the gap buffer.\<close>

theorem arbitrator_loses_nothing:
  assumes "a = foldl arb_step (arb_init max_gap initial async) evs" and "initial \<le> pk_seq p"
    and "din (pk_seq p) (gap_of a (pk_channel p)) \<or> int (length (gap_of a (pk_channel p))) < ar_max_gap a"
    and "run = evs @ Packet p client # evs'"
  shows "pk_seq p \<in> pk_seq ` set (outputs arb_step (arb_out (pk_channel p)) (arb_init max_gap initial async) run)
    \<or> din (pk_seq p) (gap_of (foldl arb_step (arb_init max_gap initial async) run) (pk_channel p))"
proof -
  let ?ch = "pk_channel p" and ?b = "foldl arb_step (arb_init max_gap initial async) run"
  have ok: "arb_ok a" unfolding assms(1) by (rule arb.run_inv [OF arb_ok_init]) (simp add: list_all_iff)
  obtain a' ps where r: "on_packet client a p = (a', ps)" by fastforce
  have "pk_seq p < get_expected_seq a' ?ch \<or> din (pk_seq p) (gap_of a' ?ch)"
    using on_packet_view [OF _ r refl] ok assms(3) by (auto simp: arb_ok_def)
  moreover have "arb_ok a'" using arb.inv_step [OF ok, of "Packet p client"] by (simp add: r)
  ultimately have k: "pk_seq p < get_expected_seq ?b ?ch \<or> din (pk_seq p) (gap_of ?b ?ch)"
    unfolding assms(4) using arb_keeps [of a'] assms(1) [symmetric] by (simp add: r)
  have "pk_seq ` set (outputs arb_step (arb_out ?ch) (arb_init max_gap initial async) run) = {initial..get_expected_seq ?b ?ch - 1}"
    using arb_dispatched [of ?ch max_gap initial async run] by (metis set_map set_upto)
  then show ?thesis using k assms(2) by auto
qed

definition early_packet :: udp_packet where
  "early_packet = \<lparr>pk_channel = ''X'', pk_seq = 3, pk_feed = ''A'', pk_payload = [], pk_send_ts = 0, pk_recv_ts = 0\<rparr>"

theorem arbitrator_loses_nothing_witness:
  "int (length (gap_of (arb_init 4 1 False) ''X'')) < ar_max_gap (arb_init 4 1 False)
   \<and> (3 \<in> pk_seq ` set (outputs arb_step (arb_out ''X'') (arb_init 4 1 False) [Packet early_packet None, Drain None])
      \<or> din 3 (gap_of (foldl arb_step (arb_init 4 1 False) [Packet early_packet None, Drain None]) ''X''))"
proof -
  have "int (length (gap_of (arb_init 4 1 False) ''X'')) < ar_max_gap (arb_init 4 1 False)" by (simp add: gap_of_def dgetd_def arb_init_def)
  then show ?thesis
    using arbitrator_loses_nothing [of "arb_init 4 1 False" 4 1 False "[]" early_packet _ None "[Drain None]"] by (simp add: early_packet_def)
qed


section \<open>The feed simulator and end-to-end healing\<close>

record feed_sim =
  fs_channel :: string
  fs_drop_a :: f64
  fs_drop_b :: f64
  fs_seq :: int
  fs_history :: "(int, udp_packet) dict"

definition sim_init :: "string \<Rightarrow> f64 \<Rightarrow> f64 \<Rightarrow> feed_sim" where
  "sim_init ch da db = \<lparr>fs_channel = ch, fs_drop_a = da, fs_drop_b = db, fs_seq = 0, fs_history = []\<rparr>"

text \<open>\<open>ra\<close> and \<open>rb\<close> are the two draws of the random generator.\<close>

definition publish_event ::
  "feed_sim \<Rightarrow> bytes \<Rightarrow> f64 \<Rightarrow> f64 \<Rightarrow> f64 \<Rightarrow> feed_sim \<times> udp_packet option \<times> udp_packet option" where
  "publish_event f payload now ra rb =
     (let sq = fs_seq f + 1;
          pkt = (\<lambda>feed. \<lparr>pk_channel = fs_channel f, pk_seq = sq, pk_feed = feed, pk_payload = payload,
                         pk_send_ts = now, pk_recv_ts = now\<rparr>);
          f1 = f\<lparr>fs_seq := sq, fs_history := dset (fs_history f) sq (pkt ''CANONICAL'')\<rparr>
      in (f1, if fle (fs_drop_a f) ra then Some (pkt ''A'') else None,
              if fle (fs_drop_b f) rb then Some (pkt ''B'') else None))"

text \<open>\<open>clk\<close> gives the clock reading at which each packet is replayed.\<close>

definition tcp_replay_request :: "feed_sim \<Rightarrow> (int \<Rightarrow> f64) \<Rightarrow> string \<Rightarrow> int \<Rightarrow> int \<Rightarrow> udp_packet list" where
  "tcp_replay_request f clk ch start_seq end_seq =
     (if ch \<noteq> fs_channel f then []
      else map (\<lambda>s. let orig = the (dget (fs_history f) s)
                    in \<lparr>pk_channel = fs_channel f, pk_seq = s, pk_feed = ''TCP_REPLAY'',
                        pk_payload = pk_payload orig, pk_send_ts = pk_send_ts orig, pk_recv_ts = clk s\<rparr>)
             [s \<leftarrow> py_range start_seq (end_seq + 1). din s (fs_history f)])"

text \<open>One round: an event is published and the copies that survive reach the arbitrator.\<close>

type_synonym feed_round = "bytes \<times> f64 \<times> f64 \<times> f64 \<times> (int \<Rightarrow> f64)"

definition arrive ::
  "feed_sim \<Rightarrow> (int \<Rightarrow> f64) \<Rightarrow> arbitrator \<times> udp_packet list \<Rightarrow> udp_packet option \<Rightarrow> arbitrator \<times> udp_packet list" where
  "arrive f clk ad po =
     (case po of
        None \<Rightarrow> ad
      | Some p \<Rightarrow> (case on_packet (Some (\<lambda>ch s e. Inr (tcp_replay_request f clk ch s e))) (fst ad) p of
                    (a', ps) \<Rightarrow> (a', snd ad @ ps)))"

fun play_round :: "feed_sim \<times> arbitrator \<times> udp_packet list \<Rightarrow> feed_round \<Rightarrow> feed_sim \<times> arbitrator \<times> udp_packet list" where
  "play_round (f, ad) (payload, now, ra, rb, clk) =
     (case publish_event f payload now ra rb of
        (f1, pa, pb) \<Rightarrow> (f1, arrive f1 clk (arrive f1 clk ad pa) pb))"

lemma absorb_lookup:
  "dget (fst (foldl (absorb1 e) (b, n) pkts)) k =
     (case dget b k of Some p \<Rightarrow> Some p
      | None \<Rightarrow> if e \<le> k then map_of (map (\<lambda>p. (pk_seq p, p)) pkts) k else None)"
proof (induction pkts arbitrary: b n)
  case (Cons p pkts)
  then show ?case by (auto simp: absorb1_def din_def dict_simps split: option.splits)
qed (simp split: option.splits)

text \<open>The simulator's archive agrees with the payloads published so far, and the arbitrator is caught
  up to some point with an empty buffer.\<close>

definition heal_inv :: "bytes list \<Rightarrow> feed_sim \<times> arbitrator \<times> udp_packet list \<Rightarrow> bool" where
  "heal_inv pls st =
     (case st of (f, a, ds) \<Rightarrow>
        fs_seq f = int (length pls)
        \<and> (\<forall>k. din k (fs_history f) \<longleftrightarrow> 1 \<le> k \<and> k \<le> int (length pls))
        \<and> (\<forall>k. 1 \<le> k \<and> k \<le> int (length pls) \<longrightarrow> pk_payload (the (dget (fs_history f) k)) = pls ! nat (k - 1))
        \<and> gap_of a (fs_channel f) = [] \<and> ar_pending a = {} \<and> \<not> ar_async a \<and> 1 \<le> ar_max_gap a
        \<and> 1 \<le> get_expected_seq a (fs_channel f) \<and> get_expected_seq a (fs_channel f) \<le> int (length pls) + 1
        \<and> map pk_payload ds = take (nat (get_expected_seq a (fs_channel f) - 1)) pls)"

lemma map_of_seqs:
  "(\<And>k. pk_seq (R k) = k) \<Longrightarrow>
   map_of (map (\<lambda>p. (pk_seq p, p)) (map R [i..j])) k = (if i \<le> k \<and> k \<le> j then Some (R k) else None)"
proof -
  assume R: "\<And>k. pk_seq (R k) = k"
  have "map (\<lambda>p. (pk_seq p, p)) (map R [i..j]) = map (\<lambda>k. (k, R k)) [i..j]" by (simp add: R)
  then show ?thesis unfolding \<open>map _ _ = _\<close> by (simp only: map_of_map_restrict restrict_map_def) auto
qed


lemma cfg_updates [simp]:
  "ar_pending (upd_metrics g a) = ar_pending a" "ar_pending (set_gap a c b) = ar_pending a"
  "ar_pending (set_expected_seq a c s) = ar_pending a" "ar_pending (enrol a c) = ar_pending a"
  "ar_async (upd_metrics g a) = ar_async a" "ar_async (set_gap a c b) = ar_async a"
  "ar_async (set_expected_seq a c s) = ar_async a" "ar_async (enrol a c) = ar_async a"
  "ar_max_gap (upd_metrics g a) = ar_max_gap a" "ar_max_gap (set_gap a c b) = ar_max_gap a"
  "ar_max_gap (set_expected_seq a c s) = ar_max_gap a" "ar_max_gap (enrol a c) = ar_max_gap a"
  by (simp_all add: upd_metrics_def set_gap_def set_expected_seq_def enrol_def)

text \<open>The gap branch when the archive can serve the whole range: everything up to the packet goes out.\<close>

lemma on_gap_heals:
  assumes gap: "gap_of a ch = []" and cfg: "ar_pending a = {}" "\<not> ar_async a" "1 \<le> ar_max_gap a"
    and e: "get_expected_seq a ch = e" "e < pk_seq p"
    and f: "f ch e (pk_seq p - 1) = Inr (map R [e..pk_seq p - 1])" "\<And>k. pk_seq (R k) = k"
  shows "\<exists>a'. on_gap (Some f) a ch e p = (a', map R [e..pk_seq p - 1] @ [p])
           \<and> gap_of a' ch = [] \<and> ar_pending a' = {} \<and> \<not> ar_async a' \<and> ar_max_gap a' = ar_max_gap a
           \<and> get_expected_seq a' ch = pk_seq p + 1"
proof -
  let ?n = "pk_seq p"
  define a1 where "a1 = buffer_gap a ch p"
  have a1: "gap_of a1 ch = [(?n, p)]" "ar_pending a1 = {}" "\<not> ar_async a1" "ar_max_gap a1 = ar_max_gap a"
    "get_expected_seq a1 ch = e"
    using assms by (simp_all add: a1_def buffer_gap_def din_def)
  have nd: "[s \<leftarrow> py_range e ?n. \<not> din s (gap_of a1 ch) \<and> (ch, s) \<notin> ar_pending a1] = [e..?n - 1]"
    by (simp add: a1 filter_id_conv din_def)
  have ends: "[e..?n - 1] \<noteq> []" "hd [e..?n - 1] = e" "last [e..?n - 1] = ?n - 1"
    using e(2) arg_cong [OF upto_rec1 [of e "?n - 1"], of hd] arg_cong [OF upto_rec2 [of e "?n - 1"], of last]
    by simp_all
  define a2 where "a2 = upd_metrics (\<lambda>m. m\<lparr>tcp_replays_requested := tcp_replays_requested m + 1\<rparr>) a1"
  define a3 where "a3 = absorb_replay a2 ch e (map R [e..?n - 1])"
  have rq: "request_replay (Some f) a1 ch e ?n = (a3, False)"
    unfolding request_replay_def Let_def nd option.case ends a3_def a2_def using a1 f e(2) by simp
  define b where "b = fst (foldl (absorb1 e) ([(?n, p)], 0) (map R [e..?n - 1]))"
  have a3: "gap_of a3 ch = b" "get_expected_seq a3 ch = e" "ar_pending a3 = {}" "\<not> ar_async a3"
    "ar_max_gap a3 = ar_max_gap a"
    by (simp_all add: a3_def a2_def absorb_replay_view a1 b_def)
       (simp_all add: absorb_replay_def split_beta a1)
  have look: "dget b k = (if k = ?n then Some p else if e \<le> k \<and> k < ?n then Some (R k) else None)" for k
    unfolding b_def absorb_lookup map_of_seqs [OF f(2)] by auto
  have kb: "keyed pk_seq b"
    using absorb_keyed [of "[(?n, p)]" e 0 "map R [e..?n - 1]"] by (simp add: b_def keyed_def)
  have "din k b \<longleftrightarrow> e \<le> k \<and> k \<le> ?n" for k using e(2) by (auto simp: din_def look)
  then have dr: "drain_buf b e = ([], ?n + 1, map (\<lambda>k. the (dget b k)) [e..?n])"
    using e(2) by (intro drain_buf_exact [OF kb]) auto
  have "map (\<lambda>k. the (dget b k)) [e..?n] = map R [e..?n - 1] @ [p]"
    using e(2) upto_rec2 [of e ?n] by (simp add: look)
  moreover have "din e b" using e(2) by (auto simp: din_def look)
  moreover have "\<not> (\<not> din ?n (gap_of a ch) \<and> ar_max_gap a \<le> int (length (gap_of a ch)))"
    using gap cfg(3) by simp
  ultimately show ?thesis
    unfolding on_gap_def Let_def a1_def [symmetric] rq
    using a3 dr by (simp add: drain_gap_buffer_def count_defs) 
qed


lemma payloads_from:
  assumes "1 \<le> e"
  shows "map (\<lambda>k. xs ! nat (k - 1)) [e..int (length xs)] = drop (nat (e - 1)) xs"
proof (rule nth_equalityI)
  show "length (map (\<lambda>k. xs ! nat (k - 1)) [e..int (length xs)]) = length (drop (nat (e - 1)) xs)"
    using assms by simp
next
  fix i assume i: "i < length (map (\<lambda>k. xs ! nat (k - 1)) [e..int (length xs)])"
  then have "e + int i \<le> int (length xs)" by simp
  then have "map (\<lambda>k. xs ! nat (k - 1)) [e..int (length xs)] ! i = xs ! nat (e + int i - 1)"
    using i by (simp add: nth_upto)
  also have "nat (e + int i - 1) = nat (e - 1) + i" using assms by linarith
  finally show "map (\<lambda>k. xs ! nat (k - 1)) [e..int (length xs)] ! i = drop (nat (e - 1)) xs ! i"
    using i by (simp add: nth_drop)
qed

lemma arrive_heals:
  assumes inv: "heal_inv pls (f, a, ds)" and ne: "pls \<noteq> []"
    and p: "pk_channel p = fs_channel f" "pk_seq p = int (length pls)" "pk_payload p = last pls"
    and r: "arrive f clk (a, ds) (Some p) = (a', ds')"
  shows "heal_inv pls (f, a', ds') \<and> map pk_payload ds' = pls"
proof -
  let ?ch = "fs_channel f" and ?n = "int (length pls)"
  let ?f = "\<lambda>ch s e. Inr (tcp_replay_request f clk ch s e)"
  define R where "R s = (let orig = the (dget (fs_history f) s)
      in \<lparr>pk_channel = ?ch, pk_seq = s, pk_feed = ''TCP_REPLAY'', pk_payload = pk_payload orig,
          pk_send_ts = pk_send_ts orig, pk_recv_ts = clk s\<rparr>)" for s
  define a2 where "a2 = enrol (count_ingress a p) ?ch"
  define e where "e = get_expected_seq a ?ch"
  have a2: "gap_of a2 ?ch = []" "ar_pending a2 = {}" "\<not> ar_async a2" "1 \<le> ar_max_gap a2"
    "get_expected_seq a2 ?ch = e"
    using inv by (simp_all add: a2_def count_defs heal_inv_def e_def)
  have ds: "map pk_payload ds = take (nat (e - 1)) pls" and e: "1 \<le> e" "e \<le> ?n + 1"
    using inv by (simp_all add: heal_inv_def e_def)
  have op: "on_packet (Some ?f) a p =
      (if ?n < e then (count_dedup a2, []) else if e < ?n then on_gap (Some ?f) a2 ?ch e p
       else on_in_order a2 ?ch e p)"
    unfolding on_packet_def Let_def p(1,2) a2_def [symmetric] a2(5) by (rule refl)
  obtain a1 ps where r1: "on_packet (Some ?f) a p = (a1, ps)" by fastforce
  have out: "a' = a1" "ds' = ds @ ps" using r r1 by (auto simp: arrive_def)
  have goal: ?thesis if "gap_of a1 ?ch = []" "ar_pending a1 = {}" "\<not> ar_async a1" "1 \<le> ar_max_gap a1"
    "get_expected_seq a1 ?ch = ?n + 1" "map pk_payload ps = drop (nat (e - 1)) pls"
    using that inv by (simp add: heal_inv_def out ds [unfolded e_def] e_def)
  consider "?n < e" | "e = ?n" | "e < ?n" by linarith
  then show ?thesis
  proof cases
    case 1
    then have "e = ?n + 1" using e by simp
    then show ?thesis using r1 a2 1 by (intro goal) (auto simp: op count_defs)
  next
    case 2
    have "drop (nat (e - 1)) pls = [last pls]"
      using ne 2 by (cases pls rule: rev_cases) (simp_all add: nat_diff_distrib)
    then show ?thesis using r1 a2 2 p
      by (intro goal) (auto simp: op on_in_order_def count_defs)
  next
    case 3
    have hist: "din k (fs_history f) \<longleftrightarrow> 1 \<le> k \<and> k \<le> ?n"
      "1 \<le> k \<and> k \<le> ?n \<Longrightarrow> pk_payload (R k) = pls ! nat (k - 1)" for k
      using inv by (simp_all add: heal_inv_def R_def Let_def)
    have "[s \<leftarrow> [e..?n - 1]. din s (fs_history f)] = [e..?n - 1]"
      using e(1) by (auto simp: filter_id_conv hist(1))
    then have rep: "tcp_replay_request f clk ?ch e (pk_seq p - 1) = map R [e..pk_seq p - 1]"
      by (simp add: tcp_replay_request_def R_def p(2))
    have sR: "pk_seq (R k) = k" for k by (simp add: R_def Let_def)
    obtain a'' where g: "on_gap (Some ?f) a2 ?ch e p = (a'', map R [e..pk_seq p - 1] @ [p])"
      "gap_of a'' ?ch = [] \<and> ar_pending a'' = {} \<and> \<not> ar_async a'' \<and> ar_max_gap a'' = ar_max_gap a2
       \<and> get_expected_seq a'' ?ch = pk_seq p + 1"
      using on_gap_heals [OF a2, of p ?f R] rep sR 3 p(2) by auto
    have "nat (?n - 1) = length pls - 1" by linarith
    then have "pk_payload p = pls ! nat (?n - 1)" using ne p(3) by (simp add: last_conv_nth)
    then have "map pk_payload (map R [e..?n - 1] @ [p]) = map (\<lambda>k. pls ! nat (k - 1)) [e..?n]"
      using hist(2) e 3 upto_rec2 [of e ?n] by simp
    then have "map pk_payload (map R [e..?n - 1] @ [p]) = drop (nat (e - 1)) pls"
      by (simp only: payloads_from [OF e(1)])
    then show ?thesis using r1 g 3 a2(4) by (intro goal) (auto simp: op p(2))
  qed
qed


lemma publish_heal:
  assumes inv: "heal_inv pls (f, a, ds)" and r: "publish_event f payload now ra rb = (f1, pa, pb)"
  shows "heal_inv (pls @ [payload]) (f1, a, ds)" and "fs_channel f1 = fs_channel f"
    and "pa = Some p \<or> pb = Some p \<Longrightarrow> pk_channel p = fs_channel f \<and> pk_seq p = int (length pls) + 1
          \<and> pk_payload p = payload"
    and "(pa \<noteq> None) = fle (fs_drop_a f) ra" and "(pb \<noteq> None) = fle (fs_drop_b f) rb"
    and "fs_drop_a f1 = fs_drop_a f" and "fs_drop_b f1 = fs_drop_b f"
proof -
  have f1: "fs_channel f1 = fs_channel f" "fs_seq f1 = fs_seq f + 1"
    "fs_history f1 = dset (fs_history f) (fs_seq f + 1)
       \<lparr>pk_channel = fs_channel f, pk_seq = fs_seq f + 1, pk_feed = ''CANONICAL'', pk_payload = payload,
        pk_send_ts = now, pk_recv_ts = now\<rparr>"
    using r by (auto simp: publish_event_def Let_def)
  have "nat (get_expected_seq a (fs_channel f) - 1) \<le> length pls"
    using inv unfolding heal_inv_def by (simp add: nat_le_iff)
  then show "heal_inv (pls @ [payload]) (f1, a, ds)"
    using inv by (auto simp: heal_inv_def f1 din_dset dget_dset nth_append)
  show "fs_channel f1 = fs_channel f" by (rule f1)
  show "pa = Some p \<or> pb = Some p \<Longrightarrow> pk_channel p = fs_channel f \<and> pk_seq p = int (length pls) + 1
          \<and> pk_payload p = payload"
    using r inv by (auto simp: publish_event_def heal_inv_def Let_def split: if_splits)
qed (use r in \<open>auto simp: publish_event_def Let_def split: if_splits\<close>)

lemma play_round_heals:
  assumes inv: "heal_inv pls (f, a, ds)"
    and r: "play_round (f, a, ds) (payload, now, ra, rb, clk) = (f', a', ds')"
  shows "heal_inv (pls @ [payload]) (f', a', ds')
     \<and> fs_drop_a f' = fs_drop_a f \<and> fs_drop_b f' = fs_drop_b f
     \<and> (fle (fs_drop_a f) ra \<or> fle (fs_drop_b f) rb \<longrightarrow> map pk_payload ds' = pls @ [payload])"
proof -
  obtain f1 pa pb where pub: "publish_event f payload now ra rb = (f1, pa, pb)" by (metis prod_cases3)
  obtain a1 ds1 where ra1: "arrive f1 clk (a, ds) pa = (a1, ds1)" by fastforce
  obtain a2 ds2 where rb1: "arrive f1 clk (a1, ds1) pb = (a2, ds2)" by fastforce
  have out: "f' = f1" "a' = a2" "ds' = ds2" using r by (auto simp: pub ra1 rb1)
  note P = publish_heal [OF inv pub]
  let ?pls = "pls @ [payload]"
  have step: "heal_inv ?pls (f1, y, dy) \<and> (po \<noteq> None \<longrightarrow> map pk_payload dy = ?pls)
      \<and> (map pk_payload dx = ?pls \<longrightarrow> map pk_payload dy = ?pls)"
    if "heal_inv ?pls (f1, x, dx)" "arrive f1 clk (x, dx) po = (y, dy)" "po = pa \<or> po = pb" for x dx y dy po
  proof (cases po)
    case None
    then show ?thesis using that by (simp add: arrive_def)
  next
    case (Some p)
    have "pk_channel p = fs_channel f \<and> pk_seq p = int (length pls) + 1 \<and> pk_payload p = payload"
      using P(3) [of p] that(3) Some by auto
    then show ?thesis
      using arrive_heals [OF that(1) _ _ _ _ that(2) [unfolded Some]] P(2) by simp
  qed
  show ?thesis using step [OF P(1) ra1] step [OF _ rb1] P(4-7) by (auto simp: out)
qed

definition heal_start :: "string \<Rightarrow> f64 \<Rightarrow> f64 \<Rightarrow> int \<Rightarrow> feed_sim \<times> arbitrator \<times> udp_packet list" where
  "heal_start ch da db max_gap = (sim_init ch da db, arb_init max_gap 1 False, [])"

lemma heal_start_inv: "1 \<le> g \<Longrightarrow> heal_inv [] (heal_start ch da db g)"
  by (auto simp: heal_start_def heal_inv_def sim_init_def arb_init_def gap_of_def get_expected_seq_def
        dgetd_def din_def)

lemma play_heals:
  "heal_inv pls st \<Longrightarrow> heal_inv (pls @ map fst rounds) (foldl play_round st rounds)
     \<and> fs_drop_a (fst (foldl play_round st rounds)) = fs_drop_a (fst st)
     \<and> fs_drop_b (fst (foldl play_round st rounds)) = fs_drop_b (fst st)"
proof (induction rounds arbitrary: pls st)
  case (Cons rd rounds)
  obtain f a ds where st: "st = (f, a, ds)" by (metis prod_cases3)
  obtain payload now ra rb clk where rd: "rd = (payload, now, ra, rb, clk)" by (metis prod_cases5)
  obtain f' a' ds' where r: "play_round st rd = (f', a', ds')" by (metis prod_cases3)
  have "heal_inv (pls @ [payload]) (f', a', ds') \<and> fs_drop_a f' = fs_drop_a f \<and> fs_drop_b f' = fs_drop_b f"
    using play_round_heals [OF Cons.prems [unfolded st] r [unfolded st rd]] by blast
  then show ?case using Cons.IH [of "pls @ [payload]" "(f', a', ds')"]
    by (simp del: play_round.simps add: r rd [symmetric]) (simp add: rd st)
qed simp

text \<open>C7: the arbitrator heals the simulated feed.  Events are published on two lossy lines; each
  surviving copy reaches the arbitrator, whose replay client is the simulator's archive.  Whatever is
  lost, what was dispatched is a prefix of what was published, payload for payload; and when the last
  event got through on at least one line, everything published has been dispatched exactly once.\<close>

theorem arbitrator_heals_lossy_feed:
  assumes "1 \<le> max_gap"
    and "foldl play_round (heal_start ch da db max_gap) (rounds @ [(payload, now, ra, rb, clk)]) = (f, a, ds)"
  shows "(\<exists>k. map pk_payload ds = take k (map fst rounds @ [payload]))
         \<and> (fle da ra \<or> fle db rb \<longrightarrow> map pk_payload ds = map fst rounds @ [payload])"
proof -
  obtain f1 a1 ds1 where r: "foldl play_round (heal_start ch da db max_gap) rounds = (f1, a1, ds1)"
    by (metis prod_cases3)
  have h: "heal_inv (map fst rounds) (f1, a1, ds1)" "fs_drop_a f1 = da" "fs_drop_b f1 = db"
    using play_heals [OF heal_start_inv [OF assms(1), of ch da db], of rounds]
    by (simp_all add: r) (simp_all add: heal_start_def sim_init_def)
  have "play_round (f1, a1, ds1) (payload, now, ra, rb, clk) = (f, a, ds)"
    using assms(2) r by (simp del: play_round.simps)
  from play_round_heals [OF h(1) this] show ?thesis
    by (auto simp: h heal_inv_def)
qed

theorem arbitrator_heals_lossy_feed_witness:
  "map pk_payload (snd (snd (foldl play_round (heal_start ''C'' 1 1 5)
     ([([1], 0, 0, 0, \<lambda>_. 0), ([2], 0, 0, 0, \<lambda>_. 0)] @ [([3], 0, 1, 0, \<lambda>_. 0)])))) = [[1], [2], [3]]"
proof -
  let ?st = "foldl play_round (heal_start ''C'' 1 1 5)
     ([([1], 0, 0, 0, \<lambda>_. 0), ([2], 0, 0, 0, \<lambda>_. 0)] @ [([3], 0, 1, 0, \<lambda>_. 0)])"
  have "?st = (fst ?st, fst (snd ?st), snd (snd ?st))" by (simp del: play_round.simps)
  from arbitrator_heals_lossy_feed [OF _ this] show ?thesis
    by (simp del: play_round.simps foldl_append add: fle_def f_isnan_def f_mag_def inf_mag_def f_key_def)
qed

end
