(* ===== verification/Recovery.thy ===== *)
theory Recovery
  imports Resequencer
begin

text \<open>
  The feed recovery engine of \<open>recovery.py\<close>: its connection states, snapshot check, gap buffer and
  replay.  The replay handler is outside code and an argument of \<open>on_packet\<close>; a clock reading is the
  one taken at the last state change of the call.  Without a synchronous handler the engine is a
  resequencer; with one, the packets it replays are drained but not returned to the caller.
\<close>

section \<open>State\<close>

datatype feed_state =
  DISCONNECTED | CONNECTING | SNAPSHOT | LIVE | GAP_DETECTED | RECOVERING | STALE_SNAPSHOT | FAILED_RECOVERY

record feed_packet =
  fp_channel :: string
  fp_seq :: int
  fp_payload :: bytes
  fp_timestamp :: f64
  fp_replayed :: bool

record recovery_metrics =
  rm_transitions :: int
  rm_gaps :: int
  rm_requested :: int
  rm_completed :: int
  rm_failures :: int
  rm_stale :: int
  rm_dedup :: int
  rm_dispatched :: int

record recovery_engine =
  re_channel :: string
  re_expected :: int
  re_max_buffer :: int
  re_state :: feed_state
  re_last_change :: f64
  re_last_ts :: f64
  re_buffer :: "(int, feed_packet) dict"
  re_metrics :: recovery_metrics

type_synonym replay_handler = "string \<Rightarrow> int \<Rightarrow> int \<Rightarrow> feed_packet list res"

definition engine_init :: "string \<Rightarrow> int \<Rightarrow> int \<Rightarrow> f64 \<Rightarrow> recovery_engine" where
  "engine_init ch initial max_buffer now =
     \<lparr>re_channel = ch, re_expected = initial, re_max_buffer = max_buffer, re_state = DISCONNECTED,
      re_last_change = now, re_last_ts = 0, re_buffer = [],
      re_metrics = \<lparr>rm_transitions = 0, rm_gaps = 0, rm_requested = 0, rm_completed = 0, rm_failures = 0,
                    rm_stale = 0, rm_dedup = 0, rm_dispatched = 0\<rparr>\<rparr>"

section \<open>Operations\<close>

definition upd_rm :: "(recovery_metrics \<Rightarrow> recovery_metrics) \<Rightarrow> recovery_engine \<Rightarrow> recovery_engine" where
  "upd_rm f r = r\<lparr>re_metrics := f (re_metrics r)\<rparr>"

definition set_state :: "feed_state \<Rightarrow> f64 \<Rightarrow> recovery_engine \<Rightarrow> recovery_engine" where
  "set_state st now r =
     (if re_state r \<noteq> st
      then upd_rm (\<lambda>m. m\<lparr>rm_transitions := rm_transitions m + 1\<rparr>) (r\<lparr>re_state := st, re_last_change := now\<rparr>)
      else r)"

definition connect :: "bool \<Rightarrow> f64 \<Rightarrow> recovery_engine \<Rightarrow> recovery_engine" where
  "connect require_snapshot now r =
     set_state (if require_snapshot then SNAPSHOT else LIVE) now (set_state CONNECTING now r)"

definition disconnect :: "f64 \<Rightarrow> recovery_engine \<Rightarrow> recovery_engine" where
  "disconnect now r = (set_state DISCONNECTED now r)\<lparr>re_buffer := []\<rparr>"

definition on_snapshot :: "int \<Rightarrow> f64 \<Rightarrow> f64 \<Rightarrow> recovery_engine \<Rightarrow> recovery_engine \<times> bool" where
  "on_snapshot snapshot_seq snapshot_ts now r =
     (if flt snapshot_ts (re_last_ts r) \<and> flt 0 (re_last_ts r)
      then (set_state STALE_SNAPSHOT now (upd_rm (\<lambda>m. m\<lparr>rm_stale := rm_stale m + 1\<rparr>) r), False)
      else (set_state LIVE now (r\<lparr>re_expected := snapshot_seq + 1, re_last_ts := snapshot_ts, re_buffer := []\<rparr>), True))"

definition drain_contiguous :: "recovery_engine \<Rightarrow> recovery_engine \<times> feed_packet list" where
  "drain_contiguous r =
     (let (b, e, ps) = drain_buf (re_buffer r) (re_expected r)
      in (r\<lparr>re_buffer := b, re_expected := e, re_last_ts := foldl (\<lambda>t p. fmax t (fp_timestamp p)) (re_last_ts r) ps\<rparr>,
          ps))"

definition on_recovery_failed :: "f64 \<Rightarrow> recovery_engine \<Rightarrow> recovery_engine" where
  "on_recovery_failed now r =
     set_state FAILED_RECOVERY now (upd_rm (\<lambda>m. m\<lparr>rm_failures := rm_failures m + 1\<rparr>) r)"

definition enter_replayed :: "recovery_engine \<Rightarrow> feed_packet \<Rightarrow> recovery_engine" where
  "enter_replayed r p =
     (let p' = p\<lparr>fp_replayed := True\<rparr>
      in if re_expected r \<le> fp_seq p'
         then r\<lparr>re_buffer := dset (re_buffer r) (fp_seq p') p'\<rparr>
         else upd_rm (\<lambda>m. m\<lparr>rm_dedup := rm_dedup m + 1\<rparr>) r)"

definition on_recovery_packets ::
  "feed_packet list \<Rightarrow> f64 \<Rightarrow> recovery_engine \<Rightarrow> recovery_engine \<times> feed_packet list" where
  "on_recovery_packets packets now r =
     (if re_state r \<noteq> RECOVERING
      then (upd_rm (\<lambda>m. m\<lparr>rm_dedup := rm_dedup m + int (length packets)\<rparr>) r, [])
      else
        let r1 = foldl enter_replayed r packets
        in if din (re_expected r1) (re_buffer r1)
           then let (r2, ps) = drain_contiguous r1
                in (set_state LIVE now
                      (upd_rm (\<lambda>m. m\<lparr>rm_completed := rm_completed m + 1,
                                     rm_dispatched := rm_dispatched m + int (length ps)\<rparr>) r2), ps)
           else (r1, []))"

definition trigger_recovery ::
  "replay_handler option \<Rightarrow> int \<Rightarrow> int \<Rightarrow> f64 \<Rightarrow> recovery_engine \<Rightarrow> recovery_engine" where
  "trigger_recovery handler start_seq end_seq now r =
     (let r1 = upd_rm (\<lambda>m. m\<lparr>rm_requested := rm_requested m + 1\<rparr>) (set_state RECOVERING now r)
      in case handler of
           None \<Rightarrow> r1
         | Some h \<Rightarrow> (case h (re_channel r1) start_seq end_seq of
                       Inr replayed \<Rightarrow> if replayed \<noteq> [] then fst (on_recovery_packets replayed now r1) else r1
                     | Inl _ \<Rightarrow> on_recovery_failed now r1))"

definition rec_on_packet ::
  "replay_handler option \<Rightarrow> feed_packet \<Rightarrow> f64 \<Rightarrow> recovery_engine \<Rightarrow> recovery_engine \<times> feed_packet list" where
  "rec_on_packet handler p now r =
     (let sq = fp_seq p
      in if re_state r \<notin> {LIVE, RECOVERING, GAP_DETECTED} then (r, [])
         else if sq < re_expected r then (upd_rm (\<lambda>m. m\<lparr>rm_dedup := rm_dedup m + 1\<rparr>) r, [])
         else if re_expected r < sq
         then (let r1 = upd_rm (\<lambda>m. m\<lparr>rm_gaps := rm_gaps m + 1\<rparr>) r
               in if re_max_buffer r1 \<le> int (length (re_buffer r1)) then (on_recovery_failed now r1, [])
                  else let r2 = r1\<lparr>re_buffer := dset (re_buffer r1) sq p\<rparr>
                       in if re_state r2 = LIVE
                          then (trigger_recovery handler (re_expected r2) (sq - 1) now (set_state GAP_DETECTED now r2), [])
                          else (r2, []))
         else if re_state r = RECOVERING then (r\<lparr>re_buffer := dset (re_buffer r) sq p\<rparr>, [])
         else (let r1 = r\<lparr>re_expected := re_expected r + 1, re_last_ts := fp_timestamp p\<rparr>;
                   (r2, ps) = (if din (re_expected r1) (re_buffer r1) then drain_contiguous r1 else (r1, []));
                   ds = p # ps
               in (upd_rm (\<lambda>m. m\<lparr>rm_dispatched := rm_dispatched m + int (length ds)\<rparr>) r2, ds)))"

section \<open>Runs without a synchronous handler\<close>

datatype rec_ev =
    RPacket feed_packet f64
  | RRecovery "feed_packet list" f64
  | RConnect bool f64
  | RDisconnect f64
  | RFailed f64

fun rec_step :: "recovery_engine \<Rightarrow> rec_ev \<Rightarrow> recovery_engine" where
  "rec_step r (RPacket p now) = fst (rec_on_packet None p now r)"
| "rec_step r (RRecovery ps now) = fst (on_recovery_packets ps now r)"
| "rec_step r (RConnect b now) = connect b now r"
| "rec_step r (RDisconnect now) = disconnect now r"
| "rec_step r (RFailed now) = on_recovery_failed now r"

fun rec_out :: "recovery_engine \<Rightarrow> rec_ev \<Rightarrow> feed_packet list" where
  "rec_out r (RPacket p now) = snd (rec_on_packet None p now r)"
| "rec_out r (RRecovery ps now) = snd (on_recovery_packets ps now r)"
| "rec_out r _ = []"

definition rec_inv :: "recovery_engine \<Rightarrow> bool" where
  "rec_inv r = keyed fp_seq (re_buffer r)"

lemma rec_fields [simp]:
  "re_expected (upd_rm f r) = re_expected r" "re_buffer (upd_rm f r) = re_buffer r"
  "re_state (upd_rm f r) = re_state r" "re_channel (upd_rm f r) = re_channel r"
  "re_max_buffer (upd_rm f r) = re_max_buffer r"
  "re_expected (set_state st now r) = re_expected r" "re_buffer (set_state st now r) = re_buffer r"
  "re_state (set_state st now r) = st" "re_channel (set_state st now r) = re_channel r"
  "re_max_buffer (set_state st now r) = re_max_buffer r"
  by (simp_all add: upd_rm_def set_state_def)

lemma enter_replayed_fold:
  "rec_inv r \<Longrightarrow> rec_inv (foldl enter_replayed r ps)
   \<and> re_expected (foldl enter_replayed r ps) = re_expected r
   \<and> re_state (foldl enter_replayed r ps) = re_state r"
proof (induction ps arbitrary: r)
  case (Cons p ps)
  have "rec_inv (enter_replayed r p)" "re_expected (enter_replayed r p) = re_expected r"
    "re_state (enter_replayed r p) = re_state r"
    using Cons.prems by (auto simp: enter_replayed_def Let_def rec_inv_def intro: keyed_dset)
  then show ?case using Cons.IH by simp
qed simp

lemma drain_contiguous_view:
  assumes "rec_inv r" and "drain_contiguous r = (r', ps)"
  shows "rec_inv r' \<and> re_expected r \<le> re_expected r'
    \<and> map fp_seq ps = [re_expected r..re_expected r' - 1] \<and> re_state r' = re_state r"
proof -
  obtain b e qs where d: "drain_buf (re_buffer r) (re_expected r) = (b, e, qs)" by (metis prod_cases3)
  show ?thesis using drain_buf_spec [OF assms(1) [unfolded rec_inv_def] d] assms(2)
    by (auto simp: drain_contiguous_def d rec_inv_def)
qed

lemma recovery_packets_view:
  assumes inv: "rec_inv r" and r: "on_recovery_packets ps now r = (r', out)"
  shows "rec_inv r' \<and> re_expected r \<le> re_expected r' \<and> map fp_seq out = [re_expected r..re_expected r' - 1]"
proof (cases "re_state r = RECOVERING")
  case False
  then show ?thesis using inv r by (auto simp: on_recovery_packets_def rec_inv_def)
next
  case True
  define r1 where "r1 = foldl enter_replayed r ps"
  have r1: "rec_inv r1" "re_expected r1 = re_expected r"
    using enter_replayed_fold [OF inv] by (simp_all add: r1_def)
  obtain r2 qs where d: "drain_contiguous r1 = (r2, qs)" by fastforce
  show ?thesis
  proof (cases "din (re_expected r1) (re_buffer r1)")
    case din: True
    have "r' = set_state LIVE now (upd_rm (\<lambda>m. m\<lparr>rm_completed := rm_completed m + 1,
                                     rm_dispatched := rm_dispatched m + int (length qs)\<rparr>) r2)" "out = qs"
      using r True din by (auto simp: on_recovery_packets_def d simp flip: r1_def)
    then show ?thesis using drain_contiguous_view [OF r1(1) d] r1(2) by (simp add: rec_inv_def)
  next
    case False
    then have "r' = r1" "out = []" using r True by (auto simp: on_recovery_packets_def simp flip: r1_def)
    then show ?thesis using r1 by simp
  qed
qed

lemma rec_packet_view:
  assumes inv: "rec_inv r" and r: "rec_on_packet None p now r = (r', out)"
  shows "rec_inv r' \<and> re_expected r \<le> re_expected r' \<and> map fp_seq out = [re_expected r..re_expected r' - 1]"
proof -
  let ?r1 = "r\<lparr>re_expected := re_expected r + 1, re_last_ts := fp_timestamp p\<rparr>"
  obtain r2 ps where d: "drain_contiguous ?r1 = (r2, ps)" by fastforce
  have i1: "rec_inv ?r1" using inv by (simp add: rec_inv_def)
  note v = drain_contiguous_view [OF i1 d]
  have "map fp_seq (p # ps) = [re_expected r..re_expected r2 - 1]" if "fp_seq p = re_expected r"
    using v that upto_rec1 [of "re_expected r" "re_expected r2 - 1"] by simp
  then show ?thesis using r v inv
    by (auto simp: rec_on_packet_def Let_def d on_recovery_failed_def trigger_recovery_def rec_inv_def
          keyed_dset split: if_splits)
qed

interpretation rec: resequencer re_expected rec_step rec_out fp_seq rec_inv "\<lambda>_. True"
proof unfold_locales
  fix r :: recovery_engine and ev :: rec_ev
  assume inv: "rec_inv r"
  have "rec_inv (rec_step r ev) \<and> re_expected r \<le> re_expected (rec_step r ev)
    \<and> map fp_seq (rec_out r ev) = [re_expected r..re_expected (rec_step r ev) - 1]"
  proof (cases ev)
    case (RPacket p now)
    then show ?thesis using rec_packet_view [OF inv, of p now] by (cases "rec_on_packet None p now r") auto
  next
    case (RRecovery ps now)
    then show ?thesis using recovery_packets_view [OF inv, of ps now]
      by (cases "on_recovery_packets ps now r") auto
  qed (use inv in \<open>auto simp: connect_def disconnect_def on_recovery_failed_def rec_inv_def\<close>)
  then show "rec_inv (rec_step r ev)" "re_expected r \<le> re_expected (rec_step r ev)"
    "map fp_seq (rec_out r ev) = [re_expected r..re_expected (rec_step r ev) - 1]" by auto
qed


text \<open>The recovery engine delivers in order.  From any state with a coherent buffer, through any
  sequence of live packets, replayed packets, reconnects and failures (replay arriving through
  \<open>on_recovery_packets\<close>), the packets handed downstream carry exactly the consecutive numbers from the
  expected one up to the final watermark.\<close>

theorem recovery_delivers_in_order:
  "map fp_seq (outputs rec_step rec_out (engine_init ch initial cap now) evs)
   = [initial..re_expected (foldl rec_step (engine_init ch initial cap now) evs) - 1]"
proof -
  have "rec_inv (engine_init ch initial cap now)" by (simp add: rec_inv_def engine_init_def)
  then have "map fp_seq (outputs rec_step rec_out (engine_init ch initial cap now) evs)
      = [re_expected (engine_init ch initial cap now)
         ..re_expected (foldl rec_step (engine_init ch initial cap now) evs) - 1]"
    by (rule rec.run_outputs) (simp add: list_all_iff)
  then show ?thesis by (simp add: engine_init_def)
qed

section \<open>Quarantine and stale snapshots\<close>

text \<open>Every operation of the engine as a call, with the packets it hands downstream.\<close>

datatype rec_call =
    OnPacket "replay_handler option" feed_packet f64
  | OnReplayed "feed_packet list" f64
  | OnFailed f64
  | OnSnapshot int f64 f64
  | Disconnect f64
  | Connect bool f64

fun call_step :: "rec_call \<Rightarrow> recovery_engine \<Rightarrow> recovery_engine \<times> feed_packet list" where
  "call_step (OnPacket h p now) r = rec_on_packet h p now r"
| "call_step (OnReplayed ps now) r = on_recovery_packets ps now r"
| "call_step (OnFailed now) r = (on_recovery_failed now r, [])"
| "call_step (OnSnapshot sn ts now) r = (fst (on_snapshot sn ts now r), [])"
| "call_step (Disconnect now) r = (disconnect now r, [])"
| "call_step (Connect req now) r = (connect req now r, [])"

fun call_run :: "rec_call list \<Rightarrow> recovery_engine \<Rightarrow> recovery_engine \<times> feed_packet list" where
  "call_run [] r = (r, [])"
| "call_run (c # cs) r = (let (r1, ps) = call_step c r; (r2, qs) = call_run cs r1 in (r2, ps @ qs))"

text \<open>The calls that may bring a quarantined feed back: a reconnect, and a snapshot that is not older than the last time processed.\<close>

fun releases :: "f64 \<Rightarrow> rec_call \<Rightarrow> bool" where
  "releases seen (Connect req now) = True"
| "releases seen (OnSnapshot sn ts now) = (\<not> (flt ts seen \<and> flt 0 seen))"
| "releases seen _ = False"

definition silent :: "recovery_engine \<Rightarrow> bool" where
  "silent r = (re_state r \<in> {FAILED_RECOVERY, STALE_SNAPSHOT, DISCONNECTED})"

lemma last_ts_fields [simp]: "re_last_ts (set_state st now r) = re_last_ts r" "re_last_ts (upd_rm f r) = re_last_ts r"
  by (auto simp: set_state_def upd_rm_def)

lemma silent_call:
  assumes "silent r" and "\<not> releases (re_last_ts r) c" and "call_step c r = (r1, ps)"
  shows "silent r1 \<and> ps = [] \<and> re_expected r1 = re_expected r \<and> re_last_ts r1 = re_last_ts r"
  using assms by (cases c) (auto simp: silent_def rec_on_packet_def on_recovery_packets_def on_recovery_failed_def on_snapshot_def disconnect_def)

lemma silent_run:
  "silent r \<Longrightarrow> list_all (\<lambda>c. \<not> releases (re_last_ts r) c) cs \<Longrightarrow> call_run cs r = (r', out) \<Longrightarrow>
     silent r' \<and> out = [] \<and> re_expected r' = re_expected r \<and> re_last_ts r' = re_last_ts r"
proof (induction cs arbitrary: r r' out)
  case (Cons c cs)
  obtain r1 ps where s: "call_step c r = (r1, ps)" by fastforce
  note one = silent_call [OF Cons.prems(1) _ s]
  obtain r2 qs where t: "call_run cs r1 = (r2, qs)" by fastforce
  show ?case using Cons.IH [OF _ _ t] one Cons.prems s t by simp
qed simp

text \<open>C33: a feed whose recovery failed, or that was given a snapshot older than what it had already processed, is
  quarantined: through any sequence of live packets (with any replay handler), replayed packets, failures, disconnects and further
  stale snapshots it hands nothing downstream and keeps its position.  It leaves the quarantine only by a reconnect, or by a snapshot
  that is not older than the last time processed, which is accepted, makes the feed live and moves it past the snapshot.\<close>

theorem failed_or_stale_feed_is_quarantined:
  assumes "r = on_recovery_failed now q \<or> flt ts (re_last_ts q) \<and> flt 0 (re_last_ts q) \<and> r = fst (on_snapshot sn ts now q)"
    and "list_all (\<lambda>c. \<not> releases (re_last_ts q) c) cs" and "call_run cs r = (r', out)"
    and "on_snapshot sn' ts' now' r' = (r'', ok)"
  shows "out = [] \<and> re_expected r' = re_expected q \<and> re_state r' \<in> {FAILED_RECOVERY, STALE_SNAPSHOT, DISCONNECTED}
     \<and> (if flt ts' (re_last_ts q) \<and> flt 0 (re_last_ts q) then \<not> ok \<and> re_state r'' = STALE_SNAPSHOT \<and> re_expected r'' = re_expected q
        else ok \<and> re_state r'' = LIVE \<and> re_expected r'' = sn' + 1 \<and> re_buffer r'' = [])"
proof -
  have "silent r \<and> re_expected r = re_expected q \<and> re_last_ts r = re_last_ts q"
    using assms(1) by (auto simp: silent_def on_recovery_failed_def on_snapshot_def)
  then have "silent r' \<and> out = [] \<and> re_expected r' = re_expected q \<and> re_last_ts r' = re_last_ts q"
    using silent_run [OF _ _ assms(3)] assms(2) by simp
  then show ?thesis using assms(4) by (auto simp: silent_def on_snapshot_def)
qed

definition quarantine_calls :: "rec_call list" where
  "quarantine_calls =
     [OnPacket None \<lparr>fp_channel = ''X'', fp_seq = 1, fp_payload = [], fp_timestamp = 0, fp_replayed = False\<rparr> 0, OnSnapshot 7 0x3FF0000000000000 0, Disconnect 0]"

definition seen_engine :: recovery_engine where
  "seen_engine = (engine_init ''X'' 1 10 0)\<lparr>re_state := LIVE, re_last_ts := 0x4000000000000000\<rparr>"

theorem failed_or_stale_feed_is_quarantined_witness:
  "snd (call_run quarantine_calls (on_recovery_failed 0 seen_engine)) = []
   \<and> snd (call_run quarantine_calls (fst (on_snapshot 9 0x3FF0000000000000 0 seen_engine))) = []
   \<and> re_expected (fst (on_snapshot 9 0x4008000000000000 0 (fst (call_run quarantine_calls (on_recovery_failed 0 seen_engine))))) = 10"
proof -
  have "list_all (\<lambda>c. \<not> releases (re_last_ts seen_engine) c) quarantine_calls" by code_simp
  moreover have "flt 0x3FF0000000000000 (re_last_ts seen_engine) \<and> flt 0 (re_last_ts seen_engine)" by code_simp
  moreover have "\<not> flt 0x4008000000000000 (re_last_ts seen_engine)" by code_simp
  ultimately show ?thesis
    using failed_or_stale_feed_is_quarantined [where r = "on_recovery_failed 0 seen_engine" and q = seen_engine and now = 0 and ts = 0 and sn = 0
        and cs = quarantine_calls and sn' = 9 and ts' = "0x4008000000000000" and now' = 0, OF _ _ prod.collapse [symmetric] prod.collapse [symmetric]]
      failed_or_stale_feed_is_quarantined [where r = "fst (on_snapshot 9 0x3FF0000000000000 0 seen_engine)" and q = seen_engine and now = 0
        and ts = "0x3FF0000000000000" and sn = 9 and cs = quarantine_calls and sn' = 9 and ts' = "0x4008000000000000" and now' = 0,
        OF _ _ prod.collapse [symmetric] prod.collapse [symmetric]]
    by simp
qed

section \<open>Synchronous replay\<close>

lemma enter_replayed_buffer:
  "re_expected r \<le> e \<Longrightarrow> (\<And>k. fp_seq (R k) = k) \<Longrightarrow>
   foldl enter_replayed r (map R [e..n])
   = r\<lparr>re_buffer := foldl (\<lambda>b k. dset b k ((R k)\<lparr>fp_replayed := True\<rparr>)) (re_buffer r) [e..n]\<rparr>"
proof (induction "nat (n - e + 1)" arbitrary: e r)
  case 0
  then show ?case by simp
next
  case (Suc m)
  then have le: "e \<le> n" by linarith
  have "enter_replayed r (R e) = r\<lparr>re_buffer := dset (re_buffer r) e ((R e)\<lparr>fp_replayed := True\<rparr>)\<rparr>"
    using Suc.prems by (simp add: enter_replayed_def Let_def)
  then show ?case
    using Suc.hyps(1) [of "e + 1" "r\<lparr>re_buffer := dset (re_buffer r) e ((R e)\<lparr>fp_replayed := True\<rparr>)\<rparr>"]
      Suc.hyps(2) Suc.prems upto_rec1 [OF le] by simp
qed

lemma dget_foldl_dset:
  "dget (foldl (\<lambda>b k. dset b k (f k)) b ks) k = (if k \<in> set ks then Some (f k) else dget b k)"
  by (induction ks arbitrary: b) (auto simp: dict_simps)

text \<open>Packets replayed synchronously never reach the caller.  When a live engine with an empty
  buffer meets a gap and its replay handler answers with the whole missing range, the engine drains the
  replayed packets and the triggering packet, counts them as dispatched and moves its watermark past
  them, but \<open>on_packet\<close> returns the empty list: all of them are lost downstream.\<close>

theorem synchronous_replay_is_dropped:
  assumes "re_state r = LIVE" and "re_buffer r = []" and "re_expected r < fp_seq p" and "0 < re_max_buffer r"
    and "handler (re_channel r) (re_expected r) (fp_seq p - 1) = Inr (map R [re_expected r..fp_seq p - 1])"
    and "\<And>k. fp_seq (R k) = k"
  shows "\<exists>r'. rec_on_packet (Some handler) p now r = (r', []) \<and> re_expected r' = fp_seq p + 1
     \<and> re_buffer r' = [] \<and> re_state r' = LIVE
     \<and> rm_dispatched (re_metrics r') = rm_dispatched (re_metrics r) + (fp_seq p - re_expected r + 1)"
proof -
  let ?e = "re_expected r" and ?n = "fp_seq p"
  define r1 where "r1 = upd_rm (\<lambda>m. m\<lparr>rm_requested := rm_requested m + 1\<rparr>) (set_state RECOVERING now
    (set_state GAP_DETECTED now ((upd_rm (\<lambda>m. m\<lparr>rm_gaps := rm_gaps m + 1\<rparr>) r)\<lparr>re_buffer := [(?n, p)]\<rparr>)))"
  have r1: "re_expected r1 = ?e" "re_buffer r1 = [(?n, p)]" "re_state r1 = RECOVERING" "re_channel r1 = re_channel r"
    "rm_dispatched (re_metrics r1) = rm_dispatched (re_metrics r)"
    by (simp_all add: r1_def) (simp add: upd_rm_def set_state_def)
  define b where "b = foldl (\<lambda>b k. dset b k ((R k)\<lparr>fp_replayed := True\<rparr>)) [(?n, p)] [?e..?n - 1]"
  have look: "dget b k = (if ?e \<le> k \<and> k < ?n then Some ((R k)\<lparr>fp_replayed := True\<rparr>)
      else if k = ?n then Some p else None)" for k by (auto simp: b_def dget_foldl_dset)
  have fold: "foldl enter_replayed r1 (map R [?e..?n - 1]) = r1\<lparr>re_buffer := b\<rparr>"
    using enter_replayed_buffer [of r1 ?e R "?n - 1"] assms(6) by (simp add: r1 b_def)
  have kb: "keyed fp_seq b"
    using enter_replayed_fold [of r1 "map R [?e..?n - 1]"] fold by (simp add: rec_inv_def r1 keyed_def)
  have "din k b \<longleftrightarrow> ?e \<le> k \<and> k \<le> ?n" for k using assms(3) by (auto simp: din_def look)
  then have dr: "drain_buf b ?e = ([], ?n + 1, map (\<lambda>k. the (dget b k)) [?e..?n])"
    using assms(3) by (intro drain_buf_exact [OF kb]) auto
  have din: "din ?e b" using assms(3) by (simp add: din_def look)
  have "rec_on_packet (Some handler) p now r = (fst (on_recovery_packets (map R [?e..?n - 1]) now r1), [])"
    using assms(1-5) by (simp add: rec_on_packet_def trigger_recovery_def Let_def flip: r1_def) (simp add: r1(4))
  moreover have "on_recovery_packets (map R [?e..?n - 1]) now r1 =
      (set_state LIVE now (upd_rm (\<lambda>m. m\<lparr>rm_completed := rm_completed m + 1,
         rm_dispatched := rm_dispatched m + int (length [?e..?n])\<rparr>)
        (r1\<lparr>re_buffer := [], re_expected := ?n + 1,
            re_last_ts := foldl (\<lambda>t p. fmax t (fp_timestamp p)) (re_last_ts r1) (map (\<lambda>k. the (dget b k)) [?e..?n])\<rparr>)),
       map (\<lambda>k. the (dget b k)) [?e..?n])"
    using din dr by (simp add: on_recovery_packets_def fold r1 drain_contiguous_def)
  ultimately show ?thesis using assms(3) r1
    by (simp add: set_state_def) (simp add: upd_rm_def)
qed


definition demo_packet :: "int \<Rightarrow> feed_packet" where
  "demo_packet k = \<lparr>fp_channel = ''X'', fp_seq = k, fp_payload = [], fp_timestamp = 0, fp_replayed = False\<rparr>"

theorem synchronous_replay_is_dropped_witness:
  "\<exists>r'. rec_on_packet (Some (\<lambda>ch s e. Inr (map demo_packet [s..e]))) (demo_packet 4) 0
          (connect False 0 (engine_init ''X'' 1 10 0)) = (r', []) \<and> re_expected r' = 5
     \<and> re_buffer r' = [] \<and> re_state r' = LIVE \<and> rm_dispatched (re_metrics r') = 4"
  using synchronous_replay_is_dropped [of "connect False 0 (engine_init ''X'' 1 10 0)" "demo_packet 4"
      "\<lambda>ch s e. Inr (map demo_packet [s..e])" demo_packet 0]
  by (simp add: connect_def set_state_def upd_rm_def engine_init_def demo_packet_def)

text \<open>A partial replay returns the engine to live while a later gap is still open: with packets 3 and 7
  waiting, replaying 1 and 2 dispatches 1 to 3 and goes live, although 4 to 6 are missing.\<close>

lemma live_with_open_gap:
  "let r = foldl rec_step (engine_init ''X'' 1 10 0)
        [RConnect False 0, RPacket (demo_packet 3) 0, RPacket (demo_packet 7) 0,
         RRecovery [demo_packet 1, demo_packet 2] 0]
   in re_state r = LIVE \<and> re_expected r = 4 \<and> map fst (re_buffer r) = [7]"
  by code_simp

end
