(* ===== verification/Pystruct.thy ===== *)
theory Pystruct
  imports Pyfloat
begin

text \<open>
  The parts of Python's standard library that the binary codecs use: \<open>struct.pack\<close> and
  \<open>struct.unpack\<close> for the field codes the sources name, ASCII encoding and decoding with
  \<open>errors="replace"\<close>, zero padding, and \<open>zlib.crc32\<close>.  The main results are the round trip of
  any format and the fact that the checksum tells apart two inputs that differ in one byte.
\<close>

section \<open>Unsigned integers as bytes\<close>

primrec le_bytes :: "nat \<Rightarrow> int \<Rightarrow> bytes" where
  "le_bytes 0 n = []"
| "le_bytes (Suc k) n = word_of_int (n mod 256) # le_bytes k (n div 256)"

primrec le_int :: "bytes \<Rightarrow> int" where
  "le_int [] = 0"
| "le_int (b # bs) = uint b + 256 * le_int bs"

lemma length_le_bytes [wire_simps, simp]: "length (le_bytes k n) = k"
  by (induction k arbitrary: n) auto

lemma le_bytes_zero: "le_bytes k 0 = replicate k 0"
  by (induction k) auto

lemma uint_byte [simp]: "uint (word_of_int (n mod 256) :: byte) = n mod 256"
  by (simp add: uint_word_of_int)

lemma uint_byte_range: "0 \<le> uint (b :: byte)" "uint (b :: byte) < 256"
  using uint_range_size [of b] by (simp_all add: word_size)

lemma le_int_le_bytes: "0 \<le> n \<Longrightarrow> n < 256 ^ k \<Longrightarrow> le_int (le_bytes k n) = n"
proof (induction k arbitrary: n)
  case 0
  then show ?case by simp
next
  case (Suc k)
  have "n div 256 < 256 ^ k" using Suc.prems(2) by (simp add: div_less_iff_less_mult)
  then have "le_int (le_bytes k (n div 256)) = n div 256" using Suc by simp
  then show ?case by simp
qed

lemma le_int_range: "0 \<le> le_int bs \<and> le_int bs < 256 ^ length bs"
proof (induction bs)
  case (Cons b bs)
  then show ?case using uint_byte_range [of b] by simp
qed simp

lemma le_bytes_le_int: "le_bytes (length bs) (le_int bs) = bs"
proof (induction bs)
  case (Cons b bs)
  have "(uint b + 256 * le_int bs) mod 256 = uint b"
    using uint_byte_range [of b] by simp
  moreover have "(uint b + 256 * le_int bs) div 256 = le_int bs"
    using uint_byte_range [of b] by simp
  ultimately show ?case using Cons by simp
qed simp

lemma le_bytes_inj:
  "0 \<le> m \<Longrightarrow> m < 256 ^ k \<Longrightarrow> 0 \<le> n \<Longrightarrow> n < 256 ^ k \<Longrightarrow> le_bytes k m = le_bytes k n \<longleftrightarrow> m = n"
  using le_int_le_bytes by metis

section \<open>Single precision\<close>

definition round_mag32 :: "rat \<Rightarrow> int" where
  "round_mag32 q =
     (if q \<le> 0 then 0
      else let t = max (flog2 q - 23) (- 149)
           in rne (q / pow2 t) + (t + 149) * 0x800000)"

definition mag32_val :: "int \<Rightarrow> rat" where
  "mag32_val m =
     (if m < 0x800000 then of_int m * pow2 (- 149)
      else of_int (0x800000 + m mod 0x800000) * pow2 (m div 0x800000 - 150))"

text \<open>The C conversion \<open>(float) x\<close> behind the field code \<open>f\<close>; a finite value that would become
  infinite makes \<open>struct.pack\<close> raise \<open>OverflowError\<close>.\<close>

definition f64_to_f32 :: "f64 \<Rightarrow> int res" where
  "f64_to_f32 w =
     (let s = (if f_sign w then 0x80000000 else 0)
      in if f_isnan w then Inr (s + 0x7FC00000)
         else if f_isinf w then Inr (s + 0x7F800000)
         else let m = round_mag32 (mag_val (f_mag w))
              in if 0x7F800000 \<le> m then Inl OverflowError else Inr (s + m))"

definition f32_to_f64 :: "int \<Rightarrow> f64" where
  "f32_to_f64 n =
     (let s = (0x80000000 \<le> n); m = n mod 0x80000000
      in if 0x7F800000 < m then f_mk s 0x7FF8000000000000
         else if m = 0x7F800000 then f_mk s inf_mag
         else f_mk s (round_mag (mag32_val m)))"

section \<open>Formats\<close>

datatype endian = LE | BE

datatype field = FB | FH | FI | FQ | FD | FF | FS nat

datatype sval = VI int | VF f64 | VS bytes

fun fsize :: "field \<Rightarrow> nat" where
  "fsize FB = 1" | "fsize FH = 2" | "fsize FI = 4" | "fsize FQ = 8"
| "fsize FD = 8" | "fsize FF = 4" | "fsize (FS n) = n"

definition calcsize :: "field list \<Rightarrow> nat" where
  "calcsize fs = sum_list (map fsize fs)"

definition order_bytes :: "endian \<Rightarrow> bytes \<Rightarrow> bytes" where
  "order_bytes e bs = (case e of LE \<Rightarrow> bs | BE \<Rightarrow> rev bs)"

definition pack_uint :: "endian \<Rightarrow> nat \<Rightarrow> int \<Rightarrow> bytes res" where
  "pack_uint e k n =
     (if 0 \<le> n \<and> n < 256 ^ k then Inr (order_bytes e (le_bytes k n)) else Inl StructError)"

definition pad_to :: "nat \<Rightarrow> bytes \<Rightarrow> bytes" where
  "pad_to n bs = take n bs @ replicate (n - length bs) 0"

fun pack1 :: "endian \<Rightarrow> field \<Rightarrow> sval \<Rightarrow> bytes res" where
  "pack1 e FB (VI n) = pack_uint e 1 n"
| "pack1 e FH (VI n) = pack_uint e 2 n"
| "pack1 e FI (VI n) = pack_uint e 4 n"
| "pack1 e FQ (VI n) = pack_uint e 8 n"
| "pack1 e FD (VF w) = Inr (order_bytes e (le_bytes 8 (uint w)))"
| "pack1 e FF (VF w) = bindr (f64_to_f32 w) (\<lambda>n. Inr (order_bytes e (le_bytes 4 n)))"
| "pack1 e (FS n) (VS bs) = Inr (pad_to n bs)"
| "pack1 e _ _ = Inl StructError"

fun unpack1 :: "endian \<Rightarrow> field \<Rightarrow> bytes \<Rightarrow> sval" where
  "unpack1 e FD bs = VF (word_of_int (le_int (order_bytes e bs)))"
| "unpack1 e FF bs = VF (f32_to_f64 (le_int (order_bytes e bs)))"
| "unpack1 e (FS n) bs = VS bs"
| "unpack1 e _ bs = VI (le_int (order_bytes e bs))"

fun spack :: "endian \<Rightarrow> field list \<Rightarrow> sval list \<Rightarrow> bytes res" where
  "spack e [] [] = Inr []"
| "spack e (f # fs) (v # vs) =
     bindr (pack1 e f v) (\<lambda>b. bindr (spack e fs vs) (\<lambda>bs. Inr (b @ bs)))"
| "spack e _ _ = Inl StructError"

fun sunpack_all :: "endian \<Rightarrow> field list \<Rightarrow> bytes \<Rightarrow> sval list" where
  "sunpack_all e [] bs = []"
| "sunpack_all e (f # fs) bs =
     unpack1 e f (take (fsize f) bs) # sunpack_all e fs (drop (fsize f) bs)"

text \<open>\<open>unpack\<close> wants a buffer of exactly the format's size, \<open>unpack_from\<close> at least that size
  after the offset.\<close>

definition sunpack :: "endian \<Rightarrow> field list \<Rightarrow> bytes \<Rightarrow> sval list res" where
  "sunpack e fs bs = (if length bs = calcsize fs then Inr (sunpack_all e fs bs) else Inl StructError)"

definition sunpack_from :: "endian \<Rightarrow> field list \<Rightarrow> bytes \<Rightarrow> nat \<Rightarrow> sval list res" where
  "sunpack_from e fs bs off =
     (if off + calcsize fs \<le> length bs then Inr (sunpack_all e fs (drop off bs)) else Inl StructError)"

text \<open>What a packed value reads back as: single-precision fields are rounded, byte strings padded.\<close>

fun canon :: "field \<Rightarrow> sval \<Rightarrow> sval" where
  "canon FF (VF w) = VF (case f64_to_f32 w of Inl _ \<Rightarrow> w | Inr n \<Rightarrow> f32_to_f64 n)"
| "canon (FS n) (VS bs) = VS (pad_to n bs)"
| "canon _ v = v"

section \<open>Round trip\<close>

lemma length_order_bytes [wire_simps, simp]: "length (order_bytes e bs) = length bs"
  by (simp add: order_bytes_def split: endian.splits)

lemma order_bytes_twice [wire_simps, simp]: "order_bytes e (order_bytes e bs) = bs"
  by (simp add: order_bytes_def split: endian.splits)

lemma length_pad_to [wire_simps, simp]: "length (pad_to n bs) = n"
  by (simp add: pad_to_def)

lemma pack_uint_length: "pack_uint e k n = Inr bs \<Longrightarrow> length bs = k"
  by (auto simp: pack_uint_def split: if_splits)

lemma f64_to_f32_range: assumes "f64_to_f32 w = Inr n" shows "0 \<le> n \<and> n < 256 ^ 4"
proof -
  have "0 \<le> round_mag32 q" for q
  proof (cases "q \<le> 0")
    case False
    define t where "t = max (flog2 q - 23) (- 149)"
    have "0 \<le> rne (q / pow2 t)" using False by (intro rne_ge_int) simp
    moreover have "0 \<le> t + 149" by (simp add: t_def)
    ultimately show ?thesis using False by (simp add: round_mag32_def flip: t_def)
  qed (simp add: round_mag32_def)
  then show ?thesis using assms by (auto simp: f64_to_f32_def Let_def split: if_splits)
qed

lemma pack1_length: "pack1 e f v = Inr bs \<Longrightarrow> length bs = fsize f"
  by (cases "(e, f, v)" rule: pack1.cases)
     (auto simp: bindr_Inr dest: pack_uint_length)

lemma unpack_pack_uint:
  "pack_uint e k n = Inr bs \<Longrightarrow> le_int (order_bytes e bs) = n"
  by (auto simp: pack_uint_def le_int_le_bytes split: if_splits)

lemma uint64_bound: "uint (w :: f64) < 256 ^ 8"
  using uint_range_size [of w] by (simp add: word_size)

lemma unpack_f32: "f64_to_f32 w = Inr n \<Longrightarrow> le_int (le_bytes 4 n) = n"
  using f64_to_f32_range [of w n] by (intro le_int_le_bytes) auto

lemma unpack_f64 [simp]: "le_int (le_bytes 8 (uint (w :: f64))) = uint w"
  by (rule le_int_le_bytes [OF _ uint64_bound]) simp

lemma unpack1_pack1: "pack1 e f v = Inr bs \<Longrightarrow> unpack1 e f bs = canon f v"
  by (cases "(e, f, v)" rule: pack1.cases)
     (auto simp: bindr_Inr unpack_f32 dest: unpack_pack_uint)

lemma spack_length: "spack e fs vs = Inr bs \<Longrightarrow> length bs = calcsize fs"
  by (induction e fs vs arbitrary: bs rule: spack.induct)
     (auto simp: bindr_Inr calcsize_def dest: pack1_length)

lemma sunpack_all_spack:
  "spack e fs vs = Inr bs \<Longrightarrow> sunpack_all e fs (bs @ rest) = map2 canon fs vs"
proof (induction e fs vs arbitrary: bs rule: spack.induct)
  case (2 e f fs v vs)
  then obtain b bs' where b: "pack1 e f v = Inr b" and bs': "spack e fs vs = Inr bs'"
    and bs: "bs = b @ bs'" by (auto simp: bindr_Inr)
  have "sunpack_all e fs (bs' @ rest) = map2 canon fs vs" using "2.IH" [OF bs'] .
  then show ?case using pack1_length [OF b] unpack1_pack1 [OF b] by (simp add: bs)
qed auto

lemma sunpack_spack: "spack e fs vs = Inr bs \<Longrightarrow> sunpack e fs bs = Inr (map2 canon fs vs)"
  using sunpack_all_spack [of e fs vs bs "[]"] by (simp add: sunpack_def spack_length)

lemma spack_append:
  "spack e fs vs = Inr bs \<Longrightarrow> spack e gs ws = Inr cs \<Longrightarrow> spack e (fs @ gs) (vs @ ws) = Inr (bs @ cs)"
  by (induction e fs vs arbitrary: bs rule: spack.induct) (auto simp: bindr_Inr)

lemma spack_uint: "0 \<le> n \<Longrightarrow> n < 256 ^ k \<Longrightarrow> pack_uint e k n = Inr (order_bytes e (le_bytes k n))"
  by (simp add: pack_uint_def)

section \<open>Text\<close>

text \<open>A Python \<open>str\<close> that is encoded or decoded is the list of its code points.\<close>

type_synonym ustr = "int list"

definition encode_ascii :: "ustr \<Rightarrow> bytes" where
  "encode_ascii s = map (\<lambda>c. if 0 \<le> c \<and> c < 128 then word_of_int c else 63) s"

definition decode_ascii :: "bytes \<Rightarrow> ustr" where
  "decode_ascii bs = map (\<lambda>b. if uint b < 128 then uint b else 0xFFFD) bs"

definition rstrip_nul :: "bytes \<Rightarrow> bytes" where
  "rstrip_nul bs = rev (dropWhile (\<lambda>b. b = 0) (rev bs))"

text \<open>\<open>s.encode("ascii", errors="replace")[:n].ljust(n, b"\x00")\<close> and its inverse.\<close>

definition put_str :: "nat \<Rightarrow> ustr \<Rightarrow> bytes" where
  "put_str n s = pad_to n (encode_ascii s)"

definition get_str :: "bytes \<Rightarrow> ustr" where
  "get_str bs = decode_ascii (rstrip_nul bs)"

definition ascii_text :: "nat \<Rightarrow> ustr \<Rightarrow> bool" where
  "ascii_text n s = (list_all (\<lambda>c. 0 < c \<and> c < 128) s \<and> length s \<le> n)"

lemma rstrip_nul_pad:
  assumes "list_all (\<lambda>b. b \<noteq> 0) bs"
  shows "rstrip_nul (bs @ replicate k 0) = bs"
proof -
  have d: "dropWhile (\<lambda>b. b = 0) (replicate k 0 @ ys) = dropWhile (\<lambda>b. b = 0) ys" for ys :: bytes
    by (induction k) auto
  have "dropWhile (\<lambda>b. b = 0) (rev bs) = rev bs"
    using assms by (cases "rev bs") (auto simp: list_all_iff dest: arg_cong [where f = set])
  then show ?thesis by (simp add: rstrip_nul_def d)
qed

lemma decode_encode_ascii:
  "list_all (\<lambda>c. 0 \<le> c \<and> c < 128) s \<Longrightarrow> decode_ascii (encode_ascii s) = s"
  by (induction s) (auto simp: decode_ascii_def encode_ascii_def uint_word_of_int)

lemma get_put_str: assumes "ascii_text n s" shows "get_str (put_str n s) = s"
proof -
  have nz: "list_all (\<lambda>b. b \<noteq> 0) (encode_ascii s)"
  proof (unfold list_all_iff, rule ballI)
    fix b assume "b \<in> set (encode_ascii s)"
    then obtain c where c: "0 < c" "c < 128" and b: "b = word_of_int c"
      using assms by (auto simp: encode_ascii_def ascii_text_def list_all_iff)
    have "uint b = c" using c by (simp add: b uint_word_of_int)
    then show "b \<noteq> 0" using c by auto
  qed
  have "put_str n s = encode_ascii s @ replicate (n - length s) 0"
    using assms by (simp add: put_str_def pad_to_def ascii_text_def encode_ascii_def)
  then have "rstrip_nul (put_str n s) = encode_ascii s" using nz by (simp add: rstrip_nul_pad)
  moreover have "decode_ascii (encode_ascii s) = s"
    using assms by (intro decode_encode_ascii) (auto simp: ascii_text_def list_all_iff)
  ultimately show ?thesis by (simp add: get_str_def)
qed

lemma length_put_str [wire_simps, simp]: "length (put_str n s) = n"
  by (simp add: put_str_def)

lemma pad_to_idem [wire_simps, simp]: "length bs = n \<Longrightarrow> pad_to n bs = bs"
  by (simp add: pad_to_def)

section \<open>Python conversions before packing\<close>

text \<open>\<open>x or 0.0\<close>: both zeros are false in Python, a NaN is true.\<close>

definition f_or0 :: "f64 \<Rightarrow> f64" where
  "f_or0 x = (if f_mag x = 0 then 0 else x)"

definition fo_or0 :: "f64 option \<Rightarrow> f64" where
  "fo_or0 x = (case x of None \<Rightarrow> 0 | Some w \<Rightarrow> f_or0 w)"

definition fo_given :: "f64 option \<Rightarrow> f64" where
  "fo_given x = (case x of None \<Rightarrow> 0 | Some w \<Rightarrow> w)"

definition b_int :: "bool \<Rightarrow> int" where
  "b_int b = (if b then 1 else 0)"

text \<open>What a double reads back as after a field of single precision.\<close>

definition f32_round :: "f64 \<Rightarrow> f64" where
  "f32_round w = (case f64_to_f32 w of Inl _ \<Rightarrow> w | Inr n \<Rightarrow> f32_to_f64 n)"

lemma b_int_bool [simp]: "(b_int b \<noteq> 0) = b" "(b_int b = 0) = (\<not> b)"
  by (simp_all add: b_int_def)

lemma zero_word_fields [simp]: "f_mag 0 = 0" "f_isnan 0 = False" "f_isinf 0 = False" "f_sign 0 = False"
  by (simp_all add: f_mag_def f_isnan_def f_isinf_def f_sign_def inf_mag_def)

section \<open>CRC-32\<close>

definition crc_bit :: "32 word \<Rightarrow> 32 word" where
  "crc_bit c = (if bit c 0 then drop_bit 1 c XOR 0xEDB88320 else drop_bit 1 c)"

definition crc_byte :: "32 word \<Rightarrow> byte \<Rightarrow> 32 word" where
  "crc_byte c b = (crc_bit ^^ 8) (c XOR ucast b)"

definition crc32_from :: "32 word \<Rightarrow> bytes \<Rightarrow> 32 word" where
  "crc32_from v bs = NOT (foldl crc_byte (NOT v) bs)"

definition crc32 :: "bytes \<Rightarrow> 32 word" where
  "crc32 bs = crc32_from 0 bs"

lemma crc32_append: "crc32_from (crc32_from v xs) ys = crc32_from v (xs @ ys)"
  by (simp add: crc32_from_def)

lemma xor_cancel_right: "x XOR p = y XOR p \<longleftrightarrow> x = (y :: 'a :: len word)"
proof
  assume "x XOR p = y XOR p"
  then have "(x XOR p) XOR p = (y XOR p) XOR p" by simp
  then show "x = y" by (simp only: xor.assoc xor_self_eq xor.right_neutral)
qed simp

lemma xor_cancel_left: "p XOR x = p XOR y \<longleftrightarrow> x = (y :: 'a :: len word)"
  by (simp only: xor.commute [of p] xor_cancel_right)

lemma crc_bit_top: "bit (crc_bit c) 31 = bit c 0"
proof -
  have "\<not> bit c 32" by (rule impossible_bit) simp
  then show ?thesis
    by (simp add: crc_bit_def bit_xor_iff bit_drop_bit_eq bit_numeral_rec)
qed

lemma crc_bit_inj: "inj crc_bit"
proof (rule injI)
  fix x y assume eq: "crc_bit x = crc_bit y"
  have low: "bit x 0 = bit y 0" using crc_bit_top [of x] crc_bit_top [of y] eq by simp
  have "drop_bit 1 x = drop_bit 1 y"
    using eq low by (cases "bit y 0") (simp_all only: crc_bit_def xor_cancel_right if_True if_False)
  then have hi: "bit x (Suc n) = bit y (Suc n)" for n
    by (metis bit_drop_bit_eq comp_apply plus_1_eq_Suc)
  show "x = y"
  proof (rule bit_word_eqI)
    fix n show "bit x n = bit y n" using low hi by (cases n) auto
  qed
qed

lemma crc_bits_inj: "inj (crc_bit ^^ n)"
  by (induction n) (simp_all only: funpow.simps inj_compose crc_bit_inj inj_on_id)

lemma crc_byte_inj_state: "crc_byte c b = crc_byte d b \<Longrightarrow> c = d"
  unfolding crc_byte_def inj_eq [OF crc_bits_inj] xor_cancel_right .

lemma crc_byte_inj_byte: assumes "crc_byte c x = crc_byte c y" shows "x = y"
proof -
  have "(ucast x :: 32 word) = ucast y"
    using assms unfolding crc_byte_def inj_eq [OF crc_bits_inj] xor_cancel_left .
  then have "(ucast (ucast x :: 32 word) :: byte) = ucast (ucast y :: 32 word)" by simp
  then show ?thesis by (simp add: ucast_up_ucast_id is_up)
qed

lemma foldl_crc_inj: "foldl crc_byte c bs = foldl crc_byte d bs \<Longrightarrow> c = d"
  by (induction bs arbitrary: c d) (auto dest: crc_byte_inj_state)

lemma crc32_single_byte:
  assumes "x \<noteq> y"
  shows "crc32_from v (pre @ x # post) \<noteq> crc32_from v (pre @ y # post)"
  using assms by (auto simp: crc32_from_def dest!: foldl_crc_inj crc_byte_inj_byte)

end
