(* ===== verification/Protocol.thy ===== *)
theory Protocol
  imports Pystruct
begin

text \<open>
  The binary wire protocol of \<open>protocol.py\<close>: packing and unpacking of tick (v1 and v2) and depth frames,
  and the stream parser that cuts a byte stream into frames and resynchronises on garbage.  Unpacking is
  inverse to packing up to what the format cannot hold, and the parser's result does not depend on how the
  stream is cut into chunks.
\<close>

section \<open>Layout\<close>

definition MAGIC :: bytes where
  "MAGIC = [0x4D, 0x44]"

definition MSG_TYPE_TICK :: int where "MSG_TYPE_TICK = 1"
definition MSG_TYPE_DEPTH :: int where "MSG_TYPE_DEPTH = 2"
definition MSG_TYPE_TICK_V2 :: int where "MSG_TYPE_TICK_V2 = 4"

definition HEADER_STRUCT :: "field list" where
  "HEADER_STRUCT = [FS 2, FB, FB]"

definition TICK_STRUCT :: "field list" where
  "TICK_STRUCT = [FQ, FB, FB, FS 2, FF, FD, FD, FD, FD, FD, FD, FD, FS 8, FS 8]"

definition DEPTH_STRUCT :: "field list" where
  "DEPTH_STRUCT = [FQ, FB, FS 3, FF, FD, FD, FD, FD, FD, FD, FD, FD, FD, FS 8, FS 8]"

definition TICK_V2_STRUCT :: "field list" where
  "TICK_V2_STRUCT = [FQ, FB, FB, FS 2, FF, FD, FD, FD, FD, FD, FD, FD, FQ, FS 32, FS 16]"

definition TICK_PAYLOAD_LEN :: nat where "TICK_PAYLOAD_LEN = 88"
definition DEPTH_PAYLOAD_LEN :: nat where "DEPTH_PAYLOAD_LEN = 104"
definition TICK_V2_PAYLOAD_LEN :: nat where "TICK_V2_PAYLOAD_LEN = 128"

lemma payload_lens:
  "calcsize TICK_STRUCT = TICK_PAYLOAD_LEN" "calcsize DEPTH_STRUCT = DEPTH_PAYLOAD_LEN"
  "calcsize TICK_V2_STRUCT = TICK_V2_PAYLOAD_LEN" "calcsize HEADER_STRUCT = 4"
  by (simp_all add: calcsize_def TICK_STRUCT_def DEPTH_STRUCT_def TICK_V2_STRUCT_def HEADER_STRUCT_def
        TICK_PAYLOAD_LEN_def DEPTH_PAYLOAD_LEN_def TICK_V2_PAYLOAD_LEN_def)

section \<open>Messages\<close>

record tick_args =
  ta_seq :: int
  ta_symbol :: ustr
  ta_source :: ustr
  ta_price :: "f64 option"
  ta_size :: "f64 option"
  ta_bid :: "f64 option"
  ta_ask :: "f64 option"
  ta_status :: string
  ta_crossed :: bool
  ta_exchange_ts :: f64
  ta_ingest_ts :: f64
  ta_broadcast_ts :: f64
  ta_engine_us :: f64
  ta_reason_mask :: int

record depth_args =
  da_seq :: int
  da_symbol :: ustr
  da_best_bid :: "f64 option"
  da_best_ask :: "f64 option"
  da_bid_size :: "f64 option"
  da_ask_size :: "f64 option"
  da_micro_price :: "f64 option"
  da_ofi :: "f64 option"
  da_crossed :: bool
  da_exchange_ts :: f64
  da_ingest_ts :: f64
  da_broadcast_ts :: f64
  da_engine_us :: f64

record tick_event =
  te_v2 :: bool
  te_seq :: int
  te_sym :: ustr
  te_source :: ustr
  te_status :: string
  te_crossed :: bool
  te_price :: "f64 option"
  te_size :: "f64 option"
  te_bid :: "f64 option"
  te_ask :: "f64 option"
  te_reason_mask :: "int option"
  te_exchange_ts :: f64
  te_ingest_ts :: f64
  te_broadcast_ts :: f64
  te_engine_us :: f64

record depth_event =
  de_seq :: int
  de_sym :: ustr
  de_micro_price :: f64
  de_ofi :: f64
  de_bid :: f64
  de_ask :: f64
  de_bid_size :: f64
  de_ask_size :: f64
  de_crossed :: bool
  de_exchange_ts :: f64
  de_ingest_ts :: f64
  de_broadcast_ts :: f64
  de_engine_us :: f64

datatype bin_event = TickEv tick_event | DepthEv depth_event

definition status_code :: "string \<Rightarrow> int" where
  "status_code st = dgetd [(''VALID'', 1), (''SUSPICIOUS'', 2), (''INVALID'', 3)] st 1"

definition status_name :: "int \<Rightarrow> string" where
  "status_name c = dgetd [(1, ''VALID''), (2, ''SUSPICIOUS''), (3, ''INVALID'')] c ''UNKNOWN''"

definition bin_frame :: "int \<Rightarrow> field list \<Rightarrow> nat \<Rightarrow> sval list \<Rightarrow> bytes res" where
  "bin_frame msg_type fmt len vals =
     bindr (spack LE HEADER_STRUCT [VS MAGIC, VI msg_type, VI (int len)])
       (\<lambda>header. bindr (spack LE fmt vals) (\<lambda>payload. Inr (header @ payload)))"

definition tick_vals :: "tick_args \<Rightarrow> sval list" where
  "tick_vals a =
     [VI (ta_seq a), VI (status_code (ta_status a)), VI (b_int (ta_crossed a)), VS [0, 0],
      VF (f_or0 (ta_engine_us a)), VF (f_or0 (ta_exchange_ts a)), VF (f_or0 (ta_ingest_ts a)),
      VF (f_or0 (ta_broadcast_ts a)), VF (fo_or0 (ta_price a)), VF (fo_or0 (ta_size a)),
      VF (fo_or0 (ta_bid a)), VF (fo_or0 (ta_ask a)), VS (put_str 8 (ta_symbol a)), VS (put_str 8 (ta_source a))]"

definition pack_tick_frame :: "tick_args \<Rightarrow> bytes res" where
  "pack_tick_frame a = bin_frame MSG_TYPE_TICK TICK_STRUCT TICK_PAYLOAD_LEN (tick_vals a)"

definition tick_v2_vals :: "tick_args \<Rightarrow> sval list" where
  "tick_v2_vals a =
     [VI (ta_seq a), VI (status_code (ta_status a)), VI (b_int (ta_crossed a)), VS [0, 0],
      VF (f_or0 (ta_engine_us a)), VF (f_or0 (ta_exchange_ts a)), VF (f_or0 (ta_ingest_ts a)),
      VF (f_or0 (ta_broadcast_ts a)), VF (fo_given (ta_price a)), VF (fo_given (ta_size a)),
      VF (fo_given (ta_bid a)), VF (fo_given (ta_ask a)), VI (ta_reason_mask a),
      VS (put_str 32 (ta_symbol a)), VS (put_str 16 (ta_source a))]"

definition pack_tick_frame_v2 :: "tick_args \<Rightarrow> bytes res" where
  "pack_tick_frame_v2 a = bin_frame MSG_TYPE_TICK_V2 TICK_V2_STRUCT TICK_V2_PAYLOAD_LEN (tick_v2_vals a)"

definition depth_vals :: "depth_args \<Rightarrow> sval list" where
  "depth_vals a =
     [VI (da_seq a), VI (b_int (da_crossed a)), VS [0, 0, 0], VF (f_or0 (da_engine_us a)),
      VF (f_or0 (da_exchange_ts a)), VF (f_or0 (da_ingest_ts a)), VF (f_or0 (da_broadcast_ts a)),
      VF (fo_or0 (da_micro_price a)), VF (fo_or0 (da_ofi a)), VF (fo_or0 (da_best_bid a)),
      VF (fo_or0 (da_best_ask a)), VF (fo_or0 (da_bid_size a)), VF (fo_or0 (da_ask_size a)),
      VS (put_str 8 (da_symbol a)), VS [0x44, 0x45, 0x50, 0x54, 0x48, 0, 0, 0]]"

definition pack_depth_frame :: "depth_args \<Rightarrow> bytes res" where
  "pack_depth_frame a = bin_frame MSG_TYPE_DEPTH DEPTH_STRUCT DEPTH_PAYLOAD_LEN (depth_vals a)"

section \<open>Unpacking\<close>

definition opt_price :: "f64 \<Rightarrow> f64 option" where
  "opt_price p = (if \<not> feq p 0 \<and> f_isfinite p then Some p else None)"

definition opt_size :: "f64 \<Rightarrow> f64 option" where
  "opt_size p = (if flt 0 p \<and> f_isfinite p then Some p else None)"

definition unpack_tick_payload :: "bytes \<Rightarrow> tick_event res" where
  "unpack_tick_payload bs =
     bindr (sunpack LE TICK_STRUCT bs) (\<lambda>u. case u of
       [VI sq, VI st, VI cr, VS pad, VF eng, VF ex, VF ing, VF bc, VF price, VF sz, VF bid, VF ask, VS symb, VS src] \<Rightarrow>
         Inr \<lparr>te_v2 = False, te_seq = sq, te_sym = get_str symb, te_source = get_str src,
              te_status = status_name st, te_crossed = (cr \<noteq> 0), te_price = opt_price price,
              te_size = opt_size sz, te_bid = opt_price bid, te_ask = opt_price ask,
              te_reason_mask = None, te_exchange_ts = ex, te_ingest_ts = ing, te_broadcast_ts = bc,
              te_engine_us = eng\<rparr>
     | _ \<Rightarrow> Inl StructError)"

definition unpack_tick_payload_v2 :: "bytes \<Rightarrow> tick_event res" where
  "unpack_tick_payload_v2 bs =
     bindr (sunpack LE TICK_V2_STRUCT bs) (\<lambda>u. case u of
       [VI sq, VI st, VI cr, VS pad, VF eng, VF ex, VF ing, VF bc, VF price, VF sz, VF bid, VF ask, VI rmask, VS symb, VS src] \<Rightarrow>
         Inr \<lparr>te_v2 = True, te_seq = sq, te_sym = get_str symb, te_source = get_str src,
              te_status = status_name st, te_crossed = (cr \<noteq> 0), te_price = opt_price price,
              te_size = opt_size sz, te_bid = opt_price bid, te_ask = opt_price ask,
              te_reason_mask = Some rmask, te_exchange_ts = ex, te_ingest_ts = ing, te_broadcast_ts = bc,
              te_engine_us = eng\<rparr>
     | _ \<Rightarrow> Inl StructError)"

definition unpack_depth_payload :: "bytes \<Rightarrow> depth_event res" where
  "unpack_depth_payload bs =
     bindr (sunpack LE DEPTH_STRUCT bs) (\<lambda>u. case u of
       [VI sq, VI cr, VS pad, VF eng, VF ex, VF ing, VF bc, VF micro, VF ofi, VF bid, VF ask, VF bsz, VF asz, VS symb, VS src] \<Rightarrow>
         Inr \<lparr>de_seq = sq, de_sym = get_str symb, de_micro_price = micro, de_ofi = ofi, de_bid = bid, de_ask = ask,
              de_bid_size = bsz, de_ask_size = asz, de_crossed = (cr \<noteq> 0), de_exchange_ts = ex,
              de_ingest_ts = ing, de_broadcast_ts = bc, de_engine_us = eng\<rparr>
     | _ \<Rightarrow> Inl StructError)"

section \<open>The stream parser\<close>

definition frame_len_ok :: "int \<Rightarrow> int \<Rightarrow> bool" where
  "frame_len_ok msg_type payload_len =
     (msg_type = MSG_TYPE_TICK \<and> payload_len = int TICK_PAYLOAD_LEN
      \<or> msg_type = MSG_TYPE_DEPTH \<and> payload_len = int DEPTH_PAYLOAD_LEN
      \<or> msg_type = MSG_TYPE_TICK_V2 \<and> payload_len = int TICK_V2_PAYLOAD_LEN)"

definition unpack_any :: "int \<Rightarrow> bytes \<Rightarrow> bin_event list" where
  "unpack_any msg_type payload =
     (if msg_type = MSG_TYPE_TICK
      then (case unpack_tick_payload payload of Inr e \<Rightarrow> [TickEv e] | Inl _ \<Rightarrow> [])
      else if msg_type = MSG_TYPE_TICK_V2
      then (case unpack_tick_payload_v2 payload of Inr e \<Rightarrow> [TickEv e] | Inl _ \<Rightarrow> [])
      else (case unpack_depth_payload payload of Inr e \<Rightarrow> [DepthEv e] | Inl _ \<Rightarrow> []))"

text \<open>The loop of \<open>feed\<close> on the buffer: the events found and the bytes left.\<close>

function parse_buf :: "bytes \<Rightarrow> bin_event list \<times> bytes" where
  "parse_buf buf =
     (if length buf < 4 then ([], buf)
      else if take 2 buf \<noteq> MAGIC then parse_buf (tl buf)
      else
        let msg_type = uint (buf ! 2); payload_len = uint (buf ! 3)
        in if \<not> frame_len_ok msg_type payload_len then parse_buf (tl buf)
           else
             let total = 4 + nat payload_len
             in if length buf < total then ([], buf)
                else let (es, r) = parse_buf (drop total buf)
                     in (unpack_any msg_type (take (nat payload_len) (drop 4 buf)) @ es, r))"
  by pat_completeness auto
termination by (relation "measure length") auto

declare parse_buf.simps [simp del]

definition feed :: "bytes \<Rightarrow> bytes \<Rightarrow> bin_event list \<times> bytes" where
  "feed buf chunk = parse_buf (buf @ chunk)"

fun feed_all :: "bytes \<Rightarrow> bytes list \<Rightarrow> bin_event list \<times> bytes" where
  "feed_all buf [] = ([], buf)"
| "feed_all buf (c # cs) = (let (es, b) = feed buf c; (es', b') = feed_all b cs in (es @ es', b'))"

section \<open>The parser does not depend on the chunks\<close>

lemma parse_buf_append:
  "parse_buf (buf @ extra) =
     (case parse_buf buf of (es, r) \<Rightarrow> (case parse_buf (r @ extra) of (es', r') \<Rightarrow> (es @ es', r')))"
proof (induction buf rule: parse_buf.induct)
  case (1 buf)
  show ?case
  proof (cases "length buf < 4")
    case True
    then show ?thesis by (simp add: parse_buf.simps [of buf] split: prod.split)
  next
    case len: False
    then have tl: "tl (buf @ extra) = tl buf @ extra" "take 2 (buf @ extra) = take 2 buf"
      "(buf @ extra) ! 2 = buf ! 2" "(buf @ extra) ! 3 = buf ! 3" "\<not> length (buf @ extra) < 4"
      by (cases buf; simp add: nth_append)+
    let ?mt = "uint (buf ! 2)" and ?pl = "uint (buf ! 3)"
    consider "take 2 buf \<noteq> MAGIC \<or> \<not> frame_len_ok ?mt ?pl"
      | "take 2 buf = MAGIC" "frame_len_ok ?mt ?pl" "length buf < 4 + nat ?pl"
      | "take 2 buf = MAGIC" "frame_len_ok ?mt ?pl" "4 + nat ?pl \<le> length buf" by linarith
    then show ?thesis
    proof cases
      case 1
      then have "parse_buf buf = parse_buf (tl buf)" "parse_buf (buf @ extra) = parse_buf (tl buf @ extra)"
        using len tl by (auto simp: parse_buf.simps [of buf] parse_buf.simps [of "buf @ extra"] Let_def)
      moreover have "parse_buf (tl buf @ extra) = (case parse_buf (tl buf) of
          (es, r) \<Rightarrow> (case parse_buf (r @ extra) of (es', r') \<Rightarrow> (es @ es', r')))"
        using 1 "1.IH"(1) [OF len] "1.IH"(2) [OF len _ refl refl] by blast
      ultimately show ?thesis by simp
    next
      case 2
      then show ?thesis using len by (simp add: parse_buf.simps [of buf] Let_def split: prod.split)
    next
      case 3
      let ?t = "4 + nat ?pl"
      have d: "drop ?t (buf @ extra) = drop ?t buf @ extra"
        "take (nat ?pl) (drop 4 (buf @ extra)) = take (nat ?pl) (drop 4 buf)" using 3(3) by auto
      have IH: "parse_buf (drop ?t buf @ extra) = (case parse_buf (drop ?t buf) of
          (es, r) \<Rightarrow> (case parse_buf (r @ extra) of (es', r') \<Rightarrow> (es @ es', r')))"
        using "1.IH"(3) [OF len _ refl refl _ refl] 3 by simp
      have nl: "\<not> length buf < ?t" "\<not> length (buf @ extra) < ?t" using 3(3) by auto
      show ?thesis
        unfolding parse_buf.simps [of "buf @ extra"] parse_buf.simps [of buf] tl Let_def d IH
        using len 3(1,2) nl by (simp split: prod.split)
    qed
  qed
qed

lemma feed_all_concat: "feed_all buf chunks = (if chunks = [] then ([], buf) else parse_buf (buf @ concat chunks))"
proof (induction chunks arbitrary: buf)
  case (Cons c cs)
  show ?case
  proof (cases cs)
    case Nil
    then show ?thesis by (simp add: feed_def split: prod.split)
  next
    case (Cons c' cs')
    then show ?thesis using Cons.IH parse_buf_append [of "buf @ c" "concat cs"]
      by (simp add: feed_def split: prod.split)
  qed
qed simp


section \<open>Round trips\<close>

text \<open>What a receiver is to see of a message: the engine latency rounded to single precision, absent and
  zero prices as absent.\<close>

definition tick_seen :: "tick_args \<Rightarrow> tick_event" where
  "tick_seen a =
     \<lparr>te_v2 = False, te_seq = ta_seq a, te_sym = ta_symbol a, te_source = ta_source a,
      te_status = status_name (status_code (ta_status a)), te_crossed = ta_crossed a,
      te_price = opt_price (fo_or0 (ta_price a)), te_size = opt_size (fo_or0 (ta_size a)),
      te_bid = opt_price (fo_or0 (ta_bid a)), te_ask = opt_price (fo_or0 (ta_ask a)), te_reason_mask = None,
      te_exchange_ts = f_or0 (ta_exchange_ts a), te_ingest_ts = f_or0 (ta_ingest_ts a),
      te_broadcast_ts = f_or0 (ta_broadcast_ts a), te_engine_us = f32_round (f_or0 (ta_engine_us a))\<rparr>"

definition tick_v2_seen :: "tick_args \<Rightarrow> tick_event" where
  "tick_v2_seen a =
     \<lparr>te_v2 = True, te_seq = ta_seq a, te_sym = ta_symbol a, te_source = ta_source a,
      te_status = status_name (status_code (ta_status a)), te_crossed = ta_crossed a,
      te_price = opt_price (fo_given (ta_price a)), te_size = opt_size (fo_given (ta_size a)),
      te_bid = opt_price (fo_given (ta_bid a)), te_ask = opt_price (fo_given (ta_ask a)),
      te_reason_mask = Some (ta_reason_mask a),
      te_exchange_ts = f_or0 (ta_exchange_ts a), te_ingest_ts = f_or0 (ta_ingest_ts a),
      te_broadcast_ts = f_or0 (ta_broadcast_ts a), te_engine_us = f32_round (f_or0 (ta_engine_us a))\<rparr>"

definition depth_seen :: "depth_args \<Rightarrow> depth_event" where
  "depth_seen a =
     \<lparr>de_seq = da_seq a, de_sym = da_symbol a, de_micro_price = fo_or0 (da_micro_price a),
      de_ofi = fo_or0 (da_ofi a), de_bid = fo_or0 (da_best_bid a), de_ask = fo_or0 (da_best_ask a),
      de_bid_size = fo_or0 (da_bid_size a), de_ask_size = fo_or0 (da_ask_size a), de_crossed = da_crossed a,
      de_exchange_ts = f_or0 (da_exchange_ts a), de_ingest_ts = f_or0 (da_ingest_ts a),
      de_broadcast_ts = f_or0 (da_broadcast_ts a), de_engine_us = f32_round (f_or0 (da_engine_us a))\<rparr>"

datatype bin_msg = MTick tick_args | MTickV2 tick_args | MDepth depth_args

fun pack_msg :: "bin_msg \<Rightarrow> bytes res" where
  "pack_msg (MTick a) = pack_tick_frame a"
| "pack_msg (MTickV2 a) = pack_tick_frame_v2 a"
| "pack_msg (MDepth a) = pack_depth_frame a"

fun msg_text_ok :: "bin_msg \<Rightarrow> bool" where
  "msg_text_ok (MTick a) = (ascii_text 8 (ta_symbol a) \<and> ascii_text 8 (ta_source a))"
| "msg_text_ok (MTickV2 a) = (ascii_text 32 (ta_symbol a) \<and> ascii_text 16 (ta_source a))"
| "msg_text_ok (MDepth a) = ascii_text 8 (da_symbol a)"

fun msg_seen :: "bin_msg \<Rightarrow> bin_event" where
  "msg_seen (MTick a) = TickEv (tick_seen a)"
| "msg_seen (MTickV2 a) = TickEv (tick_v2_seen a)"
| "msg_seen (MDepth a) = DepthEv (depth_seen a)"

lemma pad_fits [simp]: "pad_to 2 [0, 0] = [0, 0]" "pad_to 3 [0, 0, 0] = [0, 0, 0]"
  by (simp_all add: pad_to_def)

lemma tick_roundtrip:
  assumes "spack LE TICK_STRUCT (tick_vals a) = Inr p" and "msg_text_ok (MTick a)"
  shows "unpack_tick_payload p = Inr (tick_seen a)"
  using sunpack_spack [OF assms(1)] assms(2)
  by (simp add: unpack_tick_payload_def TICK_STRUCT_def tick_vals_def tick_seen_def f32_round_def get_put_str)

lemma tick_v2_roundtrip:
  assumes "spack LE TICK_V2_STRUCT (tick_v2_vals a) = Inr p" and "msg_text_ok (MTickV2 a)"
  shows "unpack_tick_payload_v2 p = Inr (tick_v2_seen a)"
  using sunpack_spack [OF assms(1)] assms(2)
  by (simp add: unpack_tick_payload_v2_def TICK_V2_STRUCT_def tick_v2_vals_def tick_v2_seen_def f32_round_def
        get_put_str)

lemma depth_roundtrip:
  assumes "spack LE DEPTH_STRUCT (depth_vals a) = Inr p" and "msg_text_ok (MDepth a)"
  shows "unpack_depth_payload p = Inr (depth_seen a)"
  using sunpack_spack [OF assms(1)] assms(2)
  by (simp add: unpack_depth_payload_def DEPTH_STRUCT_def depth_vals_def depth_seen_def f32_round_def get_put_str)

lemma bin_frame_shape:
  assumes "bin_frame mt fmt len vals = Inr f" and "calcsize fmt = len" and "0 \<le> mt" and "mt < 256" and "len < 256"
  obtains p where "spack LE fmt vals = Inr p" and "f = MAGIC @ [word_of_int mt, word_of_int (int len)] @ p"
    and "length p = len"
proof -
  obtain h p where h: "spack LE HEADER_STRUCT [VS MAGIC, VI mt, VI (int len)] = Inr h"
    and p: "spack LE fmt vals = Inr p" and f: "f = h @ p"
    using assms(1) by (auto simp: bin_frame_def bindr_Inr)
  have "h = MAGIC @ [word_of_int mt, word_of_int (int len)]"
    using h assms(3-5)
    by (auto simp: HEADER_STRUCT_def pack_uint_def order_bytes_def bindr_Inr MAGIC_def pad_to_def split: if_splits)
  moreover have "length p = len" using spack_length [OF p] assms(2) by simp
  ultimately show thesis using that [of p] p f by simp
qed

lemma parse_frame:
  assumes "frame_len_ok mt (int len)" and "length p = len" and "0 \<le> mt" and "mt < 256" and "len < 256"
  shows "parse_buf ((MAGIC @ [word_of_int mt, word_of_int (int len)] @ p) @ extra)
     = (case parse_buf extra of (es, r) \<Rightarrow> (unpack_any mt p @ es, r))"
proof -
  let ?b = "(MAGIC @ [word_of_int mt, word_of_int (int len)] @ p) @ extra"
  have "int len mod 256 = int len" using assms(5) by simp
  then have w: "uint (word_of_int (int len) :: byte) = int len" by (simp only: uint_word_of_int) simp
  have u: "uint (?b ! 2) = mt" "uint (?b ! 3) = int len"
    using w assms by (simp_all add: MAGIC_def uint_word_of_int numeral_2_eq_2 numeral_3_eq_3)
  have m: "take 2 ?b = MAGIC" "drop (4 + len) ?b = extra" "take len (drop 4 ?b) = p" "\<not> length ?b < 4 + len"
    using assms(2) by (simp_all add: MAGIC_def numeral_eq_Suc)
  then have "\<not> length ?b < 4" by linarith
  then show ?thesis unfolding parse_buf.simps [of ?b] Let_def u using m assms(1) by simp
qed

lemma parse_msg:
  assumes "pack_msg m = Inr f" and "msg_text_ok m"
  shows "parse_buf (f @ extra) = (case parse_buf extra of (es, r) \<Rightarrow> (msg_seen m # es, r))"
proof (cases m)
  case (MTick a)
  obtain p where "spack LE TICK_STRUCT (tick_vals a) = Inr p"
    "f = MAGIC @ [word_of_int MSG_TYPE_TICK, word_of_int (int TICK_PAYLOAD_LEN)] @ p" "length p = TICK_PAYLOAD_LEN"
    using assms(1) by (auto simp: MTick pack_tick_frame_def elim!: bin_frame_shape)
       (auto simp: payload_lens MSG_TYPE_TICK_def TICK_PAYLOAD_LEN_def)
  then show ?thesis
    using parse_frame [of MSG_TYPE_TICK TICK_PAYLOAD_LEN p extra] tick_roundtrip [of a p] assms(2)
    by (simp add: MTick frame_len_ok_def unpack_any_def MSG_TYPE_TICK_def TICK_PAYLOAD_LEN_def)
next
  case (MTickV2 a)
  obtain p where "spack LE TICK_V2_STRUCT (tick_v2_vals a) = Inr p"
    "f = MAGIC @ [word_of_int MSG_TYPE_TICK_V2, word_of_int (int TICK_V2_PAYLOAD_LEN)] @ p"
    "length p = TICK_V2_PAYLOAD_LEN"
    using assms(1) by (auto simp: MTickV2 pack_tick_frame_v2_def elim!: bin_frame_shape)
       (auto simp: payload_lens MSG_TYPE_TICK_V2_def TICK_V2_PAYLOAD_LEN_def)
  then show ?thesis
    using parse_frame [of MSG_TYPE_TICK_V2 TICK_V2_PAYLOAD_LEN p extra] tick_v2_roundtrip [of a p] assms(2)
    by (simp add: MTickV2 frame_len_ok_def unpack_any_def MSG_TYPE_TICK_def MSG_TYPE_TICK_V2_def TICK_V2_PAYLOAD_LEN_def)
next
  case (MDepth a)
  obtain p where "spack LE DEPTH_STRUCT (depth_vals a) = Inr p"
    "f = MAGIC @ [word_of_int MSG_TYPE_DEPTH, word_of_int (int DEPTH_PAYLOAD_LEN)] @ p" "length p = DEPTH_PAYLOAD_LEN"
    using assms(1) by (auto simp: MDepth pack_depth_frame_def elim!: bin_frame_shape)
       (auto simp: payload_lens MSG_TYPE_DEPTH_def DEPTH_PAYLOAD_LEN_def)
  then show ?thesis
    using parse_frame [of MSG_TYPE_DEPTH DEPTH_PAYLOAD_LEN p extra] depth_roundtrip [of a p] assms(2)
    by (simp add: MDepth frame_len_ok_def unpack_any_def MSG_TYPE_TICK_def MSG_TYPE_TICK_V2_def MSG_TYPE_DEPTH_def
          DEPTH_PAYLOAD_LEN_def)
qed

lemma parse_msgs:
  "list_all2 (\<lambda>m f. pack_msg m = Inr f \<and> msg_text_ok m) ms fs \<Longrightarrow> parse_buf (concat fs) = (map msg_seen ms, [])"
proof (induction rule: list_all2_induct)
  case Nil
  then show ?case by (simp add: parse_buf.simps [of "[]"])
next
  case (Cons m ms f fs)
  then show ?case using parse_msg [of m f "concat fs"] by simp
qed

text \<open>C14: the stream parser recovers every message.  Pack any sequence of tick, tick v2 and depth messages,
  concatenate the frames and cut the bytes into chunks anywhere: feeding the chunks one after the other
  yields exactly the messages, in order, with the fields the sender gave (prices absent when zero or not
  finite, the latency in single precision), and leaves nothing in the buffer.\<close>

theorem stream_parser_recovers_messages:
  assumes "list_all2 (\<lambda>m f. pack_msg m = Inr f \<and> msg_text_ok m) ms fs"
    and "concat chunks = concat fs" and "chunks \<noteq> []"
  shows "feed_all [] chunks = (map msg_seen ms, [])"
  using parse_msgs [OF assms(1)] assms(2,3) by (simp add: feed_all_concat)

definition demo_tick :: tick_args where
  "demo_tick = \<lparr>ta_seq = 7, ta_symbol = [65, 66], ta_source = [], ta_price = None, ta_size = None, ta_bid = None,
     ta_ask = None, ta_status = ''INVALID'', ta_crossed = True, ta_exchange_ts = 0, ta_ingest_ts = 0,
     ta_broadcast_ts = 0, ta_engine_us = 0, ta_reason_mask = 0\<rparr>"

theorem stream_parser_recovers_messages_witness:
  "\<exists>f. pack_msg (MTick demo_tick) = Inr f
     \<and> feed_all [] [take 3 f, drop 3 f @ take 50 f, drop 50 f] = ([TickEv (tick_seen demo_tick), TickEv (tick_seen demo_tick)], [])"
proof -
  obtain f where f: "pack_msg (MTick demo_tick) = Inr f"
    by (simp add: pack_tick_frame_def bin_frame_def HEADER_STRUCT_def TICK_STRUCT_def tick_vals_def demo_tick_def
          pack_uint_def status_code_def dgetd_def b_int_def MSG_TYPE_TICK_def TICK_PAYLOAD_LEN_def f_or0_def
          fo_or0_def f64_to_f32_def mag_val_def round_mag32_def)
  have "feed_all [] [take 3 f, drop 3 f @ take 50 f, drop 50 f] = (map msg_seen [MTick demo_tick, MTick demo_tick], [])"
    by (rule stream_parser_recovers_messages [of _ "[f, f]"])
       (simp_all add: f [simplified] ascii_text_def, simp_all add: demo_tick_def)
  then show ?thesis using f by simp
qed

end
