(* ===== verification/Sbe.thy ===== *)
theory Sbe
  imports Pystruct
begin

text \<open>
  The Simple Binary Encoding codec of \<open>sbe.py\<close>: the framing header, packing and unpacking of ticks and of
  the best bid and offer, and packing of depth ladders with their repeating groups.  Reading a packed
  frame back, at any offset of a larger buffer, gives the message that was packed; a depth frame announces
  its own length and holds its levels at the offsets the layout gives them.
\<close>

section \<open>Layout\<close>

definition SBE_SCHEMA_ID :: int where "SBE_SCHEMA_ID = 1"
definition SBE_SCHEMA_VERSION :: int where "SBE_SCHEMA_VERSION = 1"
definition TEMPLATE_TICK :: int where "TEMPLATE_TICK = 101"
definition TEMPLATE_BBO :: int where "TEMPLATE_BBO = 102"
definition TEMPLATE_DEPTH :: int where "TEMPLATE_DEPTH = 103"

definition SBE_HEADER_STRUCT :: "field list" where
  "SBE_HEADER_STRUCT = [FH, FH, FH, FH]"

definition HEADER_SIZE :: nat where
  "HEADER_SIZE = calcsize SBE_HEADER_STRUCT"

definition TICK_PAYLOAD_STRUCT :: "field list" where
  "TICK_PAYLOAD_STRUCT = [FQ, FD, FD, FD, FD, FD, FD, FD, FD, FD, FB, FB, FH, FF, FS 16, FS 16]"

definition TICK_PAYLOAD_SIZE :: nat where
  "TICK_PAYLOAD_SIZE = calcsize TICK_PAYLOAD_STRUCT"

definition TICK_TOTAL_FRAME_SIZE :: nat where
  "TICK_TOTAL_FRAME_SIZE = HEADER_SIZE + TICK_PAYLOAD_SIZE"

definition BBO_PAYLOAD_STRUCT :: "field list" where
  "BBO_PAYLOAD_STRUCT = [FQ, FD, FD, FD, FD, FD, FD, FD, FB, FB, FB, FB, FS 16, FS 16, FS 16]"

definition BBO_PAYLOAD_SIZE :: nat where
  "BBO_PAYLOAD_SIZE = calcsize BBO_PAYLOAD_STRUCT"

definition BBO_TOTAL_FRAME_SIZE :: nat where
  "BBO_TOTAL_FRAME_SIZE = HEADER_SIZE + BBO_PAYLOAD_SIZE"

definition DEPTH_LEVEL_STRUCT :: "field list" where
  "DEPTH_LEVEL_STRUCT = [FD, FD, FS 8]"

definition DEPTH_LEVEL_SIZE :: nat where
  "DEPTH_LEVEL_SIZE = calcsize DEPTH_LEVEL_STRUCT"

definition DEPTH_ROOT_STRUCT :: "field list" where
  "DEPTH_ROOT_STRUCT = [FQ, FD, FD, FF, FF, FH, FH, FS 16]"

definition DEPTH_ROOT_SIZE :: nat where
  "DEPTH_ROOT_SIZE = calcsize DEPTH_ROOT_STRUCT"

lemma sbe_sizes:
  "HEADER_SIZE = 8" "TICK_PAYLOAD_SIZE = 120" "TICK_TOTAL_FRAME_SIZE = 128"
  "BBO_PAYLOAD_SIZE = 116" "BBO_TOTAL_FRAME_SIZE = 124" "DEPTH_LEVEL_SIZE = 24" "DEPTH_ROOT_SIZE = 52"
  by (simp_all add: HEADER_SIZE_def TICK_PAYLOAD_SIZE_def TICK_TOTAL_FRAME_SIZE_def BBO_PAYLOAD_SIZE_def
        BBO_TOTAL_FRAME_SIZE_def DEPTH_LEVEL_SIZE_def DEPTH_ROOT_SIZE_def calcsize_def SBE_HEADER_STRUCT_def
        TICK_PAYLOAD_STRUCT_def BBO_PAYLOAD_STRUCT_def DEPTH_LEVEL_STRUCT_def DEPTH_ROOT_STRUCT_def)

section \<open>Messages\<close>

record sbe_tick_message =
  st_seq :: int
  st_exchange_ts :: f64
  st_ingest_ts :: f64
  st_broadcast_ts :: f64
  st_price :: f64
  st_size :: f64
  st_bid :: f64
  st_ask :: f64
  st_bid_size :: f64
  st_ask_size :: f64
  st_status :: string
  st_is_crossed :: bool
  st_engine_us :: f64
  st_symbol :: ustr
  st_source :: ustr

record sbe_bbo_message =
  bm_seq :: int
  bm_timestamp :: f64
  bm_mid_price :: f64
  bm_spread :: f64
  bm_best_bid :: f64
  bm_best_bid_size :: f64
  bm_best_ask :: f64
  bm_best_ask_size :: f64
  bm_is_crossed :: bool
  bm_is_locked :: bool
  bm_is_stale :: bool
  bm_symbol :: ustr
  bm_best_bid_source :: ustr
  bm_best_ask_source :: ustr

record sbe_tick_args =
  sa_seq :: int
  sa_symbol :: ustr
  sa_source :: ustr
  sa_price :: "f64 option"
  sa_size :: "f64 option"
  sa_bid :: "f64 option"
  sa_ask :: "f64 option"
  sa_bid_size :: "f64 option"
  sa_ask_size :: "f64 option"
  sa_status :: string
  sa_is_crossed :: bool
  sa_exchange_ts :: f64
  sa_ingest_ts :: f64
  sa_broadcast_ts :: f64
  sa_engine_us :: f64

definition sbe_frame :: "nat \<Rightarrow> int \<Rightarrow> field list \<Rightarrow> sval list \<Rightarrow> bytes res" where
  "sbe_frame len tmpl fmt vals =
     bindr (spack LE SBE_HEADER_STRUCT [VI (int len), VI tmpl, VI SBE_SCHEMA_ID, VI SBE_SCHEMA_VERSION])
       (\<lambda>header. bindr (spack LE fmt vals) (\<lambda>payload. Inr (header @ payload)))"

definition sbe_status_code :: "string \<Rightarrow> int" where
  "sbe_status_code st = (if st = ''VALID'' then 1 else if st = ''SUSPICIOUS'' then 2 else 3)"

definition sbe_status_name :: "int \<Rightarrow> string" where
  "sbe_status_name c = (if c = 1 then ''VALID'' else if c = 2 then ''SUSPICIOUS'' else ''INVALID'')"

text \<open>\<open>bs.decode("ascii", errors="replace").rstrip("\x00")\<close>.\<close>

definition sbe_text :: "bytes \<Rightarrow> ustr" where
  "sbe_text bs = rev (dropWhile (\<lambda>c. c = 0) (rev (decode_ascii bs)))"

definition pack_sbe_tick :: "sbe_tick_args \<Rightarrow> bytes res" where
  "pack_sbe_tick a =
     sbe_frame TICK_PAYLOAD_SIZE TEMPLATE_TICK TICK_PAYLOAD_STRUCT
       [VI (sa_seq a), VF (sa_exchange_ts a), VF (sa_ingest_ts a), VF (sa_broadcast_ts a),
        VF (fo_or0 (sa_price a)), VF (fo_or0 (sa_size a)), VF (fo_or0 (sa_bid a)), VF (fo_or0 (sa_ask a)),
        VF (fo_or0 (sa_bid_size a)), VF (fo_or0 (sa_ask_size a)),
        VI (sbe_status_code (sa_status a)), VI (b_int (sa_is_crossed a)), VI 0, VF (sa_engine_us a),
        VS (put_str 16 (sa_symbol a)), VS (put_str 16 (sa_source a))]"

text \<open>Both unpackers read the header's template and then the payload behind it.\<close>

definition sbe_template :: "bytes \<Rightarrow> nat \<Rightarrow> int option" where
  "sbe_template data off =
     (case sunpack_from LE SBE_HEADER_STRUCT data off of
        Inr [VI block_len, VI template_id, VI schema_id, VI version] \<Rightarrow> Some template_id
      | _ \<Rightarrow> None)"

definition unpack_sbe_tick :: "bytes \<Rightarrow> nat \<Rightarrow> sbe_tick_message option" where
  "unpack_sbe_tick data off =
     (if int (length data) - int off < int TICK_TOTAL_FRAME_SIZE then None
      else if sbe_template data off \<noteq> Some TEMPLATE_TICK then None
      else case sunpack_from LE TICK_PAYLOAD_STRUCT data (off + HEADER_SIZE) of
        Inr [VI sq, VF ex, VF ing, VF bc, VF price, VF sz, VF bid, VF ask, VF bsz, VF asz, VI st, VI cr, VI rsv,
             VF eng, VS symb, VS src] \<Rightarrow>
          Some \<lparr>st_seq = sq, st_exchange_ts = ex, st_ingest_ts = ing, st_broadcast_ts = bc, st_price = price,
                st_size = sz, st_bid = bid, st_ask = ask, st_bid_size = bsz, st_ask_size = asz,
                st_status = sbe_status_name st, st_is_crossed = (cr \<noteq> 0), st_engine_us = eng,
                st_symbol = sbe_text symb, st_source = sbe_text src\<rparr>
      | _ \<Rightarrow> None)"

definition bbo_vals :: "sbe_bbo_message \<Rightarrow> sval list" where
  "bbo_vals m =
     [VI (bm_seq m), VF (bm_timestamp m), VF (bm_mid_price m), VF (bm_spread m), VF (bm_best_bid m),
      VF (bm_best_bid_size m), VF (bm_best_ask m), VF (bm_best_ask_size m), VI (b_int (bm_is_crossed m)),
      VI (b_int (bm_is_locked m)), VI (b_int (bm_is_stale m)), VI 0, VS (put_str 16 (bm_symbol m)),
      VS (put_str 16 (bm_best_bid_source m)), VS (put_str 16 (bm_best_ask_source m))]"

definition pack_sbe_bbo :: "sbe_bbo_message \<Rightarrow> bytes res" where
  "pack_sbe_bbo m = sbe_frame BBO_PAYLOAD_SIZE TEMPLATE_BBO BBO_PAYLOAD_STRUCT (bbo_vals m)"

definition unpack_sbe_bbo :: "bytes \<Rightarrow> nat \<Rightarrow> sbe_bbo_message option" where
  "unpack_sbe_bbo data off =
     (if int (length data) - int off < int BBO_TOTAL_FRAME_SIZE then None
      else if sbe_template data off \<noteq> Some TEMPLATE_BBO then None
      else case sunpack_from LE BBO_PAYLOAD_STRUCT data (off + HEADER_SIZE) of
        Inr [VI sq, VF ts, VF mid, VF spr, VF bb, VF bbs, VF ba, VF bas, VI cr, VI lk, VI stl, VI rsv,
             VS symb, VS bsrc, VS asrc] \<Rightarrow>
          Some \<lparr>bm_seq = sq, bm_timestamp = ts, bm_mid_price = mid, bm_spread = spr, bm_best_bid = bb,
                bm_best_bid_size = bbs, bm_best_ask = ba, bm_best_ask_size = bas, bm_is_crossed = (cr \<noteq> 0),
                bm_is_locked = (lk \<noteq> 0), bm_is_stale = (stl \<noteq> 0), bm_symbol = sbe_text symb,
                bm_best_bid_source = sbe_text bsrc, bm_best_ask_source = sbe_text asrc\<rparr>
      | _ \<Rightarrow> None)"

section \<open>Depth ladders\<close>

type_synonym level = "f64 \<times> f64 \<times> ustr"

fun pack_level :: "level \<Rightarrow> bytes res" where
  "pack_level (px, sz, venue) = spack LE DEPTH_LEVEL_STRUCT [VF px, VF sz, VS (put_str 8 venue)]"

fun pack_levels :: "level list \<Rightarrow> bytes res" where
  "pack_levels [] = Inr []"
| "pack_levels (l # ls) = bindr (pack_level l) (\<lambda>b. bindr (pack_levels ls) (\<lambda>bs. Inr (b @ bs)))"

definition pack_sbe_depth ::
    "int \<Rightarrow> ustr \<Rightarrow> f64 \<Rightarrow> level list \<Rightarrow> level list \<Rightarrow> f64 \<Rightarrow> f64 \<Rightarrow> f64 \<Rightarrow> bytes res" where
  "pack_sbe_depth sq symb ts bids asks micro ofi cvd =
     (let bid_cnt = min (length bids) 32; ask_cnt = min (length asks) 32;
          payload_len = DEPTH_ROOT_SIZE + (bid_cnt + ask_cnt) * DEPTH_LEVEL_SIZE
      in bindr (spack LE SBE_HEADER_STRUCT
                 [VI (int payload_len), VI TEMPLATE_DEPTH, VI SBE_SCHEMA_ID, VI SBE_SCHEMA_VERSION]) (\<lambda>header.
         bindr (spack LE DEPTH_ROOT_STRUCT
                 [VI sq, VF ts, VF micro, VF ofi, VF cvd, VI (int bid_cnt), VI (int ask_cnt), VS (put_str 16 symb)]) (\<lambda>root.
         bindr (pack_levels (take bid_cnt bids)) (\<lambda>bchunks.
         bindr (pack_levels (take ask_cnt asks)) (\<lambda>achunks.
           Inr (header @ root @ bchunks @ achunks))))))"

section \<open>Round trips\<close>

lemma sbe_text_get_str: "sbe_text bs = get_str bs"
proof -
  have "dropWhile (\<lambda>c. c = 0) (decode_ascii bs) = decode_ascii (dropWhile (\<lambda>b. b = 0) bs)" for bs
    by (induction bs) (auto simp: decode_ascii_def unsigned_eq_0_iff)
  then have "sbe_text (rev cs) = get_str (rev cs)" for cs
    by (simp add: sbe_text_def get_str_def rstrip_nul_def decode_ascii_def rev_map flip: rev_map)
  from this [of "rev bs"] show ?thesis by simp
qed

lemma sbe_status_name_code: "st \<in> {''VALID'', ''SUSPICIOUS'', ''INVALID''} \<Longrightarrow> sbe_status_name (sbe_status_code st) = st"
  by (auto simp: sbe_status_name_def sbe_status_code_def)

lemma sunpack_from_spack:
  assumes "spack e fs vs = Inr bs" and "off = length pre"
  shows "sunpack_from e fs (pre @ bs @ post) off = Inr (map2 canon fs vs)"
  using sunpack_all_spack [OF assms(1)] spack_length [OF assms(1)] assms(2) by (simp add: sunpack_from_def)

text \<open>The shape of a packed frame, and what the two reads of an unpacker see of it.\<close>

lemma sbe_frame_reads:
  assumes "sbe_frame (calcsize fmt) tmpl fmt vals = Inr f"
  shows "length f = 8 + calcsize fmt" and "sbe_template (pre @ f @ post) (length pre) = Some tmpl"
    and "sunpack_from LE fmt (pre @ f @ post) (length pre + HEADER_SIZE) = Inr (map2 canon fmt vals)"
proof -
  obtain h p where h: "spack LE SBE_HEADER_STRUCT [VI (int (calcsize fmt)), VI tmpl, VI SBE_SCHEMA_ID, VI SBE_SCHEMA_VERSION] = Inr h"
    and p: "spack LE fmt vals = Inr p" and f: "f = h @ p"
    using assms by (auto simp: sbe_frame_def bindr_Inr)
  have lh: "length h = 8" using spack_length [OF h] by (simp add: SBE_HEADER_STRUCT_def calcsize_def)
  show "length f = 8 + calcsize fmt" using lh spack_length [OF p] f by simp
  have "sunpack_from LE SBE_HEADER_STRUCT (pre @ h @ p @ post) (length pre)
      = Inr [VI (int (calcsize fmt)), VI tmpl, VI SBE_SCHEMA_ID, VI SBE_SCHEMA_VERSION]"
    using sunpack_from_spack [OF h refl, of pre "p @ post"] by (simp add: SBE_HEADER_STRUCT_def)
  then show "sbe_template (pre @ f @ post) (length pre) = Some tmpl" by (simp add: sbe_template_def f)
  show "sunpack_from LE fmt (pre @ f @ post) (length pre + HEADER_SIZE) = Inr (map2 canon fmt vals)"
    using sunpack_from_spack [OF p, of "length pre + HEADER_SIZE" "pre @ h" post] lh
    by (simp add: f sbe_sizes)
qed

definition sbe_tick_seen :: "sbe_tick_args \<Rightarrow> sbe_tick_message" where
  "sbe_tick_seen a =
     \<lparr>st_seq = sa_seq a, st_exchange_ts = sa_exchange_ts a, st_ingest_ts = sa_ingest_ts a,
      st_broadcast_ts = sa_broadcast_ts a, st_price = fo_or0 (sa_price a), st_size = fo_or0 (sa_size a),
      st_bid = fo_or0 (sa_bid a), st_ask = fo_or0 (sa_ask a), st_bid_size = fo_or0 (sa_bid_size a),
      st_ask_size = fo_or0 (sa_ask_size a), st_status = sa_status a, st_is_crossed = sa_is_crossed a,
      st_engine_us = f32_round (sa_engine_us a), st_symbol = sa_symbol a, st_source = sa_source a\<rparr>"

definition sbe_tick_ok :: "sbe_tick_args \<Rightarrow> bool" where
  "sbe_tick_ok a = (ascii_text 16 (sa_symbol a) \<and> ascii_text 16 (sa_source a)
     \<and> sa_status a \<in> {''VALID'', ''SUSPICIOUS'', ''INVALID''})"

definition sbe_bbo_ok :: "sbe_bbo_message \<Rightarrow> bool" where
  "sbe_bbo_ok m = (ascii_text 16 (bm_symbol m) \<and> ascii_text 16 (bm_best_bid_source m)
     \<and> ascii_text 16 (bm_best_ask_source m))"

lemma sbe_tick_roundtrip:
  assumes "pack_sbe_tick a = Inr f" and "sbe_tick_ok a"
  shows "unpack_sbe_tick (pre @ f @ post) (length pre) = Some (sbe_tick_seen a)"
    and "unpack_sbe_bbo (pre @ f @ post) (length pre) = None"
proof -
  note packed = assms(1) [unfolded pack_sbe_tick_def TICK_PAYLOAD_SIZE_def]
  note r = sbe_frame_reads(1) [OF packed, folded TICK_PAYLOAD_SIZE_def, unfolded sbe_sizes] sbe_frame_reads(2,3) [OF packed, of pre post]
  note s = r(3) [unfolded TICK_PAYLOAD_STRUCT_def, simplified]
  show "unpack_sbe_tick (pre @ f @ post) (length pre) = Some (sbe_tick_seen a)"
    using r(1,2) s assms(2)
    by (simp add: unpack_sbe_tick_def sbe_tick_seen_def sbe_tick_ok_def TICK_TOTAL_FRAME_SIZE_def sbe_sizes
          TICK_PAYLOAD_STRUCT_def sbe_text_get_str get_put_str sbe_status_name_code
          f32_round_def)
  show "unpack_sbe_bbo (pre @ f @ post) (length pre) = None"
    using r(2) by (simp add: unpack_sbe_bbo_def TEMPLATE_TICK_def TEMPLATE_BBO_def)
qed

lemma sbe_bbo_roundtrip:
  assumes "pack_sbe_bbo m = Inr f" and "sbe_bbo_ok m"
  shows "unpack_sbe_bbo (pre @ f @ post) (length pre) = Some m"
    and "unpack_sbe_tick (pre @ f @ post) (length pre) = None"
proof -
  note packed = assms(1) [unfolded pack_sbe_bbo_def BBO_PAYLOAD_SIZE_def]
  note r = sbe_frame_reads(1) [OF packed, folded BBO_PAYLOAD_SIZE_def, unfolded sbe_sizes] sbe_frame_reads(2,3) [OF packed, of pre post]
  note s = r(3) [unfolded BBO_PAYLOAD_STRUCT_def bbo_vals_def, simplified]
  show "unpack_sbe_bbo (pre @ f @ post) (length pre) = Some m"
    using r(1,2) s assms(2)
    by (simp add: unpack_sbe_bbo_def sbe_bbo_ok_def BBO_TOTAL_FRAME_SIZE_def sbe_sizes
          BBO_PAYLOAD_STRUCT_def sbe_text_get_str get_put_str)
  show "unpack_sbe_tick (pre @ f @ post) (length pre) = None"
    using r(2) by (simp add: unpack_sbe_tick_def TEMPLATE_TICK_def TEMPLATE_BBO_def)
qed

section \<open>The depth layout\<close>

lemma pack_level_reads:
  assumes "pack_level l = Inr b"
  shows "length b = DEPTH_LEVEL_SIZE"
    and "sunpack_from LE DEPTH_LEVEL_STRUCT (pre @ b @ post) (length pre)
       = Inr [VF (fst l), VF (fst (snd l)), VS (put_str 8 (snd (snd l)))]"
proof -
  obtain px sz v where l: "l = (px, sz, v)" by (cases l)
  then have s: "spack LE DEPTH_LEVEL_STRUCT [VF px, VF sz, VS (put_str 8 v)] = Inr b" using assms by simp
  show "length b = DEPTH_LEVEL_SIZE" using spack_length [OF s] by (simp add: DEPTH_LEVEL_SIZE_def)
  show "sunpack_from LE DEPTH_LEVEL_STRUCT (pre @ b @ post) (length pre)
       = Inr [VF (fst l), VF (fst (snd l)), VS (put_str 8 (snd (snd l)))]"
    using sunpack_from_spack [OF s refl, of pre post] l by (simp add: DEPTH_LEVEL_STRUCT_def)
qed

lemma pack_levels_total: "\<exists>bs. pack_levels ls = Inr bs"
  by (induction ls) (auto simp: DEPTH_LEVEL_STRUCT_def)

lemma pack_levels_reads:
  assumes "pack_levels ls = Inr bs"
  shows "length bs = length ls * DEPTH_LEVEL_SIZE"
    and "i < length ls \<Longrightarrow> sunpack_from LE DEPTH_LEVEL_STRUCT (pre @ bs @ post) (length pre + i * DEPTH_LEVEL_SIZE)
       = Inr [VF (fst (ls ! i)), VF (fst (snd (ls ! i))), VS (put_str 8 (snd (snd (ls ! i))))]"
proof -
  have "length bs = length ls * DEPTH_LEVEL_SIZE \<and> (i < length ls \<longrightarrow>
     sunpack_from LE DEPTH_LEVEL_STRUCT (pre @ bs @ post) (length pre + i * DEPTH_LEVEL_SIZE)
       = Inr [VF (fst (ls ! i)), VF (fst (snd (ls ! i))), VS (put_str 8 (snd (snd (ls ! i))))])"
    using assms
  proof (induction ls arbitrary: bs i pre)
    case (Cons l ls)
    then obtain b bs' where b: "pack_level l = Inr b" and bs': "pack_levels ls = Inr bs'" and bs: "bs = b @ bs'"
      by (auto simp: bindr_Inr)
    note IH = Cons.IH [OF bs', of "i - 1" "pre @ b"]
    show ?case
      using IH pack_level_reads(1) [OF b] pack_level_reads(2) [OF b, of pre "bs' @ post"]
      by (cases i) (auto simp: bs algebra_simps)
  qed simp
  then show "length bs = length ls * DEPTH_LEVEL_SIZE"
    and "i < length ls \<Longrightarrow> sunpack_from LE DEPTH_LEVEL_STRUCT (pre @ bs @ post) (length pre + i * DEPTH_LEVEL_SIZE)
       = Inr [VF (fst (ls ! i)), VF (fst (snd (ls ! i))), VS (put_str 8 (snd (snd (ls ! i))))]" by auto
qed

text \<open>What a reader of the layout finds: the announced length, and every level at its own offset.\<close>

definition depth_layout_ok :: "bytes \<Rightarrow> level list \<Rightarrow> level list \<Rightarrow> bool" where
  "depth_layout_ok f bids asks =
     (sunpack_from LE SBE_HEADER_STRUCT f 0
        = Inr [VI (int (length f - HEADER_SIZE)), VI TEMPLATE_DEPTH, VI SBE_SCHEMA_ID, VI SBE_SCHEMA_VERSION]
      \<and> length f = HEADER_SIZE + DEPTH_ROOT_SIZE + (length bids + length asks) * DEPTH_LEVEL_SIZE
      \<and> list_all (\<lambda>(i, px, sz, v).
           sunpack_from LE DEPTH_LEVEL_STRUCT f (HEADER_SIZE + DEPTH_ROOT_SIZE + i * DEPTH_LEVEL_SIZE)
             = Inr [VF px, VF sz, VS (put_str 8 v)])
         (zip [0..<length bids + length asks] (bids @ asks)))"

lemma pack_levels_append:
  "pack_levels ls = Inr a \<Longrightarrow> pack_levels ms = Inr b \<Longrightarrow> pack_levels (ls @ ms) = Inr (a @ b)"
  by (induction ls arbitrary: a) (auto simp: bindr_Inr)

lemma depth_layout:
  assumes "pack_sbe_depth sq symb ts bids asks micro ofi cvd = Inr f"
  shows "depth_layout_ok f (take 32 bids) (take 32 asks)"
proof -
  let ?b = "take 32 bids" and ?a = "take 32 asks"
  let ?n = "length ?b + length ?a"
  have t: "take (min (length xs) 32) xs = take 32 xs" for xs :: "level list" by (simp add: min_def)
  obtain h r bs as where
    h: "spack LE SBE_HEADER_STRUCT [VI (int (DEPTH_ROOT_SIZE + ?n * DEPTH_LEVEL_SIZE)), VI TEMPLATE_DEPTH,
          VI SBE_SCHEMA_ID, VI SBE_SCHEMA_VERSION] = Inr h"
    and r: "length r = DEPTH_ROOT_SIZE" and bs: "pack_levels ?b = Inr bs" and as: "pack_levels ?a = Inr as"
    and f: "f = h @ r @ bs @ as"
    using assms by (auto simp: pack_sbe_depth_def Let_def bindr_Inr t DEPTH_ROOT_SIZE_def dest: spack_length)
  have lh: "length h = HEADER_SIZE" using spack_length [OF h] by (simp add: HEADER_SIZE_def)
  note all = pack_levels_append [OF bs as]
  have len: "length f = HEADER_SIZE + DEPTH_ROOT_SIZE + ?n * DEPTH_LEVEL_SIZE"
    using pack_levels_reads(1) [OF all] lh r f by simp
  have hd: "sunpack_from LE SBE_HEADER_STRUCT f 0 = Inr [VI (int (length f - HEADER_SIZE)), VI TEMPLATE_DEPTH,
      VI SBE_SCHEMA_ID, VI SBE_SCHEMA_VERSION]"
    using sunpack_from_spack [OF h, of 0 "[]" "r @ bs @ as"] len by (simp add: f SBE_HEADER_STRUCT_def)
  have lv: "i < ?n \<Longrightarrow> sunpack_from LE DEPTH_LEVEL_STRUCT f (HEADER_SIZE + DEPTH_ROOT_SIZE + i * DEPTH_LEVEL_SIZE)
      = Inr [VF (fst ((?b @ ?a) ! i)), VF (fst (snd ((?b @ ?a) ! i))), VS (put_str 8 (snd (snd ((?b @ ?a) ! i))))]" for i
    using pack_levels_reads(2) [OF all, of i "h @ r" "[]"] lh r by (simp add: f)
  show ?thesis unfolding depth_layout_ok_def list_all_length
    using len hd lv by (auto simp: nth_append split_beta)
qed

text \<open>C38: ticks and best bid and offer survive the wire.  A packed tick, wherever it lies in a buffer, unpacks to
  the message that was packed: every double bit by bit, absent fields as zero, the engine latency in single
  precision, status, flags and texts unchanged.  A packed BBO unpacks to itself.  Neither frame is ever taken
  for the other, since the template in the header is checked.\<close>

theorem sbe_roundtrip:
  assumes "pack_sbe_tick a = Inr f" and "sbe_tick_ok a" and "pack_sbe_bbo m = Inr g" and "sbe_bbo_ok m"
  shows "unpack_sbe_tick (pre @ f @ post) (length pre) = Some (sbe_tick_seen a)
     \<and> unpack_sbe_bbo (pre @ f @ post) (length pre) = None
     \<and> unpack_sbe_bbo (pre @ g @ post) (length pre) = Some m
     \<and> unpack_sbe_tick (pre @ g @ post) (length pre) = None"
  using sbe_tick_roundtrip [OF assms(1,2)] sbe_bbo_roundtrip [OF assms(3,4)] by simp

definition demo_sbe_tick :: sbe_tick_args where
  "demo_sbe_tick = \<lparr>sa_seq = 5, sa_symbol = [65, 66], sa_source = [88], sa_price = Some 0x3FF0000000000000, sa_size = None,
     sa_bid = None, sa_ask = None, sa_bid_size = None, sa_ask_size = None, sa_status = ''SUSPICIOUS'',
     sa_is_crossed = True, sa_exchange_ts = 0, sa_ingest_ts = 0, sa_broadcast_ts = 0, sa_engine_us = 0\<rparr>"

definition demo_sbe_bbo :: sbe_bbo_message where
  "demo_sbe_bbo = \<lparr>bm_seq = 6, bm_timestamp = 0, bm_mid_price = 1, bm_spread = 2, bm_best_bid = 3, bm_best_bid_size = 4,
     bm_best_ask = 5, bm_best_ask_size = 6, bm_is_crossed = False, bm_is_locked = True, bm_is_stale = False,
     bm_symbol = [65], bm_best_bid_source = [66], bm_best_ask_source = []\<rparr>"

theorem sbe_roundtrip_witness:
  "\<exists>f g. pack_sbe_tick demo_sbe_tick = Inr f \<and> pack_sbe_bbo demo_sbe_bbo = Inr g
     \<and> unpack_sbe_tick ([1, 2] @ f @ g) 2 = Some (sbe_tick_seen demo_sbe_tick)
     \<and> unpack_sbe_bbo ([1, 2] @ g @ g) 2 = Some demo_sbe_bbo"
proof -
  obtain f where f: "pack_sbe_tick demo_sbe_tick = Inr f"
    by (simp add: pack_sbe_tick_def sbe_frame_def SBE_HEADER_STRUCT_def TICK_PAYLOAD_STRUCT_def demo_sbe_tick_def
          pack_uint_def sbe_status_code_def b_int_def TEMPLATE_TICK_def SBE_SCHEMA_ID_def SBE_SCHEMA_VERSION_def
          sbe_sizes f64_to_f32_def mag_val_def round_mag32_def)
  obtain g where g: "pack_sbe_bbo demo_sbe_bbo = Inr g"
    by (simp add: pack_sbe_bbo_def bbo_vals_def sbe_frame_def SBE_HEADER_STRUCT_def BBO_PAYLOAD_STRUCT_def demo_sbe_bbo_def
          pack_uint_def b_int_def TEMPLATE_BBO_def SBE_SCHEMA_ID_def SBE_SCHEMA_VERSION_def sbe_sizes)
  have ok: "sbe_tick_ok demo_sbe_tick" "sbe_bbo_ok demo_sbe_bbo"
    by (simp_all add: sbe_tick_ok_def sbe_bbo_ok_def ascii_text_def demo_sbe_tick_def demo_sbe_bbo_def)
  show ?thesis using sbe_roundtrip [OF f ok(1) g ok(2), of "[1, 2]" g] f g by (simp add: numeral_2_eq_2)
qed

text \<open>A depth frame is laid out as announced.  Packing succeeds exactly when the sequence number fits
  64 bits and the two single-precision fields do not overflow.  The block length in the header is then the
  number of bytes behind it, each ladder is cut to its first 32 levels, and level \<open>i\<close> (bids first, then asks)
  is found 24 bytes times \<open>i\<close> behind the root with its price, size and padded venue.\<close>

theorem sbe_depth_layout:
  "(\<exists>f. pack_sbe_depth sq symb ts bids asks micro ofi cvd = Inr f)
     = (0 \<le> sq \<and> sq < 2 ^ 64 \<and> (\<exists>n. f64_to_f32 ofi = Inr n) \<and> (\<exists>n. f64_to_f32 cvd = Inr n))
   \<and> list_all (\<lambda>f. depth_layout_ok f (take 32 bids) (take 32 asks))
       (case pack_sbe_depth sq symb ts bids asks micro ofi cvd of Inl _ \<Rightarrow> [] | Inr f \<Rightarrow> [f])"
proof -
  have cnt: "pack_uint LE 2 (int (min (length xs) 32)) = Inr (le_bytes 2 (int (min (length xs) 32)))" for xs :: "level list"
    by (auto simp: pack_uint_def order_bytes_def)
  obtain bs as where "pack_levels (take (min (length bids) 32) bids) = Inr bs"
    "pack_levels (take (min (length asks) 32) asks) = Inr as" using pack_levels_total by blast
  moreover have "int (min (length bids) 32) + int (min (length asks) 32) \<le> 64" by linarith
  ultimately have "(\<exists>f. pack_sbe_depth sq symb ts bids asks micro ofi cvd = Inr f)
     = (0 \<le> sq \<and> sq < 2 ^ 64 \<and> (\<exists>n. f64_to_f32 ofi = Inr n) \<and> (\<exists>n. f64_to_f32 cvd = Inr n))"
    by (auto simp: pack_sbe_depth_def Let_def bindr_Inr SBE_HEADER_STRUCT_def DEPTH_ROOT_STRUCT_def sbe_sizes cnt
          TEMPLATE_DEPTH_def SBE_SCHEMA_ID_def SBE_SCHEMA_VERSION_def spack_uint pack_uint_def split: if_splits)
  then show ?thesis using depth_layout by (auto split: sum.split)
qed

end
