(* ===== verification/Models.thy ===== *)
theory Models
  imports Pyfloat
begin

text \<open>
  The vocabulary of \<open>models.py\<close> that the engines share: verdicts in their order of severity, reason codes, event
  types and the canonical event.
\<close>

datatype quality_status = VALID | SUSPICIOUS | INVALID

fun status_priority :: "quality_status \<Rightarrow> nat" where
  "status_priority VALID = 0"
| "status_priority SUSPICIOUS = 1"
| "status_priority INVALID = 2"

instantiation quality_status :: linorder
begin

definition less_eq_quality_status :: "quality_status \<Rightarrow> quality_status \<Rightarrow> bool" where
  "s \<le> t \<longleftrightarrow> status_priority s \<le> status_priority t"

definition less_quality_status :: "quality_status \<Rightarrow> quality_status \<Rightarrow> bool" where
  "s < t \<longleftrightarrow> status_priority s < status_priority t"

instance
proof
  fix s t :: quality_status
  show "s \<le> t \<Longrightarrow> t \<le> s \<Longrightarrow> s = t"
    by (cases s; cases t) (simp_all add: less_eq_quality_status_def)
qed (auto simp: less_eq_quality_status_def less_quality_status_def)

end

lemma status_order [simp]:
  "(VALID :: quality_status) \<le> s" "(s :: quality_status) \<le> INVALID" "\<not> s < VALID" "\<not> INVALID < s"
  "VALID < SUSPICIOUS" "VALID < INVALID" "SUSPICIOUS < INVALID" "\<not> INVALID \<le> SUSPICIOUS" "\<not> INVALID \<le> VALID"
  "\<not> SUSPICIOUS \<le> VALID"
  by (cases s; simp add: less_eq_quality_status_def less_quality_status_def)+

lemma not_VALID_iff: "SUSPICIOUS \<le> s \<longleftrightarrow> s \<noteq> VALID"
  by (cases s) auto

datatype reason =
    SCHEMA_VIOLATION | DUPLICATE | SEQUENCE_GAP | OUT_OF_ORDER | STALE | PRICE_ANOMALY | CROSSED_QUOTE
  | CROSS_FEED_DISAGREEMENT | MALFORMED | CIRCUIT_FILTER_BREACH | VOLATILITY_INTERRUPTION | SPECIAL_QUOTE_INDICATION
  | TS_IMPLAUSIBLE | RATE_LIMITED | SECURITY_REJECT | HOOK_DROPPED | HOOK_ERROR | BACKPRESSURE_DROP | EPOCH_RESET
  | GAP_FILLED

fun reason_value :: "reason \<Rightarrow> string" where
  "reason_value SCHEMA_VIOLATION = ''SCHEMA_VIOLATION''"
| "reason_value DUPLICATE = ''DUPLICATE''"
| "reason_value SEQUENCE_GAP = ''SEQUENCE_GAP''"
| "reason_value OUT_OF_ORDER = ''OUT_OF_ORDER''"
| "reason_value STALE = ''STALE''"
| "reason_value PRICE_ANOMALY = ''PRICE_ANOMALY''"
| "reason_value CROSSED_QUOTE = ''CROSSED_QUOTE''"
| "reason_value CIRCUIT_FILTER_BREACH = ''CIRCUIT_FILTER_BREACH''"
| "reason_value VOLATILITY_INTERRUPTION = ''VOLATILITY_INTERRUPTION''"
| "reason_value SPECIAL_QUOTE_INDICATION = ''SPECIAL_QUOTE_INDICATION''"
| "reason_value TS_IMPLAUSIBLE = ''TS_IMPLAUSIBLE''"
| "reason_value EPOCH_RESET = ''EPOCH_RESET''"
| "reason_value CROSS_FEED_DISAGREEMENT = ''CROSS_FEED_DISAGREEMENT''"
| "reason_value MALFORMED = ''MALFORMED''"
| "reason_value RATE_LIMITED = ''RATE_LIMITED''"
| "reason_value SECURITY_REJECT = ''SECURITY_REJECT''"
| "reason_value HOOK_DROPPED = ''HOOK_DROPPED''"
| "reason_value HOOK_ERROR = ''HOOK_ERROR''"
| "reason_value BACKPRESSURE_DROP = ''BACKPRESSURE_DROP''"
| "reason_value GAP_FILLED = ''GAP_FILLED''"

lemma reason_value_inj: "reason_value r = reason_value s \<longleftrightarrow> r = s"
  by (cases r; cases s) simp_all

datatype event_type = TRADE | QUOTE | BBO | BOOK | DEPTH | HALT | STATUS | UNKNOWN

text \<open>The fields of \<open>CanonicalEvent\<close> that the engines read or write.\<close>

record cevent =
  event_id :: string
  instrument_id :: string
  event_type :: event_type
  exchange_timestamp :: f64
  receive_timestamp :: f64
  source :: string
  sequence_number :: "int option"
  price :: "f64 option"
  quantity :: "f64 option"
  bid_price :: "f64 option"
  bid_size :: "f64 option"
  ask_price :: "f64 option"
  ask_size :: "f64 option"
  quality_status :: quality_status
  reasons :: "string list"
  session_id :: "string option"
  venue :: string

end
