(* ===== verification/Quality.thy ===== *)
theory Quality
  imports Models
begin

text \<open>
  The data-quality engine of \<open>quality.py\<close>: the six evaluation stages, the 64-bit sequence window, the
  reorder buffer and its expiry, the two-generation cache for unsequenced events, the rolling price
  statistics, and the user rules of \<open>rules.py\<close>.  The properties say which events are flagged as
  duplicates, that a verdict is only ever escalated, what a VALID verdict guarantees, and what becomes of
  the events the engine holds back.
\<close>

section \<open>Configuration\<close>

record quality_config =
  staleness_threshold_s :: f64
  price_anomaly_stddev :: f64
  price_window :: nat
  price_min_samples :: int
  price_reseed_after :: int
  price_sigma_floor_rel :: f64
  price_reseed_band_rel :: f64
  max_future_skew_s :: f64
  seq_jump_limit :: int
  allow_negative :: bool
  unseq_dup_status :: string
  reorder_window_s :: f64
  reorder_max_slots :: int
  session_policy :: string

definition DEFAULT_STALE_SEEN_CAPACITY :: nat where "DEFAULT_STALE_SEEN_CAPACITY = 32"
definition MIN_SAMPLES_FOR_VARIANCE :: nat where "MIN_SAMPLES_FOR_VARIANCE = 3"
definition RECENTER_FOLD_WINDOW_MULTIPLIER :: nat where "RECENTER_FOLD_WINDOW_MULTIPLIER = 64"
definition MAX_TRACKED_INSTRUMENTS_DEFAULT :: int where "MAX_TRACKED_INSTRUMENTS_DEFAULT = 100000"

text \<open>The decimal constants 0.10, 0.05 and 0.08, and 60.0, as the doubles nearest to them.\<close>

definition WARMUP_PRICE_DEV_RATIO :: f64 where "WARMUP_PRICE_DEV_RATIO = 0x3FB999999999999A"
definition NSE_CIRCUIT_FILTER_RATIO :: f64 where "NSE_CIRCUIT_FILTER_RATIO = 0x3FB999999999999A"
definition XETR_VOLATILITY_INTERRUPTION_RATIO :: f64 where "XETR_VOLATILITY_INTERRUPTION_RATIO = 0x3FA999999999999A"
definition TSE_SPECIAL_QUOTE_RATIO :: f64 where "TSE_SPECIAL_QUOTE_RATIO = 0x3FB47AE147AE147B"
definition F_60 :: f64 where "F_60 = 0x404E000000000000"
definition F_0_05 :: f64 where "F_0_05 = 0x3FA999999999999A"

section \<open>State\<close>

text \<open>A held event: its arrival time, the event, and the four flags of its structural check.\<close>

type_synonym pend = "f64 \<times> cevent \<times> bool \<times> bool \<times> bool \<times> bool"

record slot_state =
  last_seq :: int
  seen :: "64 word"
  cand_plus1 :: int
  has_seq :: bool
  last_ts :: f64
  has_ts :: bool
  ring :: "f64 list"
  sl_n :: nat
  head :: nat
  mean :: f64
  m2 :: f64
  anom_count :: int
  anom_last :: f64
  fold_count :: nat
  pending :: "(int, pend) dict"
  ready :: "cevent list"
  sl_session_id :: "string option"
  regress_count :: int
  stale_seen :: "int list"

definition slot_init :: "nat \<Rightarrow> slot_state" where
  "slot_init window =
     \<lparr>last_seq = - 1, seen = 0, cand_plus1 = 0, has_seq = False, last_ts = 0, has_ts = False,
      ring = replicate window 0, sl_n = 0, head = 0, mean = 0, m2 = 0, anom_count = 0, anom_last = 0,
      fold_count = 0, pending = [], ready = [], sl_session_id = None, regress_count = 0, stale_seen = []\<rparr>"

text \<open>The two-generation cache, over the equality that Python uses on the keys.\<close>

record 'k unseq_dedup =
  active :: "'k list"
  older :: "'k list"
  dd_count :: int
  max_entries :: int

definition dedup_init :: "int \<Rightarrow> 'k unseq_dedup" where
  "dedup_init n = \<lparr>active = [], older = [], dd_count = 0, max_entries = max 100 (n div 2)\<rparr>"

definition key_in :: "('k \<Rightarrow> 'k \<Rightarrow> bool) \<Rightarrow> 'k \<Rightarrow> 'k list \<Rightarrow> bool" where
  "key_in eq k ks = list_ex (eq k) ks"

definition check_and_insert :: "('k \<Rightarrow> 'k \<Rightarrow> bool) \<Rightarrow> 'k unseq_dedup \<Rightarrow> 'k \<Rightarrow> bool \<times> 'k unseq_dedup" where
  "check_and_insert eq d k =
     (let hit = key_in eq k (older d) \<or> key_in eq k (active d)
      in if key_in eq k (active d) then (hit, d)
         else if dd_count d + 1 \<ge> max_entries d
         then (hit, d\<lparr>older := active d @ [k], active := [], dd_count := 0\<rparr>)
         else (hit, d\<lparr>active := active d @ [k], dd_count := dd_count d + 1\<rparr>))"

definition dedup_clear :: "'k unseq_dedup \<Rightarrow> 'k unseq_dedup" where
  "dedup_clear d = d\<lparr>active := [], older := [], dd_count := 0\<rparr>"

text \<open>An unsequenced event's key.  Tuples compare their floats with \<open>==\<close>: the two zeros are equal and a
  NaN of another event is not.\<close>

type_synonym unseq_key =
  "string \<times> string \<times> event_type \<times> f64 \<times> f64 option \<times> f64 option \<times> f64 option \<times> f64 option \<times> f64 option \<times> f64 option"

fun opt_feq :: "f64 option \<Rightarrow> f64 option \<Rightarrow> bool" where
  "opt_feq None None = True"
| "opt_feq (Some a) (Some b) = feq a b"
| "opt_feq _ _ = False"

fun unseq_eq :: "unseq_key \<Rightarrow> unseq_key \<Rightarrow> bool" where
  "unseq_eq (s, i, t, x, p, q, b, a, bs, as) (s', i', t', x', p', q', b', a', bs', as') =
     (s = s' \<and> i = i' \<and> t = t' \<and> feq x x' \<and> opt_feq p p' \<and> opt_feq q q' \<and> opt_feq b b' \<and> opt_feq a a'
      \<and> opt_feq bs bs' \<and> opt_feq as as')"

definition unseq_key_of :: "cevent \<Rightarrow> unseq_key" where
  "unseq_key_of ev =
     (source ev, instrument_id ev, event_type ev, exchange_timestamp ev, price ev, quantity ev, bid_price ev,
      ask_price ev, bid_size ev, ask_size ev)"

record quality_engine =
  slots :: "(string \<times> string, slot_state) dict"
  cfg_cache :: "(string, quality_config) dict"
  unseq_dedup :: "unseq_key unseq_dedup"
  max_tracked_instruments :: int
  counts :: "(quality_status, int) dict"
  reason_counts :: "(string, int) dict"
  reorder_repaired_total :: int
  reorder_expired_total :: int

definition zero_counts :: "(quality_status, int) dict" where
  "zero_counts = [(VALID, 0), (SUSPICIOUS, 0), (INVALID, 0)]"

definition quality_init :: "int \<Rightarrow> quality_engine" where
  "quality_init dedup_cache_size =
     \<lparr>slots = [], cfg_cache = [], unseq_dedup = dedup_init dedup_cache_size,
      max_tracked_instruments = MAX_TRACKED_INSTRUMENTS_DEFAULT, counts = zero_counts, reason_counts = [],
      reorder_repaired_total = 0, reorder_expired_total = 0\<rparr>"

definition quality_reset :: "quality_engine \<Rightarrow> quality_engine" where
  "quality_reset q =
     q\<lparr>slots := [], cfg_cache := [], unseq_dedup := dedup_clear (unseq_dedup q), counts := zero_counts,
       reason_counts := [], reorder_repaired_total := 0, reorder_expired_total := 0\<rparr>"

text \<open>\<open>str.upper\<close> on the ASCII letters.\<close>

definition upper :: "string \<Rightarrow> string" where
  "upper s = map (\<lambda>c. let n = (of_char c :: nat) in if 97 \<le> n \<and> n \<le> 122 then char_of (n - 32) else c) s"

definition reset_source :: "quality_engine \<Rightarrow> string \<Rightarrow> quality_engine" where
  "reset_source q s = q\<lparr>slots := foldl ddel (slots q) [k \<leftarrow> dkeys (slots q). upper (fst k) = upper s]\<rparr>"

text \<open>What the engine calls but does not own: the configuration object's \<open>for_instrument\<close>, the
  registered user rules (name, severity and predicate), and the built-in \<open>sum\<close> of floats, whose rounding
  depends on the interpreter (compensated from version 3.12 on).\<close>

record quality_env =
  for_instrument :: "string \<Rightarrow> quality_config"
  user_rules :: "(string \<times> quality_status \<times> (cevent \<Rightarrow> bool res)) list"
  py_sum :: "f64 list \<Rightarrow> f64"

section \<open>Marking and counting\<close>

definition mark :: "cevent \<Rightarrow> quality_status \<Rightarrow> reason \<Rightarrow> cevent" where
  "mark ev st r =
     ev\<lparr>quality_status := (if quality_status ev < st then st else quality_status ev),
        reasons := (if reason_value r \<in> set (reasons ev) then reasons ev else reasons ev @ [reason_value r])\<rparr>"

definition bump :: "quality_engine \<Rightarrow> reason \<Rightarrow> quality_engine" where
  "bump q r = q\<lparr>reason_counts := dset (reason_counts q) (reason_value r) (dgetd (reason_counts q) (reason_value r) 0 + 1)\<rparr>"

text \<open>The pair of calls \<open>_mark\<close> and \<open>_bump\<close> that every check makes.\<close>

definition flag :: "quality_status \<Rightarrow> reason \<Rightarrow> quality_engine \<times> cevent \<Rightarrow> quality_engine \<times> cevent" where
  "flag st r s = (bump (fst s) r, mark (snd s) st r)"

definition count_status :: "quality_engine \<Rightarrow> quality_status \<Rightarrow> quality_engine" where
  "count_status q st = q\<lparr>counts := dset (counts q) st (dgetd (counts q) st 0 + 1)\<rparr>"

definition get_cfg :: "quality_env \<Rightarrow> quality_engine \<Rightarrow> string \<Rightarrow> quality_config \<times> quality_engine" where
  "get_cfg env q inst =
     (case dget (cfg_cache q) inst of
        Some cfg \<Rightarrow> (cfg, q)
      | None \<Rightarrow> (for_instrument env inst, q\<lparr>cfg_cache := dset (cfg_cache q) inst (for_instrument env inst)\<rparr>))"

definition get_slot :: "quality_engine \<Rightarrow> string \<times> string \<Rightarrow> nat \<Rightarrow> slot_state \<times> quality_engine" where
  "get_slot q key window =
     (case dget (slots q) key of
        Some sl \<Rightarrow> (sl, q)
      | None \<Rightarrow>
          let kept = (if int (length (slots q)) \<ge> max_tracked_instruments q then tl (slots q) else slots q)
          in (slot_init window, q\<lparr>slots := dset kept key (slot_init window)\<rparr>))"

section \<open>Rolling statistics\<close>

definition fold_full :: "slot_state \<Rightarrow> f64 \<Rightarrow> nat \<Rightarrow> slot_state res" where
  "fold_full sl x window =
     (if length (ring sl) \<le> head sl then Inl IndexError
      else let old = ring sl ! head sl; d = fsub x old
           in bindr (fdiv_nat d window) (\<lambda>dw.
              let nm = fadd (mean sl) dw;
                  v = fadd (m2 sl) (fmul d (fadd (fsub x nm) (fsub old (mean sl))))
              in Inr (sl\<lparr>m2 := (if flt v 0 then 0 else v), mean := nm, ring := (ring sl)[head sl := x],
                         head := (if head sl + 1 \<ge> window then 0 else head sl + 1)\<rparr>)))"

definition fold_growing :: "slot_state \<Rightarrow> f64 \<Rightarrow> nat \<Rightarrow> slot_state res" where
  "fold_growing sl x window =
     (if length (ring sl) \<le> sl_n sl then Inl IndexError
      else let k = sl_n sl + 1; delta = fsub x (mean sl)
           in bindr (fdiv_nat delta k) (\<lambda>dn.
              let nm = fadd (mean sl) dn
              in Inr (sl\<lparr>ring := (ring sl)[sl_n sl := x], sl_n := k, mean := nm,
                         m2 := fadd (m2 sl) (fmul delta (fsub x nm)), head := (if k \<ge> window then 0 else k)\<rparr>)))"

definition recenter :: "quality_env \<Rightarrow> slot_state \<Rightarrow> slot_state res" where
  "recenter env sl =
     bindr (fdiv_nat (py_sum env (take (sl_n sl) (ring sl))) (sl_n sl)) (\<lambda>mu.
     bindr (squares mu (take (sl_n sl) (ring sl))) (\<lambda>ss.
       Inr (sl\<lparr>fold_count := 0, mean := mu, m2 := py_sum env ss\<rparr>)))"

definition fold_price :: "quality_env \<Rightarrow> slot_state \<Rightarrow> f64 \<Rightarrow> nat \<Rightarrow> slot_state res" where
  "fold_price env sl x window =
     bindr (if sl_n sl \<ge> window then fold_full sl x window else fold_growing sl x window) (\<lambda>s1.
       let s2 = s1\<lparr>fold_count := fold_count s1 + 1\<rparr>
       in if fold_count s2 \<ge> window * RECENTER_FOLD_WINDOW_MULTIPLIER then recenter env s2 else Inr s2)"

section \<open>Stage 1: structure\<close>

definition num_bad :: "f64 \<Rightarrow> bool \<Rightarrow> bool" where
  "num_bad v allow_n = (\<not> f_isfinite v \<or> (\<not> allow_n \<and> flt v 0))"

definition opt_bad :: "f64 option \<Rightarrow> bool \<Rightarrow> bool" where
  "opt_bad v allow_n = (case v of None \<Rightarrow> False | Some x \<Rightarrow> num_bad x allow_n)"

definition schema_bad :: "quality_config \<Rightarrow> cevent \<Rightarrow> bool" where
  "schema_bad cfg ev =
     (let neg = allow_negative cfg
      in (if event_type ev = TRADE then price ev = None
          else if event_type ev = QUOTE then bid_price ev = None \<and> ask_price ev = None
          else False)
         \<or> opt_bad (price ev) neg \<or> opt_bad (bid_price ev) neg \<or> opt_bad (ask_price ev) neg
         \<or> opt_bad (quantity ev) False \<or> opt_bad (bid_size ev) False \<or> opt_bad (ask_size ev) False
         \<or> \<not> f_isfinite (exchange_timestamp ev) \<or> \<not> f_isfinite (receive_timestamp ev))"

section \<open>Stage 2: sequence and duplicates\<close>

definition epoch_reset_due :: "quality_config \<Rightarrow> slot_state \<Rightarrow> cevent \<Rightarrow> int \<Rightarrow> bool" where
  "epoch_reset_due cfg sl ev sq =
     (if ''EPOCH_RESET'' \<in> set (reasons ev) then True
      else if session_policy cfg = ''session_marker''
      then session_id ev \<noteq> None \<and> sl_session_id sl \<noteq> None \<and> session_id ev \<noteq> sl_session_id sl
      else if session_policy cfg = ''auto_detect''
      then has_seq sl \<and> has_ts sl \<and> (last_seq sl - sq \<ge> 50 \<or> last_seq sl > 10 \<and> sq \<le> 10)
           \<and> fle F_60 (fsub (exchange_timestamp ev) (last_ts sl))
      else False)"

definition clear_epoch :: "slot_state \<Rightarrow> slot_state" where
  "clear_epoch sl = sl\<lparr>last_seq := - 1, has_seq := False, seen := 0, cand_plus1 := 0, pending := [], regress_count := 0\<rparr>"

datatype verdict = Continue | HoldBack | ReturnNow

text \<open>The bitmap after a forward jump: \<open>((seen << jump) | 1) & MASK\<close>, or 1 when everything falls out.\<close>

definition shift_seen :: "64 word \<Rightarrow> int \<Rightarrow> 64 word" where
  "shift_seen w jump = (if jump < 64 then or (push_bit (nat jump) w) 1 else 1)"

definition seq_forward ::
    "quality_config \<Rightarrow> f64 \<Rightarrow> bool \<Rightarrow> int \<Rightarrow> slot_state \<Rightarrow> quality_engine \<times> cevent
      \<Rightarrow> verdict \<times> slot_state \<times> quality_engine \<times> cevent" where
  "seq_forward cfg now bad sq sl s =
     (let jump = sq - last_seq sl; ev = snd s
      in if flt 0 (reorder_window_s cfg) \<and> 1 < jump \<and> jump \<le> reorder_max_slots cfg
            \<and> int (length (pending sl)) < reorder_max_slots cfg
         then (HoldBack,
               sl\<lparr>pending := dset (pending sl) sq
                   (now, ev, bad, bid_price ev \<noteq> None, ask_price ev \<noteq> None, price ev \<noteq> None)\<rparr>, s)
         else if jump > seq_jump_limit cfg
         then let cand = cand_plus1 sl - 1
              in (Continue,
                  (if cand_plus1 sl \<noteq> 0 \<and> sq > cand \<and> sq - cand \<le> seq_jump_limit cfg
                   then sl\<lparr>last_seq := sq, seen := 1, cand_plus1 := 0\<rparr>
                   else sl\<lparr>cand_plus1 := sq + 1\<rparr>),
                  flag SUSPICIOUS SEQUENCE_GAP s)
         else (Continue, sl\<lparr>seen := shift_seen (seen sl) jump, last_seq := sq, cand_plus1 := 0\<rparr>,
               if jump > 1 then flag SUSPICIOUS SEQUENCE_GAP s else s))"

definition seq_backward ::
    "quality_config \<Rightarrow> int \<Rightarrow> slot_state \<Rightarrow> quality_engine \<times> cevent
      \<Rightarrow> verdict \<times> slot_state \<times> quality_engine \<times> cevent" where
  "seq_backward cfg sq sl s =
     (let d = last_seq sl - sq
      in if d < 64
         then if bit (seen sl) (nat d)
              then (Continue, sl,
                    if d > 0 then flag INVALID OUT_OF_ORDER (flag INVALID DUPLICATE s) else flag INVALID DUPLICATE s)
              else (Continue, sl\<lparr>seen := or (seen sl) (push_bit (nat d) 1)\<rparr>, flag SUSPICIOUS OUT_OF_ORDER s)
         else if sq \<in> set (stale_seen sl)
         then (ReturnNow, sl, flag INVALID OUT_OF_ORDER (flag INVALID DUPLICATE s))
         else if d > seq_jump_limit cfg \<and> regress_count sl + 1 \<ge> 2
         then (ReturnNow,
               sl\<lparr>last_seq := sq, seen := 1, regress_count := 0, cand_plus1 := 0, stale_seen := []\<rparr>,
               flag SUSPICIOUS OUT_OF_ORDER s)
         else (Continue,
               sl\<lparr>regress_count := (if d > seq_jump_limit cfg then regress_count sl + 1 else 0),
                  stale_seen := bounded_append DEFAULT_STALE_SEEN_CAPACITY (stale_seen sl) sq\<rparr>,
               flag SUSPICIOUS OUT_OF_ORDER s))"

definition note_session :: "cevent \<Rightarrow> slot_state \<Rightarrow> slot_state" where
  "note_session ev sl = (case session_id ev of None \<Rightarrow> sl | Some i \<Rightarrow> sl\<lparr>sl_session_id := Some i\<rparr>)"

definition seq_stage ::
    "quality_config \<Rightarrow> f64 \<Rightarrow> bool \<Rightarrow> int \<Rightarrow> slot_state \<Rightarrow> quality_engine \<times> cevent
      \<Rightarrow> verdict \<times> slot_state \<times> quality_engine \<times> cevent" where
  "seq_stage cfg now bad sq sl s =
     (let reset = epoch_reset_due cfg sl (snd s) sq;
          sl1 = (if reset then clear_epoch sl else sl);
          s1 = (if reset then flag VALID EPOCH_RESET s else s);
          sl2 = note_session (snd s) sl1
      in if \<not> has_seq sl2 then (Continue, sl2\<lparr>last_seq := sq, seen := 1, has_seq := True\<rparr>, s1)
         else if sq > last_seq sl2 then seq_forward cfg now bad sq sl2 s1
         else seq_backward cfg sq sl2 s1)"

definition dup_status :: "quality_config \<Rightarrow> quality_status" where
  "dup_status cfg =
     dgetd [(''VALID'', VALID), (''SUSPICIOUS'', SUSPICIOUS), (''INVALID'', INVALID)] (unseq_dup_status cfg) SUSPICIOUS"

definition unseq_stage :: "quality_config \<Rightarrow> quality_engine \<times> cevent \<Rightarrow> quality_engine \<times> cevent" where
  "unseq_stage cfg s =
     (let (hit, d) = check_and_insert unseq_eq (unseq_dedup (fst s)) (unseq_key_of (snd s));
          s1 = ((fst s)\<lparr>unseq_dedup := d\<rparr>, snd s)
      in if hit then flag (dup_status cfg) DUPLICATE s1 else s1)"

section \<open>Stages 3 to 6\<close>

definition ts_stage ::
    "quality_config \<Rightarrow> slot_state \<Rightarrow> quality_engine \<times> cevent \<Rightarrow> slot_state \<times> quality_engine \<times> cevent" where
  "ts_stage cfg sl s =
     (let ev = snd s; ex = exchange_timestamp ev; rc = receive_timestamp ev
      in if \<not> (f_isfinite ex \<and> f_isfinite rc) then (sl, s)
         else
           let plausible = fle ex (fadd rc (max_future_skew_s cfg));
               s1 = (if plausible then s else flag SUSPICIOUS TS_IMPLAUSIBLE s);
               s2 = (if has_ts sl \<and> flt ex (last_ts sl) then flag SUSPICIOUS OUT_OF_ORDER s1 else s1);
               sl2 = (if \<not> has_ts sl then (if plausible then sl\<lparr>last_ts := ex, has_ts := True\<rparr> else sl)
                      else if flt ex (last_ts sl) then sl
                      else if plausible then sl\<lparr>last_ts := ex\<rparr> else sl);
               stale = (event_type ev \<notin> {HALT, STATUS} \<and> flt (staleness_threshold_s cfg) (fsub rc ex))
           in (sl2, if stale then flag SUSPICIOUS STALE s2 else s2))"

definition crossed :: "cevent \<Rightarrow> bool" where
  "crossed ev = (case (bid_price ev, ask_price ev) of (Some b, Some a) \<Rightarrow> flt a b | _ \<Rightarrow> False)"

definition quote_stage :: "bool \<Rightarrow> bool \<Rightarrow> bool \<Rightarrow> quality_engine \<times> cevent \<Rightarrow> quality_engine \<times> cevent" where
  "quote_stage bad hb ha s =
     (if \<not> bad \<and> hb \<and> ha \<and> crossed (snd s) then flag INVALID CROSSED_QUOTE s else s)"

text \<open>The corridor test: whether the price is an anomaly, its deviation and the squared scale.\<close>

definition corridor :: "quality_config \<Rightarrow> slot_state \<Rightarrow> f64 \<Rightarrow> (bool \<times> f64 \<times> f64) res" where
  "corridor cfg sl px =
     (if sl_n sl < MIN_SAMPLES_FOR_VARIANCE then Inr (False, 0, 0)
      else bindr (fdiv_nat (m2 sl) (sl_n sl)) (\<lambda>v.
        let var = (if flt v 0 then 0 else v);
            fl = fmul (price_sigma_floor_rel cfg) (fabs (mean sl));
            sd2 = (if flt (fmul fl fl) var then var else fmul fl fl);
            dev = fsub px (mean sl);
            anomaly = (if int (sl_n sl) \<ge> price_min_samples cfg
                       then flt (fmul (fmul (price_anomaly_stddev cfg) (price_anomaly_stddev cfg)) sd2) (fmul dev dev)
                       else flt 0 (fabs (mean sl)) \<and> flt (fmul WARMUP_PRICE_DEV_RATIO (fabs (mean sl))) (fabs dev))
        in Inr (anomaly, dev, sd2)))"

definition ratio_ge :: "slot_state \<Rightarrow> f64 \<Rightarrow> f64 \<Rightarrow> bool res" where
  "ratio_ge sl dev r =
     (if flt 0 (mean sl) then bindr (fdiv (fabs dev) (mean sl)) (\<lambda>x. Inr (fle r x)) else Inr False)"

definition venue_stage :: "slot_state \<Rightarrow> f64 \<Rightarrow> quality_engine \<times> cevent \<Rightarrow> (quality_engine \<times> cevent) res" where
  "venue_stage sl dev s =
     (let v = venue (snd s)
      in if v = ''XNSE''
         then bindr (ratio_ge sl dev NSE_CIRCUIT_FILTER_RATIO) (\<lambda>b. Inr (if b then flag SUSPICIOUS CIRCUIT_FILTER_BREACH s else s))
         else if v = ''XETR''
         then bindr (ratio_ge sl dev XETR_VOLATILITY_INTERRUPTION_RATIO)
                (\<lambda>b. Inr (if b then flag SUSPICIOUS VOLATILITY_INTERRUPTION s else s))
         else if v = ''XTKS'' \<or> v = ''TSE''
         then bindr (ratio_ge sl dev TSE_SPECIAL_QUOTE_RATIO)
                (\<lambda>b. Inr (if b then flag SUSPICIOUS SPECIAL_QUOTE_INDICATION s else s))
         else Inr s)"

definition anomaly_cluster :: "quality_env \<Rightarrow> quality_config \<Rightarrow> slot_state \<Rightarrow> f64 \<Rightarrow> f64 \<Rightarrow> slot_state res" where
  "anomaly_cluster env cfg sl px sd2 =
     bindr (fsqrt sd2) (\<lambda>sd.
       let band0 = fmul (price_anomaly_stddev cfg) sd;
           rel = fmul (price_reseed_band_rel cfg) (fabs px);
           band = (if flt band0 rel then rel else band0);
           tol = fmax band (fmul F_0_05 (fabs px));
           cnt = (if anom_count sl > 0 \<and> fle (fabs (fsub px (anom_last sl))) tol then anom_count sl + 1 else 1);
           sl1 = sl\<lparr>anom_count := cnt, anom_last := px\<rparr>
       in if price_reseed_after cfg > 0 \<and> cnt \<ge> price_reseed_after cfg
          then fold_price env (sl1\<lparr>sl_n := 0, head := 0, mean := 0, m2 := 0, anom_count := 0, fold_count := 0\<rparr>) px
                 (price_window cfg)
          else Inr sl1)"

definition price_stage ::
    "quality_env \<Rightarrow> quality_config \<Rightarrow> slot_state \<Rightarrow> quality_engine \<times> cevent \<Rightarrow> (slot_state \<times> quality_engine \<times> cevent) res" where
  "price_stage env cfg sl s =
     (case price (snd s) of
        None \<Rightarrow> Inr (sl, s)
      | Some px \<Rightarrow>
          if quality_status (snd s) = INVALID \<or> \<not> f_isfinite px then Inr (sl, s)
          else bindr (corridor cfg sl px) (\<lambda>(anomaly, dev, sd2).
            if anomaly
            then bindr (venue_stage sl dev (flag SUSPICIOUS PRICE_ANOMALY s)) (\<lambda>s1.
                 bindr (anomaly_cluster env cfg sl px sd2) (\<lambda>sl1. Inr (sl1, s1)))
            else bindr (fold_price env (sl\<lparr>anom_count := 0\<rparr>) px (price_window cfg)) (\<lambda>sl1. Inr (sl1, s))))"

text \<open>\<open>evaluate_user_rules\<close>: an exception in a rule is recorded and never escapes.\<close>

definition add_reason :: "cevent \<Rightarrow> string \<Rightarrow> cevent" where
  "add_reason ev r = (if r \<in> set (reasons ev) then ev else ev\<lparr>reasons := reasons ev @ [r]\<rparr>)"

definition escalate :: "cevent \<Rightarrow> quality_status \<Rightarrow> cevent" where
  "escalate ev sev =
     (if sev = INVALID then ev\<lparr>quality_status := INVALID\<rparr>
      else if sev = SUSPICIOUS \<and> quality_status ev \<noteq> INVALID then ev\<lparr>quality_status := SUSPICIOUS\<rparr>
      else ev)"

definition apply_rule :: "cevent \<Rightarrow> string \<times> quality_status \<times> (cevent \<Rightarrow> bool res) \<Rightarrow> cevent" where
  "apply_rule ev r =
     (case r of (name, sev, func) \<Rightarrow>
        (case func ev of
           Inl _ \<Rightarrow> add_reason ev ''USER_RULE_ERROR''
         | Inr violation \<Rightarrow> if violation then add_reason (escalate ev sev) name else ev))"

definition evaluate_user_rules :: "quality_env \<Rightarrow> cevent \<Rightarrow> cevent" where
  "evaluate_user_rules env ev = foldl apply_rule ev (user_rules env)"

definition finish_evaluation ::
    "quality_env \<Rightarrow> quality_config \<Rightarrow> bool \<Rightarrow> bool \<Rightarrow> bool \<Rightarrow> bool \<Rightarrow> slot_state \<Rightarrow> quality_engine \<times> cevent
      \<Rightarrow> (slot_state \<times> quality_engine \<times> cevent) res" where
  "finish_evaluation env cfg bad hb ha hp sl s =
     (let (sl1, s1) = ts_stage cfg sl s;
          s2 = quote_stage bad hb ha s1
      in bindr (if hp then price_stage env cfg sl1 s2 else Inr (sl1, s2)) (\<lambda>(sl3, s3).
           let ev = evaluate_user_rules env (snd s3)
           in Inr (sl3, count_status (fst s3) (quality_status ev), ev)))"

section \<open>Evaluation and draining\<close>

text \<open>Frame conditions: the price statistics and the sequence and timestamp state do not interfere.\<close>

definition seq_part :: "slot_state \<Rightarrow> int \<times> 64 word \<times> int \<times> bool \<times> (int, pend) dict \<times> cevent list \<times> string option \<times> int \<times> int list" where
  "seq_part sl = (last_seq sl, seen sl, cand_plus1 sl, has_seq sl, pending sl, ready sl, sl_session_id sl,
     regress_count sl, stale_seen sl)"

definition ts_part :: "slot_state \<Rightarrow> f64 \<times> bool" where
  "ts_part sl = (last_ts sl, has_ts sl)"

lemmas frame_defs = seq_part_def ts_part_def

lemma if_raise_Inr: "((if c then Inl e else x) = Inr t) = (\<not> c \<and> x = Inr t)"
  by simp

lemma fold_full_frame: "fold_full sl x w = Inr t \<Longrightarrow> seq_part t = seq_part sl \<and> ts_part t = ts_part sl"
  unfolding fold_full_def Let_def if_raise_Inr bindr_Inr frame_defs by (elim conjE exE) (drule Inr_inject, hypsubst, simp)

lemma fold_growing_frame: "fold_growing sl x w = Inr t \<Longrightarrow> seq_part t = seq_part sl \<and> ts_part t = ts_part sl"
  unfolding fold_growing_def Let_def if_raise_Inr bindr_Inr frame_defs by (elim conjE exE) (drule Inr_inject, hypsubst, simp)

lemma recenter_frame: "recenter env sl = Inr t \<Longrightarrow> seq_part t = seq_part sl \<and> ts_part t = ts_part sl"
  unfolding recenter_def bindr_Inr frame_defs by (elim conjE exE) (drule Inr_inject, hypsubst, simp)

lemma stat_updates [simp]:
  "seq_part (sl\<lparr>fold_count := a\<rparr>) = seq_part sl" "seq_part (sl\<lparr>anom_count := i\<rparr>) = seq_part sl"
  "seq_part (sl\<lparr>anom_last := f\<rparr>) = seq_part sl" "seq_part (sl\<lparr>sl_n := n\<rparr>) = seq_part sl"
  "seq_part (sl\<lparr>head := n\<rparr>) = seq_part sl" "seq_part (sl\<lparr>mean := f\<rparr>) = seq_part sl" "seq_part (sl\<lparr>m2 := f\<rparr>) = seq_part sl"
  "ts_part (sl\<lparr>fold_count := a\<rparr>) = ts_part sl" "ts_part (sl\<lparr>anom_count := i\<rparr>) = ts_part sl"
  "ts_part (sl\<lparr>anom_last := f\<rparr>) = ts_part sl" "ts_part (sl\<lparr>sl_n := n\<rparr>) = ts_part sl"
  "ts_part (sl\<lparr>head := n\<rparr>) = ts_part sl" "ts_part (sl\<lparr>mean := f\<rparr>) = ts_part sl" "ts_part (sl\<lparr>m2 := f\<rparr>) = ts_part sl"
  by (simp_all add: frame_defs)

lemma fold_price_frame:
  assumes "fold_price env sl x w = Inr t"
  shows "seq_part t = seq_part sl \<and> ts_part t = ts_part sl"
proof -
  obtain s1 where "(if sl_n sl \<ge> w then fold_full sl x w else fold_growing sl x w) = Inr s1"
    and t: "recenter env (s1\<lparr>fold_count := fold_count s1 + 1\<rparr>) = Inr t \<or> t = s1\<lparr>fold_count := fold_count s1 + 1\<rparr>"
    using assms by (auto simp: fold_price_def Let_def bindr_Inr split: if_split_asm)
  then have "seq_part s1 = seq_part sl \<and> ts_part s1 = ts_part sl"
    using fold_full_frame fold_growing_frame by (metis (full_types))
  then show ?thesis using t by (auto dest: recenter_frame)
qed

lemma anomaly_cluster_frame:
  assumes "anomaly_cluster env cfg sl px sd2 = Inr t"
  shows "seq_part t = seq_part sl \<and> ts_part t = ts_part sl"
  using assms by (auto simp: anomaly_cluster_def Let_def bindr_Inr split: if_split_asm dest!: fold_price_frame)

lemma price_stage_frame:
  assumes "price_stage env cfg sl s = Inr (t, s')"
  shows "seq_part t = seq_part sl \<and> ts_part t = ts_part sl"
  using assms
  by (auto simp: price_stage_def bindr_Inr split: if_split_asm option.split_asm
        dest!: fold_price_frame anomaly_cluster_frame)

lemma ts_stage_seq: "seq_part (fst (ts_stage cfg sl s)) = seq_part sl"
  by (simp add: ts_stage_def Let_def seq_part_def)

lemma finish_parts:
  assumes "finish_evaluation env cfg bad hb ha hp sl s = Inr (t, s')"
  shows "seq_part t = seq_part sl" and "ts_part t = ts_part (fst (ts_stage cfg sl s))"
  using assms ts_stage_seq [of cfg sl s]
  by (auto simp: finish_evaluation_def Let_def split_beta bindr_Inr split: if_split_asm dest: price_stage_frame)

lemma finish_pending:
  assumes "finish_evaluation env cfg bad hb ha hp sl s = Inr (t, s')"
  shows "pending t = pending sl" and "last_seq t = last_seq sl" and "ready t = ready sl" and "seen t = seen sl"
    and "has_seq t = has_seq sl" and "stale_seen t = stale_seen sl"
  using finish_parts(1) [OF assms] by (simp_all add: seq_part_def)

declare bindr_cong [fundef_cong]

text \<open>Releasing the held events that have become contiguous.\<close>

definition unlock_one :: "slot_state \<Rightarrow> slot_state" where
  "unlock_one sl =
     sl\<lparr>pending := ddel (pending sl) (last_seq sl + 1), last_seq := last_seq sl + 1,
        seen := or (push_bit 1 (seen sl)) 1\<rparr>"

function unlock ::
    "quality_env \<Rightarrow> quality_config \<Rightarrow> slot_state \<Rightarrow> quality_engine \<Rightarrow> (slot_state \<times> quality_engine \<times> cevent list) res" where
  "unlock env cfg sl q =
     (case dget (pending sl) (last_seq sl + 1) of
        None \<Rightarrow> Inr (sl, q, [])
      | Some (arr, ev, bad, hb, ha, hp) \<Rightarrow>
          bindr (finish_evaluation env cfg bad hb ha hp (unlock_one sl)
                   (q\<lparr>reorder_repaired_total := reorder_repaired_total q + 1\<rparr>, ev)) (\<lambda>(sl1, q1, ev1).
          bindr (unlock env cfg sl1 q1) (\<lambda>(sl2, q2, evs). Inr (sl2, q2, ev1 # evs))))"
  by pat_completeness auto
termination
proof (relation "measure (\<lambda>(env, cfg, sl, q). length (pending sl))", goal_cases)
  case (2 env cfg sl q x2 arr y ev z bad w hb v ha hp xa sl1 ya q1 ev1)
  then have "finish_evaluation env cfg bad hb ha hp (unlock_one sl)
      (q\<lparr>reorder_repaired_total := reorder_repaired_total q + 1\<rparr>, ev) = Inr (sl1, q1, ev1)" by simp
  then have "pending sl1 = pending (unlock_one sl)" by (rule finish_pending)
  then have "pending sl1 = ddel (pending sl) (last_seq sl + 1)" by (simp add: unlock_one_def)
  moreover have "length (ddel (pending sl) (last_seq sl + 1)) < length (pending sl)"
    using 2(1) map_of_SomeD [of "pending sl"] by (fastforce simp: ddel_filter intro: length_filter_less)
  ultimately show ?case by simp
qed simp

declare unlock.simps [simp del]

definition put_slot :: "quality_engine \<Rightarrow> string \<times> string \<Rightarrow> slot_state \<Rightarrow> quality_engine" where
  "put_slot q key sl = q\<lparr>slots := dset (slots q) key sl\<rparr>"

text \<open>Stages 1 and 2 of \<open>evaluate\<close>: the structural verdict, then the sequence or the duplicate check.\<close>

definition admit_seq ::
    "quality_config \<Rightarrow> f64 \<Rightarrow> slot_state \<Rightarrow> quality_engine \<times> cevent \<Rightarrow> verdict \<times> slot_state \<times> quality_engine \<times> cevent" where
  "admit_seq cfg now sl s =
     (let ev = snd s; bad = schema_bad cfg ev; s1 = (if bad then flag INVALID SCHEMA_VIOLATION s else s);
          unsequenced = (Continue, sl, if f_isfinite (exchange_timestamp ev) then unseq_stage cfg s1 else s1)
      in case sequence_number ev of
           None \<Rightarrow> unsequenced
         | Some sq \<Rightarrow> if 0 \<le> sq then seq_stage cfg now bad sq sl s1 else unsequenced)"

text \<open>The rest of \<open>evaluate\<close>: the later stages, then the held events that have become contiguous.\<close>

definition evaluate_close ::
    "quality_env \<Rightarrow> quality_config \<Rightarrow> cevent \<Rightarrow> slot_state \<Rightarrow> quality_engine \<times> cevent \<Rightarrow> (cevent option \<times> quality_engine) res" where
  "evaluate_close env cfg ev sl s =
     bindr (finish_evaluation env cfg (schema_bad cfg ev) (bid_price ev \<noteq> None) (ask_price ev \<noteq> None)
              (price ev \<noteq> None) sl s) (\<lambda>(sl3, q3, ev3).
     bindr (if flt 0 (reorder_window_s cfg) then unlock env cfg sl3 q3 else Inr (sl3, q3, []))
       (\<lambda>(sl4, q4, evs).
         Inr (Some ev3, put_slot q4 (source ev, instrument_id ev) (sl4\<lparr>ready := ready sl4 @ evs\<rparr>))))"

definition known_type :: "cevent \<Rightarrow> bool" where
  "known_type ev = (event_type ev \<in> {TRADE, QUOTE, HALT, STATUS})"

definition evaluate :: "quality_env \<Rightarrow> f64 \<Rightarrow> quality_engine \<Rightarrow> cevent \<Rightarrow> (cevent option \<times> quality_engine) res" where
  "evaluate env now q ev =
     (let key = (source ev, instrument_id ev);
          (cfg, q1) = get_cfg env q (instrument_id ev);
          (sl, q2) = get_slot q1 key (price_window cfg)
      in if \<not> known_type ev
         then let (q3, ev3) = flag INVALID SCHEMA_VIOLATION (q2, ev)
              in Inr (Some ev3, count_status q3 (quality_status ev3))
         else case admit_seq cfg now sl (q2, ev) of
                (HoldBack, sl2, q3, _) \<Rightarrow> Inr (None, put_slot q3 key sl2)
              | (ReturnNow, sl2, q3, ev3) \<Rightarrow> Inr (Some ev3, put_slot q3 key sl2)
              | (Continue, sl2, s3) \<Rightarrow> evaluate_close env cfg ev sl2 s3)"

definition expire_step :: "slot_state \<Rightarrow> int \<Rightarrow> slot_state" where
  "expire_step sl p =
     (let sl1 = sl\<lparr>pending := ddel (pending sl) p\<rparr>; jump = p - last_seq sl
      in if jump > 0 then sl1\<lparr>seen := shift_seen (seen sl) jump, last_seq := p, cand_plus1 := 0\<rparr> else sl1)"

fun expire_seqs ::
    "quality_env \<Rightarrow> quality_config \<Rightarrow> int list \<Rightarrow> slot_state \<Rightarrow> quality_engine
      \<Rightarrow> (slot_state \<times> quality_engine \<times> cevent list) res" where
  "expire_seqs env cfg [] sl q = Inr (sl, q, [])"
| "expire_seqs env cfg (p # ps) sl q =
     (case dget (pending sl) p of
        None \<Rightarrow> expire_seqs env cfg ps sl q
      | Some (arr, ev, bad, hb, ha, hp) \<Rightarrow>
          let (q1, ev1) = flag SUSPICIOUS SEQUENCE_GAP (q, ev);
              q2 = q1\<lparr>reorder_expired_total := reorder_expired_total q1 + 1\<rparr>
          in bindr (finish_evaluation env cfg bad hb ha hp (expire_step sl p) (q2, ev1)) (\<lambda>(sl3, q3, ev3).
             bindr (unlock env cfg sl3 q3) (\<lambda>(sl4, q4, evs).
             bindr (expire_seqs env cfg ps sl4 q4) (\<lambda>(sl5, q5, rest). Inr (sl5, q5, ev3 # evs @ rest)))))"

definition expired_seqs :: "quality_config \<Rightarrow> f64 \<Rightarrow> bool \<Rightarrow> slot_state \<Rightarrow> int list" where
  "expired_seqs cfg now force sl =
     [p \<leftarrow> sort (dkeys (pending sl)).
        force \<or> (case dget (pending sl) p of None \<Rightarrow> False | Some (arr, _) \<Rightarrow> fle (reorder_window_s cfg) (fsub now arr))]"

fun drain_slots ::
    "quality_env \<Rightarrow> f64 \<Rightarrow> bool \<Rightarrow> (string \<times> string) list \<Rightarrow> quality_engine \<Rightarrow> (cevent list \<times> quality_engine) res" where
  "drain_slots env now force [] q = Inr ([], q)"
| "drain_slots env now force (key # keys) q =
     (case dget (slots q) key of
        None \<Rightarrow> drain_slots env now force keys q
      | Some sl \<Rightarrow>
          let (cfg, q1) = get_cfg env q (snd key)
          in bindr (expire_seqs env cfg (expired_seqs cfg now force sl) (sl\<lparr>ready := []\<rparr>) q1) (\<lambda>(sl2, q2, evs).
             bindr (drain_slots env now force keys (put_slot q2 key sl2)) (\<lambda>(rest, q3).
               Inr (ready sl @ evs @ rest, q3))))"

definition quality_drain_expired :: "quality_env \<Rightarrow> f64 \<Rightarrow> bool \<Rightarrow> quality_engine \<Rightarrow> (cevent list \<times> quality_engine) res" where
  "quality_drain_expired env now force q = drain_slots env now force (dkeys (slots q)) q"

end
