(* ===== verification/Quality_Props.thy ===== *)
theory Quality_Props
  imports Quality "HOL-Library.Multiset" "HOL-Library.Sublist"
begin

text \<open>
  Properties of the quality engine of \<open>quality.py\<close>: which events are flagged as duplicates, that verdicts
  are only ever escalated and always explained, what VALID guarantees, what becomes of held events, and the
  memory of the cache for unsequenced events.
\<close>

section \<open>Escalation\<close>

text \<open>An event may only gain severity and reasons; everything else in it stays.\<close>

definition payload :: "cevent \<Rightarrow> cevent" where
  "payload ev = ev\<lparr>quality_status := VALID, reasons := []\<rparr>"

definition extends :: "cevent \<Rightarrow> cevent \<Rightarrow> bool" where
  "extends ev ev' =
     (quality_status ev \<le> quality_status ev' \<and> prefix (reasons ev) (reasons ev') \<and> payload ev' = payload ev)"

lemma extends_refl [simp]: "extends ev ev"
  by (simp add: extends_def)

lemma extends_trans: "extends a b \<Longrightarrow> extends b c \<Longrightarrow> extends a c"
  by (auto simp: extends_def intro: prefix_order.trans)

lemma payload_updates [simp]: "payload (ev\<lparr>quality_status := st\<rparr>) = payload ev" "payload (ev\<lparr>reasons := rs\<rparr>) = payload ev"
  by (simp_all add: payload_def)

lemma extends_mark: "extends ev (mark ev st r)"
  by (simp add: extends_def mark_def less_imp_le)

lemma flag_extends: "extends ev (snd s) \<Longrightarrow> extends ev (snd (flag st r s))"
  unfolding flag_def snd_conv by (rule extends_trans [OF _ extends_mark])

lemma payload_fields:
  assumes "payload ev' = payload ev"
  shows "event_id ev' = event_id ev" "instrument_id ev' = instrument_id ev" "source ev' = source ev"
    "event_type ev' = event_type ev" "exchange_timestamp ev' = exchange_timestamp ev"
    "receive_timestamp ev' = receive_timestamp ev" "sequence_number ev' = sequence_number ev" "price ev' = price ev"
    "bid_price ev' = bid_price ev" "ask_price ev' = ask_price ev" "session_id ev' = session_id ev" "venue ev' = venue ev"
  using arg_cong [OF assms, of event_id] arg_cong [OF assms, of instrument_id] arg_cong [OF assms, of source]
    arg_cong [OF assms, of event_type] arg_cong [OF assms, of exchange_timestamp] arg_cong [OF assms, of receive_timestamp]
    arg_cong [OF assms, of sequence_number] arg_cong [OF assms, of price] arg_cong [OF assms, of bid_price]
    arg_cong [OF assms, of ask_price] arg_cong [OF assms, of session_id] arg_cong [OF assms, of venue]
  by (simp_all add: payload_def)

lemma extends_fields: "extends ev ev' \<Longrightarrow> event_id ev' = event_id ev"
  unfolding extends_def by (elim conjE) (rule payload_fields)

text \<open>Every stage only escalates.\<close>

lemma seq_forward_extends: "extends (snd s) (snd (snd (snd (seq_forward cfg now bad sq sl s))))"
  unfolding seq_forward_def Let_def if_distrib [of snd] snd_conv by (auto intro!: flag_extends simp only: extends_refl split: if_split)

lemma seq_backward_extends: "extends (snd s) (snd (snd (snd (seq_backward cfg sq sl s))))"
  unfolding seq_backward_def Let_def if_distrib [of snd] snd_conv by (auto intro!: flag_extends simp only: extends_refl split: if_split)

lemma seq_stage_extends: "extends (snd s) (snd (snd (snd (seq_stage cfg now bad sq sl s))))"
  using extends_trans [OF flag_extends [OF extends_refl] seq_forward_extends]
    extends_trans [OF flag_extends [OF extends_refl] seq_backward_extends]
  by (auto simp: seq_stage_def Let_def flag_extends seq_forward_extends seq_backward_extends)

lemma unseq_stage_extends: "extends (snd s) (snd (unseq_stage cfg s))"
  by (simp add: unseq_stage_def Let_def split_beta flag_extends)

lemma ts_stage_extends: "extends (snd s) (snd (snd (ts_stage cfg sl s)))"
  by (simp add: ts_stage_def Let_def flag_extends)

lemma quote_stage_extends: "extends (snd s) (snd (quote_stage bad hb ha s))"
  by (simp add: quote_stage_def flag_extends)

lemma venue_stage_extends: "venue_stage sl dev s = Inr s' \<Longrightarrow> extends (snd s) (snd s')"
  by (auto simp: venue_stage_def Let_def bindr_Inr flag_extends split: if_split_asm)

lemma price_stage_extends:
  assumes "price_stage env cfg sl s = Inr (sl', s')" shows "extends (snd s) (snd s')"
proof -
  have "venue_stage sl dev (flag SUSPICIOUS PRICE_ANOMALY s) = Inr t \<Longrightarrow> extends (snd s) (snd t)" for dev t
    using venue_stage_extends extends_trans flag_extends [OF extends_refl] by blast
  note v = this [of _ s']
  show ?thesis using assms v
    by (auto simp: price_stage_def bindr_Inr split: if_split_asm option.split_asm)
qed

lemma add_reason_extends: "extends ev (add_reason ev r)"
  by (simp add: add_reason_def extends_def)

lemma escalate_extends: "extends ev (escalate ev sev)"
  by (cases "quality_status ev") (auto simp: escalate_def extends_def)

lemma apply_rule_extends: "extends ev (apply_rule ev r)"
  using add_reason_extends escalate_extends extends_trans
  by (cases r) (auto simp: apply_rule_def split: sum.split, blast)

lemma user_rules_extends: "extends ev (evaluate_user_rules env ev)"
proof -
  have "extends ev (foldl apply_rule ev rs)" for rs
    by (induction rs arbitrary: ev) (auto intro: extends_trans apply_rule_extends)
  then show ?thesis by (simp add: evaluate_user_rules_def)
qed

lemma finish_extends:
  assumes "finish_evaluation env cfg bad hb ha hp sl s = Inr (sl', q', ev')"
  shows "extends (snd s) ev'"
proof -
  obtain sl1 s1 where t: "ts_stage cfg sl s = (sl1, s1)" by (rule prod.exhaust)
  then have t': "extends (snd s) (snd s1)" using ts_stage_extends [of s cfg sl] by simp
  let ?s2 = "quote_stage bad hb ha s1"
  obtain sl3 s3 where p: "(if hp then price_stage env cfg sl1 ?s2 else Inr (sl1, ?s2)) = Inr (sl3, s3)"
    and ev': "ev' = evaluate_user_rules env (snd s3)"
    using assms unfolding finish_evaluation_def t by (auto simp: Let_def bindr_Inr)
  have "extends (snd ?s2) (snd s3)" using p price_stage_extends by (cases hp) auto
  then show ?thesis unfolding ev'
    using t' quote_stage_extends user_rules_extends extends_trans by metis
qed

lemma admit_extends: "extends (snd s) (snd (snd (snd (admit_seq cfg now sl s))))"
proof -
  let ?b = "schema_bad cfg (snd s)"
  define s1 where "s1 = (if ?b then flag INVALID SCHEMA_VIOLATION s else s)"
  have s1: "extends (snd s) (snd s1)" by (auto simp: s1_def intro: flag_extends)
  have "extends (snd s) (snd (snd (snd (seq_stage cfg now ?b sq sl s1))))" for sq
    using extends_trans [OF s1 seq_stage_extends] .
  moreover have "extends (snd s) (snd (unseq_stage cfg s1))" using extends_trans [OF s1 unseq_stage_extends] .
  ultimately show ?thesis using s1
    unfolding admit_seq_def Let_def s1_def [symmetric] by (simp split: option.split)
qed

text \<open>The four ways an evaluation goes.\<close>

lemma evaluate_cases:
  assumes "evaluate env now q ev = Inr (out, q')"
    and "get_cfg env q (instrument_id ev) = (cfg, q1)"
    and "get_slot q1 (source ev, instrument_id ev) (price_window cfg) = (sl, q2)"
  obtains
    (other) "\<not> known_type ev" "out = Some (mark ev INVALID SCHEMA_VIOLATION)"
      "q' = count_status (bump q2 SCHEMA_VIOLATION) INVALID"
  | (held) sl2 q3 ev3 where "known_type ev"
      "admit_seq cfg now sl (q2, ev) = (HoldBack, sl2, q3, ev3)"
      "out = None" "q' = put_slot q3 (source ev, instrument_id ev) sl2"
  | (early) sl2 q3 ev3 where "known_type ev"
      "admit_seq cfg now sl (q2, ev) = (ReturnNow, sl2, q3, ev3)"
      "out = Some ev3" "q' = put_slot q3 (source ev, instrument_id ev) sl2"
  | (through) sl2 s2 sl3 q3 ev3 sl4 q4 evs where "known_type ev"
      "admit_seq cfg now sl (q2, ev) = (Continue, sl2, s2)"
      "finish_evaluation env cfg (schema_bad cfg ev) (bid_price ev \<noteq> None) (ask_price ev \<noteq> None)
         (price ev \<noteq> None) sl2 s2 = Inr (sl3, q3, ev3)"
      "(if flt 0 (reorder_window_s cfg) then unlock env cfg sl3 q3 else Inr (sl3, q3, [])) = Inr (sl4, q4, evs)"
      "out = Some ev3" "q' = put_slot q4 (source ev, instrument_id ev) (sl4\<lparr>ready := ready sl4 @ evs\<rparr>)"
proof (cases "known_type ev")
  case False
  have "quality_status (mark ev INVALID SCHEMA_VIOLATION) = INVALID"
    by (cases "quality_status ev") (simp_all add: mark_def)
  then show ?thesis using assms False other by (simp add: evaluate_def Let_def flag_def)
next
  case True
  obtain v sl2 s2 where a: "admit_seq cfg now sl (q2, ev) = (v, sl2, s2)" by (metis prod.exhaust)
  show ?thesis
  proof (cases v)
    case Continue
    then have "evaluate_close env cfg ev sl2 s2 = Inr (out, q')" using assms True a by (simp add: evaluate_def Let_def)
    then show ?thesis using that(4) [OF True a [unfolded Continue]]
      unfolding evaluate_close_def bindr_Inr3 by (elim exE conjE) (drule Inr_inject, simp)
  next
    case HoldBack
    then show ?thesis using assms True a that(2) by (cases s2) (simp add: evaluate_def Let_def)
  next
    case ReturnNow
    then show ?thesis using assms True a that(3) by (cases s2) (simp add: evaluate_def Let_def)
  qed
qed

lemma evaluate_extends:
  assumes "evaluate env now q ev = Inr (Some ev', q')"
  shows "extends ev ev'"
proof -
  obtain cfg q1 where c: "get_cfg env q (instrument_id ev) = (cfg, q1)" by (rule prod.exhaust)
  obtain sl q2 where g: "get_slot q1 (source ev, instrument_id ev) (price_window cfg) = (sl, q2)" by (rule prod.exhaust)
  note ae = admit_extends [of "(q2, ev)" cfg now sl]
  from assms c g show ?thesis
  proof (cases rule: evaluate_cases)
    case other
    then show ?thesis by (simp add: extends_mark)
  next
    case (early sl2 q3 ev3)
    then show ?thesis using ae by simp
  next
    case (through sl2 s2 sl3 q3 ev3 sl4 q4 evs)
    then show ?thesis using ae extends_trans finish_extends [OF through(3)] by simp
  qed simp
qed

text \<open>C39: a verdict is only ever escalated.  Whatever the engine's state, an event that comes back from
  \<open>evaluate\<close> has at least the severity it came with, its reasons begin with the reasons it came with, and no
  other field has changed.\<close>

theorem verdicts_only_escalate:
  "evaluate env now q ev = Inr (Some ev', q') \<Longrightarrow>
     quality_status ev \<le> quality_status ev' \<and> prefix (reasons ev) (reasons ev') \<and> payload ev' = payload ev"
  using evaluate_extends [of env now q ev ev' q'] unfolding extends_def .

section \<open>What VALID guarantees\<close>

lemma extends_valid: "extends a b \<Longrightarrow> quality_status b = VALID \<Longrightarrow> quality_status a = VALID"
  by (cases "quality_status a") (auto simp: extends_def)

lemma flag_not_valid: "st \<noteq> VALID \<Longrightarrow> quality_status (snd (flag st r s)) \<noteq> VALID"
  by (cases "quality_status (snd s)"; cases st) (auto simp: flag_def mark_def)

lemmas flag_valid_False = flag_not_valid [of SUSPICIOUS, simplified] flag_not_valid [of INVALID, simplified]

definition in_time :: "quality_config \<Rightarrow> slot_state \<Rightarrow> cevent \<Rightarrow> bool" where
  "in_time cfg sl ev =
     (let ex = exchange_timestamp ev; rc = receive_timestamp ev
      in fle ex (fadd rc (max_future_skew_s cfg)) \<and> \<not> (has_ts sl \<and> flt ex (last_ts sl))
         \<and> (event_type ev \<in> {HALT, STATUS} \<or> \<not> flt (staleness_threshold_s cfg) (fsub rc ex)))"

lemma ts_stage_valid:
  assumes "quality_status (snd (snd (ts_stage cfg sl s))) = VALID"
    and "f_isfinite (exchange_timestamp (snd s))" and "f_isfinite (receive_timestamp (snd s))"
  shows "in_time cfg sl (snd s)"
  using assms unfolding ts_stage_def Let_def in_time_def
  by (auto simp: flag_valid_False split: if_split_asm)

lemma quote_stage_valid:
  "quality_status (snd (quote_stage bad hb ha s)) = VALID \<Longrightarrow> \<not> bad \<Longrightarrow> hb \<Longrightarrow> ha \<Longrightarrow> \<not> crossed (snd s)"
  by (auto simp: quote_stage_def flag_valid_False split: if_split_asm)

lemma seq_backward_valid: "quality_status (snd (snd (snd (seq_backward cfg sq sl s)))) \<noteq> VALID"
  unfolding seq_backward_def Let_def by (simp add: flag_valid_False)

lemma seq_forward_valid:
  assumes "seq_forward cfg now bad sq sl s = (v, t, s')" and "v \<noteq> HoldBack" and "last_seq sl < sq"
    and "quality_status (snd s') = VALID"
  shows "sq = last_seq sl + 1"
  using assms unfolding seq_forward_def Let_def
  by (auto simp: flag_valid_False split: if_split_asm)

lemma clear_epoch_simps [simp]: "has_seq (clear_epoch sl) = False" "ts_part (clear_epoch sl) = ts_part sl"
  by (simp_all add: clear_epoch_def ts_part_def)

lemma note_session_simps [simp]:
  "has_seq (note_session ev sl) = has_seq sl" "last_seq (note_session ev sl) = last_seq sl"
  "seen (note_session ev sl) = seen sl" "pending (note_session ev sl) = pending sl"
  "ts_part (note_session ev sl) = ts_part sl" "stale_seen (note_session ev sl) = stale_seen sl"
  by (simp_all add: note_session_def ts_part_def split: option.split)

lemma seq_stage_strict:
  "\<not> epoch_reset_due cfg sl (snd s) sq \<Longrightarrow> seq_stage cfg now bad sq sl s =
     (let t = note_session (snd s) sl
      in if \<not> has_seq sl then (Continue, t\<lparr>last_seq := sq, seen := 1, has_seq := True\<rparr>, s)
         else if last_seq sl < sq then seq_forward cfg now bad sq t s else seq_backward cfg sq t s)"
  unfolding seq_stage_def Let_def by (simp cong: if_cong)

lemma seq_stage_valid:
  assumes "seq_stage cfg now bad sq sl s = (v, t, s')" and "v \<noteq> HoldBack" and "quality_status (snd s') = VALID"
    and "has_seq sl"
  shows "epoch_reset_due cfg sl (snd s) sq \<or> sq = last_seq sl + 1"
proof (rule disjCI)
  assume n: "sq \<noteq> last_seq sl + 1"
  let ?t = "note_session (snd s) sl"
  have t: "last_seq ?t = last_seq sl" "has_seq ?t" using assms(4) by simp_all
  show "epoch_reset_due cfg sl (snd s) sq"
  proof (rule ccontr)
    assume "\<not> epoch_reset_due cfg sl (snd s) sq"
    then have "(v, t, s') = (if last_seq sl < sq then seq_forward cfg now bad sq ?t s else seq_backward cfg sq ?t s)"
      using assms(1,4) seq_stage_strict by (simp add: Let_def)
    then show False
      using assms(2,3) n t seq_forward_valid [of cfg now bad sq ?t s v t s'] seq_backward_valid [of cfg sq ?t s]
      by (auto split: if_split_asm dest: arg_cong [where f = "\<lambda>x. quality_status (snd (snd (snd x)))"])
  qed
qed

lemma seq_forward_ts: "ts_part (fst (snd (seq_forward cfg now bad sq sl s))) = ts_part sl"
  unfolding seq_forward_def Let_def by (simp add: ts_part_def)

lemma seq_backward_ts: "ts_part (fst (snd (seq_backward cfg sq sl s))) = ts_part sl"
  unfolding seq_backward_def Let_def by (simp add: ts_part_def)

lemma start_seq_ts: "ts_part (t\<lparr>last_seq := a, seen := b, has_seq := c\<rparr>) = ts_part t"
  by (simp add: ts_part_def)

lemma seq_stage_ts: "ts_part (fst (snd (seq_stage cfg now bad sq sl s))) = ts_part sl"
  unfolding seq_stage_def Let_def by (simp add: seq_forward_ts seq_backward_ts start_seq_ts)

lemma admit_ts: "ts_part (fst (snd (admit_seq cfg now sl s))) = ts_part sl"
  unfolding admit_seq_def Let_def by (simp add: seq_stage_ts split: option.split)

lemma admit_valid:
  assumes "admit_seq cfg now sl s = (v, t, s')" and "v \<noteq> HoldBack" and "quality_status (snd s') = VALID"
  shows "\<not> schema_bad cfg (snd s)"
    and "sequence_number (snd s) = Some sq \<Longrightarrow> 0 \<le> sq \<Longrightarrow> has_seq sl \<Longrightarrow>
      epoch_reset_due cfg sl (snd s) sq \<or> sq = last_seq sl + 1"
proof -
  define s1 where "s1 = (if schema_bad cfg (snd s) then flag INVALID SCHEMA_VIOLATION s else s)"
  have a: "admit_seq cfg now sl s = (case sequence_number (snd s) of
      None \<Rightarrow> (Continue, sl, if f_isfinite (exchange_timestamp (snd s)) then unseq_stage cfg s1 else s1)
    | Some sq \<Rightarrow> if 0 \<le> sq then seq_stage cfg now (schema_bad cfg (snd s)) sq sl s1
        else (Continue, sl, if f_isfinite (exchange_timestamp (snd s)) then unseq_stage cfg s1 else s1))"
    unfolding admit_seq_def Let_def s1_def ..
  have "extends (snd s1) (snd s')"
    using assms(1) a unseq_stage_extends [of s1 cfg] seq_stage_extends [of s1 cfg now "schema_bad cfg (snd s)" "the (sequence_number (snd s))" sl]
    by (cases "sequence_number (snd s)") (auto split: if_split_asm)
  then have "quality_status (snd s1) = VALID" using assms(3) extends_valid by blast
  then show n: "\<not> schema_bad cfg (snd s)" by (auto simp: s1_def flag_valid_False)
  show "sequence_number (snd s) = Some sq \<Longrightarrow> 0 \<le> sq \<Longrightarrow> has_seq sl \<Longrightarrow>
      epoch_reset_due cfg sl (snd s) sq \<or> sq = last_seq sl + 1"
    using assms a n seq_stage_valid [of cfg now False sq sl s v t s'] by (simp add: s1_def)
qed

lemma price_tail_extends:
  "(if hp then price_stage env cfg sl s else Inr (sl, s)) = Inr (sl', s') \<Longrightarrow> extends (snd s) (snd s')"
  by (cases hp) (auto dest: price_stage_extends)

lemma finish_valid:
  assumes "finish_evaluation env cfg False hb ha hp sl s = Inr (sl', q', ev')" and "quality_status ev' = VALID"
    and "f_isfinite (exchange_timestamp (snd s))" and "f_isfinite (receive_timestamp (snd s))"
    and "hb = (bid_price (snd s) \<noteq> None)" and "ha = (ask_price (snd s) \<noteq> None)"
  shows "in_time cfg sl (snd s)" and "\<not> crossed (snd s)"
proof -
  obtain sl1 s1 where t: "ts_stage cfg sl s = (sl1, s1)" by (rule prod.exhaust)
  let ?s2 = "quote_stage False hb ha s1"
  obtain sl3 s3 where p: "(if hp then price_stage env cfg sl1 ?s2 else Inr (sl1, ?s2)) = Inr (sl3, s3)"
    and ev': "ev' = evaluate_user_rules env (snd s3)"
    using assms(1) unfolding finish_evaluation_def t by (auto simp: Let_def bindr_Inr)
  have "quality_status (snd s3) = VALID" using assms(2) ev' user_rules_extends extends_valid by metis
  then have v2: "quality_status (snd ?s2) = VALID" using price_tail_extends [OF p] extends_valid by blast
  then have v1: "quality_status (snd s1) = VALID" using quote_stage_extends [of s1] extends_valid by blast
  then show "in_time cfg sl (snd s)" using ts_stage_valid [of cfg sl s] assms(3,4) t by simp
  have pay: "payload (snd s1) = payload (snd s)" using ts_stage_extends [of s cfg sl] t by (simp add: extends_def)
  have "crossed (snd s1) = crossed (snd s)" by (simp only: crossed_def payload_fields [OF pay])
  moreover have "\<not> crossed (snd s1) \<or> \<not> hb \<or> \<not> ha" using quote_stage_valid [OF v2] by blast
  ultimately show "\<not> crossed (snd s)" using assms(5,6) by (auto simp: crossed_def split: option.split)
qed

lemma schema_ok_finite:
  "\<not> schema_bad cfg ev \<Longrightarrow> f_isfinite (exchange_timestamp ev) \<and> f_isfinite (receive_timestamp ev)"
  by (simp add: schema_bad_def Let_def)

lemma in_time_cong:
  "ts_part sl = ts_part sl' \<Longrightarrow> payload ev = payload ev' \<Longrightarrow> in_time cfg sl ev = in_time cfg sl' ev'"
  by (simp add: in_time_def ts_part_def payload_fields [of ev ev'])

lemma valid_is_clean:
  assumes "evaluate env now q ev = Inr (Some ev', q')" and "quality_status ev' = VALID"
    and "get_cfg env q (instrument_id ev) = (cfg, q1)"
    and "get_slot q1 (source ev, instrument_id ev) (price_window cfg) = (sl, q2)"
  shows "known_type ev \<and> \<not> schema_bad cfg ev \<and> \<not> crossed ev \<and> in_time cfg sl ev
     \<and> (\<forall>sq. sequence_number ev = Some sq \<longrightarrow> 0 \<le> sq \<longrightarrow> has_seq sl \<longrightarrow>
          epoch_reset_due cfg sl ev sq \<or> sq = last_seq sl + 1)"
  using assms(1,3,4)
proof (cases rule: evaluate_cases)
  case other
  then show ?thesis using assms(2) by (cases "quality_status ev") (simp_all add: mark_def)
next
  case (held sl2 q3 ev3)
  then show ?thesis by simp
next
  case (early sl2 q3 ev3)
  have ex: "\<exists>sq. sequence_number ev = Some sq \<and> 0 \<le> sq" using early(2)
    unfolding admit_seq_def Let_def by (auto split: option.split_asm if_split_asm)
  have "admit_seq cfg now sl (q2, ev) = (ReturnNow, sl2, q3, ev3) \<Longrightarrow> quality_status ev3 \<noteq> VALID"
  proof -
    assume a: "admit_seq cfg now sl (q2, ev) = (ReturnNow, sl2, q3, ev3)"
    obtain sq s1 bad where st: "seq_stage cfg now bad sq sl s1 = (ReturnNow, sl2, q3, ev3)"
      using a ex unfolding admit_seq_def Let_def by (auto split: option.split_asm if_split_asm)
    have "v \<noteq> ReturnNow" if "seq_forward cfg now bad sq t s2 = (v, t', s')" for t s2 v t' s'
      using that unfolding seq_forward_def Let_def by (auto split: if_split_asm)
    then show ?thesis using st seq_backward_valid unfolding seq_stage_def Let_def
      by (metis (no_types, lifting) prod.inject snd_conv verdict.distinct(3))
  qed
  then show ?thesis using early assms(2) by simp
next
  case (through sl2 s2 sl3 q3 ev3 sl4 q4 evs)
  have e: "extends ev (snd s2)" using admit_extends [of "(q2, ev)" cfg now sl] through(2) by simp
  then have pay: "payload (snd s2) = payload ev" by (simp add: extends_def)
  have v3: "quality_status ev3 = VALID" using through(5) assms(2) by simp
  then have v2: "quality_status (snd s2) = VALID" using finish_extends [OF through(3)] extends_valid by blast
  note av = admit_valid [OF through(2) _ v2, simplified]
  note fin = schema_ok_finite [OF av(1)]
  have f: "finish_evaluation env cfg False (bid_price (snd s2) \<noteq> None) (ask_price (snd s2) \<noteq> None)
      (price ev \<noteq> None) sl2 s2 = Inr (sl3, q3, ev3)"
    using through(3) av(1) by (simp add: payload_fields [OF pay])
  have ts: "ts_part sl2 = ts_part sl" using admit_ts [of cfg now sl "(q2, ev)"] through(2) by simp
  have "in_time cfg sl2 (snd s2)" "\<not> crossed (snd s2)"
    using finish_valid [OF f v3 _ _ refl refl] fin by (simp_all add: payload_fields [OF pay])
  then have "in_time cfg sl ev" "\<not> crossed ev"
    using in_time_cong [OF ts pay] by (simp_all add: crossed_def payload_fields [OF pay])
  then show ?thesis using through(1) av by blast
qed

text \<open>
  The specification of a clean event, written without the code's own tests: a number that may be missing is finite and, unless
  negative values are allowed, not below zero.
\<close>

definition admissible :: "bool \<Rightarrow> f64 option \<Rightarrow> bool" where
  "admissible negative_ok v = (case v of None \<Rightarrow> True | Some x \<Rightarrow> f_isfinite x \<and> (negative_ok \<or> 0 \<le> f_val x))"

text \<open>
  When a feed may restart its numbering: the event says so, or the session policy of the instrument recognises a restart, by
  a changed session marker or by a large regression at least a minute later.
\<close>

definition restart_allowed :: "quality_config \<Rightarrow> slot_state \<Rightarrow> cevent \<Rightarrow> int \<Rightarrow> bool" where
  "restart_allowed cfg sl ev sq =
     (''EPOCH_RESET'' \<in> set (reasons ev)
      \<or> (session_policy cfg = ''session_marker''
         \<and> (\<exists>new \<in> set_option (session_id ev). \<exists>old \<in> set_option (sl_session_id sl). new \<noteq> old))
      \<or> (session_policy cfg = ''auto_detect'' \<and> has_ts sl \<and> (sq + 50 \<le> last_seq sl \<or> sq \<le> 10 \<and> 10 < last_seq sl)
         \<and> fle 0x404E000000000000 (fsub (exchange_timestamp ev) (last_ts sl))))"

lemma restart_allowed_iff: "has_seq sl \<Longrightarrow> epoch_reset_due cfg sl ev sq \<longleftrightarrow> restart_allowed cfg sl ev sq"
  by (cases "session_id ev"; cases "sl_session_id sl") (auto simp: epoch_reset_due_def restart_allowed_def F_60_def)

lemma zero_val: "f_isfinite 0" "f_val 0 = 0"
  by (simp_all add: f_isfinite_def f_val_def f_mag_def inf_mag_def)

lemma flt_zero_iff: "f_isfinite x \<Longrightarrow> flt x 0 \<longleftrightarrow> f_val x < 0"
  by (simp add: flt_val zero_val)

lemma not_opt_bad: "\<not> opt_bad v n \<longleftrightarrow> admissible n v"
  by (auto simp: opt_bad_def num_bad_def admissible_def flt_zero_iff split: option.split)

lemma schema_ok:
  assumes "\<not> schema_bad cfg ev"
  shows "(event_type ev = TRADE \<longrightarrow> price ev \<noteq> None)" and "(event_type ev = QUOTE \<longrightarrow> bid_price ev \<noteq> None \<or> ask_price ev \<noteq> None)"
    and "admissible (allow_negative cfg) (price ev)" and "admissible (allow_negative cfg) (bid_price ev)"
    and "admissible (allow_negative cfg) (ask_price ev)" and "admissible False (quantity ev)"
    and "admissible False (bid_size ev)" and "admissible False (ask_size ev)"
    and "f_isfinite (exchange_timestamp ev)" and "f_isfinite (receive_timestamp ev)"
  using assms by (auto simp: schema_bad_def Let_def not_opt_bad split: if_splits)

lemma not_crossed: "\<not> crossed ev \<Longrightarrow> bid_price ev = Some b \<Longrightarrow> ask_price ev = Some a \<Longrightarrow> \<not> flt a b"
  by (simp add: crossed_def)

text \<open>C13: what VALID means.  When \<open>evaluate\<close> returns an event as VALID, then it is a trade, a quote, a halt or a status; a
  trade has a price and a quote a side; the prices and both timestamps are finite, prices are not negative unless the instrument allows it,
  and quantity and sizes are finite and not negative; the bid is not above the ask; the exchange time is not ahead of the
  receive time by more than the permitted skew, not behind the newest plausible time of the feed, and not older than the
  staleness threshold (halts and status messages excepted); and a sequenced event of a feed that already has a sequence number
  follows directly on the last one, unless it begins a new epoch of the feed as the session policy allows.\<close>

theorem valid_means_clean:
  assumes "evaluate env now q ev = Inr (Some ev', q')" and "quality_status ev' = VALID"
    and "get_cfg env q (instrument_id ev) = (cfg, q1)"
    and "get_slot q1 (source ev, instrument_id ev) (price_window cfg) = (sl, q2)"
  shows "event_type ev \<in> {TRADE, QUOTE, HALT, STATUS}
     \<and> (event_type ev = TRADE \<longrightarrow> price ev \<noteq> None) \<and> (event_type ev = QUOTE \<longrightarrow> bid_price ev \<noteq> None \<or> ask_price ev \<noteq> None)
     \<and> admissible (allow_negative cfg) (price ev) \<and> admissible (allow_negative cfg) (bid_price ev)
     \<and> admissible (allow_negative cfg) (ask_price ev) \<and> admissible False (quantity ev)
     \<and> admissible False (bid_size ev) \<and> admissible False (ask_size ev)
     \<and> f_isfinite (exchange_timestamp ev) \<and> f_isfinite (receive_timestamp ev)
     \<and> (\<forall>b a. bid_price ev = Some b \<and> ask_price ev = Some a \<longrightarrow> \<not> flt a b)
     \<and> fle (exchange_timestamp ev) (fadd (receive_timestamp ev) (max_future_skew_s cfg))
     \<and> \<not> (has_ts sl \<and> flt (exchange_timestamp ev) (last_ts sl))
     \<and> (event_type ev \<in> {HALT, STATUS} \<or> \<not> flt (staleness_threshold_s cfg) (fsub (receive_timestamp ev) (exchange_timestamp ev)))
     \<and> (\<forall>sq. sequence_number ev = Some sq \<longrightarrow> 0 \<le> sq \<longrightarrow> has_seq sl \<longrightarrow> restart_allowed cfg sl ev sq \<or> sq = last_seq sl + 1)"
proof -
  have clean: "known_type ev" "\<not> schema_bad cfg ev" "\<not> crossed ev" "in_time cfg sl ev"
    "\<And>sq. sequence_number ev = Some sq \<Longrightarrow> 0 \<le> sq \<Longrightarrow> has_seq sl \<Longrightarrow> epoch_reset_due cfg sl ev sq \<or> sq = last_seq sl + 1"
    using valid_is_clean [OF assms] by blast+
  show ?thesis using clean(1) schema_ok [OF clean(2)] not_crossed [OF clean(3)] clean(4) clean(5) restart_allowed_iff
    unfolding known_type_def in_time_def Let_def by blast
qed

section \<open>A concrete engine\<close>

definition demo_cfg :: quality_config where
  "demo_cfg = \<lparr>staleness_threshold_s = 0x3FA999999999999A, price_anomaly_stddev = 0x4018000000000000, price_window = 50,
     price_min_samples = 20, price_reseed_after = 8, price_sigma_floor_rel = 0x3F2A36E2EB1C432D,
     price_reseed_band_rel = 0x3F847AE147AE147B, max_future_skew_s = 0x3FF0000000000000, seq_jump_limit = 16777216,
     allow_negative = False, unseq_dup_status = ''SUSPICIOUS'', reorder_window_s = 0, reorder_max_slots = 32,
     session_policy = ''strict''\<rparr>"

definition demo_env :: quality_env where
  "demo_env = \<lparr>for_instrument = (\<lambda>_. demo_cfg), user_rules = [], py_sum = fsum\<rparr>"

definition demo_quote :: "int \<Rightarrow> cevent" where
  "demo_quote sq = \<lparr>event_id = ''e'', instrument_id = ''AAPL'', event_type = QUOTE, exchange_timestamp = 0,
     receive_timestamp = 0, source = ''A'', sequence_number = Some sq, price = None, quantity = None,
     bid_price = Some 0x3FF0000000000000, bid_size = None, ask_price = Some 0x4000000000000000, ask_size = None,
     quality_status = VALID, reasons = [], session_id = None, venue = ''XNAS''\<rparr>"

definition verdict_of :: "(cevent option \<times> quality_engine) res \<Rightarrow> (quality_status \<times> string list) option res" where
  "verdict_of r = map_sum id (\<lambda>(out, q). map_option (\<lambda>e. (quality_status e, reasons e)) out) r"

lemma demo_verdict: "verdict_of (evaluate demo_env 0 (quality_init 200) (demo_quote 7)) = Inr (Some (VALID, []))"
  by code_simp

lemma verdict_ofD:
  "verdict_of r = Inr (Some (st, rs)) \<Longrightarrow> \<exists>e q. r = Inr (Some e, q) \<and> quality_status e = st \<and> reasons e = rs"
  by (cases r) (auto simp: verdict_of_def)

theorem verdicts_only_escalate_witness:
  "\<exists>e q. evaluate demo_env 0 (quality_init 200) (demo_quote 7) = Inr (Some e, q)
     \<and> VALID \<le> quality_status e \<and> prefix [] (reasons e) \<and> payload e = payload (demo_quote 7)"
  using verdict_ofD [OF demo_verdict] verdicts_only_escalate [of demo_env 0 "quality_init 200" "demo_quote 7"]
  by (auto simp: demo_quote_def)

theorem valid_means_clean_witness:
  "\<exists>e q. evaluate demo_env 0 (quality_init 200) (demo_quote 7) = Inr (Some e, q) \<and> quality_status e = VALID
     \<and> admissible False (bid_price (demo_quote 7)) \<and> admissible False (ask_size (demo_quote 7))
     \<and> \<not> flt (the (ask_price (demo_quote 7))) (the (bid_price (demo_quote 7)))
     \<and> fle (exchange_timestamp (demo_quote 7)) (fadd (receive_timestamp (demo_quote 7)) (max_future_skew_s demo_cfg))"
proof -
  obtain e q where e: "evaluate demo_env 0 (quality_init 200) (demo_quote 7) = Inr (Some e, q)" "quality_status e = VALID"
    using verdict_ofD [OF demo_verdict] by auto
  have c: "get_cfg demo_env (quality_init 200) (instrument_id (demo_quote 7))
      = (demo_cfg, (quality_init 200)\<lparr>cfg_cache := [(''AAPL'', demo_cfg)]\<rparr>)"
    by (simp add: get_cfg_def quality_init_def demo_env_def demo_quote_def)
  obtain q2 where g: "get_slot ((quality_init 200)\<lparr>cfg_cache := [(''AAPL'', demo_cfg)]\<rparr>)
      (source (demo_quote 7), instrument_id (demo_quote 7)) (price_window demo_cfg) = (slot_init 50, q2)"
    by (simp add: get_slot_def quality_init_def demo_cfg_def Let_def)
  show ?thesis using valid_means_clean [OF e c g] e by (auto simp: demo_cfg_def demo_quote_def)
qed

section \<open>Duplicates\<close>

text \<open>The bitmap of the last 64 sequence numbers, read as a set.\<close>

definition window_inv :: "slot_state \<Rightarrow> int set \<Rightarrow> bool" where
  "window_inv sl S =
     (has_seq sl \<and> finite S \<and> last_seq sl \<in> S \<and> (\<forall>x\<in>S. x \<le> last_seq sl)
      \<and> (\<forall>d<64. bit (seen sl) d = (last_seq sl - int d \<in> S)))"

lemma bit_shift_seen:
  assumes "0 < j" and "d < 64"
  shows "bit (shift_seen w j) d = (d = 0 \<or> j \<le> int d \<and> bit w (d - nat j))"
proof (cases "j < 64")
  case True
  then show ?thesis using assms
    by (auto simp: shift_seen_def bit_or_iff bit_push_bit_iff bit_1_iff)
next
  case False
  then show ?thesis using assms by (auto simp: shift_seen_def bit_1_iff)
qed

lemma window_forward:
  assumes "window_inv sl S" and "last_seq sl < sq" and "has_seq t" and "last_seq t = sq"
    and "seen t = shift_seen (seen sl) (sq - last_seq sl)"
  shows "window_inv t (insert sq S)"
proof -
  let ?j = "sq - last_seq sl"
  have "bit (seen t) d = (sq - int d \<in> insert sq S)" if "d < 64" for d
  proof -
    have b: "bit (seen t) d = (d = 0 \<or> ?j \<le> int d \<and> bit (seen sl) (d - nat ?j))"
      using bit_shift_seen [of ?j d] assms(2,5) that by simp
    have "?j \<le> int d \<Longrightarrow> bit (seen sl) (d - nat ?j) = (last_seq sl - int (d - nat ?j) \<in> S)"
      using assms(1) that by (auto simp: window_inv_def)
    moreover have "?j \<le> int d \<Longrightarrow> last_seq sl - int (d - nat ?j) = sq - int d" using assms(2) by auto
    moreover have "\<not> ?j \<le> int d \<Longrightarrow> sq - int d \<notin> S" using assms(1) by (auto simp: window_inv_def)
    ultimately show ?thesis using b by (cases "?j \<le> int d") auto
  qed
  then show ?thesis using assms by (auto simp: window_inv_def)
qed

lemma window_backward:
  assumes "window_inv sl S" and "sq \<le> last_seq sl" and "last_seq sl - sq < 64" and "has_seq t"
    and "last_seq t = last_seq sl" and "seen t = or (seen sl) (push_bit (nat (last_seq sl - sq)) 1)"
  shows "window_inv t (insert sq S)"
proof -
  have "bit (seen t) d = (last_seq sl - int d \<in> insert sq S)" if "d < 64" for d
    using assms that by (auto simp: window_inv_def bit_or_iff bit_push_bit_iff bit_1_iff bit_exp_iff)
  then show ?thesis using assms by (auto simp: window_inv_def)
qed

lemma mark_reasons: "set (reasons (mark ev st r)) = insert (reason_value r) (set (reasons ev))"
  by (auto simp: mark_def)

lemma flag_reasons: "set (reasons (snd (flag st r s))) = insert (reason_value r) (set (reasons (snd s)))"
  by (simp add: flag_def mark_reasons)

text \<open>The sequence stage decides membership exactly, as long as the feed stays inside the window.\<close>

lemma seq_stage_window:
  assumes inv: "window_inv sl S" and r: "\<not> epoch_reset_due cfg sl (snd s) sq" and w: "\<not> flt 0 (reorder_window_s cfg)"
    and lo: "last_seq sl - 64 < sq" and hi: "sq - last_seq sl \<le> seq_jump_limit cfg"
    and st: "seq_stage cfg now bad sq sl s = (v, t, s')" and n: "''DUPLICATE'' \<notin> set (reasons (snd s))"
  shows "v = Continue \<and> window_inv t (insert sq S) \<and> ((''DUPLICATE'' \<in> set (reasons (snd s'))) = (sq \<in> S))"
proof -
  let ?t = "note_session (snd s) sl"
  have h: "has_seq sl" using inv by (simp add: window_inv_def)
  have inv': "window_inv ?t S" using inv by (simp add: window_inv_def)
  have e: "(v, t, s') = (if last_seq sl < sq then seq_forward cfg now bad sq ?t s else seq_backward cfg sq ?t s)"
    using st seq_stage_strict [OF r] h by (simp add: Let_def)
  show ?thesis
  proof (cases "last_seq sl < sq")
    case True
    then have f: "v = Continue" "t = ?t\<lparr>seen := shift_seen (seen sl) (sq - last_seq sl), last_seq := sq, cand_plus1 := 0\<rparr>"
      "s' = (if sq - last_seq sl > 1 then flag SUSPICIOUS SEQUENCE_GAP s else s)"
      using e w hi unfolding seq_forward_def Let_def by simp_all
    have "sq \<notin> S" using inv True by (auto simp: window_inv_def)
    moreover have "window_inv t (insert sq S)" using window_forward [OF inv', of sq t] True f(2) h by simp
    ultimately show ?thesis using f n by (simp add: flag_reasons)
  next
    case False
    let ?d = "last_seq sl - sq"
    have b: "bit (seen sl) (nat ?d) = (sq \<in> S)" using inv False lo by (auto simp: window_inv_def)
    have e': "(v, t, s') = seq_backward cfg sq ?t s" using e False by simp
    show ?thesis
    proof (cases "sq \<in> S")
      case True
      then have "v = Continue" "t = ?t" "''DUPLICATE'' \<in> set (reasons (snd s'))"
        using e' b lo unfolding seq_backward_def Let_def by (auto simp: flag_reasons)
      then show ?thesis using True inv' by (simp add: insert_absorb)
    next
      case notin: False
      then have f: "v = Continue" "t = ?t\<lparr>seen := or (seen sl) (push_bit (nat ?d) 1)\<rparr>" "s' = flag SUSPICIOUS OUT_OF_ORDER s"
        using e' b lo unfolding seq_backward_def Let_def by simp_all
      have "window_inv t (insert sq S)" using window_backward [OF inv', of sq t] False lo f(2) h by simp
      then show ?thesis using f n notin by (simp add: flag_reasons)
    qed
  qed
qed

text \<open>No stage touches the table of slots, its limit or the configuration cache.\<close>

definition q_frame :: "quality_engine \<Rightarrow> (string \<times> string, slot_state) dict \<times> int \<times> (string, quality_config) dict" where
  "q_frame q = (slots q, max_tracked_instruments q, cfg_cache q)"

abbreviation cache_of :: "quality_engine \<times> cevent \<Rightarrow> (string \<times> string, slot_state) dict \<times> int \<times> (string, quality_config) dict" where
  "cache_of s \<equiv> q_frame (fst s)"

lemma q_frame_simps [simp]:
  "q_frame (q\<lparr>reason_counts := a\<rparr>) = q_frame q" "q_frame (q\<lparr>unseq_dedup := d\<rparr>) = q_frame q"
  "q_frame (q\<lparr>counts := c\<rparr>) = q_frame q" "q_frame (q\<lparr>reorder_repaired_total := n\<rparr>) = q_frame q"
  "q_frame (q\<lparr>reorder_expired_total := n\<rparr>) = q_frame q"
  by (simp_all add: q_frame_def)

lemma flag_cache [simp]: "cache_of (flag st r s) = cache_of s"
  by (simp add: flag_def bump_def)

lemma unseq_cache [simp]: "cache_of (unseq_stage cfg s) = cache_of s"
  by (simp add: unseq_stage_def Let_def split_beta)

lemma seq_stage_cache [simp]: "cache_of (snd (snd (seq_stage cfg now bad sq sl s))) = cache_of s"
  unfolding seq_stage_def seq_forward_def seq_backward_def Let_def by simp

lemma admit_cache [simp]: "cache_of (snd (snd (admit_seq cfg now sl s))) = cache_of s"
  unfolding admit_seq_def Let_def by (simp split: option.split)

lemma venue_cache: "venue_stage sl dev s = Inr s' \<Longrightarrow> cache_of s' = cache_of s"
  unfolding venue_stage_def Let_def by (auto simp: bindr_Inr split: if_split_asm)

lemma price_cache: "price_stage env cfg sl s = Inr (sl', s') \<Longrightarrow> cache_of s' = cache_of s"
  unfolding price_stage_def by (auto simp: bindr_Inr split: option.split_asm if_split_asm dest!: venue_cache)

lemma finish_cache:
  assumes "finish_evaluation env cfg bad hb ha hp sl s = Inr (sl', q', ev')" shows "q_frame q' = cache_of s"
proof -
  obtain sl1 s1 where t: "ts_stage cfg sl s = (sl1, s1)" by (rule prod.exhaust)
  have "cache_of (snd (ts_stage cfg sl s)) = cache_of s" unfolding ts_stage_def Let_def by simp
  then have "cache_of (quote_stage bad hb ha s1) = cache_of s" using t by (simp add: quote_stage_def)
  then show ?thesis using assms t
    by (auto simp: finish_evaluation_def Let_def bindr_Inr count_status_def split: if_split_asm dest!: price_cache)
qed

text \<open>Only the sequence stage can say DUPLICATE of a sequenced event when there are no user rules.\<close>

lemma ts_stage_dup: "(''DUPLICATE'' \<in> set (reasons (snd (snd (ts_stage cfg sl s))))) = (''DUPLICATE'' \<in> set (reasons (snd s)))"
  unfolding ts_stage_def Let_def by (simp add: flag_reasons)

lemma price_stage_dup:
  assumes "price_stage env cfg sl s = Inr (sl', s')"
  shows "(''DUPLICATE'' \<in> set (reasons (snd s'))) = (''DUPLICATE'' \<in> set (reasons (snd s)))"
proof -
  have "venue_stage sl dev s0 = Inr s1 \<Longrightarrow>
      (''DUPLICATE'' \<in> set (reasons (snd s1))) = (''DUPLICATE'' \<in> set (reasons (snd s0)))" for dev s0 s1
    unfolding venue_stage_def Let_def by (auto simp: bindr_Inr flag_reasons split: if_split_asm)
  note v = this [of _ "flag SUSPICIOUS PRICE_ANOMALY s" s', unfolded flag_reasons, simplified]
  show ?thesis using assms v unfolding price_stage_def
    by (auto simp: bindr_Inr flag_reasons split: option.split_asm if_split_asm)
qed

lemma finish_dup:
  assumes "finish_evaluation env cfg bad hb ha hp sl s = Inr (sl', q', ev')" and "user_rules env = []"
  shows "(''DUPLICATE'' \<in> set (reasons ev')) = (''DUPLICATE'' \<in> set (reasons (snd s)))"
proof -
  obtain sl1 s1 where t: "ts_stage cfg sl s = (sl1, s1)" by (rule prod.exhaust)
  let ?s2 = "quote_stage bad hb ha s1"
  obtain sl3 s3 where p: "(if hp then price_stage env cfg sl1 ?s2 else Inr (sl1, ?s2)) = Inr (sl3, s3)"
    and ev': "ev' = evaluate_user_rules env (snd s3)"
    using assms(1) unfolding finish_evaluation_def t by (auto simp: Let_def bindr_Inr)
  have "(''DUPLICATE'' \<in> set (reasons (snd s3))) = (''DUPLICATE'' \<in> set (reasons (snd ?s2)))"
    using p price_stage_dup by (cases hp) auto
  then show ?thesis using ts_stage_dup [of cfg sl s] t assms(2) ev'
    by (simp add: evaluate_user_rules_def quote_stage_def flag_reasons)
qed

text \<open>A feed: every event of one source and instrument, sequenced and not yet marked.\<close>

definition feed_event :: "string \<Rightarrow> string \<Rightarrow> cevent \<Rightarrow> bool" where
  "feed_event src inst ev =
     (source ev = src \<and> instrument_id ev = inst \<and> known_type ev \<and> ''DUPLICATE'' \<notin> set (reasons ev)
      \<and> ''EPOCH_RESET'' \<notin> set (reasons ev) \<and> (case sequence_number ev of None \<Rightarrow> False | Some sq \<Rightarrow> 0 \<le> sq))"

definition seq_of :: "cevent \<Rightarrow> int" where
  "seq_of ev = (case sequence_number ev of None \<Rightarrow> 0 | Some sq \<Rightarrow> sq)"

fun evaluate_all :: "quality_env \<Rightarrow> quality_engine \<Rightarrow> (f64 \<times> cevent) list \<Rightarrow> (cevent option list \<times> quality_engine) res" where
  "evaluate_all env q [] = Inr ([], q)"
| "evaluate_all env q ((now, ev) # es) =
     bindr (evaluate env now q ev) (\<lambda>(out, q1). bindr (evaluate_all env q1 es) (\<lambda>(outs, q2). Inr (out # outs, q2)))"

text \<open>Every event is less than 64 behind the newest one and not further ahead of it than the jump limit.\<close>

fun windowed :: "int \<Rightarrow> int list \<Rightarrow> int list \<Rightarrow> bool" where
  "windowed jmax hist [] = True"
| "windowed jmax hist (x # xs) =
     ((hist = [] \<or> (Max (set hist) - 64 < x \<and> x - Max (set hist) \<le> jmax)) \<and> windowed jmax (x # hist) xs)"

fun repeats :: "int list \<Rightarrow> int list \<Rightarrow> bool list" where
  "repeats hist [] = []"
| "repeats hist (x # xs) = (x \<in> set hist) # repeats (x # hist) xs"

definition flagged :: "cevent option \<Rightarrow> bool option" where
  "flagged out = map_option (\<lambda>e. ''DUPLICATE'' \<in> set (reasons e)) out"

definition feed_inv :: "quality_env \<Rightarrow> quality_engine \<Rightarrow> string \<Rightarrow> string \<Rightarrow> int list \<Rightarrow> bool" where
  "feed_inv env q src inst hist =
     (dget (cfg_cache q) inst \<in> {None, Some (for_instrument env inst)}
      \<and> (if hist = [] then (\<forall>sl. dget (slots q) (src, inst) = Some sl \<longrightarrow> \<not> has_seq sl)
         else \<exists>sl. dget (slots q) (src, inst) = Some sl \<and> window_inv sl (set hist)))"

lemma window_inv_Max: "window_inv sl S \<Longrightarrow> Max S = last_seq sl"
  by (auto simp: window_inv_def intro: Max_eqI)

lemma window_start: "window_inv (sl\<lparr>last_seq := sq, seen := 1, has_seq := True\<rparr>) {sq}"
  by (auto simp: window_inv_def bit_1_iff)

lemma dset_get [simp]: "dget (dset d k v) k = Some v"
  by (simp add: dget_dset)

lemma get_cfg_feed:
  assumes "feed_inv env q src inst hist"
  obtains q1 where "get_cfg env q inst = (for_instrument env inst, q1)"
    "cfg_cache q1 = dset (cfg_cache q) inst (for_instrument env inst) \<or> q1 = q" "slots q1 = slots q"
  using assms by (auto simp: get_cfg_def feed_inv_def)

lemma get_slot_feed:
  assumes "get_slot q1 key w = (sl, q2)"
  shows "(dget (slots q1) key = Some sl \<or> dget (slots q1) key = None \<and> \<not> has_seq sl) \<and> cfg_cache q2 = cfg_cache q1"
  using assms by (auto simp: get_slot_def slot_init_def Let_def split: option.split_asm)

lemma evaluate_feed:
  assumes ev: "feed_event src inst ev" and st: "feed_inv env q src inst hist" and u: "user_rules env = []"
    and pol: "session_policy (for_instrument env inst) = ''strict''"
    and w: "\<not> flt 0 (reorder_window_s (for_instrument env inst))"
    and win: "windowed (seq_jump_limit (for_instrument env inst)) hist [seq_of ev]"
    and e: "evaluate env now q ev = Inr (out, q')"
  shows "flagged out = Some (seq_of ev \<in> set hist) \<and> feed_inv env q' src inst (seq_of ev # hist)"
proof -
  let ?cfg = "for_instrument env inst" and ?sq = "seq_of ev" and ?key = "(src, inst)"
  have k: "source ev = src" "instrument_id ev = inst" "known_type ev" and sq: "sequence_number ev = Some ?sq" "0 \<le> ?sq"
    and nd: "''DUPLICATE'' \<notin> set (reasons ev)" and ne: "''EPOCH_RESET'' \<notin> set (reasons ev)"
    using ev by (auto simp: feed_event_def seq_of_def split: option.splits)
  obtain q1 where c: "get_cfg env q (instrument_id ev) = (?cfg, q1)"
    and c1: "cfg_cache q1 = dset (cfg_cache q) inst ?cfg \<or> q1 = q" "slots q1 = slots q"
    using get_cfg_feed [OF st] k(2) by auto
  obtain sl q2 where g: "get_slot q1 (source ev, instrument_id ev) (price_window ?cfg) = (sl, q2)" by (rule prod.exhaust)
  note g1 = get_slot_feed [OF g]
  have cc: "dget (cfg_cache q2) inst \<in> {None, Some ?cfg}"
    using g1 c1 st by (auto simp: feed_inv_def)
  let ?b = "schema_bad ?cfg ev"
  define s1 where "s1 = (if ?b then flag INVALID SCHEMA_VIOLATION (q2, ev) else (q2, ev))"
  have adm: "admit_seq ?cfg now sl (q2, ev) = seq_stage ?cfg now ?b ?sq sl s1"
    using sq by (simp add: admit_seq_def Let_def s1_def cong: if_cong)
  have s1: "''DUPLICATE'' \<notin> set (reasons (snd s1))" "''EPOCH_RESET'' \<notin> set (reasons (snd s1))"
    using nd ne by (simp_all add: s1_def flag_reasons)
  have nr: "\<not> epoch_reset_due ?cfg sl (snd s1) ?sq" using s1(2) pol by (simp add: epoch_reset_due_def)
  obtain v t s2 where sg: "seq_stage ?cfg now ?b ?sq sl s1 = (v, t, s2)" by (metis prod.exhaust)
  have key: "v = Continue \<and> window_inv t (set (?sq # hist))
      \<and> ((''DUPLICATE'' \<in> set (reasons (snd s2))) = (?sq \<in> set hist))"
  proof (cases "hist = []")
    case True
    then have "\<not> has_seq sl" using st g1 k c1 by (auto simp: feed_inv_def)
    then have "(v, t, s2) = (Continue, (note_session (snd s1) sl)\<lparr>last_seq := ?sq, seen := 1, has_seq := True\<rparr>, s1)"
      using sg seq_stage_strict [OF nr, of now ?b] by (simp add: Let_def eq_commute)
    then show ?thesis using True s1(1) window_start by simp
  next
    case False
    then have i: "window_inv sl (set hist)" using st g1 k c1 by (auto simp: feed_inv_def)
    show ?thesis
      using seq_stage_window [OF i nr w _ _ sg s1(1)] win False by (simp add: window_inv_Max [OF i])
  qed
  from e c g show ?thesis
  proof (cases rule: evaluate_cases)
    case (through sl2 s2' sl3 q3 ev3 sl4 q4 evs)
    have a: "sl2 = t" "s2' = s2" using through(2) adm sg by simp_all
    have z: "sl4 = sl3" "q4 = q3" "evs = []" using through(4) w by simp_all
    have "cfg_cache q3 = cfg_cache q2"
      using finish_cache [OF through(3)] admit_cache [of ?cfg now sl "(q2, ev)"] through(2) by (simp add: q_frame_def)
    moreover have "window_inv (sl4\<lparr>ready := ready sl4 @ evs\<rparr>) (set (?sq # hist))"
      using key a z finish_pending [OF through(3)] by (simp add: window_inv_def)
    moreover have "flagged out = Some (?sq \<in> set hist)"
      using finish_dup [OF through(3) u] key a through(5) by (simp add: flagged_def)
    ultimately show ?thesis using cc z through(6) k by (auto simp: feed_inv_def put_slot_def)
  qed (use k(3) key sg adm in auto)
qed

lemma evaluate_all_feed:
  assumes "list_all (\<lambda>(now, ev). feed_event src inst ev) es" and "feed_inv env q src inst hist" and "user_rules env = []"
    and "session_policy (for_instrument env inst) = ''strict''"
    and "\<not> flt 0 (reorder_window_s (for_instrument env inst))"
    and "windowed (seq_jump_limit (for_instrument env inst)) hist (map (\<lambda>e. seq_of (snd e)) es)"
    and "evaluate_all env q es = Inr (outs, q')"
  shows "map flagged outs = map Some (repeats hist (map (\<lambda>e. seq_of (snd e)) es))"
  using assms
proof (induction es arbitrary: q hist outs)
  case (Cons e es)
  obtain now ev where e: "e = (now, ev)" by (cases e)
  obtain out q1 outs' where 1: "evaluate env now q ev = Inr (out, q1)"
    and 2: "evaluate_all env q1 es = Inr (outs', q')" and o: "outs = out # outs'"
    using Cons.prems(7) by (auto simp: e bindr_Inr)
  have h: "flagged out = Some (seq_of ev \<in> set hist) \<and> feed_inv env q1 src inst (seq_of ev # hist)"
    using evaluate_feed [of src inst ev env q hist now out q1] Cons.prems 1 by (simp add: e)
  have "map flagged outs' = map Some (repeats (seq_of ev # hist) (map (\<lambda>e. seq_of (snd e)) es))"
    using Cons.IH [of q1 "seq_of ev # hist" outs'] Cons.prems h 2 by (simp add: e)
  then show ?case using h by (simp add: e o)
qed simp

text \<open>C12: exactly the repeated events are flagged.  Take a fresh engine without user rules, a strict session policy
  and no reorder window, and feed it any events of one source and instrument with sequence numbers, in any
  order and with any gaps, as long as no event is 64 or more behind the newest one or beyond the jump limit
  ahead of it.  Every event comes back, and it carries DUPLICATE if and only if its sequence number occurred
  earlier.\<close>

theorem repeated_events_are_flagged:
  assumes "list_all (\<lambda>(now, ev). feed_event src inst ev) es" and "user_rules env = []"
    and "session_policy (for_instrument env inst) = ''strict''"
    and "\<not> flt 0 (reorder_window_s (for_instrument env inst))"
    and "windowed (seq_jump_limit (for_instrument env inst)) [] (map (\<lambda>e. seq_of (snd e)) es)"
    and "evaluate_all env (quality_init n) es = Inr (outs, q')"
  shows "map flagged outs = map Some (repeats [] (map (\<lambda>e. seq_of (snd e)) es))"
  using evaluate_all_feed [OF assms(1) _ assms(2-6)] by (simp add: feed_inv_def quality_init_def)

definition demo_feed :: "(f64 \<times> cevent) list" where
  "demo_feed = map (\<lambda>sq. (0, demo_quote sq)) [7, 9, 8, 9, 7]"

lemma demo_feed_runs: "isl (evaluate_all demo_env (quality_init 200) demo_feed) = False"
  by code_simp

theorem repeated_events_are_flagged_witness:
  "\<exists>outs q. evaluate_all demo_env (quality_init 200) demo_feed = Inr (outs, q)
     \<and> map flagged outs = [Some False, Some False, Some False, Some True, Some True]"
proof -
  obtain outs q where r: "evaluate_all demo_env (quality_init 200) demo_feed = Inr (outs, q)"
    using demo_feed_runs by (cases "evaluate_all demo_env (quality_init 200) demo_feed") auto
  have m: "map (\<lambda>e. seq_of (snd e)) demo_feed = [7, 9, 8, 9, 7]" by (simp add: demo_feed_def demo_quote_def seq_of_def)
  have "map flagged outs = map Some (repeats [] (map (\<lambda>e. seq_of (snd e)) demo_feed))"
    by (rule repeated_events_are_flagged [OF _ _ _ _ _ r, where src = "''A''" and inst = "''AAPL''"])
       (simp_all add: m, simp_all add: demo_feed_def demo_quote_def feed_event_def known_type_def demo_env_def demo_cfg_def)
  then show ?thesis using r by (simp add: m)
qed

end
