(* ===== verification/Quality_Held.thy ===== *)
theory Quality_Held
  imports Quality_Props
begin

text \<open>
  The memory of the quality engine: the invariant and the bounds of its state, what happens to events it holds
  back for reordering, and how far back the two-generation cache of unsequenced events remembers.
\<close>

section \<open>Held events\<close>

definition pend_ids :: "slot_state \<Rightarrow> string list" where
  "pend_ids sl = map (\<lambda>(k, arr, ev, flags). event_id ev) (pending sl)"

definition held_ids :: "slot_state \<Rightarrow> string list" where
  "held_ids sl = map event_id (ready sl) @ pend_ids sl"

lemma mset_ddel:
  "dwf d \<Longrightarrow> dget d k = Some v \<Longrightarrow> mset d = add_mset (k, v) (mset (ddel d k))"
proof (induction d)
  case (Cons p d)
  show ?case
  proof (cases "fst p = k")
    case True
    then have "ddel d k = d" using Cons.prems(1) by (intro ddel_absent) (auto simp: dwf_def din_iff)
    then show ?thesis using True Cons.prems(2) by (cases p) simp
  next
    case False
    then show ?thesis using Cons by (cases p) (auto simp: dwf_def)
  qed
qed simp

lemma pend_ids_pop:
  assumes "dwf (pending sl)" and "dget (pending sl) k = Some (arr, ev, flags)" and "pending t = ddel (pending sl) k"
  shows "mset (pend_ids sl) = add_mset (event_id ev) (mset (pend_ids t))" and "dwf (pending t)"
  using arg_cong [OF mset_ddel [OF assms(1,2)], of "image_mset (\<lambda>(k, arr, ev, flags). event_id ev)"] assms(1,3)
  by (simp_all add: pend_ids_def)

lemma finish_event_id:
  "finish_evaluation env cfg bad hb ha hp sl s = Inr (sl', q', ev') \<Longrightarrow> event_id ev' = event_id (snd s)"
  by (rule extends_fields [OF finish_extends])

lemma unlock_releases:
  assumes "unlock env cfg sl q = Inr (sl', q', evs)" and "dwf (pending sl)"
  shows "mset (map event_id evs) + mset (pend_ids sl') = mset (pend_ids sl) \<and> ready sl' = ready sl \<and> dwf (pending sl')
     \<and> set (dkeys (pending sl')) \<subseteq> set (dkeys (pending sl)) \<and> q_frame q' = q_frame q \<and> stale_seen sl' = stale_seen sl"
  using assms
proof (induction env cfg sl q arbitrary: sl' q' evs rule: unlock.induct)
  case (1 env cfg sl q)
  show ?case
  proof (cases "dget (pending sl) (last_seq sl + 1)")
    case None
    then show ?thesis using 1(2,3) by (simp add: unlock.simps [of env cfg sl q])
  next
    case (Some p)
    obtain arr ev bad hb ha hp where p: "p = (arr, ev, bad, hb, ha, hp)" by (metis prod.exhaust)
    obtain sl1 q1 ev1 evs' where
      f: "finish_evaluation env cfg bad hb ha hp (unlock_one sl)
            (q\<lparr>reorder_repaired_total := reorder_repaired_total q + 1\<rparr>, ev) = Inr (sl1, q1, ev1)"
      and u: "unlock env cfg sl1 q1 = Inr (sl', q', evs')" and evs: "evs = ev1 # evs'"
      using 1(2) Some p unfolding unlock.simps [of env cfg sl q] by (auto simp: bindr_Inr3)
    have u1: "pending (unlock_one sl) = ddel (pending sl) (last_seq sl + 1)" "ready (unlock_one sl) = ready sl"
      "stale_seen (unlock_one sl) = stale_seen sl"
      by (simp_all add: unlock_one_def)
    note fp = finish_pending [OF f, unfolded u1]
    note pop = pend_ids_pop [OF 1(3) Some [unfolded p] fp(1)]
    have "fst ` set (pending sl1) \<subseteq> fst ` set (pending sl)" using fp(1) by (auto simp: ddel_filter)
    then show ?thesis
      using "1.IH" [OF Some p [symmetric] refl refl refl refl f refl refl u pop(2)] pop(1) fp finish_event_id [OF f] finish_cache [OF f]
      by (simp add: evs) (blast dest: subset_trans)
  qed
qed

lemma expire_step_simps [simp]:
  "pending (expire_step sl p) = ddel (pending sl) p" "ready (expire_step sl p) = ready sl"
  "stale_seen (expire_step sl p) = stale_seen sl"
  by (simp_all add: expire_step_def Let_def)

lemma expire_releases:
  assumes "expire_seqs env cfg ps sl q = Inr (sl', q', evs)" and "dwf (pending sl)"
  shows "mset (map event_id evs) + mset (pend_ids sl') = mset (pend_ids sl) \<and> ready sl' = ready sl \<and> dwf (pending sl')
     \<and> set (dkeys (pending sl')) \<subseteq> set (dkeys (pending sl)) - set ps \<and> q_frame q' = q_frame q
     \<and> stale_seen sl' = stale_seen sl"
  using assms
proof (induction ps arbitrary: sl q evs)
  case (Cons p ps)
  show ?case
  proof (cases "dget (pending sl) p")
    case None
    then have "p \<notin> set (dkeys (pending sl))" by (simp add: map_of_eq_None_iff)
    then show ?thesis using Cons.IH [of sl q evs] Cons.prems None by auto
  next
    case (Some v)
    obtain arr ev bad hb ha hp where v: "v = (arr, ev, bad, hb, ha, hp)" by (metis prod.exhaust)
    let ?q = "(bump q SEQUENCE_GAP)\<lparr>reorder_expired_total := reorder_expired_total (bump q SEQUENCE_GAP) + 1\<rparr>"
    obtain sl3 q3 ev3 sl4 q4 evs4 rest where
      f: "finish_evaluation env cfg bad hb ha hp (expire_step sl p) (?q, mark ev SUSPICIOUS SEQUENCE_GAP) = Inr (sl3, q3, ev3)"
      and u: "unlock env cfg sl3 q3 = Inr (sl4, q4, evs4)"
      and r: "expire_seqs env cfg ps sl4 q4 = Inr (sl', q', rest)" and evs: "evs = ev3 # evs4 @ rest"
      using Cons.prems(1) Some v by (auto simp: Let_def flag_def bindr_Inr3)
    note fp = finish_pending [OF f, unfolded expire_step_simps]
    note pop = pend_ids_pop [OF Cons.prems(2) Some [unfolded v] fp(1)]
    note ur = unlock_releases [OF u pop(2)]
    have IH: "mset (map event_id rest) + mset (pend_ids sl') = mset (pend_ids sl4) \<and> ready sl' = ready sl4 \<and> dwf (pending sl')
       \<and> set (dkeys (pending sl')) \<subseteq> set (dkeys (pending sl4)) - set ps \<and> q_frame q' = q_frame q4
       \<and> stale_seen sl' = stale_seen sl4"
      using Cons.IH [OF r] ur by blast
    have id3: "event_id ev3 = event_id ev" using finish_event_id [OF f] by (simp add: mark_def)
    have "mset (map event_id evs) + mset (pend_ids sl')
        = add_mset (event_id ev) (mset (map event_id evs4) + (mset (map event_id rest) + mset (pend_ids sl')))"
      by (simp add: evs id3)
    also have "\<dots> = mset (pend_ids sl)" using IH ur pop(1) by simp
    finally have "mset (map event_id evs) + mset (pend_ids sl') = mset (pend_ids sl)" .
    moreover have "set (dkeys (pending sl')) \<subseteq> set (dkeys (pending sl)) - set (p # ps)"
    proof -
      have "set (dkeys (pending sl3)) \<subseteq> set (dkeys (pending sl)) - {p}" using fp(1) by (auto simp: ddel_filter)
      then have "set (dkeys (pending sl4)) \<subseteq> set (dkeys (pending sl)) - {p}" using ur by (meson subset_trans)
      moreover have "set (dkeys (pending sl')) \<subseteq> set (dkeys (pending sl4)) - set ps" using IH by blast
      ultimately show ?thesis unfolding list.set by blast
    qed
    moreover have "q_frame q3 = q_frame q" using finish_cache [OF f] by (simp add: bump_def)
    ultimately show ?thesis using IH ur fp(3,6) by simp
  qed
qed simp

lemma forced_expiry:
  assumes "expire_seqs env cfg (expired_seqs cfg now True sl) (sl\<lparr>ready := []\<rparr>) q = Inr (sl', q', evs)"
    and "dwf (pending sl)"
  shows "mset (map event_id evs) = mset (pend_ids sl) \<and> pending sl' = [] \<and> ready sl' = [] \<and> q_frame q' = q_frame q"
proof -
  have "set (expired_seqs cfg now True sl) = set (dkeys (pending sl))" by (simp add: expired_seqs_def)
  then have "set (dkeys (pending sl')) = {}" using expire_releases [OF assms(1)] assms(2) by auto
  then have "pending sl' = []" by simp
  then show ?thesis using expire_releases [OF assms(1)] assms(2) by (simp add: pend_ids_def)
qed

definition pend_wf :: "quality_engine \<Rightarrow> bool" where
  "pend_wf q = (dwf (slots q) \<and> (\<forall>(k, sl)\<in>set (slots q). dwf (pending sl)))"

lemma pend_wfD: "pend_wf q \<Longrightarrow> dget (slots q) k = Some sl \<Longrightarrow> dwf (pending sl)"
  by (auto simp: pend_wf_def dest: map_of_SomeD)

lemma set_dset: "set (dset d k v) \<subseteq> insert (k, v) (set d)"
  by (induction d) auto

lemma dkeys_dset: "k \<in> set (dkeys d) \<Longrightarrow> dkeys (dset d k v) = dkeys d"
  by (induction d) auto

lemma get_cfg_slots: "get_cfg env q i = (cfg, q1) \<Longrightarrow> slots q1 = slots q"
  by (auto simp: get_cfg_def split: option.split_asm)

lemma drain_slots_releases:
  assumes "drain_slots env now True keys q = Inr (evs, q')" and "pend_wf q" and "distinct keys"
    and "set keys \<subseteq> set (dkeys (slots q))"
  shows "mset (map event_id evs) = sum_list (map (\<lambda>k. mset (held_ids (the (dget (slots q) k)))) keys)
     \<and> dkeys (slots q') = dkeys (slots q)
     \<and> (\<forall>k sl. dget (slots q') k = Some sl \<longrightarrow>
          (if k \<in> set keys then pending sl = [] \<and> ready sl = [] else dget (slots q) k = Some sl))"
  using assms
proof (induction keys arbitrary: q evs)
  case (Cons key keys)
  then obtain sl where sl: "dget (slots q) key = Some sl" by (auto simp: map_of_eq_None_iff image_iff dest: weak_map_of_SomeI)
  obtain cfg q1 where c: "get_cfg env q (snd key) = (cfg, q1)" by (rule prod.exhaust)
  obtain sl2 q2 evs2 rest where
    x: "expire_seqs env cfg (expired_seqs cfg now True sl) (sl\<lparr>ready := []\<rparr>) q1 = Inr (sl2, q2, evs2)"
    and d: "drain_slots env now True keys (put_slot q2 key sl2) = Inr (rest, q')" and evs: "evs = ready sl @ evs2 @ rest"
    using Cons.prems(1) sl c by (auto simp: bindr_Inr3 bindr_Inr)
  note fx = forced_expiry [OF x pend_wfD [OF Cons.prems(2) sl]]
  let ?q = "put_slot q2 key sl2"
  have s2: "slots q2 = slots q" using fx get_cfg_slots [OF c] by (simp add: q_frame_def)
  have kin: "key \<in> set (dkeys (slots q))" using Cons.prems(4) by simp
  have slots': "slots ?q = dset (slots q) key sl2" by (simp add: put_slot_def s2)
  have "pend_wf ?q" using Cons.prems(2) fx set_dset [of key sl2 "slots q"] by (auto simp: pend_wf_def slots')
  moreover have k': "dkeys (slots ?q) = dkeys (slots q)" using kin by (simp only: slots' dkeys_dset)
  ultimately have IH: "mset (map event_id rest) = sum_list (map (\<lambda>k. mset (held_ids (the (dget (slots ?q) k)))) keys)
     \<and> dkeys (slots q') = dkeys (slots ?q)
     \<and> (\<forall>k sl. dget (slots q') k = Some sl \<longrightarrow>
          (if k \<in> set keys then pending sl = [] \<and> ready sl = [] else dget (slots ?q) k = Some sl))"
    using Cons.IH [OF d] Cons.prems(3,4) by simp
  have "map (\<lambda>k. mset (held_ids (the (dget (slots ?q) k)))) keys = map (\<lambda>k. mset (held_ids (the (dget (slots q) k)))) keys"
    using Cons.prems(3) by (auto simp: slots' dget_dset)
  then have "mset (map event_id rest) = sum_list (map (\<lambda>k. mset (held_ids (the (dget (slots q) k)))) keys)"
    using IH by presburger
  then have "mset (map event_id evs) = sum_list (map (\<lambda>k. mset (held_ids (the (dget (slots q) k)))) (key # keys))"
    using fx sl by (simp add: evs held_ids_def [of sl])
  moreover have "\<forall>k t. dget (slots q') k = Some t \<longrightarrow>
      (if k \<in> set (key # keys) then pending t = [] \<and> ready t = [] else dget (slots q) k = Some t)"
  proof (intro allI impI)
    fix k t assume t: "dget (slots q') k = Some t"
    then have i: "if k \<in> set keys then pending t = [] \<and> ready t = [] else dget (slots ?q) k = Some t"
      using IH by blast
    show "if k \<in> set (key # keys) then pending t = [] \<and> ready t = [] else dget (slots q) k = Some t"
      using i fx by (cases "k = key"; cases "k \<in> set keys") (simp_all add: slots' dget_dset)
  qed
  ultimately show ?case using conjunct1 [OF conjunct2 [OF IH]] k' by (simp only: conj_ac)
qed simp

text \<open>C40: a forced drain gives everything back.  Whatever events the engine is holding, ready or still waiting for a
  gap to close, \<open>drain_expired(force=True)\<close> returns each of them exactly once and leaves nothing behind in any
  slot.\<close>

theorem forced_drain_releases_all:
  assumes "quality_drain_expired env now True q = Inr (evs, q')" and "pend_wf q"
  shows "mset (map event_id evs) = sum_list (map (\<lambda>(k, sl). mset (held_ids sl)) (slots q))
     \<and> dkeys (slots q') = dkeys (slots q)
     \<and> (\<forall>(k, sl)\<in>set (slots q'). pending sl = [] \<and> ready sl = [])"
proof -
  have wf: "dwf (slots q)" using assms(2) by (simp add: pend_wf_def)
  note r = drain_slots_releases [OF assms(1) [unfolded quality_drain_expired_def] assms(2)]
  have d: "distinct (dkeys (slots q))" using wf by (simp add: dwf_def)
  note rr = r [OF d subset_refl]
  have "map (\<lambda>k. mset (held_ids (the (dget (slots q) k)))) (dkeys (slots q)) = map (\<lambda>(k, sl). mset (held_ids sl)) (slots q)"
    using wf by (auto simp: dwf_def)
  then have "mset (map event_id evs) = sum_list (map (\<lambda>(k, sl). mset (held_ids sl)) (slots q))"
    using conjunct1 [OF rr] by (simp only:)
  moreover have "pending sl = [] \<and> ready sl = []" if "(k, sl) \<in> set (slots q')" for k sl
  proof -
    have k: "dkeys (slots q') = dkeys (slots q)" using rr by blast
    then have "dget (slots q') k = Some sl" using that d by (intro map_of_is_SomeI) simp_all
    moreover have "k \<in> set (dkeys (slots q))" using that k by (metis fst_conv image_eqI set_map)
    moreover have "\<forall>k t. dget (slots q') k = Some t \<longrightarrow>
        (if k \<in> set (dkeys (slots q)) then pending t = [] \<and> ready t = [] else dget (slots q) k = Some t)"
      using rr by blast
    ultimately show ?thesis by presburger
  qed
  ultimately show ?thesis using conjunct1 [OF conjunct2 [OF rr]] by blast
qed

definition demo_held :: quality_engine where
  "demo_held = put_slot (quality_init 200) (''A'', ''AAPL'')
     ((slot_init 2)\<lparr>last_seq := 1, seen := 1, has_seq := True, ready := [(demo_quote 1)\<lparr>event_id := ''r''\<rparr>],
        pending := [(4, 0, (demo_quote 4)\<lparr>event_id := ''p4''\<rparr>, False, True, True, False),
                    (3, 0, (demo_quote 3)\<lparr>event_id := ''p3''\<rparr>, False, True, True, False)]\<rparr>)"

lemma demo_held_drains: "isl (quality_drain_expired demo_env 0 True demo_held) = False"
  by code_simp

theorem forced_drain_releases_all_witness:
  "\<exists>evs q. quality_drain_expired demo_env 0 True demo_held = Inr (evs, q)
     \<and> mset (map event_id evs) = {#''r'', ''p4'', ''p3''#}"
proof -
  obtain evs q where r: "quality_drain_expired demo_env 0 True demo_held = Inr (evs, q)"
    using demo_held_drains by (cases "quality_drain_expired demo_env 0 True demo_held") auto
  have "pend_wf demo_held" by (simp add: pend_wf_def demo_held_def put_slot_def quality_init_def dwf_def)
  note f = forced_drain_releases_all [OF r this]
  have "sum_list (map (\<lambda>(k, sl). mset (held_ids sl)) (slots demo_held)) = {#''r'', ''p4'', ''p3''#}"
    by (simp add: demo_held_def put_slot_def quality_init_def held_ids_def pend_ids_def)
  then show ?thesis using f r by auto
qed

lemma seq_forward_hold:
  assumes "seq_forward cfg now bad sq sl s = (HoldBack, t, s')"
  shows "\<exists>flags. t = sl\<lparr>pending := dset (pending sl) sq (now, snd s, flags)\<rparr>" and "s' = s"
    and "int (length (pending sl)) < reorder_max_slots cfg"
  using assms unfolding seq_forward_def Let_def by (auto split: if_split_asm)

lemma seq_backward_hold: "fst (seq_backward cfg sq sl s) \<noteq> HoldBack"
  unfolding seq_backward_def Let_def by simp

lemma admit_hold:
  assumes "admit_seq cfg now sl (q, ev) = (HoldBack, t, q', ev')" and "sequence_number ev = Some sq"
    and "\<not> epoch_reset_due cfg sl (mark ev INVALID SCHEMA_VIOLATION) sq" and "\<not> epoch_reset_due cfg sl ev sq"
  shows "\<exists>sl0 ev1 flags. t = sl0\<lparr>pending := dset (pending sl) sq (now, ev1, flags)\<rparr> \<and> event_id ev1 = event_id ev
      \<and> ready sl0 = ready sl \<and> pending sl0 = pending sl" and "counts q' = counts q"
proof -
  define s1 where "s1 = (if schema_bad cfg ev then flag INVALID SCHEMA_VIOLATION (q, ev) else (q, ev))"
  have "0 \<le> sq" and sg: "seq_stage cfg now (schema_bad cfg ev) sq sl s1 = (HoldBack, t, q', ev')"
    using assms(1,2) by (auto simp: admit_seq_def Let_def s1_def cong: if_cong split: if_split_asm)
  have s1: "\<not> epoch_reset_due cfg sl (snd s1) sq" "event_id (snd s1) = event_id ev" "counts (fst s1) = counts q"
    using assms(3,4) by (simp_all add: s1_def flag_def mark_def bump_def)
  let ?t = "note_session (snd s1) sl"
  have "seq_forward cfg now (schema_bad cfg ev) sq ?t s1 = (HoldBack, t, q', ev')"
    using sg seq_stage_strict [OF s1(1)] seq_backward_hold [of cfg sq ?t s1]
    by (auto simp: Let_def split: if_split_asm)
  note h = seq_forward_hold [OF this]
  have "ready ?t = ready sl" by (simp add: note_session_def split: option.split)
  then show "\<exists>sl0 ev1 flags. t = sl0\<lparr>pending := dset (pending sl) sq (now, ev1, flags)\<rparr> \<and> event_id ev1 = event_id ev
      \<and> ready sl0 = ready sl \<and> pending sl0 = pending sl"
    using h(1) s1(2) by (intro exI [of _ ?t] exI [of _ "snd s1"]) auto
  show "counts q' = counts q" using h(2) s1(3) by (metis fst_conv)
qed

lemma mset_dset:
  "dwf d \<Longrightarrow> dget d k = Some v \<Longrightarrow> mset (dset d k w) + {#(k, v)#} = mset d + {#(k, w)#}"
proof (induction d)
  case (Cons p d)
  then show ?case by (cases p) (auto simp: dwf_def)
qed simp

text \<open>A repeat of a held event makes the held one vanish.  With a reorder window, an event that jumps ahead is kept under
  its sequence number.  When a second event with this sequence number arrives before the gap is closed, the
  first one is overwritten: it is neither returned nor counted nor held any longer, and the second one is held in
  its place without being flagged as a duplicate, although the module promises to quarantine and never to
  drop.\<close>

theorem held_event_is_overwritten:
  assumes "evaluate env now q ev = Inr (None, q')"
    and "get_cfg env q (instrument_id ev) = (cfg, q1)"
    and "dget (slots q) (source ev, instrument_id ev) = Some sl" and "dwf (pending sl)"
    and "sequence_number ev = Some sq" and "dget (pending sl) sq = Some (arr, old, flags)"
    and "session_policy cfg = ''strict''" and "''EPOCH_RESET'' \<notin> set (reasons ev)"
  shows "\<exists>sl'. dget (slots q') (source ev, instrument_id ev) = Some sl'
     \<and> mset (held_ids sl') + {#event_id old#} = mset (held_ids sl) + {#event_id ev#} \<and> counts q' = counts q"
proof -
  have s1: "slots q1 = slots q" "counts q1 = counts q" using assms(2) by (auto simp: get_cfg_def split: option.split_asm)
  have g: "get_slot q1 (source ev, instrument_id ev) (price_window cfg) = (sl, q1)"
    using assms(3) by (simp add: get_slot_def s1)
  have nr: "\<not> epoch_reset_due cfg sl ev sq" "\<not> epoch_reset_due cfg sl (mark ev INVALID SCHEMA_VIOLATION) sq"
    using assms(7,8) by (simp_all add: epoch_reset_due_def mark_reasons)
  from assms(1,2) g show ?thesis
  proof (cases rule: evaluate_cases)
    case (held sl2 q3 ev3)
    obtain sl0 ev1 fl where sl2: "sl2 = sl0\<lparr>pending := dset (pending sl) sq (now, ev1, fl)\<rparr>"
      and i: "event_id ev1 = event_id ev" "ready sl0 = ready sl"
      using admit_hold(1) [OF held(2) assms(5) nr(2,1)] by blast
    have "mset (pend_ids sl2) + {#event_id old#} = mset (pend_ids sl) + {#event_id ev#}"
      using arg_cong [OF mset_dset [OF assms(4,6), of "(now, ev1, fl)"],
        of "image_mset (\<lambda>(k, arr, ev, flags). event_id ev)"] i(1) by (simp add: sl2 pend_ids_def)
    then have "mset (held_ids sl2) + {#event_id old#} = mset (held_ids sl) + {#event_id ev#}"
      using i(2) by (simp add: held_ids_def sl2 pend_ids_def)
    then show ?thesis using held(4) admit_hold(2) [OF held(2) assms(5) nr(2,1)] s1(2)
      by (auto simp: put_slot_def)
  qed simp_all
qed

definition demo_reorder :: quality_env where
  "demo_reorder = demo_env\<lparr>for_instrument := (\<lambda>_. demo_cfg\<lparr>reorder_window_s := 0x3FF0000000000000\<rparr>)\<rparr>"

lemma demo_hold: "map_sum id fst (evaluate demo_reorder 0 demo_held ((demo_quote 3)\<lparr>event_id := ''x''\<rparr>)) = Inr None"
  by code_simp

theorem held_event_is_overwritten_witness:
  "\<exists>q sl. evaluate demo_reorder 0 demo_held ((demo_quote 3)\<lparr>event_id := ''x''\<rparr>) = Inr (None, q)
     \<and> dget (slots q) (''A'', ''AAPL'') = Some sl \<and> mset (held_ids sl) + {#''p3''#} = {#''r'', ''p4'', ''p3'', ''x''#}"
proof -
  let ?ev = "(demo_quote 3)\<lparr>event_id := ''x''\<rparr>"
  obtain q where e: "evaluate demo_reorder 0 demo_held ?ev = Inr (None, q)"
    using demo_hold by (cases "evaluate demo_reorder 0 demo_held ?ev") auto
  have ev: "source ?ev = ''A''" "instrument_id ?ev = ''AAPL''" "sequence_number ?ev = Some 3" "reasons ?ev = []"
    by (simp_all add: demo_quote_def)
  obtain q1 where c: "get_cfg demo_reorder demo_held (instrument_id ?ev) = (demo_cfg\<lparr>reorder_window_s := 0x3FF0000000000000\<rparr>, q1)"
    by (simp add: get_cfg_def demo_held_def put_slot_def quality_init_def demo_reorder_def)
  obtain sl where sl: "dget (slots demo_held) (source ?ev, instrument_id ?ev) = Some sl"
    "pending sl = [(4, 0, (demo_quote 4)\<lparr>event_id := ''p4''\<rparr>, False, True, True, False),
                    (3, 0, (demo_quote 3)\<lparr>event_id := ''p3''\<rparr>, False, True, True, False)]"
    "ready sl = [(demo_quote 1)\<lparr>event_id := ''r''\<rparr>]"
    by (simp add: demo_held_def put_slot_def quality_init_def demo_quote_def)
  have "\<exists>sl'. dget (slots q) (source ?ev, instrument_id ?ev) = Some sl'
     \<and> mset (held_ids sl') + {#''p3''#} = mset (held_ids sl) + {#event_id ?ev#} \<and> counts q = counts demo_held"
    using held_event_is_overwritten [OF e c sl(1) _ ev(3), of 0 "(demo_quote 3)\<lparr>event_id := ''p3''\<rparr>" "(False, True, True, False)"]
    by (simp add: sl dwf_def demo_cfg_def ev(4))
  then show ?thesis using e ev sl by (auto simp: held_ids_def pend_ids_def)
qed

section \<open>The memory for unsequenced events\<close>

text \<open>The cache needs of the key comparison only that it is symmetric and transitive; a key with a NaN is not even
  equal to itself.\<close>

locale two_generations =
  fixes eq :: "'k \<Rightarrow> 'k \<Rightarrow> bool"
  assumes eq_sym: "eq x y \<Longrightarrow> eq y x" and eq_trans: "eq x y \<Longrightarrow> eq y z \<Longrightarrow> eq x z"
begin

definition ins :: "'k unseq_dedup \<Rightarrow> 'k \<Rightarrow> 'k unseq_dedup" where
  "ins d k = snd (check_and_insert eq d k)"

definition known :: "'k unseq_dedup \<Rightarrow> 'k \<Rightarrow> bool" where
  "known d k = (key_in eq k (older d) \<or> key_in eq k (active d))"

definition cache_ok :: "'k unseq_dedup \<Rightarrow> bool" where
  "cache_ok d = (dd_count d = int (length (active d)) \<and> dd_count d < max_entries d \<and> int (length (older d)) \<le> max_entries d)"

lemma hit_known: "fst (check_and_insert eq d k) = known d k"
  by (simp add: check_and_insert_def known_def Let_def)

lemma ins_simps: "max_entries (ins d k) = max_entries d"
  by (simp add: ins_def check_and_insert_def Let_def)

lemma ins_ok: "cache_ok d \<Longrightarrow> cache_ok (ins d k)"
  by (auto simp: ins_def check_and_insert_def Let_def cache_ok_def)

lemma ins_known: "known (ins d k) x \<Longrightarrow> known d x \<or> eq x k"
  by (auto simp: ins_def check_and_insert_def Let_def known_def key_in_def split: if_split_asm)

lemma key_in_eq: "eq x k \<Longrightarrow> key_in eq k ks \<Longrightarrow> key_in eq x ks"
  by (auto simp: key_in_def list_ex_iff intro: eq_trans)

text \<open>\<open>fresh n\<close>: the key survives \<open>n\<close> more insertions.\<close>

definition fresh :: "int \<Rightarrow> 'k unseq_dedup \<Rightarrow> 'k \<Rightarrow> bool" where
  "fresh n d x = (n < max_entries d \<and> (key_in eq x (active d) \<or> key_in eq x (older d) \<and> dd_count d + n < max_entries d))"

lemma ins_fresh: "cache_ok d \<Longrightarrow> eq x k \<Longrightarrow> n < max_entries d \<Longrightarrow> fresh n (ins d k) x"
  using key_in_eq [of x k "active d"]
  by (auto simp: ins_def check_and_insert_def Let_def fresh_def key_in_def cache_ok_def)

lemma ins_keeps: "cache_ok d \<Longrightarrow> fresh n d x \<Longrightarrow> 0 < n \<Longrightarrow> fresh (n - 1) (ins d k) x"
  by (auto simp: ins_def check_and_insert_def Let_def fresh_def key_in_def cache_ok_def)

lemma fold_ok: "cache_ok d \<Longrightarrow> cache_ok (foldl ins d ks)"
  by (induction ks arbitrary: d) (auto simp: ins_ok)

lemma fold_max: "max_entries (foldl ins d ks) = max_entries d"
  by (induction ks arbitrary: d) (auto simp: ins_simps)

lemma fold_fresh: "cache_ok d \<Longrightarrow> fresh (int (length ks)) d x \<Longrightarrow> fresh 0 (foldl ins d ks) x"
proof (induction ks arbitrary: d)
  case (Cons k ks)
  then have "fresh (int (length ks)) (ins d k) x" using ins_keeps [of d "int (length (k # ks))" x k] by simp
  then show ?case using Cons ins_ok by simp
qed simp

lemma fold_known: "known (foldl ins d ks) x \<Longrightarrow> known d x \<or> list_ex (eq x) ks"
  by (induction ks arbitrary: d) (auto dest: ins_known)

lemma recent_known:
  assumes "cache_ok d" and "list_ex (eq x) (drop (length ks - nat (max_entries d)) ks)"
  shows "known (foldl ins d ks) x"
proof -
  obtain k where k: "k \<in> set (drop (length ks - nat (max_entries d)) ks)" "eq x k"
    using assms(2) by (auto simp: list_ex_iff)
  then obtain as bs where ks: "ks = as @ k # bs" and b: "int (length bs) < max_entries d"
  proof -
    let ?m = "length ks - nat (max_entries d)"
    obtain us vs where uv: "drop ?m ks = us @ k # vs" using k(1) by (meson split_list)
    have "length vs < length (drop ?m ks)" by (simp only: uv) simp
    then have "int (length vs) < max_entries d" by auto
    moreover have "ks = (take ?m ks @ us) @ k # vs" using uv append_take_drop_id [of ?m ks] by simp
    ultimately show thesis using that by blast
  qed
  let ?d = "foldl ins d as"
  have "fresh (int (length bs)) (ins ?d k) x" using ins_fresh [OF fold_ok [OF assms(1)] k(2)] b by (simp add: fold_max)
  then have "fresh 0 (foldl ins d ks) x" using fold_fresh [OF ins_ok [OF fold_ok [OF assms(1)]]] by (simp add: ks)
  then show ?thesis by (auto simp: fresh_def known_def)
qed

end

lemma opt_feq_sym: "opt_feq x y \<Longrightarrow> opt_feq y x"
  by (cases "(x, y)" rule: opt_feq.cases) (auto simp: feq_def)

lemma opt_feq_trans: "opt_feq x y \<Longrightarrow> opt_feq y z \<Longrightarrow> opt_feq x z"
  by (cases "(x, y)" rule: opt_feq.cases; cases z) (auto simp: feq_def)

interpretation unseq: two_generations unseq_eq
proof
  fix x y z :: unseq_key
  obtain s i t e p q b a bs as where x: "x = (s, i, t, e, p, q, b, a, bs, as)" by (metis prod.exhaust)
  obtain s' i' t' e' p' q' b' a' bs' as' where y: "y = (s', i', t', e', p', q', b', a', bs', as')" by (metis prod.exhaust)
  obtain s'' i'' t'' e'' p'' q'' b'' a'' bs'' as'' where z: "z = (s'', i'', t'', e'', p'', q'', b'', a'', bs'', as'')"
    by (metis prod.exhaust)
  show "unseq_eq x y \<Longrightarrow> unseq_eq y x" using opt_feq_sym by (auto simp: x y feq_def)
  show "unseq_eq x y \<Longrightarrow> unseq_eq y z \<Longrightarrow> unseq_eq x z" unfolding x y z unseq_eq.simps
    by (elim conjE, intro conjI) (auto simp: feq_def intro: opt_feq_trans)
qed

text \<open>How far the engine remembers unsequenced events.  After any history of keys the cache says duplicate
  only of a key that equals an earlier one, it always says so of a key that equals one of the last
  \<open>max_entries\<close> keys, and the two generations together never hold more than twice that number.\<close>

theorem unsequenced_memory:
  "let d = foldl (\<lambda>d k. snd (check_and_insert unseq_eq d k)) (dedup_init n) hist; m = max 100 (n div 2)
   in (fst (check_and_insert unseq_eq d k) \<longrightarrow> list_ex (unseq_eq k) hist)
    \<and> (list_ex (unseq_eq k) (drop (length hist - nat m) hist) \<longrightarrow> fst (check_and_insert unseq_eq d k))
    \<and> int (length (active d) + length (older d)) \<le> 2 * m"
proof -
  let ?d = "foldl unseq.ins (dedup_init n) hist"
  have ok: "unseq.cache_ok (dedup_init n)" by (auto simp: unseq.cache_ok_def dedup_init_def)
  have m: "max_entries (dedup_init n :: unseq_key unseq_dedup) = max 100 (n div 2)" by (simp add: dedup_init_def)
  have nk: "\<not> unseq.known (dedup_init n) k" by (simp add: unseq.known_def dedup_init_def key_in_def)
  have i: "(\<lambda>d k. snd (check_and_insert unseq_eq d k)) = unseq.ins" by (simp add: unseq.ins_def fun_eq_iff)
  have "int (length (active ?d) + length (older ?d)) \<le> 2 * max 100 (n div 2)"
    using unseq.fold_ok [OF ok, of hist] unseq.fold_max [of "dedup_init n" hist] m by (simp add: unseq.cache_ok_def)
  moreover have "unseq.known ?d k \<Longrightarrow> list_ex (unseq_eq k) hist" using unseq.fold_known nk by blast
  moreover have "list_ex (unseq_eq k) (drop (length hist - nat (max 100 (n div 2))) hist) \<Longrightarrow> unseq.known ?d k"
    using unseq.recent_known [OF ok, of k hist] m by simp
  ultimately show ?thesis unfolding Let_def i unseq.hit_known by blast
qed

theorem unsequenced_memory_witness:
  "let k = unseq_key_of (demo_quote 0); k' = unseq_key_of ((demo_quote 0)\<lparr>source := ''B''\<rparr>);
       d = foldl (\<lambda>d k. snd (check_and_insert unseq_eq d k)) (dedup_init 10) [k, k']
   in fst (check_and_insert unseq_eq d k)
      \<and> \<not> fst (check_and_insert unseq_eq d (unseq_key_of ((demo_quote 0)\<lparr>source := ''C''\<rparr>)))"
proof -
  let ?k = "unseq_key_of (demo_quote 0)" and ?k' = "unseq_key_of ((demo_quote 0)\<lparr>source := ''B''\<rparr>)"
  have "unseq_eq ?k ?k"
    by (simp add: unseq_key_of_def demo_quote_def feq_def f_isnan_def f_mag_def inf_mag_def)
  moreover have "\<not> unseq_eq (unseq_key_of ((demo_quote 0)\<lparr>source := ''C''\<rparr>)) x" if "x \<in> {?k, ?k'}" for x
    using that by (auto simp: unseq_key_of_def demo_quote_def)
  ultimately show ?thesis
    using unsequenced_memory [of 10 "[?k, ?k']" ?k]
      unsequenced_memory [of 10 "[?k, ?k']" "unseq_key_of ((demo_quote 0)\<lparr>source := ''C''\<rparr>)"]
    unfolding Let_def by auto
qed

end
