(* ===== verification/Shm.thy ===== *)
theory Shm
  imports Pystruct
begin

text \<open>
  The shared-memory ring of \<open>shm.py\<close> on its portable path (no native extension): the writer's two-phase commit, the
  reader's double check of the commit word, lap detection, streaming and batch reading, the watermark flag and
  the epoch checks.  Memory is a record of the header words and of the slots, each a commit word and the
  payload bytes.  The interleaving of one writer and a reader, byte by byte, is a step relation in
  \<open>Shm_Race\<close>.
\<close>

unbundle bit_operations_syntax

section \<open>Layout\<close>

definition SHM_MAGIC :: bytes where "SHM_MAGIC = [0x4D, 0x44, 0x52, 0x50]"
definition SHM_VERSION :: int where "SHM_VERSION = 3"
definition SLOT_SIZE :: int where "SLOT_SIZE = 128"
definition SHM_HEADER_SIZE :: int where "SHM_HEADER_SIZE = 128"
definition UNCOMMITTED :: int where "UNCOMMITTED = 0xFFFFFFFFFFFFFFFF"
definition EVENT_TYPE_TICK :: int where "EVENT_TYPE_TICK = 1"
definition EVENT_TYPE_DEPTH :: int where "EVENT_TYPE_DEPTH = 2"
definition SHM_FLAG_WATERMARK_WARNING :: "32 word" where "SHM_FLAG_WATERMARK_WARNING = 1"

definition PAYLOAD_STRUCT :: "field list" where
  "PAYLOAD_STRUCT = [FB, FB, FB, FB, FB, FS 3, FD, FD, FD, FF, FI, FD, FD, FD, FD, FD, FD, FS 16, FS 8, FS 8]"

lemma payload_size: "calcsize PAYLOAD_STRUCT = 120"
  by (simp add: calcsize_def PAYLOAD_STRUCT_def)

record shm_mem =
  sh_magic :: bytes
  sh_version :: int
  sh_slot_size :: int
  sh_slot_count :: int
  sh_epoch :: int
  sh_head :: int
  sh_heartbeat :: f64
  sh_dropped :: int
  sh_flags :: "32 word"
  sh_slots :: "(int \<times> bytes) list"

section \<open>Slot contents\<close>

record shm_event =
  se_type :: int
  se_sym :: ustr
  se_source :: ustr
  se_price :: "f64 option"
  se_size :: "f64 option"
  se_bid :: "f64 option"
  se_ask :: "f64 option"
  se_bid_size :: "f64 option"
  se_ask_size :: "f64 option"
  se_status :: string
  se_crossed :: bool
  se_exchange_ts :: f64
  se_ingest_ts :: f64
  se_broadcast_ts :: f64
  se_engine_us :: f64

definition shm_status_code :: "string \<Rightarrow> int \<Rightarrow> int" where
  "shm_status_code st d = dgetd [(''UNKNOWN'', 0), (''VALID'', 1), (''SUSPICIOUS'', 2), (''INVALID'', 3)] st d"

definition shm_status_name :: "int \<Rightarrow> string" where
  "shm_status_name c = dgetd [(0, ''UNKNOWN''), (1, ''VALID''), (2, ''SUSPICIOUS''), (3, ''INVALID'')] c ''UNKNOWN''"

text \<open>The presence mask: one bit per optional number, set by \<open>|=\<close> and tested by \<open>&\<close>.\<close>

definition present_bit :: "'a option \<Rightarrow> int \<Rightarrow> int" where
  "present_bit x m = (case x of None \<Rightarrow> 0 | Some _ \<Rightarrow> m)"

definition present_mask :: "shm_event \<Rightarrow> int" where
  "present_mask e =
     present_bit (se_price e) 1 OR present_bit (se_size e) 2 OR present_bit (se_bid e) 4
     OR present_bit (se_ask e) 8 OR present_bit (se_bid_size e) 16 OR present_bit (se_ask_size e) 32"

text \<open>\<open>_fast_encode_sym_src\<close>: the padded texts and the truncation bits.\<close>

definition fast_encode_sym_src :: "ustr \<Rightarrow> ustr \<Rightarrow> bytes \<times> bytes \<times> int" where
  "fast_encode_sym_src symb src =
     (put_str 16 symb, put_str 8 src,
      (if length (encode_ascii symb) > 16 then 1 else 0) OR (if length (encode_ascii src) > 8 then 2 else 0))"

text \<open>The payload fields; \<open>d\<close> is the status code of an unknown status (0 for ticks, 1 for depth).\<close>

definition payload_vals :: "int \<Rightarrow> shm_event \<Rightarrow> sval list" where
  "payload_vals d e =
     (case fast_encode_sym_src (se_sym e) (se_source e) of (symb, src, trunc) \<Rightarrow>
       [VI (se_type e), VI (shm_status_code (se_status e) d), VI (b_int (se_crossed e)), VI (present_mask e), VI trunc,
        VS [0, 0, 0], VF (f_or0 (se_exchange_ts e)), VF (f_or0 (se_ingest_ts e)), VF (f_or0 (se_broadcast_ts e)),
        VF (f_or0 (se_engine_us e)), VI 0,
        VF (fo_or0 (se_price e)), VF (fo_or0 (se_size e)), VF (fo_or0 (se_bid e)), VF (fo_or0 (se_ask e)),
        VF (fo_or0 (se_bid_size e)), VF (fo_or0 (se_ask_size e)), VS symb, VS src, VS (replicate 8 0)])"

definition pick :: "int \<Rightarrow> int \<Rightarrow> f64 \<Rightarrow> f64 option" where
  "pick present m x = (if present AND m \<noteq> 0 then Some x else None)"

definition decode_payload :: "bytes \<Rightarrow> shm_event option" where
  "decode_payload bs =
     (case sunpack LE PAYLOAD_STRUCT bs of
        Inr [VI ty, VI st, VI cr, VI present, VI trunc, VS pad1, VF ex, VF ing, VF bc, VF eng, VI pad2, VF p, VF sz,
             VF bid, VF ask, VF bsz, VF asz, VS symb, VS src, VS pad3] \<Rightarrow>
          Some \<lparr>se_type = (if ty = EVENT_TYPE_DEPTH then EVENT_TYPE_DEPTH else EVENT_TYPE_TICK),
                se_sym = get_str symb, se_source = get_str src, se_price = pick present 1 p,
                se_size = pick present 2 sz, se_bid = pick present 4 bid, se_ask = pick present 8 ask,
                se_bid_size = pick present 16 bsz, se_ask_size = pick present 32 asz,
                se_status = shm_status_name st, se_crossed = (cr \<noteq> 0), se_exchange_ts = ex, se_ingest_ts = ing,
                se_broadcast_ts = bc, se_engine_us = eng\<rparr>
      | _ \<Rightarrow> None)"

section \<open>The writer\<close>

record shm_writer =
  w_slot_count :: int
  w_mask :: int
  w_epoch_id :: int
  w_head_seq :: int
  w_dropped_ticks :: int
  w_last_heartbeat :: f64
  w_watermark_pct :: f64
  w_watermark_slots :: int
  w_reader_cursors :: "(string, int) dict"
  w_last_known_read_seq :: int

definition is_pow2_count :: "int \<Rightarrow> bool" where
  "is_pow2_count n = (2 \<le> n \<and> n AND (n - 1) = 0)"

definition slots_of :: "int \<Rightarrow> f64 \<Rightarrow> int res" where
  "slots_of n pct = bindr (f_of_int n) (\<lambda>x. f_to_int (fmul x pct))"

text \<open>\<open>SHMWriter.__init__\<close> on a segment with the given slots: every commit word is cleared, the two header lines are
  written.\<close>

definition writer_open ::
    "int \<Rightarrow> int \<Rightarrow> f64 \<Rightarrow> f64 \<Rightarrow> bytes list \<Rightarrow> (shm_mem \<times> shm_writer) res" where
  "writer_open slot_count epoch_id now pct old =
     (if \<not> is_pow2_count slot_count then Inl ValueError
      else bindr (slots_of slot_count pct) (\<lambda>wm.
        Inr (\<lparr>sh_magic = SHM_MAGIC, sh_version = SHM_VERSION, sh_slot_size = SLOT_SIZE, sh_slot_count = slot_count,
              sh_epoch = epoch_id, sh_head = 0, sh_heartbeat = now, sh_dropped = 0, sh_flags = 0,
              sh_slots = map (\<lambda>p. (UNCOMMITTED, p)) old\<rparr>,
             \<lparr>w_slot_count = slot_count, w_mask = slot_count - 1, w_epoch_id = epoch_id, w_head_seq = 0,
              w_dropped_ticks = 0, w_last_heartbeat = now, w_watermark_pct = pct, w_watermark_slots = wm,
              w_reader_cursors = [], w_last_known_read_seq = 0\<rparr>)))"

definition write_seq :: "shm_writer \<Rightarrow> int" where
  "write_seq w = max 0 (w_head_seq w - 1)"

definition set_watermark_flag :: "bool \<Rightarrow> shm_mem \<Rightarrow> shm_mem" where
  "set_watermark_flag on m =
     m\<lparr>sh_flags := (if on then sh_flags m OR SHM_FLAG_WATERMARK_WARNING
                    else sh_flags m AND NOT SHM_FLAG_WATERMARK_WARNING)\<rparr>"

definition is_watermark_warning_set :: "shm_mem \<Rightarrow> bool" where
  "is_watermark_warning_set m = (sh_flags m AND SHM_FLAG_WATERMARK_WARNING \<noteq> 0)"

definition F_0_8 :: f64 where "F_0_8 = 0x3FE999999999999A"

definition update_reader_seq :: "int \<Rightarrow> string \<Rightarrow> shm_mem \<times> shm_writer \<Rightarrow> (shm_mem \<times> shm_writer) res" where
  "update_reader_seq read_seq reader_id s =
     (let m = fst s; w = snd s;
          cursors = dset (w_reader_cursors w) reader_id (max (dgetd (w_reader_cursors w) reader_id 0) read_seq);
          oldest = Min (set (map snd cursors));
          w1 = w\<lparr>w_reader_cursors := cursors, w_last_known_read_seq := oldest\<rparr>;
          occupancy = write_seq w - oldest
      in if occupancy \<ge> w_watermark_slots w then Inr (set_watermark_flag True m, w1)
         else bindr (slots_of (w_slot_count w) (fmul (w_watermark_pct w) F_0_8)) (\<lambda>low.
           Inr (if occupancy < low then set_watermark_flag False m else m, w1)))"

definition update_heartbeat :: "f64 \<Rightarrow> int option \<Rightarrow> shm_mem \<times> shm_writer \<Rightarrow> shm_mem \<times> shm_writer" where
  "update_heartbeat now dropped s =
     (let w = (case dropped of None \<Rightarrow> snd s | Some d \<Rightarrow> (snd s)\<lparr>w_dropped_ticks := d\<rparr>)
      in ((fst s)\<lparr>sh_heartbeat := now, sh_dropped := w_dropped_ticks w\<rparr>, w\<lparr>w_last_heartbeat := now\<rparr>))"

definition F_0_1 :: f64 where "F_0_1 = 0x3FB999999999999A"

definition set_slot :: "shm_mem \<Rightarrow> nat \<Rightarrow> int \<times> bytes \<Rightarrow> shm_mem" where
  "set_slot m i v = m\<lparr>sh_slots := (sh_slots m)[i := v]\<rparr>"

text \<open>\<open>write_tick\<close> and \<open>write_depth\<close>: invalidate, write the payload, commit, publish the head, heartbeat.  A field that
  cannot be packed raises after the invalidation; \<open>junk\<close> is what the failed \<open>pack_into\<close> leaves in the slot.\<close>

definition write_event ::
    "int \<Rightarrow> bytes \<Rightarrow> f64 \<Rightarrow> int \<Rightarrow> shm_event \<Rightarrow> shm_mem \<times> shm_writer \<Rightarrow> (shm_mem \<times> shm_writer) \<times> unit res" where
  "write_event d junk now sq e s =
     (let m = fst s; w = snd s; i = nat (sq AND w_mask w)
      in case spack LE PAYLOAD_STRUCT (payload_vals d e) of
           Inl x \<Rightarrow> ((set_slot m i (UNCOMMITTED, junk), w), Inl x)
         | Inr payload \<Rightarrow>
             if \<not> (0 \<le> sq \<and> sq < 2 ^ 64) then ((set_slot m i (UNCOMMITTED, payload), w), Inl StructError)
             else if sq + 1 \<ge> 2 ^ 64 then ((set_slot m i (sq, payload), w), Inl StructError)
             else let m1 = (set_slot m i (sq, payload))\<lparr>sh_head := sq + 1\<rparr>; w1 = w\<lparr>w_head_seq := sq + 1\<rparr>
                  in (if sq AND 0x1FF = 0 \<or> fle F_0_1 (fsub now (w_last_heartbeat w))
                      then update_heartbeat now None (m1, w1) else (m1, w1), Inr ()))"

definition write_tick :: "bytes \<Rightarrow> f64 \<Rightarrow> int \<Rightarrow> shm_event \<Rightarrow> shm_mem \<times> shm_writer \<Rightarrow> (shm_mem \<times> shm_writer) \<times> unit res" where
  "write_tick junk now sq e s = write_event 0 junk now sq (e\<lparr>se_type := EVENT_TYPE_TICK\<rparr>) s"

definition depth_source :: ustr where
  "depth_source = [68, 69, 80, 84, 72]"

definition write_depth :: "bytes \<Rightarrow> f64 \<Rightarrow> int \<Rightarrow> shm_event \<Rightarrow> shm_mem \<times> shm_writer \<Rightarrow> (shm_mem \<times> shm_writer) \<times> unit res" where
  "write_depth junk now sq e s = write_event 1 junk now sq (e\<lparr>se_type := EVENT_TYPE_DEPTH, se_source := depth_source\<rparr>) s"

section \<open>The reader\<close>

datatype reader_state = DETACHED | ATTACHED | INVALIDATED | REATTACHING

record overrun_stats =
  total_laps :: int
  skipped_ticks :: int
  last_lap_seq :: int
  last_lap_ts :: f64
  watermark_warnings :: int
  watermark_events :: int

record shm_reader =
  r_state :: reader_state
  r_attached :: bool
  r_slot_count :: int
  r_mask :: int
  r_epoch_id :: int
  r_watermark_slots :: int
  r_stats :: overrun_stats
  r_last_epoch_probe :: f64

definition stats0 :: overrun_stats where
  "stats0 = \<lparr>total_laps = 0, skipped_ticks = 0, last_lap_seq = 0, last_lap_ts = 0, watermark_warnings = 0, watermark_events = 0\<rparr>"

text \<open>\<open>SHMReader.__init__\<close> and its checks of the header.\<close>

definition seg_len :: "shm_mem \<Rightarrow> int" where
  "seg_len m = SHM_HEADER_SIZE + int (length (sh_slots m)) * SLOT_SIZE"

definition reader_open :: "f64 \<Rightarrow> shm_mem \<Rightarrow> shm_reader res" where
  "reader_open pct m =
     (if seg_len m < SHM_HEADER_SIZE + 2 * SLOT_SIZE then Inl ValueError
      else if sh_magic m \<noteq> SHM_MAGIC then Inl ValueError
      else if sh_version m \<noteq> SHM_VERSION then Inl ValueError
      else if sh_slot_size m \<noteq> SLOT_SIZE then Inl ValueError
      else if \<not> is_pow2_count (sh_slot_count m) then Inl ValueError
      else if seg_len m < SHM_HEADER_SIZE + sh_slot_count m * SLOT_SIZE then Inl ValueError
      else bindr (slots_of (sh_slot_count m) pct) (\<lambda>wm.
        Inr \<lparr>r_state = ATTACHED, r_attached = True, r_slot_count = sh_slot_count m, r_mask = sh_slot_count m - 1,
             r_epoch_id = sh_epoch m, r_watermark_slots = wm, r_stats = stats0, r_last_epoch_probe = 0\<rparr>))"

definition check_watermark :: "int option \<Rightarrow> shm_mem \<Rightarrow> shm_reader \<Rightarrow> bool" where
  "check_watermark current_seq m r =
     (r_attached r \<and> (is_watermark_warning_set m
       \<or> (case current_seq of None \<Rightarrow> False | Some c \<Rightarrow> sh_head m - c \<ge> r_watermark_slots r)))"

definition is_writer_alive :: "f64 \<Rightarrow> f64 \<Rightarrow> shm_mem \<Rightarrow> shm_reader \<Rightarrow> bool" where
  "is_writer_alive now max_stale m r = (r_attached r \<and> flt (fsub now (sh_heartbeat m)) max_stale)"

definition read_latest_seq :: "shm_mem \<Rightarrow> shm_reader \<Rightarrow> int" where
  "read_latest_seq m r = (if \<not> r_attached r then 0 else if sh_head m > 0 then max 0 (sh_head m - 1) else 0)"

definition lapped :: "shm_mem \<Rightarrow> shm_reader \<Rightarrow> int \<Rightarrow> bool" where
  "lapped m r sq = (sh_head m > 0 \<and> sh_head m > sq \<and> sh_head m - sq > r_slot_count r)"

text \<open>\<open>read_slot\<close> on memory that does not change meanwhile; the race with the writer is in \<open>Shm_Race\<close>.\<close>

definition read_slot :: "f64 \<Rightarrow> int \<Rightarrow> shm_mem \<Rightarrow> shm_reader \<Rightarrow> (int \<times> shm_event) option \<times> shm_reader" where
  "read_slot now sq m r =
     (let st = r_stats r
      in if \<not> r_attached r then (None, r)
         else if lapped m r sq
         then (None, r\<lparr>r_stats := st\<lparr>total_laps := total_laps st + 1, last_lap_seq := sq, last_lap_ts := now\<rparr>\<rparr>)
         else
           let r1 = (if sh_head m > sq \<and> (sh_head m - sq \<ge> r_watermark_slots r \<or> is_watermark_warning_set m)
                     then r\<lparr>r_stats := st\<lparr>watermark_warnings := watermark_warnings st + 1,
                                          watermark_events := watermark_events st + 1\<rparr>\<rparr>
                     else r);
               slot = sh_slots m ! nat (sq AND r_mask r)
           in if fst slot \<noteq> sq then (None, r1)
              else (map_option (\<lambda>e. (sq, e)) (decode_payload (snd slot)), r1))"

fun read_batch_loop :: "f64 \<Rightarrow> int list \<Rightarrow> shm_mem \<Rightarrow> shm_reader \<Rightarrow> (int \<times> shm_event) list \<times> shm_reader" where
  "read_batch_loop now [] m r = ([], r)"
| "read_batch_loop now (q # qs) m r =
     (case read_slot now q m r of
        (None, r1) \<Rightarrow> ([], r1)
      | (Some x, r1) \<Rightarrow> (let (xs, r2) = read_batch_loop now qs m r1 in (x # xs, r2)))"

definition read_batch :: "f64 \<Rightarrow> int \<Rightarrow> shm_mem \<Rightarrow> shm_reader \<Rightarrow> (int \<times> shm_event) list \<times> shm_reader" where
  "read_batch now max_n m r =
     (let c = read_latest_seq m r in read_batch_loop now (py_range c (c + max_n)) m r)"

text \<open>One turn of the loop of \<open>stream\<close>: an epoch change, an item, or nothing to read yet.\<close>

datatype stream_out = EpochChange | Item int shm_event | NoItem

definition stream_turn :: "f64 \<Rightarrow> shm_mem \<Rightarrow> int \<times> shm_reader \<Rightarrow> stream_out \<times> int \<times> shm_reader" where
  "stream_turn now m cr =
     (let c = fst cr; r = snd cr
      in if sh_epoch m \<noteq> r_epoch_id r then (EpochChange, 0, r\<lparr>r_epoch_id := sh_epoch m\<rparr>)
         else
           let c1 = (if lapped m r c then sh_head m - r_slot_count r else c);
               r1 = (if lapped m r c
                     then r\<lparr>r_stats := (r_stats r)\<lparr>skipped_ticks := skipped_ticks (r_stats r) + max 0 (sh_head m - r_slot_count r - c)\<rparr>\<rparr>
                     else r)
           in case read_slot now c1 m r1 of
                (Some (q, e), r2) \<Rightarrow> (Item q e, c1 + 1, r2)
              | (None, r2) \<Rightarrow> (NoItem, c1, r2))"

text \<open>\<open>_reattach\<close> to the segment now found under the name (\<open>None\<close>: there is none), and \<open>check_epoch_valid\<close>: \<open>unlinked\<close> is the
  result of the inode check and \<open>probe\<close> the epoch of the segment now found under the name.\<close>

definition reader_close :: "shm_reader \<Rightarrow> shm_reader" where
  "reader_close r = r\<lparr>r_state := DETACHED, r_attached := False\<rparr>"

definition reattach :: "f64 \<Rightarrow> f64 \<Rightarrow> shm_mem option \<Rightarrow> shm_reader \<Rightarrow> bool \<times> shm_reader" where
  "reattach now pct found r =
     (case found of
        None \<Rightarrow> (False, r\<lparr>r_state := INVALIDATED, r_attached := False\<rparr>)
      | Some m \<Rightarrow>
          if seg_len m < SHM_HEADER_SIZE + 2 * SLOT_SIZE then (False, reader_close r)
          else if sh_magic m \<noteq> SHM_MAGIC \<or> sh_version m \<noteq> SHM_VERSION then (False, reader_close r)
          else case slots_of (sh_slot_count m) pct of
                 Inl _ \<Rightarrow> (False, r\<lparr>r_state := INVALIDATED, r_attached := True, r_slot_count := sh_slot_count m,
                                     r_mask := sh_slot_count m - 1, r_epoch_id := sh_epoch m\<rparr>)
               | Inr wm \<Rightarrow>
                   (True, r\<lparr>r_state := ATTACHED, r_attached := True, r_slot_count := sh_slot_count m,
                            r_mask := sh_slot_count m - 1, r_epoch_id := sh_epoch m, r_watermark_slots := wm,
                            r_last_epoch_probe := now\<rparr>))"

definition F_2 :: f64 where "F_2 = 0x4000000000000000"
definition F_0_05s :: f64 where "F_0_05s = 0x3FA999999999999A"

definition check_epoch_valid :: "f64 \<Rightarrow> bool \<Rightarrow> bool \<Rightarrow> int option \<Rightarrow> shm_mem \<Rightarrow> shm_reader \<Rightarrow> bool \<times> shm_reader" where
  "check_epoch_valid now force_probe unlinked probe m r =
     (if \<not> r_attached r \<or> r_state r = DETACHED then (False, r)
      else if unlinked \<or> sh_epoch m \<noteq> r_epoch_id r then (False, r\<lparr>r_state := INVALIDATED\<rparr>)
      else if (force_probe \<or> \<not> is_writer_alive now F_2 m r)
              \<and> (fle F_0_05s (fsub now (r_last_epoch_probe r)) \<or> force_probe)
      then (let r1 = r\<lparr>r_last_epoch_probe := now\<rparr>
            in if probe \<noteq> Some (r_epoch_id r) then (False, r1\<lparr>r_state := INVALIDATED\<rparr>) else (True, r1\<lparr>r_state := ATTACHED\<rparr>))
      else (True, r\<lparr>r_state := ATTACHED\<rparr>))"

end
