(* ===== verification/Shm_Props.thy ===== *)
theory Shm_Props
  imports Shm
begin

text \<open>
  What a reader of the shared-memory ring sees: slot contents survive the binary layout, the ring is the window of
  the last \<open>slot_count\<close> published events, a stream delivers or counts every sequence number, and a batch never has
  more than one event.
\<close>

section \<open>Slot contents\<close>

definition slot_seen :: "int \<Rightarrow> shm_event \<Rightarrow> shm_event" where
  "slot_seen d e =
     e\<lparr>se_type := (if se_type e = EVENT_TYPE_DEPTH then EVENT_TYPE_DEPTH else EVENT_TYPE_TICK),
       se_price := map_option f_or0 (se_price e), se_size := map_option f_or0 (se_size e),
       se_bid := map_option f_or0 (se_bid e), se_ask := map_option f_or0 (se_ask e),
       se_bid_size := map_option f_or0 (se_bid_size e), se_ask_size := map_option f_or0 (se_ask_size e),
       se_status := shm_status_name (shm_status_code (se_status e) d),
       se_exchange_ts := f_or0 (se_exchange_ts e), se_ingest_ts := f_or0 (se_ingest_ts e),
       se_broadcast_ts := f_or0 (se_broadcast_ts e), se_engine_us := f32_round (f_or0 (se_engine_us e))\<rparr>"

definition slot_text_ok :: "shm_event \<Rightarrow> bool" where
  "slot_text_ok e = (ascii_text 16 (se_sym e) \<and> ascii_text 8 (se_source e))"

lemma pick_present:
  "pick (present_mask e) 1 (fo_or0 (se_price e)) = map_option f_or0 (se_price e)"
  "pick (present_mask e) 2 (fo_or0 (se_size e)) = map_option f_or0 (se_size e)"
  "pick (present_mask e) 4 (fo_or0 (se_bid e)) = map_option f_or0 (se_bid e)"
  "pick (present_mask e) 8 (fo_or0 (se_ask e)) = map_option f_or0 (se_ask e)"
  "pick (present_mask e) 16 (fo_or0 (se_bid_size e)) = map_option f_or0 (se_bid_size e)"
  "pick (present_mask e) 32 (fo_or0 (se_ask_size e)) = map_option f_or0 (se_ask_size e)"
  unfolding pick_def present_mask_def present_bit_def fo_or0_def
  by (cases "se_price e"; cases "se_size e"; cases "se_bid e"; cases "se_ask e"; cases "se_bid_size e";
      cases "se_ask_size e"; simp)+

lemma slot_roundtrip:
  assumes "spack LE PAYLOAD_STRUCT (payload_vals d e) = Inr p" and "slot_text_ok e"
  shows "decode_payload p = Some (slot_seen d e)"
  using sunpack_spack [OF assms(1)] assms(2)
  by (simp add: decode_payload_def PAYLOAD_STRUCT_def payload_vals_def fast_encode_sym_src_def slot_text_ok_def
        slot_seen_def get_put_str pick_present f32_round_def pad_to_def)

section \<open>Masks\<close>

lemma and_half: "(a AND b) div 2 = (a div 2) AND (b div 2)" for a b :: int
  using drop_bit_and [of 1 a b] by (simp add: drop_bit_eq_div)

lemma pow2_count: "1 \<le> n \<Longrightarrow> n AND (n - 1) = 0 \<Longrightarrow> \<exists>k. n = 2 ^ k" for n :: int
proof (induction "nat n" arbitrary: n rule: less_induct)
  case less
  show ?case
  proof (cases "even n")
    case True
    then obtain m where m: "n = 2 * m" by blast
    have "(2 * m - 1) div 2 = m - 1" by presburger
    then have "m AND (m - 1) = 0" using less.prems and_half [of n "n - 1"] m by simp
    then obtain k where "m = 2 ^ k" using less.hyps [of m] less.prems m by auto
    then show ?thesis using m by (intro exI [of _ "Suc k"]) simp
  next
    case False
    then obtain m where m: "n = 2 * m + 1" by (rule oddE)
    have "m AND m = 0" using less.prems and_half [of n "n - 1"] m by simp
    then have "n = 2 ^ 0" using m by simp
    then show ?thesis by blast
  qed
qed

lemma mask_mod:
  assumes "is_pow2_count n" shows "sq AND (n - 1) = sq mod n"
proof -
  obtain k where "n = 2 ^ k" using pow2_count [of n] assms by (auto simp: is_pow2_count_def)
  then show ?thesis using take_bit_eq_mask [of k sq] by (simp add: take_bit_eq_mod mask_eq_exp_minus_1)
qed

section \<open>The ring as a window of the published events\<close>

text \<open>A published item: a depth update or a tick, with the event.\<close>

type_synonym pub = "bool \<times> shm_event"

definition publish :: "bytes \<Rightarrow> f64 \<Rightarrow> int \<Rightarrow> pub \<Rightarrow> shm_mem \<times> shm_writer \<Rightarrow> (shm_mem \<times> shm_writer) \<times> unit res" where
  "publish junk now sq p s = (if fst p then write_depth junk now sq (snd p) s else write_tick junk now sq (snd p) s)"

fun publish_all :: "bytes \<Rightarrow> f64 \<Rightarrow> int \<Rightarrow> pub list \<Rightarrow> shm_mem \<times> shm_writer \<Rightarrow> (shm_mem \<times> shm_writer) \<times> unit res" where
  "publish_all junk now sq [] s = (s, Inr ())"
| "publish_all junk now sq (p # ps) s =
     (case publish junk now sq p s of (s1, Inl x) \<Rightarrow> (s1, Inl x) | (s1, Inr _) \<Rightarrow> publish_all junk now (sq + 1) ps s1)"

definition pub_event :: "pub \<Rightarrow> shm_event" where
  "pub_event p =
     (if fst p then (snd p)\<lparr>se_type := EVENT_TYPE_DEPTH, se_source := depth_source\<rparr> else (snd p)\<lparr>se_type := EVENT_TYPE_TICK\<rparr>)"

definition pub_seen :: "pub \<Rightarrow> shm_event" where
  "pub_seen p = slot_seen (if fst p then 1 else 0) (pub_event p)"

definition pub_payload :: "pub \<Rightarrow> bytes res" where
  "pub_payload p = spack LE PAYLOAD_STRUCT (payload_vals (if fst p then 1 else 0) (pub_event p))"

text \<open>The window: the last \<open>slot_count\<close> items lie in their slots, a slot not yet reached is uncommitted.\<close>

definition ring_inv :: "shm_mem \<Rightarrow> shm_writer \<Rightarrow> int \<Rightarrow> pub list \<Rightarrow> bool" where
  "ring_inv m w n ps =
     (int (length (sh_slots m)) = n \<and> is_pow2_count n \<and> w_mask w = n - 1 \<and> sh_slot_count m = n
      \<and> sh_head m = int (length ps)
      \<and> (\<forall>s. int (length ps) - n \<le> s \<longrightarrow> 0 \<le> s \<longrightarrow> s < int (length ps) \<longrightarrow>
            fst (sh_slots m ! nat (s mod n)) = s \<and> pub_payload (ps ! nat s) = Inr (snd (sh_slots m ! nat (s mod n))))
      \<and> (\<forall>i. int (length ps) \<le> i \<longrightarrow> i < n \<longrightarrow> fst (sh_slots m ! nat i) = UNCOMMITTED))"

lemma publish_effect:
  assumes "publish junk now sq p (m, w) = (s1, Inr ())"
  obtains payload where "pub_payload p = Inr payload" and "0 \<le> sq" and "sq + 1 < 2 ^ 64"
    and "sh_slots (fst s1) = (sh_slots m)[nat (sq AND w_mask w) := (sq, payload)]"
    and "sh_head (fst s1) = sq + 1" and "w_mask (snd s1) = w_mask w" and "sh_slot_count (fst s1) = sh_slot_count m"
proof -
  let ?d = "if fst p then 1 else 0 :: int"
  have e: "publish junk now sq p (m, w) = write_event ?d junk now sq (pub_event p) (m, w)"
    by (simp add: publish_def write_depth_def write_tick_def pub_event_def)
  obtain payload where pl: "pub_payload p = Inr payload"
    using assms unfolding e write_event_def pub_payload_def by (auto simp: Let_def split: sum.split_asm)
  have r: "0 \<le> sq" "sq + 1 < 2 ^ 64"
    using assms pl unfolding e write_event_def pub_payload_def by (auto simp: Let_def split: if_split_asm)
  define s0 where "s0 = ((set_slot m (nat (sq AND w_mask w)) (sq, payload))\<lparr>sh_head := sq + 1\<rparr>, w\<lparr>w_head_seq := sq + 1\<rparr>)"
  have "s1 = s0 \<or> s1 = update_heartbeat now None s0"
    using assms pl r unfolding e write_event_def pub_payload_def s0_def by (auto simp: Let_def split: if_split_asm)
  then show thesis using that [OF pl r] by (auto simp: s0_def update_heartbeat_def set_slot_def Let_def)
qed

lemma mod_window: "0 < n \<Longrightarrow> a mod n = b mod n \<Longrightarrow> a \<le> b \<Longrightarrow> b < a + n \<Longrightarrow> a = b" for a b n :: int
proof -
  assume a: "0 < n" "a mod n = b mod n" "a \<le> b" "b < a + n"
  then have "n dvd b - a" by (metis mod_eq_dvd_iff)
  then have "\<not> 0 < b - a" using a zdvd_not_zless [of "b - a" n] by linarith
  then show ?thesis using a by simp
qed

lemma publish_inv:
  assumes "ring_inv m w n ps" and "publish junk now (int (length ps)) p (m, w) = (s1, Inr ())"
  shows "ring_inv (fst s1) (snd s1) n (ps @ [p])"
proof -
  let ?L = "int (length ps)"
  have n: "is_pow2_count n" "w_mask w = n - 1" "int (length (sh_slots m)) = n" using assms(1) by (auto simp: ring_inv_def)
  then have pos: "2 \<le> n" by (simp add: is_pow2_count_def)
  obtain payload where pl: "pub_payload p = Inr payload"
    and sl: "sh_slots (fst s1) = (sh_slots m)[nat (?L mod n) := (?L, payload)]"
    and hd: "sh_head (fst s1) = ?L + 1" "w_mask (snd s1) = w_mask w" "sh_slot_count (fst s1) = sh_slot_count m"
    using publish_effect [OF assms(2)] mask_mod [OF n(1)] n(2) by metis
  have idx: "0 \<le> ?L mod n" "?L mod n < n" using pos by auto
  have win: "fst (sh_slots (fst s1) ! nat (s mod n)) = s
      \<and> pub_payload ((ps @ [p]) ! nat s) = Inr (snd (sh_slots (fst s1) ! nat (s mod n)))"
    if "?L + 1 - n \<le> s" "0 \<le> s" "s < ?L + 1" for s
  proof (cases "s = ?L")
    case True
    then show ?thesis using idx n(3) pl by (simp add: sl nth_append)
  next
    case False
    then have lt: "s < ?L" using that by simp
    then have "s mod n \<noteq> ?L mod n" using mod_window [of n s ?L] pos that by auto
    then have ne: "nat (s mod n) \<noteq> nat (?L mod n)" using pos by (simp add: eq_nat_nat_iff)
    have "nat s < length ps" using lt that by linarith
    then show ?thesis using assms(1) that lt ne by (auto simp: ring_inv_def sl nth_append)
  qed
  have "fst (sh_slots (fst s1) ! nat i) = UNCOMMITTED" if "?L + 1 \<le> i" "i < n" for i
  proof -
    have "?L mod n = ?L" using that by (intro mod_pos_pos_trivial) auto
    then have "nat i \<noteq> nat (?L mod n)" using that by simp
    then show ?thesis using assms(1) that by (simp add: ring_inv_def sl)
  qed
  then show ?thesis using assms(1) win hd n by (simp add: ring_inv_def sl)
qed

lemma publish_all_inv:
  assumes "ring_inv m w n ps" and "publish_all junk now (int (length ps)) qs (m, w) = (s1, Inr ())"
  shows "ring_inv (fst s1) (snd s1) n (ps @ qs)"
  using assms
proof (induction qs arbitrary: m w ps)
  case (Cons q qs)
  obtain m1 w1 where p: "publish junk now (int (length ps)) q (m, w) = ((m1, w1), Inr ())"
    and r: "publish_all junk now (int (length ps) + 1) qs (m1, w1) = (s1, Inr ())"
    using Cons.prems(2) by (auto split: prod.split_asm sum.split_asm)
  have "ring_inv m1 w1 n (ps @ [q])" using publish_inv [OF Cons.prems(1) p] by simp
  then show ?case using Cons.IH [of m1 w1 "ps @ [q]"] r by (simp add: add.commute)
qed auto

lemma writer_open_inv:
  assumes "writer_open n ep now pct old = Inr (m, w)" and "int (length old) = n"
  shows "ring_inv m w n []"
proof -
  have "n \<ge> 2" "is_pow2_count n" using assms by (auto simp: writer_open_def is_pow2_count_def split: if_split_asm)
  then show ?thesis using assms by (auto simp: writer_open_def ring_inv_def bindr_Inr)
qed

lemma read_slot_window:
  assumes "ring_inv m w n ps" and "reader_open pct m = Inr r" and "0 \<le> sq" and "sq < UNCOMMITTED"
    and "list_all (\<lambda>p. slot_text_ok (pub_event p)) ps"
  shows "fst (read_slot now sq m (r\<lparr>r_stats := st\<rparr>)) =
     (if int (length ps) - n \<le> sq \<and> sq < int (length ps) then Some (sq, pub_seen (ps ! nat sq)) else None)"
proof -
  let ?L = "int (length ps)" and ?r = "r\<lparr>r_stats := st\<rparr>"
  have r: "r_attached r" "r_slot_count r = n" "r_mask r = n - 1" and p2: "is_pow2_count n" and hd: "sh_head m = ?L"
    using assms(1,2) by (auto simp: reader_open_def ring_inv_def bindr_Inr split: if_split_asm)
  have pos: "2 \<le> n" using p2 by (simp add: is_pow2_count_def)
  have ix: "sq AND r_mask ?r = sq mod n" using mask_mod [OF p2] r(3) by simp
  show ?thesis
  proof (cases "?L - n \<le> sq \<and> sq < ?L")
    case True
    then have s: "fst (sh_slots m ! nat (sq mod n)) = sq" "pub_payload (ps ! nat sq) = Inr (snd (sh_slots m ! nat (sq mod n)))"
      using assms(1,3) by (auto simp: ring_inv_def)
    have "nat sq < length ps" using True assms(3) by linarith
    then have "slot_text_ok (pub_event (ps ! nat sq))" using assms(5) by (simp add: list_all_length)
    then have "decode_payload (snd (sh_slots m ! nat (sq mod n))) = Some (pub_seen (ps ! nat sq))"
      using slot_roundtrip s(2) unfolding pub_payload_def pub_seen_def by blast
    then show ?thesis using True r hd s(1) ix by (simp add: read_slot_def Let_def lapped_def)
  next
    case False
    have "fst (sh_slots m ! nat (sq mod n)) \<noteq> sq" if "\<not> lapped m ?r sq"
    proof -
      have ge: "?L \<le> sq" using that False hd r assms(3) by (auto simp: lapped_def)
      show ?thesis
      proof (cases "sq mod n < ?L")
        case True
        define s where "s = ?L - 1 - (?L - 1 - sq mod n) mod n"
        have "s mod n = sq mod n" by (simp add: s_def mod_diff_right_eq)
        moreover have "0 \<le> s" "s < ?L" "?L - n \<le> s"
          using True pos pos_mod_bound [of n "?L - 1 - sq mod n"] pos_mod_sign [of n "?L - 1 - sq mod n"]
            zmod_le_nonneg_dividend [of "?L - 1 - sq mod n" n] pos_mod_sign [of n sq]
          unfolding s_def by linarith+
        ultimately have "fst (sh_slots m ! nat (sq mod n)) = s" using assms(1) by (auto simp: ring_inv_def)
        then show ?thesis using ge \<open>s < ?L\<close> by simp
      next
        case False
        moreover have "sq mod n < n" using pos by simp
        ultimately have "fst (sh_slots m ! nat (sq mod n)) = UNCOMMITTED" using assms(1) by (auto simp: ring_inv_def)
        then show ?thesis using assms(4) by simp
      qed
    qed
    then show ?thesis using False r ix by (auto simp: read_slot_def Let_def)
  qed
qed

text \<open>C11: the ring is the window of the last \<open>slot_count\<close> events.  Open a segment (whatever its slots held before), publish
  any ticks and depth updates under consecutive sequence numbers and attach a reader: for every sequence number
  \<open>read_slot\<close> returns the event published under it, absent numbers absent and present ones with their value, if it
  is among the last \<open>slot_count\<close> ones, and nothing otherwise.\<close>

theorem shm_ring_is_a_window:
  assumes "writer_open n ep now pct old = Inr s0" and "int (length old) = n"
    and "publish_all junk now 0 ps s0 = ((m, w), Inr ())" and "reader_open pct m = Inr r"
    and "0 \<le> sq" and "sq < UNCOMMITTED" and "list_all (\<lambda>p. slot_text_ok (pub_event p)) ps"
  shows "fst (read_slot now' sq m r) =
     (if int (length ps) - n \<le> sq \<and> sq < int (length ps) then Some (sq, pub_seen (ps ! nat sq)) else None)"
proof -
  have "ring_inv (fst s0) (snd s0) n []" using writer_open_inv [of n ep now pct old "fst s0" "snd s0"] assms(1,2) by simp
  then have "ring_inv m w n ps" using publish_all_inv [of "fst s0" "snd s0" n "[]" junk now ps "(m, w)"] assms(3) by simp
  from read_slot_window [OF this assms(4-7), of now' "r_stats r"] show ?thesis by simp
qed

section \<open>Batches and streams\<close>

text \<open>A batch never has more than one event.  \<open>read_batch\<close> starts at the newest event instead of at the reader's own
  position, so on a ring that is not being written it returns at most the newest event, however many unread
  events the ring holds and whatever \<open>max_n\<close> asks for.\<close>

theorem read_batch_returns_at_most_one:
  assumes "writer_open n ep now pct old = Inr s0" and "int (length old) = n"
    and "publish_all junk now 0 ps s0 = ((m, w), Inr ())" and "reader_open pct m = Inr r"
    and "int (length ps) < UNCOMMITTED" and "list_all (\<lambda>p. slot_text_ok (pub_event p)) ps" and "0 < max_n" and "ps \<noteq> []"
  shows "fst (read_batch now' max_n m r) = [(int (length ps) - 1, pub_seen (last ps))]"
proof -
  have "ring_inv (fst s0) (snd s0) n []" using writer_open_inv [of n ep now pct old "fst s0" "snd s0"] assms(1,2) by simp
  then have inv: "ring_inv m w n ps" using publish_all_inv [of "fst s0" "snd s0" n "[]" junk now ps "(m, w)"] assms(3) by simp
  let ?c = "int (length ps) - 1"
  have L: "0 \<le> ?c" using assms(8) by (cases ps) auto
  have n2: "2 \<le> n" and hd: "sh_head m = int (length ps)" using inv by (auto simp: ring_inv_def is_pow2_count_def)
  have c: "read_latest_seq m r = ?c" using assms(4) hd L by (auto simp: read_latest_seq_def reader_open_def bindr_Inr split: if_split_asm)
  have nc: "nat ?c = length ps - 1" by simp
  have win: "fst (read_slot now' q m (r\<lparr>r_stats := st\<rparr>)) = (if q = ?c then Some (?c, pub_seen (last ps)) else None)"
    if "?c \<le> q" "q < UNCOMMITTED" for q st
    using read_slot_window [OF inv assms(4) _ that(2) assms(6), of now' st] that L n2 assms(8)
    by (auto simp: last_conv_nth nc)
  have keep: "snd (read_slot now' q m (r\<lparr>r_stats := st\<rparr>)) = r\<lparr>r_stats := r_stats (snd (read_slot now' q m (r\<lparr>r_stats := st\<rparr>)))\<rparr>" for q st
    by (simp add: read_slot_def Let_def)
  have tail: "fst (read_batch_loop now' qs m (r\<lparr>r_stats := st\<rparr>)) = []" if "qs = [] \<or> hd qs = ?c + 1" for qs st
  proof (cases qs)
    case (Cons q qs')
    then have "fst (read_slot now' q m (r\<lparr>r_stats := st\<rparr>)) = None" using win [of q st] that assms(5) by auto
    then show ?thesis using Cons by (cases "read_slot now' q m (r\<lparr>r_stats := st\<rparr>)") simp
  qed simp
  have qs: "py_range ?c (?c + max_n) = ?c # [?c + 1..?c + max_n - 1]" using assms(7) upto_rec1 [of ?c "?c + max_n - 1"] by simp
  have first: "fst (read_slot now' ?c m r) = Some (?c, pub_seen (last ps))" using win [of ?c "r_stats r"] assms(5) by simp
  obtain r1 where r1: "read_slot now' ?c m r = (Some (?c, pub_seen (last ps)), r\<lparr>r_stats := r1\<rparr>)"
    using first keep [of ?c "r_stats r"] by (metis prod.collapse shm_reader.surjective shm_reader.update_convs(7))
  have hd2: "[?c + 1..?c + max_n - 1] = [] \<or> hd [?c + 1..?c + max_n - 1] = ?c + 1"
    using upto_rec1 [of "?c + 1" "?c + max_n - 1"] by (cases "?c + 1 \<le> ?c + max_n - 1") auto
  show ?thesis using tail [OF hd2, of r1] unfolding read_batch_def c Let_def qs by (simp add: r1 split_beta)
qed

text \<open>A run of the stream: each turn sees whatever memory is there at that time.\<close>

fun stream_run :: "(f64 \<times> shm_mem) list \<Rightarrow> int \<times> shm_reader \<Rightarrow> stream_out list \<times> int \<times> shm_reader" where
  "stream_run [] cr = ([], cr)"
| "stream_run ((now, m) # ms) cr =
     (case stream_turn now m cr of (o1, cr1) \<Rightarrow> (case stream_run ms cr1 of (os, cr2) \<Rightarrow> (o1 # os, cr2)))"

fun item_seqs :: "stream_out list \<Rightarrow> int list" where
  "item_seqs [] = []"
| "item_seqs (Item q e # os) = q # item_seqs os"
| "item_seqs (_ # os) = item_seqs os"

lemma read_slot_skips: "skipped_ticks (r_stats (snd (read_slot now sq m r))) = skipped_ticks (r_stats r)"
  and read_slot_seq: "fst (read_slot now sq m r) = Some (q, e) \<Longrightarrow> q = sq"
  by (auto simp: read_slot_def Let_def split: if_split_asm)

lemma stream_turn_moves:
  assumes "stream_turn now m (c, r) = (out, c', r')" and "out \<noteq> EpochChange"
  shows "c' = c + (skipped_ticks (r_stats r') - skipped_ticks (r_stats r)) + int (length (item_seqs [out]))"
    and "skipped_ticks (r_stats r) \<le> skipped_ticks (r_stats r')"
    and "\<forall>q\<in>set (item_seqs [out]). c \<le> q \<and> q = c' - 1"
proof -
  define lap where "lap = lapped m r c"
  define c1 where "c1 = (if lap then sh_head m - r_slot_count r else c)"
  define r1 where "r1 = (if lap then r\<lparr>r_stats := (r_stats r)\<lparr>skipped_ticks := skipped_ticks (r_stats r) + max 0 (sh_head m - r_slot_count r - c)\<rparr>\<rparr> else r)"
  have t: "(out, c', r') = (case read_slot now c1 m r1 of (Some (q, e), r2) \<Rightarrow> (Item q e, c1 + 1, r2) | (None, r2) \<Rightarrow> (NoItem, c1, r2))"
  proof -
    have e: "\<not> sh_epoch m \<noteq> r_epoch_id r" using assms by (auto simp: stream_turn_def Let_def split: if_split_asm)
    show ?thesis
      using assms(1) unfolding stream_turn_def Let_def fst_conv snd_conv lap_def c1_def r1_def if_not_P [OF e] by (rule sym)
  qed
  have c1: "c1 = c + (skipped_ticks (r_stats r1) - skipped_ticks (r_stats r))" "c \<le> c1"
    by (auto simp: c1_def r1_def lap_def lapped_def)
  obtain x r2 where rs: "read_slot now c1 m r1 = (x, r2)" by (rule prod.exhaust)
  have sk: "skipped_ticks (r_stats r2) = skipped_ticks (r_stats r1)" using read_slot_skips [of now c1 m r1] rs by simp
  have o: "(x = None \<and> out = NoItem \<and> c' = c1 \<or> (\<exists>e. x = Some (c1, e) \<and> out = Item c1 e \<and> c' = c1 + 1)) \<and> r' = r2"
    using t rs read_slot_seq [of now c1 m r1] by (cases x) auto
  show "c' = c + (skipped_ticks (r_stats r') - skipped_ticks (r_stats r)) + int (length (item_seqs [out]))"
    and "skipped_ticks (r_stats r) \<le> skipped_ticks (r_stats r')"
    and "\<forall>q\<in>set (item_seqs [out]). c \<le> q \<and> q = c' - 1"
    using o c1 sk by auto
qed

lemma item_seqs_Cons: "item_seqs (out # os) = item_seqs [out] @ item_seqs os"
  by (cases out) simp_all

text \<open>A stream delivers or counts every sequence number.  Whatever the writer does between the turns, as long as no
  new epoch begins, the delivered sequence numbers are strictly increasing from the start of the stream, and
  the distance the cursor has covered is the number of delivered events plus the increase of \<open>skipped_ticks\<close>.\<close>

theorem stream_accounts_for_every_event:
  assumes "stream_run ms (c, r) = (os, c', r')" and "EpochChange \<notin> set os"
  shows "c' - c = int (length (item_seqs os)) + (skipped_ticks (r_stats r') - skipped_ticks (r_stats r))
     \<and> sorted_wrt (<) (item_seqs os) \<and> (\<forall>q\<in>set (item_seqs os). c \<le> q \<and> q < c')"
proof -
  have "c \<le> c' \<and> c' - c = int (length (item_seqs os)) + (skipped_ticks (r_stats r') - skipped_ticks (r_stats r))
     \<and> sorted_wrt (<) (item_seqs os) \<and> (\<forall>q\<in>set (item_seqs os). c \<le> q \<and> q < c')"
    using assms
  proof (induction ms arbitrary: c r os)
    case (Cons nm ms)
    obtain now m where nm: "nm = (now, m)" by (cases nm)
    obtain out c1 r1 os' where t: "stream_turn now m (c, r) = (out, c1, r1)" and u: "stream_run ms (c1, r1) = (os', c', r')"
      and os: "os = out # os'"
      using Cons.prems(1) by (auto simp: nm split: prod.split_asm)
    have e: "out \<noteq> EpochChange" "EpochChange \<notin> set os'" using Cons.prems(2) by (auto simp: os)
    note mv = stream_turn_moves [OF t e(1)]
    note IH = Cons.IH [OF u e(2)]
    show ?case unfolding os item_seqs_Cons [of out os'] using mv IH e(1)
      by (cases out) auto
  qed simp
  then show ?thesis by blast
qed

section \<open>A concrete ring\<close>

definition demo_event :: shm_event where
  "demo_event = \<lparr>se_type = 1, se_sym = [65], se_source = [66], se_price = Some 0, se_size = None, se_bid = None, se_ask = None,
     se_bid_size = None, se_ask_size = None, se_status = ''VALID'', se_crossed = False, se_exchange_ts = 0,
     se_ingest_ts = 0, se_broadcast_ts = 0, se_engine_us = 0\<rparr>"

definition demo_pct :: f64 where "demo_pct = 0x3FE999999999999A"

definition demo_pubs :: "pub list" where
  "demo_pubs = [(False, demo_event), (True, demo_event), (False, demo_event)]"

definition demo_ring :: "((shm_mem \<times> shm_writer) \<times> unit res) res" where
  "demo_ring = bindr (writer_open 2 77 0 demo_pct [[], []]) (\<lambda>s. Inr (publish_all [] 0 0 demo_pubs s))"

lemma demo_ring_ok: "map_sum id snd demo_ring = Inr (Inr ())"
  "map_sum id (\<lambda>x. isl (reader_open demo_pct (fst (fst x)))) demo_ring = Inr False"
  by code_simp+

lemma demo_ring_runs:
  obtains s0 m w r where "writer_open 2 77 0 demo_pct [[], []] = Inr s0"
    "publish_all [] 0 0 demo_pubs s0 = ((m, w), Inr ())" "reader_open demo_pct m = Inr r"
proof -
  obtain s0 where s0: "writer_open 2 77 0 demo_pct [[], []] = Inr s0" and d: "demo_ring = Inr (publish_all [] 0 0 demo_pubs s0)"
    using demo_ring_ok(1) by (cases "writer_open 2 77 0 demo_pct [[], []]") (auto simp: demo_ring_def)
  obtain m w where p: "publish_all [] 0 0 demo_pubs s0 = ((m, w), Inr ())"
    using demo_ring_ok(1) d by (metis map_sum.simps(2) prod.collapse sum.inject(2))
  have "\<not> isl (reader_open demo_pct m)" using demo_ring_ok(2) unfolding d p by simp
  then obtain r where "reader_open demo_pct m = Inr r" by (cases "reader_open demo_pct m") auto
  then show thesis using that s0 p by blast
qed

lemma demo_pubs_text: "list_all (\<lambda>p. slot_text_ok (pub_event p)) demo_pubs"
  by (simp add: demo_pubs_def slot_text_ok_def pub_event_def demo_event_def ascii_text_def depth_source_def)

theorem shm_ring_is_a_window_witness:
  "\<exists>m r. reader_open demo_pct m = Inr r \<and> fst (read_slot 0 0 m r) = None
     \<and> fst (read_slot 0 1 m r) = Some (1, pub_seen (True, demo_event))
     \<and> fst (read_slot 0 2 m r) = Some (2, pub_seen (False, demo_event)) \<and> fst (read_slot 0 3 m r) = None"
proof -
  obtain s0 m w r where s: "writer_open 2 77 0 demo_pct [[], []] = Inr s0"
    "publish_all [] 0 0 demo_pubs s0 = ((m, w), Inr ())" "reader_open demo_pct m = Inr r" by (rule demo_ring_runs)
  note t = shm_ring_is_a_window [OF s(1) _ s(2,3) _ _ demo_pubs_text, of _ 0, simplified]
  have l: "length demo_pubs = 3" "demo_pubs ! 1 = (True, demo_event)" "demo_pubs ! 2 = (False, demo_event)"
    by (simp_all add: demo_pubs_def)
  show ?thesis using t [of 0] t [of 1] t [of 2] t [of 3] s(3) l by (intro exI [of _ m] exI [of _ r]) (simp add: UNCOMMITTED_def)
qed

theorem read_batch_returns_at_most_one_witness:
  "\<exists>m r. reader_open demo_pct m = Inr r \<and> sh_head m = 3 \<and> fst (read_batch 0 64 m r) = [(2, pub_seen (False, demo_event))]"
proof -
  obtain s0 m w r where s: "writer_open 2 77 0 demo_pct [[], []] = Inr s0"
    "publish_all [] 0 0 demo_pubs s0 = ((m, w), Inr ())" "reader_open demo_pct m = Inr r" by (rule demo_ring_runs)
  have l: "length demo_pubs = 3" "last demo_pubs = (False, demo_event)" "demo_pubs \<noteq> []"
    by (simp_all add: demo_pubs_def)
  have "ring_inv (fst s0) (snd s0) 2 []" using writer_open_inv [of 2 77 0 demo_pct "[[], []]" "fst s0" "snd s0"] s(1) by simp
  then have "ring_inv m w 2 demo_pubs" using publish_all_inv [of "fst s0" "snd s0" 2 "[]" "[]" 0 demo_pubs "(m, w)"] s(2) by simp
  then have "sh_head m = 3" by (simp add: ring_inv_def l)
  then show ?thesis
    using read_batch_returns_at_most_one [OF s(1) _ s(2,3) _ demo_pubs_text, of 64 0] s(3) l
    by (intro exI [of _ m] exI [of _ r]) (simp add: UNCOMMITTED_def)
qed

theorem stream_accounts_for_every_event_witness:
  "\<exists>m r os c' r'. reader_open demo_pct m = Inr r \<and> stream_run [(0, m), (0, m), (0, m)] (0, r) = (os, c', r')
     \<and> c' - 0 = int (length (item_seqs os)) + (skipped_ticks (r_stats r') - skipped_ticks (r_stats r))
     \<and> sorted_wrt (<) (item_seqs os)"
proof -
  obtain s0 m w r where s: "writer_open 2 77 0 demo_pct [[], []] = Inr s0"
    "publish_all [] 0 0 demo_pubs s0 = ((m, w), Inr ())" "reader_open demo_pct m = Inr r" by (rule demo_ring_runs)
  obtain os c' r' where run: "stream_run [(0, m), (0, m), (0, m)] (0, r) = (os, c', r')" by (metis prod.exhaust)
  have turn: "fst (stream_turn 0 m (c, q)) \<noteq> EpochChange \<and> r_epoch_id (snd (snd (stream_turn 0 m (c, q)))) = r_epoch_id q"
    if "r_epoch_id q = sh_epoch m" for c q
    using that by (auto simp: stream_turn_def Let_def read_slot_def split: option.split)
  have e: "r_epoch_id r = sh_epoch m" using s(3) by (auto simp: reader_open_def bindr_Inr split: if_split_asm)
  have "EpochChange \<notin> set (fst (stream_run (replicate k (0, m)) (c, q)))" if "r_epoch_id q = sh_epoch m" for k c q
    using that
  proof (induction k arbitrary: c q)
    case (Suc k)
    obtain out c1 q1 where t: "stream_turn 0 m (c, q) = (out, c1, q1)" by (metis prod.exhaust)
    then have "out \<noteq> EpochChange" "r_epoch_id q1 = sh_epoch m" using turn [OF Suc.prems, of c] Suc.prems by simp_all
    then show ?case using Suc.IH [of q1 c1] t by (simp split: prod.split) (metis fst_conv)
  qed simp
  from this [OF e, of 3 0] have "EpochChange \<notin> set os" using run by (simp add: numeral_3_eq_3)
  then show ?thesis using stream_accounts_for_every_event [OF run] run s(3) by blast
qed

end
