(* ===== verification/Shm_Race.thy ===== *)
theory Shm_Race
  imports Shm_Props
begin

text \<open>
  The race between the writer and a reader of the shared-memory ring.  A write is the sequence of its memory
  actions (invalidate, the payload byte by byte, commit, publish the head), a read the sequence of its loads
  (commit word, payload byte by byte, commit word again), and the two are interleaved in any way.  Memory is
  sequentially consistent, which the code requires of the machine (\<open>_check_arm_shm_safety\<close>).
\<close>

section \<open>Memory actions\<close>

datatype shm_act = SetCommit nat int | SetByte nat nat byte | SetHead int

fun apply_act :: "shm_mem \<Rightarrow> shm_act \<Rightarrow> shm_mem" where
  "apply_act m (SetCommit i c) = set_slot m i (c, snd (sh_slots m ! i))"
| "apply_act m (SetByte i j b) = set_slot m i (fst (sh_slots m ! i), (snd (sh_slots m ! i))[j := b])"
| "apply_act m (SetHead h) = m\<lparr>sh_head := h\<rparr>"

definition byte_acts :: "nat \<Rightarrow> bytes \<Rightarrow> nat \<Rightarrow> shm_act list" where
  "byte_acts i p k = map (\<lambda>j. SetByte i j (p ! j)) [k..<length p]"

definition write_acts :: "nat \<Rightarrow> int \<Rightarrow> bytes \<Rightarrow> shm_act list" where
  "write_acts i sq p = SetCommit i UNCOMMITTED # byte_acts i p 0 @ [SetCommit i sq, SetHead (sq + 1)]"

lemma byte_acts_Cons: "k < length p \<Longrightarrow> byte_acts i p k = SetByte i k (p ! k) # byte_acts i p (Suc k)"
  by (simp add: byte_acts_def upt_conv_Cons)

lemma byte_acts_Nil: "length p \<le> k \<Longrightarrow> byte_acts i p k = []"
  by (simp add: byte_acts_def)

lemma set_slot_same: "i < length (sh_slots m) \<Longrightarrow> sh_slots (set_slot m i v) ! i = v"
  by (simp add: set_slot_def)

lemma set_slot_twice [simp]: "set_slot (set_slot m i v) i v' = set_slot m i v'"
  by (simp add: set_slot_def)

lemma write_bytes_effect:
  assumes "i < length (sh_slots m)" and "sh_slots m ! i = (c, q)" and "length q = length p" and "take k q = take k p" and "k \<le> length p"
  shows "foldl apply_act m (byte_acts i p k) = set_slot m i (c, p)"
  using assms
proof (induction "length p - k" arbitrary: k m q)
  case 0
  then have "q = p" using 0 by simp
  then have "(sh_slots m)[i := (c, p)] = sh_slots m" using 0 by (metis list_update_id)
  then show ?case using 0 by (simp add: byte_acts_Nil set_slot_def)
next
  case (Suc d)
  then have k: "k < length p" by simp
  let ?m = "apply_act m (SetByte i k (p ! k))"
  have m: "?m = set_slot m i (c, q[k := p ! k])" using Suc.prems by simp
  have "take (Suc k) (q[k := p ! k]) = take (Suc k) p"
    using k Suc.prems by (simp add: take_Suc_conv_app_nth)
  then have "foldl apply_act ?m (byte_acts i p (Suc k)) = set_slot ?m i (c, p)"
    using Suc.hyps(1) [of "Suc k" ?m "q[k := p ! k]"] Suc.hyps(2) Suc.prems k by (simp add: m set_slot_same) (simp add: set_slot_def)
  then show ?case using k by (simp add: byte_acts_Cons m)
qed

text \<open>The actions, run without interruption, are the effect of \<open>write_event\<close> on slots and head.\<close>

lemma write_acts_effect:
  assumes "i < length (sh_slots m)" and "length (snd (sh_slots m ! i)) = length p"
  shows "foldl apply_act m (write_acts i sq p) = (set_slot m i (sq, p))\<lparr>sh_head := sq + 1\<rparr>"
proof -
  let ?m = "set_slot m i (UNCOMMITTED, snd (sh_slots m ! i))"
  have "foldl apply_act ?m (byte_acts i p 0) = set_slot ?m i (UNCOMMITTED, p)"
    using assms by (intro write_bytes_effect [of i ?m UNCOMMITTED "snd (sh_slots m ! i)" p 0]) (simp_all add: set_slot_def)
  then show ?thesis using assms(1) by (simp add: write_acts_def set_slot_same)
qed

section \<open>The race\<close>

datatype rd_state = RIdle | RGot int bytes | RDone int bytes | RNone

record race =
  rc_mem :: shm_mem
  rc_todo :: "shm_act list"
  rc_hist :: "(int \<times> bytes) list"
  rc_rd :: rd_state

abbreviation slot_ix :: "shm_mem \<Rightarrow> int \<Rightarrow> nat" where
  "slot_ix m sq \<equiv> nat (sq mod int (length (sh_slots m)))"

definition commit_of :: "shm_mem \<Rightarrow> int \<Rightarrow> int" where
  "commit_of m sq = fst (sh_slots m ! slot_ix m sq)"

inductive race_step :: "race \<Rightarrow> race \<Rightarrow> bool" where
  start_write: "rc_todo s = [] \<Longrightarrow> \<forall>(q, p)\<in>set (rc_hist s). q < sq \<Longrightarrow> 0 \<le> sq \<Longrightarrow> sq < UNCOMMITTED \<Longrightarrow> length p = 120 \<Longrightarrow>
     race_step s (s\<lparr>rc_todo := write_acts (slot_ix (rc_mem s) sq) sq p, rc_hist := rc_hist s @ [(sq, p)]\<rparr>)"
| write_action: "rc_todo s = a # as \<Longrightarrow> race_step s (s\<lparr>rc_mem := apply_act (rc_mem s) a, rc_todo := as\<rparr>)"
| read_begin: "rc_rd s \<in> {RIdle, RNone, RDone q' xs'} \<Longrightarrow> 0 \<le> sq \<Longrightarrow> sq < UNCOMMITTED \<Longrightarrow>
     race_step s (s\<lparr>rc_rd := (if commit_of (rc_mem s) sq = sq then RGot sq [] else RNone)\<rparr>)"
| read_byte: "rc_rd s = RGot sq xs \<Longrightarrow> length xs < 120 \<Longrightarrow>
     race_step s (s\<lparr>rc_rd := RGot sq (xs @ [snd (sh_slots (rc_mem s) ! slot_ix (rc_mem s) sq) ! length xs])\<rparr>)"
| read_end: "rc_rd s = RGot sq xs \<Longrightarrow> length xs = 120 \<Longrightarrow>
     race_step s (s\<lparr>rc_rd := (if commit_of (rc_mem s) sq = sq then RDone sq xs else RNone)\<rparr>)"

inductive_cases race_stepE: "race_step s t"

text \<open>The invariant of memory: a committed slot holds the payload of its sequence number.\<close>

definition slots_ok :: "shm_mem \<Rightarrow> (int \<times> bytes) list \<Rightarrow> bool" where
  "slots_ok m hist =
     (0 < length (sh_slots m)
      \<and> (\<forall>i<length (sh_slots m). length (snd (sh_slots m ! i)) = 120
           \<and> (fst (sh_slots m ! i) \<noteq> UNCOMMITTED \<longrightarrow> sh_slots m ! i \<in> set hist)))"

text \<open>The writer is between writes, about to invalidate, inside the payload, or past the commit.\<close>

definition uncommitted_seq :: "shm_mem \<Rightarrow> int \<Rightarrow> bool" where
  "uncommitted_seq m sq = (\<forall>j<length (sh_slots m). fst (sh_slots m ! j) \<noteq> sq)"

inductive writer_ok :: "shm_mem \<Rightarrow> shm_act list \<Rightarrow> (int \<times> bytes) list \<Rightarrow> bool" where
  w_idle: "writer_ok m [] hist"
| w_begun: "i < length (sh_slots m) \<Longrightarrow> (sq, p) \<in> set hist \<Longrightarrow> uncommitted_seq m sq \<Longrightarrow>
     writer_ok m (write_acts i sq p) hist"
| w_inside: "i < length (sh_slots m) \<Longrightarrow> (sq, p) \<in> set hist \<Longrightarrow> uncommitted_seq m sq \<Longrightarrow> k \<le> length p \<Longrightarrow>
     fst (sh_slots m ! i) = UNCOMMITTED \<Longrightarrow> take k (snd (sh_slots m ! i)) = take k p \<Longrightarrow>
     writer_ok m (byte_acts i p k @ [SetCommit i sq, SetHead (sq + 1)]) hist"
| w_published: "writer_ok m [SetHead h] hist"

definition no_commit :: "int \<Rightarrow> shm_act list \<Rightarrow> bool" where
  "no_commit sq as = (\<forall>i. SetCommit i sq \<notin> set as)"

fun reader_ok :: "shm_mem \<Rightarrow> shm_act list \<Rightarrow> (int \<times> bytes) list \<Rightarrow> rd_state \<Rightarrow> bool" where
  "reader_ok m as hist (RGot sq xs) =
     (sq < UNCOMMITTED \<and> no_commit sq as \<and> length xs \<le> 120
      \<and> (\<exists>p. (sq, p) \<in> set hist \<and> (commit_of m sq = sq \<longrightarrow> xs = take (length xs) p)))"
| "reader_ok m as hist (RDone sq xs) = ((sq, xs) \<in> set hist)"
| "reader_ok m as hist _ = True"

definition hist_ok :: "(int \<times> bytes) list \<Rightarrow> bool" where
  "hist_ok hist = (distinct (map fst hist) \<and> (\<forall>(q, p)\<in>set hist. length p = 120 \<and> q < UNCOMMITTED))"

definition race_inv :: "race \<Rightarrow> bool" where
  "race_inv s =
     (slots_ok (rc_mem s) (rc_hist s) \<and> writer_ok (rc_mem s) (rc_todo s) (rc_hist s) \<and> hist_ok (rc_hist s)
      \<and> reader_ok (rc_mem s) (rc_todo s) (rc_hist s) (rc_rd s))"

section \<open>The invariant is kept\<close>

lemma length_set_slot [simp]: "length (sh_slots (set_slot m i v)) = length (sh_slots m)"
  by (simp add: set_slot_def)

lemma nth_set_slot: "i < length (sh_slots m) \<Longrightarrow> sh_slots (set_slot m i v) ! j = (if j = i then v else sh_slots m ! j)"
  by (simp add: set_slot_def)

lemma slot_ix_bound: "0 < length (sh_slots m) \<Longrightarrow> slot_ix m sq < length (sh_slots m)"
  by (simp add: nat_less_iff)

lemma commit_set_slot:
  "i < length (sh_slots m) \<Longrightarrow> commit_of (set_slot m i v) sq = (if slot_ix m sq = i then fst v else commit_of m sq)"
  by (simp add: commit_of_def nth_set_slot)

lemma committed_payload:
  assumes "slots_ok m hist" and "hist_ok hist" and "commit_of m sq = sq" and "sq < UNCOMMITTED"
  obtains p where "(sq, p) \<in> set hist" and "snd (sh_slots m ! slot_ix m sq) = p"
proof -
  have "slot_ix m sq < length (sh_slots m)" using assms(1) by (intro slot_ix_bound) (simp add: slots_ok_def)
  then have "sh_slots m ! slot_ix m sq \<in> set hist" using assms by (auto simp: slots_ok_def commit_of_def)
  then show thesis using that assms(3) by (metis commit_of_def prod.collapse)
qed

lemma hist_unique: "hist_ok hist \<Longrightarrow> (q, p) \<in> set hist \<Longrightarrow> (q, p') \<in> set hist \<Longrightarrow> p = p'"
  by (auto simp: hist_ok_def intro: eq_key_imp_eq_value)

text \<open>Changing one slot keeps the reader's invariant when the new commit word is not the one it waits for, and the
  writer has no commit of it left.\<close>

lemma reader_ok_set_slot:
  assumes "reader_ok m as hist rd" and "i < length (sh_slots m)" and "set as' \<subseteq> set as"
    and "\<And>sq xs. rd = RGot sq xs \<Longrightarrow> fst v \<noteq> sq"
  shows "reader_ok (set_slot m i v) as' hist rd"
  using assms by (cases rd) (auto simp: no_commit_def commit_set_slot)

lemma slots_ok_set_slot:
  assumes "slots_ok m hist" and "i < length (sh_slots m)" and "length (snd v) = 120" and "fst v = UNCOMMITTED \<or> v \<in> set hist"
  shows "slots_ok (set_slot m i v) hist"
  using assms by (auto simp: slots_ok_def nth_set_slot)

lemma uncommitted_set_slot:
  "uncommitted_seq m sq \<Longrightarrow> i < length (sh_slots m) \<Longrightarrow> fst v \<noteq> sq \<Longrightarrow> uncommitted_seq (set_slot m i v) sq"
  by (auto simp: uncommitted_seq_def nth_set_slot)

lemma hist_okD: "hist_ok hist \<Longrightarrow> (q, p) \<in> set hist \<Longrightarrow> length p = 120 \<and> q < UNCOMMITTED"
  by (auto simp: hist_ok_def)

lemma write_action_inv:
  assumes "writer_ok m (a # as) hist" and "slots_ok m hist" and "hist_ok hist" and "reader_ok m (a # as) hist rd"
  shows "slots_ok (apply_act m a) hist \<and> writer_ok (apply_act m a) as hist \<and> reader_ok (apply_act m a) as hist rd"
  using assms(1)
proof (cases rule: writer_ok.cases)
  case (w_begun i sq p)
  have a: "a = SetCommit i UNCOMMITTED" "as = byte_acts i p 0 @ [SetCommit i sq, SetHead (sq + 1)]"
    using w_begun(1) by (simp_all add: write_acts_def)
  have sq: "sq < UNCOMMITTED" and len: "length (snd (sh_slots m ! i)) = 120"
    using hist_okD [OF assms(3) w_begun(3)] assms(2) w_begun(2) by (auto simp: slots_ok_def)
  let ?v = "(UNCOMMITTED, snd (sh_slots m ! i))"
  have "writer_ok (set_slot m i ?v) (byte_acts i p 0 @ [SetCommit i sq, SetHead (sq + 1)]) hist"
    using w_begun sq by (intro writer_ok.w_inside) (simp_all add: nth_set_slot uncommitted_set_slot)
  moreover have "reader_ok (set_slot m i ?v) as hist rd"
    using assms(4) w_begun(2) by (intro reader_ok_set_slot [of m "a # as"]) auto
  ultimately show ?thesis using a slots_ok_set_slot [OF assms(2) w_begun(2), of ?v] len by simp
next
  case (w_inside i sq p k)
  have p: "length p = 120" "sq < UNCOMMITTED" using hist_okD [OF assms(3) w_inside(3)] by simp_all
  have len: "length (snd (sh_slots m ! i)) = 120" using assms(2) w_inside(2) by (simp add: slots_ok_def)
  show ?thesis
  proof (cases "k < length p")
    case True
    let ?v = "(UNCOMMITTED, (snd (sh_slots m ! i))[k := p ! k])"
    have a: "apply_act m a = set_slot m i ?v" "as = byte_acts i p (Suc k) @ [SetCommit i sq, SetHead (sq + 1)]"
      using w_inside(1,6) True by (simp_all add: byte_acts_Cons)
    have "take (Suc k) ((snd (sh_slots m ! i))[k := p ! k]) = take (Suc k) p"
      using True w_inside(7) len p by (simp add: take_Suc_conv_app_nth)
    then have "writer_ok (set_slot m i ?v) as hist"
      unfolding a(2) using w_inside True p by (intro writer_ok.w_inside) (simp_all add: nth_set_slot uncommitted_set_slot)
    moreover have "reader_ok (set_slot m i ?v) as hist rd"
      using assms(4) w_inside(2) by (intro reader_ok_set_slot [of m "a # as"]) auto
    ultimately show ?thesis using a slots_ok_set_slot [OF assms(2) w_inside(2), of ?v] len by simp
  next
    case False
    then have k: "k = length p" using w_inside(5) by simp
    then have "snd (sh_slots m ! i) = p" using w_inside(7) p len by simp
    then have a: "a = SetCommit i sq" "apply_act m a = set_slot m i (sq, p)" "as = [SetHead (sq + 1)]"
      using w_inside(1) k by (simp_all add: byte_acts_Nil)
    have "reader_ok (set_slot m i (sq, p)) as hist rd"
      using assms(4) w_inside(2) a(1) by (intro reader_ok_set_slot [of m "a # as"]) (auto simp: no_commit_def)
    then show ?thesis using a slots_ok_set_slot [OF assms(2) w_inside(2), of "(sq, p)"] p w_inside(3) by (simp add: writer_ok.w_published)
  qed
next
  case (w_published h)
  have "commit_of (m\<lparr>sh_head := h\<rparr>) sq = commit_of m sq" for sq by (simp add: commit_of_def)
  then show ?thesis using assms w_published by (cases rd) (auto simp: slots_ok_def no_commit_def intro: writer_ok.w_idle)
qed

lemma pending_uncommitted:
  assumes "writer_ok m as hist" and "SetCommit i sq \<in> set as" and "sq < UNCOMMITTED"
  shows "uncommitted_seq m sq"
  using assms by (cases rule: writer_ok.cases) (auto simp: write_acts_def byte_acts_def)

lemma read_begin_inv:
  assumes "slots_ok m hist" and "hist_ok hist" and "writer_ok m as hist" and "commit_of m sq = sq" and "sq < UNCOMMITTED"
  shows "reader_ok m as hist (RGot sq [])"
proof -
  have ix: "slot_ix m sq < length (sh_slots m)" using assms(1) by (intro slot_ix_bound) (simp add: slots_ok_def)
  then have "\<not> uncommitted_seq m sq" using assms(4) by (auto simp: uncommitted_seq_def commit_of_def)
  then have "no_commit sq as" using pending_uncommitted [OF assms(3) _ assms(5)] by (auto simp: no_commit_def)
  then show ?thesis using committed_payload [OF assms(1,2,4,5)] assms(5) by auto
qed

lemma race_step_inv: assumes "race_step s t" and "race_inv s" shows "race_inv t"
  using assms(1)
proof (cases rule: race_step.cases)
  case (start_write sq p)
  have inv: "slots_ok (rc_mem s) (rc_hist s)" "hist_ok (rc_hist s)" "reader_ok (rc_mem s) [] (rc_hist s) (rc_rd s)"
    using assms(2) start_write(2) by (auto simp: race_inv_def)
  let ?m = "rc_mem s" and ?h = "rc_hist s @ [(sq, p)]"
  have ix: "slot_ix ?m sq < length (sh_slots ?m)" using inv(1) by (intro slot_ix_bound) (simp add: slots_ok_def)
  have "uncommitted_seq ?m sq" using inv(1) start_write(3,5) by (fastforce simp: uncommitted_seq_def slots_ok_def)
  then have "writer_ok ?m (write_acts (slot_ix ?m sq) sq p) ?h" using ix by (intro writer_ok.w_begun) auto
  moreover have "slots_ok ?m ?h" using inv(1) by (auto simp: slots_ok_def)
  moreover have "hist_ok ?h" using inv(2) start_write(3,5,6) by (auto simp: hist_ok_def)
  moreover have "reader_ok ?m (write_acts (slot_ix ?m sq) sq p) ?h (rc_rd s)"
    using inv(3) start_write(3) by (cases "rc_rd s") (auto simp: no_commit_def write_acts_def byte_acts_def)
  ultimately show ?thesis using start_write(1) by (simp add: race_inv_def)
next
  case (write_action a as)
  then show ?thesis using assms(2) write_action_inv [of "rc_mem s" a as "rc_hist s" "rc_rd s"] by (simp add: race_inv_def)
next
  case (read_begin q' xs' sq)
  then show ?thesis using assms(2) read_begin_inv [of "rc_mem s" "rc_hist s" "rc_todo s" sq] by (simp add: race_inv_def)
next
  case (read_byte sq xs)
  let ?m = "rc_mem s"
  have inv: "slots_ok ?m (rc_hist s)" "hist_ok (rc_hist s)" "reader_ok ?m (rc_todo s) (rc_hist s) (RGot sq xs)"
    using assms(2) read_byte(2) by (auto simp: race_inv_def)
  obtain p where p: "(sq, p) \<in> set (rc_hist s)" "commit_of ?m sq = sq \<longrightarrow> xs = take (length xs) p" "sq < UNCOMMITTED"
    using inv(3) by auto
  have "xs @ [snd (sh_slots ?m ! slot_ix ?m sq) ! length xs] = take (Suc (length xs)) p" if c: "commit_of ?m sq = sq"
  proof -
    obtain p' where "(sq, p') \<in> set (rc_hist s)" "snd (sh_slots ?m ! slot_ix ?m sq) = p'"
      using committed_payload [OF inv(1,2) c p(3)] .
    then have "snd (sh_slots ?m ! slot_ix ?m sq) = p" using hist_unique [OF inv(2) p(1)] by simp
    moreover have "length xs < length p" using read_byte(3) hist_okD [OF inv(2) p(1)] by simp
    ultimately show ?thesis using p(2) c by (simp add: take_Suc_conv_app_nth)
  qed
  then have "reader_ok ?m (rc_todo s) (rc_hist s) (RGot sq (xs @ [snd (sh_slots ?m ! slot_ix ?m sq) ! length xs]))"
    using inv(3) p(1) read_byte(3) hist_okD [OF inv(2) p(1)] by (auto intro!: exI [of _ p] simp: min_def)
  then show ?thesis using assms(2) read_byte(1) by (simp add: race_inv_def)
next
  case (read_end sq xs)
  have inv: "hist_ok (rc_hist s)" "reader_ok (rc_mem s) (rc_todo s) (rc_hist s) (RGot sq xs)"
    using assms(2) read_end(2) by (auto simp: race_inv_def)
  then obtain p where p: "(sq, p) \<in> set (rc_hist s)" "commit_of (rc_mem s) sq = sq \<longrightarrow> xs = take (length xs) p" by auto
  then have "commit_of (rc_mem s) sq = sq \<Longrightarrow> xs = p" using hist_okD [OF inv(1) p(1)] read_end(3) by simp
  then show ?thesis using assms(2) read_end p(1) by (auto simp: race_inv_def)
qed

text \<open>Uninterrupted runs of the writer and of the reader.\<close>

lemma writer_runs: "race_step\<^sup>*\<^sup>* (s\<lparr>rc_todo := as\<rparr>) (s\<lparr>rc_mem := foldl apply_act (rc_mem s) as, rc_todo := []\<rparr>)"
proof (induction as arbitrary: s)
  case (Cons a as)
  have "race_step (s\<lparr>rc_todo := a # as\<rparr>) (s\<lparr>rc_mem := apply_act (rc_mem s) a, rc_todo := as\<rparr>)"
    using race_step.write_action [of "s\<lparr>rc_todo := a # as\<rparr>" a as] by simp
  also have "race_step\<^sup>*\<^sup>* \<dots> (s\<lparr>rc_mem := foldl apply_act (rc_mem s) (a # as), rc_todo := []\<rparr>)"
    using Cons.IH [of "s\<lparr>rc_mem := apply_act (rc_mem s) a\<rparr>"] by simp
  finally show ?case by simp
qed simp

lemma reader_runs:
  assumes "snd (sh_slots (rc_mem s) ! slot_ix (rc_mem s) sq) = p" and "length p = 120" and "k \<le> 120"
  shows "race_step\<^sup>*\<^sup>* (s\<lparr>rc_rd := RGot sq []\<rparr>) (s\<lparr>rc_rd := RGot sq (take k p)\<rparr>)"
  using assms(3)
proof (induction k)
  case (Suc k)
  have "race_step (s\<lparr>rc_rd := RGot sq (take k p)\<rparr>) (s\<lparr>rc_rd := RGot sq (take (Suc k) p)\<rparr>)"
    using race_step.read_byte [of "s\<lparr>rc_rd := RGot sq (take k p)\<rparr>" sq "take k p"] Suc.prems assms(1,2)
    by (simp add: take_Suc_conv_app_nth)
  then show ?case using Suc by (simp add: rtranclp.rtrancl_into_rtrancl)
qed simp

text \<open>C8: no torn read.  Let one writer publish payloads under increasing sequence numbers and a reader read slots, with
  their memory accesses interleaved in any way, byte by byte.  Whenever a read ends with both checks of the commit
  word passed, the bytes it copied are exactly the payload the writer published under that sequence number.\<close>

theorem no_torn_reads:
  assumes "race_step\<^sup>*\<^sup>* s t" and "rc_todo s = []" and "rc_hist s = []" and "rc_rd s = RIdle"
    and "0 < length (sh_slots (rc_mem s))" and "list_all (\<lambda>(c, p). c = UNCOMMITTED \<and> length p = 120) (sh_slots (rc_mem s))"
    and "rc_rd t = RDone sq xs"
  shows "(sq, xs) \<in> set (rc_hist t)"
proof -
  have "race_inv s" using assms(2-6)
    by (auto simp: race_inv_def slots_ok_def hist_ok_def list_all_length split_beta intro: writer_ok.w_idle)
  with assms(1) have "race_inv t" by (induction rule: rtranclp_induct) (auto intro: race_step_inv)
  then show ?thesis using assms(7) by (simp add: race_inv_def)
qed

text \<open>A ring of one slot: sequence number 0 is written, then read.\<close>

definition demo_race :: race where
  "demo_race =
     \<lparr>rc_mem = \<lparr>sh_magic = [], sh_version = 1, sh_slot_size = 128, sh_slot_count = 1, sh_epoch = 0, sh_head = 0, sh_heartbeat = 0,
        sh_dropped = 0, sh_flags = 0, sh_slots = [(UNCOMMITTED, replicate 120 0)]\<rparr>, rc_todo = [], rc_hist = [], rc_rd = RIdle\<rparr>"

theorem no_torn_reads_witness:
  "\<exists>t. race_step\<^sup>*\<^sup>* demo_race t \<and> rc_rd t = RDone 0 (replicate 120 1) \<and> (0, replicate 120 1) \<in> set (rc_hist t)"
proof -
  let ?p = "replicate 120 (1 :: byte)" and ?m = "rc_mem demo_race"
  define s1 where "s1 = demo_race\<lparr>rc_hist := [(0, ?p)]\<rparr>"
  define s2 where "s2 = s1\<lparr>rc_mem := foldl apply_act (rc_mem s1) (write_acts 0 0 ?p), rc_todo := []\<rparr>"
  have u: "(0::int) < UNCOMMITTED" by (simp add: UNCOMMITTED_def)
  have m2: "rc_mem s2 = (set_slot ?m 0 (0, ?p))\<lparr>sh_head := 1\<rparr>"
    using write_acts_effect [of 0 ?m ?p 0] by (simp add: s2_def s1_def demo_race_def)
  have c: "commit_of (rc_mem s2) 0 = 0" "snd (sh_slots (rc_mem s2) ! slot_ix (rc_mem s2) 0) = ?p"
    by (simp_all add: m2 commit_of_def set_slot_def demo_race_def)
  have "race_step demo_race (s1\<lparr>rc_todo := write_acts 0 0 ?p\<rparr>)"
    using race_step.start_write [of demo_race 0 ?p] u by (simp add: s1_def demo_race_def)
  also have "race_step\<^sup>*\<^sup>* \<dots> s2" unfolding s2_def by (rule writer_runs)
  also have "race_step s2 (s2\<lparr>rc_rd := RGot 0 []\<rparr>)"
    using race_step.read_begin [of s2 0 "[]" 0] c u by (simp add: s2_def s1_def demo_race_def)
  also have "race_step\<^sup>*\<^sup>* \<dots> (s2\<lparr>rc_rd := RGot 0 ?p\<rparr>)" using reader_runs [of s2 0 ?p 120] c by simp
  also have "race_step \<dots> (s2\<lparr>rc_rd := RDone 0 ?p\<rparr>)"
    using race_step.read_end [of "s2\<lparr>rc_rd := RGot 0 ?p\<rparr>" 0 ?p] c by simp
  finally have run: "race_step\<^sup>*\<^sup>* demo_race (s2\<lparr>rc_rd := RDone 0 ?p\<rparr>)" .
  have "(0, ?p) \<in> set (rc_hist (s2\<lparr>rc_rd := RDone 0 ?p\<rparr>))"
    by (rule no_torn_reads [OF run]) (simp_all add: demo_race_def)
  with run show ?thesis by (intro exI [of _ "s2\<lparr>rc_rd := RDone 0 ?p\<rparr>"]) simp
qed

end
