(* ===== verification/Pyvalue.thy ===== *)
theory Pyvalue
  imports Models
begin

text \<open>
  The dynamically typed values of a feed payload and the part of Python's semantics the engine applies to them:
  truth values, mixed integer and float arithmetic with its exceptions, exact comparison, and the key a number has in a
  set.  Texts made from a value (\<open>str\<close>, \<open>repr\<close>) are arguments of the operations that print one.
\<close>

section \<open>Numbers\<close>

datatype pynum = NI int | NF f64

definition n_to_f :: "pynum \<Rightarrow> f64 res" where
  "n_to_f a = (case a of NI n \<Rightarrow> f_of_int n | NF x \<Rightarrow> Inr x)"

definition nbin :: "(int \<Rightarrow> int \<Rightarrow> int) \<Rightarrow> (f64 \<Rightarrow> f64 \<Rightarrow> f64) \<Rightarrow> pynum \<Rightarrow> pynum \<Rightarrow> pynum res" where
  "nbin fi ff a b =
     (case (a, b) of
        (NI x, NI y) \<Rightarrow> Inr (NI (fi x y))
      | _ \<Rightarrow> bindr (n_to_f a) (\<lambda>x. bindr (n_to_f b) (\<lambda>y. Inr (NF (ff x y)))))"

definition nadd :: "pynum \<Rightarrow> pynum \<Rightarrow> pynum res" where "nadd = nbin (+) fadd"
definition nsub :: "pynum \<Rightarrow> pynum \<Rightarrow> pynum res" where "nsub = nbin (-) fsub"
definition nmul :: "pynum \<Rightarrow> pynum \<Rightarrow> pynum res" where "nmul = nbin (*) fmul"

text \<open>True division: of integers correctly rounded, with \<open>OverflowError\<close> when the quotient has no finite double.\<close>

definition ndiv :: "pynum \<Rightarrow> pynum \<Rightarrow> pynum res" where
  "ndiv a b =
     (case (a, b) of
        (NI x, NI y) \<Rightarrow>
          if y = 0 then Inl ZeroDivisionError
          else let m = round_mag \<bar>of_int x / of_int y\<bar>
               in if m = inf_mag then Inl OverflowError else Inr (NF (f_mk ((x < 0) \<noteq> (y < 0)) m))
      | _ \<Rightarrow> bindr (n_to_f a) (\<lambda>x. bindr (n_to_f b) (\<lambda>y. bindr (fdiv x y) (\<lambda>z. Inr (NF z)))))"

definition nabs :: "pynum \<Rightarrow> pynum" where
  "nabs a = (case a of NI n \<Rightarrow> NI \<bar>n\<bar> | NF x \<Rightarrow> NF (fabs x))"

definition nsquare :: "pynum \<Rightarrow> pynum res" where
  "nsquare a = (case a of NI n \<Rightarrow> Inr (NI (n * n)) | NF x \<Rightarrow> bindr (fsquare x) (\<lambda>y. Inr (NF y)))"

text \<open>Comparison of an integer with a float is exact.\<close>

definition n_isnan :: "pynum \<Rightarrow> bool" where
  "n_isnan a = (case a of NI _ \<Rightarrow> False | NF x \<Rightarrow> f_isnan x)"

definition if_lt :: "int \<Rightarrow> f64 \<Rightarrow> bool" where
  "if_lt n x = (\<not> f_isnan x \<and> (if f_isinf x then \<not> f_sign x else of_int n < f_val x))"

definition fi_lt :: "f64 \<Rightarrow> int \<Rightarrow> bool" where
  "fi_lt x n = (\<not> f_isnan x \<and> (if f_isinf x then f_sign x else f_val x < of_int n))"

definition nlt :: "pynum \<Rightarrow> pynum \<Rightarrow> bool" where
  "nlt a b =
     (case (a, b) of
        (NI x, NI y) \<Rightarrow> x < y
      | (NI x, NF y) \<Rightarrow> if_lt x y
      | (NF x, NI y) \<Rightarrow> fi_lt x y
      | (NF x, NF y) \<Rightarrow> flt x y)"

definition nle :: "pynum \<Rightarrow> pynum \<Rightarrow> bool" where
  "nle a b = (\<not> n_isnan a \<and> \<not> n_isnan b \<and> \<not> nlt b a)"

definition nmax :: "pynum \<Rightarrow> pynum \<Rightarrow> pynum" where
  "nmax a b = (if nlt a b then b else a)"

text \<open>\<open>math.sqrt\<close> converts its argument.\<close>

definition nsqrt :: "pynum \<Rightarrow> pynum res" where
  "nsqrt a = bindr (n_to_f a) (\<lambda>x. bindr (fsqrt x) (\<lambda>y. Inr (NF y)))"

text \<open>The key under which a number is found in a set: equal numbers have equal keys whatever their types.\<close>

datatype numkey = KVal rat | KBits f64

definition n_key :: "pynum \<Rightarrow> numkey" where
  "n_key a = (case a of NI n \<Rightarrow> KVal (of_int n) | NF x \<Rightarrow> if f_isfinite x then KVal (f_val x) else KBits x)"

section \<open>Values\<close>

text \<open>\<open>PEnum\<close> is a member of the string enumeration \<open>EventType\<close>; \<open>PObj\<close> any other object, with its truth value and its
  text.\<close>

datatype pyval = PNone | PBool bool | PNum pynum | PStr string | PEnum string | PObj bool string

type_synonym payload = "(string, pyval) dict"

definition pget :: "payload \<Rightarrow> string \<Rightarrow> pyval" where
  "pget d k = dgetd d k PNone"

definition truthy :: "pyval \<Rightarrow> bool" where
  "truthy v =
     (case v of
        PNone \<Rightarrow> False
      | PBool b \<Rightarrow> b
      | PNum (NI n) \<Rightarrow> n \<noteq> 0
      | PNum (NF x) \<Rightarrow> f_mag x \<noteq> 0
      | PStr s \<Rightarrow> s \<noteq> []
      | PEnum s \<Rightarrow> s \<noteq> []
      | PObj b _ \<Rightarrow> b)"

text \<open>\<open>a or b\<close>.\<close>

definition por :: "pyval \<Rightarrow> pyval \<Rightarrow> pyval" where
  "por a b = (if truthy a then a else b)"

definition eq_str :: "pyval \<Rightarrow> string \<Rightarrow> bool" where
  "eq_str v s = (v = PStr s \<or> v = PEnum s)"

definition eq_int :: "pyval \<Rightarrow> int \<Rightarrow> bool" where
  "eq_int v n =
     (case v of
        PBool b \<Rightarrow> (if b then 1 else 0) = n
      | PNum a \<Rightarrow> n_key a = KVal (of_int n)
      | _ \<Rightarrow> False)"

text \<open>\<open>_is_finite_num\<close>: a finite float, or an integer of at most 1024 bits; a Boolean is not a number here.\<close>

definition MAX_1024 :: int where
  "MAX_1024 = 2 ^ 1024"

definition is_finite_num :: "pyval \<Rightarrow> bool" where
  "is_finite_num v =
     (case v of
        PNum (NF x) \<Rightarrow> f_isfinite x
      | PNum (NI n) \<Rightarrow> \<bar>n\<bar> < MAX_1024
      | _ \<Rightarrow> False)"

definition num_of :: "pyval \<Rightarrow> pynum option" where
  "num_of v = (case v of PNum a \<Rightarrow> Some a | _ \<Rightarrow> None)"

text \<open>\<open>s.strip().upper()\<close> on ASCII text.\<close>

definition is_space :: "char \<Rightarrow> bool" where
  "is_space c = (of_char c \<in> {9, 10, 11, 12, 13, 28, 29, 30, 31, 32 :: nat})"

definition upper :: "char \<Rightarrow> char" where
  "upper c = (let n = of_char c :: nat in if 97 \<le> n \<and> n \<le> 122 then char_of (n - 32) else c)"

definition strip :: "string \<Rightarrow> string" where
  "strip s = rev (dropWhile is_space (rev (dropWhile is_space s)))"

definition strip_upper :: "string \<Rightarrow> string" where
  "strip_upper s = map upper (strip s)"

lemma n_key_zero_cases [simp]: "n_key (NI n) = KVal (of_int n)"
  by (simp add: n_key_def)

end
