(* ===== verification/Gap.thy ===== *)
theory Gap
  imports Pyfloat
begin

text \<open>
  The gap manager of \<open>gap.py\<close>: one record per missing sequence number, kept in an
  insertion-ordered dictionary under its coordinate (source, instrument, epoch, sequence number),
  which leaves it as filled, expired or unrecoverable.  The invariant ties every key to its
  record and bounds the dictionary; the accounting lemma says that no record is lost on the way.
\<close>

section \<open>State\<close>

datatype gap_state = GOpen | GFilled | GExpired | GUnrecoverable

record gap_record =
  gr_id :: string
  gr_source :: string
  gr_instrument :: string
  gr_missing :: int
  gr_received :: int
  gr_epoch :: string
  gr_opened_ts :: f64
  gr_state :: gap_state
  gr_filled_ts :: "f64 option"
  gr_expired_ts :: "f64 option"

type_synonym coord = "string \<times> string \<times> string \<times> int"

record gap_manager =
  gap_timeout_s :: f64
  max_open_gaps :: int
  on_gap_hook :: bool
  open_gaps :: "(coord, gap_record) dict"
  open_order :: "coord list"
  filled_count :: int
  expired_count :: int
  unrecoverable_count :: int

definition gap_init :: "f64 \<Rightarrow> int \<Rightarrow> bool \<Rightarrow> gap_manager" where
  "gap_init timeout cap hook =
     \<lparr>gap_timeout_s = timeout, max_open_gaps = cap, on_gap_hook = hook, open_gaps = [],
      open_order = [], filled_count = 0, expired_count = 0, unrecoverable_count = 0\<rparr>"

section \<open>Operations\<close>

text \<open>
  The loop of \<open>record_gap\<close>.  The list \<open>created\<close> holds the same objects as the dictionary, so
  evicting a record that this call created also changes the record in that list.
\<close>

definition new_gap :: "string \<Rightarrow> string \<Rightarrow> string \<Rightarrow> int \<Rightarrow> int \<Rightarrow> f64 \<Rightarrow> gap_record" where
  "new_gap source instrument epoch s received ts =
     \<lparr>gr_id = ''gap_'' @ source @ ''_'' @ instrument @ ''_'' @ epoch @ ''_'' @ py_str_int s,
      gr_source = source, gr_instrument = instrument, gr_missing = s, gr_received = received,
      gr_epoch = epoch, gr_opened_ts = ts, gr_state = GOpen,
      gr_filled_ts = None, gr_expired_ts = None\<rparr>"

definition coord_of :: "gap_record \<Rightarrow> coord" where
  "coord_of r = (gr_source r, gr_instrument r, gr_epoch r, gr_missing r)"

definition evict_oldest :: "gap_manager \<Rightarrow> gap_record list \<Rightarrow> gap_manager \<times> gap_record list" where
  "evict_oldest m created =
     (if max_open_gaps m < int (length (open_gaps m))
      then case open_gaps m of
             [] \<Rightarrow> (m, created)
           | (c, r) # rest \<Rightarrow>
               if gr_state r = GOpen
               then (m\<lparr>open_gaps := rest, unrecoverable_count := unrecoverable_count m + 1\<rparr>,
                     map (\<lambda>x. if coord_of x = c then x\<lparr>gr_state := GUnrecoverable\<rparr> else x) created)
               else (m\<lparr>open_gaps := rest\<rparr>, created)
      else (m, created))"

fun record_loop ::
  "string \<Rightarrow> string \<Rightarrow> string \<Rightarrow> int \<Rightarrow> f64 \<Rightarrow> int list \<Rightarrow> gap_manager \<times> gap_record list
   \<Rightarrow> gap_manager \<times> gap_record list" where
  "record_loop source instrument epoch received ts [] (m, created) = (m, created)"
| "record_loop source instrument epoch received ts (s # ss) (m, created) =
     (let c = (source, instrument, epoch, s)
      in if din c (open_gaps m)
         then record_loop source instrument epoch received ts ss (m, created)
         else let r = new_gap source instrument epoch s received ts
              in record_loop source instrument epoch received ts ss
                   (evict_oldest (m\<lparr>open_gaps := dset (open_gaps m) c r\<rparr>) (created @ [r])))"

text \<open>The second result lists the call of the user hook, whose exceptions the code swallows.\<close>

definition record_gap ::
  "gap_manager \<Rightarrow> string \<Rightarrow> string \<Rightarrow> int \<Rightarrow> int \<Rightarrow> string \<Rightarrow> f64
   \<Rightarrow> gap_manager \<times> gap_record list \<times> (string \<times> string \<times> int \<times> int \<times> string) list" where
  "record_gap m source instrument expected_start received_seq epoch ts =
     (let max_to_track = min (received_seq - expected_start) 1000;
          (m', created) = record_loop source instrument epoch received_seq ts
                            (py_range expected_start (expected_start + max_to_track)) (m, [])
      in (m', created,
          if on_gap_hook m \<and> created \<noteq> []
          then [(source, instrument, expected_start, received_seq, epoch)] else []))"

definition try_fill ::
  "gap_manager \<Rightarrow> string \<Rightarrow> string \<Rightarrow> int \<Rightarrow> string \<Rightarrow> f64 \<Rightarrow> gap_manager \<times> gap_record option" where
  "try_fill m source instrument sq epoch ts =
     (let c = (source, instrument, epoch, sq)
      in case dget (open_gaps m) c of
           Some r \<Rightarrow> (m\<lparr>open_gaps := ddel (open_gaps m) c, filled_count := filled_count m + 1\<rparr>,
                      Some (r\<lparr>gr_state := GFilled, gr_filled_ts := Some ts\<rparr>))
         | None \<Rightarrow> (m, None))"

definition gap_expired :: "gap_manager \<Rightarrow> f64 \<Rightarrow> gap_record \<Rightarrow> bool" where
  "gap_expired m ts r = fle (gap_timeout_s m) (fsub ts (gr_opened_ts r))"

definition drain_expired :: "gap_manager \<Rightarrow> f64 \<Rightarrow> gap_manager \<times> gap_record list" where
  "drain_expired m ts =
     (let exp = [p \<leftarrow> open_gaps m. gap_expired m ts (snd p)];
          expired = map (\<lambda>(c, r). r\<lparr>gr_state := GExpired, gr_expired_ts := Some ts\<rparr>) exp
      in (m\<lparr>open_gaps := foldl ddel (open_gaps m) (map fst exp),
            expired_count := expired_count m + int (length exp)\<rparr>, expired))"

definition get_open_gaps :: "gap_manager \<Rightarrow> gap_record list" where
  "get_open_gaps m = map snd (open_gaps m)"

definition gap_stats :: "gap_manager \<Rightarrow> (string \<times> int) list" where
  "gap_stats m =
     [(''open'', int (length (open_gaps m))), (''filled'', filled_count m),
      (''expired'', expired_count m), (''unrecoverable'', unrecoverable_count m)]"

section \<open>Invariant\<close>

text \<open>Every key belongs to its record and every record in the dictionary is open.\<close>

definition gap_inv :: "gap_manager \<Rightarrow> bool" where
  "gap_inv m =
     (dwf (open_gaps m)
      \<and> list_all (\<lambda>(c, r). c = coord_of r \<and> gr_state r = GOpen) (open_gaps m)
      \<and> int (length (open_gaps m)) \<le> max 0 (max_open_gaps m))"

definition gap_total :: "gap_manager \<Rightarrow> int" where
  "gap_total m =
     int (length (open_gaps m)) + filled_count m + expired_count m + unrecoverable_count m"

definition gap_cfg :: "gap_manager \<Rightarrow> f64 \<times> int \<times> bool" where
  "gap_cfg m = (gap_timeout_s m, max_open_gaps m, on_gap_hook m)"

lemma coord_of_new_gap [simp]: "coord_of (new_gap a b e s rcv ts) = (a, b, e, s)"
  and state_new_gap [simp]: "gr_state (new_gap a b e s rcv ts) = GOpen"
  by (simp_all add: coord_of_def new_gap_def)

lemma gap_inv_init: "gap_inv (gap_init t cap h)"
  by (simp add: gap_inv_def gap_init_def)

text \<open>One turn of the loop: a fresh record goes in and, over capacity, the oldest goes out.\<close>

lemma insert_evict:
  assumes inv: "gap_inv m" and new: "\<not> din c (open_gaps m)"
    and r: "coord_of r = c" "gr_state r = GOpen"
    and ev: "evict_oldest (m\<lparr>open_gaps := dset (open_gaps m) c r\<rparr>) created = (m', created')"
  shows "gap_inv m'" and "gap_total m' = gap_total m + 1" and "gap_cfg m' = gap_cfg m"
    and "length created' = length created"
proof -
  have app: "dset (open_gaps m) c r = open_gaps m @ [(c, r)]" using new by (rule dset_absent)
  have wf: "dwf (open_gaps m @ [(c, r)])" using inv new
    by (auto simp: gap_inv_def dwf_def din_iff)
  have all: "list_all (\<lambda>(c, r). c = coord_of r \<and> gr_state r = GOpen) (open_gaps m @ [(c, r)])"
    using inv r by (auto simp: gap_inv_def)
  have "gap_inv m' \<and> gap_total m' = gap_total m + 1 \<and> gap_cfg m' = gap_cfg m
        \<and> length created' = length created"
  proof (cases "max_open_gaps m < int (Suc (length (open_gaps m)))")
    case False
    then show ?thesis using ev app wf all
      by (auto simp: evict_oldest_def gap_inv_def gap_total_def gap_cfg_def)
  next
    case True
    obtain c0 r0 rest where hd: "open_gaps m @ [(c, r)] = (c0, r0) # rest"
      by (cases "open_gaps m @ [(c, r)]") auto
    have len: "length rest = length (open_gaps m)" using arg_cong [OF hd, of length] by simp
    have "gr_state r0 = GOpen" "dwf rest"
      "list_all (\<lambda>(c, r). c = coord_of r \<and> gr_state r = GOpen) rest"
      using all wf unfolding hd by (auto simp: dwf_def)
    then show ?thesis using ev True inv
      by (auto simp: evict_oldest_def app hd gap_inv_def gap_total_def gap_cfg_def len)
  qed
  then show "gap_inv m'" "gap_total m' = gap_total m + 1" "gap_cfg m' = gap_cfg m"
    "length created' = length created" by auto
qed

lemma record_loop_inv:
  assumes "record_loop a b e rcv ts ss (m, created) = (m', created')" and "gap_inv m"
  shows "gap_inv m' \<and> gap_cfg m' = gap_cfg m
         \<and> gap_total m' = gap_total m + int (length created') - int (length created)"
  using assms
proof (induction ss arbitrary: m created)
  case (Cons s ss)
  show ?case
  proof (cases "din (a, b, e, s) (open_gaps m)")
    case True
    then show ?thesis using Cons by simp
  next
    case False
    let ?r = "new_gap a b e s rcv ts"
    obtain m1 cr1 where ev:
      "evict_oldest (m\<lparr>open_gaps := dset (open_gaps m) (a, b, e, s) ?r\<rparr>) (created @ [?r]) = (m1, cr1)"
      by fastforce
    note st = insert_evict [OF Cons.prems(2) False _ _ ev]
    have "record_loop a b e rcv ts ss (m1, cr1) = (m', created')"
      using Cons.prems(1) False by (simp add: Let_def ev)
    then show ?thesis using Cons.IH [of m1 cr1] st by simp
  qed
qed simp

lemma record_gap_inv:
  assumes "gap_inv m" and "record_gap m a b st rcv e ts = (m', created, calls)"
  shows "gap_inv m'" and "gap_total m' = gap_total m + int (length created)"
    and "gap_cfg m' = gap_cfg m"
  using assms record_loop_inv [of a b e rcv ts _ m "[]" m' created]
  by (auto simp: record_gap_def Let_def split: prod.splits)

lemma try_fill_inv:
  assumes "gap_inv m" and "try_fill m a b sq e ts = (m', r)"
  shows "gap_inv m'" and "gap_total m' = gap_total m" and "gap_cfg m' = gap_cfg m"
proof -
  let ?c = "(a, b, e, sq)"
  have wf: "dwf (open_gaps m)" using assms(1) by (simp add: gap_inv_def)
  have pos: "0 < length (open_gaps m)" if "din ?c (open_gaps m)"
    using that by (auto simp: din_iff)
  have "gap_inv m' \<and> gap_total m' = gap_total m \<and> gap_cfg m' = gap_cfg m"
  proof (cases "dget (open_gaps m) ?c")
    case None
    then show ?thesis using assms by (simp add: try_fill_def)
  next
    case (Some x)
    then have d: "din ?c (open_gaps m)" by (simp add: din_def)
    then have len: "int (length (ddel (open_gaps m) ?c)) = int (length (open_gaps m)) - 1"
      using pos by (simp add: length_ddel wf Suc_leI int_ops(6))
    have "set (ddel (open_gaps m) ?c) \<subseteq> set (open_gaps m)" by (simp add: ddel_filter)
    then show ?thesis using assms Some len
      by (auto simp: try_fill_def Let_def gap_inv_def gap_total_def gap_cfg_def list_all_iff)
  qed
  then show "gap_inv m'" "gap_total m' = gap_total m" "gap_cfg m' = gap_cfg m" by auto
qed

lemma drain_open:
  assumes "gap_inv m"
  shows "open_gaps (fst (drain_expired m ts)) = [p \<leftarrow> open_gaps m. \<not> gap_expired m ts (snd p)]"
proof -
  have "(fst p \<notin> fst ` set [p \<leftarrow> open_gaps m. gap_expired m ts (snd p)]) = (\<not> gap_expired m ts (snd p))"
    if "p \<in> set (open_gaps m)" for p
    using that assms by (force simp: gap_inv_def dwf_def distinct_map inj_on_def)
  then have "[p \<leftarrow> open_gaps m. fst p \<notin> fst ` set [p \<leftarrow> open_gaps m. gap_expired m ts (snd p)]]
           = [p \<leftarrow> open_gaps m. \<not> gap_expired m ts (snd p)]"
    by (intro filter_cong) auto
  then show ?thesis by (simp add: drain_expired_def Let_def foldl_ddel)
qed

lemma drain_expired_inv:
  assumes "gap_inv m" and "drain_expired m ts = (m', rs)"
  shows "gap_inv m'" and "gap_total m' = gap_total m" and "gap_cfg m' = gap_cfg m"
proof -
  have og: "open_gaps m' = [p \<leftarrow> open_gaps m. \<not> gap_expired m ts (snd p)]"
    using drain_open [OF assms(1), of ts] assms(2) by simp
  have len: "length [p \<leftarrow> open_gaps m. gap_expired m ts (snd p)] + length (open_gaps m')
           = length (open_gaps m)"
    unfolding og using sum_length_filter_compl [of "\<lambda>p. gap_expired m ts (snd p)" "open_gaps m"]
    by simp
  show cfg: "gap_cfg m' = gap_cfg m" using assms(2) by (auto simp: drain_expired_def gap_cfg_def Let_def)
  have "filled_count m' = filled_count m" "unrecoverable_count m' = unrecoverable_count m"
    "expired_count m' = expired_count m + int (length [p \<leftarrow> open_gaps m. gap_expired m ts (snd p)])"
    using assms(2) by (auto simp: drain_expired_def Let_def)
  then show "gap_total m' = gap_total m" using len by (simp add: gap_total_def)
  have "int (length (open_gaps m')) \<le> int (length (open_gaps m))" using len by simp
  then have "int (length (open_gaps m')) \<le> max 0 (max_open_gaps m')"
    using assms(1) cfg by (simp add: gap_inv_def gap_cfg_def)
  then show "gap_inv m'" using assms(1)
    by (auto simp: gap_inv_def og dwf_def list_all_iff distinct_map_filter)
qed

lemmas gap_step_invs = record_gap_inv try_fill_inv drain_expired_inv

section \<open>Sequences of operations\<close>

datatype gap_op =
    RecordGap string string int int string f64
  | TryFill string string int string f64
  | DrainExpired f64

fun gap_apply :: "gap_manager \<times> int \<Rightarrow> gap_op \<Rightarrow> gap_manager \<times> int" where
  "gap_apply (m, n) (RecordGap a b st rcv e ts) =
     (case record_gap m a b st rcv e ts of (m', created, _) \<Rightarrow> (m', n + int (length created)))"
| "gap_apply (m, n) (TryFill a b sq e ts) = (fst (try_fill m a b sq e ts), n)"
| "gap_apply (m, n) (DrainExpired ts) = (fst (drain_expired m ts), n)"

lemma gap_apply_inv:
  assumes "gap_inv m" and "gap_apply (m, n) oper = (m', n')"
  shows "gap_inv m' \<and> gap_total m' - n' = gap_total m - n \<and> gap_cfg m' = gap_cfg m"
proof (cases oper)
  case (RecordGap a b st rcv e ts)
  obtain m1 cr calls where "record_gap m a b st rcv e ts = (m1, cr, calls)" by (metis prod_cases3)
  then show ?thesis using assms record_gap_inv [of m] by (auto simp: RecordGap)
next
  case (TryFill a b sq e ts)
  then show ?thesis using assms try_fill_inv [of m a b sq e ts] by (cases "try_fill m a b sq e ts") auto
next
  case (DrainExpired ts)
  then show ?thesis using assms drain_expired_inv [of m ts] by (cases "drain_expired m ts") auto
qed

lemma gap_run_inv:
  "gap_inv m \<Longrightarrow> foldl gap_apply (m, n) ops = (m', n')
   \<Longrightarrow> gap_inv m' \<and> gap_total m' - n' = gap_total m - n \<and> gap_cfg m' = gap_cfg m"
proof (induction ops arbitrary: m n)
  case (Cons x ops)
  obtain m1 n1 where "gap_apply (m, n) x = (m1, n1)" by fastforce
  then show ?case using Cons gap_apply_inv [OF Cons.prems(1)] by fastforce
qed simp


section \<open>Recording and filling\<close>

text \<open>Below capacity nothing is evicted, so the loop only adds the missing coordinates.\<close>

lemma record_loop_room:
  assumes "int (length (open_gaps m) + length ss) \<le> max_open_gaps m"
  shows "dkeys (open_gaps (fst (record_loop a b e rcv ts ss (m, created))))
       = foldl (\<lambda>ks c. if c \<in> set ks then ks else ks @ [c]) (dkeys (open_gaps m))
           (map (\<lambda>s. (a, b, e, s)) ss)"
  using assms
proof (induction ss arbitrary: m created)
  case (Cons s ss)
  let ?c = "(a, b, e, s)" and ?r = "new_gap a b e s rcv ts"
  show ?case
  proof (cases "din ?c (open_gaps m)")
    case True
    then show ?thesis using Cons by (simp add: din_iff)
  next
    case False
    let ?m = "m\<lparr>open_gaps := dset (open_gaps m) ?c ?r\<rparr>"
    have app: "dset (open_gaps m) ?c ?r = open_gaps m @ [(?c, ?r)]" using False by (rule dset_absent)
    have "evict_oldest ?m (created @ [?r]) = (?m, created @ [?r])"
      using Cons.prems by (simp add: evict_oldest_def app)
    then show ?thesis using False Cons.IH [of ?m "created @ [?r]"] Cons.prems
      by (simp add: Let_def app din_iff)
  qed
qed simp

lemma foldl_add_mem:
  "c \<in> set ks \<or> c \<in> set cs
   \<Longrightarrow> c \<in> set (foldl (\<lambda>ks c. if c \<in> set ks then ks else ks @ [c]) ks cs)"
  by (induction cs arbitrary: ks) auto

lemma try_fill_open:
  assumes inv: "gap_inv m" and mem: "(a, b, e, s) \<in> set (dkeys (open_gaps m))"
  shows "\<exists>m' r. try_fill m a b s e ts = (m', Some r) \<and> coord_of r = (a, b, e, s)
           \<and> gr_state r = GFilled \<and> gr_filled_ts r = Some ts
           \<and> filled_count m' = filled_count m + 1 \<and> try_fill m' a b s e ts' = (m', None)"
proof -
  obtain r where r: "dget (open_gaps m) (a, b, e, s) = Some r"
    using mem by (metis list.set_map map_of_eq_None_iff not_None_eq)
  then have "coord_of r = (a, b, e, s)"
    using inv by (auto simp: gap_inv_def list_all_iff dest!: map_of_SomeD)
  then show ?thesis using r by (simp add: try_fill_def coord_of_def dict_simps)
qed

text \<open>C34: after any sequence of operations on a fresh manager every record ever created is
  accounted for: it is still open or was counted once as filled, expired or unrecoverable; the
  open ones are at most \<open>max_open_gaps\<close>, each under its own coordinate and in state open.\<close>

theorem gap_accounting:
  "case foldl gap_apply (gap_init timeout cap hook, 0) ops of
     (m, n) \<Rightarrow> gap_inv m \<and> max_open_gaps m = cap \<and> gap_total m = n"
  using gap_run_inv [OF gap_inv_init, of timeout cap hook 0 ops]
  by (auto simp: gap_cfg_def gap_total_def gap_init_def split: prod.split)

text \<open>A gap that was recorded is filled by the packet that arrives for it, once: with room
  for the new records, each missing number in the tracked range is open after \<open>record_gap\<close>, the
  first \<open>try_fill\<close> returns its record as filled and the next one finds nothing.\<close>

theorem recorded_gap_is_filled_once:
  assumes "gap_inv m" and "start \<le> s" and "s < received" and "s < start + 1000"
    and "int (length (open_gaps m)) + min (received - start) 1000 \<le> max_open_gaps m"
  shows "\<exists>m' r. try_fill (fst (record_gap m a b start received e ts)) a b s e ts' = (m', Some r)
           \<and> coord_of r = (a, b, e, s) \<and> gr_state r = GFilled \<and> gr_filled_ts r = Some ts'
           \<and> snd (try_fill m' a b s e ts'') = None"
proof -
  let ?ss = "py_range start (start + min (received - start) 1000)"
  obtain m' created calls where rg: "record_gap m a b start received e ts = (m', created, calls)"
    by (metis prod_cases3)
  then have m': "m' = fst (record_loop a b e received ts ?ss (m, []))"
    by (auto simp: record_gap_def Let_def split: prod.splits)
  have "s \<in> set ?ss" using assms by auto
  then have "(a, b, e, s) \<in> set (dkeys (open_gaps m'))"
    unfolding m' using assms by (subst record_loop_room) (auto intro!: foldl_add_mem)
  from try_fill_open [OF record_gap_inv(1) [OF assms(1) rg] this, of ts' ts'']
  show ?thesis by (auto simp: rg)
qed

theorem recorded_gap_is_filled_once_witness:
  "\<exists>m' r. try_fill (fst (record_gap (gap_init 0 10 False) ''A'' ''X'' 5 8 ''0'' 0)) ''A'' ''X'' 6 ''0'' 0
            = (m', Some r)
     \<and> coord_of r = (''A'', ''X'', ''0'', 6) \<and> gr_state r = GFilled \<and> gr_filled_ts r = Some 0
     \<and> snd (try_fill m' ''A'' ''X'' 6 ''0'' 0) = None"
  by (rule recorded_gap_is_filled_once)
     (simp_all add: gap_inv_init, simp_all add: gap_init_def)

end
