(* ===== verification/Engine.thy ===== *)
theory Engine
  imports Pyvalue Gap
begin

text \<open>
  The deterministic fold of \<open>engine.py\<close>: the engine state, the undo journal (\<open>Transaction\<close>), the eight stages of
  \<open>_step_internal\<close>, and \<open>step\<close>, which rolls back and quarantines when a stage raises.  Operations run in a state and
  exception monad that keeps the state reached when an exception is raised.
\<close>

section \<open>State and exceptions\<close>

type_synonym ('s, 'a) sm = "'s \<Rightarrow> 's \<times> 'a res"

definition sret :: "'a \<Rightarrow> ('s, 'a) sm" where
  "sret x s = (s, Inr x)"

definition slift :: "'a res \<Rightarrow> ('s, 'a) sm" where
  "slift r s = (s, r)"

definition sget :: "('s \<Rightarrow> 'a) \<Rightarrow> ('s, 'a) sm" where
  "sget f s = (s, Inr (f s))"

definition smod :: "('s \<Rightarrow> 's) \<Rightarrow> ('s, unit) sm" where
  "smod f s = (f s, Inr ())"

definition sbind :: "('s, 'a) sm \<Rightarrow> ('a \<Rightarrow> ('s, 'b) sm) \<Rightarrow> ('s, 'b) sm" where
  "sbind m f s = (case m s of (s', Inl e) \<Rightarrow> (s', Inl e) | (s', Inr x) \<Rightarrow> f x s')"

definition sthen :: "('s, 'a) sm \<Rightarrow> ('s, 'b) sm \<Rightarrow> ('s, 'b) sm" where
  "sthen m k = sbind m (\<lambda>_. k)"

lemmas sm_defs = sret_def slift_def sget_def smod_def sbind_def sthen_def

section \<open>Engine state\<close>

text \<open>The fingerprint of an event without sequence number: by business identifier or by content.\<close>

datatype fprint =
    FBiz string string string string
  | FContent string string string numkey "numkey option list"

record engine_state =
  es_event_count :: int
  es_last_applied_offset :: int
  es_observed_count :: int
  es_sequence_state :: "string \<rightharpoonup> int"
  es_sequence_seen :: "string \<rightharpoonup> int"
  es_sequence_cand :: "string \<rightharpoonup> int"
  es_sequence_regress :: "string \<rightharpoonup> int"
  es_sequence_stale_seen :: "string \<rightharpoonup> int list"
  es_dedup_window :: "fprint list"
  es_dedup_set :: "fprint set"
  es_price_windows :: "string \<rightharpoonup> pynum list"
  es_bbo_state :: "string \<rightharpoonup> (string \<rightharpoonup> (string \<rightharpoonup> f64))"
  es_reconciliation :: "string \<rightharpoonup> (string, pynum \<times> f64) dict"
  es_counts :: "quality_status \<rightharpoonup> int"
  es_staleness_threshold_s :: f64
  es_epoch_state :: "string \<rightharpoonup> int"
  es_epoch_ts :: "string \<rightharpoonup> f64"
  es_session_state :: "string \<rightharpoonup> string"
  es_price_stats :: "string \<rightharpoonup> pynum \<times> pynum \<times> int"
  es_price_anom :: "string \<rightharpoonup> int \<times> pynum"

definition create_initial_state :: "f64 \<Rightarrow> engine_state" where
  "create_initial_state staleness =
     \<lparr>es_event_count = 0, es_last_applied_offset = -1, es_observed_count = 0, es_sequence_state = Map.empty,
      es_sequence_seen = Map.empty, es_sequence_cand = Map.empty, es_sequence_regress = Map.empty,
      es_sequence_stale_seen = Map.empty, es_dedup_window = [], es_dedup_set = {}, es_price_windows = Map.empty,
      es_bbo_state = Map.empty, es_reconciliation = Map.empty, es_counts = [VALID \<mapsto> 0, SUSPICIOUS \<mapsto> 0, INVALID \<mapsto> 0],
      es_staleness_threshold_s = staleness, es_epoch_state = Map.empty, es_epoch_ts = Map.empty,
      es_session_state = Map.empty, es_price_stats = Map.empty, es_price_anom = Map.empty\<rparr>"

definition DEFAULT_DEDUP_WINDOW_SIZE :: int where "DEFAULT_DEDUP_WINDOW_SIZE = 10000"
definition SEQUENCE_BITMAP_BITS :: int where "SEQUENCE_BITMAP_BITS = 64"
definition SEQUENCE_BITMAP_MASK :: int where "SEQUENCE_BITMAP_MASK = 0xFFFFFFFFFFFFFFFF"
definition DEFAULT_SEQ_JUMP_LIMIT :: int where "DEFAULT_SEQ_JUMP_LIMIT = 1000"
definition DEFAULT_PRICE_RESEED_AFTER :: int where "DEFAULT_PRICE_RESEED_AFTER = 8"
definition DEFAULT_PRICE_WINDOW :: int where "DEFAULT_PRICE_WINDOW = 50"
definition DEFAULT_PRICE_STDDEV :: pynum where "DEFAULT_PRICE_STDDEV = NF 0x4018000000000000"

section \<open>The undo journal\<close>

text \<open>An entry of \<open>Transaction._actions\<close>.  An entry for a key of a dictionary names the dictionary by its constructor and
  holds the old value, \<open>None\<close> when the key was absent.\<close>

datatype undo =
    UEventCount int | UObservedCount int | ULastAppliedOffset int | UCount quality_status int
  | USeqState string "int option" | USeqSeen string "int option" | USeqCand string "int option" | USeqRegress string "int option"
  | UPriceWindow string "pynum list option" | UPriceAnom string "(int \<times> pynum) option"
  | UPriceStats string "(pynum \<times> pynum \<times> int) option"
  | UEpochState string "int option" | UEpochTs string "f64 option" | USession string "string option"
  | UBbo string string bool "(string \<rightharpoonup> f64) option"
  | URecon string string bool "(pynum \<times> f64) option"
  | UDedup "fprint option" "fprint option"

definition record_event_count :: "engine_state \<Rightarrow> undo list" where
  "record_event_count s =
     [UEventCount (es_event_count s), UObservedCount (es_observed_count s), ULastAppliedOffset (es_last_applied_offset s)]"

definition record_count :: "quality_status \<Rightarrow> engine_state \<Rightarrow> undo list" where
  "record_count st s = [UCount st (case es_counts s st of None \<Rightarrow> 0 | Some n \<Rightarrow> n)]"

definition record_sequence :: "string \<Rightarrow> engine_state \<Rightarrow> undo list" where
  "record_sequence k s =
     [USeqState k (es_sequence_state s k), USeqSeen k (es_sequence_seen s k), USeqCand k (es_sequence_cand s k),
      USeqRegress k (es_sequence_regress s k)]"

definition record_price_window :: "string \<Rightarrow> engine_state \<Rightarrow> undo list" where
  "record_price_window k s =
     [UPriceWindow k (es_price_windows s k), UPriceAnom k (es_price_anom s k), UPriceStats k (es_price_stats s k)]"

definition record_bbo :: "string \<Rightarrow> string \<Rightarrow> engine_state \<Rightarrow> undo list" where
  "record_bbo inst src s =
     [case es_bbo_state s inst of None \<Rightarrow> UBbo inst src False None | Some q \<Rightarrow> UBbo inst src True (q src)]"

definition record_reconciliation :: "string \<Rightarrow> string \<Rightarrow> engine_state \<Rightarrow> undo list" where
  "record_reconciliation inst src s =
     [case es_reconciliation s inst of None \<Rightarrow> URecon inst src False None | Some q \<Rightarrow> URecon inst src True (dget q src)]"

definition record_epoch :: "string \<Rightarrow> engine_state \<Rightarrow> undo list" where
  "record_epoch k s =
     [UEpochState k (es_epoch_state s k), UEpochTs k (es_epoch_ts s k), USession k (es_session_state s k)]"

text \<open>One turn of the loop of \<open>rollback_to\<close>.\<close>

definition undo_dedup :: "fprint option \<Rightarrow> fprint option \<Rightarrow> engine_state \<Rightarrow> engine_state" where
  "undo_dedup added evicted s =
     (let s1 = (case added of None \<Rightarrow> s
                | Some f \<Rightarrow> s\<lparr>es_dedup_window := butlast (es_dedup_window s), es_dedup_set := es_dedup_set s - {f}\<rparr>)
      in case evicted of None \<Rightarrow> s1
         | Some f \<Rightarrow> s1\<lparr>es_dedup_window := f # es_dedup_window s1, es_dedup_set := insert f (es_dedup_set s1)\<rparr>)"

fun undo1 :: "undo \<Rightarrow> engine_state \<Rightarrow> engine_state res" where
  "undo1 (UEventCount n) s = Inr (s\<lparr>es_event_count := n\<rparr>)"
| "undo1 (UObservedCount n) s = Inr (s\<lparr>es_observed_count := n\<rparr>)"
| "undo1 (ULastAppliedOffset n) s = Inr (s\<lparr>es_last_applied_offset := n\<rparr>)"
| "undo1 (UCount st n) s = Inr (s\<lparr>es_counts := (es_counts s)(st \<mapsto> n)\<rparr>)"
| "undo1 (USeqState k v) s = Inr (s\<lparr>es_sequence_state := (es_sequence_state s)(k := v)\<rparr>)"
| "undo1 (USeqSeen k v) s = Inr (s\<lparr>es_sequence_seen := (es_sequence_seen s)(k := v)\<rparr>)"
| "undo1 (USeqCand k v) s = Inr (s\<lparr>es_sequence_cand := (es_sequence_cand s)(k := v)\<rparr>)"
| "undo1 (USeqRegress k v) s = Inr (s\<lparr>es_sequence_regress := (es_sequence_regress s)(k := v)\<rparr>)"
| "undo1 (UPriceWindow k v) s = Inr (s\<lparr>es_price_windows := (es_price_windows s)(k := v)\<rparr>)"
| "undo1 (UPriceAnom k v) s = Inr (s\<lparr>es_price_anom := (es_price_anom s)(k := v)\<rparr>)"
| "undo1 (UPriceStats k v) s = Inr (s\<lparr>es_price_stats := (es_price_stats s)(k := v)\<rparr>)"
| "undo1 (UEpochState k v) s = Inr (s\<lparr>es_epoch_state := (es_epoch_state s)(k := v)\<rparr>)"
| "undo1 (UEpochTs k v) s = Inr (s\<lparr>es_epoch_ts := (es_epoch_ts s)(k := v)\<rparr>)"
| "undo1 (USession k v) s = Inr (s\<lparr>es_session_state := (es_session_state s)(k := v)\<rparr>)"
| "undo1 (UBbo inst src had_inst old) s =
     (if \<not> had_inst then Inr (s\<lparr>es_bbo_state := (es_bbo_state s)(inst := None)\<rparr>)
      else case (old, es_bbo_state s inst) of
             (None, None) \<Rightarrow> Inr s
           | (Some _, None) \<Rightarrow> Inl KeyError
           | (_, Some q) \<Rightarrow> Inr (s\<lparr>es_bbo_state := (es_bbo_state s)(inst \<mapsto> q(src := old))\<rparr>))"
| "undo1 (URecon inst src had_inst old) s =
     (if \<not> had_inst then Inr (s\<lparr>es_reconciliation := (es_reconciliation s)(inst := None)\<rparr>)
      else case (old, es_reconciliation s inst) of
             (None, None) \<Rightarrow> Inr s
           | (Some _, None) \<Rightarrow> Inl KeyError
           | (None, Some q) \<Rightarrow> Inr (s\<lparr>es_reconciliation := (es_reconciliation s)(inst \<mapsto> ddel q src)\<rparr>)
           | (Some v, Some q) \<Rightarrow> Inr (s\<lparr>es_reconciliation := (es_reconciliation s)(inst \<mapsto> dset q src v)\<rparr>))"
| "undo1 (UDedup added evicted) s = Inr (undo_dedup added evicted s)"

text \<open>The entries are undone from the end of the journal: \<open>undo_list\<close> takes them in that order.  The \<open>KeyError\<close> of an entry
  whose instrument has gone ends the undoing; no journal of a step has such an entry (\<open>Engine_Txn\<close>).\<close>

fun undo_list :: "undo list \<Rightarrow> engine_state \<Rightarrow> engine_state res" where
  "undo_list [] s = Inr s"
| "undo_list (a # as) s = bindr (undo1 a s) (undo_list as)"

text \<open>The state of a running fold: the engine state, the journal and the gap manager.\<close>

record ectx =
  cx_state :: engine_state
  cx_actions :: "undo list"
  cx_committed :: bool
  cx_gaps :: "gap_manager option"

definition rollback_to :: "nat \<Rightarrow> (ectx, unit) sm" where
  "rollback_to mk c =
     (if cx_committed c then (c, Inr ())
      else case undo_list (rev (drop mk (cx_actions c))) (cx_state c) of
             Inl e \<Rightarrow> (c, Inl e)
           | Inr s \<Rightarrow> (c\<lparr>cx_state := s, cx_actions := take mk (cx_actions c)\<rparr>, Inr ()))"

definition txn_commit :: "ectx \<Rightarrow> ectx" where
  "txn_commit c = c\<lparr>cx_committed := True, cx_actions := []\<rparr>"

definition jrec :: "(engine_state \<Rightarrow> undo list) \<Rightarrow> (ectx, unit) sm" where
  "jrec f = smod (\<lambda>c. c\<lparr>cx_actions := cx_actions c @ f (cx_state c)\<rparr>)"

definition jupd :: "(engine_state \<Rightarrow> engine_state) \<Rightarrow> (ectx, unit) sm" where
  "jupd f = smod (\<lambda>c. c\<lparr>cx_state := f (cx_state c)\<rparr>)"

definition jget :: "(engine_state \<Rightarrow> 'a) \<Rightarrow> (ectx, 'a) sm" where
  "jget f = sget (\<lambda>c. f (cx_state c))"

end
