(* ===== verification/Engine_Stages.thy ===== *)
theory Engine_Stages
  imports Engine
begin

text \<open>
  The stages of \<open>Engine._step_internal\<close>.  What the engine is configured with is an argument: the printing functions
  (\<open>str\<close>, \<open>repr\<close>, \<open>json.dumps\<close>), the built-in \<open>sum\<close> (whose rounding depends on the interpreter version), the security
  manager and the session policy.
\<close>

section \<open>Environment, events and decisions\<close>

record security =
  sanitize_payload :: "payload \<Rightarrow> (bool \<times> string) res"
  hmac_required :: "string \<Rightarrow> bool"
  verify_payload :: "string \<Rightarrow> payload \<Rightarrow> pyval \<Rightarrow> bool res"

record engine_env =
  v_str :: "pyval \<Rightarrow> string"
  v_repr :: "pyval \<Rightarrow> string"
  v_str_dict :: "payload \<Rightarrow> string"
  v_json :: "payload \<Rightarrow> string res"
  v_json_list :: "string list \<Rightarrow> string"
  v_json_str :: "string \<Rightarrow> string"
  v_sum :: "pynum list \<Rightarrow> pynum res"
  v_exc :: "pyexc \<Rightarrow> string"
  v_security :: "security option"
  v_session_policy :: string

text \<open>\<open>RawEvent\<close>; a payload that is not a dictionary is given by its text.\<close>

record raw_event =
  re_source :: string
  re_payload :: "string + payload"
  re_receive_timestamp :: f64
  re_raw_id :: string
  re_session_id :: "string option"

type_synonym qrow = "string \<times> pyval \<times> string \<times> string \<times> string \<times> string \<times> f64"

record canonical_event =
  ce_event_id :: string
  ce_instrument_id :: string
  ce_event_type :: string
  ce_exchange_timestamp :: f64
  ce_receive_timestamp :: f64
  ce_processing_timestamp :: f64
  ce_source :: string
  ce_sequence_number :: "int option"
  ce_price :: pyval
  ce_quantity :: pyval
  ce_bid_price :: pyval
  ce_ask_price :: pyval
  ce_bid_size :: pyval
  ce_ask_size :: pyval
  ce_quality_status :: quality_status
  ce_reasons :: "reason list"
  ce_raw_id :: string
  ce_session_id :: "string option"

record engine_decision =
  d_offset :: int
  d_event_id :: string
  d_quality_status :: quality_status
  d_reasons :: "reason list"
  d_canonical_event :: "canonical_event option"
  d_quarantine_row :: "qrow option"
  d_is_duplicate :: bool
  d_disagreement :: bool
  d_durable :: bool

definition q_id :: "raw_event \<Rightarrow> int \<Rightarrow> string" where
  "q_id raw off = ''q_'' @ re_source raw @ ''_'' @ py_str_int off"

text \<open>The rejecting decision every stage builds: one message, the payload as JSON.\<close>

definition rejected :: "int \<Rightarrow> string \<Rightarrow> reason \<Rightarrow> qrow \<Rightarrow> engine_decision" where
  "rejected off eid r row =
     \<lparr>d_offset = off, d_event_id = eid, d_quality_status = INVALID, d_reasons = [r], d_canonical_event = None,
      d_quarantine_row = Some row, d_is_duplicate = False, d_disagreement = False, d_durable = True\<rparr>"

definition reject ::
    "engine_env \<Rightarrow> raw_event \<Rightarrow> payload \<Rightarrow> int \<Rightarrow> f64 \<Rightarrow> pyval \<Rightarrow> reason \<Rightarrow> string \<Rightarrow> engine_decision res" where
  "reject env raw pl off recv inst r msg =
     bindr (v_json env pl) (\<lambda>js.
       Inr (rejected off (q_id raw off) r
              (q_id raw off, inst, re_source raw, ''INVALID'', v_json_list env [msg], js, recv)))"

section \<open>Stage 1: security envelope\<close>

definition stage_security_envelope ::
    "engine_env \<Rightarrow> raw_event \<Rightarrow> payload \<Rightarrow> int \<Rightarrow> f64 \<Rightarrow> engine_decision option res" where
  "stage_security_envelope env raw pl off recv =
     (case v_security env of
        None \<Rightarrow> Inr None
      | Some sec \<Rightarrow>
          bindr (sanitize_payload sec pl) (\<lambda>(ok, err).
            if \<not> ok
            then Inr (Some (rejected off (q_id raw off) MALFORMED
                   (q_id raw off, PStr ''MALFORMED'', re_source raw, ''INVALID'',
                    v_json_list env [''Payload failed security sanitization: '' @ err], v_json_str env (v_str_dict env pl), recv)))
            else if hmac_required sec (re_source raw) \<or> din ''signature'' pl
            then let sig = pget pl ''signature''
                 in bindr (if truthy sig then verify_payload sec (re_source raw) pl sig else Inr False) (\<lambda>v.
                      if v then Inr None
                      else bindr (reject env raw pl off recv
                                    (PStr (v_str env (dgetd pl ''instrument'' (PStr ''UNKNOWN'')))) SECURITY_REJECT
                                    ''Cryptographic HMAC verification failed: missing or tampered signature'') (\<lambda>d. Inr (Some d)))
            else Inr None))"

section \<open>Stage 2: schema\<close>

definition event_type_str :: "pyval \<Rightarrow> string" where
  "event_type_str v = (case v of PEnum s \<Rightarrow> s | PStr s \<Rightarrow> strip_upper s | _ \<Rightarrow> [])"

definition seq_range_ok :: "pyval \<Rightarrow> bool" where
  "seq_range_ok v =
     (case v of PNum (NI n) \<Rightarrow> - 9223372036854775808 \<le> n \<and> n \<le> 9223372036854775807 | _ \<Rightarrow> False)"

definition seq_of :: "pyval \<Rightarrow> int option" where
  "seq_of v = (case v of PNum (NI n) \<Rightarrow> Some n | _ \<Rightarrow> None)"

definition num_fields :: "string list" where
  "num_fields = [''price'', ''quantity'', ''bid'', ''ask'', ''bid_size'', ''ask_size'']"

definition first_bad_field :: "payload \<Rightarrow> string option" where
  "first_bad_field pl = List.find (\<lambda>f. pget pl f \<noteq> PNone \<and> \<not> is_finite_num (pget pl f)) num_fields"

text \<open>The instrument, the event type, the sequence number and the exchange time of an accepted payload.\<close>

type_synonym schema_ok = "string \<times> string \<times> int option \<times> f64"

definition stage_schema_validation ::
    "engine_env \<Rightarrow> raw_event \<Rightarrow> payload \<Rightarrow> int \<Rightarrow> f64 \<Rightarrow> (engine_decision + schema_ok) res" where
  "stage_schema_validation env raw pl off recv =
     (let inst = pget pl ''instrument''; ty = pget pl ''event_type'';
          rej = (\<lambda>i r msg. bindr (reject env raw pl off recv i r msg) (\<lambda>d. Inr (Inl d)))
      in if eq_str (pget pl ''drop_reason'') ''BACKPRESSURE_DROP'' \<or> eq_str ty ''TOMBSTONE_DROPPED''
         then rej (por inst (PStr ''UNKNOWN'')) BACKPRESSURE_DROP ''Event dropped due to ingress queue backpressure''
         else case inst of
           PStr (c # cs) \<Rightarrow>
             if ty = PNone then rej inst SCHEMA_VIOLATION ''Missing required event_type field''
             else let ets = event_type_str ty
                  in if ets \<notin> {''TRADE'', ''QUOTE'', ''HALT'', ''STATUS''}
                     then rej inst SCHEMA_VIOLATION (''Unknown or invalid event_type: '' @ v_repr env ty)
                     else if ets = ''TRADE'' \<and> pget pl ''price'' = PNone
                     then rej inst SCHEMA_VIOLATION ''TRADE event requires price''
                     else if ets = ''QUOTE'' \<and> pget pl ''bid'' = PNone \<and> pget pl ''ask'' = PNone
                     then rej inst SCHEMA_VIOLATION ''QUOTE event requires at least one of bid or ask''
                     else let sq = pget pl ''sequence''; ex = pget pl ''exchange_ts''
                          in if sq \<noteq> PNone \<and> \<not> seq_range_ok sq
                             then rej inst SCHEMA_VIOLATION (''Sequence number out of range: '' @ v_str env sq)
                             else if ex \<noteq> PNone \<and> \<not> is_finite_num ex
                             then rej inst SCHEMA_VIOLATION (''Exchange timestamp not finite: '' @ v_str env ex)
                             else case first_bad_field pl of
                               Some f \<Rightarrow> rej inst SCHEMA_VIOLATION
                                 (''Field '' @ f @ '' not a finite number: '' @ v_str env (pget pl f))
                             | None \<Rightarrow>
                                 bindr (case num_of ex of None \<Rightarrow> Inr recv | Some a \<Rightarrow> n_to_f a) (\<lambda>exf.
                                   Inr (Inr (c # cs, ets, seq_of sq, exf)))
         | _ \<Rightarrow> rej (PStr ''UNKNOWN'') SCHEMA_VIOLATION ''Missing or invalid instrument string'')"

section \<open>Stage 3: session and epoch\<close>

definition stream_key_of :: "raw_event \<Rightarrow> string \<Rightarrow> string" where
  "stream_key_of raw inst = re_source raw @ '':'' @ inst"

definition slot_key_of :: "string \<Rightarrow> int \<Rightarrow> string" where
  "slot_key_of k ep = (if 0 < ep then k @ '':'' @ py_str_int ep else k)"

definition EPOCH_QUIET_S :: f64 where "EPOCH_QUIET_S = 0x404E000000000000"

text \<open>\<open>getattr(raw, "session_id", None) or payload.get("session_id")\<close>, as text.\<close>

definition new_session_id :: "engine_env \<Rightarrow> raw_event \<Rightarrow> payload \<Rightarrow> string option" where
  "new_session_id env raw pl =
     (case por (case re_session_id raw of None \<Rightarrow> PNone | Some t \<Rightarrow> PStr t) (pget pl ''session_id'') of
        PNone \<Rightarrow> None
      | v \<Rightarrow> Some (v_str env v))"

definition epoch_reset_triggered ::
    "engine_env \<Rightarrow> engine_state \<Rightarrow> payload \<Rightarrow> string \<Rightarrow> string option \<Rightarrow> int option \<Rightarrow> f64 \<Rightarrow> bool" where
  "epoch_reset_triggered env s pl k sess sq exf =
     (let ep = (case es_epoch_state s k of None \<Rightarrow> 0 | Some e \<Rightarrow> e)
      in if sess \<noteq> None \<and> es_session_state s k \<noteq> None \<and> sess \<noteq> es_session_state s k then True
         else if v_session_policy env = ''session_marker''
         then pget pl ''is_reset'' = PBool True \<or> pget pl ''reset'' = PBool True
              \<or> pget pl ''epoch_id'' \<noteq> PNone \<and> \<not> eq_int (pget pl ''epoch_id'') ep
         else if v_session_policy env = ''auto_detect''
         then (case (sq, es_sequence_state s (slot_key_of k ep), es_epoch_ts s k) of
                 (Some q, Some l, Some t) \<Rightarrow> (l - q \<ge> 50 \<or> l > 10 \<and> q \<le> 10) \<and> fle EPOCH_QUIET_S (fsub exf t)
               | _ \<Rightarrow> False)
         else False)"

definition stage_session_and_epoch ::
    "engine_env \<Rightarrow> raw_event \<Rightarrow> payload \<Rightarrow> string \<Rightarrow> int option \<Rightarrow> f64
     \<Rightarrow> (ectx, int \<times> string \<times> string \<times> string option \<times> bool) sm" where
  "stage_session_and_epoch env raw pl inst sq exf =
     (let k = stream_key_of raw inst; sess = new_session_id env raw pl
      in sbind (jget id) (\<lambda>s.
         let ep0 = (case es_epoch_state s k of None \<Rightarrow> 0 | Some e \<Rightarrow> e);
             trig = epoch_reset_triggered env s pl k sess sq exf;
             ts_changed = (case es_epoch_ts s k of None \<Rightarrow> True | Some t \<Rightarrow> \<not> feq t exf);
             ep = (if trig then ep0 + 1 else ep0)
         in sthen (if trig
                   then sthen (jrec (record_epoch k))
                              (jupd (\<lambda>s. s\<lparr>es_epoch_state := (es_epoch_state s)(k \<mapsto> ep),
                                           es_session_state := (case sess of None \<Rightarrow> es_session_state s
                                                                | Some t \<Rightarrow> (es_session_state s)(k \<mapsto> t)),
                                           es_epoch_ts := (if ts_changed then (es_epoch_ts s)(k \<mapsto> exf) else es_epoch_ts s)\<rparr>))
                   else sthen (if sess \<noteq> None \<and> es_session_state s k = None
                               then sthen (jrec (\<lambda>s. [USession k (es_session_state s k)]))
                                          (jupd (\<lambda>s. s\<lparr>es_session_state := (es_session_state s)(k := sess)\<rparr>))
                               else sret ())
                              (if ts_changed
                               then sthen (jrec (\<lambda>s. [UEpochTs k (es_epoch_ts s k)]))
                                          (jupd (\<lambda>s. s\<lparr>es_epoch_ts := (es_epoch_ts s)(k \<mapsto> exf)\<rparr>))
                               else sret ()))
            (sret (ep, k, slot_key_of k ep, sess, trig))))"

section \<open>Stage 4: sequence and duplicates\<close>

text \<open>The verdict under construction: status, reasons and the duplicate mark.\<close>

type_synonym verdict = "quality_status \<times> reason list"

definition flag :: "quality_status \<Rightarrow> reason list \<Rightarrow> verdict \<Rightarrow> verdict" where
  "flag q rs v = (max (fst v) q, snd v @ rs)"

text \<open>Assignments go to the slot and, after an epoch change, also to the stream.\<close>

definition put2 :: "string \<Rightarrow> string \<Rightarrow> 'v \<Rightarrow> (string \<rightharpoonup> 'v) \<Rightarrow> (string \<rightharpoonup> 'v)" where
  "put2 slot stream v m = (if slot = stream then m(slot \<mapsto> v) else m(slot \<mapsto> v, stream \<mapsto> v))"

definition both :: "string \<Rightarrow> string \<Rightarrow> (string \<Rightarrow> engine_state \<Rightarrow> undo list) \<Rightarrow> engine_state \<Rightarrow> undo list" where
  "both slot stream f s = f slot s @ (if slot = stream then [] else f stream s)"

definition record_cand :: "string \<Rightarrow> engine_state \<Rightarrow> undo list" where
  "record_cand k s = [USeqCand k (es_sequence_cand s k)]"

definition record_seen :: "string \<Rightarrow> engine_state \<Rightarrow> undo list" where
  "record_seen k s = [USeqSeen k (es_sequence_seen s k)]"

definition record_regress :: "string \<Rightarrow> engine_state \<Rightarrow> undo list" where
  "record_regress k s = [USeqRegress k (es_sequence_regress s k)]"

definition clear_stale :: "string \<Rightarrow> (string \<rightharpoonup> int list) \<Rightarrow> (string \<rightharpoonup> int list)" where
  "clear_stale k m = (case m k of None \<Rightarrow> m | Some _ \<Rightarrow> m(k \<mapsto> []))"

definition push_stale :: "string \<Rightarrow> int \<Rightarrow> engine_state \<Rightarrow> engine_state" where
  "push_stale k q s =
     (let l = (case es_sequence_stale_seen s k of None \<Rightarrow> [] | Some l \<Rightarrow> l) @ [q]
      in s\<lparr>es_sequence_stale_seen := (es_sequence_stale_seen s)(k \<mapsto> (if length l > 64 then tl l else l))\<rparr>)"

definition seq_first :: "string \<Rightarrow> string \<Rightarrow> int \<Rightarrow> (ectx, unit) sm" where
  "seq_first slot stream q =
     sthen (jrec (both slot stream record_sequence))
       (jupd (\<lambda>s. s\<lparr>es_sequence_state := put2 slot stream q (es_sequence_state s),
                    es_sequence_seen := put2 slot stream 1 (es_sequence_seen s),
                    es_sequence_cand := put2 slot stream 0 (es_sequence_cand s),
                    es_sequence_regress := put2 slot stream 0 (es_sequence_regress s)\<rparr>))"

definition seq_advance :: "string \<Rightarrow> string \<Rightarrow> int \<Rightarrow> int \<Rightarrow> (ectx, unit) sm" where
  "seq_advance slot stream q seen' =
     sthen (jrec (both slot stream record_sequence))
       (jupd (\<lambda>s. s\<lparr>es_sequence_state := put2 slot stream q (es_sequence_state s),
                    es_sequence_seen := put2 slot stream seen' (es_sequence_seen s),
                    es_sequence_cand := put2 slot stream 0 (es_sequence_cand s)\<rparr>))"

definition seq_candidate :: "string \<Rightarrow> string \<Rightarrow> int \<Rightarrow> (ectx, unit) sm" where
  "seq_candidate slot stream q =
     sthen (jrec (both slot stream record_cand))
       (jupd (\<lambda>s. s\<lparr>es_sequence_cand := put2 slot stream (q + 1) (es_sequence_cand s)\<rparr>))"

definition shift_mask :: "int \<Rightarrow> int \<Rightarrow> int" where
  "shift_mask seen jump =
     (if jump < SEQUENCE_BITMAP_BITS then (push_bit (nat jump) seen OR 1) AND SEQUENCE_BITMAP_MASK else 1)"

definition eng_record_gap :: "raw_event \<Rightarrow> string \<Rightarrow> int \<Rightarrow> int \<Rightarrow> int \<Rightarrow> f64 \<Rightarrow> (ectx, unit) sm" where
  "eng_record_gap raw inst first q ep recv =
     smod (\<lambda>c. c\<lparr>cx_gaps := map_option (\<lambda>g. fst (record_gap g (re_source raw) inst first q (py_str_int ep) recv)) (cx_gaps c)\<rparr>)"

definition eng_try_fill :: "raw_event \<Rightarrow> string \<Rightarrow> int \<Rightarrow> int \<Rightarrow> f64 \<Rightarrow> (ectx, bool) sm" where
  "eng_try_fill raw inst q ep recv c =
     (case cx_gaps c of
        None \<Rightarrow> (c, Inr False)
      | Some g \<Rightarrow> (case try_fill g (re_source raw) inst q (py_str_int ep) recv of
                     (g', r) \<Rightarrow> (c\<lparr>cx_gaps := Some g'\<rparr>, Inr (r \<noteq> None))))"

text \<open>\<open>seq > last_seq\<close>.\<close>

definition eng_seq_forward ::
    "raw_event \<Rightarrow> string \<Rightarrow> string \<Rightarrow> string \<Rightarrow> int \<Rightarrow> f64 \<Rightarrow> bool \<Rightarrow> int \<Rightarrow> int \<Rightarrow> int \<Rightarrow> int \<Rightarrow> verdict \<Rightarrow> (ectx, verdict \<times> bool) sm" where
  "eng_seq_forward raw inst slot stream ep recv is_replay q lst seen cand_plus1 v =
     (let jump = q - lst
      in if jump > DEFAULT_SEQ_JUMP_LIMIT
         then sthen (if cand_plus1 \<noteq> 0 \<and> q > cand_plus1 - 1 \<and> q - (cand_plus1 - 1) \<le> DEFAULT_SEQ_JUMP_LIMIT
                     then seq_advance slot stream q 1 else seq_candidate slot stream q)
                (sret (flag SUSPICIOUS [SEQUENCE_GAP] v, False))
         else sthen (if jump > 1 \<and> \<not> is_replay then eng_record_gap raw inst (lst + 1) q ep recv else sret ())
              (sthen (seq_advance slot stream q (shift_mask seen jump))
                (sret (if jump > 1 then flag SUSPICIOUS [SEQUENCE_GAP] v else v, False))))"

text \<open>\<open>seq <= last_seq\<close>, within the window of 64.\<close>

definition eng_seq_recent ::
    "raw_event \<Rightarrow> string \<Rightarrow> string \<Rightarrow> string \<Rightarrow> int \<Rightarrow> f64 \<Rightarrow> int \<Rightarrow> int \<Rightarrow> int \<Rightarrow> verdict \<Rightarrow> (ectx, verdict \<times> bool) sm" where
  "eng_seq_recent raw inst slot stream ep recv q d seen v =
     (if bit seen (nat d)
      then sret (flag INVALID (DUPLICATE # (if d > 0 then [OUT_OF_ORDER] else [])) v, True)
      else sbind (eng_try_fill raw inst q ep recv) (\<lambda>filled.
           sthen (sthen (jrec (both slot stream record_seen))
                    (jupd (\<lambda>s. s\<lparr>es_sequence_seen := put2 slot stream (seen OR push_bit (nat d) 1) (es_sequence_seen s)\<rparr>)))
          (sret (if filled then flag VALID [GAP_FILLED] v else flag SUSPICIOUS [OUT_OF_ORDER] v, False))))"

text \<open>\<open>seq <= last_seq\<close>, older than the window: the list of stale numbers and the regression counter.\<close>

definition seq_regress_reset :: "string \<Rightarrow> string \<Rightarrow> int \<Rightarrow> (ectx, unit) sm" where
  "seq_regress_reset slot stream q =
     sthen (jrec (both slot stream record_sequence))
       (jupd (\<lambda>s. s\<lparr>es_sequence_state := put2 slot stream q (es_sequence_state s),
                    es_sequence_seen := put2 slot stream 1 (es_sequence_seen s),
                    es_sequence_cand := put2 slot stream 0 (es_sequence_cand s),
                    es_sequence_regress := put2 slot stream 0 (es_sequence_regress s),
                    es_sequence_stale_seen :=
                      (let m = clear_stale slot (es_sequence_stale_seen s) in if slot = stream then m else clear_stale stream m)\<rparr>))"

definition seq_regress_count :: "string \<Rightarrow> string \<Rightarrow> int \<Rightarrow> int \<Rightarrow> (ectx, unit) sm" where
  "seq_regress_count slot stream n q =
     sthen (sthen (jrec (both slot stream record_regress))
              (jupd (\<lambda>s. s\<lparr>es_sequence_regress := put2 slot stream n (es_sequence_regress s)\<rparr>)))
           (jupd (push_stale slot q))"

definition eng_seq_stale :: "string \<Rightarrow> string \<Rightarrow> int \<Rightarrow> int \<Rightarrow> int \<Rightarrow> verdict \<Rightarrow> (ectx, verdict \<times> bool) sm" where
  "eng_seq_stale slot stream q d regress v =
     sthen (jupd (\<lambda>s. case es_sequence_stale_seen s slot of
                        None \<Rightarrow> s\<lparr>es_sequence_stale_seen := (es_sequence_stale_seen s)(slot \<mapsto> [])\<rparr> | Some _ \<Rightarrow> s))
    (sbind (jget (\<lambda>s. case es_sequence_stale_seen s slot of None \<Rightarrow> [] | Some l \<Rightarrow> l)) (\<lambda>l.
       if q \<in> set l then sret (flag INVALID [DUPLICATE, OUT_OF_ORDER] v, True)
       else sthen (if d > DEFAULT_SEQ_JUMP_LIMIT
                   then (if regress + 1 \<ge> 2 then seq_regress_reset slot stream q
                         else seq_regress_count slot stream (regress + 1) q)
                   else seq_regress_count slot stream 0 q)
              (sret (flag SUSPICIOUS [OUT_OF_ORDER] v, False))))"

text \<open>Events without sequence number: the fingerprint and the bounded window.\<close>

definition biz_id :: "payload \<Rightarrow> pyval" where
  "biz_id pl =
     foldr por (map (pget pl) [''trade_id'', ''msg_id'', ''message_id'', ''exec_id'', ''order_id'']) (pget pl ''id'')"

definition fingerprint :: "engine_env \<Rightarrow> raw_event \<Rightarrow> payload \<Rightarrow> string \<Rightarrow> string \<Rightarrow> f64 \<Rightarrow> fprint" where
  "fingerprint env raw pl inst ets exf =
     (if biz_id pl \<noteq> PNone then FBiz (re_source raw) inst ets (''id='' @ v_str env (biz_id pl))
      else FContent (re_source raw) inst ets (n_key (NF exf))
             (map (\<lambda>f. map_option n_key (num_of (pget pl f))) num_fields))"

definition dedup_insert :: "fprint \<Rightarrow> engine_state \<Rightarrow> engine_state" where
  "dedup_insert f s =
     (let w = es_dedup_window s @ [f]; t = insert f (es_dedup_set s)
      in if int (length w) > DEFAULT_DEDUP_WINDOW_SIZE
         then s\<lparr>es_dedup_window := tl w, es_dedup_set := t - {hd w}\<rparr>
         else s\<lparr>es_dedup_window := w, es_dedup_set := t\<rparr>)"

definition record_dedup :: "fprint \<Rightarrow> engine_state \<Rightarrow> undo list" where
  "record_dedup f s =
     (let w = es_dedup_window s @ [f]
      in [UDedup (Some f) (if int (length w) > DEFAULT_DEDUP_WINDOW_SIZE then Some (hd w) else None)])"

definition eng_unseq_dedup :: "fprint \<Rightarrow> verdict \<Rightarrow> (ectx, verdict \<times> bool) sm" where
  "eng_unseq_dedup f v =
     sbind (jget es_dedup_set) (\<lambda>t.
       if f \<in> t then sret (flag INVALID [DUPLICATE] v, True)
       else sthen (sthen (jrec (record_dedup f)) (jupd (dedup_insert f))) (sret (v, False)))"

definition stage_sequence_and_dedup ::
    "engine_env \<Rightarrow> raw_event \<Rightarrow> payload \<Rightarrow> string \<Rightarrow> string \<Rightarrow> int option \<Rightarrow> f64 \<Rightarrow> f64 \<Rightarrow> int \<Rightarrow> string \<Rightarrow> string \<Rightarrow> bool
     \<Rightarrow> verdict \<Rightarrow> (ectx, verdict \<times> bool) sm" where
  "stage_sequence_and_dedup env raw pl inst ets sq exf recv ep stream slot is_replay v =
     (case sq of
        None \<Rightarrow> eng_unseq_dedup (fingerprint env raw pl inst ets exf) v
      | Some q \<Rightarrow>
          sbind (jget id) (\<lambda>s.
            case es_sequence_state s slot of
              None \<Rightarrow> sthen (seq_first slot stream q) (sret (v, False))
            | Some lst \<Rightarrow>
                let seen = (case es_sequence_seen s slot of None \<Rightarrow> 0 | Some m \<Rightarrow> m);
                    cand = (case es_sequence_cand s slot of None \<Rightarrow> 0 | Some m \<Rightarrow> m);
                    regress = (case es_sequence_regress s slot of None \<Rightarrow> 0 | Some m \<Rightarrow> m)
                in if q > lst then eng_seq_forward raw inst slot stream ep recv is_replay q lst seen cand v
                   else if lst - q < SEQUENCE_BITMAP_BITS
                   then eng_seq_recent raw inst slot stream ep recv q (lst - q) seen v
                   else eng_seq_stale slot stream q (lst - q) regress v))"

end
