(* ===== verification/Engine_Step.thy ===== *)
theory Engine_Step
  imports Engine_Stages
begin

text \<open>
  The later stages of \<open>Engine._step_internal\<close> (staleness and quotes, price corridor, best quotes and cross-feed
  reconciliation), their composition, and \<open>Engine.step\<close> with its rollback.
\<close>

section \<open>Stage 5: staleness and quotes\<close>

definition quote_crossed :: "payload \<Rightarrow> bool" where
  "quote_crossed pl =
     (case (num_of (pget pl ''bid''), num_of (pget pl ''ask'')) of (Some b, Some a) \<Rightarrow> nlt a b | _ \<Rightarrow> False)"

definition stage_quote_and_staleness :: "payload \<Rightarrow> string \<Rightarrow> f64 \<Rightarrow> f64 \<Rightarrow> f64 \<Rightarrow> verdict \<Rightarrow> verdict" where
  "stage_quote_and_staleness pl ets exf recv thr v =
     (let v1 = (if fst v \<noteq> INVALID \<and> ets \<notin> {''HALT'', ''STATUS''} \<and> flt thr (fsub recv exf)
                then flag SUSPICIOUS [STALE] v else v)
      in if quote_crossed pl then flag INVALID [CROSSED_QUOTE] v1 else v1)"

section \<open>Stage 6: price corridor\<close>

text \<open>What the stage keeps for one slot: the window, the running mean, sum of squares and update count, and the run of
  outliers.\<close>

record pslot =
  ps_prices :: "pynum list"
  ps_stats :: "(pynum \<times> pynum \<times> int) option"
  ps_anom :: "(int \<times> pynum) option"

definition N_0 :: pynum where "N_0 = NF 0"
definition N_0_0001 :: pynum where "N_0_0001 = NF 0x3F1A36E2EB1C432D"
definition N_0_10 :: pynum where "N_0_10 = NF 0x3FB999999999999A"
definition N_0_05 :: pynum where "N_0_05 = NF 0x3FA999999999999A"

fun squared_devs :: "pynum \<Rightarrow> pynum list \<Rightarrow> pynum list res" where
  "squared_devs mu [] = Inr []"
| "squared_devs mu (p # ps) =
     bindr (nsub p mu) (\<lambda>d. bindr (nsquare d) (\<lambda>q. bindr (squared_devs mu ps) (\<lambda>qs. Inr (q # qs))))"

text \<open>\<open>mean = sum(prices) / n\<close> and \<open>m2 = sum((p - mean) ** 2 for p in prices)\<close>.\<close>

definition fresh_stats :: "engine_env \<Rightarrow> pynum list \<Rightarrow> int \<Rightarrow> (pynum \<times> pynum) res" where
  "fresh_stats env ps n =
     bindr (v_sum env ps) (\<lambda>t. bindr (ndiv t (NI n)) (\<lambda>mu.
     bindr (squared_devs mu ps) (\<lambda>qs. bindr (v_sum env qs) (\<lambda>m2. Inr (mu, m2)))))"

definition clamp0 :: "pynum \<Rightarrow> pynum" where
  "clamp0 x = (if nlt x N_0 then N_0 else x)"

text \<open>The test against the corridor: whether the price is an outlier, and \<open>effective_std\<close> where the code computes it.  With
  three prices or more the statistics exist, so the branches of the code for missing statistics are not reached.\<close>

definition is_outlier :: "pynum \<Rightarrow> pynum \<Rightarrow> pynum \<Rightarrow> int \<Rightarrow> (bool \<times> pynum option) res" where
  "is_outlier px mu m2 n =
     (if n \<ge> 20
      then bindr (ndiv m2 (NI n)) (\<lambda>var.
           bindr (if nlt N_0 var then nsqrt var else Inr N_0) (\<lambda>sd.
           bindr (nmul mu N_0_0001) (\<lambda>fl.
           let eff = nmax sd fl
           in bindr (if nlt (NI 0) eff
                     then bindr (nsub px mu) (\<lambda>d. bindr (nmul DEFAULT_PRICE_STDDEV eff) (\<lambda>b. Inr (nlt b (nabs d))))
                     else Inr False) (\<lambda>a. Inr (a, Some eff)))))
      else bindr (if nlt (NI 0) mu
                  then bindr (nsub px mu) (\<lambda>d. bindr (ndiv (nabs d) mu) (\<lambda>r. Inr (nlt N_0_10 r)))
                  else Inr False) (\<lambda>a. Inr (a, None)))"

definition count_outlier :: "pynum \<Rightarrow> pynum option \<Rightarrow> (pslot, unit) sm" where
  "count_outlier px eff =
     sbind (sget ps_anom) (\<lambda>an.
       let cnt = (case an of None \<Rightarrow> 0 | Some (k, _) \<Rightarrow> k); lst = (case an of None \<Rightarrow> N_0 | Some (_, x) \<Rightarrow> x)
       in sbind (slift (nmul N_0_05 (nabs px))) (\<lambda>tol.
          sbind (slift (nmul DEFAULT_PRICE_STDDEV (case eff of Some e \<Rightarrow> if nlt (NI 0) e then e else tol | None \<Rightarrow> tol))) (\<lambda>band.
          sbind (if cnt > 0 then sbind (slift (nsub px lst)) (\<lambda>d. sret (nle (nabs d) (nmax band tol))) else sret False) (\<lambda>near.
          let cnt' = (if near then cnt + 1 else 1)
          in smod (\<lambda>p. if cnt' \<ge> DEFAULT_PRICE_RESEED_AFTER
                       then p\<lparr>ps_prices := [px], ps_stats := Some (px, N_0, 0), ps_anom := Some (0, N_0)\<rparr>
                       else p\<lparr>ps_anom := Some (cnt', px)\<rparr>)))))"

definition window_full :: "engine_env \<Rightarrow> pynum \<Rightarrow> (pynum \<times> pynum \<times> int) option \<Rightarrow> (pslot, unit) sm" where
  "window_full env px stats =
     sbind (sget (\<lambda>p. hd (ps_prices p))) (\<lambda>old.
     sthen (smod (\<lambda>p. p\<lparr>ps_prices := tl (ps_prices p) @ [px]\<rparr>))
       (case stats of
          None \<Rightarrow> sret ()
        | Some (mu, m2, k) \<Rightarrow>
            sbind (slift (nsub px old)) (\<lambda>d.
            sbind (slift (ndiv d (NI DEFAULT_PRICE_WINDOW))) (\<lambda>dw.
            sbind (slift (nadd mu dw)) (\<lambda>nm.
            sbind (slift (nsub px nm)) (\<lambda>a. sbind (slift (nsub old mu)) (\<lambda>b. sbind (slift (nadd a b)) (\<lambda>ab.
            sbind (slift (nmul d ab)) (\<lambda>dab. sbind (slift (nadd m2 dab)) (\<lambda>m2'.
            if k + 1 \<ge> 200
            then sbind (sget ps_prices) (\<lambda>ps. sbind (slift (fresh_stats env ps DEFAULT_PRICE_WINDOW)) (\<lambda>(nm', m2'').
                 smod (\<lambda>p. p\<lparr>ps_stats := Some (nm', m2'', 0)\<rparr>)))
            else smod (\<lambda>p. p\<lparr>ps_stats := Some (nm, clamp0 m2', k + 1)\<rparr>)))))))))))"

definition window_growing :: "engine_env \<Rightarrow> pynum \<Rightarrow> (pynum \<times> pynum \<times> int) option \<Rightarrow> (pslot, unit) sm" where
  "window_growing env px stats =
     sthen (smod (\<lambda>p. p\<lparr>ps_prices := ps_prices p @ [px]\<rparr>))
    (sbind (sget ps_prices) (\<lambda>ps. let n = int (length ps) in
       case stats of
         Some (mu, m2, k) \<Rightarrow>
           sbind (slift (nsub px mu)) (\<lambda>d. sbind (slift (ndiv d (NI n))) (\<lambda>dn. sbind (slift (nadd mu dn)) (\<lambda>nm.
           sbind (slift (nsub px nm)) (\<lambda>a. sbind (slift (nmul d a)) (\<lambda>da. sbind (slift (nadd m2 da)) (\<lambda>m2'.
           smod (\<lambda>p. p\<lparr>ps_stats := Some (nm, clamp0 m2', k + 1)\<rparr>)))))))
       | None \<Rightarrow>
           if n \<ge> 3
           then sbind (slift (fresh_stats env ps n)) (\<lambda>(nm, m2). smod (\<lambda>p. p\<lparr>ps_stats := Some (nm, m2, 0)\<rparr>))
           else sret ()))"

definition corridor_slot :: "engine_env \<Rightarrow> pynum \<Rightarrow> (pslot, bool) sm" where
  "corridor_slot env px =
     sbind (sget (\<lambda>p. int (length (ps_prices p)))) (\<lambda>n.
     sbind (sget ps_stats) (\<lambda>st0.
     sthen (if st0 = None \<and> n \<ge> 3
            then sbind (sget ps_prices) (\<lambda>ps. sbind (slift (fresh_stats env ps n)) (\<lambda>(mu, m2).
                 smod (\<lambda>p. p\<lparr>ps_stats := Some (mu, m2, 0)\<rparr>)))
            else sret ())
    (sbind (sget ps_stats) (\<lambda>stats.
     sbind (slift (case stats of
                     Some (mu, m2, _) \<Rightarrow> if n \<ge> 3 then is_outlier px mu m2 n else Inr (False, None)
                   | None \<Rightarrow> Inr (False, None))) (\<lambda>(out, eff).
     sthen (if out then count_outlier px eff
            else sthen (smod (\<lambda>p. p\<lparr>ps_anom := Some (0, N_0)\<rparr>))
                   (if n \<ge> DEFAULT_PRICE_WINDOW then window_full env px stats else window_growing env px stats))
     (sret out))))))"

definition load_slot :: "string \<Rightarrow> engine_state \<Rightarrow> pslot" where
  "load_slot k s =
     \<lparr>ps_prices = (case es_price_windows s k of None \<Rightarrow> [] | Some w \<Rightarrow> w), ps_stats = es_price_stats s k,
      ps_anom = es_price_anom s k\<rparr>"

definition store_slot :: "string \<Rightarrow> pslot \<Rightarrow> engine_state \<Rightarrow> engine_state" where
  "store_slot k p s =
     s\<lparr>es_price_windows := (es_price_windows s)(k \<mapsto> ps_prices p), es_price_stats := (es_price_stats s)(k := ps_stats p),
       es_price_anom := (es_price_anom s)(k := ps_anom p)\<rparr>"

definition on_slot :: "string \<Rightarrow> (pslot, 'a) sm \<Rightarrow> (ectx, 'a) sm" where
  "on_slot k m c = (case m (load_slot k (cx_state c)) of (p, r) \<Rightarrow> (c\<lparr>cx_state := store_slot k p (cx_state c)\<rparr>, r))"

definition stage_price_corridor :: "engine_env \<Rightarrow> string \<Rightarrow> pynum option \<Rightarrow> verdict \<Rightarrow> (ectx, verdict) sm" where
  "stage_price_corridor env slot px v =
     (case px of
        Some x \<Rightarrow>
          if fst v \<noteq> INVALID
          then sbind (sthen (jrec (record_price_window slot)) (on_slot slot (corridor_slot env x))) (\<lambda>out.
                 sret (if out then flag SUSPICIOUS [PRICE_ANOMALY] v else v))
          else sret v
      | None \<Rightarrow> sret v)"

section \<open>Stage 7: best quotes and reconciliation\<close>

definition on_quote :: "string \<Rightarrow> string \<Rightarrow> (string \<rightharpoonup> f64, 'a) sm \<Rightarrow> (ectx, 'a) sm" where
  "on_quote inst src m c =
     (let qs = (case es_bbo_state (cx_state c) inst of None \<Rightarrow> Map.empty | Some qs \<Rightarrow> qs);
          q = (case qs src of None \<Rightarrow> Map.empty | Some q \<Rightarrow> q)
      in case m q of (q', r) \<Rightarrow>
           (c\<lparr>cx_state := (cx_state c)\<lparr>es_bbo_state := (es_bbo_state (cx_state c))(inst \<mapsto> qs(src \<mapsto> q'))\<rparr>\<rparr>, r))"

definition put_side :: "string \<Rightarrow> pynum option \<Rightarrow> (string \<rightharpoonup> f64, unit) sm" where
  "put_side side x =
     (case x of None \<Rightarrow> sret () | Some a \<Rightarrow> sbind (slift (n_to_f a)) (\<lambda>f. smod (\<lambda>q. q(side \<mapsto> f))))"

definition N_0_25 :: f64 where "N_0_25 = 0x3FD0000000000000"
definition N_0_005 :: pynum where "N_0_005 = NF 0x3F747AE147AE147B"

definition recent :: "f64 \<Rightarrow> f64 \<Rightarrow> bool" where
  "recent exf ts = fle (fabs (fsub exf ts)) N_0_25"

fun sum_recent :: "f64 \<Rightarrow> (pynum \<times> f64) list \<Rightarrow> pynum \<Rightarrow> int \<Rightarrow> (pynum \<times> int) res" where
  "sum_recent exf [] t k = Inr (t, k)"
| "sum_recent exf ((p, ts) # xs) t k =
     (if recent exf ts then bindr (nadd t p) (\<lambda>t'. sum_recent exf xs t' (k + 1)) else sum_recent exf xs t k)"

fun any_divergent :: "f64 \<Rightarrow> pynum \<Rightarrow> (pynum \<times> f64) list \<Rightarrow> bool res" where
  "any_divergent exf mu [] = Inr False"
| "any_divergent exf mu ((p, ts) # xs) =
     (if recent exf ts
      then bindr (nsub p mu) (\<lambda>d. bindr (ndiv (nabs d) mu) (\<lambda>r.
             if nlt N_0_005 r then Inr True else any_divergent exf mu xs))
      else any_divergent exf mu xs)"

definition feeds_disagree :: "f64 \<Rightarrow> (pynum \<times> f64) list \<Rightarrow> bool res" where
  "feeds_disagree exf vals =
     (if length vals \<ge> 2
      then bindr (sum_recent exf vals N_0 0) (\<lambda>(t, k).
             if k \<ge> 2
             then bindr (ndiv t (NI k)) (\<lambda>mu. if nlt (NI 0) mu then any_divergent exf mu vals else Inr False)
             else Inr False)
      else Inr False)"

definition put_recent :: "string \<Rightarrow> string \<Rightarrow> pynum \<Rightarrow> f64 \<Rightarrow> engine_state \<Rightarrow> engine_state" where
  "put_recent inst src px exf s =
     s\<lparr>es_reconciliation := (es_reconciliation s)
         (inst \<mapsto> dset (case es_reconciliation s inst of None \<Rightarrow> [] | Some q \<Rightarrow> q) src (px, exf))\<rparr>"

definition stage_bbo_and_reconciliation ::
    "raw_event \<Rightarrow> payload \<Rightarrow> string \<Rightarrow> pynum option \<Rightarrow> f64 \<Rightarrow> verdict \<Rightarrow> (ectx, verdict \<times> bool) sm" where
  "stage_bbo_and_reconciliation raw pl inst px exf v =
     (let src = re_source raw; bid = num_of (pget pl ''bid''); ask = num_of (pget pl ''ask'')
      in sthen (if bid \<noteq> None \<or> ask \<noteq> None
                then sthen (jrec (record_bbo inst src))
                           (on_quote inst src (sthen (put_side ''bid'' bid) (put_side ''ask'' ask)))
                else sret ())
         (case px of
            Some x \<Rightarrow>
              if fst v \<noteq> INVALID
              then sthen (sthen (jrec (record_reconciliation inst src)) (jupd (put_recent inst src x exf)))
                  (sbind (jget (\<lambda>s. map snd (case es_reconciliation s inst of None \<Rightarrow> [] | Some q \<Rightarrow> q))) (\<lambda>vals.
                   sbind (slift (feeds_disagree exf vals)) (\<lambda>dis.
                     sret (if dis then flag SUSPICIOUS [CROSS_FEED_DISAGREEMENT] v else v, dis))))
              else sret (v, False)
          | None \<Rightarrow> sret (v, False)))"

section \<open>One step\<close>

text \<open>\<open>state.counts[status] += 1\<close>.\<close>

definition bump_count :: "quality_status \<Rightarrow> (ectx, unit) sm" where
  "bump_count q =
     sbind (jget (\<lambda>s. es_counts s q)) (\<lambda>n.
       case n of None \<Rightarrow> slift (Inl KeyError) | Some k \<Rightarrow> jupd (\<lambda>s. s\<lparr>es_counts := (es_counts s)(q \<mapsto> k + 1)\<rparr>))"

definition count_decision :: "quality_status \<Rightarrow> (ectx, unit) sm" where
  "count_decision q = sthen (jrec (record_count q)) (bump_count q)"

definition event_id_of :: "raw_event \<Rightarrow> string \<Rightarrow> int option \<Rightarrow> int \<Rightarrow> string" where
  "event_id_of raw inst sq off =
     (if re_raw_id raw \<noteq> [] then re_raw_id raw
      else ''evt_'' @ re_source raw @ ''_'' @ inst @ ''_'' @ py_str_int (case sq of Some q \<Rightarrow> q | None \<Rightarrow> off))"

definition package ::
    "engine_env \<Rightarrow> raw_event \<Rightarrow> payload \<Rightarrow> int \<Rightarrow> f64 \<Rightarrow> f64 \<Rightarrow> schema_ok \<Rightarrow> int \<Rightarrow> string option \<Rightarrow> verdict \<Rightarrow> bool \<Rightarrow> bool
     \<Rightarrow> engine_decision res" where
  "package env raw pl off now recv sch ep sess v dup dis =
     (case sch of (inst, ets, sq, exf) \<Rightarrow>
      let eid = event_id_of raw inst sq off
      in if fst v = INVALID
         then bindr (v_json env pl) (\<lambda>js.
                Inr \<lparr>d_offset = off, d_event_id = eid, d_quality_status = INVALID, d_reasons = snd v,
                     d_canonical_event = None,
                     d_quarantine_row = Some (eid, PStr inst, re_source raw, ''INVALID'',
                                              v_json_list env (map reason_value (snd v)), js, recv),
                     d_is_duplicate = dup, d_disagreement = dis, d_durable = True\<rparr>)
         else Inr \<lparr>d_offset = off, d_event_id = eid, d_quality_status = fst v, d_reasons = snd v,
                   d_canonical_event = Some
                     \<lparr>ce_event_id = eid, ce_instrument_id = inst, ce_event_type = ets, ce_exchange_timestamp = exf,
                      ce_receive_timestamp = recv, ce_processing_timestamp = now, ce_source = re_source raw,
                      ce_sequence_number = sq, ce_price = pget pl ''price'', ce_quantity = pget pl ''quantity'',
                      ce_bid_price = pget pl ''bid'', ce_ask_price = pget pl ''ask'', ce_bid_size = pget pl ''bid_size'',
                      ce_ask_size = pget pl ''ask_size'', ce_quality_status = fst v, ce_reasons = snd v,
                      ce_raw_id = re_raw_id raw,
                      ce_session_id = (case sess of Some t \<Rightarrow> Some t
                                       | None \<Rightarrow> if ep > 0 then Some (''epoch_'' @ py_str_int ep) else None)\<rparr>,
                   d_quarantine_row = None, d_is_duplicate = dup, d_disagreement = dis, d_durable = True\<rparr>)"

definition run_stages ::
    "engine_env \<Rightarrow> bool \<Rightarrow> f64 \<Rightarrow> f64 \<Rightarrow> raw_event \<Rightarrow> payload \<Rightarrow> int \<Rightarrow> schema_ok \<Rightarrow> (ectx, engine_decision) sm" where
  "run_stages env is_replay now recv raw pl off sch =
     (case sch of (inst, ets, sq, exf) \<Rightarrow>
      let px = num_of (pget pl ''price'')
      in sbind (stage_session_and_epoch env raw pl inst sq exf) (\<lambda>(ep, stream, slot, sess, trig).
         sbind (stage_sequence_and_dedup env raw pl inst ets sq exf recv ep stream slot is_replay
                  (VALID, if trig then [EPOCH_RESET] else [])) (\<lambda>(v1, dup).
         sbind (jget es_staleness_threshold_s) (\<lambda>thr.
         sbind (stage_price_corridor env slot px (stage_quote_and_staleness pl ets exf recv thr v1)) (\<lambda>v3.
         sbind (stage_bbo_and_reconciliation raw pl inst px exf v3) (\<lambda>(v4, dis).
         sthen (count_decision (fst v4))
               (slift (package env raw pl off now recv sch ep sess v4 dup dis))))))))"

definition begin_event :: "int \<Rightarrow> (ectx, unit) sm" where
  "begin_event off =
     sthen (jrec record_event_count)
           (jupd (\<lambda>s. s\<lparr>es_event_count := es_event_count s + 1, es_last_applied_offset := off\<rparr>))"

definition recv_of :: "raw_event \<Rightarrow> f64 \<Rightarrow> f64" where
  "recv_of raw now = (if f_mag (re_receive_timestamp raw) \<noteq> 0 then re_receive_timestamp raw else now)"

definition step_body :: "engine_env \<Rightarrow> bool \<Rightarrow> f64 \<Rightarrow> raw_event \<Rightarrow> int \<Rightarrow> (ectx, engine_decision) sm" where
  "step_body env is_replay now raw off =
       (case re_payload raw of
          Inl txt \<Rightarrow>
            sthen (count_decision INVALID)
              (sret (rejected off (q_id raw off) SCHEMA_VIOLATION
                 (q_id raw off, PStr ''MALFORMED'', re_source raw, ''INVALID'',
                  v_json_list env [''Payload is not a dictionary''], v_json_str env txt, recv_of raw now)))
        | Inr pl \<Rightarrow>
            sbind (slift (stage_security_envelope env raw pl off (recv_of raw now))) (\<lambda>sec.
            case sec of
              Some d \<Rightarrow> sthen (count_decision INVALID) (sret d)
            | None \<Rightarrow>
                sbind (slift (stage_schema_validation env raw pl off (recv_of raw now))) (\<lambda>sch.
                case sch of
                  Inl d \<Rightarrow> sthen (count_decision INVALID) (sret d)
                | Inr ok \<Rightarrow> run_stages env is_replay now (recv_of raw now) raw pl off ok)))"

definition step_internal :: "engine_env \<Rightarrow> bool \<Rightarrow> f64 \<Rightarrow> raw_event \<Rightarrow> int \<Rightarrow> (ectx, engine_decision) sm" where
  "step_internal env is_replay now raw off = sthen (begin_event off) (step_body env is_replay now raw off)"

text \<open>The handler of \<open>step\<close>: roll back, count the event as invalid, quarantine it.  \<open>has_txn\<close> says whether the caller passed
  its own transaction; \<open>now2\<close> is the clock reading of the handler and \<open>msg\<close> the text of the exception.\<close>

definition quarantined :: "engine_env \<Rightarrow> f64 \<Rightarrow> raw_event \<Rightarrow> int \<Rightarrow> string \<Rightarrow> engine_decision" where
  "quarantined env now2 raw off msg =
     (let eid = (if re_raw_id raw \<noteq> [] then re_raw_id raw else q_id raw off)
      in rejected off eid SCHEMA_VIOLATION
           (eid, PStr ''MALFORMED'', re_source raw, ''INVALID'', v_json_list env [''Unhandled engine exception: '' @ msg],
            v_json_str env (case re_payload raw of Inl txt \<Rightarrow> txt | Inr pl \<Rightarrow> v_str_dict env pl), recv_of raw now2))"

definition step_failed ::
    "engine_env \<Rightarrow> bool \<Rightarrow> f64 \<Rightarrow> raw_event \<Rightarrow> int \<Rightarrow> string \<Rightarrow> nat \<Rightarrow> int \<Rightarrow> (ectx, engine_decision) sm" where
  "step_failed env has_txn now2 raw off msg mk prev =
     sthen (rollback_to mk)
    (sthen (if has_txn then sthen (jrec record_event_count) (jrec (record_count INVALID)) else sret ())
    (sthen (jupd (\<lambda>s. s\<lparr>es_event_count := prev + 1\<rparr>))
    (sthen (bump_count INVALID)
    (sret (quarantined env now2 raw off msg)))))"

definition engine_step ::
    "engine_env \<Rightarrow> bool \<Rightarrow> bool \<Rightarrow> f64 \<Rightarrow> f64 \<Rightarrow> raw_event \<Rightarrow> int option \<Rightarrow> (ectx, engine_decision) sm" where
  "engine_step env has_txn is_replay now now2 raw off0 c =
     (let prev = es_event_count (cx_state c); off = (case off0 of None \<Rightarrow> prev | Some o' \<Rightarrow> o'); mk = length (cx_actions c)
      in case step_internal env is_replay now raw off c of
           (c1, Inr d) \<Rightarrow> (if has_txn then c1 else txn_commit c1, Inr d)
         | (c1, Inl e) \<Rightarrow> step_failed env has_txn now2 raw off (v_exc env e) mk prev c1)"

end
