(* ===== verification/Engine_Txn.thy ===== *)
theory Engine_Txn
  imports Engine_Step
begin

text \<open>
  The undo journal is complete: whatever a step has done when it raises, undoing the entries it recorded gives the state
  before the step, up to the lists of stale sequence numbers, which the code does not journal.  The argument is
  compositional: a reflexive and transitive relation between the states before and after an operation is inherited by
  sequencing, so it is proved for the primitive blocks only.
\<close>

section \<open>Relations along a computation\<close>

definition along :: "('s \<Rightarrow> 's \<Rightarrow> bool) \<Rightarrow> ('s, 'a) sm \<Rightarrow> bool" where
  "along R m = (\<forall>s. R s (fst (m s)))"

lemma alongD: "along R m \<Longrightarrow> m s = (s', r) \<Longrightarrow> R s s'"
  by (metis along_def fst_conv)

locale fold_rel =
  fixes R :: "'s \<Rightarrow> 's \<Rightarrow> bool"
  assumes R_refl: "R s s"
    and R_trans: "R a b \<Longrightarrow> R b c \<Longrightarrow> R a c"
begin

lemma along_sret: "along R (sret x)"
  by (simp add: along_def sret_def R_refl)

lemma along_slift: "along R (slift r)"
  by (simp add: along_def slift_def R_refl)

lemma along_sget: "along R (sget f)"
  by (simp add: along_def sget_def R_refl)

lemma along_sbind:
  assumes "along R m" and "\<And>x. along R (f x)"
  shows "along R (sbind m f)"
  unfolding along_def
proof
  fix s
  obtain s' r where m: "m s = (s', r)" by (cases "m s")
  then have "R s s'" using assms(1) by (rule alongD [rotated])
  then show "R s (fst (sbind m f s))"
    using m assms(2) by (cases r) (auto simp: sbind_def along_def intro: R_trans)
qed

lemma along_sthen: "along R m \<Longrightarrow> along R k \<Longrightarrow> along R (sthen m k)"
  by (simp add: sthen_def along_sbind)

lemma along_if: "(b \<Longrightarrow> along R m) \<Longrightarrow> (\<not> b \<Longrightarrow> along R k) \<Longrightarrow> along R (if b then m else k)"
  by simp

lemma along_option: "(x = None \<Longrightarrow> along R m) \<Longrightarrow> (\<And>y. along R (f y)) \<Longrightarrow> along R (case x of None \<Rightarrow> m | Some y \<Rightarrow> f y)"
  by (cases x) simp_all

lemma along_sum: "(\<And>y. along R (f y)) \<Longrightarrow> (\<And>y. along R (g y)) \<Longrightarrow> along R (case x of Inl y \<Rightarrow> f y | Inr y \<Rightarrow> g y)"
  by (cases x) simp_all

lemma along_prod: "(\<And>a b. along R (f a b)) \<Longrightarrow> along R (case x of (a, b) \<Rightarrow> f a b)"
  by (cases x) simp

lemmas along_intros = along_sret along_slift along_sget along_sbind along_sthen along_if along_option along_sum along_prod

end

section \<open>Undoing\<close>

lemma undo1_stale:
  "undo1 a (s\<lparr>es_sequence_stale_seen := x\<rparr>) = map_sum id (\<lambda>t. t\<lparr>es_sequence_stale_seen := x\<rparr>) (undo1 a s)"
  by (cases a) (auto simp: undo_dedup_def Let_def split: option.split)

lemma undo_list_stale:
  "undo_list as (s\<lparr>es_sequence_stale_seen := x\<rparr>) = map_sum id (\<lambda>t. t\<lparr>es_sequence_stale_seen := x\<rparr>) (undo_list as s)"
  by (induction as arbitrary: s) (auto simp: undo1_stale bindr_def split: sum.split)

lemma undo_list_append: "undo_list (as @ bs) s = bindr (undo_list as s) (undo_list bs)"
  by (induction as arbitrary: s) (auto simp: bindr_def split: sum.split)

text \<open>Undoing never touches the stale lists.\<close>

lemma undo_list_keeps_stale: "undo_list as s = Inr t \<Longrightarrow> es_sequence_stale_seen t = es_sequence_stale_seen s"
  using undo_list_stale [of as "es_sequence_stale_seen s" s] by (cases "undo_list as s") (auto, metis engine_state.select_convs(8) engine_state.surjective engine_state.update_convs(8))

definition undoes :: "undo list \<Rightarrow> engine_state \<Rightarrow> engine_state \<Rightarrow> bool" where
  "undoes as s s0 = (\<exists>x. undo_list (rev as) s = Inr (s0\<lparr>es_sequence_stale_seen := x\<rparr>))"

lemma undoes_Nil [simp]: "undoes [] s s"
  by (auto simp: undoes_def intro!: exI [of _ "es_sequence_stale_seen s"])

lemma undoes_trans:
  assumes "undoes as s1 s0" and "undoes bs s2 s1" shows "undoes (as @ bs) s2 s0"
  using assms by (auto simp: undoes_def undo_list_append undo_list_stale)

text \<open>The invariant of the engine state: every status has a counter, and the duplicate set holds what the window of
  fingerprints holds.\<close>

definition state_ok :: "engine_state \<Rightarrow> bool" where
  "state_ok s =
     ((\<forall>q. es_counts s q \<noteq> None) \<and> distinct (es_dedup_window s) \<and> set (es_dedup_window s) = es_dedup_set s
      \<and> int (length (es_dedup_window s)) \<le> DEFAULT_DEDUP_WINDOW_SIZE)"

text \<open>The journal grows by entries that undo the changes.\<close>

definition journal_rel :: "ectx \<Rightarrow> ectx \<Rightarrow> bool" where
  "journal_rel c c' =
     (state_ok (cx_state c) \<longrightarrow>
        state_ok (cx_state c') \<and> cx_committed c' = cx_committed c
        \<and> (\<exists>as. cx_actions c' = cx_actions c @ as \<and> undoes as (cx_state c') (cx_state c)))"

interpretation jr: fold_rel journal_rel
proof
  show "journal_rel c c" for c by (simp add: journal_rel_def)
  show "journal_rel a c" if ab: "journal_rel a b" and bc: "journal_rel b c" for a b c
    unfolding journal_rel_def
  proof (intro impI)
    assume "state_ok (cx_state a)"
    with ab obtain xs where x: "cx_actions b = cx_actions a @ xs" "undoes xs (cx_state b) (cx_state a)"
      "state_ok (cx_state b)" "cx_committed b = cx_committed a" by (auto simp: journal_rel_def)
    with bc obtain ys where y: "cx_actions c = cx_actions b @ ys" "undoes ys (cx_state c) (cx_state b)"
      "state_ok (cx_state c)" "cx_committed c = cx_committed b" by (auto simp: journal_rel_def)
    show "state_ok (cx_state c) \<and> cx_committed c = cx_committed a
        \<and> (\<exists>as. cx_actions c = cx_actions a @ as \<and> undoes as (cx_state c) (cx_state a))"
      using x y undoes_trans [OF x(2) y(2)] by (auto intro: exI [of _ "xs @ ys"])
  qed
qed

text \<open>A block: entries recorded before the writes they undo.\<close>

lemma journal_block:
  assumes "\<And>c. cx_actions (fst (n c)) = cx_actions c \<and> cx_committed (fst (n c)) = cx_committed c"
    and "\<And>c. state_ok (cx_state c) \<Longrightarrow> state_ok (cx_state (fst (n c))) \<and> undoes (f (cx_state c)) (cx_state (fst (n c))) (cx_state c)"
    and "\<And>c a. cx_state (fst (n (c\<lparr>cx_actions := a\<rparr>))) = cx_state (fst (n c))"
  shows "along journal_rel (sthen (jrec f) n)"
  unfolding along_def
proof
  fix c :: ectx
  let ?c = "c\<lparr>cx_actions := cx_actions c @ f (cx_state c)\<rparr>"
  have "fst (sthen (jrec f) n c) = fst (n ?c)" by (simp add: sm_defs jrec_def)
  then show "journal_rel c (fst (sthen (jrec f) n c))"
    using assms(1) [of ?c] assms(2) [of c] assms(3) [of "cx_actions c @ f (cx_state c)" c]
    by (simp add: journal_rel_def)
qed

lemma journal_upd:
  assumes "\<And>s. state_ok s \<Longrightarrow> state_ok (g s) \<and> undoes (f s) (g s) s"
  shows "along journal_rel (sthen (jrec f) (jupd g))"
  using assms by (intro journal_block) (simp_all add: jupd_def smod_def)

lemma journal_stale:
  assumes "\<And>s. \<exists>x. g s = s\<lparr>es_sequence_stale_seen := x\<rparr>"
  shows "along journal_rel (jupd g)"
  unfolding along_def
proof
  fix c :: ectx
  obtain x where "g (cx_state c) = (cx_state c)\<lparr>es_sequence_stale_seen := x\<rparr>" using assms by blast
  then show "journal_rel c (fst (jupd g c))"
    by (auto simp: journal_rel_def jupd_def smod_def undoes_def state_ok_def intro: exI [of _ x])
qed

lemma journal_get: "along journal_rel (jget f)"
  unfolding jget_def by (rule jr.along_sget)

lemma journal_gaps: "along journal_rel (smod (\<lambda>c. c\<lparr>cx_gaps := g c\<rparr>))"
  by (auto simp: along_def smod_def journal_rel_def)

section \<open>The blocks of the stages\<close>

lemma put2_undo1: "(put2 slot slot v m)(slot := m slot) = m"
  by (auto simp: put2_def)

lemma put2_undo2: "slot \<noteq> stream \<Longrightarrow> (put2 slot stream v m)(stream := m stream, slot := m slot) = m"
  by (auto simp: put2_def fun_eq_iff)

lemma undoes_stale [simp]: "undoes as (t\<lparr>es_sequence_stale_seen := x\<rparr>) s = undoes as t s"
  by (auto simp: undoes_def undo_list_stale map_sum_def id_def split: sum.split)
     (metis engine_state.update_convs(8) engine_state.surjective)+

lemma undoes_seq4:
  "undoes (both slot stream record_sequence s)
     (s\<lparr>es_sequence_state := put2 slot stream a (es_sequence_state s),
        es_sequence_seen := put2 slot stream b (es_sequence_seen s),
        es_sequence_cand := put2 slot stream d (es_sequence_cand s),
        es_sequence_regress := put2 slot stream e (es_sequence_regress s)\<rparr>) s"
  unfolding undoes_def
  by (cases "slot = stream"; rule exI [of _ "es_sequence_stale_seen s"])
     (simp_all add: both_def record_sequence_def put2_undo1 put2_undo2)

lemma undoes_seq3:
  "undoes (both slot stream record_sequence s)
     (s\<lparr>es_sequence_state := put2 slot stream a (es_sequence_state s),
        es_sequence_seen := put2 slot stream b (es_sequence_seen s),
        es_sequence_cand := put2 slot stream d (es_sequence_cand s)\<rparr>) s"
  unfolding undoes_def
  by (cases "slot = stream"; rule exI [of _ "es_sequence_stale_seen s"])
     (simp_all add: both_def record_sequence_def put2_undo1 put2_undo2)

lemma undoes_one:
  "undoes (both slot stream record_cand s) (s\<lparr>es_sequence_cand := put2 slot stream a (es_sequence_cand s)\<rparr>) s"
  "undoes (both slot stream record_seen s) (s\<lparr>es_sequence_seen := put2 slot stream a' (es_sequence_seen s)\<rparr>) s"
  "undoes (both slot stream record_regress s) (s\<lparr>es_sequence_regress := put2 slot stream a'' (es_sequence_regress s)\<rparr>) s"
  unfolding undoes_def
  by (cases "slot = stream"; rule exI [of _ "es_sequence_stale_seen s"];
      simp add: both_def record_cand_def record_seen_def record_regress_def put2_undo1 put2_undo2)+

lemma journal_seq_first: "along journal_rel (seq_first slot stream q)"
  unfolding seq_first_def by (intro journal_upd) (simp add: state_ok_def undoes_seq4)

lemma journal_seq_advance: "along journal_rel (seq_advance slot stream q m)"
  unfolding seq_advance_def by (intro journal_upd) (simp add: state_ok_def undoes_seq3)

lemma journal_seq_candidate: "along journal_rel (seq_candidate slot stream q)"
  unfolding seq_candidate_def by (intro journal_upd) (simp add: state_ok_def undoes_one)

lemma journal_seq_reset: "along journal_rel (seq_regress_reset slot stream q)"
  unfolding seq_regress_reset_def by (intro journal_upd) (simp add: state_ok_def undoes_seq4)

lemma journal_push_stale: "along journal_rel (jupd (push_stale slot q))"
  by (intro journal_stale) (auto simp: push_stale_def Let_def)

lemma journal_seq_count: "along journal_rel (seq_regress_count slot stream n q)"
  unfolding seq_regress_count_def
  by (intro jr.along_sthen journal_push_stale journal_upd) (simp add: state_ok_def undoes_one)

lemma dedup_insert_ok:
  assumes "state_ok s" and "f \<notin> es_dedup_set s"
  shows "state_ok (dedup_insert f s)"
  using assms
  by (cases "es_dedup_window s") (auto simp: state_ok_def dedup_insert_def Let_def DEFAULT_DEDUP_WINDOW_SIZE_def)

lemma undoes_dedup:
  assumes "state_ok s" and "f \<notin> es_dedup_set s"
  shows "undoes (record_dedup f s) (dedup_insert f s) s"
proof (cases "es_dedup_window s")
  case Nil
  then show ?thesis using assms unfolding undoes_def
    by (intro exI [of _ "es_sequence_stale_seen s"])
       (simp add: state_ok_def record_dedup_def dedup_insert_def undo_dedup_def DEFAULT_DEDUP_WINDOW_SIZE_def)
next
  case (Cons a w)
  have s: "insert f (es_dedup_set s) - {a} - {f} = es_dedup_set s - {a}" "insert a (es_dedup_set s - {a}) = es_dedup_set s"
    "insert f (es_dedup_set s) - {f} = es_dedup_set s"
    using assms Cons by (auto simp: state_ok_def)
  show ?thesis using Cons s unfolding undoes_def
    by (intro exI [of _ "es_sequence_stale_seen s"])
       (simp add: record_dedup_def dedup_insert_def undo_dedup_def)
qed

lemma journal_unseq_dedup: "along journal_rel (eng_unseq_dedup f v)"
  unfolding along_def
proof
  fix c :: ectx
  let ?s = "cx_state c"
  show "journal_rel c (fst (eng_unseq_dedup f v c))"
  proof (cases "f \<in> es_dedup_set ?s")
    case True
    then show ?thesis by (simp add: eng_unseq_dedup_def sm_defs jget_def jr.R_refl)
  next
    case False
    then have "fst (eng_unseq_dedup f v c) = c\<lparr>cx_actions := cx_actions c @ record_dedup f ?s, cx_state := dedup_insert f ?s\<rparr>"
      by (simp add: eng_unseq_dedup_def sm_defs jget_def jrec_def jupd_def)
    then show ?thesis using False by (simp add: journal_rel_def dedup_insert_ok undoes_dedup)
  qed
qed

lemma undoes_price: "undoes (record_price_window k s) (store_slot k p s) s"
  unfolding undoes_def by (rule exI [of _ "es_sequence_stale_seen s"]) (simp add: record_price_window_def store_slot_def)

lemma state_ok_store [simp]: "state_ok (store_slot k p s) = state_ok s"
  by (simp add: state_ok_def store_slot_def)

lemma journal_on_slot: "along journal_rel (sthen (jrec (record_price_window k)) (on_slot k m))"
  by (intro journal_block) (auto simp: on_slot_def undoes_price split: prod.split)

lemma undoes_bbo:
  "undoes (record_bbo inst src s)
     (s\<lparr>es_bbo_state := (es_bbo_state s)(inst \<mapsto> (case es_bbo_state s inst of None \<Rightarrow> Map.empty | Some qs \<Rightarrow> qs)(src \<mapsto> q))\<rparr>) s"
  unfolding undoes_def
  by (rule exI [of _ "es_sequence_stale_seen s"], cases "es_bbo_state s inst")
     (auto simp: record_bbo_def fun_upd_idem split: option.split)

lemma journal_on_quote: "along journal_rel (sthen (jrec (record_bbo inst src)) (on_quote inst src m))"
  by (intro journal_block) (auto simp: on_quote_def Let_def undoes_bbo state_ok_def split: prod.split)

lemma undoes_recent: "undoes (record_reconciliation inst src s) (put_recent inst src px exf s) s"
  unfolding undoes_def
proof (rule exI [of _ "es_sequence_stale_seen s"], cases "es_reconciliation s inst")
  case None
  then show "undo_list (rev (record_reconciliation inst src s)) (put_recent inst src px exf s)
      = Inr (s\<lparr>es_sequence_stale_seen := es_sequence_stale_seen s\<rparr>)"
    by (simp add: record_reconciliation_def put_recent_def fun_upd_idem)
next
  case (Some q)
  show "undo_list (rev (record_reconciliation inst src s)) (put_recent inst src px exf s)
      = Inr (s\<lparr>es_sequence_stale_seen := es_sequence_stale_seen s\<rparr>)"
  proof (cases "dget q src")
    case None
    then show ?thesis using Some ddel_restore [OF None, of "(px, exf)"]
      by (simp add: record_reconciliation_def put_recent_def fun_upd_idem)
  next
    case (Some v)
    then show ?thesis using \<open>es_reconciliation s inst = Some q\<close> dset_restore [OF Some, of v]
      by (simp add: record_reconciliation_def put_recent_def fun_upd_idem)
  qed
qed

lemma journal_recent: "along journal_rel (sthen (jrec (record_reconciliation inst src)) (jupd (put_recent inst src px exf)))"
  by (intro journal_upd) (simp add: undoes_recent, simp add: state_ok_def put_recent_def)

section \<open>The stages and the step\<close>

lemma journal_epoch: "along journal_rel (stage_session_and_epoch env raw pl inst sq exf)"
proof -
  have u: "undoes (record_epoch k s)
     (s\<lparr>es_epoch_state := (es_epoch_state s)(k \<mapsto> e), es_session_state := (case t of None \<Rightarrow> es_session_state s | Some x \<Rightarrow> (es_session_state s)(k \<mapsto> x)),
        es_epoch_ts := (if b then (es_epoch_ts s)(k \<mapsto> f) else es_epoch_ts s)\<rparr>) s" for k s e t b f
    unfolding undoes_def
    by (rule exI [of _ "es_sequence_stale_seen s"], cases t) (simp_all add: record_epoch_def)
  have v: "undoes [USession k (es_session_state s k)] (s\<lparr>es_session_state := (es_session_state s)(k := t)\<rparr>) s" for k s t
    unfolding undoes_def by (rule exI [of _ "es_sequence_stale_seen s"]) simp
  have w: "undoes [UEpochTs k (es_epoch_ts s k)] (s\<lparr>es_epoch_ts := (es_epoch_ts s)(k \<mapsto> t)\<rparr>) s" for k s t
    unfolding undoes_def by (rule exI [of _ "es_sequence_stale_seen s"]) simp
  show ?thesis unfolding stage_session_and_epoch_def Let_def
    by (intro jr.along_intros journal_get journal_upd) (simp_all add: u v w state_ok_def)
qed

lemma journal_try_fill: "along journal_rel (eng_try_fill raw inst q ep recv)"
  by (auto simp: along_def eng_try_fill_def journal_rel_def split: option.split prod.split)

lemma stale_trivial:
  "\<exists>x. s = s\<lparr>es_sequence_stale_seen := x\<rparr>" "\<exists>x. s\<lparr>es_sequence_stale_seen := y\<rparr> = s\<lparr>es_sequence_stale_seen := x\<rparr>"
  by (rule exI [of _ "es_sequence_stale_seen s"], simp) (rule exI [of _ y], simp)

lemma journal_sequence:
  "along journal_rel (stage_sequence_and_dedup env raw pl inst ets sq exf recv ep stream slot is_replay v)"
proof -
  have f: "along journal_rel (eng_seq_forward raw inst slot stream ep recv is_replay q lst seen cand v)" for q lst seen cand
    unfolding eng_seq_forward_def Let_def eng_record_gap_def
    by (intro jr.along_intros journal_seq_advance journal_seq_candidate journal_gaps)
  have r: "along journal_rel (eng_seq_recent raw inst slot stream ep recv q d seen v)" for q d seen
    unfolding eng_seq_recent_def
    by (intro jr.along_intros journal_try_fill journal_upd) (simp add: undoes_one state_ok_def)
  have t: "along journal_rel (eng_seq_stale slot stream q d regress v)" for q d regress
    unfolding eng_seq_stale_def
    by (intro jr.along_sbind jr.along_sthen jr.along_if jr.along_sret journal_seq_reset journal_seq_count journal_get journal_stale)
       (simp add: stale_trivial split: option.split)
  show ?thesis unfolding stage_sequence_and_dedup_def Let_def
    by (intro jr.along_intros journal_get journal_unseq_dedup journal_seq_first f r t)
qed

lemma journal_price: "along journal_rel (stage_price_corridor env slot px v)"
  unfolding stage_price_corridor_def by (intro jr.along_intros journal_on_slot)

lemma journal_bbo: "along journal_rel (stage_bbo_and_reconciliation raw pl inst px exf v)"
  unfolding stage_bbo_and_reconciliation_def Let_def
  by (intro jr.along_intros journal_on_quote journal_recent journal_get)

lemma journal_count: "along journal_rel (count_decision q)"
  unfolding count_decision_def
proof (rule journal_block)
  fix c :: ectx and a
  show "cx_actions (fst (bump_count q c)) = cx_actions c \<and> cx_committed (fst (bump_count q c)) = cx_committed c"
    by (simp add: bump_count_def sm_defs jget_def jupd_def split: option.split)
  show "cx_state (fst (bump_count q (c\<lparr>cx_actions := a\<rparr>))) = cx_state (fst (bump_count q c))"
    by (simp add: bump_count_def sm_defs jget_def jupd_def split: option.split)
  assume ok: "state_ok (cx_state c)"
  then obtain n where n: "es_counts (cx_state c) q = Some n" by (auto simp: state_ok_def)
  have "state_ok ((cx_state c)\<lparr>es_counts := (es_counts (cx_state c))(q \<mapsto> n + 1)\<rparr>)" using ok by (auto simp: state_ok_def)
  moreover have "undoes (record_count q (cx_state c)) ((cx_state c)\<lparr>es_counts := (es_counts (cx_state c))(q \<mapsto> n + 1)\<rparr>) (cx_state c)"
    unfolding undoes_def using n
    by (intro exI [of _ "es_sequence_stale_seen (cx_state c)"]) (simp add: record_count_def fun_upd_idem)
  ultimately show "state_ok (cx_state (fst (bump_count q c)))
      \<and> undoes (record_count q (cx_state c)) (cx_state (fst (bump_count q c))) (cx_state c)"
    using n by (simp add: bump_count_def sm_defs jget_def jupd_def)
qed

lemma journal_begin: "along journal_rel (begin_event off)"
  unfolding begin_event_def
proof (intro journal_upd conjI)
  fix s :: engine_state
  show "undoes (record_event_count s) (s\<lparr>es_event_count := es_event_count s + 1, es_last_applied_offset := off\<rparr>) s"
    unfolding undoes_def by (rule exI [of _ "es_sequence_stale_seen s"]) (simp add: record_event_count_def)
qed (simp add: state_ok_def)

theorem journal_step_internal: "along journal_rel (step_internal env is_replay now raw off)"
  unfolding step_internal_def step_body_def run_stages_def Let_def
  by (intro jr.along_intros journal_begin journal_count journal_epoch journal_sequence journal_price journal_bbo journal_get)

end
