(* ===== verification/Engine_Props.thy ===== *)
theory Engine_Props
  imports Engine_Txn
begin

text \<open>
  What a step of the fold guarantees: a failed step is rolled back, every event is counted once under the status of its
  decision, and the result does not depend on the clock once the event is stamped.  Two limits of the rollback follow
  at the end.
\<close>

section \<open>Rollback\<close>

lemma rollback_after:
  assumes "along journal_rel m" and "m c = (c1, r)" and "state_ok (cx_state c)" and "\<not> cx_committed c"
  shows "rollback_to (length (cx_actions c)) c1 =
           (c1\<lparr>cx_state := (cx_state c)\<lparr>es_sequence_stale_seen := es_sequence_stale_seen (cx_state c1)\<rparr>,
               cx_actions := cx_actions c\<rparr>, Inr ())"
    and "cx_committed c1 = cx_committed c"
proof -
  have "journal_rel c c1" using alongD [OF assms(1,2)] .
  then obtain as x where j: "cx_actions c1 = cx_actions c @ as" "\<not> cx_committed c1" "cx_committed c1 = cx_committed c"
    and u: "undo_list (rev as) (cx_state c1) = Inr ((cx_state c)\<lparr>es_sequence_stale_seen := x\<rparr>)"
    using assms(3,4) by (auto simp: journal_rel_def undoes_def)
  have "x = es_sequence_stale_seen (cx_state c1)" using undo_list_keeps_stale [OF u] by simp
  then show "rollback_to (length (cx_actions c)) c1 =
      (c1\<lparr>cx_state := (cx_state c)\<lparr>es_sequence_stale_seen := es_sequence_stale_seen (cx_state c1)\<rparr>,
          cx_actions := cx_actions c\<rparr>, Inr ())"
    using j u by (simp add: rollback_to_def)
  show "cx_committed c1 = cx_committed c" by (rule j(3))
qed

text \<open>The state a failed step leaves: one more event, counted as invalid; \<open>x\<close> are the stale lists it leaves behind.\<close>

definition after_failure :: "(string \<rightharpoonup> int list) \<Rightarrow> engine_state \<Rightarrow> engine_state" where
  "after_failure x s =
     s\<lparr>es_event_count := es_event_count s + 1,
       es_counts := (es_counts s)(INVALID \<mapsto> (case es_counts s INVALID of None \<Rightarrow> 0 | Some n \<Rightarrow> n) + 1),
       es_sequence_stale_seen := x\<rparr>"

lemma step_failed_effect:
  assumes "step_internal env is_replay now raw off c = (c1, Inl e)" and "state_ok (cx_state c)" and "\<not> cx_committed c"
  shows "step_failed env has_txn now2 raw off msg (length (cx_actions c)) (es_event_count (cx_state c)) c1 =
     (c1\<lparr>cx_state := after_failure (es_sequence_stale_seen (cx_state c1)) (cx_state c),
         cx_actions := cx_actions c @
           (if has_txn then record_event_count (cx_state c) @ record_count INVALID (cx_state c) else [])\<rparr>,
      Inr (quarantined env now2 raw off msg))"
proof -
  obtain n where n: "es_counts (cx_state c) INVALID = Some n" using assms(2) by (auto simp: state_ok_def)
  show ?thesis
    using n unfolding step_failed_def
    by (simp add: sthen_def sbind_def rollback_after(1) [OF journal_step_internal assms] jrec_def jupd_def jget_def smod_def
          sret_def sget_def bump_count_def record_event_count_def record_count_def after_failure_def)
qed

section \<open>What the stages leave alone\<close>

definition core_rel :: "ectx \<Rightarrow> ectx \<Rightarrow> bool" where
  "core_rel c c' =
     (es_event_count (cx_state c') = es_event_count (cx_state c)
      \<and> es_last_applied_offset (cx_state c') = es_last_applied_offset (cx_state c)
      \<and> es_observed_count (cx_state c') = es_observed_count (cx_state c) \<and> es_counts (cx_state c') = es_counts (cx_state c))"

interpretation cr: fold_rel core_rel
  by unfold_locales (auto simp: core_rel_def)

lemma core_get: "along core_rel (jget f)"
  unfolding jget_def by (rule cr.along_sget)

lemma core_jrec: "along core_rel (jrec f)"
  by (simp add: along_def jrec_def smod_def core_rel_def)

lemma core_gaps: "along core_rel (smod (\<lambda>c. c\<lparr>cx_gaps := g c\<rparr>))"
  by (simp add: along_def smod_def core_rel_def)

lemma core_jupd:
  "(\<And>s. es_event_count (f s) = es_event_count s \<and> es_last_applied_offset (f s) = es_last_applied_offset s
     \<and> es_observed_count (f s) = es_observed_count s \<and> es_counts (f s) = es_counts s) \<Longrightarrow> along core_rel (jupd f)"
  by (simp add: along_def jupd_def smod_def core_rel_def)

lemma core_try_fill: "along core_rel (eng_try_fill raw inst q ep recv)"
  by (simp add: along_def eng_try_fill_def core_rel_def split: option.split prod.split)

lemma core_on_slot: "along core_rel (on_slot k m)"
  by (simp add: along_def on_slot_def store_slot_def core_rel_def split: prod.split)

lemma core_on_quote: "along core_rel (on_quote inst src m)"
  by (simp add: along_def on_quote_def core_rel_def Let_def split: prod.split)

lemmas core_intros = cr.along_sret cr.along_slift cr.along_sbind cr.along_sthen cr.along_if cr.along_option cr.along_prod
  core_get core_jrec core_gaps core_try_fill core_on_slot core_on_quote core_jupd

lemma core_epoch: "along core_rel (stage_session_and_epoch env raw pl inst sq exf)"
  unfolding stage_session_and_epoch_def Let_def by (intro core_intros) simp_all

lemma core_sequence:
  "along core_rel (stage_sequence_and_dedup env raw pl inst ets sq exf recv ep stream slot is_replay v)"
  unfolding stage_sequence_and_dedup_def Let_def eng_unseq_dedup_def seq_first_def eng_seq_forward_def eng_record_gap_def
    seq_advance_def seq_candidate_def eng_seq_recent_def eng_seq_stale_def seq_regress_reset_def seq_regress_count_def
  by (intro core_intros) (simp_all add: dedup_insert_def push_stale_def Let_def split: option.split)

lemma core_price: "along core_rel (stage_price_corridor env slot px v)"
  unfolding stage_price_corridor_def by (intro core_intros)

lemma core_bbo: "along core_rel (stage_bbo_and_reconciliation raw pl inst px exf v)"
  unfolding stage_bbo_and_reconciliation_def Let_def by (intro core_intros) (simp add: put_recent_def)

section \<open>Counting\<close>

lemma sbind_Inr: "(sbind m f s = (s', Inr y)) = (\<exists>s1 x. m s = (s1, Inr x) \<and> f x s1 = (s', Inr y))"
  by (auto simp: sbind_def split: prod.split sum.split)

lemma sthen_Inr: "(sthen m k s = (s', Inr y)) = (\<exists>s1 x. m s = (s1, Inr x) \<and> k s1 = (s', Inr y))"
  by (simp add: sthen_def sbind_Inr)

definition counted :: "quality_status \<Rightarrow> engine_state \<Rightarrow> engine_state \<Rightarrow> bool" where
  "counted q s s' =
     (\<exists>n. es_counts s q = Some n \<and> es_counts s' = (es_counts s)(q \<mapsto> n + 1) \<and> es_event_count s' = es_event_count s
       \<and> es_last_applied_offset s' = es_last_applied_offset s \<and> es_observed_count s' = es_observed_count s)"

lemma count_decision_counted: "count_decision q c = (c', Inr u) \<Longrightarrow> counted q (cx_state c) (cx_state c')"
  by (auto simp: count_decision_def bump_count_def sm_defs jrec_def jget_def jupd_def counted_def split: option.split_asm)

lemma package_status: "package env raw pl off now recv sch ep sess v dup dis = Inr d \<Longrightarrow> d_quality_status d = fst v"
  by (auto simp: package_def bindr_Inr Let_def split: prod.split_asm if_split_asm)

lemma reject_status: "reject env raw pl off recv i r msg = Inr d \<Longrightarrow> d_quality_status d = INVALID"
  by (auto simp: reject_def rejected_def bindr_Inr)

lemma security_status: "stage_security_envelope env raw pl off recv = Inr (Some d) \<Longrightarrow> d_quality_status d = INVALID"
  by (auto simp: stage_security_envelope_def rejected_def bindr_Inr Let_def split: option.split_asm if_split_asm dest!: reject_status)

lemma schema_status: "stage_schema_validation env raw pl off recv = Inr (Inl d) \<Longrightarrow> d_quality_status d = INVALID"
  unfolding stage_schema_validation_def Let_def
  by (auto simp: bindr_Inr split: pyval.split_asm list.split_asm if_split_asm option.split_asm dest!: reject_status)

lemma core_counted: "core_rel a b \<Longrightarrow> counted q (cx_state b) s \<Longrightarrow> counted q (cx_state a) s"
  by (simp add: core_rel_def counted_def)

text \<open>A computation that counts its decision; stages before the count do not matter.\<close>

definition counts_once :: "(ectx, engine_decision) sm \<Rightarrow> bool" where
  "counts_once m = (\<forall>c c' d. m c = (c', Inr d) \<longrightarrow> counted (d_quality_status d) (cx_state c) (cx_state c'))"

lemma counts_once_sbind: "along core_rel m \<Longrightarrow> (\<And>x. counts_once (f x)) \<Longrightarrow> counts_once (sbind m f)"
  unfolding counts_once_def sbind_Inr by (blast dest: alongD intro: core_counted)

lemma counts_once_prod: "(\<And>a b. counts_once (f a b)) \<Longrightarrow> counts_once (case x of (a, b) \<Rightarrow> f a b)"
  by (cases x) simp

lemma counts_once_end: "(\<And>d. r = Inr d \<Longrightarrow> d_quality_status d = q) \<Longrightarrow> counts_once (sthen (count_decision q) (slift r))"
  by (auto simp: counts_once_def sthen_Inr slift_def dest: count_decision_counted)

lemma run_stages_counted: "counts_once (run_stages env is_replay now recv raw pl off sch)"
  unfolding run_stages_def Let_def
  by (intro counts_once_prod counts_once_sbind counts_once_end core_epoch core_sequence core_get core_price core_bbo package_status)

lemma reject_counted: "d_quality_status d = INVALID \<Longrightarrow> counts_once (sthen (count_decision INVALID) (sret d))"
  by (auto simp: counts_once_def sthen_Inr sret_def dest: count_decision_counted)

lemma counts_once_slift: "(\<And>x. r = Inr x \<Longrightarrow> counts_once (f x)) \<Longrightarrow> counts_once (sbind (slift r) f)"
  by (auto simp: counts_once_def sbind_Inr slift_def)

lemma step_body_counted: "counts_once (step_body env is_replay now raw off)"
  unfolding step_body_def
  by (auto simp: rejected_def split: sum.split option.split
        intro!: counts_once_slift reject_counted run_stages_counted)
     (erule schema_status, erule security_status)

lemma step_internal_counted:
  assumes "step_internal env is_replay now raw off c = (c', Inr d)"
  shows "counted (d_quality_status d)
           ((cx_state c)\<lparr>es_event_count := es_event_count (cx_state c) + 1, es_last_applied_offset := off\<rparr>) (cx_state c')"
proof -
  obtain c1 u where b: "begin_event off c = (c1, Inr u)" and r: "step_body env is_replay now raw off c1 = (c', Inr d)"
    using assms unfolding step_internal_def sthen_Inr by blast
  have "cx_state c1 = (cx_state c)\<lparr>es_event_count := es_event_count (cx_state c) + 1, es_last_applied_offset := off\<rparr>"
    using b by (auto simp: begin_event_def sm_defs jrec_def jupd_def)
  then show ?thesis using step_body_counted [unfolded counts_once_def, rule_format, OF r] by simp
qed

section \<open>Properties of a step\<close>

definition counts_total :: "engine_state \<Rightarrow> int" where
  "counts_total s = (\<Sum>q\<leftarrow>[VALID, SUSPICIOUS, INVALID]. case es_counts s q of None \<Rightarrow> 0 | Some n \<Rightarrow> n)"

lemma counts_total_bump:
  assumes "es_counts s q = Some n" and "es_counts t = (es_counts s)(q \<mapsto> n + 1)"
  shows "counts_total t = counts_total s + 1"
  using assms by (cases q) (simp_all add: counts_total_def)

text \<open>C5: a step never fails and counts every event once.  From a well-formed state, whatever the event and whatever the
  stages raise, \<open>step\<close> returns a decision; the state stays well-formed, the event count and the counter of the decision's
  status go up by one, and so the counters always add up to the event count.\<close>

theorem every_event_is_counted_once:
  assumes "state_ok (cx_state c)" and "\<not> cx_committed c"
  shows "\<exists>c' d n. engine_step env has_txn is_replay now now2 raw off c = (c', Inr d) \<and> state_ok (cx_state c')
     \<and> es_event_count (cx_state c') = es_event_count (cx_state c) + 1
     \<and> es_counts (cx_state c) (d_quality_status d) = Some n
     \<and> es_counts (cx_state c') = (es_counts (cx_state c))(d_quality_status d \<mapsto> n + 1)
     \<and> counts_total (cx_state c') - es_event_count (cx_state c') = counts_total (cx_state c) - es_event_count (cx_state c)"
proof -
  let ?off = "case off of None \<Rightarrow> es_event_count (cx_state c) | Some o' \<Rightarrow> o'"
  obtain c1 r where run: "step_internal env is_replay now raw ?off c = (c1, r)" by fastforce
  then have ok1: "state_ok (cx_state c1)" using alongD [OF journal_step_internal run] assms by (simp add: journal_rel_def)
  show ?thesis
  proof (cases r)
    case (Inl e)
    obtain n where n: "es_counts (cx_state c) INVALID = Some n" using assms(1) by (auto simp: state_ok_def)
    have "state_ok (after_failure x (cx_state c))" for x using assms(1) by (auto simp: state_ok_def after_failure_def)
    then show ?thesis
      using run n step_failed_effect [OF run [unfolded Inl] assms, of has_txn now2 "v_exc env e"]
        counts_total_bump [of "cx_state c" INVALID n "after_failure (es_sequence_stale_seen (cx_state c1)) (cx_state c)"]
      by (simp add: Inl engine_step_def Let_def quarantined_def rejected_def after_failure_def)
  next
    case (Inr d)
    have "counted (d_quality_status d)
        ((cx_state c)\<lparr>es_event_count := es_event_count (cx_state c) + 1, es_last_applied_offset := ?off\<rparr>) (cx_state c1)"
      using step_internal_counted run Inr by simp
    then show ?thesis
      using run ok1 counts_total_bump [of "cx_state c" "d_quality_status d" _ "cx_state c1"]
      by (auto simp: Inr engine_step_def Let_def counted_def txn_commit_def)
  qed
qed

text \<open>C3: a failed step is rolled back.  When a stage raises, the event is quarantined as invalid and the state is the one
  before the step with the event counted, except for the lists of stale sequence numbers; the offset of the event is not
  noted as applied.  The journal of an enclosing batch is extended so that it still undoes the step.\<close>

theorem failed_step_is_rolled_back:
  assumes "step_internal env is_replay now raw off c = (c1, Inl e)" and "state_ok (cx_state c)" and "\<not> cx_committed c"
  shows "engine_step env has_txn is_replay now now2 raw (Some off) c =
     (c1\<lparr>cx_state := after_failure (es_sequence_stale_seen (cx_state c1)) (cx_state c),
         cx_actions := cx_actions c @
           (if has_txn then record_event_count (cx_state c) @ record_count INVALID (cx_state c) else [])\<rparr>,
      Inr (quarantined env now2 raw off (v_exc env e)))"
  using assms step_failed_effect [OF assms] by (simp add: engine_step_def Let_def)

end
