(* ===== verification/Engine_Replay.thy ===== *)
theory Engine_Replay
  imports Engine_Props
begin

text \<open>
  The fold is deterministic: without a gap manager, the state and the verdicts of a sequence of stamped events depend
  neither on the clock, nor on the journal in force, nor on whether the events are live or replayed.  With a gap manager
  they do depend on the latter.
\<close>

section \<open>Batches\<close>

text \<open>\<open>step_batch\<close>: the events with their offsets, and for each event the two clock readings its step makes.\<close>

fun step_batch ::
    "engine_env \<Rightarrow> bool \<Rightarrow> bool \<Rightarrow> (raw_event \<times> int option) list \<Rightarrow> (f64 \<times> f64) list \<Rightarrow> (ectx, engine_decision list) sm" where
  "step_batch env has_txn is_replay [] clk = sret []"
| "step_batch env has_txn is_replay ((raw, off) # evs) clk =
     sbind (engine_step env has_txn is_replay (fst (hd clk)) (snd (hd clk)) raw off) (\<lambda>d.
     sbind (step_batch env has_txn is_replay evs (tl clk)) (\<lambda>ds. sret (d # ds)))"

text \<open>The loop of \<open>replay\<close>: every record is observed and stepped in a transaction of its own.\<close>

definition fresh_txn :: "ectx \<Rightarrow> ectx" where
  "fresh_txn c = c\<lparr>cx_actions := [], cx_committed := False\<rparr>"

fun replay_loop ::
    "engine_env \<Rightarrow> (int \<times> raw_event) list \<Rightarrow> (f64 \<times> f64) list \<Rightarrow> (ectx, engine_decision list) sm" where
  "replay_loop env [] clk = sret []"
| "replay_loop env ((off, raw) # recs) clk =
     sthen (jupd (\<lambda>s. s\<lparr>es_observed_count := es_observed_count s + 1\<rparr>))
    (sthen (smod fresh_txn)
    (sbind (engine_step env False True (fst (hd clk)) (snd (hd clk)) raw (Some off)) (\<lambda>d.
     sbind (replay_loop env recs (tl clk)) (\<lambda>ds. sret (d # ds)))))"

section \<open>Two runs\<close>

text \<open>Contexts with the same state up to the number of observed events and no gap manager.\<close>

definition sim :: "ectx \<Rightarrow> ectx \<Rightarrow> bool" where
  "sim c c' = ((\<exists>n. cx_state c' = (cx_state c)\<lparr>es_observed_count := n\<rparr>) \<and> cx_gaps c = None \<and> cx_gaps c' = None)"

definition agree :: "('a \<Rightarrow> 'b \<Rightarrow> bool) \<Rightarrow> (ectx, 'a) sm \<Rightarrow> (ectx, 'b) sm \<Rightarrow> bool" where
  "agree Q m m' = (\<forall>c c'. sim c c' \<longrightarrow> sim (fst (m c)) (fst (m' c')) \<and> rel_sum (=) Q (snd (m c)) (snd (m' c')))"

lemma agreeD:
  assumes "agree Q m m'" and "sim c c'" and "m c = (d, r)" and "m' c' = (d', r')"
  shows "sim d d'" and "rel_sum (=) Q r r'"
  using assms unfolding agree_def by (metis fst_conv snd_conv)+

lemma agree_sret: "Q x y \<Longrightarrow> agree Q (sret x) (sret y)"
  by (simp add: agree_def sret_def)

lemma agree_sret_eq: "agree (=) (sret x) (sret x)"
  by (intro agree_sret) simp

lemma agree_slift: "rel_sum (=) Q r r' \<Longrightarrow> agree Q (slift r) (slift r')"
  by (simp add: agree_def slift_def)

lemma rel_sum_eq_refl: "rel_sum (=) (=) r r"
  by (cases r) simp_all

lemma agree_slift_eq: "agree (=) (slift r) (slift r)"
  by (intro agree_slift rel_sum_eq_refl)

lemma agree_sbind:
  assumes "agree P m m'" and "\<And>x y. P x y \<Longrightarrow> agree Q (f x) (f' y)"
  shows "agree Q (sbind m f) (sbind m' f')"
  unfolding agree_def
proof (intro allI impI)
  fix c c' assume s: "sim c c'"
  obtain d r d' r' where m: "m c = (d, r)" "m' c' = (d', r')" by fastforce
  note a = agreeD [OF assms(1) s m]
  show "sim (fst (sbind m f c)) (fst (sbind m' f' c')) \<and> rel_sum (=) Q (snd (sbind m f c)) (snd (sbind m' f' c'))"
    using a m assms(2) by (cases r; cases r') (auto simp: sbind_def agree_def)
qed

lemma agree_bind_eq:
  assumes "agree (=) m m'" and "\<And>x. agree Q (f x) (f' x)"
  shows "agree Q (sbind m f) (sbind m' f')"
  using assms by (intro agree_sbind [of "(=)"]) auto

lemma agree_sthen: "agree (=) m m' \<Longrightarrow> agree Q k k' \<Longrightarrow> agree Q (sthen m k) (sthen m' k')"
  unfolding sthen_def by (rule agree_sbind)

lemma agree_if: "b = b' \<Longrightarrow> (b \<Longrightarrow> agree Q m m') \<Longrightarrow> (\<not> b \<Longrightarrow> agree Q k k') \<Longrightarrow> agree Q (if b then m else k) (if b' then m' else k')"
  by simp

lemma agree_option:
  "agree Q m m' \<Longrightarrow> (\<And>y. agree Q (f y) (f' y)) \<Longrightarrow> agree Q (case x of None \<Rightarrow> m | Some y \<Rightarrow> f y) (case x of None \<Rightarrow> m' | Some y \<Rightarrow> f' y)"
  by (cases x) simp_all

lemma agree_sum:
  "(\<And>y. agree Q (f y) (f' y)) \<Longrightarrow> (\<And>y. agree Q (g y) (g' y))
   \<Longrightarrow> agree Q (case x of Inl y \<Rightarrow> f y | Inr y \<Rightarrow> g y) (case x of Inl y \<Rightarrow> f' y | Inr y \<Rightarrow> g' y)"
  by (cases x) simp_all

lemma agree_prod:
  "(\<And>a b. agree Q (f a b) (f' a b)) \<Longrightarrow> agree Q (case x of (a, b) \<Rightarrow> f a b) (case x of (a, b) \<Rightarrow> f' a b)"
  by (cases x) simp

lemma agree_jrec: "agree (=) (jrec f) (jrec g)"
  by (simp add: agree_def jrec_def smod_def sim_def)

text \<open>An update or a query that does not look at the number of observed events.\<close>

lemma agree_jupd:
  assumes "\<And>s n. g (s\<lparr>es_observed_count := n\<rparr>) = (f s)\<lparr>es_observed_count := n\<rparr>"
  shows "agree (=) (jupd f) (jupd g)"
  unfolding agree_def jupd_def smod_def sim_def by (auto simp: assms)

lemma agree_jget:
  assumes "\<And>s n. f (s\<lparr>es_observed_count := n\<rparr>) = f s"
  shows "agree (=) (jget f) (jget f)"
  unfolding agree_def jget_def sget_def sim_def by (auto simp: assms)

lemma agree_state:
  assumes "\<And>s n. agree Q (f s) (g (s\<lparr>es_observed_count := n\<rparr>))"
  shows "agree Q (sbind (jget id) f) (sbind (jget id) g)"
proof (rule agree_sbind)
  show "agree (\<lambda>s t. \<exists>n. t = s\<lparr>es_observed_count := n\<rparr>) (jget id) (jget id)"
    by (auto simp: agree_def jget_def sget_def sim_def)
qed (auto intro: assms)

lemma agree_try_fill: "agree (=) (eng_try_fill raw inst q ep recv) (eng_try_fill raw inst q ep recv)"
  by (auto simp: agree_def eng_try_fill_def sim_def)

lemma agree_gap: "agree (=) (if b then eng_record_gap raw inst a q ep recv else sret ()) (if b' then eng_record_gap raw inst a q ep recv else sret ())"
  by (auto simp: agree_def eng_record_gap_def smod_def sret_def sim_def)

lemma agree_on_slot: "agree (=) (on_slot k m) (on_slot k m)"
proof -
  have "load_slot k (s\<lparr>es_observed_count := n\<rparr>) = load_slot k s" for s n by (simp add: load_slot_def)
  moreover have "store_slot k p (s\<lparr>es_observed_count := n\<rparr>) = (store_slot k p s)\<lparr>es_observed_count := n\<rparr>" for p s n
    by (simp add: store_slot_def)
  ultimately show ?thesis
    by (auto simp: agree_def on_slot_def sim_def rel_sum_eq_refl split: prod.split)
qed

lemma agree_on_quote: "agree (=) (on_quote inst src m) (on_quote inst src m)"
  unfolding agree_def
proof (intro allI impI)
  fix c c' assume "sim c c'"
  then obtain n where n: "cx_state c' = (cx_state c)\<lparr>es_observed_count := n\<rparr>" "cx_gaps c = None" "cx_gaps c' = None"
    by (auto simp: sim_def)
  show "sim (fst (on_quote inst src m c)) (fst (on_quote inst src m c'))
      \<and> rel_sum (=) (=) (snd (on_quote inst src m c)) (snd (on_quote inst src m c'))"
    by (simp add: on_quote_def n Let_def sim_def rel_sum_eq_refl split: prod.split) (intro allI impI exI [of _ n], simp)
qed

lemmas agree_intros = agree_sret_eq agree_slift_eq agree_sthen agree_if agree_option agree_prod agree_jrec agree_jupd agree_jget
  agree_try_fill agree_on_slot agree_on_quote

section \<open>The stages\<close>

lemma epoch_reset_observed [simp]:
  "epoch_reset_triggered env (s\<lparr>es_observed_count := n\<rparr>) pl k sess sq exf = epoch_reset_triggered env s pl k sess sq exf"
  by (simp add: epoch_reset_triggered_def)

lemma agree_epoch: "agree (=) (stage_session_and_epoch env raw pl inst sq exf) (stage_session_and_epoch env raw pl inst sq exf)"
  unfolding stage_session_and_epoch_def Let_def
  by (rule agree_state, intro agree_intros agree_sret) (simp_all split: option.split)

lemma push_stale_observed: "push_stale k q (s\<lparr>es_observed_count := n\<rparr>) = (push_stale k q s)\<lparr>es_observed_count := n\<rparr>"
  by (simp add: push_stale_def Let_def)

lemma dedup_insert_observed: "dedup_insert f (s\<lparr>es_observed_count := n\<rparr>) = (dedup_insert f s)\<lparr>es_observed_count := n\<rparr>"
  by (simp add: dedup_insert_def Let_def)

lemma put_recent_observed: "put_recent i r x e (s\<lparr>es_observed_count := n\<rparr>) = (put_recent i r x e s)\<lparr>es_observed_count := n\<rparr>"
  by (simp add: put_recent_def)

lemma agree_forward:
  "agree (=) (eng_seq_forward raw inst slot stream ep recv b q lst seen cand v)
     (eng_seq_forward raw inst slot stream ep recv b' q lst seen cand v)"
  unfolding eng_seq_forward_def Let_def seq_advance_def seq_candidate_def
  by (intro agree_intros agree_gap) simp_all

lemma agree_recent:
  "agree (=) (eng_seq_recent raw inst slot stream ep recv q d seen v) (eng_seq_recent raw inst slot stream ep recv q d seen v)"
  unfolding eng_seq_recent_def by (intro agree_intros agree_bind_eq) simp_all

lemma agree_stale: "agree (=) (eng_seq_stale slot stream q d regress v) (eng_seq_stale slot stream q d regress v)"
  unfolding eng_seq_stale_def seq_regress_reset_def seq_regress_count_def
  by (intro agree_intros agree_bind_eq) (simp_all add: push_stale_observed split: option.split)

lemma agree_unseq: "agree (=) (eng_unseq_dedup f v) (eng_unseq_dedup f v)"
  unfolding eng_unseq_dedup_def by (intro agree_intros agree_bind_eq) (simp_all add: dedup_insert_observed)

lemma agree_first: "agree (=) (seq_first slot stream q) (seq_first slot stream q)"
  unfolding seq_first_def by (intro agree_intros) simp_all

lemma agree_sequence:
  "agree (=) (stage_sequence_and_dedup env raw pl inst ets sq exf recv ep stream slot b v)
     (stage_sequence_and_dedup env raw pl inst ets sq exf recv ep stream slot b' v)"
proof (cases sq)
  case (Some q)
  show ?thesis unfolding stage_sequence_and_dedup_def Let_def Some option.case
    by (rule agree_state, simp, intro agree_intros agree_forward agree_recent agree_stale agree_first)
       (simp_all add: agree_forward agree_recent agree_stale)
qed (simp add: stage_sequence_and_dedup_def agree_unseq)

lemma agree_price: "agree (=) (stage_price_corridor env slot px v) (stage_price_corridor env slot px v)"
  unfolding stage_price_corridor_def by (intro agree_intros agree_bind_eq) simp

lemma agree_bbo: "agree (=) (stage_bbo_and_reconciliation raw pl inst px exf v) (stage_bbo_and_reconciliation raw pl inst px exf v)"
  unfolding stage_bbo_and_reconciliation_def Let_def
  by (intro agree_intros agree_bind_eq) (simp_all add: put_recent_observed)

lemma agree_count: "agree (=) (count_decision q) (count_decision q)"
  unfolding count_decision_def bump_count_def by (intro agree_intros agree_bind_eq) simp_all

lemma agree_begin: "agree (=) (begin_event off) (begin_event off)"
  unfolding begin_event_def by (intro agree_intros) simp

section \<open>A step\<close>

text \<open>Two decisions agree when they differ at most in the processing time of the canonical event and in the durability mark
  and, for a quarantined failure, in nothing else.\<close>

definition same_verdict :: "engine_decision \<Rightarrow> engine_decision \<Rightarrow> bool" where
  "same_verdict d e =
     (e\<lparr>d_canonical_event := map_option (\<lambda>x. x\<lparr>ce_processing_timestamp := 0\<rparr>) (d_canonical_event e)\<rparr>
      = d\<lparr>d_canonical_event := map_option (\<lambda>x. x\<lparr>ce_processing_timestamp := 0\<rparr>) (d_canonical_event d)\<rparr>)"

lemma same_verdict_refl [simp]: "same_verdict d d"
  by (simp add: same_verdict_def)

lemma package_agree:
  "rel_sum (=) same_verdict (package env raw pl off now recv sch ep sess v dup dis) (package env raw pl off now' recv sch ep sess v dup dis)"
  by (cases sch) (auto simp: package_def Let_def bindr_def same_verdict_def rel_sum_eq_refl split: sum.split)

lemma agree_run_stages:
  "agree same_verdict (run_stages env b now recv raw pl off sch) (run_stages env b' now' recv raw pl off sch)"
  unfolding run_stages_def Let_def
  by (intro agree_prod agree_bind_eq agree_sthen agree_epoch agree_sequence agree_jget agree_price agree_bbo agree_count
        agree_slift package_agree) simp

lemma agree_step_body:
  assumes "recv_of raw now = recv_of raw now'"
  shows "agree same_verdict (step_body env b now raw off) (step_body env b' now' raw off)"
  unfolding step_body_def assms
  by (intro agree_sum agree_option agree_bind_eq agree_sthen agree_count agree_slift_eq agree_run_stages agree_sret) simp_all

lemma agree_step_internal:
  assumes "recv_of raw now = recv_of raw now'"
  shows "agree same_verdict (step_internal env b now raw off) (step_internal env b' now' raw off)"
  unfolding step_internal_def by (intro agree_sthen agree_begin agree_step_body assms)

lemma stamped: "f_mag (re_receive_timestamp raw) \<noteq> 0 \<Longrightarrow> recv_of raw now = re_receive_timestamp raw"
  by (simp add: recv_of_def)

lemma engine_step_agree:
  assumes "sim c c'" and "state_ok (cx_state c)" and "\<not> cx_committed c" and "\<not> cx_committed c'"
    and "f_mag (re_receive_timestamp raw) \<noteq> 0"
    and "engine_step env h b n1 n2 raw off c = (d, r)" and "engine_step env h' b' n1' n2' raw off c' = (d', r')"
  shows "sim d d'" and "rel_sum (=) same_verdict r r'"
proof -
  obtain n where n: "cx_state c' = (cx_state c)\<lparr>es_observed_count := n\<rparr>" using assms(1) by (auto simp: sim_def)
  then have ok': "state_ok (cx_state c')" using assms(2) by (simp add: state_ok_def)
  let ?off = "case off of None \<Rightarrow> es_event_count (cx_state c) | Some o' \<Rightarrow> o'"
  have off: "(case off of None \<Rightarrow> es_event_count (cx_state c') | Some o' \<Rightarrow> o') = ?off" by (cases off) (simp_all add: n)
  obtain c1 r1 c2 r2 where s: "step_internal env b n1 raw ?off c = (c1, r1)" "step_internal env b' n1' raw ?off c' = (c2, r2)" by fastforce
  have "recv_of raw n1 = recv_of raw n1'" using assms(5) by (simp add: stamped)
  note a = agreeD [OF agree_step_internal [OF this] assms(1) s]
  obtain m where m: "cx_state c2 = (cx_state c1)\<lparr>es_observed_count := m\<rparr>" and g: "cx_gaps c1 = None" "cx_gaps c2 = None"
    using a(1) by (auto simp: sim_def)
  have "sim d d' \<and> rel_sum (=) same_verdict r r'"
  proof (cases r1)
    case (Inl e)
    then have r2: "r2 = Inl e" using a(2) by (cases r2) auto
    have "after_failure x (cx_state c') = (after_failure x (cx_state c))\<lparr>es_observed_count := n\<rparr>" for x
      by (simp add: n after_failure_def)
    moreover have "quarantined env n2 raw ?off msg = quarantined env n2' raw ?off msg" for msg
      using assms(5) by (simp add: quarantined_def stamped)
    ultimately show ?thesis
      using assms(6,7) s step_failed_effect [OF s(1) [unfolded Inl] assms(2,3), of h n2 "v_exc env e"]
        step_failed_effect [OF s(2) [unfolded r2] ok' assms(4), of h' n2' "v_exc env e"]
      by (auto simp: engine_step_def Let_def off Inl r2 sim_def g m)
  next
    case (Inr x)
    then obtain y where "r2 = Inr y" "same_verdict x y" using a(2) by (cases r2) auto
    then show ?thesis using assms(6,7) s Inr g m by (auto simp: engine_step_def Let_def off sim_def txn_commit_def)
  qed
  then show "sim d d'" "rel_sum (=) same_verdict r r'" by simp_all
qed

lemma engine_step_keeps:
  assumes "state_ok (cx_state c)" and "\<not> cx_committed c"
  obtains c' d where "engine_step env h b n1 n2 raw off c = (c', Inr d)" and "state_ok (cx_state c')" and "h \<Longrightarrow> \<not> cx_committed c'"
proof -
  let ?off = "case off of None \<Rightarrow> es_event_count (cx_state c) | Some o' \<Rightarrow> o'"
  obtain c1 r where run: "step_internal env b n1 raw ?off c = (c1, r)" by fastforce
  have c1: "state_ok (cx_state c1)" "\<not> cx_committed c1"
    using alongD [OF journal_step_internal run] assms by (simp_all add: journal_rel_def)
  show thesis
  proof (cases r)
    case (Inl e)
    have "state_ok (after_failure x (cx_state c))" for x using assms(1) by (auto simp: state_ok_def after_failure_def)
    then show thesis
      using that run c1 step_failed_effect [OF run [unfolded Inl] assms, of h n2 "v_exc env e"] by (simp add: Inl engine_step_def Let_def)
  next
    case (Inr d)
    then show thesis using that run c1 by (simp add: engine_step_def Let_def txn_commit_def)
  qed
qed

section \<open>Live and replayed\<close>

text \<open>Batches as \<open>submit\<close> folds them: one transaction per batch.\<close>

fun live_run ::
    "engine_env \<Rightarrow> ((raw_event \<times> int option) list \<times> (f64 \<times> f64) list) list \<Rightarrow> (ectx, engine_decision list) sm" where
  "live_run env [] = sret []"
| "live_run env ((evs, clk) # bs) =
     sthen (smod fresh_txn) (sbind (step_batch env True False evs clk) (\<lambda>ds.
       sbind (live_run env bs) (\<lambda>ds'. sret (ds @ ds'))))"

definition all_stamped :: "(int \<times> raw_event) list \<Rightarrow> bool" where
  "all_stamped recs = list_all (\<lambda>(off, raw). f_mag (re_receive_timestamp raw) \<noteq> 0) recs"

definition as_batch :: "(int \<times> raw_event) list \<Rightarrow> (raw_event \<times> int option) list" where
  "as_batch recs = map (\<lambda>(off, raw). (raw, Some off)) recs"

lemma replay_cons:
  assumes "sim c c'" and "state_ok (cx_state c)" and "\<not> cx_committed c" and "f_mag (re_receive_timestamp raw) \<noteq> 0"
  obtains d x e y where "engine_step env True False n1 n2 raw (Some off) c = (d, Inr x)"
    and "engine_step env False True n1' n2' raw (Some off) (fresh_txn (c'\<lparr>cx_state := (cx_state c')\<lparr>es_observed_count := k\<rparr>\<rparr>)) = (e, Inr y)"
    and "sim d e" and "state_ok (cx_state d)" and "\<not> cx_committed d" and "same_verdict x y"
proof -
  let ?c = "fresh_txn (c'\<lparr>cx_state := (cx_state c')\<lparr>es_observed_count := k\<rparr>\<rparr>)"
  have s: "sim c ?c" "\<not> cx_committed ?c" using assms(1) by (auto simp: sim_def fresh_txn_def)
  obtain d x where d: "engine_step env True False n1 n2 raw (Some off) c = (d, Inr x)" "state_ok (cx_state d)" "\<not> cx_committed d"
    using engine_step_keeps [OF assms(2,3), of env True] by blast
  obtain e r where e: "engine_step env False True n1' n2' raw (Some off) ?c = (e, r)" by fastforce
  note a = engine_step_agree [OF s(1) assms(2,3) s(2) assms(4) d(1) e]
  then obtain y where "r = Inr y" "same_verdict x y" by (cases r) auto
  then show thesis using that d e a(1) by blast
qed

lemma replay_batch:
  assumes "sim c c'" and "state_ok (cx_state c)" and "\<not> cx_committed c" and "all_stamped recs"
  shows "\<exists>d ds e es. step_batch env True False (as_batch recs) clk c = (d, Inr ds) \<and> replay_loop env recs clk' c' = (e, Inr es)
     \<and> sim d e \<and> state_ok (cx_state d) \<and> \<not> cx_committed d \<and> list_all2 same_verdict ds es"
  using assms
proof (induction recs arbitrary: c c' clk clk')
  case Nil
  then show ?case by (simp add: as_batch_def sret_def)
next
  case (Cons x recs)
  obtain off raw where x: "x = (off, raw)" by fastforce
  let ?k = "es_observed_count (cx_state c') + 1"
  have st: "f_mag (re_receive_timestamp raw) \<noteq> 0" "all_stamped recs" using Cons.prems(4) by (simp_all add: all_stamped_def x)
  obtain d v e w where h: "engine_step env True False (fst (hd clk)) (snd (hd clk)) raw (Some off) c = (d, Inr v)"
    "engine_step env False True (fst (hd clk')) (snd (hd clk')) raw (Some off) (fresh_txn (c'\<lparr>cx_state := (cx_state c')\<lparr>es_observed_count := ?k\<rparr>\<rparr>)) = (e, Inr w)"
    "sim d e" "state_ok (cx_state d)" "\<not> cx_committed d" "same_verdict v w"
    by (rule replay_cons [OF Cons.prems(1-3) st(1)])
  obtain d' ds e' es where t: "step_batch env True False (as_batch recs) (tl clk) d = (d', Inr ds)" "replay_loop env recs (tl clk') e = (e', Inr es)"
    "sim d' e'" "state_ok (cx_state d')" "\<not> cx_committed d'" "list_all2 same_verdict ds es"
    using Cons.IH [OF h(3-5) st(2)] by blast
  have "step_batch env True False (as_batch (x # recs)) clk c = (d', Inr (v # ds))"
    using h(1) t(1) by (simp add: x as_batch_def sbind_def sret_def)
  moreover have "replay_loop env (x # recs) clk' c' = (e', Inr (w # es))"
    using h(2) t(2) by (simp add: x sthen_def sbind_def jupd_def smod_def sret_def)
  ultimately show ?case using t h(6) by auto
qed

lemma replay_loop_append:
  "replay_loop env (xs @ ys) clk =
     sbind (replay_loop env xs clk) (\<lambda>ds. sbind (replay_loop env ys (drop (length xs) clk)) (\<lambda>ds'. sret (ds @ ds')))"
proof (induction xs arbitrary: clk)
  case Nil
  show ?case by (rule ext) (simp add: sbind_def sret_def split: prod.split sum.split)
next
  case (Cons x xs)
  obtain off raw where x: "x = (off, raw)" by fastforce
  show ?case by (rule ext) (simp add: x Cons.IH drop_Suc sthen_def sbind_def sret_def split: prod.split sum.split)
qed

definition live_batches ::
    "((int \<times> raw_event) list \<times> (f64 \<times> f64) list) list \<Rightarrow> ((raw_event \<times> int option) list \<times> (f64 \<times> f64) list) list" where
  "live_batches bs = map (\<lambda>(recs, clk). (as_batch recs, clk)) bs"

lemma live_run_replayed:
  assumes "sim c c'" and "state_ok (cx_state c)" and "all_stamped (concat (map fst bs))"
  shows "\<exists>d ds e es. live_run env (live_batches bs) c = (d, Inr ds) \<and> replay_loop env (concat (map fst bs)) clk' c' = (e, Inr es)
     \<and> sim d e \<and> list_all2 same_verdict ds es"
  using assms
proof (induction bs arbitrary: c c' clk')
  case Nil
  then show ?case by (simp add: live_batches_def sret_def)
next
  case (Cons b bs)
  obtain recs clk where b: "b = (recs, clk)" by fastforce
  have st: "all_stamped recs" "all_stamped (concat (map fst bs))" using Cons.prems(3) by (simp_all add: all_stamped_def b)
  have "sim (fresh_txn c) c'" "state_ok (cx_state (fresh_txn c))" "\<not> cx_committed (fresh_txn c)"
    using Cons.prems by (simp_all add: sim_def fresh_txn_def)
  then obtain d ds e es where h: "step_batch env True False (as_batch recs) clk (fresh_txn c) = (d, Inr ds)"
    "replay_loop env recs clk' c' = (e, Inr es)" "sim d e" "state_ok (cx_state d)" "list_all2 same_verdict ds es"
    using replay_batch st(1) by blast
  obtain d' ds' e' es' where t: "live_run env (live_batches bs) d = (d', Inr ds')"
    "replay_loop env (concat (map fst bs)) (drop (length recs) clk') e = (e', Inr es')" "sim d' e'" "list_all2 same_verdict ds' es'"
    using Cons.IH [OF h(3,4) st(2)] by blast
  have "live_run env (live_batches (b # bs)) c = (d', Inr (ds @ ds'))"
    using h(1) t(1) by (simp add: live_batches_def b sthen_def sbind_def smod_def sret_def)
  moreover have "replay_loop env (concat (map fst (b # bs))) clk' c' = (e', Inr (es @ es'))"
    using h(2) t(2) by (simp add: b replay_loop_append sbind_def sret_def)
  ultimately show ?case using t h(5) by (auto intro: list_all2_appendI)
qed

text \<open>C4: replay reproduces the live state.  Fold stamped events in any batches, with any clock, each event possibly failing
  and being rolled back; then replay the same records from the same starting state, one transaction per record, at any
  later time.  Without a gap manager both runs end in the same engine state, up to the number of observed events, and
  give the same verdict for every event.\<close>

theorem replay_reproduces_live_state:
  assumes "all_stamped (concat (map fst bs))" and "state_ok s" and "cx_state c = s" and "cx_gaps c = None"
    and "cx_state c' = s" and "cx_gaps c' = None"
  shows "\<exists>d ds e es n. live_run env (live_batches bs) c = (d, Inr ds) \<and> replay_loop env (concat (map fst bs)) clk' c' = (e, Inr es)
     \<and> cx_state e = (cx_state d)\<lparr>es_observed_count := n\<rparr> \<and> list_all2 same_verdict ds es"
proof -
  have "sim c c'" using assms by (auto simp: sim_def intro!: exI [of _ "es_observed_count s"])
  then show ?thesis using live_run_replayed [of c c' bs env clk'] assms by (auto simp: sim_def)
qed

end
