(* ===== verification/Engine_Poison.thy ===== *)
theory Engine_Poison
  imports Engine_Replay
begin

text \<open>
  The price corridor and overflow.  The third price of a slot starts the statistics, whose squared deviations raise
  \<open>OverflowError\<close> for two prices far enough apart; the step is rolled back, so the slot keeps its two prices and every
  later priced event of the slot meets the same exception.
\<close>

section \<open>The price fields before stage 6\<close>

definition price_rel :: "string \<Rightarrow> ectx \<Rightarrow> ectx \<Rightarrow> bool" where
  "price_rel k c c' =
     (es_price_windows (cx_state c') k = es_price_windows (cx_state c) k \<and> es_price_stats (cx_state c') k = es_price_stats (cx_state c) k)"

interpretation pr: fold_rel "price_rel k" for k
  by unfold_locales (auto simp: price_rel_def)

lemma price_get: "along (price_rel k) (jget f)"
  unfolding jget_def by (rule pr.along_sget)

lemma price_jrec: "along (price_rel k) (jrec f)"
  by (simp add: along_def jrec_def smod_def price_rel_def)

lemma price_gaps: "along (price_rel k) (smod (\<lambda>c. c\<lparr>cx_gaps := g c\<rparr>))"
  by (simp add: along_def smod_def price_rel_def)

lemma price_jupd:
  "(\<And>s. es_price_windows (f s) k = es_price_windows s k \<and> es_price_stats (f s) k = es_price_stats s k) \<Longrightarrow> along (price_rel k) (jupd f)"
  by (simp add: along_def jupd_def smod_def price_rel_def)

lemma price_try_fill: "along (price_rel k) (eng_try_fill raw inst q ep recv)"
  by (simp add: along_def eng_try_fill_def price_rel_def split: option.split prod.split)

lemmas price_intros = pr.along_sret pr.along_slift pr.along_sbind pr.along_sthen pr.along_if pr.along_option pr.along_prod
  price_get price_jrec price_gaps price_try_fill price_jupd

lemma price_epoch: "along (price_rel k) (stage_session_and_epoch env raw pl inst sq exf)"
  unfolding stage_session_and_epoch_def Let_def by (intro price_intros) simp_all

lemma price_sequence:
  "along (price_rel k) (stage_sequence_and_dedup env raw pl inst ets sq exf recv ep stream slot is_replay v)"
  unfolding stage_sequence_and_dedup_def Let_def eng_unseq_dedup_def seq_first_def eng_seq_forward_def eng_record_gap_def
    seq_advance_def seq_candidate_def eng_seq_recent_def eng_seq_stale_def seq_regress_reset_def seq_regress_count_def
  by (intro price_intros) (simp_all add: dedup_insert_def push_stale_def Let_def split: option.split)

lemma price_bbo: "along (price_rel k) (stage_bbo_and_reconciliation raw pl inst px exf v)"
proof -
  have q: "along (price_rel k) (on_quote inst src m)" for src :: string and m :: "(string \<rightharpoonup> f64, unit) sm"
    by (simp add: along_def on_quote_def price_rel_def Let_def split: prod.split)
  show ?thesis unfolding stage_bbo_and_reconciliation_def Let_def by (intro price_intros q) (simp add: put_recent_def)
qed

lemma price_count: "along (price_rel k) (count_decision q)"
  unfolding count_decision_def bump_count_def by (intro price_intros) simp

lemma price_begin: "along (price_rel k) (begin_event off)"
  unfolding begin_event_def by (intro price_intros) simp

section \<open>A slot that can only raise\<close>

definition poisoned :: "engine_env \<Rightarrow> pynum \<Rightarrow> string \<Rightarrow> ectx \<Rightarrow> bool" where
  "poisoned env x k c =
     (\<exists>p1 p2 e. es_price_windows (cx_state c) k = Some [p1, p2] \<and> es_price_stats (cx_state c) k = None
        \<and> fresh_stats env [p1, p2, x] 3 = Inl e)"

lemma poisoned_rel: "price_rel k c c' \<Longrightarrow> poisoned env x k c' = poisoned env x k c"
  by (simp add: price_rel_def poisoned_def)

lemma corridor_raises:
  assumes "poisoned env x k c" and "fst v \<noteq> INVALID"
  shows "\<exists>c' e. stage_price_corridor env k (Some x) v c = (c', Inl e)"
proof -
  obtain p1 p2 e where p: "es_price_windows (cx_state c) k = Some [p1, p2]" "es_price_stats (cx_state c) k = None"
    "fresh_stats env [p1, p2, x] 3 = Inl e" using assms(1) by (auto simp: poisoned_def)
  then show ?thesis using assms(2)
    by (simp add: stage_price_corridor_def sbind_def sthen_def jrec_def smod_def on_slot_def load_slot_def corridor_slot_def
          sget_def slift_def sret_def window_growing_def DEFAULT_PRICE_WINDOW_def)
qed

text \<open>A computation that, on a poisoned slot, raises or rejects, and leaves the slot's prices alone when it rejects.\<close>

definition rejects :: "engine_env \<Rightarrow> pynum \<Rightarrow> string \<Rightarrow> (ectx, engine_decision) sm \<Rightarrow> bool" where
  "rejects env x k m =
     (\<forall>c c' d. poisoned env x k c \<longrightarrow> m c = (c', Inr d) \<longrightarrow> d_quality_status d = INVALID \<and> price_rel k c c')"

lemma rejects_sbind:
  assumes "along (price_rel k) m" and "\<And>y. rejects env x k (f y)"
  shows "rejects env x k (sbind m f)"
  unfolding rejects_def sbind_Inr
proof (intro allI impI, elim exE conjE)
  fix c c' d c1 y assume p: "poisoned env x k c" and m: "m c = (c1, Inr y)" and f: "f y c1 = (c', Inr d)"
  have r: "price_rel k c c1" using alongD [OF assms(1) m] .
  have "poisoned env x k c1" using p by (simp add: poisoned_rel [OF r])
  then have "d_quality_status d = INVALID \<and> price_rel k c1 c'"
    using assms(2) [of y] f unfolding rejects_def by blast
  then show "d_quality_status d = INVALID \<and> price_rel k c c'" using r pr.R_trans by blast
qed

lemma rejects_invalid:
  assumes "along (price_rel k) m" and "\<And>c c' d. m c = (c', Inr d) \<Longrightarrow> d_quality_status d = INVALID"
  shows "rejects env x k m"
  using assms by (auto simp: rejects_def dest: alongD)

lemma rejects_prod: "(\<And>a b. rejects env x k (f a b)) \<Longrightarrow> rejects env x k (case y of (a, b) \<Rightarrow> f a b)"
  by (cases y) simp

text \<open>An invalid verdict stays invalid through stage 7 and the count.\<close>

lemma bbo_invalid:
  "fst v = INVALID \<Longrightarrow> stage_bbo_and_reconciliation raw pl inst px exf v c = (c', Inr (v', dis)) \<Longrightarrow> v' = v"
  by (auto simp: stage_bbo_and_reconciliation_def Let_def sthen_Inr sret_def split: option.split_asm)

lemma finish_invalid:
  assumes "fst v = INVALID"
  shows "rejects env x k (sbind (stage_bbo_and_reconciliation raw pl inst px exf v) (\<lambda>(v4, dis).
           sthen (count_decision (fst v4)) (slift (package env raw pl off now recv sch ep sess v4 dup dis))))"
proof (rule rejects_invalid)
  show "along (price_rel k) (sbind (stage_bbo_and_reconciliation raw pl inst px exf v) (\<lambda>(v4, dis).
           sthen (count_decision (fst v4)) (slift (package env raw pl off now recv sch ep sess v4 dup dis))))"
    by (intro price_intros price_bbo price_count)
  fix c c' d
  assume "sbind (stage_bbo_and_reconciliation raw pl inst px exf v) (\<lambda>(v4, dis).
           sthen (count_decision (fst v4)) (slift (package env raw pl off now recv sch ep sess v4 dup dis))) c = (c', Inr d)"
  then show "d_quality_status d = INVALID"
    using assms by (auto simp: sbind_Inr sthen_Inr slift_def dest!: package_status bbo_invalid [OF assms])
qed

lemma rejects_price:
  assumes "fst v = INVALID \<Longrightarrow> rejects env x k (f v)"
  shows "rejects env x k (sbind (stage_price_corridor env k (Some x) v) f)"
proof (cases "fst v = INVALID")
  case True
  have "sbind (stage_price_corridor env k (Some x) v) f = f v"
    using True by (simp add: stage_price_corridor_def sbind_def sret_def fun_eq_iff)
  then show ?thesis using assms True by simp
next
  case False
  have "stage_price_corridor env k (Some x) v c \<noteq> (c', Inr y)" if "poisoned env x k c" for c c' y
    using corridor_raises [OF that False] by auto
  then show ?thesis by (auto simp: rejects_def sbind_Inr)
qed

lemma epoch_slot:
  assumes "stage_session_and_epoch env raw pl inst sq exf c = (c1, Inr (ep, stream, slot, sess, trig))"
    and "\<not> epoch_reset_triggered env (cx_state c) pl (stream_key_of raw inst) (new_session_id env raw pl) sq exf"
  shows "slot = slot_key_of (stream_key_of raw inst)
           (case es_epoch_state (cx_state c) (stream_key_of raw inst) of None \<Rightarrow> 0 | Some e \<Rightarrow> e)"
  using assms
  by (auto simp: stage_session_and_epoch_def Let_def sbind_Inr sthen_Inr jget_def sget_def sret_def)

lemma run_stages_rejects:
  assumes "num_of (pget pl ''price'') = Some x"
    and "\<not> epoch_reset_triggered env (cx_state c) pl (stream_key_of raw inst) (new_session_id env raw pl) sq exf"
    and "k = slot_key_of (stream_key_of raw inst)
           (case es_epoch_state (cx_state c) (stream_key_of raw inst) of None \<Rightarrow> 0 | Some e \<Rightarrow> e)"
    and "poisoned env x k c" and "run_stages env b now recv raw pl off (inst, ets, sq, exf) c = (c', Inr d)"
  shows "d_quality_status d = INVALID \<and> price_rel k c c'"
proof -
  have rest: "rejects env x k
        (sbind (stage_sequence_and_dedup env raw pl inst ets sq exf recv ep stream k b v0) (\<lambda>(v1, dup).
         sbind (jget es_staleness_threshold_s) (\<lambda>thr.
         sbind (stage_price_corridor env k (Some x) (stage_quote_and_staleness pl ets exf recv thr v1)) (\<lambda>v3.
         sbind (stage_bbo_and_reconciliation raw pl inst (Some x) exf v3) (\<lambda>(v4, dis).
         sthen (count_decision (fst v4)) (slift (package env raw pl off now recv sch ep sess v4 dup dis)))))))"
    for ep stream v0 sch sess
    by (intro rejects_sbind rejects_prod rejects_price finish_invalid price_sequence price_get)
  obtain c1 ep stream slot sess trig where
    e: "stage_session_and_epoch env raw pl inst sq exf c = (c1, Inr (ep, stream, slot, sess, trig))"
    and r: "sbind (stage_sequence_and_dedup env raw pl inst ets sq exf recv ep stream slot b (VALID, if trig then [EPOCH_RESET] else []))
         (\<lambda>(v1, dup). sbind (jget es_staleness_threshold_s) (\<lambda>thr.
         sbind (stage_price_corridor env slot (Some x) (stage_quote_and_staleness pl ets exf recv thr v1)) (\<lambda>v3.
         sbind (stage_bbo_and_reconciliation raw pl inst (Some x) exf v3) (\<lambda>(v4, dis).
         sthen (count_decision (fst v4)) (slift (package env raw pl off now recv (inst, ets, sq, exf) ep sess v4 dup dis)))))) c1 = (c', Inr d)"
    using assms(5) unfolding run_stages_def Let_def prod.case assms(1) by (subst (asm) sbind_Inr) auto
  have k: "slot = k" using epoch_slot [OF e assms(2)] assms(3) by simp
  have p: "price_rel k c c1" using alongD [OF price_epoch e] .
  then have "poisoned env x k c1" using assms(4) by (simp add: poisoned_rel)
  then have "d_quality_status d = INVALID \<and> price_rel k c1 c'" using rest r unfolding k rejects_def by blast
  then show ?thesis using p pr.R_trans by blast
qed

text \<open>An overflow poisons a price slot.  Let a slot hold two prices and no statistics, and let the statistics over them and
  the price of an event overflow.  Then that event, accepted by the schema and within the current epoch, is quarantined as
  invalid and the slot is left with the same two prices and no statistics: the next priced event is in the same position,
  and the feed never recovers by itself.\<close>

theorem overflow_poisons_price_slot:
  assumes "re_payload raw = Inr pl" and "stage_security_envelope env raw pl off (recv_of raw now) = Inr None"
    and "stage_schema_validation env raw pl off (recv_of raw now) = Inr (Inr (inst, ets, sq, exf))"
    and "num_of (pget pl ''price'') = Some x"
    and "\<not> epoch_reset_triggered env (cx_state c) pl (stream_key_of raw inst) (new_session_id env raw pl) sq exf"
    and "k = slot_key_of (stream_key_of raw inst)
           (case es_epoch_state (cx_state c) (stream_key_of raw inst) of None \<Rightarrow> 0 | Some e \<Rightarrow> e)"
    and "es_price_windows (cx_state c) k = Some [p1, p2]" and "es_price_stats (cx_state c) k = None"
    and "fresh_stats env [p1, p2, x] 3 = Inl e"
    and "state_ok (cx_state c)" and "\<not> cx_committed c"
  shows "\<exists>c' d. engine_step env h b now now2 raw (Some off) c = (c', Inr d) \<and> d_quality_status d = INVALID
     \<and> es_price_windows (cx_state c') k = Some [p1, p2] \<and> es_price_stats (cx_state c') k = None"
proof -
  obtain c1 r where run: "step_internal env b now raw off c = (c1, r)" by fastforce
  show ?thesis
  proof (cases r)
    case (Inl e')
    then show ?thesis using run assms(7,8) step_failed_effect [OF run [unfolded Inl] assms(10,11), of h now2 "v_exc env e'"]
      by (simp add: engine_step_def Let_def quarantined_def rejected_def after_failure_def)
  next
    case (Inr d)
    obtain c0 u where b: "begin_event off c = (c0, Inr u)"
      and s: "run_stages env b now (recv_of raw now) raw pl off (inst, ets, sq, exf) c0 = (c1, Inr d)"
      using run assms(1-3) unfolding Inr step_internal_def step_body_def sthen_Inr by (auto simp: sbind_Inr slift_def)
    have c0: "es_epoch_state (cx_state c0) = es_epoch_state (cx_state c)" "es_session_state (cx_state c0) = es_session_state (cx_state c)"
      "es_sequence_state (cx_state c0) = es_sequence_state (cx_state c)" "es_epoch_ts (cx_state c0) = es_epoch_ts (cx_state c)"
      using b by (auto simp: begin_event_def sm_defs jrec_def jupd_def)
    have "poisoned env x k c" using assms(7-9) by (simp add: poisoned_def)
    then have "poisoned env x k c0" using poisoned_rel [OF alongD [OF price_begin b]] by simp
    moreover have "\<not> epoch_reset_triggered env (cx_state c0) pl (stream_key_of raw inst) (new_session_id env raw pl) sq exf"
      using assms(5) unfolding epoch_reset_triggered_def c0 .
    ultimately have "d_quality_status d = INVALID \<and> price_rel k c0 c1"
      using run_stages_rejects [OF assms(4) _ _ _ s, of k] assms(6) by (simp add: c0)
    then show ?thesis using run alongD [OF price_begin b, of k] assms(7,8)
      by (simp add: Inr engine_step_def Let_def price_rel_def txn_commit_def)
  qed
qed

end
