(* ===== verification/Ingestlog.thy ===== *)
theory Ingestlog
  imports Pystruct
begin

text \<open>
  The write-ahead log of \<open>ingestlog.py\<close>: the binary frame and segment formats, the scan that verifies
  a segment and repairs a torn tail, appending (single and batch) with the durability policies and the
  rollback after an I/O error, rotation, purging and reopening.  A segment file is its bytes together
  with the length of the prefix that an \<open>fsync\<close> has made durable; a crash keeps any prefix that is at
  least that long.  Serialisation of a record to JSON is outside: a record is its payload bytes.
\<close>

section \<open>Frames\<close>

definition LOG_MAGIC :: bytes where
  "LOG_MAGIC = [0x4D, 0x44, 0x52, 0x41, 0x50, 0x49, 0x4C, 0x47]"

definition FRAME_MAGIC :: int where
  "FRAME_MAGIC = 0xAA55"

definition LOG_VERSION :: int where
  "LOG_VERSION = 2"

definition SUPPORTED_LOG_VERSIONS :: "int list" where
  "SUPPORTED_LOG_VERSIONS = [0, 1, 2]"

definition SEGMENT_HEADER_FORMAT :: "field list" where
  "SEGMENT_HEADER_FORMAT = [FS 8, FH, FQ, FD, FS 6]"

definition SEGMENT_HEADER_SIZE :: nat where
  "SEGMENT_HEADER_SIZE = 32"

definition FRAME_HEADER_FORMAT :: "field list" where
  "FRAME_HEADER_FORMAT = [FH, FH, FQ, FD, FI, FI]"

definition FRAME_HEADER_SIZE :: nat where
  "FRAME_HEADER_SIZE = 28"

definition MAX_FRAME_PAYLOAD_BYTES :: int where
  "MAX_FRAME_PAYLOAD_BYTES = 16777216"

definition compute_frame_crc :: "bytes \<Rightarrow> bytes \<Rightarrow> int \<Rightarrow> int" where
  "compute_frame_crc hdr_prefix payload version =
     (if 2 \<le> version then uint (crc32_from (crc32 hdr_prefix) payload) else uint (crc32 payload))"

definition pack_frame_header :: "int \<Rightarrow> f64 \<Rightarrow> int \<Rightarrow> bytes \<Rightarrow> int \<Rightarrow> bytes res" where
  "pack_frame_header offset now payload_len payload version =
     bindr (spack BE [FH, FH, FQ, FD, FI] [VI FRAME_MAGIC, VI version, VI offset, VF now, VI payload_len])
       (\<lambda>prefix. bindr (spack BE [FI] [VI (compute_frame_crc prefix payload version)])
         (\<lambda>crc. Inr (prefix @ crc)))"

definition pack_segment_header :: "int \<Rightarrow> f64 \<Rightarrow> bytes res" where
  "pack_segment_header start_offset now_ts =
     bindr (spack BE [FS 8, FH, FQ, FD] [VS LOG_MAGIC, VI LOG_VERSION, VI start_offset, VF now_ts])
       (\<lambda>partial. bindr (spack BE [FI, FS 2] [VI (uint (crc32 partial)), VS [0, 0]])
         (\<lambda>res. spack BE SEGMENT_HEADER_FORMAT
                  [VS LOG_MAGIC, VI LOG_VERSION, VI start_offset, VF now_ts, VS res]))"

section \<open>Scanning a segment\<close>

text \<open>
  The loop of \<open>_verify_and_repair_segment\<close>.  \<open>rest\<close> is the file from \<open>pos\<close> on; at the head of the loop
  \<open>valid_pos\<close> is \<open>pos\<close>, so the file is cut there when the tail is torn.  The result is that position,
  the highest offset and the number of frames counted as corrupted.
\<close>

function scan_frames :: "int \<Rightarrow> int \<Rightarrow> bytes \<Rightarrow> nat \<Rightarrow> int \<Rightarrow> int \<Rightarrow> (nat \<times> int \<times> int) res" where
  "scan_frames max_seg ver rest pos highest corrupted =
     (let hdr = take FRAME_HEADER_SIZE rest
      in if hdr = [] then Inr (pos, highest, corrupted)
         else if length hdr < FRAME_HEADER_SIZE then Inr (pos, highest, corrupted + 1)
         else
           (case sunpack_all BE FRAME_HEADER_FORMAT hdr of
              [VI f_magic, VI f_ver, VI offset, VF f_ts, VI len, VI expected_crc] \<Rightarrow>
                if f_magic \<noteq> FRAME_MAGIC
                then (if list_all (\<lambda>b. b = 0) hdr \<and> list_all (\<lambda>b. b = 0) rest
                      then Inr (pos, highest, corrupted) else Inl IngestLogCorruptError)
                else if MAX_FRAME_PAYLOAD_BYTES < len \<or> max_seg < len then Inl IngestLogCorruptError
                else
                  let payload = take (nat len) (drop FRAME_HEADER_SIZE rest)
                  in if int (length payload) < len then Inr (pos, highest, corrupted + 1)
                     else
                       let effective_ver = (if f_ver \<in> set SUPPORTED_LOG_VERSIONS then f_ver else ver);
                           actual_crc = compute_frame_crc (take 24 hdr) payload effective_ver;
                           total = FRAME_HEADER_SIZE + nat len
                       in if actual_crc \<noteq> expected_crc
                          then (if length rest = total then Inr (pos, highest, corrupted + 1)
                                else Inl IngestLogCorruptError)
                          else scan_frames max_seg ver (drop total rest) (pos + total)
                                 (max highest offset) corrupted
            | _ \<Rightarrow> Inl StructError))"
  by pat_completeness auto
termination
  by (relation "measure (\<lambda>(max_seg, ver, rest, pos, highest, corrupted). length rest)")
     (auto simp: FRAME_HEADER_SIZE_def)

declare scan_frames.simps [simp del]

text \<open>The header check before the loop; a file shorter than a header is removed by the caller.\<close>

definition check_segment_header :: "bytes \<Rightarrow> int res" where
  "check_segment_header hdr =
     (case sunpack_all BE SEGMENT_HEADER_FORMAT hdr of
        [VS magic, VI ver, VI seg_start, VF ts, VS res] \<Rightarrow>
          if magic \<noteq> LOG_MAGIC \<or> ver \<notin> set SUPPORTED_LOG_VERSIONS then Inl IngestLogCorruptError
          else
            let crc = le_int (rev (take 4 res))
            in if crc \<noteq> 0 \<and> crc \<noteq> uint (crc32 (take 26 hdr)) then Inl IngestLogCorruptError
               else Inr ver
      | _ \<Rightarrow> Inl StructError)"

text \<open>The result: the repaired contents (\<^term>\<open>None\<close> when the file is removed), the highest offset and
  the corruption count.\<close>

definition verify_and_repair_segment :: "int \<Rightarrow> bytes \<Rightarrow> (bytes option \<times> int \<times> int) res" where
  "verify_and_repair_segment max_seg content =
     (if length content < SEGMENT_HEADER_SIZE then Inr (None, - 1, 0)
      else bindr (check_segment_header (take SEGMENT_HEADER_SIZE content))
             (\<lambda>ver. bindr (scan_frames max_seg ver (drop SEGMENT_HEADER_SIZE content) SEGMENT_HEADER_SIZE (- 1) 0)
               (\<lambda>(valid_pos, highest, corrupted). Inr (Some (take valid_pos content), highest, corrupted))))"

section \<open>Well-formed frames\<close>

type_synonym frame = "int \<times> f64 \<times> bytes"

definition frame_ok :: "frame \<Rightarrow> bool" where
  "frame_ok fr = (case fr of (off, ts, pl) \<Rightarrow> 0 \<le> off \<and> off < 2 ^ 64 \<and> length pl < 2 ^ 32)"

definition frame_prefix :: "frame \<Rightarrow> bytes" where
  "frame_prefix fr =
     (case fr of (off, ts, pl) \<Rightarrow>
        rev (le_bytes 2 FRAME_MAGIC) @ rev (le_bytes 2 LOG_VERSION) @ rev (le_bytes 8 off)
        @ rev (le_bytes 8 (uint ts)) @ rev (le_bytes 4 (int (length pl))))"

definition frame_bytes :: "frame \<Rightarrow> bytes" where
  "frame_bytes fr =
     frame_prefix fr @ rev (le_bytes 4 (compute_frame_crc (frame_prefix fr) (snd (snd fr)) LOG_VERSION))
     @ snd (snd fr)"

lemma compute_frame_crc_range: "0 \<le> compute_frame_crc p b v \<and> compute_frame_crc p b v < 256 ^ 4"
proof -
  have "uint (w :: 32 word) < 256 ^ 4" for w using uint_range_size [of w] by (simp add: word_size)
  then show ?thesis by (simp add: compute_frame_crc_def)
qed

lemma spack_prefix:
  assumes "frame_ok (off, ts, pl)"
  shows "spack BE [FH, FH, FQ, FD, FI] [VI FRAME_MAGIC, VI LOG_VERSION, VI off, VF ts, VI (int (length pl))]
         = Inr (frame_prefix (off, ts, pl))"
  using assms
  by (simp add: frame_ok_def frame_prefix_def pack_uint_def FRAME_MAGIC_def LOG_VERSION_def order_bytes_def)

lemma pack_frame_header_ok:
  assumes "frame_ok (off, ts, pl)"
  shows "\<exists>hdr. pack_frame_header off ts (int (length pl)) pl LOG_VERSION = Inr hdr
           \<and> hdr @ pl = frame_bytes (off, ts, pl) \<and> length hdr = FRAME_HEADER_SIZE"
  unfolding pack_frame_header_def spack_prefix [OF assms]
  using compute_frame_crc_range [of "frame_prefix (off, ts, pl)" pl LOG_VERSION]
  by (simp add: pack_uint_def order_bytes_def frame_bytes_def FRAME_HEADER_SIZE_def frame_prefix_def)

lemma frame_prefix_length [simp]: "length (frame_prefix fr) = 24"
  by (cases fr) (simp add: frame_prefix_def)

lemma frame_bytes_length: "length (frame_bytes fr) = FRAME_HEADER_SIZE + length (snd (snd fr))"
  by (simp add: frame_bytes_def FRAME_HEADER_SIZE_def)

lemma frame_header_unpack:
  assumes "frame_ok (off, ts, pl)" and "0 \<le> crc" and "crc < 256 ^ 4"
  shows "sunpack_all BE FRAME_HEADER_FORMAT (frame_prefix (off, ts, pl) @ rev (le_bytes 4 crc))
     = [VI FRAME_MAGIC, VI LOG_VERSION, VI off, VF ts, VI (int (length pl)), VI crc]"
proof -
  have "spack BE [FI] [VI crc] = Inr (rev (le_bytes 4 crc))"
    using assms by (simp add: pack_uint_def order_bytes_def)
  from spack_append [OF spack_prefix [OF assms(1)] this]
  have "spack BE FRAME_HEADER_FORMAT
      [VI FRAME_MAGIC, VI LOG_VERSION, VI off, VF ts, VI (int (length pl)), VI crc]
      = Inr (frame_prefix (off, ts, pl) @ rev (le_bytes 4 crc))"
    by (simp only: FRAME_HEADER_FORMAT_def append.simps)
  from sunpack_all_spack [OF this, of "[]"] show ?thesis by (simp add: FRAME_HEADER_FORMAT_def)
qed


section \<open>What the scan does to complete, torn and corrupted frames\<close>

definition frame_fits :: "int \<Rightarrow> frame \<Rightarrow> bool" where
  "frame_fits max_seg fr =
     (frame_ok fr \<and> int (length (snd (snd fr))) \<le> MAX_FRAME_PAYLOAD_BYTES
      \<and> int (length (snd (snd fr))) \<le> max_seg)"

definition frame_hdr :: "frame \<Rightarrow> bytes" where
  "frame_hdr fr = frame_prefix fr @ rev (le_bytes 4 (compute_frame_crc (frame_prefix fr) (snd (snd fr)) LOG_VERSION))"

lemma frame_bytes_split: "frame_bytes fr = frame_hdr fr @ snd (snd fr)"
  by (simp add: frame_bytes_def frame_hdr_def)

lemma frame_hdr_length [simp]: "length (frame_hdr fr) = FRAME_HEADER_SIZE"
  by (simp add: frame_hdr_def FRAME_HEADER_SIZE_def)

lemma frame_hdr_unpack:
  assumes "frame_ok (off, ts, pl)"
  shows "sunpack_all BE FRAME_HEADER_FORMAT (frame_hdr (off, ts, pl))
     = [VI FRAME_MAGIC, VI LOG_VERSION, VI off, VF ts, VI (int (length pl)),
        VI (compute_frame_crc (frame_prefix (off, ts, pl)) pl LOG_VERSION)]"
  unfolding frame_hdr_def snd_conv
  by (intro frame_header_unpack assms) (use compute_frame_crc_range in auto)

text \<open>The loop body on a file that starts with 28 header bytes whose fields are known.\<close>

lemma scan_header:
  assumes "length hdr = FRAME_HEADER_SIZE"
    and "sunpack_all BE FRAME_HEADER_FORMAT hdr = [VI FRAME_MAGIC, VI v, VI off, VF ts, VI len, VI crc]"
    and "len \<le> MAX_FRAME_PAYLOAD_BYTES" and "len \<le> max_seg" and "0 \<le> len"
  shows "scan_frames max_seg ver (hdr @ rest) pos hi c =
     (if length rest < nat len then Inr (pos, hi, c + 1)
      else if compute_frame_crc (take 24 hdr) (take (nat len) rest)
                (if v \<in> set SUPPORTED_LOG_VERSIONS then v else ver) \<noteq> crc
      then (if length rest = nat len then Inr (pos, hi, c + 1) else Inl IngestLogCorruptError)
      else scan_frames max_seg ver (drop (nat len) rest) (pos + (FRAME_HEADER_SIZE + nat len)) (max hi off) c)"
proof -
  have t: "take FRAME_HEADER_SIZE (hdr @ rest) = hdr" "drop FRAME_HEADER_SIZE (hdr @ rest) = rest"
    "drop (FRAME_HEADER_SIZE + k) (hdr @ rest) = drop k rest" for k
    using assms(1) by auto
  have n: "hdr \<noteq> []" using assms(1) by (auto simp: FRAME_HEADER_SIZE_def)
  have l: "(int (length (take (nat len) rest)) < len) = (length rest < nat len)"
    using assms(5) by auto
  have e: "(length (hdr @ rest) = FRAME_HEADER_SIZE + nat len) = (length rest = nat len)"
    using assms(1) by simp
  show ?thesis
    unfolding scan_frames.simps [of _ _ "hdr @ rest"] Let_def t assms(1,2) list.case sval.case l e
    using n assms(3,4) by simp
qed

lemma crc_version: "LOG_VERSION \<in> set SUPPORTED_LOG_VERSIONS"
  by (simp add: LOG_VERSION_def SUPPORTED_LOG_VERSIONS_def)

lemma scan_frame:
  assumes "frame_fits max_seg fr"
  shows "scan_frames max_seg ver (frame_bytes fr @ rest) pos hi c =
     scan_frames max_seg ver rest (pos + length (frame_bytes fr)) (max hi (fst fr)) c"
proof -
  obtain off ts pl where fr: "fr = (off, ts, pl)" by (metis prod_cases3)
  have ok: "frame_ok (off, ts, pl)" using assms by (simp add: frame_fits_def fr)
  have t24: "take 24 (frame_hdr (off, ts, pl)) = frame_prefix (off, ts, pl)" by (simp add: frame_hdr_def)
  show ?thesis
    unfolding fr frame_bytes_split append_assoc
    by (subst scan_header [OF frame_hdr_length frame_hdr_unpack [OF ok]])
       (use assms in \<open>simp_all add: frame_fits_def fr t24 crc_version\<close>)
qed

lemma scan_frames_all:
  "list_all (frame_fits max_seg) frs \<Longrightarrow>
   scan_frames max_seg ver (concat (map frame_bytes frs) @ rest) pos hi c =
   scan_frames max_seg ver rest (pos + length (concat (map frame_bytes frs))) (foldl max hi (map fst frs)) c"
  by (induction frs arbitrary: pos hi) (simp_all add: scan_frame add.assoc)

lemma scan_empty: "scan_frames max_seg ver [] pos hi c = Inr (pos, hi, c)"
  by (simp add: scan_frames.simps [of _ _ "[]"])

lemma scan_torn:
  assumes "frame_fits max_seg fr" and "k < length (frame_bytes fr)"
  shows "scan_frames max_seg ver (take k (frame_bytes fr)) pos hi c
         = Inr (pos, hi, if k = 0 then c else c + 1)"
proof (cases "k < FRAME_HEADER_SIZE")
  case True
  have "length (take k (frame_bytes fr)) = k" using assms(2) by simp
  then have "take FRAME_HEADER_SIZE (take k (frame_bytes fr)) = take k (frame_bytes fr)"
    using True by (simp add: min_def)
  then show ?thesis using True assms(2)
    by (auto simp: scan_frames.simps [of _ _ "take k (frame_bytes fr)"] Let_def min_def)
next
  case False
  obtain off ts pl where fr: "fr = (off, ts, pl)" by (metis prod_cases3)
  have ok: "frame_ok (off, ts, pl)" using assms by (simp add: frame_fits_def fr)
  have t: "take k (frame_bytes fr) = frame_hdr fr @ take (k - FRAME_HEADER_SIZE) pl"
    using False by (simp add: frame_bytes_split fr)
  have "k - FRAME_HEADER_SIZE < length pl" using assms(2) False by (simp add: frame_bytes_split fr)
  moreover have "k \<noteq> 0" using False by (auto simp: FRAME_HEADER_SIZE_def)
  ultimately show ?thesis
    unfolding t unfolding fr
    by (subst scan_header [OF frame_hdr_length frame_hdr_unpack [OF ok]])
       (use assms in \<open>simp_all add: frame_fits_def fr\<close>)
qed

text \<open>The frames that lie wholly within the first \<open>n\<close> bytes.\<close>

fun complete_frames :: "nat \<Rightarrow> frame list \<Rightarrow> frame list" where
  "complete_frames n [] = []"
| "complete_frames n (fr # frs) =
     (if length (frame_bytes fr) \<le> n then fr # complete_frames (n - length (frame_bytes fr)) frs else [])"

definition seg_body :: "frame list \<Rightarrow> bytes" where
  "seg_body frs = concat (map frame_bytes frs)"

lemma seg_body_simps [simp]:
  "seg_body [] = []" "seg_body (fr # frs) = frame_bytes fr @ seg_body frs"
  "seg_body (frs @ frs') = seg_body frs @ seg_body frs'"
  by (simp_all add: seg_body_def)

lemma complete_prefix: "\<exists>k. complete_frames n frs = take k frs"
proof (induction n frs rule: complete_frames.induct)
  case (2 n fr frs)
  show ?case
  proof (cases "length (frame_bytes fr) \<le> n")
    case True
    then obtain k where "complete_frames (n - length (frame_bytes fr)) frs = take k frs" using 2 by blast
    then have "complete_frames n (fr # frs) = take (Suc k) (fr # frs)" using True by simp
    then show ?thesis by blast
  qed (auto intro: exI [of _ 0])
qed simp

lemma complete_all: "length (seg_body frs) \<le> n \<Longrightarrow> complete_frames n frs = frs"
  by (induction frs arbitrary: n) auto

lemma complete_append:
  "length (seg_body frs) \<le> n \<Longrightarrow>
   complete_frames n (frs @ gs) = frs @ complete_frames (n - length (seg_body frs)) gs"
  by (induction frs arbitrary: n) auto

text \<open>Scanning any prefix of a sequence of frames: the complete ones are kept, the torn rest is cut.\<close>

lemma scan_prefix:
  assumes "list_all (frame_fits max_seg) frs"
  shows "\<exists>c'. scan_frames max_seg ver (take n (seg_body frs)) pos hi c =
     Inr (pos + length (seg_body (complete_frames n frs)), foldl max hi (map fst (complete_frames n frs)), c')"
  using assms
proof (induction n frs arbitrary: pos hi rule: complete_frames.induct)
  case (1 n)
  then show ?case by (simp add: scan_empty)
next
  case (2 n fr frs)
  then have fits: "frame_fits max_seg fr" and rest: "list_all (frame_fits max_seg) frs" by auto
  show ?case
  proof (cases "length (frame_bytes fr) \<le> n")
    case True
    then show ?thesis
      using 2(1) [OF True rest, of "pos + length (frame_bytes fr)" "max hi (fst fr)"]
      by (simp add: scan_frame [OF fits] add.assoc)
  next
    case False
    then show ?thesis using scan_torn [OF fits, of n] by simp
  qed
qed

lemma foldl_max: "foldl max (a :: int) xs = (if xs = [] then a else max a (Max (set xs)))"
proof (induction xs arbitrary: a)
  case (Cons x xs)
  then show ?case by (auto simp: max.assoc)
qed simp


section \<open>Corruption\<close>

text \<open>One byte of a frame replaced.  The two version bytes (2, 3) and the length (20 to 23) are not
  covered: they decide how the rest of the frame is read.\<close>

definition protected_byte :: "frame \<Rightarrow> nat \<Rightarrow> bool" where
  "protected_byte fr i =
     (i < length (frame_bytes fr) \<and> \<not> (2 \<le> i \<and> i < 4) \<and> \<not> (20 \<le> i \<and> i < 24))"

lemma sunpack_frame_fields:
  assumes "length a = 2" "length b = 2" "length c = 8" "length d = 8" "length e = 4" "length f = 4"
  shows "sunpack_all BE FRAME_HEADER_FORMAT (a @ b @ c @ d @ e @ f) =
    [VI (le_int (rev a)), VI (le_int (rev b)), VI (le_int (rev c)), VF (word_of_int (le_int (rev d))),
     VI (le_int (rev e)), VI (le_int (rev f))]"
  using assms by (simp add: FRAME_HEADER_FORMAT_def order_bytes_def)

lemma le_int_inj: "length xs = length ys \<Longrightarrow> le_int xs = le_int ys \<longleftrightarrow> xs = ys"
  by (metis le_bytes_le_int)

lemma le_int_rev_inj: "length xs = length ys \<Longrightarrow> le_int (rev xs) = le_int (rev ys) \<longleftrightarrow> xs = ys"
  by (subst le_int_inj) auto

lemma list_update_split:
  "i < length xs \<Longrightarrow> xs[i := x] = take i xs @ x # drop (Suc i) xs"
  by (rule upd_conv_take_nth_drop)

text \<open>The checksum of a v2 frame changes with any single byte of what it covers.\<close>

lemma frame_crc_detects:
  assumes "i < length (p @ b)" and "x \<noteq> (p @ b) ! i" and "length p' = length p" and "p' @ b' = (p @ b)[i := x]"
  shows "compute_frame_crc p' b' 2 \<noteq> compute_frame_crc p b 2"
proof -
  let ?u = "p @ b"
  have "crc32_from 0 (p' @ b') \<noteq> crc32_from 0 ?u"
    unfolding assms(4) list_update_split [OF assms(1)]
    using crc32_single_byte [OF assms(2), of 0 "take i ?u" "drop (Suc i) ?u"] id_take_nth_drop [OF assms(1)]
    by metis
  then show ?thesis by (simp add: compute_frame_crc_def crc32_def crc32_append flip: word_uint_eq_iff)
qed

lemma scan_bad_magic:
  assumes "length hdr = FRAME_HEADER_SIZE"
    and "sunpack_all BE FRAME_HEADER_FORMAT hdr = [VI m, VI v, VI off, VF ts, VI len, VI crc]"
    and "m \<noteq> FRAME_MAGIC" and "\<not> list_all (\<lambda>b. b = 0) hdr"
  shows "scan_frames max_seg ver (hdr @ rest) pos hi c = Inl IngestLogCorruptError"
proof -
  have t: "take FRAME_HEADER_SIZE (hdr @ rest) = hdr" using assms(1) by auto
  have n: "hdr \<noteq> []" using assms(1) by (auto simp: FRAME_HEADER_SIZE_def)
  show ?thesis unfolding scan_frames.simps [of _ _ "hdr @ rest"] Let_def t assms(1,2) list.case sval.case
    using n assms(3,4) by simp
qed

text \<open>The fields of a header after one byte changed.\<close>

lemma frame_prefix_parts:
  "frame_prefix (off, ts, pl) = rev (le_bytes 2 FRAME_MAGIC) @ rev (le_bytes 2 LOG_VERSION) @ rev (le_bytes 8 off)
        @ rev (le_bytes 8 (uint ts)) @ rev (le_bytes 4 (int (length pl)))"
  by (simp add: frame_prefix_def)

lemma field_values:
  assumes "frame_ok (off, ts, pl)"
  shows "le_int (le_bytes 2 FRAME_MAGIC) = FRAME_MAGIC" "le_int (le_bytes 2 LOG_VERSION) = LOG_VERSION"
    "le_int (le_bytes 8 off) = off" "le_int (le_bytes 4 (int (length pl))) = int (length pl)"
  using assms by (auto simp: le_int_le_bytes FRAME_MAGIC_def LOG_VERSION_def frame_ok_def)

lemma update_at:
  "length a \<le> i \<Longrightarrow> (a @ b)[i := x] = a @ b[i - length a := x]"
  "i < length a \<Longrightarrow> (a @ b)[i := x] = a[i := x] @ b"
  by (simp_all add: list_update_append)


lemma scan_mismatch:
  assumes ok: "frame_fits max_seg (off, ts, pl)"
    and len: "length o' = 8" "length t' = 8" "length c' = 4" "length pl' = length pl"
    and pre: "pre = rev (le_bytes 2 FRAME_MAGIC) @ rev (le_bytes 2 LOG_VERSION) @ o' @ t' @ rev (le_bytes 4 (int (length pl)))"
    and bad: "compute_frame_crc pre pl' LOG_VERSION \<noteq> le_int (rev c')"
  shows "scan_frames max_seg ver (pre @ c' @ pl' @ rest) pos hi c
    = (if rest = [] then Inr (pos, hi, c + 1) else Inl IngestLogCorruptError)"
proof -
  have fok: "frame_ok (off, ts, pl)" using ok by (simp add: frame_fits_def)
  have u: "sunpack_all BE FRAME_HEADER_FORMAT (pre @ c')
    = [VI FRAME_MAGIC, VI LOG_VERSION, VI (le_int (rev o')), VF (word_of_int (le_int (rev t'))),
       VI (int (length pl)), VI (le_int (rev c'))]"
    unfolding pre append_assoc using len
    by (subst sunpack_frame_fields) (simp_all add: field_values [OF fok])
  have l: "length (pre @ c') = FRAME_HEADER_SIZE" "take 24 (pre @ c') = pre"
    using len by (simp_all add: pre FRAME_HEADER_SIZE_def)
  have "scan_frames max_seg ver ((pre @ c') @ pl' @ rest) pos hi c
    = (if rest = [] then Inr (pos, hi, c + 1) else Inl IngestLogCorruptError)"
    by (subst scan_header [OF l(1) u])
       (use ok bad len l(2) in \<open>simp_all add: frame_fits_def crc_version\<close>)
  then show ?thesis by simp
qed

lemma scan_corrupted:
  assumes fits: "frame_fits max_seg fr" and i: "protected_byte fr i" and x: "x \<noteq> frame_bytes fr ! i"
  shows "scan_frames max_seg ver ((frame_bytes fr)[i := x] @ rest) pos hi c
    = (if rest \<noteq> [] \<or> i < 2 then Inl IngestLogCorruptError else Inr (pos, hi, c + 1))"
proof -
  obtain off ts pl where fr: "fr = (off, ts, pl)" by (metis prod_cases3)
  have fok: "frame_ok (off, ts, pl)" using fits by (simp add: frame_fits_def fr)
  let ?m = "rev (le_bytes 2 FRAME_MAGIC)" and ?v = "rev (le_bytes 2 LOG_VERSION)" and ?o = "rev (le_bytes 8 off)"
    and ?t = "rev (le_bytes 8 (uint ts))" and ?l = "rev (le_bytes 4 (int (length pl)))"
  let ?p = "frame_prefix fr"
  let ?crc = "compute_frame_crc ?p pl LOG_VERSION"
  let ?c = "rev (le_bytes 4 ?crc)"
  have crc: "le_int (le_bytes 4 ?crc) = ?crc" using compute_frame_crc_range by (intro le_int_le_bytes) auto
  have fb: "frame_bytes fr = ?p @ ?c @ pl" by (simp add: frame_bytes_def fr)
  have pp: "?p = ?m @ ?v @ ?o @ ?t @ ?l" by (simp add: fr frame_prefix_parts)
  note mm = scan_mismatch [OF fits [unfolded fr]]
  have r: "i < 28 + length pl" "i < 2 \<or> 4 \<le> i" "i < 20 \<or> 24 \<le> i"
    using i by (auto simp: protected_byte_def fb)
  then consider "i < 2" | "4 \<le> i" "i < 20" | "24 \<le> i" "i < 28" | "28 \<le> i" "i < 28 + length pl"
    by linarith
  then show ?thesis
  proof cases
    case 1
    have upd: "(frame_bytes fr)[i := x] @ rest = (?m[i := x] @ ?v @ ?o @ ?t @ ?l @ ?c) @ pl @ rest"
      using 1 by (simp add: fb pp update_at)
    have "?m[i := x] \<noteq> ?m" using x 1 by (auto simp: fb pp nth_append list_eq_iff_nth_eq)
    then have "le_int (rev (?m[i := x])) \<noteq> le_int (rev ?m)" by (subst le_int_rev_inj) simp_all
    then have bad: "le_int (rev (?m[i := x])) \<noteq> FRAME_MAGIC" by (simp add: field_values [OF fok])
    have nz: "\<not> list_all (\<lambda>b. b = 0) (?m[i := x] @ ?v @ ?o @ ?t @ ?l @ ?c)"
      by (simp add: LOG_VERSION_def numeral_2_eq_2)
    show ?thesis unfolding upd
      using 1 by (subst scan_bad_magic [OF _ _ bad nz])
        (auto simp: FRAME_HEADER_SIZE_def sunpack_frame_fields simp del: append_assoc)
  next
    case 2
    define o' where "o' = (if i < 12 then ?o[i - 4 := x] else ?o)"
    define t' where "t' = (if i < 12 then ?t else ?t[i - 12 := x])"
    have upd: "?p[i := x] = ?m @ ?v @ o' @ t' @ ?l"
      using 2 by (auto simp: pp update_at o'_def t'_def)
    have fbu: "(frame_bytes fr)[i := x] = ?p[i := x] @ ?c @ pl" using 2 by (simp add: fb update_at)
    have "x \<noteq> (?p @ pl) ! i" using x 2 by (simp add: fb nth_append)
    moreover have "?p[i := x] @ pl = (?p @ pl)[i := x]" using 2 by (simp add: update_at)
    ultimately have "compute_frame_crc (?p[i := x]) pl 2 \<noteq> compute_frame_crc ?p pl 2"
      using 2 by (intro frame_crc_detects) auto
    then have bad: "compute_frame_crc (?p[i := x]) pl LOG_VERSION \<noteq> le_int (rev ?c)"
      by (simp add: LOG_VERSION_def crc [unfolded LOG_VERSION_def])
    show ?thesis unfolding fbu append_assoc
      by (subst mm [OF _ _ _ _ upd bad]) (use 2 in \<open>auto simp: o'_def t'_def\<close>)
  next
    case 3
    have fbu: "(frame_bytes fr)[i := x] = ?p @ ?c[i - 24 := x] @ pl" using 3 by (simp add: fb update_at)
    have lt: "i - 24 < length ?c" using 3 by simp
    then have "x \<noteq> ?c ! (i - 24)" using x 3 by (simp add: fb nth_append)
    then have "?c[i - 24 := x] \<noteq> ?c" using nth_list_update_eq [OF lt, of x] by metis
    then have "le_int (rev (?c[i - 24 := x])) \<noteq> le_int (rev ?c)" by (subst le_int_rev_inj) simp_all
    then have bad: "compute_frame_crc ?p pl LOG_VERSION \<noteq> le_int (rev (?c[i - 24 := x]))" by (simp add: crc)
    show ?thesis unfolding fbu append_assoc
      by (subst mm [OF _ _ _ _ pp bad]) (use 3 in auto)
  next
    case 4
    let ?j = "i - 28"
    have fbu: "(frame_bytes fr)[i := x] = ?p @ ?c @ pl[?j := x]" using 4 by (simp add: fb update_at)
    have "frame_bytes fr ! i = pl ! ?j"
      using 4 unfolding fb append_assoc [symmetric] by (subst nth_append) (simp del: append_assoc)
    then have "x \<noteq> (?p @ pl) ! (24 + ?j)" using x by (simp add: nth_append)
    moreover have "?p @ pl[?j := x] = (?p @ pl)[24 + ?j := x]" by (simp add: update_at)
    ultimately have "compute_frame_crc ?p (pl[?j := x]) 2 \<noteq> compute_frame_crc ?p pl 2"
      using 4 by (intro frame_crc_detects) auto
    then have bad: "compute_frame_crc ?p (pl[?j := x]) LOG_VERSION \<noteq> le_int (rev ?c)"
      by (simp add: LOG_VERSION_def crc [unfolded LOG_VERSION_def])
    show ?thesis unfolding fbu append_assoc
      by (subst mm [OF _ _ _ _ pp bad]) (use 4 in auto)
  qed
qed


section \<open>The log\<close>

datatype fsync_policy = Always | GroupedByTime | GroupedBySize | Never | TrueGroupCommit

text \<open>A segment file: its contents and the length of its durable prefix.\<close>

type_synonym seg_file = "bytes \<times> nat"

record ingest_log =
  il_policy :: fsync_policy
  il_max_seg :: int
  il_next :: int
  il_synced :: int
  il_pending :: int
  il_open :: bool
  il_cur :: int
  il_seg_bytes :: int
  il_since_flush :: int
  il_since_fsync :: int
  il_last_fsync :: f64
  il_poisoned :: bool
  il_corrupted :: int
  il_files :: "(int, seg_file) dict"

text \<open>
  What the file system does during one call: whether creating the new segment and syncing the
  old one succeed, where writing fails if it does (\<open>WriteFault k\<close> and \<open>FlushFault k\<close>: the exception comes
  after \<open>k\<close> bytes reached the file), and whether the rollback works.
\<close>

datatype io_fault = NoFault | WriteFault nat | FlushFault nat | FsyncFault

record io_env =
  io_rotate_ok :: bool
  io_prev_sync_ok :: bool
  io_fault :: io_fault
  io_rollback_ok :: bool

definition cur_file :: "ingest_log \<Rightarrow> seg_file" where
  "cur_file l = dgetd (il_files l) (il_cur l) ([], 0)"

definition set_cur_file :: "ingest_log \<Rightarrow> seg_file \<Rightarrow> ingest_log" where
  "set_cur_file l f = l\<lparr>il_files := dset (il_files l) (il_cur l) f\<rparr>"

definition sync_cur :: "ingest_log \<Rightarrow> ingest_log" where
  "sync_cur l = set_cur_file l (fst (cur_file l), length (fst (cur_file l)))"

definition rotate_to_new_segment :: "io_env \<Rightarrow> int \<Rightarrow> f64 \<Rightarrow> ingest_log \<Rightarrow> ingest_log \<times> unit res" where
  "rotate_to_new_segment io start_offset now_ts l =
     (let l1 = (if il_open l \<and> io_prev_sync_ok io then sync_cur l else l)
      in case pack_segment_header start_offset now_ts of
           Inl e \<Rightarrow> (l1, Inl e)
         | Inr hdr \<Rightarrow>
             if io_rotate_ok io
             then (l1\<lparr>il_files := dset (il_files l1) start_offset (hdr, length hdr), il_cur := start_offset,
                      il_open := True, il_seg_bytes := int (length hdr), il_since_flush := 0,
                      il_since_fsync := 0\<rparr>, Inr ())
             else (l1\<lparr>il_poisoned := True\<rparr>, Inl RuntimeError))"

definition write_bytes :: "ingest_log \<Rightarrow> bytes \<Rightarrow> ingest_log" where
  "write_bytes l bs = set_cur_file l (fst (cur_file l) @ bs, snd (cur_file l))"

definition rollback :: "io_env \<Rightarrow> nat \<Rightarrow> ingest_log \<Rightarrow> ingest_log" where
  "rollback io write_pos l =
     (if io_rollback_ok io
      then (set_cur_file l (take write_pos (fst (cur_file l)), min write_pos (snd (cur_file l))))
             \<lparr>il_seg_bytes := int write_pos, il_since_flush := 0\<rparr>
      else l\<lparr>il_poisoned := True\<rparr>)"

definition after_write :: "int \<Rightarrow> ingest_log \<Rightarrow> ingest_log" where
  "after_write n l = l\<lparr>il_seg_bytes := il_seg_bytes l + n, il_since_flush := il_since_flush l + n\<rparr>"

definition after_flush :: "ingest_log \<Rightarrow> ingest_log" where
  "after_flush l =
     (if il_policy l \<noteq> Never \<or> 65536 \<le> il_since_flush l then l\<lparr>il_since_flush := 0\<rparr> else l)"

definition f_50ms :: f64 where
  "f_50ms = 0x3FA999999999999A"

text \<open>\<open>_synced_offset\<close> after a successful \<open>fsync\<close>; in group commit no other thread runs in between.\<close>

definition fsync_due :: "f64 \<Rightarrow> ingest_log \<Rightarrow> bool" where
  "fsync_due now_ts l =
     (case il_policy l of
        Always \<Rightarrow> True
      | GroupedBySize \<Rightarrow> 65536 \<le> il_since_fsync l
      | GroupedByTime \<Rightarrow> fle f_50ms (fsub now_ts (il_last_fsync l))
      | Never \<Rightarrow> False
      | TrueGroupCommit \<Rightarrow> True)"

definition fsync_append :: "f64 \<Rightarrow> int \<Rightarrow> ingest_log \<Rightarrow> ingest_log" where
  "fsync_append now_ts offset l =
     (let l1 = (sync_cur l)\<lparr>il_since_fsync := 0\<rparr>
      in case il_policy l of
           GroupedByTime \<Rightarrow> l1\<lparr>il_last_fsync := now_ts, il_synced := offset\<rparr>
         | TrueGroupCommit \<Rightarrow> l1\<lparr>il_synced := max (il_synced l) (il_pending l)\<rparr>
         | _ \<Rightarrow> l1\<lparr>il_synced := offset\<rparr>)"

definition poison_if_group :: "ingest_log \<Rightarrow> ingest_log" where
  "poison_if_group l = (if il_policy l = TrueGroupCommit then l\<lparr>il_poisoned := True\<rparr> else l)"

definition append_write ::
  "io_env \<Rightarrow> f64 \<Rightarrow> int \<Rightarrow> bytes \<Rightarrow> ingest_log \<Rightarrow> ingest_log \<times> int res" where
  "append_write io now_ts offset fbs l =
     (let write_pos = nat (il_seg_bytes l); n = int (length fbs);
          lw = after_write n (write_bytes l fbs);
          lf = after_flush lw;
          la = lf\<lparr>il_since_fsync := il_since_fsync lf + n, il_next := offset + 1, il_pending := offset\<rparr>
      in case io_fault io of
           WriteFault k \<Rightarrow> (rollback io write_pos (write_bytes l (take k fbs)), Inl RuntimeError)
         | FlushFault k \<Rightarrow> (rollback io write_pos (after_write n (write_bytes l (take k fbs))), Inl RuntimeError)
         | FsyncFault \<Rightarrow>
             if fsync_due now_ts la
             then (rollback io write_pos ((poison_if_group la)\<lparr>il_next := offset\<rparr>), Inl RuntimeError)
             else (la, Inr offset)
         | NoFault \<Rightarrow> (if fsync_due now_ts la then fsync_append now_ts offset la else la, Inr offset))"

text \<open>\<open>append_batch\<close> on the payloads: one write, one policy decision, the offsets in one go.\<close>

fun pack_batch :: "int \<Rightarrow> f64 \<Rightarrow> bytes list \<Rightarrow> bytes res" where
  "pack_batch off now [] = Inr []"
| "pack_batch off now (p # ps) =
     bindr (pack_frame_header off now (int (length p)) p LOG_VERSION)
       (\<lambda>hdr. bindr (pack_batch (off + 1) now ps) (\<lambda>bs. Inr (hdr @ p @ bs)))"

definition fsync_batch :: "f64 \<Rightarrow> int \<Rightarrow> ingest_log \<Rightarrow> ingest_log" where
  "fsync_batch now_ts last_off l =
     (sync_cur l)\<lparr>il_since_fsync := 0, il_last_fsync := now_ts, il_synced := last_off, il_pending := last_off\<rparr>"

definition batch_write ::
  "io_env \<Rightarrow> f64 \<Rightarrow> int \<Rightarrow> int \<Rightarrow> bytes \<Rightarrow> ingest_log \<Rightarrow> ingest_log \<times> int list res" where
  "batch_write io now_ts start_off count buf l =
     (let write_pos = nat (il_seg_bytes l); n = int (length buf); last_off = start_off + count - 1;
          lf = after_flush (after_write n (write_bytes l buf));
          la = lf\<lparr>il_since_fsync := il_since_fsync lf + n\<rparr>
      in case io_fault io of
           WriteFault k \<Rightarrow> (rollback io write_pos (write_bytes l (take k buf)), Inl RuntimeError)
         | FlushFault k \<Rightarrow> (rollback io write_pos (after_write n (write_bytes l (take k buf))), Inl RuntimeError)
         | FsyncFault \<Rightarrow>
             if fsync_due now_ts la then (rollback io write_pos la, Inl RuntimeError)
             else (la\<lparr>il_next := start_off + count\<rparr>, Inr [start_off..last_off])
         | NoFault \<Rightarrow>
             ((if fsync_due now_ts la then fsync_batch now_ts last_off la else la)\<lparr>il_next := start_off + count\<rparr>,
              Inr [start_off..last_off]))"

definition append_batch ::
  "io_env \<Rightarrow> f64 \<Rightarrow> f64 \<Rightarrow> f64 \<Rightarrow> bytes list \<Rightarrow> ingest_log \<Rightarrow> ingest_log \<times> int list res" where
  "append_batch io now rot_ts now_ts payloads l =
     (if payloads = [] then (l, Inr [])
      else if il_poisoned l then (l, Inl IngestLogPoisonedError)
      else
        let total = sum_list (map (\<lambda>p. int FRAME_HEADER_SIZE + int (length p)) payloads);
            start_off = il_next l
        in case (if \<not> il_open l \<or> il_max_seg l < il_seg_bytes l + total
                 then rotate_to_new_segment io start_off rot_ts l else (l, Inr ())) of
             (l1, Inl e) \<Rightarrow> (l1\<lparr>il_poisoned := True\<rparr>, Inl e)
           | (l1, Inr _) \<Rightarrow>
               (case pack_batch start_off now payloads of
                  Inl e \<Rightarrow> (l1\<lparr>il_poisoned := True\<rparr>, Inl e)
                | Inr buf \<Rightarrow> batch_write io now_ts start_off (int (length payloads)) buf l1))"

definition il_append ::
  "io_env \<Rightarrow> f64 \<Rightarrow> f64 \<Rightarrow> f64 \<Rightarrow> bytes \<Rightarrow> ingest_log \<Rightarrow> ingest_log \<times> int res" where
  "il_append io now rot_ts now_ts payload l =
     (if il_poisoned l then (l, Inl IngestLogPoisonedError)
      else
        let payload_len = int (length payload); offset = il_next l
        in case pack_frame_header offset now payload_len payload LOG_VERSION of
             Inl e \<Rightarrow> (l, Inl e)
           | Inr hdr \<Rightarrow>
               (case (if \<not> il_open l \<or> il_max_seg l < il_seg_bytes l + int FRAME_HEADER_SIZE + payload_len
                      then rotate_to_new_segment io offset rot_ts l else (l, Inr ())) of
                  (l1, Inl e) \<Rightarrow> (l1, Inl e)
                | (l1, Inr _) \<Rightarrow> append_write io now_ts offset (hdr @ payload) l1))"

text \<open>Reopening: every segment is verified and repaired; the last valid one becomes the active one.\<close>

fun repair_all :: "int \<Rightarrow> (int, seg_file) dict \<Rightarrow> ((int, seg_file) dict \<times> int \<times> int) res" where
  "repair_all max_seg [] = Inr ([], - 1, 0)"
| "repair_all max_seg ((start, content, dur) # fs) =
     bindr (verify_and_repair_segment max_seg content)
       (\<lambda>(kept, highest, corrupted). bindr (repair_all max_seg fs)
         (\<lambda>(fs', highest', corrupted').
            Inr ((case kept of None \<Rightarrow> [] | Some c \<Rightarrow> [(start, c, length c)]) @ fs',
                 max highest highest', corrupted + corrupted')))"

definition recover_and_open :: "io_env \<Rightarrow> f64 \<Rightarrow> ingest_log \<Rightarrow> ingest_log \<times> unit res" where
  "recover_and_open io now l =
     (let segments = sort_key fst (il_files l)
      in if segments = [] then rotate_to_new_segment io 0 now l
         else case repair_all (il_max_seg l) segments of
                Inl e \<Rightarrow> (l, Inl e)
              | Inr (valid, highest, corrupted) \<Rightarrow>
                  let l1 = l\<lparr>il_files := valid, il_next := (if 0 \<le> highest then highest + 1 else 0),
                             il_corrupted := il_corrupted l + corrupted\<rparr>
                  in if valid = [] then rotate_to_new_segment io (il_next l1) now l1
                     else (l1\<lparr>il_cur := fst (last valid), il_open := True,
                              il_seg_bytes := int (length (fst (snd (last valid)))), il_since_flush := 0\<rparr>, Inr ()))"

definition fresh_log :: "fsync_policy \<Rightarrow> int \<Rightarrow> f64 \<Rightarrow> (int, seg_file) dict \<Rightarrow> ingest_log" where
  "fresh_log policy max_seg now files =
     \<lparr>il_policy = policy, il_max_seg = max_seg, il_next = 0, il_synced = - 1, il_pending = - 1,
      il_open = False, il_cur = 0, il_seg_bytes = 0, il_since_flush = 0, il_since_fsync = 0,
      il_last_fsync = now, il_poisoned = False, il_corrupted = 0, il_files = files\<rparr>"

definition il_open_log ::
  "io_env \<Rightarrow> fsync_policy \<Rightarrow> int \<Rightarrow> f64 \<Rightarrow> (int, seg_file) dict \<Rightarrow> ingest_log \<times> unit res" where
  "il_open_log io policy max_seg now files =
     (case recover_and_open io now (fresh_log policy max_seg now files) of
        (l, Inr _) \<Rightarrow> (l\<lparr>il_synced := il_next l - 1, il_pending := il_next l - 1\<rparr>, Inr ())
      | (l, Inl e) \<Rightarrow> (l, Inl e))"

definition il_flush :: "f64 \<Rightarrow> ingest_log \<Rightarrow> ingest_log" where
  "il_flush now l =
     (if il_open l
      then (sync_cur l)\<lparr>il_since_flush := 0, il_since_fsync := 0, il_last_fsync := now,
                        il_synced := il_next l - 1, il_pending := il_next l - 1\<rparr>
      else l)"

definition il_close :: "ingest_log \<Rightarrow> ingest_log" where
  "il_close l =
     (if il_open l
      then (sync_cur l)\<lparr>il_since_flush := 0, il_synced := il_next l - 1, il_pending := il_next l - 1,
                        il_open := False\<rparr>
      else l)"

fun purge_files :: "int \<Rightarrow> (int, seg_file) dict \<Rightarrow> (int, seg_file) dict" where
  "purge_files checkpoint ((s, f) # (s', f') # fs) =
     (if s' \<le> checkpoint then [] else [(s, f)]) @ purge_files checkpoint ((s', f') # fs)"
| "purge_files checkpoint fs = fs"

definition delete_segments_before :: "int \<Rightarrow> ingest_log \<Rightarrow> ingest_log \<times> int" where
  "delete_segments_before checkpoint l =
     (let segments = sort_key fst (il_files l); kept = purge_files checkpoint segments
      in (l\<lparr>il_files := kept\<rparr>, int (length segments) - int (length kept)))"


section \<open>Reading\<close>

text \<open>
  The loop of \<open>iter_from\<close> over one segment, without the sparse index (which only chooses where the
  scan starts); a frame whose checksum fails is skipped.  Decoding the payload is the caller's.
\<close>

function iter_frames :: "int \<Rightarrow> int \<Rightarrow> int \<Rightarrow> bytes \<Rightarrow> frame list" where
  "iter_frames max_seg ver start_offset rest =
     (let hdr = take FRAME_HEADER_SIZE rest
      in if length hdr < FRAME_HEADER_SIZE then []
         else
           (case sunpack_all BE FRAME_HEADER_FORMAT hdr of
              [VI f_magic, VI f_ver, VI offset, VF ts, VI len, VI expected_crc] \<Rightarrow>
                if f_magic \<noteq> FRAME_MAGIC then []
                else if MAX_FRAME_PAYLOAD_BYTES < len \<or> max_seg < len then []
                else
                  let payload = take (nat len) (drop FRAME_HEADER_SIZE rest);
                      effective_ver = (if f_ver \<in> set SUPPORTED_LOG_VERSIONS then f_ver else ver);
                      next_rest = drop (FRAME_HEADER_SIZE + nat len) rest
                  in if int (length payload) < len then []
                     else if compute_frame_crc (take 24 hdr) payload effective_ver \<noteq> expected_crc
                     then iter_frames max_seg ver start_offset next_rest
                     else (if start_offset \<le> offset then [(offset, ts, payload)] else [])
                          @ iter_frames max_seg ver start_offset next_rest
            | _ \<Rightarrow> []))"
  by pat_completeness auto
termination
  by (relation "measure (\<lambda>(max_seg, ver, start, rest). length rest)") (auto simp: FRAME_HEADER_SIZE_def)

declare iter_frames.simps [simp del]

definition iter_segment :: "int \<Rightarrow> int \<Rightarrow> bytes \<Rightarrow> frame list" where
  "iter_segment max_seg start_offset content =
     (if length content < SEGMENT_HEADER_SIZE then []
      else case sunpack_all BE SEGMENT_HEADER_FORMAT (take SEGMENT_HEADER_SIZE content) of
             [VS magic, VI ver, VI seg_start, VF ts, VS res] \<Rightarrow>
               if magic \<noteq> LOG_MAGIC \<or> ver \<notin> set SUPPORTED_LOG_VERSIONS then []
               else iter_frames max_seg ver start_offset (drop SEGMENT_HEADER_SIZE content)
           | _ \<Rightarrow> [])"

fun iter_segments :: "int \<Rightarrow> int \<Rightarrow> (int, seg_file) dict \<Rightarrow> frame list" where
  "iter_segments max_seg start_offset [] = []"
| "iter_segments max_seg start_offset ((s, f) # fs) =
     (if fs \<noteq> [] \<and> fst (hd fs) \<le> start_offset then [] else iter_segment max_seg start_offset (fst f))
     @ iter_segments max_seg start_offset fs"

definition iter_from :: "int \<Rightarrow> f64 \<Rightarrow> ingest_log \<Rightarrow> ingest_log \<times> frame list res" where
  "iter_from start_offset now l =
     (let start = max 0 start_offset; l1 = il_flush now l; segments = sort_key fst (il_files l1)
      in if 0 < il_next l1 \<and> segments \<noteq> [] \<and> start < fst (hd segments) then (l1, Inl RecoveryError)
         else (l1, Inr (iter_segments (il_max_seg l1) start segments)))"

end
