(* ===== verification/Engine_Submit.thy ===== *)
theory Engine_Submit
  imports Engine_Replay Ingestlog
begin

text \<open>
  \<open>Engine.submit\<close>: admission of a batch (stamping, size limit), the append to the write-ahead log, the fold under one
  transaction, and the rollback of the batch when anything raises.  The log is reached through the contract \<open>batch_log\<close>,
  which the model of \<open>ingestlog.py\<close> satisfies.
\<close>

section \<open>The log as its client sees it\<close>

record 'l log_ops =
  lo_next_offset :: "'l \<Rightarrow> int"
  lo_append_batch :: "raw_event list \<Rightarrow> 'l \<Rightarrow> 'l \<times> int list res"
  lo_synced_offset :: "'l \<Rightarrow> int"
  lo_policy_never :: "'l \<Rightarrow> bool"

locale batch_log =
  fixes next_off :: "'l \<Rightarrow> int"
    and append_all :: "'p list \<Rightarrow> 'l \<Rightarrow> 'l \<times> int list res"
  assumes append_ok: "append_all ps l = (l', Inr offs) \<Longrightarrow> offs = [next_off l..next_off l + int (length ps) - 1]
      \<and> next_off l' = next_off l + int (length ps)"
    and append_failed: "append_all ps l = (l', Inl e) \<Longrightarrow> next_off l' = next_off l"
begin

lemma append_length: "append_all ps l = (l', Inr offs) \<Longrightarrow> length offs = length ps"
  using append_ok by fastforce

lemma append_sorted: "append_all ps l = (l', Inr offs) \<Longrightarrow> sorted_wrt (<) offs"
  using append_ok by (fastforce simp: sorted_wrt_iff_nth_less)

end

section \<open>Submission\<close>

text \<open>What admission is configured with: \<open>estimate_payload_size\<close>, \<open>max_payload_bytes\<close>, and the texts of the two rejections.\<close>

record submit_cfg =
  sb_size :: "raw_event \<Rightarrow> int res"
  sb_max :: int
  sb_json_error :: "string \<Rightarrow> string"
  sb_json_oversize :: "int \<Rightarrow> raw_event \<Rightarrow> string"

record 'l engine =
  eg_state :: engine_state
  eg_gaps :: "gap_manager option"
  eg_observed_raw_count :: int
  eg_rejected_count :: int
  eg_log :: "'l option"

text \<open>The running state of the admission loop: the context and the two raw counters.\<close>

type_synonym admission = "ectx \<times> int \<times> int"

definition stamp :: "f64 \<Rightarrow> raw_event \<Rightarrow> raw_event" where
  "stamp now raw = (if f_mag (re_receive_timestamp raw) = 0 then raw\<lparr>re_receive_timestamp := now\<rparr> else raw)"

definition reject_raw :: "engine_env \<Rightarrow> raw_event \<Rightarrow> int \<Rightarrow> string \<Rightarrow> string \<Rightarrow> string \<Rightarrow> engine_decision" where
  "reject_raw env raw n what msg js =
     (let eid = ''q_'' @ re_source raw @ ''_'' @ py_str_int n
      in rejected (-1) eid SCHEMA_VIOLATION
           (eid, PStr what, re_source raw, ''INVALID'', v_json_list env [msg], js, re_receive_timestamp raw))"

definition observe :: "admission \<Rightarrow> admission" where
  "observe a =
     (case a of (c, ro, rj) \<Rightarrow>
       (c\<lparr>cx_actions := cx_actions c @ record_event_count (cx_state c),
          cx_state := (cx_state c)\<lparr>es_observed_count := es_observed_count (cx_state c) + 1\<rparr>\<rparr>, ro, rj))"

definition admit ::
    "engine_env \<Rightarrow> submit_cfg \<Rightarrow> int \<Rightarrow> f64 \<Rightarrow> raw_event \<Rightarrow> admission \<Rightarrow> admission \<times> (engine_decision + raw_event) res" where
  "admit env sb off now raw0 a =
     (case observe a of (c, ro, rj) \<Rightarrow>
      let raw = stamp now raw0
      in case (if sb_max sb > 0 then sb_size sb raw else Inr 0) of
           Inl e \<Rightarrow>
             if e = TypeError \<or> e = ValueError
             then ((c, ro + 1, rj + 1),
                   Inr (Inl (reject_raw env raw (ro + 1) ''CORRUPT_PAYLOAD''
                               (''Payload serialization failed: '' @ v_exc env e) (sb_json_error sb (v_exc env e)))))
             else ((c, ro, rj), Inl e)
         | Inr n \<Rightarrow>
             if sb_max sb > 0 \<and> n > sb_max sb
             then ((c, ro + 1, rj + 1),
                   Inr (Inl (reject_raw env raw (ro + 1) ''OVERSIZE''
                               (''Payload size '' @ py_str_int n @ '' bytes exceeds limit '' @ py_str_int (sb_max sb) @ '' bytes'')
                               (sb_json_oversize sb n raw))))
             else ((c, ro + 1, rj),
                   Inr (Inr (if re_raw_id raw = []
                             then raw\<lparr>re_raw_id := ''raw_'' @ re_source raw @ ''_'' @ py_str_int off\<rparr> else raw))))"

text \<open>The loop; \<open>base\<close> is the next offset of the log or, without a log, the event count, and \<open>k\<close> the events accepted so far.\<close>

fun admit_all ::
    "engine_env \<Rightarrow> submit_cfg \<Rightarrow> int \<Rightarrow> int \<Rightarrow> f64 list \<Rightarrow> raw_event list \<Rightarrow> admission
     \<Rightarrow> admission \<times> (engine_decision + raw_event) list res" where
  "admit_all env sb base k clk [] a = (a, Inr [])"
| "admit_all env sb base k clk (raw # raws) a =
     (case admit env sb (base + k) (hd clk) raw a of
        (a1, Inl e) \<Rightarrow> (a1, Inl e)
      | (a1, Inr x) \<Rightarrow>
          (case admit_all env sb base (k + (case x of Inl _ \<Rightarrow> 0 | Inr _ \<Rightarrow> 1)) (tl clk) raws a1 of
             (a2, Inl e) \<Rightarrow> (a2, Inl e)
           | (a2, Inr xs) \<Rightarrow> (a2, Inr (x # xs))))"

fun accepted :: "(engine_decision + raw_event) list \<Rightarrow> raw_event list" where
  "accepted [] = []"
| "accepted (Inl d # xs) = accepted xs"
| "accepted (Inr raw # xs) = raw # accepted xs"

text \<open>The decisions of the fold go back to the positions of their events.\<close>

fun place :: "(engine_decision + raw_event) list \<Rightarrow> engine_decision list \<Rightarrow> engine_decision list" where
  "place [] ds = []"
| "place (Inl d # xs) ds = d # place xs ds"
| "place (Inr raw # xs) [] = place xs []"
| "place (Inr raw # xs) (d # ds) = d # place xs ds"

definition set_durable :: "'l log_ops \<Rightarrow> 'l option \<Rightarrow> engine_decision \<Rightarrow> engine_decision" where
  "set_durable ops lg d =
     d\<lparr>d_durable :=
         (case lg of
            None \<Rightarrow> False
          | Some l \<Rightarrow> \<not> lo_policy_never ops l \<and> (if d_offset d \<ge> 0 then lo_synced_offset ops l \<ge> d_offset d else True))\<rparr>"

definition log_append :: "'l log_ops \<Rightarrow> 'l option \<Rightarrow> engine_state \<Rightarrow> raw_event list \<Rightarrow> 'l option \<times> int list res" where
  "log_append ops lg s raws =
     (if raws = [] then (lg, Inr [])
      else case lg of
             Some l \<Rightarrow> (case lo_append_batch ops raws l of (l', r) \<Rightarrow> (Some l', r))
           | None \<Rightarrow>
               let start = (if es_last_applied_offset s \<ge> 0 then es_last_applied_offset s + 1 else es_event_count s)
               in (None, Inr [start..start + int (length raws) - 1]))"

definition close_submit :: "'l engine \<Rightarrow> admission \<Rightarrow> 'l option \<Rightarrow> 'l engine" where
  "close_submit eg a lg =
     (case a of (c, ro, rj) \<Rightarrow>
       eg\<lparr>eg_state := cx_state c, eg_gaps := cx_gaps c, eg_observed_raw_count := ro, eg_rejected_count := rj, eg_log := lg\<rparr>)"

definition abort_submit :: "'l engine \<Rightarrow> admission \<Rightarrow> 'l option \<Rightarrow> pyexc \<Rightarrow> 'l engine \<times> engine_decision list res" where
  "abort_submit eg a lg e =
     (case a of (c, ro, rj) \<Rightarrow>
      case rollback_to 0 c of
        (c', Inr _) \<Rightarrow> (close_submit eg (c', ro, rj) lg, Inl e)
      | (c', Inl e') \<Rightarrow> (close_submit eg (c', ro, rj) lg, Inl e'))"

definition open_submit :: "'l engine \<Rightarrow> admission" where
  "open_submit eg =
     (\<lparr>cx_state = eg_state eg, cx_actions = [], cx_committed = False, cx_gaps = eg_gaps eg\<rparr>,
      eg_observed_raw_count eg, eg_rejected_count eg)"

definition submit ::
    "engine_env \<Rightarrow> submit_cfg \<Rightarrow> 'l log_ops \<Rightarrow> f64 list \<Rightarrow> (f64 \<times> f64) list \<Rightarrow> raw_event list \<Rightarrow> 'l engine
     \<Rightarrow> 'l engine \<times> engine_decision list res" where
  "submit env sb ops clk clk2 raws eg =
     (if raws = [] then (eg, Inr [])
      else
        let base = (case eg_log eg of Some l \<Rightarrow> lo_next_offset ops l | None \<Rightarrow> es_event_count (eg_state eg))
        in case admit_all env sb base 0 clk raws (open_submit eg) of
             (a, Inl e) \<Rightarrow> abort_submit eg a (eg_log eg) e
           | (a, Inr xs) \<Rightarrow>
               (case log_append ops (eg_log eg) (cx_state (fst a)) (accepted xs) of
                  (lg, Inl e) \<Rightarrow> abort_submit eg a lg e
                | (lg, Inr offs) \<Rightarrow>
                    (case step_batch env True False (zip (accepted xs) (map Some offs)) clk2 (fst a) of
                       (c, Inl e) \<Rightarrow> abort_submit eg (c, snd a) lg e
                     | (c, Inr ds) \<Rightarrow>
                         (close_submit eg (txn_commit c, snd a) lg, Inr (map (set_durable ops lg) (place xs ds))))))"

end
