(* ===== verification/Wal.thy ===== *)
theory Wal
  imports Ingestlog
begin

text \<open>
  Durability of the write-ahead log: the invariant that ties the files of an open log to the list of
  records appended, its preservation by appending under any I/O fault that the rollback repairs, and
  what reopening recovers after a crash.
\<close>

section \<open>Segment headers\<close>

lemma segment_header:
  assumes "pack_segment_header s ts = Inr h"
  shows "length h = SEGMENT_HEADER_SIZE"
    and "sunpack_all BE SEGMENT_HEADER_FORMAT (h @ rest)
       = [VS LOG_MAGIC, VI LOG_VERSION, VI s, VF ts, VS (rev (le_bytes 4 (uint (crc32 (take 26 h)))) @ [0, 0])]"
proof -
  obtain partial res where p: "spack BE [FS 8, FH, FQ, FD] [VS LOG_MAGIC, VI LOG_VERSION, VI s, VF ts] = Inr partial"
    and r: "spack BE [FI, FS 2] [VI (uint (crc32 partial)), VS [0, 0]] = Inr res"
    and h: "spack BE SEGMENT_HEADER_FORMAT [VS LOG_MAGIC, VI LOG_VERSION, VI s, VF ts, VS res] = Inr h"
    using assms by (auto simp: pack_segment_header_def bindr_Inr)
  have res: "res = rev (le_bytes 4 (uint (crc32 partial))) @ [0, 0]"
    using r by (auto simp: pack_uint_def order_bytes_def pad_to_def bindr_Inr split: if_splits)
  have six: "spack BE [FS 6] [VS res] = Inr res" by (simp add: res)
  have "spack BE SEGMENT_HEADER_FORMAT [VS LOG_MAGIC, VI LOG_VERSION, VI s, VF ts, VS res] = Inr (partial @ res)"
    using spack_append [OF p six] by (simp only: SEGMENT_HEADER_FORMAT_def append.simps)
  then have hp: "h = partial @ res" using h by simp
  have lp: "length partial = 26" using spack_length [OF p] by (simp add: calcsize_def)
  show "length h = SEGMENT_HEADER_SIZE" by (simp add: hp lp res SEGMENT_HEADER_SIZE_def)
  have "take 26 h = partial" by (simp add: hp lp)
  then show "sunpack_all BE SEGMENT_HEADER_FORMAT (h @ rest)
       = [VS LOG_MAGIC, VI LOG_VERSION, VI s, VF ts, VS (rev (le_bytes 4 (uint (crc32 (take 26 h)))) @ [0, 0])]"
    using sunpack_all_spack [OF h, of rest] by (simp add: SEGMENT_HEADER_FORMAT_def res LOG_MAGIC_def)
qed

lemma pack_segment_header_ok:
  assumes "0 \<le> s" and "s < 2 ^ 64"
  shows "\<exists>h. pack_segment_header s ts = Inr h"
proof -
  have "0 \<le> uint (w :: 32 word) \<and> uint w < 256 ^ 4" for w
    using uint_range_size [of w] by (simp add: word_size)
  then show ?thesis using assms
    by (simp add: pack_segment_header_def SEGMENT_HEADER_FORMAT_def pack_uint_def LOG_VERSION_def)
qed

lemma check_segment_header_ok:
  assumes "pack_segment_header s ts = Inr h"
  shows "check_segment_header h = Inr LOG_VERSION"
proof -
  have r: "0 \<le> uint (w :: 32 word) \<and> uint w < 256 ^ 4" for w
    using uint_range_size [of w] by (simp add: word_size)
  show ?thesis
    using segment_header(2) [OF assms, of "[]"] r
    by (simp add: check_segment_header_def crc_version Let_def le_int_le_bytes)
qed

section \<open>The invariant\<close>

type_synonym segment = "int \<times> bytes \<times> frame list"

definition seg_bytes :: "segment \<Rightarrow> bytes" where
  "seg_bytes sg = fst (snd sg) @ seg_body (snd (snd sg))"

definition seg_full :: "segment \<Rightarrow> int \<times> seg_file" where
  "seg_full sg = (fst sg, seg_bytes sg, length (seg_bytes sg))"

definition all_frames :: "segment list \<Rightarrow> frame list" where
  "all_frames ss = concat (map (\<lambda>sg. snd (snd sg)) ss)"

definition seg_ok :: "int \<Rightarrow> segment \<Rightarrow> bool" where
  "seg_ok max_seg sg =
     (case sg of (s, h, frs) \<Rightarrow>
        (\<exists>ts. pack_segment_header s ts = Inr h) \<and> list_all (\<lambda>fr. frame_fits max_seg fr \<and> s \<le> fst fr) frs)"

text \<open>Every segment starts at the offset after the last record of the one before.\<close>

fun starts_ok :: "int \<Rightarrow> segment list \<Rightarrow> bool" where
  "starts_ok b [] = True"
| "starts_ok b (sg # ss) = (fst sg = b \<and> starts_ok (b + int (length (snd (snd sg)))) ss)"

definition log_inv :: "int \<Rightarrow> segment list \<Rightarrow> int \<Rightarrow> bytes \<Rightarrow> frame list \<Rightarrow> nat \<Rightarrow> ingest_log \<Rightarrow> bool" where
  "log_inv base ss s h frs d l =
     (il_files l = map seg_full ss @ [(s, seg_bytes (s, h, frs), d)]
      \<and> il_open l \<and> \<not> il_poisoned l \<and> il_cur l = s
      \<and> il_seg_bytes l = int (length (seg_bytes (s, h, frs)))
      \<and> sorted_wrt (<) (map fst ss @ [s])
      \<and> list_all (seg_ok (il_max_seg l)) (ss @ [(s, h, frs)])
      \<and> map fst (all_frames ss @ frs) = [base..il_next l - 1]
      \<and> 0 \<le> base \<and> base \<le> il_next l \<and> s \<le> il_next l \<and> il_synced l < il_next l
      \<and> starts_ok base (ss @ [(s, h, frs)])
      \<and> d \<le> length (seg_bytes (s, h, frs))
      \<and> (\<exists>k. length h + length (seg_body (take k frs)) \<le> d
             \<and> list_all (\<lambda>fr. il_synced l < fst fr) (drop k frs)))"

lemma all_frames_simps [simp]:
  "all_frames [] = []" "all_frames (ss @ ss') = all_frames ss @ all_frames ss'"
  "all_frames [sg] = snd (snd sg)"
  by (simp_all add: all_frames_def)

lemma starts_ok_append:
  "starts_ok b (ss @ ss') \<longleftrightarrow> starts_ok b ss \<and> starts_ok (b + int (length (all_frames ss))) ss'"
  by (induction ss arbitrary: b) (auto simp: all_frames_def algebra_simps)

lemma din_seg_full: "din x (map seg_full ss) \<longleftrightarrow> x \<in> fst ` set ss"
  by (simp add: din_iff seg_full_def image_image)

lemma cur_file_inv:
  assumes "il_files l = map seg_full ss @ [(s, f)]" and "il_cur l = s" and "sorted_wrt (<) (map fst ss @ [s])"
  shows "cur_file l = f" and "il_files (set_cur_file l f') = map seg_full ss @ [(s, f')]"
proof -
  have ne: "fst sg \<noteq> s" if "sg \<in> set ss" for sg
    using assms(3) that by (auto simp: sorted_wrt_append)
  then have no: "\<not> din s (map seg_full ss)" by (auto simp: din_seg_full)
  then have "dget (map seg_full ss) s = None" unfolding din_def by blast
  then show "cur_file l = f" by (simp add: cur_file_def dgetd_def assms map_add_def)
  show "il_files (set_cur_file l f') = map seg_full ss @ [(s, f')]"
    by (simp add: set_cur_file_def assms dset_last [OF no])
qed

lemma set_cur_file_fields [simp]:
  "il_policy (set_cur_file l f) = il_policy l" "il_max_seg (set_cur_file l f) = il_max_seg l"
  "il_next (set_cur_file l f) = il_next l" "il_synced (set_cur_file l f) = il_synced l"
  "il_pending (set_cur_file l f) = il_pending l" "il_open (set_cur_file l f) = il_open l"
  "il_cur (set_cur_file l f) = il_cur l" "il_seg_bytes (set_cur_file l f) = il_seg_bytes l"
  "il_poisoned (set_cur_file l f) = il_poisoned l" "il_since_flush (set_cur_file l f) = il_since_flush l"
  "il_since_fsync (set_cur_file l f) = il_since_fsync l" "il_last_fsync (set_cur_file l f) = il_last_fsync l"
  by (simp_all add: set_cur_file_def)

lemma rotate_inv:
  assumes inv: "log_inv base ss s h frs d l" and io: "io_rotate_ok io" "io_prev_sync_ok io"
    and nx: "il_next l < 2 ^ 64"
  shows "\<exists>l1 ss' h'. rotate_to_new_segment io (il_next l) ts l = (l1, Inr ())
     \<and> log_inv base ss' (il_next l) h' [] SEGMENT_HEADER_SIZE l1 \<and> all_frames ss' = all_frames ss @ frs
     \<and> il_next l1 = il_next l \<and> il_synced l1 = il_synced l \<and> il_policy l1 = il_policy l
     \<and> il_max_seg l1 = il_max_seg l"
proof -
  have files: "il_files l = map seg_full ss @ [(s, seg_bytes (s, h, frs), d)]" and cur: "il_cur l = s"
    and srt: "sorted_wrt (<) (map fst ss @ [s])" and op: "il_open l" and sn: "s \<le> il_next l"
    and offs: "map fst (all_frames ss @ frs) = [base..il_next l - 1]" and b: "0 \<le> base" "base \<le> il_next l"
    and ok: "list_all (seg_ok (il_max_seg l)) (ss @ [(s, h, frs)])"
    using inv by (auto simp: log_inv_def)
  obtain h' where h': "pack_segment_header (il_next l) ts = Inr h'"
    using pack_segment_header_ok [of "il_next l" ts] b nx by auto
  have lh: "length h' = SEGMENT_HEADER_SIZE" using segment_header(1) [OF h'] .
  define l0 where "l0 = sync_cur l"
  have f0: "il_files l0 = map seg_full (ss @ [(s, h, frs)])"
    using cur_file_inv [OF files cur srt] by (simp add: l0_def sync_cur_def seg_full_def)
  define l1 where "l1 = l0\<lparr>il_files := dset (il_files l0) (il_next l) (h', length h'), il_cur := il_next l,
      il_open := True, il_seg_bytes := int (length h'), il_since_flush := 0, il_since_fsync := 0\<rparr>"
  have r: "rotate_to_new_segment io (il_next l) ts l = (l1, Inr ())"
    using io op by (simp add: rotate_to_new_segment_def h' l1_def l0_def Let_def)
  have same: "il_next l1 = il_next l" "il_synced l1 = il_synced l" "il_policy l1 = il_policy l"
    "il_max_seg l1 = il_max_seg l" "\<not> il_poisoned l1"
    using inv by (simp_all add: l1_def l0_def sync_cur_def log_inv_def)
  have new_ok: "seg_ok (il_max_seg l) (il_next l, h', [])" using h' by (auto simp: seg_ok_def)
  have frs_ge: "s \<le> fst fr" if "fr \<in> set frs" for fr using ok that by (auto simp: seg_ok_def list_all_iff)
  define ss' where "ss' = (if il_next l = s then ss else ss @ [(s, h, frs)])"
  have empty: "frs = []" if "il_next l = s"
  proof (rule ccontr)
    assume "frs \<noteq> []"
    then obtain fr where "fr \<in> set frs" by (meson last_in_set)
    then have "fst fr \<in> set [base..il_next l - 1]" unfolding offs [symmetric] by simp
    then show False using frs_ge [OF \<open>fr \<in> set frs\<close>] that by simp
  qed
  have f1: "il_files l1 = map seg_full ss' @ [(il_next l, seg_bytes (il_next l, h', []), SEGMENT_HEADER_SIZE)]"
  proof (cases "il_next l = s")
    case True
    have "\<not> din s (map seg_full ss)" using srt by (auto simp: din_seg_full sorted_wrt_append)
    then have "dset (map seg_full ss @ [(s, v)]) s w = map seg_full ss @ [(s, w)]" for v w
      by (rule dset_last)
    then show ?thesis using True f0 lh
      by (simp add: l1_def ss'_def seg_bytes_def) (simp add: seg_full_def)
  next
    case False
    then have lt: "s < il_next l" using sn by simp
    have "x < s" if "x \<in> fst ` set ss" for x using srt that by (auto simp: sorted_wrt_append)
    then have "il_next l \<notin> fst ` set ss" using lt by (meson not_less_iff_gr_or_eq less_trans)
    then have "\<not> din (il_next l) (il_files l0)" unfolding f0 din_seg_full using lt by simp
    then show ?thesis using False lh
      by (simp add: l1_def dset_absent ss'_def seg_bytes_def) (simp add: f0)
  qed
  have "int (length (all_frames ss @ frs)) = int (length [base..il_next l - 1])"
    by (simp only: offs [symmetric] length_map)
  then have "starts_ok base (ss' @ [(il_next l, h', [])])"
    using b empty inv by (auto simp: ss'_def log_inv_def starts_ok_append)
  then have "log_inv base ss' (il_next l) h' [] SEGMENT_HEADER_SIZE l1"
    using same f1 srt sn ok new_ok offs b empty inv lh
    by (auto simp: log_inv_def l1_def ss'_def seg_bytes_def sorted_wrt_append)
  moreover have "all_frames ss' = all_frames ss @ frs" using empty by (simp add: ss'_def)
  ultimately show ?thesis using r same by blast
qed


section \<open>Writing frames\<close>

lemma extend_inv:
  assumes inv: "log_inv base ss s h frs d l"
    and new: "list_all (frame_fits (il_max_seg l)) new" "map fst new = [il_next l..il_next l + int (length new) - 1]"
    and l': "il_files l' = map seg_full ss @ [(s, seg_bytes (s, h, frs @ new), d')]" "il_open l'"
      "\<not> il_poisoned l'" "il_cur l' = s" "il_seg_bytes l' = int (length (seg_bytes (s, h, frs @ new)))"
      "il_max_seg l' = il_max_seg l" "il_next l' = il_next l + int (length new)"
    and d': "d \<le> d'" "d' \<le> length (seg_bytes (s, h, frs @ new))"
    and sy: "il_synced l' = il_synced l \<or> d' = length (seg_bytes (s, h, frs @ new)) \<and> il_synced l' < il_next l'"
  shows "log_inv base ss s h (frs @ new) d' l'"
proof -
  obtain k where k: "length h + length (seg_body (take k frs)) \<le> d"
    "list_all (\<lambda>fr. il_synced l < fst fr) (drop k frs)"
    using inv by (auto simp: log_inv_def)
  have offs: "map fst (all_frames ss @ frs) = [base..il_next l - 1]"
    and b: "0 \<le> base" "base \<le> il_next l" "s \<le> il_next l" "il_synced l < il_next l"
    using inv by (auto simp: log_inv_def)
  have "map fst (all_frames ss @ frs @ new) = [base..il_next l - 1] @ [il_next l..il_next l + int (length new) - 1]"
    using offs new(2) by simp
  also have "\<dots> = [base..il_next l + int (length new) - 1]"
    using upto_split2 [of base "il_next l - 1" "il_next l + int (length new) - 1"] b(2)
    by (cases "base \<le> il_next l - 1") auto
  finally have offs': "map fst (all_frames ss @ frs @ new) = [base..il_next l' - 1]" by (simp add: l'(7))
  have ge: "il_next l \<le> fst fr" if "fr \<in> set new" for fr
  proof -
    have "fst fr \<in> set (map fst new)" using that by simp
    then show ?thesis unfolding new(2) by simp
  qed
  have "list_all (\<lambda>fr. frame_fits (il_max_seg l) fr \<and> s \<le> fst fr) new"
    using new(1) ge b(3) by (fastforce simp: list_all_iff)
  then have ok: "list_all (seg_ok (il_max_seg l')) (ss @ [(s, h, frs @ new)])"
    using inv by (auto simp: log_inv_def seg_ok_def l'(6))
  have dur: "\<exists>k. length h + length (seg_body (take k (frs @ new))) \<le> d'
      \<and> list_all (\<lambda>fr. il_synced l' < fst fr) (drop k (frs @ new))"
  proof (cases "d' = length (seg_bytes (s, h, frs @ new)) \<and> il_synced l' < il_next l'")
    case True
    then show ?thesis by (intro exI [of _ "length (frs @ new)"]) (simp add: seg_bytes_def)
  next
    case False
    then have eq: "il_synced l' = il_synced l" using sy by blast
    show ?thesis
    proof (cases "k \<le> length frs")
      case True
      have "list_all (\<lambda>fr. il_synced l < fst fr) new" using ge b(4) by (fastforce simp: list_all_iff)
      then show ?thesis using k True d'(1) eq by (intro exI [of _ k]) auto
    next
      case False
      have "list_all (\<lambda>fr. il_synced l < fst fr) new" using ge b(4) by (fastforce simp: list_all_iff)
      then show ?thesis using k False d'(1) eq by (intro exI [of _ "length frs"]) auto
    qed
  qed
  have "il_synced l' < il_next l'" using sy b(4) by (auto simp: l'(7))
  then show ?thesis
    using inv l' d' ok offs' dur b unfolding log_inv_def by (auto simp: seg_bytes_def starts_ok_append)
qed

lemma after_fields [simp]:
  "il_files (after_write n l) = il_files l" "il_files (after_flush l) = il_files l"
  "il_open (after_write n l) = il_open l" "il_open (after_flush l) = il_open l"
  "il_cur (after_write n l) = il_cur l" "il_cur (after_flush l) = il_cur l"
  "il_poisoned (after_write n l) = il_poisoned l" "il_poisoned (after_flush l) = il_poisoned l"
  "il_policy (after_write n l) = il_policy l" "il_policy (after_flush l) = il_policy l"
  "il_max_seg (after_write n l) = il_max_seg l" "il_max_seg (after_flush l) = il_max_seg l"
  "il_next (after_write n l) = il_next l" "il_next (after_flush l) = il_next l"
  "il_synced (after_write n l) = il_synced l" "il_synced (after_flush l) = il_synced l"
  "il_seg_bytes (after_write n l) = il_seg_bytes l + n" "il_seg_bytes (after_flush l) = il_seg_bytes l"
  by (simp_all add: after_write_def after_flush_def)

lemma write_files:
  assumes "il_files l = map seg_full ss @ [(s, c, d)]" and "il_cur l = s" and "sorted_wrt (<) (map fst ss @ [s])"
  shows "il_files (write_bytes l bs) = map seg_full ss @ [(s, c @ bs, d)]"
  using cur_file_inv [OF assms] by (simp add: write_bytes_def)

lemma write_bytes_fields [simp]:
  "il_open (write_bytes l bs) = il_open l" "il_cur (write_bytes l bs) = il_cur l"
  "il_poisoned (write_bytes l bs) = il_poisoned l" "il_policy (write_bytes l bs) = il_policy l"
  "il_max_seg (write_bytes l bs) = il_max_seg l" "il_next (write_bytes l bs) = il_next l"
  "il_synced (write_bytes l bs) = il_synced l" "il_seg_bytes (write_bytes l bs) = il_seg_bytes l"
  by (simp_all add: write_bytes_def)

text \<open>A successful rollback leaves exactly the frames that were there before the write.\<close>

lemma rollback_inv:
  assumes inv: "log_inv base ss s h frs d l" and ok: "io_rollback_ok io"
    and l2: "il_files l2 = map seg_full ss @ [(s, seg_bytes (s, h, frs) @ bs, d)]" "il_open l2" "il_cur l2 = s"
      "\<not> il_poisoned l2" "il_max_seg l2 = il_max_seg l" "il_next l2 = il_next l" "il_synced l2 = il_synced l"
  shows "log_inv base ss s h frs d (rollback io (nat (il_seg_bytes l)) l2)"
proof -
  have wp: "nat (il_seg_bytes l) = length (seg_bytes (s, h, frs))" and dl: "d \<le> length (seg_bytes (s, h, frs))"
    and srt: "sorted_wrt (<) (map fst ss @ [s])"
    using inv by (auto simp: log_inv_def)
  have cf: "cur_file l2 = (seg_bytes (s, h, frs) @ bs, d)" using cur_file_inv(1) [OF l2(1,3) srt] .
  have "il_files (set_cur_file l2 (seg_bytes (s, h, frs), d)) = map seg_full ss @ [(s, seg_bytes (s, h, frs), d)]"
    using cur_file_inv(2) [OF l2(1,3) srt] .
  then show ?thesis using inv ok l2 dl unfolding log_inv_def rollback_def wp cf
    by (simp add: min_absorb2)
qed


definition gain :: "'a res \<Rightarrow> frame \<Rightarrow> frame list" where
  "gain r fr = (case r of Inr _ \<Rightarrow> [fr] | Inl _ \<Rightarrow> [])"

lemma gain_simps [simp]: "gain (Inr x) fr = [fr]" "gain (Inl e) fr = []"
  by (simp_all add: gain_def)

text \<open>What one append does to the invariant; \<open>keeps\<close> names the configuration that never changes.\<close>

definition keeps :: "ingest_log \<Rightarrow> ingest_log \<Rightarrow> bool" where
  "keeps l l' = (il_policy l' = il_policy l \<and> il_max_seg l' = il_max_seg l
     \<and> (il_policy l = Always \<and> il_synced l = il_next l - 1 \<longrightarrow> il_synced l' = il_next l' - 1))"

definition io_ok :: "fsync_policy \<Rightarrow> io_env \<Rightarrow> bool" where
  "io_ok policy io = (io_rotate_ok io \<and> io_prev_sync_ok io \<and> io_rollback_ok io
     \<and> (policy = TrueGroupCommit \<longrightarrow> io_fault io \<noteq> FsyncFault))"

lemma sync_files:
  assumes "il_files l = map seg_full ss @ [(s, c, d)]" and "il_cur l = s" and "sorted_wrt (<) (map fst ss @ [s])"
  shows "il_files (sync_cur l) = map seg_full ss @ [(s, c, length c)]"
  using cur_file_inv [OF assms] by (simp add: sync_cur_def)

lemma sync_fields [simp]:
  "il_open (sync_cur l) = il_open l" "il_cur (sync_cur l) = il_cur l"
  "il_poisoned (sync_cur l) = il_poisoned l" "il_policy (sync_cur l) = il_policy l"
  "il_max_seg (sync_cur l) = il_max_seg l" "il_next (sync_cur l) = il_next l"
  "il_synced (sync_cur l) = il_synced l" "il_seg_bytes (sync_cur l) = il_seg_bytes l"
  "il_pending (sync_cur l) = il_pending l"
  by (simp_all add: sync_cur_def)

lemma fsync_append_fields [simp]:
  "il_files (fsync_append t off l) = il_files (sync_cur l)"
  "il_open (fsync_append t off l) = il_open l" "il_cur (fsync_append t off l) = il_cur l"
  "il_poisoned (fsync_append t off l) = il_poisoned l" "il_policy (fsync_append t off l) = il_policy l"
  "il_max_seg (fsync_append t off l) = il_max_seg l" "il_next (fsync_append t off l) = il_next l"
  "il_seg_bytes (fsync_append t off l) = il_seg_bytes l"
  "il_synced (fsync_append t off l) = (if il_policy l = TrueGroupCommit then max (il_synced l) (il_pending l) else off)"
  by (simp_all add: fsync_append_def Let_def split: fsync_policy.splits)

lemma append_write_inv:
  assumes inv: "log_inv base ss s h frs d l" and fits: "frame_fits (il_max_seg l) fr" and off: "fst fr = il_next l"
    and io: "io_ok (il_policy l) io"
    and r: "append_write io t (il_next l) (frame_bytes fr) l = (l', r)"
  shows "(\<exists>d'. log_inv base ss s h (frs @ gain r fr) d' l') \<and> keeps l l'
    \<and> il_next l' = il_next l + int (length (gain r fr)) \<and> (\<forall>x. r = Inr x \<longrightarrow> x = il_next l)"
proof -
  let ?c = "seg_bytes (s, h, frs)" and ?c' = "seg_bytes (s, h, frs @ [fr])"
  have files: "il_files l = map seg_full ss @ [(s, ?c, d)]" and cur: "il_cur l = s" and op: "il_open l"
    and srt: "sorted_wrt (<) (map fst ss @ [s])" and np: "\<not> il_poisoned l" and dl: "d \<le> length ?c"
    and sb: "il_seg_bytes l = int (length ?c)" and sy: "il_synced l < il_next l"
    using inv by (auto simp: log_inv_def)
  have cc: "?c' = ?c @ frame_bytes fr" by (simp add: seg_bytes_def)
  let ?n = "int (length (frame_bytes fr))"
  define lf where "lf = after_flush (after_write ?n (write_bytes l (frame_bytes fr)))"
  define la where "la = lf\<lparr>il_since_fsync := il_since_fsync lf + ?n, il_next := il_next l + 1, il_pending := il_next l\<rparr>"
  have fw: "il_files (write_bytes l bs) = map seg_full ss @ [(s, ?c @ bs, d)]" for bs
    by (rule write_files [OF files cur srt])
  have la: "il_files la = map seg_full ss @ [(s, ?c', d)]" "il_open la" "\<not> il_poisoned la" "il_cur la = s"
    "il_seg_bytes la = int (length ?c')" "il_max_seg la = il_max_seg l" "il_next la = il_next l + 1"
    "il_policy la = il_policy l" "il_synced la = il_synced l" "il_pending la = il_next l"
    using op np cur sb by (simp_all add: la_def lf_def fw cc)
  have ext: "log_inv base ss s h (frs @ [fr]) d' l2" if "il_files l2 = map seg_full ss @ [(s, ?c', d')]"
    "il_open l2" "\<not> il_poisoned l2" "il_cur l2 = s" "il_seg_bytes l2 = int (length ?c')"
    "il_max_seg l2 = il_max_seg l" "il_next l2 = il_next l + 1" "d \<le> d'" "d' \<le> length ?c'"
    "il_synced l2 = il_synced l \<or> d' = length ?c' \<and> il_synced l2 < il_next l2" for d' l2
    using extend_inv [OF inv, of "[fr]" l2 d'] that fits off by simp
  have rb: "log_inv base ss s h frs d (rollback io (nat (il_seg_bytes l)) l2)"
    if "il_files l2 = map seg_full ss @ [(s, ?c @ bs, d)]" "il_open l2" "il_cur l2 = s" "\<not> il_poisoned l2"
      "il_max_seg l2 = il_max_seg l" "il_next l2 = il_next l" "il_synced l2 = il_synced l" for l2 bs
    using rollback_inv [OF inv _ that] io by (simp add: io_ok_def)
  have rf: "il_policy (rollback io w l2) = il_policy l2" "il_max_seg (rollback io w l2) = il_max_seg l2"
    "il_next (rollback io w l2) = il_next l2" "il_synced (rollback io w l2) = il_synced l2" for w l2
    by (simp_all add: rollback_def)
  have r': "(case io_fault io of
           WriteFault k \<Rightarrow> (rollback io (nat (il_seg_bytes l)) (write_bytes l (take k (frame_bytes fr))), Inl RuntimeError)
         | FlushFault k \<Rightarrow> (rollback io (nat (il_seg_bytes l)) (after_write ?n (write_bytes l (take k (frame_bytes fr)))), Inl RuntimeError)
         | FsyncFault \<Rightarrow>
             if fsync_due t la
             then (rollback io (nat (il_seg_bytes l)) ((poison_if_group la)\<lparr>il_next := il_next l\<rparr>), Inl RuntimeError)
             else (la, Inr (il_next l))
         | NoFault \<Rightarrow> (if fsync_due t la then fsync_append t (il_next l) la else la, Inr (il_next l))) = (l', r)"
    using r unfolding append_write_def Let_def la_def lf_def .
  show ?thesis
  proof (cases "io_fault io")
    case NoFault
    let ?l2 = "if fsync_due t la then fsync_append t (il_next l) la else la"
    have out: "l' = ?l2" "r = Inr (il_next l)" using r' NoFault by auto
    have fs: "il_files (sync_cur la) = map seg_full ss @ [(s, ?c', length ?c')]" by (rule sync_files [OF la(1,4) srt])
    have "log_inv base ss s h (frs @ [fr]) (if fsync_due t la then length ?c' else d) ?l2"
    proof (cases "fsync_due t la")
      case True
      then show ?thesis using la fs dl sy by (simp, intro ext) (simp_all add: cc)
    next
      case False
      then show ?thesis using la dl by (simp, intro ext) (simp_all add: cc)
    qed
    moreover have "keeps l ?l2" using la by (auto simp: keeps_def fsync_due_def)
    moreover have "il_next ?l2 = il_next l + 1" using la by simp
    ultimately show ?thesis unfolding out by auto
  next
    case (WriteFault k)
    have out: "l' = rollback io (nat (il_seg_bytes l)) (write_bytes l (take k (frame_bytes fr)))" "r = Inl RuntimeError"
      using r' WriteFault by auto
    show ?thesis unfolding out using rb [OF fw] op np cur by (auto simp: keeps_def rf)
  next
    case (FlushFault k)
    have out: "l' = rollback io (nat (il_seg_bytes l)) (after_write ?n (write_bytes l (take k (frame_bytes fr))))"
      "r = Inl RuntimeError" using r' FlushFault by auto
    have "il_files (after_write ?n (write_bytes l (take k (frame_bytes fr))))
        = map seg_full ss @ [(s, ?c @ take k (frame_bytes fr), d)]" by (simp add: fw)
    from rb [OF this] show ?thesis unfolding out using op np cur by (auto simp: keeps_def rf)
  next
    case FsyncFault
    show ?thesis
    proof (cases "fsync_due t la")
      case True
      have ng: "il_policy l \<noteq> TrueGroupCommit" using io FsyncFault by (simp add: io_ok_def)
      have out: "l' = rollback io (nat (il_seg_bytes l)) (la\<lparr>il_next := il_next l\<rparr>)" "r = Inl RuntimeError"
        using r' FsyncFault True la ng by (auto simp: poison_if_group_def)
      have "il_files (la\<lparr>il_next := il_next l\<rparr>) = map seg_full ss @ [(s, ?c @ frame_bytes fr, d)]"
        using la by (simp add: cc)
      from rb [OF this] show ?thesis unfolding out using la by (auto simp: keeps_def rf)
    next
      case False
      then have out: "l' = la" "r = Inr (il_next l)" using r' FsyncFault by auto
      have "il_policy l \<noteq> Always" using False la(8) by (auto simp: fsync_due_def)
      moreover have "log_inv base ss s h (frs @ [fr]) d la" using la dl by (intro ext) (simp_all add: cc)
      ultimately show ?thesis unfolding out using la by (auto simp: keeps_def)
    qed
  qed
qed

lemma il_append_inv:
  assumes inv: "log_inv base ss s h frs d l" and fits: "frame_fits (il_max_seg l) (il_next l, now, payload)"
    and io: "io_ok (il_policy l) io"
    and r: "il_append io now rot t payload l = (l', r)"
  shows "\<exists>ss' s' h' frs' d'. log_inv base ss' s' h' frs' d' l'
    \<and> all_frames ss' @ frs' = all_frames ss @ frs @ gain r (il_next l, now, payload)
    \<and> keeps l l' \<and> il_next l' = il_next l + int (length (gain r (il_next l, now, payload)))
    \<and> (\<forall>x. r = Inr x \<longrightarrow> x = il_next l)"
proof -
  let ?fr = "(il_next l, now, payload)"
  have np: "\<not> il_poisoned l" and op: "il_open l" using inv by (auto simp: log_inv_def)
  have fok: "frame_ok ?fr" using fits by (simp add: frame_fits_def)
  then have nx: "il_next l < 2 ^ 64" by (simp add: frame_ok_def)
  obtain hdr where hdr: "pack_frame_header (il_next l) now (int (length payload)) payload LOG_VERSION = Inr hdr"
    "hdr @ payload = frame_bytes ?fr" using pack_frame_header_ok [OF fok] by blast
  show ?thesis
  proof (cases "il_max_seg l < il_seg_bytes l + int FRAME_HEADER_SIZE + int (length payload)")
    case False
    then have "append_write io t (il_next l) (frame_bytes ?fr) l = (l', r)"
      using r np op by (simp add: il_append_def Let_def hdr)
    from append_write_inv [OF inv fits _ io this] obtain d' where
      "log_inv base ss s h (frs @ gain r ?fr) d' l'" "keeps l l'"
      "il_next l' = il_next l + int (length (gain r ?fr))" "\<forall>x. r = Inr x \<longrightarrow> x = il_next l" by auto
    then show ?thesis by blast
  next
    case True
    obtain l1 ss' h' where rot: "rotate_to_new_segment io (il_next l) rot l = (l1, Inr ())"
      and inv1: "log_inv base ss' (il_next l) h' [] SEGMENT_HEADER_SIZE l1"
      and fr1: "all_frames ss' = all_frames ss @ frs"
      and same: "il_next l1 = il_next l" "il_synced l1 = il_synced l" "il_policy l1 = il_policy l"
        "il_max_seg l1 = il_max_seg l"
      using rotate_inv [OF inv, of io rot] io nx by (auto simp: io_ok_def)
    have "append_write io t (il_next l1) (frame_bytes ?fr) l1 = (l', r)"
      using r np op True by (simp add: il_append_def Let_def hdr rot same)
    from append_write_inv [OF inv1 _ _ _ this] obtain d' where
      "log_inv base ss' (il_next l) h' (gain r ?fr) d' l'" "keeps l1 l'"
      "il_next l' = il_next l + int (length (gain r ?fr))" "\<forall>x. r = Inr x \<longrightarrow> x = il_next l"
      using fits io same by auto
    moreover have "keeps l l'" using \<open>keeps l1 l'\<close> same by (simp add: keeps_def)
    ultimately show ?thesis using fr1 by (metis append_assoc)
  qed
qed


section \<open>Crash and reopening\<close>

text \<open>A crash keeps of every file a prefix at least as long as its durable part.\<close>

definition crash_files :: "(int \<Rightarrow> nat) \<Rightarrow> (int, seg_file) dict \<Rightarrow> (int, seg_file) dict" where
  "crash_files kept files =
     map (\<lambda>(s, c, d). let n = max d (min (kept s) (length c)) in (s, take n c, n)) files"

lemma complete_body:
  "take (length (seg_body (complete_frames n frs))) (take n (seg_body frs)) = seg_body (complete_frames n frs)"
  by (induction n frs rule: complete_frames.induct) auto

lemma foldl_max_from: "foldl max (max a b) xs = max a (foldl max (b :: int) xs)"
  by (induction xs arbitrary: b) (simp_all add: max.assoc)

lemma foldl_max_append:
  "max (foldl max (- 1) xs) (foldl max (- 1) ys) = foldl max (- 1 :: int) (xs @ ys)"
proof -
  have "foldl max (- 1) (xs @ ys) = foldl max (max (foldl max (- 1) xs) (- 1)) ys"
  proof -
    have "- 1 \<le> foldl max (- 1 :: int) xs" by (simp add: foldl_max)
    then show ?thesis by (simp add: max_absorb1)
  qed
  then show ?thesis by (simp only: foldl_max_from)
qed

lemma foldl_max_upto: "0 \<le> b \<Longrightarrow> foldl max (- 1) [b..q] = (if b \<le> q then q else - 1 :: int)"
proof -
  assume "0 \<le> b"
  moreover have "Max {b..q} = q" if "b \<le> q" using that by (intro Max_eqI) auto
  ultimately show ?thesis by (simp add: foldl_max)
qed

lemma repair_prefix:
  assumes ok: "seg_ok max_seg (s, h, frs)" and n: "SEGMENT_HEADER_SIZE \<le> n"
  shows "\<exists>c'. verify_and_repair_segment max_seg (take n (seg_bytes (s, h, frs)))
    = Inr (Some (seg_bytes (s, h, complete_frames (n - SEGMENT_HEADER_SIZE) frs)),
           foldl max (- 1) (map fst (complete_frames (n - SEGMENT_HEADER_SIZE) frs)), c')"
proof -
  let ?m = "n - SEGMENT_HEADER_SIZE"
  obtain ts where h: "pack_segment_header s ts = Inr h" using ok by (auto simp: seg_ok_def)
  have lh: "length h = SEGMENT_HEADER_SIZE" using segment_header(1) [OF h] .
  have "list_all (frame_fits max_seg) frs" using ok by (auto simp: seg_ok_def list_all_iff)
  from scan_prefix [OF this, of LOG_VERSION ?m SEGMENT_HEADER_SIZE "- 1" 0] obtain c' where
    sc: "scan_frames max_seg LOG_VERSION (take ?m (seg_body frs)) SEGMENT_HEADER_SIZE (- 1) 0 =
     Inr (SEGMENT_HEADER_SIZE + length (seg_body (complete_frames ?m frs)),
          foldl max (- 1) (map fst (complete_frames ?m frs)), c')" by blast
  have t: "take n (seg_bytes (s, h, frs)) = h @ take ?m (seg_body frs)"
    using n lh by (simp add: seg_bytes_def)
  have "\<not> length (h @ take ?m (seg_body frs)) < SEGMENT_HEADER_SIZE" by (simp add: lh)
  then show ?thesis
    unfolding t verify_and_repair_segment_def
    using lh sc check_segment_header_ok [OF h] complete_body [of ?m frs]
    by (simp add: seg_bytes_def)
qed

lemma repair_full:
  assumes "seg_ok max_seg (s, h, frs)"
  shows "\<exists>c'. verify_and_repair_segment max_seg (seg_bytes (s, h, frs))
    = Inr (Some (seg_bytes (s, h, frs)), foldl max (- 1) (map fst frs), c')"
proof -
  obtain ts where h: "pack_segment_header s ts = Inr h" using assms by (auto simp: seg_ok_def)
  have lh: "length h = SEGMENT_HEADER_SIZE" using segment_header(1) [OF h] .
  have "complete_frames (length (seg_bytes (s, h, frs)) - SEGMENT_HEADER_SIZE) frs = frs"
    by (rule complete_all) (simp add: seg_bytes_def lh)
  then show ?thesis
    using repair_prefix [OF assms, of "length (seg_bytes (s, h, frs))"] by (simp add: seg_bytes_def lh)
qed

lemma repair_all_prefix:
  assumes "list_all (seg_ok max_seg) (ss @ [(s, h, frs)])" and "SEGMENT_HEADER_SIZE \<le> n"
  shows "\<exists>c'. repair_all max_seg (map seg_full ss @ [(s, take n (seg_bytes (s, h, frs)), d)]) =
     Inr (map seg_full (ss @ [(s, h, complete_frames (n - SEGMENT_HEADER_SIZE) frs)]),
          foldl max (- 1) (map fst (all_frames ss @ complete_frames (n - SEGMENT_HEADER_SIZE) frs)), c')"
  using assms(1)
proof (induction ss)
  case Nil
  then show ?case using repair_prefix [of max_seg s h frs n] assms(2)
    by (auto simp: seg_full_def foldl_max)
next
  case (Cons sg ss)
  obtain s1 h1 f1 where sg: "sg = (s1, h1, f1)" by (metis prod_cases3)
  obtain c1 where c1: "verify_and_repair_segment max_seg (seg_bytes sg)
    = Inr (Some (seg_bytes sg), foldl max (- 1) (map fst f1), c1)"
    using repair_full [of max_seg s1 h1 f1] Cons.prems by (auto simp: sg)
  have fs: "seg_full sg = (s1, seg_bytes sg, length (seg_bytes sg))" by (simp add: seg_full_def sg)
  have "all_frames (sg # ss) = f1 @ all_frames ss" by (simp add: all_frames_def sg)
  then show ?case
    using Cons c1 foldl_max_append [of "map fst f1" "map fst (all_frames ss) @ map fst (complete_frames (n - SEGMENT_HEADER_SIZE) frs)"]
    by (auto simp: fs)
qed

lemma sort_key_sorted: "sorted (map f xs) \<Longrightarrow> sort_key f xs = xs"
  by (induction xs) (auto simp: insort_is_Cons)

lemma crash_inv:
  assumes "log_inv base ss s h frs d l"
  shows "crash_files kept (il_files l) = map seg_full ss
    @ [(s, take (max d (min (kept s) (length (seg_bytes (s, h, frs))))) (seg_bytes (s, h, frs)),
        max d (min (kept s) (length (seg_bytes (s, h, frs)))))]"
proof -
  have "map (\<lambda>(s, c, d). let n = max d (min (kept s) (length c)) in (s, take n c, n)) (map seg_full ss)
      = map seg_full ss"
    by (rule map_idI) (auto simp: seg_full_def Let_def)
  then show ?thesis using assms by (simp add: crash_files_def log_inv_def Let_def)
qed


lemma take_offsets:
  assumes "map fst frs = [b..q]" and "frs' = take k frs"
  shows "map fst frs' = [b..b + int (length frs') - 1]"
proof -
  have "map fst frs' = take k [b..q]" using assms by (simp add: take_map [symmetric])
  also have "\<dots> = [b..b + int (length frs') - 1]"
  proof (rule nth_equalityI)
    have "length frs = nat (q - b + 1)" using arg_cong [OF assms(1), of length] by simp
    then show "length (take k [b..q]) = length [b..b + int (length frs') - 1]" by (simp add: assms(2))
  next
    fix i assume i: "i < length (take k [b..q])"
    then have "b + int i \<le> q" by simp linarith
    moreover have "int i < int (length frs')"
      using i arg_cong [OF assms(1), of length] by (simp add: assms(2))
    ultimately show "take k [b..q] ! i = [b..b + int (length frs') - 1] ! i"
      using i by (simp add: nth_upto)
  qed
  finally show ?thesis .
qed

text \<open>Reopening after a crash: the records come back as a prefix that holds everything synced, and the
  log is in order again, ready to append at the next offset.\<close>

lemma reopen_inv:
  assumes inv: "log_inv 0 ss s h frs d l" and mx: "max_seg = il_max_seg l"
  shows "\<exists>l' frs'. il_open_log io policy max_seg now (crash_files kept (il_files l)) = (l', Inr ())
     \<and> log_inv 0 ss s h frs' (length (seg_bytes (s, h, frs'))) l'
     \<and> (\<exists>k. frs' = take k frs) \<and> (\<forall>fr \<in> set frs. fst fr \<le> il_synced l \<longrightarrow> fr \<in> set frs')
     \<and> il_next l' = int (length (all_frames ss @ frs')) \<and> il_synced l' = il_next l' - 1 \<and> il_policy l' = policy
     \<and> il_max_seg l' = max_seg"
proof -
  let ?c = "seg_bytes (s, h, frs)"
  define n where "n = max d (min (kept s) (length ?c))"
  define frs' where "frs' = complete_frames (n - SEGMENT_HEADER_SIZE) frs"
  have ok: "list_all (seg_ok max_seg) (ss @ [(s, h, frs)])" and srt: "sorted_wrt (<) (map fst ss @ [s])"
    and offs: "map fst (all_frames ss @ frs) = [0..il_next l - 1]" and sb: "starts_ok 0 (ss @ [(s, h, frs)])"
    using inv by (auto simp: log_inv_def mx)
  obtain k where k: "length h + length (seg_body (take k frs)) \<le> d"
    "list_all (\<lambda>fr. il_synced l < fst fr) (drop k frs)"
    using inv by (auto simp: log_inv_def)
  obtain ts where h: "pack_segment_header s ts = Inr h" using ok by (auto simp: seg_ok_def)
  have lh: "length h = SEGMENT_HEADER_SIZE" using segment_header(1) [OF h] .
  have n: "SEGMENT_HEADER_SIZE \<le> n" "length (seg_body (take k frs)) \<le> n - SEGMENT_HEADER_SIZE"
    using k(1) lh by (auto simp: n_def)
  obtain j where j: "frs' = take j frs" using complete_prefix frs'_def by blast
  have keepk: "frs' = take k frs @ complete_frames (n - SEGMENT_HEADER_SIZE - length (seg_body (take k frs))) (drop k frs)"
    using complete_append [OF n(2), of "drop k frs"] by (simp add: frs'_def)
  have synced: "fr \<in> set frs'" if "fr \<in> set frs" "fst fr \<le> il_synced l" for fr
  proof -
    have "fr \<notin> set (drop k frs)" using k(2) that(2) by (auto simp: list_all_iff)
    then have "fr \<in> set (take k frs)" using that(1) by (metis Un_iff append_take_drop_id set_append)
    then show ?thesis unfolding keepk by simp
  qed
  let ?files = "map seg_full ss @ [(s, take n ?c, n)]"
  have "crash_files kept (il_files l) = ?files" using crash_inv [OF inv] by (simp add: n_def)
  moreover have "sort_key fst ?files = ?files"
  proof (rule sort_key_sorted)
    have "map fst ?files = map fst ss @ [s]" by (simp add: seg_full_def comp_def)
    then show "sorted (map fst ?files)"
      using srt by (simp only: strict_sorted_imp_sorted)
  qed
  moreover obtain c' where rep: "repair_all max_seg ?files
      = Inr (map seg_full (ss @ [(s, h, frs')]), foldl max (- 1) (map fst (all_frames ss @ frs')), c')"
    using repair_all_prefix [OF ok n(1)] by (auto simp: frs'_def)
  have "all_frames ss @ frs' = take (length (all_frames ss) + j) (all_frames ss @ frs)" by (simp add: j)
  from take_offsets [OF offs this]
  have o': "map fst (all_frames ss @ frs') = [0..int (length (all_frames ss @ frs')) - 1]" by simp
  have hi: "foldl max (- 1) (map fst (all_frames ss @ frs')) = int (length (all_frames ss @ frs')) - 1"
    unfolding o' by (subst foldl_max_upto) auto
  note rep [unfolded hi]
  moreover define l' where "l' = (fresh_log policy max_seg now ?files)\<lparr>il_files := map seg_full (ss @ [(s, h, frs')]),
      il_next := int (length (all_frames ss @ frs')), il_corrupted := c', il_cur := s, il_open := True,
      il_seg_bytes := int (length (seg_bytes (s, h, frs'))), il_since_flush := 0,
      il_synced := int (length (all_frames ss @ frs')) - 1, il_pending := int (length (all_frames ss @ frs')) - 1\<rparr>"
  ultimately have op: "il_open_log io policy max_seg now (crash_files kept (il_files l)) = (l', Inr ())"
    by (simp add: il_open_log_def recover_and_open_def Let_def fresh_log_def seg_full_def)
  have "list_all (seg_ok max_seg) (ss @ [(s, h, frs')])"
    using ok by (auto simp: seg_ok_def j list_all_iff dest: in_set_takeD)
  then have "log_inv 0 ss s h frs' (length (seg_bytes (s, h, frs'))) l'"
    using srt o' sb unfolding log_inv_def
    by (auto simp: l'_def fresh_log_def seg_full_def starts_ok_append intro!: exI [of _ "length frs'"])
       (auto simp: seg_bytes_def)
  then show ?thesis using op synced j
    by (intro exI [of _ l'] exI [of _ frs']) (auto simp: l'_def fresh_log_def)
qed


section \<open>Reading back\<close>

lemma iter_frame:
  assumes "frame_fits max_seg fr"
  shows "iter_frames max_seg ver start (frame_bytes fr @ rest) =
     (if start \<le> fst fr then [fr] else []) @ iter_frames max_seg ver start rest"
proof -
  obtain off ts pl where fr: "fr = (off, ts, pl)" by (metis prod_cases3)
  have ok: "frame_ok (off, ts, pl)" using assms by (simp add: frame_fits_def fr)
  have t: "take FRAME_HEADER_SIZE (frame_bytes fr @ rest) = frame_hdr (off, ts, pl)"
    "drop FRAME_HEADER_SIZE (frame_bytes fr @ rest) = pl @ rest"
    "drop (FRAME_HEADER_SIZE + nat (int (length pl))) (frame_bytes fr @ rest) = rest"
    by (simp_all add: fr frame_bytes_split)
  have t24: "take 24 (frame_hdr (off, ts, pl)) = frame_prefix (off, ts, pl)" by (simp add: frame_hdr_def)
  show ?thesis
    unfolding iter_frames.simps [of _ _ _ "frame_bytes fr @ rest"] Let_def t frame_hdr_unpack [OF ok] list.case sval.case t24
    using assms by (simp add: frame_fits_def fr crc_version)
qed

lemma iter_body:
  "list_all (frame_fits max_seg) frs \<Longrightarrow>
   iter_frames max_seg ver start (seg_body frs) = [fr \<leftarrow> frs. start \<le> fst fr]"
  by (induction frs) (simp_all add: iter_frame, simp add: iter_frames.simps [of _ _ _ "[]"] FRAME_HEADER_SIZE_def)

lemma iter_segment_ok:
  assumes "seg_ok max_seg (s, h, frs)"
  shows "iter_segment max_seg start (seg_bytes (s, h, frs)) = [fr \<leftarrow> frs. start \<le> fst fr]"
proof -
  obtain ts where h: "pack_segment_header s ts = Inr h" using assms by (auto simp: seg_ok_def)
  have lh: "length h = SEGMENT_HEADER_SIZE" using segment_header(1) [OF h] .
  have f: "list_all (frame_fits max_seg) frs" using assms by (auto simp: seg_ok_def list_all_iff)
  show ?thesis using segment_header(2) [OF h, of "[]"] lh iter_body [OF f]
    by (simp add: iter_segment_def seg_bytes_def crc_version)
qed

lemma iter_segments_ok:
  "list_all (seg_ok max_seg) ss \<Longrightarrow> sorted_wrt (<) (map fst ss) \<Longrightarrow> (\<And>sg. sg \<in> set (tl ss) \<Longrightarrow> start < fst sg)
   \<Longrightarrow> iter_segments max_seg start (map seg_full ss) = [fr \<leftarrow> all_frames ss. start \<le> fst fr]"
proof (induction ss)
  case (Cons sg ss)
  obtain s h frs where sg: "sg = (s, h, frs)" by (metis prod_cases3)
  have "\<not> (map seg_full ss \<noteq> [] \<and> fst (hd (map seg_full ss)) \<le> start)"
    using Cons.prems(3) [of "hd ss"] by (cases ss) (auto simp: seg_full_def)
  moreover have "iter_segments max_seg start (map seg_full ss) = [fr \<leftarrow> all_frames ss. start \<le> fst fr]"
    using Cons by (cases ss) auto
  moreover have "all_frames (sg # ss) = frs @ all_frames ss" by (simp add: all_frames_def sg)
  moreover have "seg_full sg = (s, seg_bytes (s, h, frs), length (seg_bytes (s, h, frs)))"
    by (simp add: sg seg_full_def)
  ultimately show ?case using Cons.prems(1) iter_segment_ok [of max_seg s h frs start]
    by (auto simp: sg)
qed simp

lemma iter_from_start:
  assumes inv: "log_inv 0 ss s h frs d l"
  shows "snd (iter_from 0 now l) = Inr (all_frames ss @ frs)"
proof -
  let ?ss = "ss @ [(s, h, frs)]"
  have files: "il_files l = map seg_full ss @ [(s, seg_bytes (s, h, frs), d)]" and cur: "il_cur l = s"
    and srt: "sorted_wrt (<) (map fst ss @ [s])" and op: "il_open l"
    and ok: "list_all (seg_ok (il_max_seg l)) ?ss"
    and offs: "map fst (all_frames ?ss) = [0..il_next l - 1]" and sb: "starts_ok 0 ?ss"
    using inv by (auto simp: log_inv_def)
  have ff: "il_files (il_flush now l) = map seg_full ?ss" and mx: "il_max_seg (il_flush now l) = il_max_seg l"
    using sync_files [OF files cur srt] op by (simp_all add: il_flush_def seg_full_def)
  have fst: "map fst (map seg_full ?ss) = map fst ?ss" by (simp add: seg_full_def comp_def)
  have srt': "sorted_wrt (<) (map fst ?ss)" using srt by simp
  have so: "sort_key fst (map seg_full ?ss) = map seg_full ?ss"
    by (rule sort_key_sorted) (use srt' in \<open>simp only: fst strict_sorted_imp_sorted\<close>)
  obtain sg1 rest where hd: "?ss = sg1 # rest" by (cases ?ss) auto
  have h0: "fst sg1 = 0" using sb unfolding hd by simp
  have later: "0 < fst sg" if "sg \<in> set (tl ?ss)" for sg
    using srt' that h0 unfolding hd by auto
  have ge: "0 \<le> fst fr" if "fr \<in> set (all_frames ?ss)" for fr
  proof -
    have "fst fr \<in> set [0..il_next l - 1]" using that unfolding offs [symmetric] by auto
    then show ?thesis by simp
  qed
  have "iter_segments (il_max_seg l) 0 (map seg_full ?ss) = all_frames ?ss"
    using iter_segments_ok [OF ok srt' later] ge by (simp add: filter_id_conv)
  moreover have "\<not> 0 < fst (hd (map seg_full ?ss))" unfolding hd using h0 by (simp add: seg_full_def)
  ultimately show ?thesis unfolding iter_from_def Let_def ff mx so by simp
qed


section \<open>From an empty directory to a crash and back\<close>

type_synonym wal_op = "io_env \<times> f64 \<times> f64 \<times> f64 \<times> bytes"

fun wal_apply :: "ingest_log \<times> frame list \<Rightarrow> wal_op \<Rightarrow> ingest_log \<times> frame list" where
  "wal_apply (l, acked) (io, now, rot, t, payload) =
     (case il_append io now rot t payload l of
        (l', Inr off) \<Rightarrow> (l', acked @ [(off, now, payload)])
      | (l', Inl e) \<Rightarrow> (l', acked))"

definition op_ok :: "fsync_policy \<Rightarrow> int \<Rightarrow> wal_op \<Rightarrow> bool" where
  "op_ok policy max_seg w =
     (case w of (io, now, rot, t, payload) \<Rightarrow>
        io_ok policy io \<and> int (length payload) \<le> MAX_FRAME_PAYLOAD_BYTES \<and> int (length payload) \<le> max_seg)"

definition holds :: "ingest_log \<Rightarrow> frame list \<Rightarrow> bool" where
  "holds l recs = (\<exists>ss s h frs d. log_inv 0 ss s h frs d l \<and> recs = all_frames ss @ frs)"

lemma holds_next: "holds l recs \<Longrightarrow> il_next l = int (length recs)"
proof -
  assume "holds l recs"
  then have "map fst recs = [0..il_next l - 1]" "0 \<le> il_next l" by (auto simp: holds_def log_inv_def)
  from arg_cong [OF this(1), of length] this(2) show ?thesis by simp
qed

lemma wal_apply_holds:
  assumes "holds l acked" and "op_ok (il_policy l) (il_max_seg l) w" and "il_next l < 2 ^ 64"
    and "wal_apply (l, acked) w = (l', acked')"
  shows "holds l' acked' \<and> keeps l l' \<and> (\<exists>x. acked' = acked @ x \<and> length x \<le> 1)"
proof -
  obtain io now rot t payload where w: "w = (io, now, rot, t, payload)" by (metis prod_cases5)
  obtain ss s h frs d where inv: "log_inv 0 ss s h frs d l" and ack: "acked = all_frames ss @ frs"
    using assms(1) by (auto simp: holds_def)
  have ok: "io_ok (il_policy l) io" "int (length payload) \<le> MAX_FRAME_PAYLOAD_BYTES"
    "int (length payload) \<le> il_max_seg l"
    using assms(2) by (auto simp: op_ok_def w)
  have "0 \<le> il_next l" using inv by (simp add: log_inv_def)
  then have fits: "frame_fits (il_max_seg l) (il_next l, now, payload)"
    using ok assms(3) by (simp add: frame_fits_def frame_ok_def MAX_FRAME_PAYLOAD_BYTES_def)
  obtain r where r: "il_append io now rot t payload l = (l', r)"
    using assms(4) by (auto simp: w split: prod.splits sum.splits)
  have "acked' = acked @ gain r (il_next l, now, payload)"
    using assms(4) il_append_inv [OF inv fits ok(1) r] by (auto simp: w r split: sum.splits)
  moreover obtain ss' s' h' frs' d' where "log_inv 0 ss' s' h' frs' d' l'" "keeps l l'"
    "all_frames ss' @ frs' = acked @ gain r (il_next l, now, payload)"
    using il_append_inv [OF inv fits ok(1) r] ack by auto
  moreover have "length (gain r (il_next l, now, payload)) \<le> 1" by (simp add: gain_def split: sum.splits)
  ultimately show ?thesis unfolding holds_def by metis
qed

lemma wal_run_holds:
  assumes "holds l acked" and "list_all (op_ok (il_policy l) (il_max_seg l)) ops"
    and "il_next l + int (length ops) < 2 ^ 64" and "foldl wal_apply (l, acked) ops = (l', acked')"
  shows "holds l' acked' \<and> keeps l l'"
  using assms
proof (induction ops arbitrary: l acked)
  case Nil
  then show ?case by (simp add: keeps_def)
next
  case (Cons w ops)
  obtain l1 a1 where w: "wal_apply (l, acked) w = (l1, a1)" by fastforce
  have h: "holds l1 a1 \<and> keeps l l1 \<and> (\<exists>x. a1 = acked @ x \<and> length x \<le> 1)"
    using wal_apply_holds [OF Cons.prems(1) _ _ w] Cons.prems by simp
  then have "il_next l1 \<le> il_next l + 1"
    using holds_next [OF Cons.prems(1)] holds_next [of l1 a1] by auto
  then have "holds l' acked' \<and> keeps l1 l'"
    using Cons.IH [of l1 a1] h Cons.prems w by (simp add: keeps_def)
  then show ?case using h by (auto simp: keeps_def)
qed

lemma open_empty_holds:
  assumes "io_rotate_ok io" and "il_open_log io policy max_seg now [] = (l, r)"
  shows "r = Inr () \<and> holds l [] \<and> il_policy l = policy \<and> il_max_seg l = max_seg \<and> il_synced l = - 1 \<and> il_next l = 0"
proof -
  obtain h where h: "pack_segment_header 0 now = Inr h" using pack_segment_header_ok [of 0] by auto
  have lh: "length h = SEGMENT_HEADER_SIZE" using segment_header(1) [OF h] .
  have "l = (fresh_log policy max_seg now [])\<lparr>il_files := [(0, h, length h)], il_cur := 0, il_open := True,
      il_seg_bytes := int (length h), il_since_flush := 0, il_since_fsync := 0, il_synced := - 1, il_pending := - 1\<rparr>"
    and r: "r = Inr ()"
    using assms h by (auto simp: il_open_log_def recover_and_open_def rotate_to_new_segment_def fresh_log_def)
  then have l: "l = \<lparr>il_policy = policy, il_max_seg = max_seg, il_next = 0, il_synced = - 1, il_pending = - 1,
      il_open = True, il_cur = 0, il_seg_bytes = int (length h), il_since_flush = 0, il_since_fsync = 0,
      il_last_fsync = now, il_poisoned = False, il_corrupted = 0, il_files = [(0, h, length h)]\<rparr>"
    by (simp add: fresh_log_def)
  have "log_inv 0 [] 0 h [] (length h) l"
    using h by (auto simp: log_inv_def l seg_bytes_def seg_ok_def)
  then have "holds l []" unfolding holds_def by (metis all_frames_simps(1) append_Nil)
  then show ?thesis using r by (simp add: l)
qed

text \<open>C1: acknowledged records survive a crash.  Start from an empty directory, append any number of
  records with any fsync policy, under write, flush and fsync errors that the rollback repairs; crash at
  any point, keeping of each file at least its synced part; reopen.  Opening succeeds, and reading from
  the start gives a prefix of the acknowledged records, in order and unchanged, that holds every record
  up to the synced offset; under policy \<open>always\<close> it gives all acknowledged records.  The next offset is
  the number of records recovered, so no offset is reused or skipped.\<close>

theorem acknowledged_records_survive_crash:
  assumes "io_rotate_ok io0" and "il_open_log io0 policy max_seg now0 [] = (l0, r0)"
    and "list_all (op_ok policy max_seg) ops" and "int (length ops) < 2 ^ 64"
    and "foldl wal_apply (l0, []) ops = (l, acked)"
  shows "\<exists>l' recs. il_open_log io policy max_seg now (crash_files kept (il_files l)) = (l', Inr ())
     \<and> snd (iter_from 0 now' l') = Inr recs
     \<and> (\<exists>k. recs = take k acked) \<and> (\<forall>fr \<in> set acked. fst fr \<le> il_synced l \<longrightarrow> fr \<in> set recs)
     \<and> (policy = Always \<longrightarrow> recs = acked) \<and> il_next l' = int (length recs)"
proof -
  note o = open_empty_holds [OF assms(1,2)]
  have run: "holds l acked \<and> keeps l0 l" using wal_run_holds [of l0 "[]" ops l acked] o assms(3-5) by simp
  then obtain ss s h frs d where inv: "log_inv 0 ss s h frs d l" and ack: "acked = all_frames ss @ frs"
    by (auto simp: holds_def)
  have mx: "max_seg = il_max_seg l" using run o by (simp add: keeps_def)
  obtain l' frs' k where r: "il_open_log io policy max_seg now (crash_files kept (il_files l)) = (l', Inr ())"
    "log_inv 0 ss s h frs' (length (seg_bytes (s, h, frs'))) l'" "frs' = take k frs"
    "\<forall>fr \<in> set frs. fst fr \<le> il_synced l \<longrightarrow> fr \<in> set frs'" "il_next l' = int (length (all_frames ss @ frs'))"
    using reopen_inv [OF inv mx, of io policy now kept] by blast
  have rd: "snd (iter_from 0 now' l') = Inr (all_frames ss @ frs')" using iter_from_start [OF r(2)] .
  have pre: "all_frames ss @ frs' = take (length (all_frames ss) + k) acked" by (simp add: ack r(3))
  have syn: "\<forall>fr \<in> set acked. fst fr \<le> il_synced l \<longrightarrow> fr \<in> set (all_frames ss @ frs')"
    using r(4) by (auto simp: ack)
  have "all_frames ss @ frs' = acked" if "policy = Always"
  proof -
    have sy: "il_synced l = il_next l - 1" using run o that by (simp add: keeps_def)
    have le: "fst fr \<le> il_synced l" if "fr \<in> set acked" for fr
    proof -
      have "fst fr \<in> set [0..il_next l - 1]" using inv that unfolding ack log_inv_def by (metis image_eqI set_map)
      then show ?thesis by (simp add: sy)
    qed
    have dist: "distinct acked"
      using inv unfolding ack log_inv_def by (metis distinct_map distinct_upto)
    have "set acked \<subseteq> set (all_frames ss @ frs')" using syn le by blast
    moreover have "distinct (all_frames ss @ frs')" unfolding pre using dist by simp
    ultimately have "length acked \<le> length (all_frames ss @ frs')"
      using dist by (metis card_mono distinct_card finite_set)
    then show ?thesis unfolding pre by simp
  qed
  then show ?thesis using r(1,5) rd pre syn by blast
qed


definition io_good :: io_env where
  "io_good = \<lparr>io_rotate_ok = True, io_prev_sync_ok = True, io_fault = NoFault, io_rollback_ok = True\<rparr>"

theorem acknowledged_records_survive_crash_witness:
  "let l0 = fst (il_open_log io_good Always 1000 0 []);
       st = foldl wal_apply (l0, []) [(io_good, 0, 0, 0, [1, 2, 3]), (io_good\<lparr>io_fault := FlushFault 5\<rparr>, 0, 0, 0, [4])]
   in \<exists>l' recs. il_open_log io_good Always 1000 0 (crash_files (\<lambda>_. 40) (il_files (fst st))) = (l', Inr ())
        \<and> snd (iter_from 0 0 l') = Inr recs \<and> recs = snd st \<and> il_next l' = int (length recs)"
proof -
  let ?l0 = "fst (il_open_log io_good Always 1000 0 [])"
  let ?ops = "[(io_good, 0, 0, 0, [1, 2, 3]), (io_good\<lparr>io_fault := FlushFault 5\<rparr>, 0, 0, 0, [4])] :: wal_op list"
  let ?st = "foldl wal_apply (?l0, []) ?ops"
  have ok: "list_all (op_ok Always 1000) ?ops"
    by (simp add: op_ok_def io_ok_def io_good_def MAX_FRAME_PAYLOAD_BYTES_def)
  have io: "io_rotate_ok io_good" and len: "int (length ?ops) < 2 ^ 64" by (simp_all add: io_good_def)
  have "\<exists>l' recs. il_open_log io_good Always 1000 0 (crash_files (\<lambda>_. 40) (il_files (fst ?st))) = (l', Inr ())
     \<and> snd (iter_from 0 0 l') = Inr recs
     \<and> (\<exists>k. recs = take k (snd ?st)) \<and> (\<forall>fr \<in> set (snd ?st). fst fr \<le> il_synced (fst ?st) \<longrightarrow> fr \<in> set recs)
     \<and> (Always = Always \<longrightarrow> recs = snd ?st) \<and> il_next l' = int (length recs)"
    by (rule acknowledged_records_survive_crash [OF io prod.collapse [symmetric] ok len prod.collapse [symmetric]])
  then show ?thesis unfolding Let_def by blast
qed

text \<open>C9: a corrupted byte is never accepted.  In a segment of well-formed version 2 frames let one byte
  of one frame change, in its magic, offset, timestamp, checksum or payload.  Verification then reports
  corruption, or, when the frame is the last of the file and its magic is intact, drops exactly this
  frame as torn and keeps everything before it.\<close>

theorem corrupted_byte_is_never_accepted:
  assumes "pack_segment_header s ts = Inr h" and "list_all (frame_fits max_seg) (frs @ fr # later)"
    and "protected_byte fr i" and "x \<noteq> frame_bytes fr ! i"
  shows "verify_and_repair_segment max_seg (h @ seg_body frs @ (frame_bytes fr)[i := x] @ seg_body later) =
     (if later \<noteq> [] \<or> i < 2 then Inl IngestLogCorruptError
      else Inr (Some (h @ seg_body frs), foldl max (- 1) (map fst frs), 1))"
proof -
  have lh: "length h = SEGMENT_HEADER_SIZE" using segment_header(1) [OF assms(1)] .
  have ne: "seg_body later = [] \<longleftrightarrow> later = []"
    using frame_bytes_length by (cases later) (auto simp: FRAME_HEADER_SIZE_def dest!: arg_cong [where f = length])
  have fits: "list_all (frame_fits max_seg) frs" "frame_fits max_seg fr" using assms(2) by auto
  have sc: "scan_frames max_seg LOG_VERSION (seg_body frs @ (frame_bytes fr)[i := x] @ seg_body later)
        SEGMENT_HEADER_SIZE (- 1) 0
     = (if later \<noteq> [] \<or> i < 2 then Inl IngestLogCorruptError
        else Inr (SEGMENT_HEADER_SIZE + length (seg_body frs), foldl max (- 1) (map fst frs), 1))"
    using scan_frames_all [OF fits(1), folded seg_body_def] scan_corrupted [OF fits(2) assms(3,4)] by (simp add: ne)
  have "\<not> length (h @ seg_body frs @ (frame_bytes fr)[i := x] @ seg_body later) < SEGMENT_HEADER_SIZE"
    by (simp add: lh)
  then show ?thesis
    unfolding verify_and_repair_segment_def using lh sc check_segment_header_ok [OF assms(1)] by auto
qed

theorem corrupted_byte_is_never_accepted_witness:
  "\<exists>h. pack_segment_header 0 0 = Inr h \<and>
     verify_and_repair_segment 1000 (h @ seg_body [] @ (frame_bytes (0, 0, [7, 8]))[4 := 99] @ seg_body [(1, 0, [9])])
     = Inl IngestLogCorruptError"
proof -
  obtain h where h: "pack_segment_header 0 0 = Inr h" using pack_segment_header_ok [of 0] by auto
  have "(99 :: byte) \<noteq> frame_bytes (0, 0, [7, 8]) ! 4"
    by (simp add: frame_bytes_def frame_prefix_def nth_append le_bytes_zero)
  from corrupted_byte_is_never_accepted [OF h _ _ this, of 1000 "[]" "[(1, 0, [9])]"] h show ?thesis
    by (simp add: frame_fits_def frame_ok_def MAX_FRAME_PAYLOAD_BYTES_def protected_byte_def frame_bytes_length
          FRAME_HEADER_SIZE_def)
qed

section \<open>Where durability ends\<close>

text \<open>A damaged length field discards the rest of a segment without an error.  When the four length
  bytes of a frame in the middle of a segment read as a value that runs past the end of the file but is
  within the limits, verification takes it for a torn tail: it succeeds, cuts the file at that frame and
  drops all the intact frames after it.\<close>

theorem damaged_length_drops_later_frames:
  assumes "pack_segment_header s ts = Inr h" and "list_all (frame_fits max_seg) (frs @ (off, fts, pl) # later)"
    and "length lb = 4" and "le_int (rev lb) = n"
    and "int (length pl + length (seg_body later)) < n" and "n \<le> max_seg" and "n \<le> MAX_FRAME_PAYLOAD_BYTES"
    and "damaged = take 20 (frame_bytes (off, fts, pl)) @ lb @ drop 24 (frame_bytes (off, fts, pl))"
  shows "verify_and_repair_segment max_seg (h @ seg_body frs @ damaged @ seg_body later)
     = Inr (Some (h @ seg_body frs), foldl max (- 1) (map fst frs), 1)"
proof -
  let ?m = "rev (le_bytes 2 FRAME_MAGIC)" and ?v = "rev (le_bytes 2 LOG_VERSION)" and ?o = "rev (le_bytes 8 off)"
    and ?t = "rev (le_bytes 8 (uint fts))"
  let ?c = "rev (le_bytes 4 (compute_frame_crc (frame_prefix (off, fts, pl)) pl LOG_VERSION))"
  have lh: "length h = SEGMENT_HEADER_SIZE" using segment_header(1) [OF assms(1)] .
  have fok: "frame_ok (off, fts, pl)" using assms(2) by (simp add: frame_fits_def)
  have "frame_bytes (off, fts, pl) = (?m @ ?v @ ?o @ ?t) @ rev (le_bytes 4 (int (length pl))) @ ?c @ pl"
    by (simp add: frame_bytes_def frame_prefix_parts)
  then have eq: "damaged = ?m @ ?v @ ?o @ ?t @ lb @ ?c @ pl" unfolding assms(8) by simp
  let ?hdr = "?m @ ?v @ ?o @ ?t @ lb @ ?c"
  have u: "sunpack_all BE FRAME_HEADER_FORMAT ?hdr
    = [VI FRAME_MAGIC, VI LOG_VERSION, VI (le_int (rev ?o)), VF (word_of_int (le_int (rev ?t))), VI n, VI (le_int (rev ?c))]"
    using assms(3,4) by (subst sunpack_frame_fields) (simp_all add: field_values [OF fok])
  have l: "length ?hdr = FRAME_HEADER_SIZE" using assms(3) by (simp add: FRAME_HEADER_SIZE_def)
  have n0: "0 \<le> n" using assms(5) by linarith
  have "length (pl @ seg_body later) < nat n" using assms(5) by (simp add: zless_nat_eq_int_zless)
  then have "scan_frames max_seg LOG_VERSION (?hdr @ pl @ seg_body later) pos hi 0 = Inr (pos, hi, 0 + 1)" for pos hi
    by (subst scan_header [OF l u assms(7,6) n0]) simp
  then have "scan_frames max_seg LOG_VERSION (seg_body frs @ damaged @ seg_body later) SEGMENT_HEADER_SIZE (- 1) 0
     = Inr (SEGMENT_HEADER_SIZE + length (seg_body frs), foldl max (- 1) (map fst frs), 1)"
    using scan_frames_all [of max_seg frs LOG_VERSION "damaged @ seg_body later", folded seg_body_def] assms(2)
    by (simp add: eq)
  then show ?thesis
    unfolding verify_and_repair_segment_def using lh check_segment_header_ok [OF assms(1)] by simp
qed


theorem damaged_length_drops_later_frames_witness:
  "\<exists>h. pack_segment_header 0 0 = Inr h \<and>
     verify_and_repair_segment 1000
       (h @ seg_body [] @ (take 20 (frame_bytes (0, 0, [7])) @ [0, 0, 0, 200] @ drop 24 (frame_bytes (0, 0, [7])))
        @ seg_body [(1, 0, [8])])
     = Inr (Some (h @ seg_body []), - 1, 1)"
proof -
  obtain h where h: "pack_segment_header 0 0 = Inr h" using pack_segment_header_ok [of 0] by auto
  from damaged_length_drops_later_frames [OF h, of 1000 "[]" 0 0 "[7]" "[(1, 0, [8])]" "[0, 0, 0, 200]" 200, OF _ _ _ _ _ _ refl] h
  show ?thesis
    by (simp add: frame_fits_def frame_ok_def MAX_FRAME_PAYLOAD_BYTES_def frame_bytes_length FRAME_HEADER_SIZE_def)
qed

lemma repair_all_error:
  assumes "list_all (seg_ok max_seg) ss" and "verify_and_repair_segment max_seg c = Inl e"
  shows "repair_all max_seg (map seg_full ss @ [(s, c, d)]) = Inl e"
  using assms(1)
proof (induction ss)
  case Nil
  then show ?case by (simp add: assms(2))
next
  case (Cons sg ss)
  obtain s1 h1 f1 where sg: "sg = (s1, h1, f1)" by (metis prod_cases3)
  have "seg_full sg = (s1, seg_bytes (s1, h1, f1), length (seg_bytes (s1, h1, f1)))" by (simp add: sg seg_full_def)
  moreover obtain c1 where "verify_and_repair_segment max_seg (seg_bytes (s1, h1, f1))
    = Inr (Some (seg_bytes (s1, h1, f1)), foldl max (- 1) (map fst f1), c1)"
    using repair_full [of max_seg s1 h1 f1] Cons.prems by (auto simp: sg)
  ultimately show ?case using Cons by simp
qed

lemma scan_oversized:
  assumes "frame_ok fr" and "max_seg < int (length (snd (snd fr)))"
  shows "scan_frames max_seg ver (frame_bytes fr @ rest) pos hi c = Inl IngestLogCorruptError"
proof -
  obtain off ts pl where fr: "fr = (off, ts, pl)" by (metis prod_cases3)
  have t: "take FRAME_HEADER_SIZE (frame_bytes fr @ rest) = frame_hdr (off, ts, pl)"
    by (simp add: fr frame_bytes_split)
  have ne: "frame_hdr (off, ts, pl) \<noteq> []"
    using frame_hdr_length [of "(off, ts, pl)"] by (auto simp: FRAME_HEADER_SIZE_def simp del: frame_hdr_length)
  show ?thesis
    unfolding scan_frames.simps [of _ _ "frame_bytes fr @ rest"] Let_def t frame_hdr_unpack [OF assms(1) [unfolded fr]]
      list.case sval.case
    using assms(2) ne by (simp add: fr)
qed

text \<open>An acknowledged record can make the log unopenable.  Appending a payload longer than
  \<open>max_segment_bytes\<close> (nothing checks its size) succeeds and is acknowledged, after which every attempt to
  open the directory with the same configuration fails with \<open>IngestLogCorruptError\<close>.\<close>

theorem oversized_record_bricks_log:
  assumes "holds l recs" and "il_next l < 2 ^ 64" and "length payload < 2 ^ 32"
    and "il_max_seg l < int (length payload)"
  shows "\<exists>l'. il_append io_good now rot t payload l = (l', Inr (il_next l))
     \<and> snd (il_open_log io policy (il_max_seg l) now' (il_files l')) = Inl IngestLogCorruptError"
proof -
  obtain ss s h frs d where inv: "log_inv 0 ss s h frs d l" using assms(1) by (auto simp: holds_def)
  have np: "\<not> il_poisoned l" and op: "il_open l" and n0: "0 \<le> il_next l" and sb: "0 \<le> il_seg_bytes l"
    using inv by (auto simp: log_inv_def)
  let ?fr = "(il_next l, now, payload)"
  have fok: "frame_ok ?fr" using assms n0 by (simp add: frame_ok_def)
  obtain hdr where hdr: "pack_frame_header (il_next l) now (int (length payload)) payload LOG_VERSION = Inr hdr"
    "hdr @ payload = frame_bytes ?fr" using pack_frame_header_ok [OF fok] by blast
  obtain l1 ss' h' where rt: "rotate_to_new_segment io_good (il_next l) rot l = (l1, Inr ())"
    and inv1: "log_inv 0 ss' (il_next l) h' [] SEGMENT_HEADER_SIZE l1" and mx: "il_max_seg l1 = il_max_seg l"
    using rotate_inv [OF inv, of io_good rot] assms(2) by (auto simp: io_good_def)
  let ?s = "il_next l"
  have f1: "il_files l1 = map seg_full ss' @ [(?s, h', SEGMENT_HEADER_SIZE)]" "il_cur l1 = ?s"
    and srt: "sorted_wrt (<) (map fst ss' @ [?s])" and ok: "list_all (seg_ok (il_max_seg l)) ss'"
    using inv1 mx by (auto simp: log_inv_def seg_bytes_def)
  obtain ts where h': "pack_segment_header ?s ts = Inr h'" using inv1 by (auto simp: log_inv_def seg_ok_def)
  have lh: "length h' = SEGMENT_HEADER_SIZE" using segment_header(1) [OF h'] .
  obtain l' where ap: "append_write io_good t ?s (frame_bytes ?fr) l1 = (l', Inr ?s)"
    and fl: "\<exists>d'. il_files l' = map seg_full ss' @ [(?s, h' @ frame_bytes ?fr, d')]"
  proof -
    let ?n = "int (length (frame_bytes ?fr))"
    define lf where "lf = after_flush (after_write ?n (write_bytes l1 (frame_bytes ?fr)))"
    define la where "la = lf\<lparr>il_since_fsync := il_since_fsync lf + ?n, il_next := ?s + 1, il_pending := ?s\<rparr>"
    have la: "il_files la = map seg_full ss' @ [(?s, h' @ frame_bytes ?fr, SEGMENT_HEADER_SIZE)]" "il_cur la = ?s"
      using write_files [OF f1 srt] f1(2) by (simp_all add: la_def lf_def)
    have "append_write io_good t ?s (frame_bytes ?fr) l1
        = (if fsync_due t la then fsync_append t ?s la else la, Inr ?s)"
      by (simp add: append_write_def Let_def io_good_def la_def lf_def)
    moreover have "\<exists>d'. il_files (if fsync_due t la then fsync_append t ?s la else la)
        = map seg_full ss' @ [(?s, h' @ frame_bytes ?fr, d')]"
      using la sync_files [OF la srt] by auto
    ultimately show thesis using that by blast
  qed
  have "il_max_seg l < il_seg_bytes l + int FRAME_HEADER_SIZE + int (length payload)" using assms(4) sb by simp
  then have "il_append io_good now rot t payload l = (l', Inr ?s)"
    using np op ap by (simp add: il_append_def Let_def hdr rt)
  moreover have "verify_and_repair_segment (il_max_seg l) (h' @ frame_bytes ?fr) = Inl IngestLogCorruptError"
    using lh check_segment_header_ok [OF h'] scan_oversized [OF fok, of "il_max_seg l" LOG_VERSION "[]"] assms(4)
    by (simp add: verify_and_repair_segment_def)
  then have "repair_all (il_max_seg l) (il_files l') = Inl IngestLogCorruptError"
    using fl repair_all_error [OF ok] by auto
  moreover have "sort_key fst (il_files l') = il_files l'"
  proof (rule sort_key_sorted)
    have "map fst (il_files l') = map fst ss' @ [?s]" using fl by (auto simp: seg_full_def comp_def)
    then show "sorted (map fst (il_files l'))" using srt by (simp only: strict_sorted_imp_sorted)
  qed
  moreover have "il_files l' \<noteq> []" using fl by auto
  ultimately show ?thesis
    by (simp add: il_open_log_def recover_and_open_def fresh_log_def)
qed

theorem oversized_record_bricks_log_witness:
  "\<exists>l'. il_append io_good 0 0 0 [1, 2, 3] (fst (il_open_log io_good Always 2 0 [])) = (l', Inr 0)
     \<and> snd (il_open_log io_good Always 2 0 (il_files l')) = Inl IngestLogCorruptError"
proof -
  have "holds (fst (il_open_log io_good Always 2 0 [])) []" "il_max_seg (fst (il_open_log io_good Always 2 0 [])) = 2"
    "il_next (fst (il_open_log io_good Always 2 0 [])) = 0"
    using open_empty_holds [OF _ prod.collapse [symmetric], of io_good Always 2 0] by (simp_all add: io_good_def)
  then show ?thesis
    using oversized_record_bricks_log [of "fst (il_open_log io_good Always 2 0 [])" "[]" "[1, 2, 3]"] by simp
qed

end
