(* ===== verification/Engine_Submit_Props.thy ===== *)
theory Engine_Submit_Props
  imports Engine_Submit Wal
begin

text \<open>
  Submission is all or nothing and its results are aligned with the events: a batch that fails leaves the engine state as
  it was, a batch that succeeds gives one decision per event, carrying the offsets of the log in order.
\<close>

section \<open>Offsets of decisions\<close>

definition decides_at :: "int \<Rightarrow> (ectx, engine_decision) sm \<Rightarrow> bool" where
  "decides_at off m = (\<forall>c c' d. m c = (c', Inr d) \<longrightarrow> d_offset d = off)"

lemma decides_sbind: "(\<And>x. decides_at off (f x)) \<Longrightarrow> decides_at off (sbind m f)"
  unfolding decides_at_def sbind_Inr by blast

lemma decides_slift: "(\<And>x. r = Inr x \<Longrightarrow> decides_at off (f x)) \<Longrightarrow> decides_at off (sbind (slift r) f)"
  by (auto simp: decides_at_def sbind_Inr slift_def)

lemma decides_prod: "(\<And>a b. decides_at off (f a b)) \<Longrightarrow> decides_at off (case x of (a, b) \<Rightarrow> f a b)"
  by (cases x) simp

lemma decides_sret: "d_offset d = off \<Longrightarrow> decides_at off (sthen (count_decision q) (sret d))"
  by (auto simp: decides_at_def sthen_Inr sret_def)

lemma package_offset: "package env raw pl off now recv sch ep sess v dup dis = Inr d \<Longrightarrow> d_offset d = off"
  by (auto simp: package_def bindr_Inr Let_def split: prod.split_asm if_split_asm)

lemma reject_offset: "reject env raw pl off recv i r msg = Inr d \<Longrightarrow> d_offset d = off"
  by (auto simp: reject_def rejected_def bindr_Inr)

lemma security_offset: "stage_security_envelope env raw pl off recv = Inr (Some d) \<Longrightarrow> d_offset d = off"
  by (auto simp: stage_security_envelope_def rejected_def bindr_Inr Let_def split: option.split_asm if_split_asm dest!: reject_offset)

lemma schema_offset: "stage_schema_validation env raw pl off recv = Inr (Inl d) \<Longrightarrow> d_offset d = off"
  unfolding stage_schema_validation_def Let_def
  by (auto simp: bindr_Inr split: pyval.split_asm list.split_asm if_split_asm option.split_asm dest!: reject_offset)

lemma decides_package:
  "decides_at off (sthen (count_decision q) (slift (package env raw pl off now recv sch ep sess v dup dis)))"
  by (auto simp: decides_at_def sthen_Inr slift_def dest: package_offset)

lemma decides_run_stages: "decides_at off (run_stages env b now recv raw pl off sch)"
  unfolding run_stages_def Let_def by (intro decides_prod decides_sbind decides_package)

lemma decides_step_body: "decides_at off (step_body env b now raw off)"
  unfolding step_body_def
  by (auto simp: rejected_def split: sum.split option.split intro!: decides_slift decides_sret decides_run_stages)
     (erule schema_offset, erule security_offset)

lemma step_internal_offset: "step_internal env b now raw off c = (c', Inr d) \<Longrightarrow> d_offset d = off"
  using decides_step_body unfolding step_internal_def sthen_Inr decides_at_def by blast

section \<open>The batch\<close>

lemma engine_step_effect:
  assumes "state_ok (cx_state c)" and "\<not> cx_committed c"
  obtains c' d where "engine_step env True b n1 n2 raw (Some off) c = (c', Inr d)" and "state_ok (cx_state c')" and "\<not> cx_committed c'"
    and "d_offset d = off" and "es_event_count (cx_state c') = es_event_count (cx_state c) + 1"
    and "es_observed_count (cx_state c') = es_observed_count (cx_state c)"
proof -
  obtain c' d where k: "engine_step env True b n1 n2 raw (Some off) c = (c', Inr d)" "state_ok (cx_state c')" "\<not> cx_committed c'"
    using engine_step_keeps [OF assms, of env True] by metis
  obtain c1 r where run: "step_internal env b n1 raw off c = (c1, r)" by fastforce
  have "d_offset d = off \<and> es_event_count (cx_state c') = es_event_count (cx_state c) + 1
      \<and> es_observed_count (cx_state c') = es_observed_count (cx_state c)"
  proof (cases r)
    case (Inl e)
    then show ?thesis using k(1) run step_failed_effect [OF run [unfolded Inl] assms, of True n2 "v_exc env e"]
      by (auto simp: engine_step_def Let_def after_failure_def quarantined_def rejected_def)
  next
    case (Inr d')
    then show ?thesis using k(1) run step_internal_counted [OF run [unfolded Inr]] step_internal_offset [OF run [unfolded Inr]]
      by (auto simp: engine_step_def Let_def counted_def)
  qed
  then show thesis using that k by blast
qed

lemma step_batch_effect:
  assumes "state_ok (cx_state c)" and "\<not> cx_committed c"
  shows "\<exists>c' ds. step_batch env True b (zip raws (map Some offs)) clk c = (c', Inr ds) \<and> state_ok (cx_state c') \<and> \<not> cx_committed c'
     \<and> map d_offset ds = map snd (zip raws offs)
     \<and> es_event_count (cx_state c') = es_event_count (cx_state c) + int (min (length raws) (length offs))
     \<and> es_observed_count (cx_state c') = es_observed_count (cx_state c)"
  using assms
proof (induction raws arbitrary: offs c clk)
  case Nil
  then show ?case by (simp add: sret_def)
next
  case (Cons raw raws)
  show ?case
  proof (cases offs)
    case Nil
    then show ?thesis using Cons.prems by (simp add: sret_def)
  next
    case off: (Cons off offs')
    obtain c1 d where d: "engine_step env True b (fst (hd clk)) (snd (hd clk)) raw (Some off) c = (c1, Inr d)" "state_ok (cx_state c1)"
      "\<not> cx_committed c1" "d_offset d = off" "es_event_count (cx_state c1) = es_event_count (cx_state c) + 1"
      "es_observed_count (cx_state c1) = es_observed_count (cx_state c)"
      by (rule engine_step_effect [OF Cons.prems])
    obtain c2 ds where t: "step_batch env True b (zip raws (map Some offs')) (tl clk) c1 = (c2, Inr ds)" "state_ok (cx_state c2)"
      "\<not> cx_committed c2" "map d_offset ds = map snd (zip raws offs')"
      "es_event_count (cx_state c2) = es_event_count (cx_state c1) + int (min (length raws) (length offs'))"
      "es_observed_count (cx_state c2) = es_observed_count (cx_state c1)"
      using Cons.IH [OF d(2,3)] by blast
    then show ?thesis using d off by (simp add: sbind_def sret_def)
  qed
qed

section \<open>Admission\<close>

lemma observe_effect:
  "journal_rel (fst a) (fst (observe a))"
  "cx_state (fst (observe a)) = (cx_state (fst a))\<lparr>es_observed_count := es_observed_count (cx_state (fst a)) + 1\<rparr>"
  "cx_gaps (fst (observe a)) = cx_gaps (fst a)"
proof -
  obtain c ro rj where a: "a = (c, ro, rj)" by (cases a)
  have "undoes (record_event_count (cx_state c)) ((cx_state c)\<lparr>es_observed_count := es_observed_count (cx_state c) + 1\<rparr>) (cx_state c)"
    unfolding undoes_def by (rule exI [of _ "es_sequence_stale_seen (cx_state c)"]) (simp add: record_event_count_def)
  then show "journal_rel (fst a) (fst (observe a))"
    by (auto simp: a observe_def journal_rel_def state_ok_def)
qed (simp_all add: observe_def split: prod.split)

lemma admit_fst: "fst (fst (admit env sb off now raw a)) = fst (observe a)"
  by (simp add: admit_def Let_def split: prod.split sum.split)

lemma admit_all_effect:
  "admit_all env sb base k clk raws a = (a', r) \<Longrightarrow>
     journal_rel (fst a) (fst a') \<and> (\<exists>n. cx_state (fst a') = (cx_state (fst a))\<lparr>es_observed_count := n\<rparr>)
     \<and> (\<forall>xs. r = Inr xs \<longrightarrow> length xs = length raws
          \<and> es_observed_count (cx_state (fst a')) = es_observed_count (cx_state (fst a)) + int (length raws))"
proof (induction raws arbitrary: k clk a a' r)
  case Nil
  then show ?case by (auto simp: jr.R_refl intro!: exI [of _ "es_observed_count (cx_state (fst a))"])
next
  case (Cons raw raws)
  obtain a1 r1 where 1: "admit env sb (base + k) (hd clk) raw a = (a1, r1)" by fastforce
  have f: "fst a1 = fst (observe a)" using admit_fst [of env sb "base + k" "hd clk" raw a] 1 by simp
  note o = observe_effect [of a, folded f]
  show ?case
  proof (cases r1)
    case (Inl e)
    then show ?thesis using Cons.prems 1 o by auto
  next
    case (Inr x)
    let ?k = "k + (case x of Inl _ \<Rightarrow> 0 | Inr _ \<Rightarrow> 1)"
    obtain a2 r2 where 2: "admit_all env sb base ?k (tl clk) raws a1 = (a2, r2)" by fastforce
    have "a' = a2" "r = (case r2 of Inl e \<Rightarrow> Inl e | Inr xs \<Rightarrow> Inr (x # xs))"
      using Cons.prems 1 2 Inr by (auto split: sum.split_asm)
    then show ?thesis using Cons.IH [OF 2] o jr.R_trans [OF o(1)] by (cases r2) auto
  qed
qed

definition rejects_unplaced :: "engine_decision + raw_event \<Rightarrow> bool" where
  "rejects_unplaced x = (case x of Inl d \<Rightarrow> d_offset d = - 1 | Inr _ \<Rightarrow> True)"

lemma admit_unplaced: "admit env sb off now raw a = (a', Inr x) \<Longrightarrow> rejects_unplaced x"
  by (auto simp: admit_def Let_def rejects_unplaced_def reject_raw_def rejected_def
      split: prod.split_asm sum.split_asm if_split_asm)

lemma admit_all_unplaced: "admit_all env sb base k clk raws a = (a', Inr xs) \<Longrightarrow> list_all rejects_unplaced xs"
proof (induction raws arbitrary: k clk a xs)
  case (Cons raw raws)
  then show ?case by (auto split: prod.split_asm sum.split_asm dest: admit_unplaced)
qed simp

lemma place_length: "length ds = length (accepted xs) \<Longrightarrow> length (place xs ds) = length xs"
  by (induction xs ds rule: place.induct) auto

lemma place_offsets:
  "length ds = length (accepted xs) \<Longrightarrow> list_all rejects_unplaced xs \<Longrightarrow> list_all (\<lambda>d. 0 \<le> d_offset d) ds \<Longrightarrow>
   filter (\<lambda>n. 0 \<le> n) (map d_offset (place xs ds)) = map d_offset ds"
  by (induction xs ds rule: place.induct) (auto simp: rejects_unplaced_def)

section \<open>Rollback of a batch\<close>

lemma undo_all:
  assumes "journal_rel (fst (open_submit eg)) (fst a)" and "state_ok (eg_state eg)"
    and "cx_state (fst a) = (eg_state eg)\<lparr>es_observed_count := n\<rparr>"
  obtains c where "rollback_to 0 (fst a) = (c, Inr ())" and "cx_state c = eg_state eg" and "cx_gaps c = cx_gaps (fst a)"
proof -
  obtain as x where j: "cx_actions (fst a) = as" "\<not> cx_committed (fst a)"
    and u: "undo_list (rev as) (cx_state (fst a)) = Inr ((eg_state eg)\<lparr>es_sequence_stale_seen := x\<rparr>)"
    using assms(1,2) by (auto simp: journal_rel_def undoes_def open_submit_def)
  have "x = es_sequence_stale_seen (eg_state eg)" using undo_list_keeps_stale [OF u] assms(3) by simp
  then show thesis using that u j by (simp add: rollback_to_def)
qed

lemma abort_restores:
  assumes "journal_rel (fst (open_submit eg)) (fst a)" and "state_ok (eg_state eg)"
    and "cx_state (fst a) = (eg_state eg)\<lparr>es_observed_count := n\<rparr>"
    and "abort_submit eg a lg e = (eg', r)"
  shows "r = Inl e \<and> eg_state eg' = eg_state eg \<and> eg_log eg' = lg"
proof -
  obtain c ro rj where a: "a = (c, ro, rj)" by (cases a)
  obtain c' where "rollback_to 0 c = (c', Inr ())" "cx_state c' = eg_state eg"
    by (rule undo_all [OF assms(1-3)]) (simp add: a)
  then show ?thesis using assms(4) by (auto simp: a abort_submit_def close_submit_def)
qed

section \<open>The log of \<open>ingestlog.py\<close> as the engine's log\<close>

text \<open>The clock readings and I/O outcome of one \<open>append_batch\<close>, and the serialisation of an event to a record.\<close>

fun serialise_all :: "(raw_event \<Rightarrow> bytes res) \<Rightarrow> raw_event list \<Rightarrow> bytes list res" where
  "serialise_all ser [] = Inr []"
| "serialise_all ser (raw # raws) = bindr (ser raw) (\<lambda>p. bindr (serialise_all ser raws) (\<lambda>ps. Inr (p # ps)))"

definition wal_append ::
    "(raw_event \<Rightarrow> bytes res) \<Rightarrow> io_env \<Rightarrow> f64 \<Rightarrow> f64 \<Rightarrow> f64 \<Rightarrow> raw_event list \<Rightarrow> ingest_log \<Rightarrow> ingest_log \<times> int list res" where
  "wal_append ser io now rot_ts now_ts raws l =
     (if raws = [] then (l, Inr [])
      else if il_poisoned l then (l, Inl IngestLogPoisonedError)
      else case serialise_all ser raws of
             Inl e \<Rightarrow> (l, Inl e)
           | Inr ps \<Rightarrow> append_batch io now rot_ts now_ts ps l)"

definition wal_ops :: "(raw_event \<Rightarrow> bytes res) \<Rightarrow> io_env \<Rightarrow> f64 \<Rightarrow> f64 \<Rightarrow> f64 \<Rightarrow> ingest_log log_ops" where
  "wal_ops ser io now rot_ts now_ts =
     \<lparr>lo_next_offset = il_next, lo_append_batch = wal_append ser io now rot_ts now_ts, lo_synced_offset = il_synced,
      lo_policy_never = (\<lambda>l. il_policy l = Never)\<rparr>"

lemma il_next_file [simp]:
  "il_next (set_cur_file l f) = il_next l" "il_next (sync_cur l) = il_next l" "il_next (write_bytes l bs) = il_next l"
  "il_next (after_write n l) = il_next l" "il_next (after_flush l) = il_next l" "il_next (rollback io w l) = il_next l"
  "il_next (fsync_batch t n' l) = il_next l"
  by (simp_all add: set_cur_file_def sync_cur_def write_bytes_def after_write_def after_flush_def rollback_def fsync_batch_def)

lemma il_next_rotate: "rotate_to_new_segment io off t l = (l', r) \<Longrightarrow> il_next l' = il_next l"
  by (auto simp: rotate_to_new_segment_def Let_def split: sum.split_asm if_split_asm)

lemma il_next_batch_write:
  "batch_write io t off n buf l = (l', Inr offs) \<Longrightarrow> il_next l' = off + n \<and> offs = [off..off + n - 1]"
  "batch_write io t off n buf l = (l', Inl e) \<Longrightarrow> il_next l' = il_next l"
  by (auto simp: batch_write_def Let_def split: io_fault.split_asm if_split_asm)

lemma append_batch_next:
  "append_batch io now rot t ps l = (l', Inr offs) \<Longrightarrow> il_next l' = il_next l + int (length ps) \<and> offs = [il_next l..il_next l' - 1]"
  "append_batch io now rot t ps l = (l', Inl e) \<Longrightarrow> il_next l' = il_next l"
  by (auto simp: append_batch_def Let_def split: if_split_asm prod.split_asm sum.split_asm
      dest!: il_next_rotate il_next_batch_write)

lemma serialise_length: "serialise_all f xs = Inr ys \<Longrightarrow> length ys = length xs"
  by (induction xs arbitrary: ys) (auto simp: bindr_Inr)

interpretation wal: batch_log il_next "wal_append ser io now rot_ts now_ts"
proof
  show "offs = [il_next l..il_next l + int (length ps) - 1] \<and> il_next l' = il_next l + int (length ps)"
    if "wal_append ser io now rot_ts now_ts ps l = (l', Inr offs)" for ps l l' offs
    using that by (auto simp: wal_append_def split: if_split_asm sum.split_asm dest!: append_batch_next serialise_length)
  show "il_next l' = il_next l" if "wal_append ser io now rot_ts now_ts ps l = (l', Inl e)" for ps l l' e
    using that by (auto simp: wal_append_def split: if_split_asm sum.split_asm dest!: append_batch_next)
qed

text \<open>The append succeeds when the file system does and the offsets and records are in range.\<close>

lemma pack_batch_ok:
  "0 \<le> off \<Longrightarrow> off + int (length ps) \<le> 2 ^ 64 \<Longrightarrow> list_all (\<lambda>p. length p < 2 ^ 32) ps \<Longrightarrow> \<exists>buf. pack_batch off now ps = Inr buf"
proof (induction ps arbitrary: off)
  case (Cons p ps)
  have "frame_ok (off, now, p)" using Cons.prems by (simp add: frame_ok_def)
  from pack_frame_header_ok [OF this] Cons.IH [of "off + 1"] Cons.prems show ?case by (auto simp: bindr_def)
qed simp

lemma append_batch_succeeds:
  assumes "\<not> il_poisoned l" and "io_rotate_ok io" and "io_fault io = NoFault"
    and "0 \<le> il_next l" and "il_next l + int (length ps) < 2 ^ 64" and "list_all (\<lambda>p. length p < 2 ^ 32) ps"
  shows "\<exists>l' offs. append_batch io now rot t ps l = (l', Inr offs)"
proof -
  obtain buf where "pack_batch (il_next l) now ps = Inr buf" using pack_batch_ok [of "il_next l" ps now] assms by auto
  moreover obtain h where "pack_segment_header (il_next l) rot = Inr h"
    using pack_segment_header_ok [of "il_next l" rot] assms by auto
  ultimately show ?thesis using assms by (auto simp: append_batch_def Let_def rotate_to_new_segment_def batch_write_def)
qed

lemma serialise_const: "serialise_all (\<lambda>_. Inr p) raws = Inr (map (\<lambda>_. p) raws)"
  by (induction raws) auto

lemma accepted_length: "length (accepted xs) \<le> length xs"
  by (induction xs rule: accepted.induct) auto

section \<open>Submission is all or nothing\<close>

definition batch_ok :: "ingest_log engine \<Rightarrow> ingest_log \<Rightarrow> nat \<Rightarrow> ingest_log engine \<Rightarrow> engine_decision list \<Rightarrow> bool" where
  "batch_ok eg l n eg' ds =
     (length ds = n \<and> state_ok (eg_state eg')
      \<and> es_observed_count (eg_state eg') = es_observed_count (eg_state eg) + int n
      \<and> (\<exists>l' m. eg_log eg' = Some l' \<and> es_event_count (eg_state eg') = es_event_count (eg_state eg) + int m
           \<and> filter (\<lambda>k. 0 \<le> k) (map d_offset ds) = [il_next l..il_next l + int m - 1] \<and> il_next l' = il_next l + int m
           \<and> list_all (\<lambda>d. d_durable d \<longrightarrow> d_offset d \<le> max (- 1) (il_synced l')) ds))"

lemma log_append_next:
  assumes "log_append (wal_ops ser io t1 t2 t3) (Some l) s raws = (lg, r)"
  shows "\<exists>l'. lg = Some l' \<and> (case r of Inl e \<Rightarrow> il_next l' = il_next l
     | Inr offs \<Rightarrow> offs = [il_next l..il_next l + int (length raws) - 1] \<and> il_next l' = il_next l + int (length raws))"
  using assms
  by (auto simp: log_append_def wal_ops_def split: if_split_asm prod.split_asm sum.split dest!: wal.append_ok wal.append_failed)

lemma durable_synced:
  "list_all (\<lambda>d. d_durable d \<longrightarrow> d_offset d \<le> max (- 1) (il_synced l))
     (map (set_durable (wal_ops ser io t1 t2 t3) (Some l)) ds)"
  by (auto simp: list_all_iff set_durable_def wal_ops_def)

lemma submit_committed:
  assumes adm: "admit_all env sb base 0 clk raws (open_submit eg) = (a, Inr xs)" and ok: "state_ok (eg_state eg)"
    and app: "log_append (wal_ops ser io t1 t2 t3) (Some l) s (accepted xs) = (lg, Inr offs)" and "0 \<le> il_next l"
  shows "\<exists>c ds. step_batch env True False (zip (accepted xs) (map Some offs)) clk2 (fst a) = (c, Inr ds)
     \<and> batch_ok eg l (length raws) (close_submit eg (txn_commit c, snd a) lg)
          (map (set_durable (wal_ops ser io t1 t2 t3) lg) (place xs ds))"
proof -
  note e = admit_all_effect [OF adm]
  have s: "state_ok (cx_state (fst a))" "\<not> cx_committed (fst a)" "es_event_count (cx_state (fst a)) = es_event_count (eg_state eg)"
    using e ok by (auto simp: journal_rel_def open_submit_def)
  obtain l' where l': "lg = Some l'" "offs = [il_next l..il_next l + int (length (accepted xs)) - 1]"
      "il_next l' = il_next l + int (length (accepted xs))"
    using log_append_next [OF app] by auto
  obtain c ds where c: "step_batch env True False (zip (accepted xs) (map Some offs)) clk2 (fst a) = (c, Inr ds)" "state_ok (cx_state c)"
      "map d_offset ds = map snd (zip (accepted xs) offs)"
      "es_event_count (cx_state c) = es_event_count (cx_state (fst a)) + int (min (length (accepted xs)) (length offs))"
      "es_observed_count (cx_state c) = es_observed_count (cx_state (fst a))"
    using step_batch_effect [OF s(1,2), of env False "accepted xs" offs clk2] by blast
  have offs: "map d_offset ds = offs" using c(3) l'(2) by simp
  have n: "length ds = length (accepted xs)" using arg_cong [OF offs, of length] l'(2) by simp
  have "list_all (\<lambda>k. 0 \<le> k) (map d_offset ds)" unfolding offs l'(2) using assms(4) by (auto simp: list_all_iff)
  then have pos: "list_all (\<lambda>d. 0 \<le> d_offset d) ds" by (simp add: list.pred_map comp_def)
  note p = place_offsets [OF n admit_all_unplaced [OF adm] pos] place_length [OF n]
  have "map d_offset (map (set_durable (wal_ops ser io t1 t2 t3) lg) (place xs ds)) = map d_offset (place xs ds)"
    by (simp add: set_durable_def)
  then have f: "filter (\<lambda>k. 0 \<le> k) (map d_offset (map (set_durable (wal_ops ser io t1 t2 t3) lg) (place xs ds))) = offs"
    by (simp only: p(1) offs)
  have "batch_ok eg l (length raws) (close_submit eg (txn_commit c, snd a) lg)
          (map (set_durable (wal_ops ser io t1 t2 t3) lg) (place xs ds))"
    unfolding batch_ok_def f
    using c(2,4,5) e s(3) l' p(2) durable_synced [of l' ser io t1 t2 t3 "place xs ds"]
    by (cases a) (auto simp: close_submit_def txn_commit_def open_submit_def)
  then show ?thesis using c(1) by blast
qed

text \<open>
  C2: \<open>submit\<close> on a non-empty batch with a write-ahead log attached.  When it raises, the engine state is exactly what it
  was and the log hands out the same next offset.  Otherwise every event has a decision, in order; the accepted ones
  carry consecutive offsets starting at the log's next offset, the event count and the next offset advance by their
  number, the observed count by the size of the batch, and a decision reported durable is one whose offset the log has synced.
\<close>

theorem submit_is_all_or_nothing:
  assumes "state_ok (eg_state eg)" and "eg_log eg = Some l" and "0 \<le> il_next l" and "raws \<noteq> []"
    and "submit env sb (wal_ops ser io t1 t2 t3) clk clk2 raws eg = (eg', r)"
  shows "case r of
           Inl e \<Rightarrow> eg_state eg' = eg_state eg \<and> map_option il_next (eg_log eg') = Some (il_next l)
         | Inr ds \<Rightarrow> batch_ok eg l (length raws) eg' ds"
proof -
  let ?ops = "wal_ops ser io t1 t2 t3"
  obtain a r1 where adm: "admit_all env sb (il_next l) 0 clk raws (open_submit eg) = (a, r1)" by fastforce
  obtain n where a: "journal_rel (fst (open_submit eg)) (fst a)" "cx_state (fst a) = (eg_state eg)\<lparr>es_observed_count := n\<rparr>"
    using admit_all_effect [OF adm] by (auto simp: open_submit_def)
  note sub = assms(5) [unfolded submit_def Let_def, simplified assms(2,4), simplified]
  have base: "lo_next_offset ?ops l = il_next l" by (simp add: wal_ops_def)
  show ?thesis
  proof (cases r1)
    case (Inl e)
    then have "abort_submit eg a (Some l) e = (eg', r)" using sub adm base by simp
    from abort_restores [OF a(1) assms(1) a(2) this] show ?thesis by simp
  next
    case (Inr xs)
    obtain lg r2 where app: "log_append ?ops (Some l) (cx_state (fst a)) (accepted xs) = (lg, r2)" by fastforce
    show ?thesis
    proof (cases r2)
      case (Inl e)
      then have "abort_submit eg a lg e = (eg', r)" using sub adm base Inr app by simp
      from abort_restores [OF a(1) assms(1) a(2) this] log_append_next [OF app] Inl show ?thesis by auto
    next
      case offs: (Inr offs)
      show ?thesis
        using submit_committed [OF adm [unfolded Inr] assms(1) app [unfolded offs] assms(3), of clk2] sub adm base Inr app offs by auto
    qed
  qed
qed

end
