(* ===== verification/Engine_Limits.thy ===== *)
theory Engine_Limits
  imports Engine_Poison Engine_Submit_Props
begin

text \<open>
  Concrete runs of the fold: instances of its properties, and two limits of what \<open>step\<close> and \<open>replay\<close> promise.  The
  environment prints nothing of interest and cannot serialise a payload with the key \<open>bad\<close>.
\<close>

fun nsum :: "pynum list \<Rightarrow> pynum \<Rightarrow> pynum res" where
  "nsum [] t = Inr t"
| "nsum (x # xs) t = bindr (nadd t x) (nsum xs)"

definition demo_env :: engine_env where
  "demo_env =
     \<lparr>v_str = (\<lambda>v. case v of PStr s \<Rightarrow> s | _ \<Rightarrow> ''?''), v_repr = (\<lambda>_. ''?''), v_str_dict = (\<lambda>_. ''{}''),
      v_json = (\<lambda>pl. if din ''bad'' pl then Inl TypeError else Inr ''{}''), v_json_list = concat, v_json_str = id,
      v_sum = (\<lambda>xs. nsum xs (NI 0)), v_exc = (\<lambda>_. ''TypeError''), v_security = None, v_session_policy = ''strict''\<rparr>"

definition demo_ts :: f64 where "demo_ts = 0x41D9000000000000"
definition F_100 :: f64 where "F_100 = 0x4059000000000000"
definition F_99 :: f64 where "F_99 = 0x4058C00000000000"

definition demo_raw :: "payload \<Rightarrow> raw_event" where
  "demo_raw pl = \<lparr>re_source = ''F'', re_payload = Inr pl, re_receive_timestamp = demo_ts, re_raw_id = [], re_session_id = None\<rparr>"

definition quote_payload :: "int \<Rightarrow> payload" where
  "quote_payload q =
     [(''instrument'', PStr ''A''), (''event_type'', PStr ''QUOTE''), (''sequence'', PNum (NI q)),
      (''bid'', PNum (NF F_100)), (''exchange_ts'', PNum (NF demo_ts))]"

definition good_quote :: "int \<Rightarrow> raw_event" where
  "good_quote q = demo_raw (quote_payload q)"

text \<open>A crossed quote, hence quarantined, whose payload cannot be serialised.\<close>

definition bad_quote :: "int \<Rightarrow> raw_event" where
  "bad_quote q = demo_raw (quote_payload q @ [(''ask'', PNum (NF F_99)), (''bad'', PNone)])"

definition demo_ctx :: "gap_manager option \<Rightarrow> ectx" where
  "demo_ctx g = \<lparr>cx_state = create_initial_state 0x3FA999999999999A, cx_actions = [], cx_committed = False, cx_gaps = g\<rparr>"

definition demo_clk :: "(f64 \<times> f64) list" where
  "demo_clk = [(demo_ts, demo_ts), (demo_ts, demo_ts), (demo_ts, demo_ts)]"

definition statuses :: "ectx \<times> engine_decision list res \<Rightarrow> (quality_status \<times> reason list) list" where
  "statuses x = (case snd x of Inl _ \<Rightarrow> [] | Inr ds \<Rightarrow> map (\<lambda>d. (d_quality_status d, d_reasons d)) ds)"

text \<open>The numbers 1 and 2 to the power 520: the squared deviations of 1, 2 to the 520 and 1 overflow.\<close>

definition F_1 :: f64 where "F_1 = 0x3FF0000000000000"
definition F_2_520 :: f64 where "F_2_520 = 0x6070000000000000"

definition trade_payload :: "int \<Rightarrow> f64 \<Rightarrow> payload" where
  "trade_payload q px =
     [(''instrument'', PStr ''A''), (''event_type'', PStr ''TRADE''), (''sequence'', PNum (NI q)),
      (''price'', PNum (NF px)), (''exchange_ts'', PNum (NF demo_ts))]"

definition demo_trade :: "int \<Rightarrow> f64 \<Rightarrow> raw_event" where
  "demo_trade q px = demo_raw (trade_payload q px)"

lemma demo_stats_overflow: "fresh_stats demo_env [NF F_1, NF F_2_520, NF F_1] 3 = Inl OverflowError"
proof -
  have "v_sum demo_env [NF F_1, NF F_2_520, NF F_1] = Inr (NF F_2_520)" by code_simp
  moreover have "ndiv (NF F_2_520) (NI 3) = Inr (NF 0x6055555555555555)" by code_simp
  moreover have "nsub (NF F_1) (NF 0x6055555555555555) = Inr (NF 0xE055555555555555)" by code_simp
  moreover have "fsquare 0xE055555555555555 = Inl OverflowError"
    by (rule fsquare_overflow)
       (simp_all add: f_isfinite_def f_val_def f_mag_def mag_val_def f_sign_def inf_mag_def F_OVERFLOW_def pow2_def)
  ultimately show ?thesis by (simp add: fresh_stats_def nsquare_def)
qed

text \<open>The context after two trades, at these two prices, both valid.\<close>

definition poison_run :: "ectx \<times> engine_decision list res" where
  "poison_run = live_run demo_env (live_batches [([(0, demo_trade 1 F_1), (1, demo_trade 2 F_2_520)], demo_clk)]) (demo_ctx None)"

definition poison_view ::
    "ectx \<times> engine_decision list res \<Rightarrow> (quality_status \<times> reason list) list \<times> pynum list option \<times> bool \<times> int option \<times> string option" where
  "poison_view r =
     (statuses r, es_price_windows (cx_state (fst r)) ''F:A'', es_price_stats (cx_state (fst r)) ''F:A'' = None,
      es_epoch_state (cx_state (fst r)) ''F:A'', es_session_state (cx_state (fst r)) ''F:A'')"

lemma poison_facts: "poison_view poison_run = ([(VALID, []), (VALID, [])], Some [NF F_1, NF F_2_520], True, None, None)"
  by code_simp

lemma demo_ok: "state_ok (create_initial_state t)"
proof -
  have "es_counts (create_initial_state t) q \<noteq> None" for q by (cases q) (simp_all add: create_initial_state_def)
  then show ?thesis by (simp add: state_ok_def) (simp add: create_initial_state_def DEFAULT_DEDUP_WINDOW_SIZE_def)
qed

lemma poison_ok: "state_ok (cx_state (fst poison_run))"
proof -
  let ?b = "[([(0, demo_trade 1 F_1), (1, demo_trade 2 F_2_520)], demo_clk)]"
  have st: "all_stamped [(0, demo_trade 1 F_1), (1, demo_trade 2 F_2_520)]"
    by (simp add: all_stamped_def demo_trade_def demo_raw_def demo_ts_def f_mag_def)
  have s: "sim (fresh_txn (demo_ctx None)) (demo_ctx None)" by (auto simp: sim_def demo_ctx_def fresh_txn_def intro!: exI [of _ "0 :: int"])
       (simp add: create_initial_state_def)
  have "state_ok (cx_state (fresh_txn (demo_ctx None)))" "\<not> cx_committed (fresh_txn (demo_ctx None))"
    by (simp_all add: demo_ctx_def fresh_txn_def demo_ok)
  from replay_batch [OF s this st, of demo_env demo_clk "[]"] show ?thesis
    by (auto simp: poison_run_def live_batches_def sthen_def sbind_def smod_def sret_def)
qed

lemma demo_fields [simp]:
  "es_event_count (cx_state (demo_ctx g)) = 0" "es_last_applied_offset (cx_state (demo_ctx g)) = -1"
  "es_sequence_state (cx_state (demo_ctx g)) = Map.empty" "counts_total (cx_state (demo_ctx g)) = 0"
  "state_ok (cx_state (demo_ctx g))" "\<not> cx_committed (demo_ctx g)" "cx_gaps (demo_ctx g) = g"
  by (simp_all add: demo_ctx_def demo_ok) (simp_all add: create_initial_state_def counts_total_def)

section \<open>Instances\<close>

theorem every_event_is_counted_once_witness:
  "\<exists>c' d. engine_step demo_env True False demo_ts demo_ts (bad_quote 1) (Some 7) (demo_ctx None) = (c', Inr d)
     \<and> es_event_count (cx_state c') = 1 \<and> counts_total (cx_state c') = 1"
  using every_event_is_counted_once [of "demo_ctx None" demo_env True False demo_ts demo_ts "bad_quote 1" "Some 7"] by auto

theorem failed_step_is_rolled_back_witness:
  "\<exists>c' d. engine_step demo_env True False demo_ts demo_ts (bad_quote 1) (Some 7) (demo_ctx None) = (c', Inr d)
     \<and> d_quality_status d = INVALID \<and> es_event_count (cx_state c') = 1 \<and> es_last_applied_offset (cx_state c') = -1
     \<and> es_sequence_state (cx_state c') = Map.empty"
proof -
  have "snd (step_internal demo_env False demo_ts (bad_quote 1) 7 (demo_ctx None)) = Inl TypeError" by code_simp
  then obtain c1 where c1: "step_internal demo_env False demo_ts (bad_quote 1) 7 (demo_ctx None) = (c1, Inl TypeError)"
    by (metis prod.collapse)
  show ?thesis
    using failed_step_is_rolled_back [OF c1, of True demo_ts] by (simp add: after_failure_def quarantined_def rejected_def Let_def)
qed

theorem replay_reproduces_live_state_witness:
  "\<exists>d ds e es n. live_run demo_env (live_batches [([(0, good_quote 1), (1, bad_quote 2)], demo_clk), ([(2, good_quote 3)], demo_clk)]) (demo_ctx None)
       = (d, Inr ds)
     \<and> replay_loop demo_env [(0, good_quote 1), (1, bad_quote 2), (2, good_quote 3)] [] (demo_ctx None) = (e, Inr es)
     \<and> cx_state e = (cx_state d)\<lparr>es_observed_count := n\<rparr> \<and> list_all2 same_verdict ds es"
  using replay_reproduces_live_state [of "[([(0, good_quote 1), (1, bad_quote 2)], demo_clk), ([(2, good_quote 3)], demo_clk)]"
      "cx_state (demo_ctx None)" "demo_ctx None" "demo_ctx None" demo_env "[]"]
  by (simp add: all_stamped_def good_quote_def bad_quote_def demo_raw_def demo_ts_def f_mag_def)

theorem overflow_poisons_price_slot_witness:
  "\<exists>c' d. engine_step demo_env True False demo_ts demo_ts (demo_trade 3 F_1) (Some 2) (fresh_txn (fst poison_run)) = (c', Inr d)
     \<and> d_quality_status d = INVALID \<and> es_price_windows (cx_state c') ''F:A'' = Some [NF F_1, NF F_2_520]"
proof -
  let ?c = "fresh_txn (fst poison_run)" and ?raw = "demo_trade 3 F_1" and ?pl = "trade_payload 3 F_1"
  have f: "es_price_windows (cx_state ?c) ''F:A'' = Some [NF F_1, NF F_2_520]" "es_price_stats (cx_state ?c) ''F:A'' = None"
    "es_epoch_state (cx_state ?c) ''F:A'' = None" "es_session_state (cx_state ?c) ''F:A'' = None"
    using poison_facts by (simp_all add: poison_view_def fresh_txn_def)
  have p: "re_payload ?raw = Inr ?pl" "stream_key_of ?raw ''A'' = ''F:A''" by (simp_all add: demo_trade_def demo_raw_def stream_key_of_def)
  have sec: "stage_security_envelope demo_env ?raw ?pl 2 (recv_of ?raw demo_ts) = Inr None"
    by (simp add: stage_security_envelope_def demo_env_def)
  have sch: "stage_schema_validation demo_env ?raw ?pl 2 (recv_of ?raw demo_ts) = Inr (Inr (''A'', ''TRADE'', Some 3, demo_ts))" by code_simp
  have px: "num_of (pget ?pl ''price'') = Some (NF F_1)" by code_simp
  have ep: "\<not> epoch_reset_triggered demo_env (cx_state ?c) ?pl (stream_key_of ?raw ''A'') (new_session_id demo_env ?raw ?pl) (Some 3) demo_ts"
    unfolding p(2) epoch_reset_triggered_def f by (simp add: demo_env_def)
  have slot: "''F:A'' = slot_key_of (stream_key_of ?raw ''A'')
      (case es_epoch_state (cx_state ?c) (stream_key_of ?raw ''A'') of None \<Rightarrow> 0 | Some e \<Rightarrow> e)"
    unfolding p(2) f by (simp add: slot_key_of_def)
  have ok: "state_ok (cx_state ?c)" "\<not> cx_committed ?c" using poison_ok by (simp_all add: fresh_txn_def)
  from overflow_poisons_price_slot [OF p(1) sec sch px ep slot f(1,2) demo_stats_overflow ok, of True False demo_ts]
  show ?thesis by blast
qed

definition demo_sb :: submit_cfg where
  "demo_sb = \<lparr>sb_size = (\<lambda>raw. Inr (if re_raw_id raw = ''big'' then 100 else 10)), sb_max = 20, sb_json_error = id,
     sb_json_oversize = (\<lambda>n raw. ''{}'')\<rparr>"

definition demo_log :: ingest_log where
  "demo_log = fresh_log Always 1000000 0 []"

definition demo_engine :: "ingest_log engine" where
  "demo_engine = \<lparr>eg_state = cx_state (demo_ctx None), eg_gaps = None, eg_observed_raw_count = 0, eg_rejected_count = 0,
     eg_log = Some demo_log\<rparr>"

definition demo_ops :: "ingest_log log_ops" where
  "demo_ops = wal_ops (\<lambda>_. Inr [1, 2, 3])
     \<lparr>io_rotate_ok = True, io_prev_sync_ok = True, io_fault = NoFault, io_rollback_ok = True\<rparr> 0 0 0"

definition demo_batch :: "raw_event list" where
  "demo_batch = [good_quote 1, (good_quote 2)\<lparr>re_raw_id := ''big''\<rparr>, bad_quote 3]"

lemma demo_admitted:
  "\<exists>a xs. admit_all demo_env demo_sb 0 0 [0, 0, 0] demo_batch (open_submit demo_engine) = (a, Inr xs) \<and> length (accepted xs) \<le> 3"
proof -
  let ?adm = "admit_all demo_env demo_sb 0 0 [0, 0, 0] demo_batch (open_submit demo_engine)"
  have "isl (snd ?adm) = False"
    by (simp add: demo_batch_def admit_def demo_sb_def Let_def split: prod.split)
  then obtain a xs where adm: "?adm = (a, Inr xs)" by (cases ?adm; cases "snd ?adm") auto
  have "length xs = length demo_batch" using admit_all_effect [OF adm] by blast
  then have "length (accepted xs) \<le> 3" using accepted_length [of xs] by (simp add: demo_batch_def)
  then show ?thesis using adm by blast
qed

lemma demo_appended:
  assumes "length raws \<le> 3" shows "\<exists>lg offs. log_append demo_ops (Some demo_log) s raws = (lg, Inr offs)"
proof -
  let ?io = "\<lparr>io_rotate_ok = True, io_prev_sync_ok = True, io_fault = NoFault, io_rollback_ok = True\<rparr>"
  have p: "\<not> il_poisoned demo_log" "0 \<le> il_next demo_log" "il_next demo_log + int (length (map (\<lambda>_. [1, 2, 3 :: byte]) raws)) < 2 ^ 64"
    "list_all (\<lambda>p. length p < 2 ^ 32) (map (\<lambda>_. [1, 2, 3 :: byte]) raws)"
    using assms by (simp_all add: demo_log_def fresh_log_def list_all_iff)
  obtain l offs where "append_batch ?io 0 0 0 (map (\<lambda>_. [1, 2, 3]) raws) demo_log = (l, Inr offs)"
    using append_batch_succeeds [of demo_log ?io, OF p(1) _ _ p(2-4), of 0 0 0] by auto
  then show ?thesis using p(1) by (auto simp: log_append_def demo_ops_def wal_ops_def wal_append_def serialise_const)
qed

theorem submit_is_all_or_nothing_witness:
  "\<exists>eg' ds. submit demo_env demo_sb demo_ops [0, 0, 0] demo_clk demo_batch demo_engine = (eg', Inr ds)
     \<and> batch_ok demo_engine demo_log 3 eg' ds"
proof -
  have h: "state_ok (eg_state demo_engine)" "eg_log demo_engine = Some demo_log" "0 \<le> il_next demo_log" "demo_batch \<noteq> []"
    by (simp_all add: demo_engine_def demo_log_def fresh_log_def demo_batch_def)
  obtain a xs where adm: "admit_all demo_env demo_sb 0 0 [0, 0, 0] demo_batch (open_submit demo_engine) = (a, Inr xs)"
    and n: "length (accepted xs) \<le> 3" using demo_admitted by blast
  obtain lg offs where app: "log_append demo_ops (Some demo_log) (cx_state (fst a)) (accepted xs) = (lg, Inr offs)"
    using demo_appended [OF n] by blast
  have "lo_next_offset demo_ops demo_log = 0" by (simp add: demo_ops_def wal_ops_def demo_log_def fresh_log_def)
  then obtain eg' ds where sub: "submit demo_env demo_sb demo_ops [0, 0, 0] demo_clk demo_batch demo_engine = (eg', Inr ds)"
    using submit_committed [OF adm h(1) app [unfolded demo_ops_def] h(3), of demo_clk] adm app h
    unfolding demo_ops_def [symmetric] submit_def by (auto simp: Let_def)
  from submit_is_all_or_nothing [OF h sub [unfolded demo_ops_def]] sub show ?thesis by (auto simp: demo_batch_def numeral_3_eq_3)
qed

section \<open>Limits\<close>

text \<open>Replay does not reproduce a filled gap.  Live, the late packet 2 fills the gap recorded when 3 arrived and is valid;
  replayed with a fresh gap manager, the gap is not recorded, and the same event is suspicious and counted as such.\<close>

theorem gap_fill_is_not_replayed:
  "let recs = [(0, good_quote 1), (1, good_quote 3), (2, good_quote 2)]; c = demo_ctx (Some (gap_init 0 10 False))
   in statuses (live_run demo_env (live_batches [(recs, demo_clk)]) c) = [(VALID, []), (SUSPICIOUS, [SEQUENCE_GAP]), (VALID, [GAP_FILLED])]
      \<and> statuses (replay_loop demo_env recs demo_clk c) = [(VALID, []), (SUSPICIOUS, [SEQUENCE_GAP]), (SUSPICIOUS, [OUT_OF_ORDER])]"
  by code_simp

text \<open>A rolled back event still marks its stale sequence number.  Number 10 arrives far behind 100 in an event whose step
  fails and is rolled back; when 10 then arrives in a good event it is rejected as a duplicate, although nothing with
  this number was ever accepted.  Without the failed event it is only suspicious.\<close>

theorem rolled_back_event_marks_stale:
  "statuses (live_run demo_env (live_batches [([(0, good_quote 100), (1, bad_quote 10), (2, good_quote 10)], demo_clk)]) (demo_ctx None))
     = [(VALID, []), (INVALID, [SCHEMA_VIOLATION]), (INVALID, [DUPLICATE, OUT_OF_ORDER])]
   \<and> statuses (live_run demo_env (live_batches [([(0, good_quote 100), (2, good_quote 10)], demo_clk)]) (demo_ctx None))
     = [(VALID, []), (SUSPICIOUS, [OUT_OF_ORDER])]"
  by code_simp

end
