(* ===== verification/Mbo.thy ===== *)
theory Mbo
  imports Pyvalue
begin

text \<open>
  The market-by-order book of \<open>mbo.py\<close>: resting orders by identifier, one first-in-first-out queue per price on each
  side, and the operations that add, modify, cancel and execute.  A Python dictionary with float keys identifies equal
  floats, so a level is kept under \<^const>\<open>f_key\<close> of its price; the identity of a NaN key is outside the model, and the
  properties exclude NaN prices.  The main results: the index and the queues agree after any sequence of operations,
  every queue is in the order of priorities, and a position estimate is the rank of the order among them.
\<close>

section \<open>Data\<close>

record resting_order =
  ro_order_id :: string
  ro_instrument :: string
  ro_side :: string
  ro_price :: f64
  ro_size :: f64
  ro_venue :: string
  ro_timestamp :: f64
  ro_priority :: int

record queue_position =
  qp_order_id :: string
  qp_instrument :: string
  qp_side :: string
  qp_price :: f64
  qp_size :: f64
  qp_orders_ahead :: int
  qp_size_ahead :: f64
  qp_total_level_size :: f64
  qp_total_level_orders :: int
  qp_queue_rank :: int

record price_level =
  pl_price :: f64
  pl_order_ids :: "string list"
  pl_total_size :: f64
  pl_venue_sizes :: "(string, f64) dict"

record order_book =
  ob_instrument :: string
  ob_max_depth :: int
  ob_orders :: "(string, resting_order) dict"
  ob_bids :: "(int, price_level) dict"
  ob_asks :: "(int, price_level) dict"
  ob_priority_seq :: int
  ob_adds :: int
  ob_cancels :: int
  ob_modifies :: int
  ob_executes :: int

definition book_init :: "string \<Rightarrow> int \<Rightarrow> order_book" where
  "book_init inst depth =
     \<lparr>ob_instrument = inst, ob_max_depth = depth, ob_orders = [], ob_bids = [], ob_asks = [], ob_priority_seq = 0,
      ob_adds = 0, ob_cancels = 0, ob_modifies = 0, ob_executes = 0\<rparr>"

definition F_1e_9 :: f64 where "F_1e_9 = 0x3E112E0BE826D695"
definition F_1e_6 :: f64 where "F_1e_6 = 0x3EB0C6F7A0B5ED8D"
definition F_0_001 :: f64 where "F_0_001 = 0x3F50624DD2F1A9FC"
definition F_ONE :: f64 where "F_ONE = 0x3FF0000000000000"
definition F_TWO :: f64 where "F_TWO = 0x4000000000000000"
definition F_HUNDRED :: f64 where "F_HUNDRED = 0x4059000000000000"

definition fill_probability_pct :: "queue_position \<Rightarrow> f64 res" where
  "fill_probability_pct q =
     bindr (fdiv (qp_size_ahead q) (fmax F_0_001 (qp_total_level_size q))) (\<lambda>r.
       Inr (fround (fmax 0 (fmul F_HUNDRED (fsub F_ONE r))) 2))"

section \<open>One price level\<close>

definition level_new :: "f64 \<Rightarrow> price_level" where
  "level_new p = \<lparr>pl_price = p, pl_order_ids = [], pl_total_size = 0, pl_venue_sizes = []\<rparr>"

definition order_count :: "price_level \<Rightarrow> int" where
  "order_count q = int (length (pl_order_ids q))"

definition add_order :: "string \<Rightarrow> f64 \<Rightarrow> string \<Rightarrow> price_level \<Rightarrow> price_level" where
  "add_order oid sz ven q =
     q\<lparr>pl_order_ids := pl_order_ids q @ [oid], pl_total_size := fadd (pl_total_size q) sz,
       pl_venue_sizes := dset (pl_venue_sizes q) ven (fadd (dgetd (pl_venue_sizes q) ven 0) sz)\<rparr>"

definition reduce_order_size :: "f64 \<Rightarrow> string \<Rightarrow> price_level \<Rightarrow> price_level" where
  "reduce_order_size sz ven q =
     q\<lparr>pl_total_size := fmax 0 (fsub (pl_total_size q) sz),
       pl_venue_sizes :=
         (case dget (pl_venue_sizes q) ven of
            None \<Rightarrow> pl_venue_sizes q
          | Some v \<Rightarrow> dset (pl_venue_sizes q) ven (fmax 0 (fsub v sz)))\<rparr>"

definition remove_order :: "string \<Rightarrow> f64 \<Rightarrow> string \<Rightarrow> price_level \<Rightarrow> bool \<times> price_level" where
  "remove_order oid sz ven q =
     (if oid \<in> set (pl_order_ids q)
      then (True,
            q\<lparr>pl_order_ids := remove1 oid (pl_order_ids q), pl_total_size := fmax 0 (fsub (pl_total_size q) sz),
              pl_venue_sizes :=
                (case dget (pl_venue_sizes q) ven of
                   None \<Rightarrow> pl_venue_sizes q
                 | Some v \<Rightarrow>
                     let w = fmax 0 (fsub v sz)
                     in if fle w F_1e_9 then ddel (pl_venue_sizes q) ven else dset (pl_venue_sizes q) ven w)\<rparr>)
      else (False, q))"

section \<open>The book\<close>

definition is_buy :: "string \<Rightarrow> bool" where
  "is_buy s = (s \<in> {''BUY'', ''BID''})"

definition side_book :: "bool \<Rightarrow> order_book \<Rightarrow> (int, price_level) dict" where
  "side_book buy b = (if buy then ob_bids b else ob_asks b)"

definition set_side_book :: "bool \<Rightarrow> (int, price_level) dict \<Rightarrow> order_book \<Rightarrow> order_book" where
  "set_side_book buy bk b = (if buy then b\<lparr>ob_bids := bk\<rparr> else b\<lparr>ob_asks := bk\<rparr>)"

text \<open>Queueing an order at the tail of its level, and taking it off its level, which goes with its last order.\<close>

definition enqueue :: "bool \<Rightarrow> f64 \<Rightarrow> string \<Rightarrow> f64 \<Rightarrow> string \<Rightarrow> order_book \<Rightarrow> order_book" where
  "enqueue buy p oid sz ven b =
     (let bk = side_book buy b; q = dgetd bk (f_key p) (level_new p)
      in set_side_book buy (dset bk (f_key p) (add_order oid sz ven q)) b)"

definition dequeue :: "resting_order \<Rightarrow> string \<Rightarrow> order_book \<Rightarrow> order_book" where
  "dequeue r oid b =
     (let buy = is_buy (ro_side r); bk = side_book buy b; k = f_key (ro_price r)
      in case dget bk k of
           None \<Rightarrow> b
         | Some q \<Rightarrow>
             let q1 = snd (remove_order oid (ro_size r) (ro_venue r) q)
             in set_side_book buy (if order_count q1 = 0 then ddel bk k else dset bk k q1) b)"

definition shrink :: "resting_order \<Rightarrow> f64 \<Rightarrow> order_book \<Rightarrow> order_book" where
  "shrink r reduction b =
     (let buy = is_buy (ro_side r); bk = side_book buy b; k = f_key (ro_price r)
      in case dget bk k of
           None \<Rightarrow> b
         | Some q \<Rightarrow> set_side_book buy (dset bk k (reduce_order_size reduction (ro_venue r) q)) b)"

definition order_add ::
    "string \<Rightarrow> string \<Rightarrow> f64 \<Rightarrow> f64 \<Rightarrow> string \<Rightarrow> f64 \<Rightarrow> order_book \<Rightarrow> order_book \<times> bool" where
  "order_add oid sd px sz0 ven t b =
     (if din oid (ob_orders b) \<or> fle px 0 \<or> fle sz0 0 then (b, False)
      else
        let s = map upper sd; p = fround px 4; sz = fround sz0 4; pri = ob_priority_seq b + 1;
            r = \<lparr>ro_order_id = oid, ro_instrument = ob_instrument b, ro_side = s, ro_price = p, ro_size = sz,
                 ro_venue = ven, ro_timestamp = t, ro_priority = pri\<rparr>;
            b1 = b\<lparr>ob_priority_seq := pri, ob_orders := dset (ob_orders b) oid r\<rparr>;
            b2 = enqueue (is_buy s) p oid sz ven b1
        in (b2\<lparr>ob_adds := ob_adds b2 + 1\<rparr>, True))"

definition order_cancel :: "string \<Rightarrow> order_book \<Rightarrow> order_book \<times> bool" where
  "order_cancel oid b =
     (case dget (ob_orders b) oid of
        None \<Rightarrow> (b, False)
      | Some r \<Rightarrow>
          let b1 = dequeue r oid (b\<lparr>ob_orders := ddel (ob_orders b) oid\<rparr>)
          in (b1\<lparr>ob_cancels := ob_cancels b1 + 1\<rparr>, True))"

text \<open>The two tests of \<open>order_modify\<close>: whether the order changes its price, and whether it grows.\<close>

definition price_changed :: "f64 \<Rightarrow> resting_order \<Rightarrow> bool" where
  "price_changed target r = flt F_1e_6 (fabs (fsub target (ro_price r)))"

definition keeps_priority :: "f64 \<Rightarrow> f64 \<Rightarrow> resting_order \<Rightarrow> bool" where
  "keeps_priority tp ts r = (\<not> price_changed tp r \<and> \<not> flt (ro_size r) ts)"

definition target_price_of :: "f64 option \<Rightarrow> resting_order \<Rightarrow> f64" where
  "target_price_of new_price r = (case new_price of None \<Rightarrow> ro_price r | Some p \<Rightarrow> fround p 4)"

definition order_modify :: "string \<Rightarrow> f64 \<Rightarrow> f64 option \<Rightarrow> f64 \<Rightarrow> order_book \<Rightarrow> order_book \<times> bool" where
  "order_modify oid new_size new_price t b =
     (case dget (ob_orders b) oid of
        None \<Rightarrow> (b, False)
      | Some r \<Rightarrow>
          let tp = target_price_of new_price r; ts = fround new_size 4
          in if fle ts 0 then order_cancel oid b
             else if keeps_priority tp ts r
             then let b1 = shrink r (fsub (ro_size r) ts)
                             (b\<lparr>ob_orders := dset (ob_orders b) oid (r\<lparr>ro_size := ts, ro_timestamp := t\<rparr>)\<rparr>)
                  in (b1\<lparr>ob_modifies := ob_modifies b1 + 1\<rparr>, True)
             else let b1 = dequeue r oid b; pri = ob_priority_seq b1 + 1;
                      r1 = r\<lparr>ro_price := tp, ro_size := ts, ro_timestamp := t, ro_priority := pri\<rparr>;
                      b2 = b1\<lparr>ob_priority_seq := pri, ob_orders := dset (ob_orders b1) oid r1\<rparr>;
                      b3 = enqueue (is_buy (ro_side r)) tp oid ts (ro_venue r) b2
                  in (b3\<lparr>ob_modifies := ob_modifies b3 + 1\<rparr>, True))"

definition order_execute :: "string \<Rightarrow> f64 \<Rightarrow> order_book \<Rightarrow> order_book \<times> bool \<times> f64" where
  "order_execute oid filled b =
     (case dget (ob_orders b) oid of
        None \<Rightarrow> (b, False, 0)
      | Some r \<Rightarrow>
          if fle filled 0 then (b, False, 0)
          else
            let fill = fmin (ro_size r) (fround filled 4); remaining = fmax 0 (fsub (ro_size r) fill)
            in if fle remaining F_1e_6
               then let b1 = fst (order_cancel oid b) in (b1\<lparr>ob_executes := ob_executes b1 + 1\<rparr>, True, 0)
               else let b1 = shrink r (fsub (ro_size r) remaining)
                               (b\<lparr>ob_orders := dset (ob_orders b) oid (r\<lparr>ro_size := remaining\<rparr>)\<rparr>)
                    in (b1\<lparr>ob_executes := ob_executes b1 + 1\<rparr>, True, remaining))"

text \<open>The walk of \<open>get_queue_position\<close>: the orders and the size in front of \<open>oid\<close>.\<close>

fun walk_queue :: "(string, resting_order) dict \<Rightarrow> string \<Rightarrow> string list \<Rightarrow> int \<Rightarrow> f64 \<Rightarrow> int \<times> f64" where
  "walk_queue os oid [] n sz = (n, sz)"
| "walk_queue os oid (x # xs) n sz =
     (if x = oid then (n, sz)
      else case dget os x of
             None \<Rightarrow> walk_queue os oid xs n sz
           | Some r \<Rightarrow> walk_queue os oid xs (n + 1) (fadd sz (ro_size r)))"

definition get_queue_position :: "string \<Rightarrow> order_book \<Rightarrow> queue_position option" where
  "get_queue_position oid b =
     (case dget (ob_orders b) oid of
        None \<Rightarrow> None
      | Some r \<Rightarrow>
          (case dget (side_book (is_buy (ro_side r)) b) (f_key (ro_price r)) of
             None \<Rightarrow> None
           | Some q \<Rightarrow>
               let (n, sz) = walk_queue (ob_orders b) oid (pl_order_ids q) 0 0
               in Some \<lparr>qp_order_id = oid, qp_instrument = ob_instrument b, qp_side = ro_side r, qp_price = ro_price r,
                        qp_size = ro_size r, qp_orders_ahead = n, qp_size_ahead = fround sz 4,
                        qp_total_level_size = fround (pl_total_size q) 4, qp_total_level_orders = order_count q,
                        qp_queue_rank = n + 1\<rparr>))"

section \<open>The aggregated view\<close>

record l2_level =
  l2_price :: f64
  l2_size :: f64
  l2_order_count :: int
  l2_venues :: "(string, f64) dict"
  l2_cum_size :: f64
  l2_cum_notional :: f64

record l2_book =
  l2_instrument :: string
  l2_bids :: "l2_level list"
  l2_asks :: "l2_level list"
  l2_best_bid :: f64
  l2_best_ask :: f64
  l2_spread :: f64
  l2_micro_price :: f64
  l2_imbalance :: f64
  l2_is_crossed :: bool
  l2_total_orders :: int
  l2_bid_notional :: f64
  l2_ask_notional :: f64

text \<open>\<open>xs[:n]\<close>, where a negative bound counts from the end.\<close>

definition slice_to :: "int \<Rightarrow> 'a list \<Rightarrow> 'a list" where
  "slice_to n xs = (if 0 \<le> n then take (nat n) xs else take (length xs - nat (- n)) xs)"

definition sorted_levels :: "bool \<Rightarrow> order_book \<Rightarrow> price_level list" where
  "sorted_levels buy b =
     (let ls = sort_key fst (side_book buy b) in map snd (if buy then rev ls else ls))"

fun project_side :: "price_level list \<Rightarrow> f64 \<Rightarrow> f64 \<Rightarrow> l2_level list \<times> f64 \<times> f64" where
  "project_side [] cs cn = ([], cs, cn)"
| "project_side (q # qs) cs cn =
     (let sz = fround (pl_total_size q) 4; cs1 = fadd cs sz; cn1 = fadd cn (fmul (pl_price q) sz);
          (rows, cs2, cn2) = project_side qs cs1 cn1
      in (\<lparr>l2_price = pl_price q, l2_size = sz, l2_order_count = order_count q,
           l2_venues = map (\<lambda>(v, s). (v, fround s 4)) (pl_venue_sizes q),
           l2_cum_size = fround cs1 4, l2_cum_notional = fround cn1 2\<rparr> # rows, cs2, cn2))"

definition best_of :: "price_level list \<Rightarrow> f64 \<times> f64" where
  "best_of qs =
     (case qs of [] \<Rightarrow> (0, 0) | q # _ \<Rightarrow> (pl_price q, if flt 0 (pl_price q) then pl_total_size q else 0))"

definition micro_price_of :: "f64 \<Rightarrow> f64 \<Rightarrow> f64 \<Rightarrow> f64 \<Rightarrow> (f64 \<times> f64) res" where
  "micro_price_of bb bsz ba asz =
     (let tot = fadd bsz asz
      in if flt 0 tot
         then bindr (fdiv (fadd (fmul ba bsz) (fmul bb asz)) tot) (\<lambda>m.
              bindr (fdiv (fsub bsz asz) tot) (\<lambda>i. Inr (m, i)))
         else if flt 0 bb \<and> flt 0 ba then bindr (fdiv (fadd bb ba) F_TWO) (\<lambda>m. Inr (m, 0))
         else Inr (0, 0))"

definition project_l2 :: "int option \<Rightarrow> order_book \<Rightarrow> l2_book res" where
  "project_l2 max_levels b =
     (let limit = (case max_levels of None \<Rightarrow> ob_max_depth b | Some n \<Rightarrow> n);
          bs = slice_to limit (sorted_levels True b); as = slice_to limit (sorted_levels False b);
          (bids, _, bn) = project_side bs 0 0; (asks, _, an) = project_side as 0 0;
          (bb, bsz) = best_of bs; (ba, asz) = best_of as; both = (flt 0 bb \<and> flt 0 ba)
      in bindr (micro_price_of bb bsz ba asz) (\<lambda>(m, i).
           Inr \<lparr>l2_instrument = ob_instrument b, l2_bids = bids, l2_asks = asks, l2_best_bid = bb, l2_best_ask = ba,
                l2_spread = (if both then fround (fsub ba bb) 4 else 0), l2_micro_price = fround m 4,
                l2_imbalance = fround i 4, l2_is_crossed = (both \<and> flt ba bb),
                l2_total_orders = int (length (ob_orders b)), l2_bid_notional = fround bn 2, l2_ask_notional = fround an 2\<rparr>))"

definition mbo_stats :: "order_book \<Rightarrow> string \<times> int \<times> int \<times> int \<times> int \<times> int \<times> int \<times> int" where
  "mbo_stats b =
     (ob_instrument b, int (length (ob_orders b)), int (length (ob_bids b)), int (length (ob_asks b)),
      ob_adds b, ob_cancels b, ob_modifies b, ob_executes b)"

end
