(* ===== verification/Mbo_Props.thy ===== *)
theory Mbo_Props
  imports Mbo
begin

text \<open>
  Properties of the market-by-order book.  The invariant relates the index of orders to the queues: at every side and price the
  queue holds exactly the orders that rest there, in the order of their priorities, no level is empty, and no price is NaN.
  It is stated relative to a set of orders in transit, which are in the index but in no queue, so that each operation is a
  composition of taking orders off and queueing them.
\<close>

section \<open>The invariant\<close>

definition resting :: "order_book \<Rightarrow> bool \<Rightarrow> int \<Rightarrow> string \<Rightarrow> bool" where
  "resting b buy k oid =
     (case dget (ob_orders b) oid of None \<Rightarrow> False | Some r \<Rightarrow> is_buy (ro_side r) = buy \<and> f_key (ro_price r) = k)"

definition prio :: "order_book \<Rightarrow> string \<Rightarrow> int" where
  "prio b oid = (case dget (ob_orders b) oid of None \<Rightarrow> 0 | Some r \<Rightarrow> ro_priority r)"

definition ids_at :: "order_book \<Rightarrow> bool \<Rightarrow> int \<Rightarrow> string list" where
  "ids_at b buy k = (case dget (side_book buy b) k of None \<Rightarrow> [] | Some q \<Rightarrow> pl_order_ids q)"

definition fifo :: "string set \<Rightarrow> order_book \<Rightarrow> bool \<Rightarrow> int \<Rightarrow> bool" where
  "fifo X b buy k =
     (set (ids_at b buy k) = {oid. resting b buy k oid} - X
      \<and> sorted_wrt (\<lambda>x y. prio b x < prio b y) (ids_at b buy k)
      \<and> (dget (side_book buy b) k \<noteq> None \<longrightarrow> ids_at b buy k \<noteq> []))"

definition orders_ok :: "order_book \<Rightarrow> bool" where
  "orders_ok b =
     (dwf (ob_orders b) \<and> (\<forall>buy. dwf (side_book buy b))
      \<and> (\<forall>oid r. dget (ob_orders b) oid = Some r \<longrightarrow> ro_priority r \<le> ob_priority_seq b \<and> \<not> f_isnan (ro_price r)))"

definition transit_inv :: "string set \<Rightarrow> order_book \<Rightarrow> bool" where
  "transit_inv X b = (orders_ok b \<and> (\<forall>buy k. fifo X b buy k))"

definition book_inv :: "order_book \<Rightarrow> bool" where
  "book_inv b = transit_inv {} b"

lemma side_book_set [simp]:
  "side_book buy (set_side_book buy' bk b) = (if buy = buy' then bk else side_book buy b)"
  by (cases buy; cases buy') (simp_all add: side_book_def set_side_book_def)

lemma set_side_fields [simp]:
  "ob_orders (set_side_book buy bk b) = ob_orders b" "ob_priority_seq (set_side_book buy bk b) = ob_priority_seq b"
  "ob_instrument (set_side_book buy bk b) = ob_instrument b"
  by (simp_all add: set_side_book_def)

lemma side_book_other [simp]:
  "side_book buy (b\<lparr>ob_orders := os\<rparr>) = side_book buy b" "side_book buy (b\<lparr>ob_priority_seq := n\<rparr>) = side_book buy b"
  "side_book buy (b\<lparr>ob_adds := i\<rparr>) = side_book buy b" "side_book buy (b\<lparr>ob_cancels := i\<rparr>) = side_book buy b"
  "side_book buy (b\<lparr>ob_modifies := i\<rparr>) = side_book buy b" "side_book buy (b\<lparr>ob_executes := i\<rparr>) = side_book buy b"
  by (simp_all add: side_book_def)

lemma ids_at_other [simp]:
  "ids_at (b\<lparr>ob_orders := os\<rparr>) buy k = ids_at b buy k" "ids_at (b\<lparr>ob_priority_seq := n\<rparr>) buy k = ids_at b buy k"
  "ids_at (b\<lparr>ob_modifies := i\<rparr>) buy k = ids_at b buy k"
  by (simp_all add: ids_at_def)

text \<open>The invariant depends on the index, the queues and the sequence counter only.\<close>

lemma transit_cong:
  assumes "ob_orders b' = ob_orders b" and "ob_priority_seq b' = ob_priority_seq b" and "\<And>buy. side_book buy b' = side_book buy b"
  shows "transit_inv X b' = transit_inv X b"
proof -
  have "fifo X b' buy k = fifo X b buy k" for buy k
    using assms by (simp add: fifo_def ids_at_def resting_def prio_def)
  moreover have "orders_ok b' = orders_ok b"
    using assms by (simp add: orders_ok_def)
  ultimately show ?thesis by (simp add: transit_inv_def)
qed

lemma transit_counters [simp]:
  "transit_inv X (b\<lparr>ob_adds := i\<rparr>) = transit_inv X b" "transit_inv X (b\<lparr>ob_cancels := i\<rparr>) = transit_inv X b"
  "transit_inv X (b\<lparr>ob_modifies := i\<rparr>) = transit_inv X b" "transit_inv X (b\<lparr>ob_executes := i\<rparr>) = transit_inv X b"
  by (rule transit_cong; simp)+

section \<open>Taking off and queueing\<close>

lemma ids_at_set:
  "ids_at (set_side_book buy' bk b) buy k =
     (if buy = buy' then case dget bk k of None \<Rightarrow> [] | Some q \<Rightarrow> pl_order_ids q else ids_at b buy k)"
  by (simp add: ids_at_def)

lemma resting_set [simp]: "resting (set_side_book buy' bk b) = resting b"
  by (intro ext) (simp add: resting_def)

lemma prio_set [simp]: "prio (set_side_book buy' bk b) = prio b"
  by (intro ext) (simp add: prio_def)

lemma orders_ok_set: "orders_ok b \<Longrightarrow> dwf bk \<Longrightarrow> orders_ok (set_side_book buy bk b)"
  by (simp add: orders_ok_def)

lemma remove_order_ids: "pl_order_ids (snd (remove_order oid sz v q)) = remove1 oid (pl_order_ids q)"
  by (simp add: remove_order_def remove1_idem)

lemma sorted_wrt_remove1: "sorted_wrt P xs \<Longrightarrow> sorted_wrt P (remove1 x xs)"
proof (induction xs)
  case (Cons a xs)
  then show ?case using set_remove1_subset [of x xs] by auto
qed simp

lemma fifo_distinct: "fifo X b buy k \<Longrightarrow> distinct (ids_at b buy k)"
proof -
  have "sorted_wrt (\<lambda>x y. f x < (f y :: int)) xs \<Longrightarrow> distinct xs" for f and xs :: "string list"
    by (induction xs) auto
  then show "fifo X b buy k \<Longrightarrow> distinct (ids_at b buy k)" by (auto simp: fifo_def)
qed

lemma dequeue_ids:
  assumes "dwf (side_book (is_buy (ro_side r)) b)"
  shows "ids_at (dequeue r oid b) buy k =
     (if buy = is_buy (ro_side r) \<and> k = f_key (ro_price r) then remove1 oid (ids_at b buy k) else ids_at b buy k)"
proof (cases "dget (side_book (is_buy (ro_side r)) b) (f_key (ro_price r))")
  case None
  then show ?thesis by (auto simp: dequeue_def ids_at_def Let_def)
next
  case (Some q)
  then show ?thesis
    by (auto simp: dequeue_def Let_def ids_at_set dict_simps remove_order_ids order_count_def ids_at_def split: option.split)
qed

lemma dequeue_fields [simp]:
  "ob_orders (dequeue r oid b) = ob_orders b" "ob_priority_seq (dequeue r oid b) = ob_priority_seq b"
  "resting (dequeue r oid b) = resting b" "prio (dequeue r oid b) = prio b" "ob_instrument (dequeue r oid b) = ob_instrument b"
  by (auto simp: dequeue_def Let_def split: option.split)

lemma orders_ok_wf: "orders_ok b \<Longrightarrow> dwf (side_book buy b)"
  by (simp add: orders_ok_def)

lemma dequeue_ok: "orders_ok b \<Longrightarrow> orders_ok (dequeue r oid b)"
  using orders_ok_wf [of b] by (auto simp: dequeue_def Let_def split: option.split intro!: orders_ok_set)

lemma dequeue_levels:
  assumes "dget (side_book buy (dequeue r oid b)) k \<noteq> None" and "dget (side_book buy b) k \<noteq> None \<longrightarrow> ids_at b buy k \<noteq> []"
  shows "ids_at (dequeue r oid b) buy k \<noteq> []"
proof (cases "dget (side_book (is_buy (ro_side r)) b) (f_key (ro_price r))")
  case None
  then show ?thesis using assms by (simp add: dequeue_def Let_def)
next
  case (Some q)
  let ?q = "snd (remove_order oid (ro_size r) (ro_venue r) q)"
  show ?thesis using Some assms
    by (cases "order_count ?q = 0") (auto simp: dequeue_def Let_def ids_at_def dict_simps order_count_def split: if_splits option.splits)
qed

lemma dequeue_inv:
  assumes inv: "transit_inv X b" and here: "resting b (is_buy (ro_side r)) (f_key (ro_price r)) oid \<or> oid \<in> X"
  shows "transit_inv (insert oid X) (dequeue r oid b)"
  unfolding transit_inv_def
proof (intro conjI allI)
  show "orders_ok (dequeue r oid b)" using inv by (simp add: transit_inv_def dequeue_ok)
  fix buy k
  have f: "fifo X b buy k" and wf: "dwf (side_book (is_buy (ro_side r)) b)" using inv by (auto simp: transit_inv_def orders_ok_wf)
  have other: "oid \<notin> set (ids_at b buy k)" if "\<not> (buy = is_buy (ro_side r) \<and> k = f_key (ro_price r))"
  proof -
    have "\<not> resting b buy k oid \<or> oid \<in> X" using that here by (auto simp: resting_def split: option.splits)
    then show ?thesis using f by (auto simp: fifo_def)
  qed
  have ids: "ids_at (dequeue r oid b) buy k = remove1 oid (ids_at b buy k)"
    using other by (auto simp: dequeue_ids [OF wf] remove1_idem)
  have "set (ids_at b buy k) = {x. resting b buy k x} - X" using f by (simp add: fifo_def)
  then have "set (ids_at (dequeue r oid b) buy k) = {x. resting b buy k x} - insert oid X"
    unfolding ids set_remove1_eq [OF fifo_distinct [OF f]] by blast
  moreover have "sorted_wrt (\<lambda>x y. prio b x < prio b y) (ids_at (dequeue r oid b) buy k)"
    unfolding ids using f by (simp add: fifo_def sorted_wrt_remove1)
  moreover have "dget (side_book buy (dequeue r oid b)) k \<noteq> None \<Longrightarrow> ids_at (dequeue r oid b) buy k \<noteq> []"
    using f by (intro dequeue_levels) (simp_all add: fifo_def)
  ultimately show "fifo (insert oid X) (dequeue r oid b) buy k" by (simp add: fifo_def)
qed

lemma sorted_prio_cong:
  "(\<And>x. x \<in> set xs \<Longrightarrow> f x = (g x :: int)) \<Longrightarrow> sorted_wrt (\<lambda>x y. f x < f y) xs = sorted_wrt (\<lambda>x y. g x < g y) xs"
  by (induction xs) auto

text \<open>An order in transit leaves the index, or is queued again under a fresh priority.\<close>

lemma forget_inv:
  assumes "transit_inv (insert oid X) b" and "oid \<notin> X"
  shows "transit_inv X (b\<lparr>ob_orders := ddel (ob_orders b) oid\<rparr>)"
proof -
  let ?b = "b\<lparr>ob_orders := ddel (ob_orders b) oid\<rparr>"
  have r: "resting ?b buy k x = (resting b buy k x \<and> x \<noteq> oid)" for buy k x by (simp add: resting_def dict_simps split: option.split)
  have p: "x \<noteq> oid \<Longrightarrow> prio ?b x = prio b x" for x by (simp add: prio_def dict_simps)
  have "fifo X ?b buy k" for buy k
  proof -
    have f: "fifo (insert oid X) b buy k" using assms(1) by (simp add: transit_inv_def)
    have ids: "ids_at ?b buy k = ids_at b buy k" by (simp add: ids_at_def)
    have s: "set (ids_at b buy k) = {x. resting b buy k x} - insert oid X" using f by (simp add: fifo_def)
    then have "sorted_wrt (\<lambda>x y. prio ?b x < prio ?b y) (ids_at b buy k) = sorted_wrt (\<lambda>x y. prio b x < prio b y) (ids_at b buy k)"
      by (intro sorted_prio_cong p) auto
    moreover have "set (ids_at b buy k) = {x. resting ?b buy k x} - X" unfolding r s using assms(2) by blast
    ultimately show ?thesis using f by (simp add: fifo_def ids)
  qed
  moreover have "orders_ok ?b" using assms(1) by (auto simp: transit_inv_def orders_ok_def dict_simps split: if_splits)
  ultimately show ?thesis by (simp add: transit_inv_def)
qed

lemma enqueue_ids:
  "ids_at (enqueue buy' p oid sz v b) buy k = (if buy = buy' \<and> k = f_key p then ids_at b buy k @ [oid] else ids_at b buy k)"
  by (auto simp: enqueue_def Let_def ids_at_set dict_simps dgetd_def add_order_def level_new_def ids_at_def split: option.split)

lemma enqueue_fields [simp]:
  "ob_orders (enqueue buy p oid sz v b) = ob_orders b" "ob_priority_seq (enqueue buy p oid sz v b) = ob_priority_seq b"
  "resting (enqueue buy p oid sz v b) = resting b" "prio (enqueue buy p oid sz v b) = prio b"
  "ob_instrument (enqueue buy p oid sz v b) = ob_instrument b"
  by (simp_all add: enqueue_def Let_def)

lemma enqueue_levels:
  "dget (side_book buy (enqueue buy' p oid sz v b)) k \<noteq> None \<longleftrightarrow> dget (side_book buy b) k \<noteq> None \<or> buy = buy' \<and> k = f_key p"
  by (simp add: enqueue_def Let_def dict_simps)

lemma enqueue_inv:
  assumes inv: "transit_inv (insert oid X) b" and "oid \<notin> X" and r: "ro_priority r = ob_priority_seq b + 1" "\<not> f_isnan (ro_price r)"
    and "buy' = is_buy (ro_side r)" and "p = ro_price r"
  shows "transit_inv X (enqueue buy' p oid sz v (b\<lparr>ob_priority_seq := ob_priority_seq b + 1, ob_orders := dset (ob_orders b) oid r\<rparr>))"
proof -
  let ?b = "b\<lparr>ob_priority_seq := ob_priority_seq b + 1, ob_orders := dset (ob_orders b) oid r\<rparr>"
  let ?c = "enqueue buy' p oid sz v ?b"
  have ok: "orders_ok b" using inv by (simp add: transit_inv_def)
  have rs: "resting ?b buy k x = (if x = oid then buy = buy' \<and> k = f_key p else resting b buy k x)" for buy k x
    using assms(5,6) by (auto simp: resting_def dict_simps)
  have pr: "prio ?b x = (if x = oid then ob_priority_seq b + 1 else prio b x)" for x by (simp add: prio_def dict_simps r)
  have le: "resting b buy k x \<Longrightarrow> prio b x \<le> ob_priority_seq b" for buy k x
    using ok by (auto simp: resting_def prio_def orders_ok_def split: option.splits)
  have "fifo X ?c buy k" for buy k
  proof -
    have f: "fifo (insert oid X) b buy k" using inv by (simp add: transit_inv_def)
    have ids: "ids_at ?c buy k = (if buy = buy' \<and> k = f_key p then ids_at b buy k @ [oid] else ids_at b buy k)"
      unfolding enqueue_ids by (simp add: ids_at_def)
    have s: "set (ids_at b buy k) = {x. resting b buy k x} - insert oid X" using f by (simp add: fifo_def)
    then have "sorted_wrt (\<lambda>x y. prio ?b x < prio ?b y) (ids_at b buy k) = sorted_wrt (\<lambda>x y. prio b x < prio b y) (ids_at b buy k)"
      by (intro sorted_prio_cong) (auto simp: pr)
    then have st: "sorted_wrt (\<lambda>x y. prio ?b x < prio ?b y) (ids_at b buy k)" using f by (simp add: fifo_def)
    have "prio ?b x < prio ?b oid" if "x \<in> set (ids_at b buy k)" for x
      using that s le [of buy k x] by (auto simp: pr)
    then have "sorted_wrt (\<lambda>x y. prio ?b x < prio ?b y) (ids_at ?c buy k)" using st by (auto simp: ids sorted_wrt_append)
    moreover have "set (ids_at ?c buy k) = {x. resting ?b buy k x} - X"
      using s assms(2) by (auto simp: ids rs)
    moreover have "dget (side_book buy ?c) k \<noteq> None \<longrightarrow> ids_at ?c buy k \<noteq> []"
      using f unfolding enqueue_levels ids by (auto simp: fifo_def)
    ultimately show ?thesis by (simp add: fifo_def)
  qed
  moreover have "orders_ok ?c"
    using ok r by (fastforce simp: orders_ok_def enqueue_def Let_def dict_simps split: if_splits)
  ultimately show ?thesis by (simp add: transit_inv_def)
qed

text \<open>An order that only changes its size or time stays where it is.\<close>

lemma shrink_ids [simp]: "ids_at (shrink r d b) buy k = ids_at b buy k"
  by (auto simp: shrink_def Let_def ids_at_set dict_simps reduce_order_size_def ids_at_def split: option.split)

lemma shrink_fields [simp]:
  "ob_orders (shrink r d b) = ob_orders b" "ob_priority_seq (shrink r d b) = ob_priority_seq b"
  "resting (shrink r d b) = resting b" "prio (shrink r d b) = prio b" "ob_instrument (shrink r d b) = ob_instrument b"
  by (auto simp: shrink_def Let_def split: option.split)

lemma shrink_levels: "dget (side_book buy (shrink r d b)) k \<noteq> None \<longleftrightarrow> dget (side_book buy b) k \<noteq> None"
  by (auto simp: shrink_def Let_def dict_simps split: option.split)

lemma shrink_ok: "orders_ok b \<Longrightarrow> orders_ok (shrink r d b)"
  using orders_ok_wf [of b] by (auto simp: shrink_def Let_def split: option.split intro!: orders_ok_set)

lemma shrink_inv: "transit_inv X b \<Longrightarrow> transit_inv X (shrink r d b)"
  unfolding transit_inv_def fifo_def shrink_levels by (simp add: shrink_ok)

lemma resize_inv:
  assumes "transit_inv X b" and "dget (ob_orders b) oid = Some r"
  shows "transit_inv X (b\<lparr>ob_orders := dset (ob_orders b) oid (r\<lparr>ro_size := s, ro_timestamp := t\<rparr>)\<rparr>)"
proof -
  let ?b = "b\<lparr>ob_orders := dset (ob_orders b) oid (r\<lparr>ro_size := s, ro_timestamp := t\<rparr>)\<rparr>"
  have "resting ?b = resting b" "prio ?b = prio b"
    using assms(2) by (auto simp: fun_eq_iff resting_def prio_def dict_simps)
  then have "fifo X ?b buy k = fifo X b buy k" for buy k by (simp add: fifo_def ids_at_def)
  moreover have "orders_ok ?b" using assms by (auto simp: transit_inv_def orders_ok_def dict_simps)
  ultimately show ?thesis using assms(1) by (simp add: transit_inv_def)
qed

section \<open>The operations keep the invariant\<close>

lemma resting_self: "dget (ob_orders b) oid = Some r \<Longrightarrow> resting b (is_buy (ro_side r)) (f_key (ro_price r)) oid"
  by (simp add: resting_def)

lemma fround_isnan: "f_isnan (fround w d) = f_isnan w"
proof (cases "f_isfinite w")
  case True
  then show ?thesis using round_mag_range(2) by (auto simp: fround_def f_isnan_def f_isfinite_def not_less)
qed (simp add: fround_def)

lemma order_add_inv:
  assumes "book_inv b" and "\<not> f_isnan px"
  shows "book_inv (fst (order_add oid sd px sz v t b))"
proof (cases "din oid (ob_orders b) \<or> fle px 0 \<or> fle sz 0")
  case False
  have "transit_inv {oid} b"
  proof -
    have "\<not> resting b buy k oid" for buy k using False by (simp add: resting_def din_def)
    then have "fifo {} b buy k \<Longrightarrow> fifo {oid} b buy k" for buy k by (auto simp: fifo_def)
    then show ?thesis using assms(1) by (simp add: book_inv_def transit_inv_def)
  qed
  from enqueue_inv [OF this, of "\<lparr>ro_order_id = oid, ro_instrument = ob_instrument b, ro_side = map upper sd, ro_price = fround px 4,
      ro_size = fround sz 4, ro_venue = v, ro_timestamp = t, ro_priority = ob_priority_seq b + 1\<rparr>"]
  show ?thesis using False assms(2) by (simp add: order_add_def Let_def book_inv_def fround_isnan)
qed (use assms in \<open>simp add: order_add_def\<close>)

lemma cancel_transit:
  assumes "transit_inv X b" and "dget (ob_orders b) oid = Some r" and "oid \<notin> X"
  shows "transit_inv X (fst (order_cancel oid b))"
proof -
  have "transit_inv (insert oid X) (dequeue r oid b)" using dequeue_inv [OF assms(1)] resting_self [OF assms(2)] by blast
  from forget_inv [OF this assms(3)]
  have "transit_inv X ((dequeue r oid b)\<lparr>ob_orders := ddel (ob_orders b) oid\<rparr>)" by simp
  moreover have "(dequeue r oid b)\<lparr>ob_orders := ddel (ob_orders b) oid\<rparr> = dequeue r oid (b\<lparr>ob_orders := ddel (ob_orders b) oid\<rparr>)"
    by (simp add: dequeue_def Let_def set_side_book_def split: option.split)
  ultimately show ?thesis using assms(2) by (simp add: order_cancel_def Let_def)
qed

lemma order_cancel_inv: "book_inv b \<Longrightarrow> book_inv (fst (order_cancel oid b))"
  using cancel_transit [of "{}" b oid] by (cases "dget (ob_orders b) oid") (simp_all add: book_inv_def order_cancel_def)

lemma order_modify_inv:
  assumes "book_inv b" and "\<And>p. px = Some p \<Longrightarrow> \<not> f_isnan p"
  shows "book_inv (fst (order_modify oid sz px t b))"
proof (cases "dget (ob_orders b) oid")
  case (Some r)
  let ?tp = "target_price_of px r" and ?ts = "fround sz 4"
  have "\<not> f_isnan (ro_price r)" using assms Some by (auto simp: book_inv_def transit_inv_def orders_ok_def)
  then have ok: "\<not> f_isnan ?tp" using assms(2) by (auto simp: target_price_of_def fround_isnan split: option.split)
  consider "fle ?ts 0" | "\<not> fle ?ts 0" "keeps_priority ?tp ?ts r" | "\<not> fle ?ts 0" "\<not> keeps_priority ?tp ?ts r" by blast
  then show ?thesis
  proof cases
    case 1
    then show ?thesis using Some order_cancel_inv [OF assms(1)] by (simp add: order_modify_def)
  next
    case 2
    then show ?thesis using Some shrink_inv [OF resize_inv [OF assms(1) [unfolded book_inv_def] Some]]
      by (simp add: order_modify_def Let_def book_inv_def)
  next
    case 3
    have d: "transit_inv {oid} (dequeue r oid b)"
      using dequeue_inv [OF assms(1) [unfolded book_inv_def]] resting_self [OF Some] by blast
    show ?thesis using 3 Some ok
        enqueue_inv [OF d, where r = "r\<lparr>ro_price := ?tp, ro_size := ?ts, ro_timestamp := t, ro_priority := ob_priority_seq b + 1\<rparr>"]
      by (simp add: order_modify_def Let_def book_inv_def)
  qed
qed (use assms in \<open>simp add: order_modify_def\<close>)

lemma order_execute_inv:
  assumes "book_inv b"
  shows "book_inv (fst (order_execute oid filled b))"
proof (cases "dget (ob_orders b) oid")
  case (Some r)
  have same: "r\<lparr>ro_size := s, ro_timestamp := ro_timestamp r\<rparr> = r\<lparr>ro_size := s\<rparr>" for s by (cases r) simp
  have "transit_inv {} (shrink r d (b\<lparr>ob_orders := dset (ob_orders b) oid (r\<lparr>ro_size := s\<rparr>)\<rparr>))" for d s
    using shrink_inv [OF resize_inv [OF assms [unfolded book_inv_def] Some, where t = "ro_timestamp r" and s = s]] by (simp only: same)
  then show ?thesis
    using Some order_cancel_inv [OF assms] assms
    by (simp add: order_execute_def Let_def book_inv_def)
qed (use assms in \<open>simp add: order_execute_def\<close>)

datatype book_op =
    Add string string f64 f64 string f64
  | Modify string f64 "f64 option" f64
  | Cancel string
  | Execute string f64

fun apply_op :: "book_op \<Rightarrow> order_book \<Rightarrow> order_book" where
  "apply_op (Add oid sd px sz v t) b = fst (order_add oid sd px sz v t b)"
| "apply_op (Modify oid sz px t) b = fst (order_modify oid sz px t b)"
| "apply_op (Cancel oid) b = fst (order_cancel oid b)"
| "apply_op (Execute oid q) b = fst (order_execute oid q b)"

fun op_ok :: "book_op \<Rightarrow> bool" where
  "op_ok (Add oid sd px sz v t) = (\<not> f_isnan px)"
| "op_ok (Modify oid sz px t) = (case px of None \<Rightarrow> True | Some p \<Rightarrow> \<not> f_isnan p)"
| "op_ok _ = True"

lemma apply_op_inv: "book_inv b \<Longrightarrow> op_ok x \<Longrightarrow> book_inv (apply_op x b)"
  by (cases x) (auto simp: order_add_inv order_cancel_inv order_execute_inv intro!: order_modify_inv split: option.splits)

lemma book_init_inv: "book_inv (book_init inst depth)"
  by (auto simp: book_inv_def transit_inv_def orders_ok_def fifo_def ids_at_def side_book_def resting_def book_init_def)

lemma book_run_inv: "list_all op_ok xs \<Longrightarrow> book_inv b \<Longrightarrow> book_inv (fold apply_op xs b)"
  by (induction xs arbitrary: b) (simp_all add: apply_op_inv)

section \<open>Priorities are unique\<close>

definition distinct_prios :: "order_book \<Rightarrow> bool" where
  "distinct_prios b =
     (\<forall>x r y s. dget (ob_orders b) x = Some r \<and> dget (ob_orders b) y = Some s \<and> ro_priority r = ro_priority s \<longrightarrow> x = y)"

lemma distinct_priosD:
  "distinct_prios b \<Longrightarrow> dget (ob_orders b) x = Some r \<Longrightarrow> dget (ob_orders b) y = Some s \<Longrightarrow> ro_priority r = ro_priority s \<Longrightarrow> x = y"
  unfolding distinct_prios_def by blast

text \<open>The three ways an operation changes the index: an order under a fresh priority, one under its old priority, one less.\<close>

lemma distinct_prios_fresh:
  assumes "distinct_prios b" and "orders_ok b" and "ob_orders b' = dset (ob_orders b) oid r" and "ro_priority r = ob_priority_seq b + 1"
  shows "distinct_prios b'"
proof -
  have "ro_priority s \<noteq> ro_priority r" if "dget (ob_orders b) y = Some s" for y s
    using that assms(2,4) by (fastforce simp: orders_ok_def)
  then show ?thesis using distinct_priosD [OF assms(1)] assms(3)
    unfolding distinct_prios_def by (metis dget_dset option.inject)
qed

lemma distinct_prios_same:
  assumes "distinct_prios b" and "dget (ob_orders b) oid = Some r" and "ob_orders b' = dset (ob_orders b) oid r'" and "ro_priority r' = ro_priority r"
  shows "distinct_prios b'"
  using distinct_priosD [OF assms(1)] assms(2-4) unfolding distinct_prios_def by (metis dget_dset option.inject)

lemma distinct_prios_less:
  "distinct_prios b \<Longrightarrow> ob_orders b' = ddel (ob_orders b) oid \<Longrightarrow> distinct_prios b'"
  unfolding distinct_prios_def by (metis dget_ddel option.distinct(1))

lemma cancel_orders: "ob_orders (fst (order_cancel oid b)) = (if din oid (ob_orders b) then ddel (ob_orders b) oid else ob_orders b)"
  by (auto simp: order_cancel_def Let_def din_def split: option.split)

lemma distinct_prios_cong: "ob_orders b' = ob_orders b \<Longrightarrow> distinct_prios b \<Longrightarrow> distinct_prios b'"
  by (simp only: distinct_prios_def)

lemma cancel_distinct: "distinct_prios b \<Longrightarrow> distinct_prios (fst (order_cancel oid b))"
  using distinct_prios_less [of b _ oid] distinct_prios_cong cancel_orders [of oid b] by metis

lemma modify_distinct:
  assumes "distinct_prios b" and "orders_ok b"
  shows "distinct_prios (fst (order_modify oid sz px t b))"
proof (cases "dget (ob_orders b) oid")
  case (Some r)
  consider "fle (fround sz 4) 0" | "\<not> fle (fround sz 4) 0" "keeps_priority (target_price_of px r) (fround sz 4) r"
    | "\<not> fle (fround sz 4) 0" "\<not> keeps_priority (target_price_of px r) (fround sz 4) r" by blast
  then show ?thesis
  proof cases
    case 1
    then show ?thesis using Some cancel_distinct [OF assms(1)] by (simp add: order_modify_def)
  next
    case 2
    then show ?thesis using Some by (intro distinct_prios_same [OF assms(1) Some, where r' = "r\<lparr>ro_size := fround sz 4, ro_timestamp := t\<rparr>"]) (simp_all add: order_modify_def Let_def)
  next
    case 3
    then show ?thesis using Some 
      by (intro distinct_prios_fresh [OF assms, of _ oid "r\<lparr>ro_price := target_price_of px r, ro_size := fround sz 4, ro_timestamp := t,
        ro_priority := ob_priority_seq b + 1\<rparr>"]) (simp_all add: order_modify_def Let_def)
  qed
qed (use assms in \<open>simp add: order_modify_def\<close>)

lemma execute_distinct:
  assumes "distinct_prios b"
  shows "distinct_prios (fst (order_execute oid q b))"
proof (cases "dget (ob_orders b) oid")
  case (Some r)
  let ?rest = "fmax 0 (fsub (ro_size r) (fmin (ro_size r) (fround q 4)))"
  have c: "distinct_prios ((fst (order_cancel oid b))\<lparr>ob_executes := n\<rparr>)" for n
    using cancel_distinct [OF assms, of oid] by (rule distinct_prios_cong [rotated]) simp
  consider (none) "fle q 0" | (gone) "\<not> fle q 0" "fle ?rest F_1e_6" | (part) "\<not> fle q 0" "\<not> fle ?rest F_1e_6" by blast
  then show ?thesis
  proof cases
    case none
    then show ?thesis using Some assms by (simp add: order_execute_def Let_def)
  next
    case gone
    then show ?thesis using Some c by (simp add: order_execute_def Let_def)
  next
    case part
    then show ?thesis using Some by (intro distinct_prios_same [OF assms Some, where r' = "r\<lparr>ro_size := ?rest\<rparr>"]) (simp_all add: order_execute_def Let_def)
  qed
qed (use assms in \<open>simp add: order_execute_def\<close>)

lemma add_distinct:
  assumes "distinct_prios b" and "orders_ok b"
  shows "distinct_prios (fst (order_add oid sd px sz v t b))"
proof (cases "din oid (ob_orders b) \<or> fle px 0 \<or> fle sz 0")
  case False
  then show ?thesis
    by (intro distinct_prios_fresh [OF assms, of _ oid "\<lparr>ro_order_id = oid, ro_instrument = ob_instrument b, ro_side = map upper sd,
      ro_price = fround px 4, ro_size = fround sz 4, ro_venue = v, ro_timestamp = t, ro_priority = ob_priority_seq b + 1\<rparr>"])
      (simp_all add: order_add_def Let_def)
qed (use assms in \<open>simp add: order_add_def\<close>)

lemma apply_op_distinct: "distinct_prios b \<Longrightarrow> orders_ok b \<Longrightarrow> distinct_prios (apply_op x b)"
  by (cases x) (simp_all add: add_distinct modify_distinct cancel_distinct execute_distinct)

lemma run_distinct:
  "list_all op_ok xs \<Longrightarrow> book_inv b \<Longrightarrow> distinct_prios b \<Longrightarrow> distinct_prios (fold apply_op xs b)"
proof (induction xs arbitrary: b)
  case (Cons x xs)
  then show ?case using apply_op_inv [of b x] apply_op_distinct [of b x] by (simp add: book_inv_def transit_inv_def)
qed simp

section \<open>Positions\<close>

text \<open>The orders in front of an order: those on its side at its price with a smaller priority.\<close>

definition ahead :: "order_book \<Rightarrow> string \<Rightarrow> string set" where
  "ahead b oid =
     (case dget (ob_orders b) oid of
        None \<Rightarrow> {}
      | Some r \<Rightarrow> {x. resting b (is_buy (ro_side r)) (f_key (ro_price r)) x \<and> prio b x < prio b oid})"

lemma walk_queue_split:
  assumes "list_all (\<lambda>x. din x os) xs" and "oid \<notin> set xs"
  shows "fst (walk_queue os oid (xs @ oid # ys) n s) = n + int (length xs)"
  using assms by (induction xs arbitrary: n s) (auto simp: din_def split: option.split)

lemma book_inv_queue:
  assumes "book_inv b" and "dget (ob_orders b) oid = Some r"
  obtains q xs ys where "dget (side_book (is_buy (ro_side r)) b) (f_key (ro_price r)) = Some q" and "pl_order_ids q = xs @ oid # ys"
    and "distinct (xs @ oid # ys)" and "set xs = ahead b oid" and "list_all (\<lambda>x. din x (ob_orders b)) xs"
    and "set (pl_order_ids q) = {x. resting b (is_buy (ro_side r)) (f_key (ro_price r)) x}"
proof -
  let ?s = "is_buy (ro_side r)" and ?k = "f_key (ro_price r)"
  have f: "fifo {} b ?s ?k" using assms(1) by (simp add: book_inv_def transit_inv_def)
  have set: "set (ids_at b ?s ?k) = {x. resting b ?s ?k x}" using f by (simp add: fifo_def)
  then have "oid \<in> set (ids_at b ?s ?k)" using resting_self [OF assms(2)] by simp
  then obtain q where q: "dget (side_book ?s b) ?k = Some q" "ids_at b ?s ?k = pl_order_ids q"
    by (cases "dget (side_book ?s b) ?k") (auto simp: ids_at_def)
  obtain xs ys where xy: "pl_order_ids q = xs @ oid # ys" using q \<open>oid \<in> _\<close> by (metis split_list)
  have d: "distinct (xs @ oid # ys)" using fifo_distinct [OF f] q xy by simp
  have "sorted_wrt (\<lambda>x y. prio b x < prio b y) (xs @ oid # ys)" using f q xy by (simp add: fifo_def)
  then have "set xs = {x \<in> set (pl_order_ids q). prio b x < prio b oid}" using xy by (auto simp: sorted_wrt_append)
  then have "set xs = ahead b oid" using set q assms(2) by (simp add: ahead_def)
  moreover have "list_all (\<lambda>x. din x (ob_orders b)) xs"
    using set q xy by (auto simp: list_all_iff resting_def din_def split: option.splits)
  ultimately show thesis using that q xy d set by simp
qed

lemma unique_prio_run:
  assumes "list_all op_ok xs" and "b = fold apply_op xs (book_init inst depth)"
  shows "inj_on (prio b) {x. din x (ob_orders b)}"
proof -
  have "distinct_prios b" using run_distinct [OF assms(1) book_init_inv] assms(2) by (simp add: distinct_prios_def book_init_def)
  then show ?thesis by (auto simp: inj_on_def prio_def din_def dest: distinct_priosD)
qed

text \<open>
  C16: after any sequence of operations without NaN prices, a position estimate exists exactly for the orders in the book, and it
  is the rank by priority: the orders ahead are exactly those at the same price and side with an older priority, and the
  level holds exactly the orders that rest at this price.  No two orders in the book have the same priority.
\<close>

theorem queue_position_is_priority_rank:
  assumes "list_all op_ok xs" and "b = fold apply_op xs (book_init inst depth)"
  shows "inj_on (prio b) {x. din x (ob_orders b)} \<and>
     (case dget (ob_orders b) oid of
       None \<Rightarrow> get_queue_position oid b = None
     | Some r \<Rightarrow> \<exists>p. get_queue_position oid b = Some p \<and> qp_orders_ahead p = int (card (ahead b oid))
         \<and> qp_queue_rank p = int (card (ahead b oid)) + 1
         \<and> qp_total_level_orders p = int (card {x. resting b (is_buy (ro_side r)) (f_key (ro_price r)) x}))"
proof (cases "dget (ob_orders b) oid")
  case (Some r)
  have inv: "book_inv b" using book_run_inv [OF assms(1) book_init_inv] assms(2) by simp
  obtain q us vs where q: "dget (side_book (is_buy (ro_side r)) b) (f_key (ro_price r)) = Some q" "pl_order_ids q = us @ oid # vs"
    "distinct (us @ oid # vs)" "set us = ahead b oid" "list_all (\<lambda>x. din x (ob_orders b)) us"
    "set (pl_order_ids q) = {x. resting b (is_buy (ro_side r)) (f_key (ro_price r)) x}"
    using book_inv_queue [OF inv Some] .
  have w: "fst (walk_queue (ob_orders b) oid (pl_order_ids q) 0 0) = int (length us)"
    using walk_queue_split [OF q(5), of oid vs 0 0] q(2,3) by simp
  have c: "length us = card (ahead b oid)" "length (pl_order_ids q) = card {x. resting b (is_buy (ro_side r)) (f_key (ro_price r)) x}"
    using q(2-4,6) distinct_card [of us] distinct_card [of "pl_order_ids q"] by auto
  show ?thesis using Some q(1) w c unique_prio_run [OF assms] by (auto simp: get_queue_position_def order_count_def split: prod.split)
qed (use unique_prio_run [OF assms] in \<open>simp add: get_queue_position_def\<close>)

definition mbo_demo_ops :: "book_op list" where
  "mbo_demo_ops = [Add ''a'' ''buy'' 0x4059000000000000 0x4000000000000000 ''X'' 0,
     Add ''b'' ''BUY'' 0x4059000000000000 0x3FF0000000000000 ''Y'' 0, Modify ''a'' 0x4008000000000000 None 0]"

definition mbo_demo_book :: order_book where
  "mbo_demo_book = fold apply_op mbo_demo_ops (book_init ''I'' 10)"

lemma mbo_demo_facts: "list_all op_ok mbo_demo_ops" "map (\<lambda>(x, r). (x, ro_priority r)) (ob_orders mbo_demo_book) = [(''a'', 3), (''b'', 2)]"
  by code_simp+

theorem queue_position_is_priority_rank_witness:
  "(\<exists>p. get_queue_position ''b'' mbo_demo_book = Some p \<and> qp_queue_rank p = 1)
     \<and> inj_on (prio mbo_demo_book) {x. din x (ob_orders mbo_demo_book)}"
proof -
  obtain r s where os: "ob_orders mbo_demo_book = [(''a'', r), (''b'', s)]" "ro_priority r = 3" "ro_priority s = 2"
    using mbo_demo_facts(2) by (auto simp: map_eq_Cons_conv)
  have "ahead mbo_demo_book ''b'' = {}" by (auto simp: ahead_def resting_def prio_def os split: if_splits)
  then show ?thesis using queue_position_is_priority_rank [OF mbo_demo_facts(1) mbo_demo_book_def, of "''b''"] os by auto
qed

section \<open>Priority rules\<close>

lemma remove1_filter: "distinct xs \<Longrightarrow> remove1 a xs = [x \<leftarrow> xs. x \<noteq> a]"
  by (induction xs) (auto intro!: filter_True [symmetric])

text \<open>The queues and the index after each branch of a modification.\<close>

lemma dequeue_drops:
  assumes "transit_inv {} b" and "dget (ob_orders b) oid = Some r"
  shows "ids_at (dequeue r oid b) buy k = [x \<leftarrow> ids_at b buy k. x \<noteq> oid]"
proof -
  have f: "fifo {} b buy k" and wf: "dwf (side_book (is_buy (ro_side r)) b)" using assms(1) by (auto simp: transit_inv_def orders_ok_wf)
  have "oid \<notin> set (ids_at b buy k)" if "\<not> (buy = is_buy (ro_side r) \<and> k = f_key (ro_price r))"
    using f that assms(2) by (auto simp: fifo_def resting_def)
  then show ?thesis
    using fifo_distinct [OF f] by (auto simp: dequeue_ids [OF wf] remove1_filter intro!: filter_True [symmetric])
qed

lemma cancel_ids:
  assumes "dget (ob_orders b) oid = Some r"
  shows "ids_at (fst (order_cancel oid b)) buy k = ids_at (dequeue r oid b) buy k"
  using assms by (auto simp: order_cancel_def Let_def dequeue_def ids_at_def side_book_def set_side_book_def split: option.split)

text \<open>
  C28: what \<open>order_modify\<close> does to the queues and to the order.  An unknown order changes nothing and gives \<open>False\<close>.  A size
  that rounds to zero or less takes the order out of the book.  When the price, rounded to four digits, moves by no more than
  1e-6 and the rounded size does not grow, every queue stays as it is and the order keeps its price and priority.  Otherwise the
  order leaves its queue and goes to the tail of the queue of its new price with a priority above all others; the other orders
  keep their places in every case.
\<close>

theorem modify_priority_rules:
  assumes "list_all op_ok xs" and "b = fold apply_op xs (book_init inst depth)" and "order_modify oid sz px t b = (b', ok)"
  shows "case dget (ob_orders b) oid of
       None \<Rightarrow> b' = b \<and> \<not> ok
     | Some r \<Rightarrow>
         let ts = fround sz 4; tp = (case px of None \<Rightarrow> ro_price r | Some p \<Rightarrow> fround p 4);
             moved = flt 0x3EB0C6F7A0B5ED8D (fabs (fsub tp (ro_price r))); grown = flt (ro_size r) ts;
             others = [x \<leftarrow> ids_at b buy k. x \<noteq> oid]
         in ok \<and>
            (if fle ts 0 then ids_at b' buy k = others \<and> dget (ob_orders b') oid = None
             else if moved \<or> grown
             then ids_at b' buy k = others @ (if buy = is_buy (ro_side r) \<and> k = f_key tp then [oid] else [])
                  \<and> (\<exists>r'. dget (ob_orders b') oid = Some r' \<and> ro_price r' = tp \<and> ro_size r' = ts
                       \<and> (\<forall>y s. dget (ob_orders b) y = Some s \<longrightarrow> ro_priority s < ro_priority r'))
             else ids_at b' buy k = ids_at b buy k
                  \<and> dget (ob_orders b') oid = Some (r\<lparr>ro_size := ts, ro_timestamp := t\<rparr>))"
proof (cases "dget (ob_orders b) oid")
  case None
  then show ?thesis using assms(3) by (simp add: order_modify_def)
next
  case (Some r)
  have inv: "transit_inv {} b" using book_run_inv [OF assms(1) book_init_inv] assms(2) by (simp add: book_inv_def)
  have top: "ro_priority s < ob_priority_seq b + 1" if "dget (ob_orders b) y = Some s" for y s
    using inv that by (fastforce simp: transit_inv_def orders_ok_def)
  note drop = dequeue_drops [OF inv Some, of buy k]
  note rules = keeps_priority_def price_changed_def target_price_of_def F_1e_6_def
  consider (gone) "fle (fround sz 4) 0" | (kept) "\<not> fle (fround sz 4) 0" "keeps_priority (target_price_of px r) (fround sz 4) r"
    | (tail) "\<not> fle (fround sz 4) 0" "\<not> keeps_priority (target_price_of px r) (fround sz 4) r" by blast
  then show ?thesis
  proof cases
    case gone
    then have "b' = fst (order_cancel oid b)" "ok" using assms(3) Some by (auto simp: order_modify_def order_cancel_def Let_def)
    then show ?thesis using gone Some drop cancel_ids [OF Some] cancel_orders [of oid b] by (simp add: Let_def dget_ddel din_def)
  next
    case kept
    then show ?thesis using assms(3) Some by (auto simp: order_modify_def Let_def dict_simps rules)
  next
    case tail
    then show ?thesis using assms(3) Some drop top by (auto simp: order_modify_def Let_def dict_simps enqueue_ids rules)
  qed
qed

theorem modify_priority_rules_witness:
  "ids_at (fst (order_modify ''b'' 0x4000000000000000 None 0 mbo_demo_book)) True (f_key 0x4059000000000000)
     = [x \<leftarrow> ids_at mbo_demo_book True (f_key 0x4059000000000000). x \<noteq> ''b''] @ [''b'']
   \<and> snd (order_modify ''b'' 0x4000000000000000 None 0 mbo_demo_book)"
proof -
  obtain r s where os: "ob_orders mbo_demo_book = [(''a'', r), (''b'', s)]" using mbo_demo_facts(2) by (auto simp: map_eq_Cons_conv)
  have "map (\<lambda>(x, r). (ro_price r, flt (ro_size r) (fround 0x4000000000000000 4), is_buy (ro_side r))) (ob_orders mbo_demo_book)
      = [(0x4059000000000000, False, True), (0x4059000000000000, True, True)]" by code_simp
  then have s: "ro_price s = 0x4059000000000000" "flt (ro_size s) (fround 0x4000000000000000 4)" "is_buy (ro_side s)"
    using os by auto
  have "\<not> fle (fround 0x4000000000000000 4) 0" by code_simp
  then show ?thesis
    using modify_priority_rules [OF mbo_demo_facts(1) mbo_demo_book_def, of "''b''" "0x4000000000000000" None 0 "fst (order_modify ''b'' 0x4000000000000000 None 0 mbo_demo_book)"
        "snd (order_modify ''b'' 0x4000000000000000 None 0 mbo_demo_book)" True "f_key 0x4059000000000000"] os s
    by (simp add: Let_def)
qed

text \<open>Inputs the checks let through: a size that rounds to zero rests in the book, a modification may move an order to a
  negative price, and executing NaN fills the order completely.\<close>

lemma unchecked_inputs:
  "(let b = fst (order_add ''a'' ''BUY'' 0x4059000000000000 0x3EE4F8B588E368F1 ''X'' 0 (book_init ''I'' 10))
    in map (ro_size \<circ> snd) (ob_orders b),
    map (ro_price \<circ> snd) (ob_orders (fst (order_modify ''a'' 0x4000000000000000 (Some 0xBFF0000000000000) 0 mbo_demo_book))),
    snd (order_execute ''a'' 0x7FF8000000000000 mbo_demo_book))
   = ([0], [0xBFF0000000000000, 0x4059000000000000], True, 0)"
  by code_simp

end
