(* ===== verification/Bbo.thy ===== *)
theory Bbo
  imports Models
begin

text \<open>
  The consolidated best bid and offer of \<open>bbo.py\<close>: the latest quote of every source per instrument, the eviction of the least
  recently updated instrument, the pruning of expired and ineligible quotes, the choice of the best sides and the counters.
  Whether the watchdog lists a source as active is an argument (theory Watchdog provides it).  The JSON text cached for the wire is
  represented by the record it is rendered from.
\<close>

section \<open>Data\<close>

record consolidated_bbo =
  cb_instrument :: string
  cb_best_bid :: "f64 option"
  cb_best_bid_size :: f64
  cb_best_bid_source :: string
  cb_best_ask :: "f64 option"
  cb_best_ask_size :: f64
  cb_best_ask_source :: string
  cb_spread :: "f64 option"
  cb_mid_price :: "f64 option"
  cb_is_crossed :: bool
  cb_is_locked :: bool
  cb_timestamp :: f64
  cb_is_stale :: bool
  cb_micro_price :: "f64 option"
  cb_imbalance :: "f64 option"

type_synonym source_book = "(string, cevent) dict"

record bbo_engine =
  be_ttl :: f64
  be_max :: int
  be_books :: "(string, source_book) dict"
  be_current :: "(string, consolidated_bbo) dict"
  be_wire :: "(string, consolidated_bbo) dict"
  be_attribution :: "(string, int \<times> int \<times> int) dict"
  be_updates :: int
  be_crossed :: int
  be_locked :: int

definition bbo_init :: "f64 \<Rightarrow> int \<Rightarrow> bbo_engine" where
  "bbo_init ttl mx =
     \<lparr>be_ttl = ttl, be_max = mx, be_books = [], be_current = [], be_wire = [], be_attribution = [], be_updates = 0,
      be_crossed = 0, be_locked = 0\<rparr>"

section \<open>The book of one instrument\<close>

text \<open>\<open>x or 0.0\<close> for a float and for an optional float.\<close>

definition or_zero :: "f64 \<Rightarrow> f64" where
  "or_zero x = (if f_mag x = 0 then 0 else x)"

definition opt_or_zero :: "f64 option \<Rightarrow> f64" where
  "opt_or_zero x = (case x of None \<Rightarrow> 0 | Some y \<Rightarrow> or_zero y)"

text \<open>Entering the instrument: the oldest one leaves when there is no room; \<open>popitem\<close> on an empty dictionary raises.\<close>

definition enter_instrument :: "string \<Rightarrow> bbo_engine \<Rightarrow> (bbo_engine \<times> source_book) res" where
  "enter_instrument inst e =
     (case dget (be_books e) inst of
        Some bk \<Rightarrow> Inr (e\<lparr>be_books := ddel (be_books e) inst @ [(inst, bk)]\<rparr>, bk)
      | None \<Rightarrow>
          if be_max e \<le> int (length (be_books e))
          then (case be_books e of
                  [] \<Rightarrow> Inl KeyError
                | (old, _) # rest \<Rightarrow>
                    Inr (e\<lparr>be_books := rest @ [(inst, [])], be_current := ddel (be_current e) old,
                           be_wire := ddel (be_wire e) old\<rparr>, []))
          else Inr (e\<lparr>be_books := be_books e @ [(inst, [])]\<rparr>, []))"

definition put_quote :: "(string \<Rightarrow> bool) \<Rightarrow> cevent \<Rightarrow> source_book \<Rightarrow> source_book" where
  "put_quote active ev bk =
     (if active (source ev)
      then (case dget bk (source ev) of
              None \<Rightarrow> dset bk (source ev) ev
            | Some old \<Rightarrow>
                if fle (or_zero (exchange_timestamp old)) (or_zero (exchange_timestamp ev))
                then dset bk (source ev) ev else bk)
      else ddel bk (source ev))"

definition dead_quote :: "(string \<Rightarrow> bool) \<Rightarrow> f64 \<Rightarrow> f64 \<Rightarrow> string \<times> cevent \<Rightarrow> bool" where
  "dead_quote active ttl now sq =
     (\<not> active (fst sq) \<or> flt ttl (fsub now (exchange_timestamp (snd sq))))"

definition prune :: "(string \<Rightarrow> bool) \<Rightarrow> f64 \<Rightarrow> f64 \<Rightarrow> source_book \<Rightarrow> source_book" where
  "prune active ttl now bk = foldl ddel bk (map fst (filter (dead_quote active ttl now) bk))"

section \<open>The best sides\<close>

text \<open>The price and size a quote offers on a side: finite, with a size that is not negative (and not NaN).\<close>

definition offers :: "(cevent \<Rightarrow> f64 option) \<Rightarrow> (cevent \<Rightarrow> f64 option) \<Rightarrow> cevent \<Rightarrow> (f64 \<times> f64) option" where
  "offers px sz q =
     (case px q of
        None \<Rightarrow> None
      | Some p \<Rightarrow> if f_isfinite p \<and> fle 0 (opt_or_zero (sz q)) then Some (p, opt_or_zero (sz q)) else None)"

definition better :: "bool \<Rightarrow> f64 \<Rightarrow> f64 \<Rightarrow> bool" where
  "better bid p best = (if bid then flt best p else flt p best)"

fun best_side ::
    "bool \<Rightarrow> (cevent \<Rightarrow> (f64 \<times> f64) option) \<Rightarrow> source_book \<Rightarrow> f64 \<times> f64 \<times> string \<Rightarrow> f64 \<times> f64 \<times> string" where
  "best_side bid off [] best = best"
| "best_side bid off ((s, q) # bk) (bp, bs, src) =
     best_side bid off bk
       (case off q of
          None \<Rightarrow> (bp, bs, src)
        | Some (p, z) \<Rightarrow> if better bid p bp \<or> feq p bp \<and> flt bs z then (p, z, s) else (bp, bs, src))"

definition f_ninf :: f64 where
  "f_ninf = 0xFFF0000000000000"

definition best_bid_of :: "source_book \<Rightarrow> f64 \<times> f64 \<times> string" where
  "best_bid_of bk = best_side True (offers bid_price bid_size) bk (f_ninf, 0, [])"

definition best_ask_of :: "source_book \<Rightarrow> f64 \<times> f64 \<times> string" where
  "best_ask_of bk = best_side False (offers ask_price ask_size) bk (f_inf, 0, [])"

definition C_2 :: f64 where "C_2 = 0x4000000000000000"

definition mid_of :: "f64 \<Rightarrow> f64 \<Rightarrow> f64 option res" where
  "mid_of bb ba =
     (if f_isfinite bb \<and> f_isfinite ba then bindr (fdiv (fadd bb ba) C_2) (\<lambda>m. Inr (Some m))
      else Inr (if f_isfinite bb then Some bb else if f_isfinite ba then Some ba else None))"

definition micro_of :: "f64 \<Rightarrow> f64 \<Rightarrow> f64 \<Rightarrow> f64 \<Rightarrow> f64 option \<Rightarrow> (f64 option \<times> f64 option) res" where
  "micro_of bb bsz ba asz mid =
     (if f_isfinite bb \<and> f_isfinite ba
      then let tot = fadd bsz asz
           in if flt 0 tot
              then bindr (fdiv (fadd (fmul bsz ba) (fmul asz bb)) tot) (\<lambda>m.
                   bindr (fdiv (fsub bsz asz) tot) (\<lambda>i. Inr (Some m, Some i)))
              else Inr (mid, Some 0)
      else Inr (None, None))"

definition consolidate :: "string \<Rightarrow> f64 \<Rightarrow> source_book \<Rightarrow> consolidated_bbo res" where
  "consolidate inst now bk =
     (let (bb, bsz, bsrc) = best_bid_of bk; (ba, asz, asrc) = best_ask_of bk;
          hb = f_isfinite bb; ha = f_isfinite ba
      in bindr (mid_of bb ba) (\<lambda>mid.
         bindr (micro_of bb bsz ba asz mid) (\<lambda>(micro, imb).
           Inr \<lparr>cb_instrument = inst, cb_best_bid = (if hb then Some bb else None), cb_best_bid_size = bsz,
                cb_best_bid_source = bsrc, cb_best_ask = (if ha then Some ba else None), cb_best_ask_size = asz,
                cb_best_ask_source = asrc, cb_spread = (if hb \<and> ha then Some (fsub ba bb) else None), cb_mid_price = mid,
                cb_is_crossed = (hb \<and> ha \<and> flt ba bb), cb_is_locked = (hb \<and> ha \<and> feq bb ba), cb_timestamp = now,
                cb_is_stale = False, cb_micro_price = micro, cb_imbalance = imb\<rparr>)))"

section \<open>Observing\<close>

definition attribute_venues :: "string \<Rightarrow> string \<Rightarrow> (string, int \<times> int \<times> int) dict \<Rightarrow> (string, int \<times> int \<times> int) dict" where
  "attribute_venues bsrc asrc att =
     (let fresh = (\<lambda>d v. if din v d then d else dset d v (0, 0, 0));
          at1 = fresh (fresh att bsrc) asrc;
          bump = (\<lambda>d v f. dset d v (f (dgetd d v (0, 0, 0))))
      in if bsrc = asrc then bump at1 bsrc (\<lambda>(b, a, c). (b + 1, a + 1, c + 1))
         else bump (bump at1 bsrc (\<lambda>(b, a, c). (b + 1, a, c))) asrc (\<lambda>(b, a, c). (b, a + 1, c)))"

definition relevant :: "cevent \<Rightarrow> bool" where
  "relevant ev =
     (event_type ev = QUOTE \<and> quality_status ev \<noteq> INVALID \<and> (bid_price ev \<noteq> None \<or> ask_price ev \<noteq> None))"

text \<open>Nothing is left of the book: the last result goes stale and the wire cache is dropped.\<close>

definition emptied :: "string \<Rightarrow> bbo_engine \<Rightarrow> bbo_engine" where
  "emptied inst e =
     e\<lparr>be_current := (case dget (be_current e) inst of
                         None \<Rightarrow> be_current e | Some b \<Rightarrow> dset (be_current e) inst (b\<lparr>cb_is_stale := True\<rparr>)),
       be_wire := ddel (be_wire e) inst\<rparr>"

definition publish_bbo :: "string \<Rightarrow> consolidated_bbo \<Rightarrow> bbo_engine \<Rightarrow> bbo_engine" where
  "publish_bbo inst b e =
     e\<lparr>be_current := dset (be_current e) inst b, be_wire := dset (be_wire e) inst b, be_updates := be_updates e + 1,
       be_crossed := be_crossed e + (if cb_is_crossed b then 1 else 0),
       be_locked := be_locked e + (if cb_is_locked b then 1 else 0),
       be_attribution := attribute_venues (cb_best_bid_source b) (cb_best_ask_source b) (be_attribution e)\<rparr>"

definition bbo_observe :: "(string \<Rightarrow> bool) \<Rightarrow> cevent \<Rightarrow> bbo_engine \<Rightarrow> bbo_engine \<times> consolidated_bbo option res" where
  "bbo_observe active ev e =
     (if \<not> relevant ev then (e, Inr None)
      else
        let inst = instrument_id ev; now = exchange_timestamp ev
        in case enter_instrument inst e of
             Inl x \<Rightarrow> (e, Inl x)
           | Inr (e1, bk) \<Rightarrow>
               let bk1 = prune active (be_ttl e) now (put_quote active ev bk);
                   e2 = e1\<lparr>be_books := dset (be_books e1) inst bk1\<rparr>
               in if bk1 = [] then (emptied inst e2, Inr None)
                  else case consolidate inst now bk1 of
                         Inl x \<Rightarrow> (e2, Inl x)
                       | Inr b \<Rightarrow> (publish_bbo inst b e2, Inr (Some b)))"

definition current_bbo :: "string \<Rightarrow> bool \<Rightarrow> f64 option \<Rightarrow> bbo_engine \<Rightarrow> bbo_engine \<times> consolidated_bbo option" where
  "current_bbo inst allow_stale now e =
     (case dget (be_current e) inst of
        None \<Rightarrow> (e, None)
      | Some b \<Rightarrow>
          let b1 = (case now of None \<Rightarrow> b | Some t \<Rightarrow> b\<lparr>cb_is_stale := flt (be_ttl e) (fsub t (cb_timestamp b))\<rparr>)
          in (e\<lparr>be_current := dset (be_current e) inst b1\<rparr>, if \<not> allow_stale \<and> cb_is_stale b1 then None else Some b1))"

text \<open>\<open>apply\<close>: exceptions of single events are swallowed.\<close>

definition bbo_apply :: "(string \<Rightarrow> bool) \<Rightarrow> cevent option list \<Rightarrow> bbo_engine \<Rightarrow> bbo_engine" where
  "bbo_apply active batch e = foldl (\<lambda>e x. case x of None \<Rightarrow> e | Some ev \<Rightarrow> fst (bbo_observe active ev e)) e batch"

section \<open>The chosen side is the best one\<close>















lemma positive_nonzero: "flt 0 x \<Longrightarrow> f_mag x \<noteq> 0"
proof
  assume "flt 0 x" and "f_mag x = 0"
  moreover have "f_key 0 = 0" by (simp add: f_key_def f_mag_def f_sign_def)
  ultimately show False by (auto simp: flt_def f_key_def split: if_splits)
qed

lemma fdiv_total: "f_mag b \<noteq> 0 \<Longrightarrow> \<exists>c. fdiv a b = Inr c"
  by (simp add: fdiv_def Let_def)

lemma consolidate_total: "\<exists>b. consolidate inst now bk = Inr b"
proof -
  have two: "f_mag C_2 \<noteq> 0" by (simp add: C_2_def f_mag_def)
  have mid: "\<exists>m. mid_of bb ba = Inr m" for bb ba using fdiv_total [OF two, of "fadd bb ba"] by (auto simp: mid_of_def)
  have micro: "\<exists>m. micro_of bb bsz ba asz mid = Inr m" for bb bsz ba asz mid
  proof (cases "flt 0 (fadd bsz asz)")
    case True
    then show ?thesis
      using fdiv_total [OF positive_nonzero, of "fadd bsz asz" "fadd (fmul bsz ba) (fmul asz bb)"]
        fdiv_total [OF positive_nonzero, of "fadd bsz asz" "fsub bsz asz"] by (auto simp: micro_of_def Let_def)
  qed (simp add: micro_of_def Let_def)
  obtain bb bsz bsrc ba asz asrc where sides: "best_bid_of bk = (bb, bsz, bsrc)" "best_ask_of bk = (ba, asz, asrc)"
    by (metis prod_cases3)
  obtain m where m: "mid_of bb ba = Inr m" using mid by blast
  obtain mi i where "micro_of bb bsz ba asz m = Inr (mi, i)" using micro by (metis surj_pair)
  then show ?thesis using sides m by (simp add: consolidate_def Let_def)
qed

lemma prune_alive: "(s, q) \<in> set (prune active ttl now bk) \<Longrightarrow> active s \<and> \<not> flt ttl (fsub now (exchange_timestamp q))"
  unfolding prune_def foldl_ddel by (force simp: dead_quote_def)















section \<open>Bounded memory\<close>

definition keyset :: "('k, 'v) dict \<Rightarrow> 'k set" where
  "keyset d = fst ` set d"

lemma keyset_simps [simp]:
  "keyset [] = {}" "keyset (p # d) = insert (fst p) (keyset d)" "keyset (d @ d') = keyset d \<union> keyset d'"
  "keyset (dset d k v) = insert k (keyset d)" "keyset (ddel d k) = keyset d - {k}"
proof -
  show "keyset (dset d k v) = insert k (keyset d)" by (induction d) (auto simp: keyset_def)
  show "keyset (ddel d k) = keyset d - {k}" unfolding keyset_def ddel_filter by auto
qed (auto simp: keyset_def)

lemma keyset_din: "din k d \<longleftrightarrow> k \<in> keyset d"
  by (simp add: din_iff keyset_def)

lemma keyset_None: "dget d k = None \<longleftrightarrow> k \<notin> keyset d"
  by (simp add: map_of_eq_None_iff keyset_def)

lemma keyset_length: assumes "dwf c" and "dwf d" and "keyset c \<subseteq> keyset d" shows "length c \<le> length d"
proof -
  have "card (keyset c) = length c" "card (keyset d) = length d"
    using assms(1,2) distinct_card [of "dkeys c"] distinct_card [of "dkeys d"] by (simp_all add: keyset_def dwf_def)
  then show ?thesis using card_mono [OF _ assms(3)] by (simp add: keyset_def)
qed

lemma dwf_snoc: "dwf (d @ [(k, v)]) \<longleftrightarrow> dwf d \<and> k \<notin> keyset d"
  by (auto simp: dwf_def keyset_def)

lemma dwf_Cons: "dwf ((k, v) # d) \<longleftrightarrow> dwf d \<and> k \<notin> keyset d"
  by (auto simp: dwf_def keyset_def)

definition bbo_inv :: "bbo_engine \<Rightarrow> bool" where
  "bbo_inv e =
     (dwf (be_books e) \<and> dwf (be_current e) \<and> dwf (be_wire e) \<and> 1 \<le> be_max e \<and> int (length (be_books e)) \<le> be_max e
      \<and> keyset (be_current e) \<subseteq> keyset (be_books e) \<and> keyset (be_wire e) \<subseteq> keyset (be_current e))"

lemma enter_inv:
  assumes "bbo_inv e" and "enter_instrument inst e = Inr (e1, bk)"
  shows "bbo_inv e1" and "be_max e1 = be_max e" and "din inst (be_books e1)"
proof -
  show "be_max e1 = be_max e" using assms(2) by (auto simp: enter_instrument_def split: option.splits if_splits list.splits)
  have "bbo_inv e1 \<and> din inst (be_books e1)"
  proof (cases "dget (be_books e) inst")
    case None
    then show ?thesis using assms
      by (cases "be_books e") (auto simp: enter_instrument_def bbo_inv_def dwf_snoc dwf_Cons keyset_din keyset_None split: if_splits)
  next
    case (Some b)
    have "length (ddel (be_books e) inst @ [(inst, b)]) = length (be_books e)"
      using assms(1) Some length_ddel [of "be_books e" inst] by (cases "be_books e") (auto simp: bbo_inv_def din_def)
    then show ?thesis using assms Some
      by (auto simp: enter_instrument_def bbo_inv_def dwf_snoc keyset_din)
  qed
  then show "bbo_inv e1" "din inst (be_books e1)" by auto
qed

lemma observe_inv:
  assumes "bbo_inv e"
  shows "bbo_inv (fst (bbo_observe active ev e))" and "be_max (fst (bbo_observe active ev e)) = be_max e"
    and "\<exists>x. snd (bbo_observe active ev e) = Inr x"
proof -
  let ?i = "instrument_id ev"
  show "\<exists>x. snd (bbo_observe active ev e) = Inr x"
    using assms consolidate_total
    by (auto simp: bbo_observe_def Let_def enter_instrument_def bbo_inv_def split: sum.split option.split list.split)
       (metis Inl_Inr_False)+
  have "bbo_inv (fst (bbo_observe active ev e)) \<and> be_max (fst (bbo_observe active ev e)) = be_max e"
  proof (cases "relevant ev \<and> (\<exists>e1 bk. enter_instrument ?i e = Inr (e1, bk))")
    case True
    then obtain e1 bk where en: "enter_instrument ?i e = Inr (e1, bk)" by blast
    note i = enter_inv [OF assms en]
    have l: "length (dset (be_books e1) ?i v) = length (be_books e1)" for v using i(3) by (simp add: length_dset)
    obtain b where b: "consolidate ?i (exchange_timestamp ev) (prune active (be_ttl e) (exchange_timestamp ev) (put_quote active ev bk)) = Inr b"
      using consolidate_total by blast
    show ?thesis using True en i b
      by (simp add: bbo_observe_def Let_def emptied_def publish_bbo_def bbo_inv_def l keyset_din split: option.split) blast
  qed (use assms in \<open>auto simp: bbo_observe_def Let_def split: sum.split\<close>)
  then show "bbo_inv (fst (bbo_observe active ev e))" "be_max (fst (bbo_observe active ev e)) = be_max e" by auto
qed

lemma apply_inv: "bbo_inv e \<Longrightarrow> bbo_inv (bbo_apply active evs e) \<and> be_max (bbo_apply active evs e) = be_max e"
  by (induction evs arbitrary: e) (auto simp: bbo_apply_def observe_inv split: option.split)

text \<open>
  Memory is bounded by \<open>max_instruments\<close> and no quote makes the engine raise: with room for at least one instrument, after any
  sequence of events the books, the current quotes and the wire cache hold at most that many instruments, and the next event
  is processed without an exception.
\<close>

theorem bbo_memory_is_bounded:
  assumes "1 \<le> mx" and "e = bbo_apply active evs (bbo_init ttl mx)"
  shows "int (length (be_books e)) \<le> mx \<and> int (length (be_current e)) \<le> mx \<and> int (length (be_wire e)) \<le> mx
    \<and> (\<exists>x. snd (bbo_observe active ev e) = Inr x)"
proof -
  have "bbo_inv (bbo_init ttl mx)" using assms(1) by (simp add: bbo_inv_def bbo_init_def)
  from apply_inv [OF this] have inv: "bbo_inv e" and m: "be_max e = mx" using assms(2) by (auto simp: bbo_init_def)
  have "length (be_current e) \<le> length (be_books e)" "length (be_wire e) \<le> length (be_current e)"
    using inv keyset_length unfolding bbo_inv_def by blast+
  then show ?thesis using inv m observe_inv(3) [OF inv] by (simp add: bbo_inv_def)
qed

section \<open>Instances\<close>

definition demo_quote :: "string \<Rightarrow> f64 option \<Rightarrow> f64 option \<Rightarrow> cevent" where
  "demo_quote s b a =
     \<lparr>event_id = [], instrument_id = ''I'', event_type = QUOTE, exchange_timestamp = 0, receive_timestamp = 0, source = s,
      sequence_number = None, price = None, quantity = None, bid_price = b, bid_size = None, ask_price = a, ask_size = None,
      quality_status = VALID, reasons = [], session_id = None, venue = []\<rparr>"

definition demo_bbo :: bbo_engine where
  "demo_bbo = bbo_apply (\<lambda>_. True) [Some (demo_quote ''X'' (Some 0x4058C00000000000) (Some 0x4059000000000000))] (bbo_init C_2 10)"

theorem bbo_memory_is_bounded_witness: "int (length (be_books demo_bbo)) \<le> 10"
  using bbo_memory_is_bounded [OF _ demo_bbo_def] by simp



end
