(* ===== verification/Depth.thy ===== *)
theory Depth
  imports Bbo Pyvalue
begin

text \<open>
  The consolidated depth engine of \<open>depth.py\<close>: the ladders of every venue per instrument, their aggregation into price rungs, the
  top-of-book statistics, order flow, the walk that estimates the price of a market order, and eviction.  An event comes as a
  canonical event; the reading of untyped raw payloads and the cached JSON text are left out.  The watchdog and the built-in
  \<open>sum\<close> on floats (whose rounding depends on the interpreter version) are arguments.
\<close>

section \<open>Data\<close>

record depth_level =
  dl_price :: f64
  dl_size :: f64
  dl_venue :: string
  dl_order_count :: int

record agg_level =
  ag_price :: f64
  ag_total_size :: f64
  ag_venue_sizes :: "(string, f64) dict"
  ag_order_count :: int
  ag_cum_size :: f64
  ag_cum_notional :: f64

record vwap_slice =
  vs_side :: string
  vs_target_size :: f64
  vs_filled_size :: f64
  vs_vwap_price :: f64
  vs_slippage_bps :: f64
  vs_slippage_dollars :: f64
  vs_effective_spread_bps :: f64
  vs_is_fully_filled :: bool
  vs_venue_breakdown :: "(string, f64) dict"
  vs_total_notional :: f64

record vwap_curve =
  vc_instrument :: string
  vc_timestamp :: f64
  vc_mid_price :: f64
  vc_best_bid :: f64
  vc_best_ask :: f64
  vc_buy_slices :: "vwap_slice list"
  vc_sell_slices :: "vwap_slice list"
  vc_depth_10bps :: "f64 \<times> f64"
  vc_depth_50bps :: "f64 \<times> f64"
  vc_depth_100bps :: "f64 \<times> f64"

record crossing =
  cr_bid_venue :: string
  cr_bid_price :: f64
  cr_bid_size :: f64
  cr_ask_venue :: string
  cr_ask_price :: f64
  cr_ask_size :: f64
  cr_arb_spread :: f64
  cr_max_volume :: f64

record ladder =
  la_instrument :: string
  la_bids :: "depth_level list"
  la_asks :: "depth_level list"
  la_timestamp :: f64
  la_micro_price :: f64
  la_imbalance :: f64
  la_is_crossed :: bool
  la_crossed :: "crossing list"
  la_agg_bids :: "agg_level list"
  la_agg_asks :: "agg_level list"
  la_bid_notional :: f64
  la_ask_notional :: f64
  la_curve :: "vwap_curve option"
  la_ofi :: f64
  la_cum_ofi :: f64
  la_cvd :: f64

section \<open>Walking a ladder\<close>

definition F_5 :: f64 where "F_5 = 0x4014000000000000"
definition F_10 :: f64 where "F_10 = 0x4024000000000000"
definition F_25 :: f64 where "F_25 = 0x4039000000000000"
definition F_50 :: f64 where "F_50 = 0x4049000000000000"
definition F_C :: f64 where "F_C = 0x4059000000000000"
definition F_10000 :: f64 where "F_10000 = 0x40C3880000000000"
definition F_I :: f64 where "F_I = 0x3FF0000000000000"
definition F_NANO :: f64 where "F_NANO = 0x3E112E0BE826D695"

definition top_price :: "depth_level list \<Rightarrow> f64" where
  "top_price ls = (case ls of [] \<Rightarrow> 0 | l # _ \<Rightarrow> dl_price l)"

text \<open>The mid price when both sides are there and finite, and otherwise a default.\<close>

definition mid_or :: "f64 \<Rightarrow> ladder \<Rightarrow> f64 res" where
  "mid_or dflt la =
     (let bb = top_price (la_bids la); ba = top_price (la_asks la)
      in if la_bids la \<noteq> [] \<and> la_asks la \<noteq> [] \<and> f_isfinite bb \<and> f_isfinite ba then fdiv (fadd bb ba) C_2 else Inr dflt)"

definition depth_within_bps :: "(f64 list \<Rightarrow> f64) \<Rightarrow> f64 \<Rightarrow> ladder \<Rightarrow> (f64 \<times> f64) res" where
  "depth_within_bps psum bps la =
     bindr (mid_or 0 la) (\<lambda>mid.
       if fle mid 0 then Inr (0, 0)
       else bindr (fdiv bps F_10000) (\<lambda>w.
         let lo = fmul mid (fsub F_I w); hi = fmul mid (fadd F_I w)
         in Inr (psum [fmul (dl_price b) (dl_size b). b \<leftarrow> la_bids la, fle lo (dl_price b)],
                 psum [fmul (dl_price a) (dl_size a). a \<leftarrow> la_asks la, fle (dl_price a) hi])))"

fun sweep :: "depth_level list \<Rightarrow> f64 \<Rightarrow> f64 \<Rightarrow> (string, f64) dict \<Rightarrow> f64 \<times> f64 \<times> (string, f64) dict" where
  "sweep [] remaining notional ven = (remaining, notional, ven)"
| "sweep (l # ls) remaining notional ven =
     (if fle remaining F_NANO then (remaining, notional, ven)
      else let fill = fmin remaining (dl_size l)
           in sweep ls (fsub remaining fill) (fadd notional (fmul (dl_price l) fill))
                (dset ven (dl_venue l) (fadd (dgetd ven (dl_venue l) 0) fill)))"

definition bps_of :: "f64 \<Rightarrow> f64 \<Rightarrow> f64 res" where
  "bps_of x base = (if flt 0 base then bindr (fdiv x base) (\<lambda>r. Inr (fmul r F_10000)) else Inr 0)"

definition compute_vwap :: "string \<Rightarrow> f64 \<Rightarrow> ladder \<Rightarrow> vwap_slice res" where
  "compute_vwap sd target la =
     (let s = map upper sd
      in if s \<noteq> ''BUY'' \<and> s \<noteq> ''SELL'' then Inl ValueError
         else
           let buy = (s = ''BUY''); levels = (if buy then la_asks la else la_bids la);
               best = (if buy then top_price (la_asks la) else top_price (la_bids la))
           in bindr (mid_or best la) (\<lambda>mid.
                if \<not> f_isfinite target \<or> fle target 0 then Inl ValueError
                else
                  let (remaining, notional, ven) = sweep levels target 0 []; filled = fsub target remaining
                  in bindr (if flt 0 filled then fdiv notional filled else Inr best) (\<lambda>vw.
                       let slip = fmax 0 (if buy then fsub vw best else fsub best vw)
                       in bindr (bps_of slip best) (\<lambda>sbps.
                          bindr (bps_of (if buy then fsub vw mid else fsub mid vw) mid) (\<lambda>ebps.
                            Inr \<lparr>vs_side = s, vs_target_size = target, vs_filled_size = filled, vs_vwap_price = vw,
                                 vs_slippage_bps = sbps, vs_slippage_dollars = slip, vs_effective_spread_bps = ebps,
                                 vs_is_fully_filled = fle remaining F_NANO, vs_venue_breakdown = ven,
                                 vs_total_notional = notional\<rparr>)))))"

fun vwaps :: "string \<Rightarrow> f64 list \<Rightarrow> ladder \<Rightarrow> vwap_slice list res" where
  "vwaps sd [] la = Inr []"
| "vwaps sd (s # ss) la = bindr (compute_vwap sd s la) (\<lambda>v. bindr (vwaps sd ss la) (\<lambda>vs. Inr (v # vs)))"

definition default_sizes :: "f64 list" where
  "default_sizes = [F_I, F_5, F_10, F_25, F_50]"

definition compute_vwap_curve :: "(f64 list \<Rightarrow> f64) \<Rightarrow> f64 list option \<Rightarrow> ladder \<Rightarrow> vwap_curve res" where
  "compute_vwap_curve psum sizes la =
     (let ss = (case sizes of None \<Rightarrow> default_sizes | Some ss \<Rightarrow> ss)
      in bindr (mid_or 0 la) (\<lambda>mid.
         bindr (vwaps ''BUY'' ss la) (\<lambda>bs.
         bindr (vwaps ''SELL'' ss la) (\<lambda>ss'.
         bindr (depth_within_bps psum F_10 la) (\<lambda>d10.
         bindr (depth_within_bps psum F_50 la) (\<lambda>d50.
         bindr (depth_within_bps psum F_C la) (\<lambda>d100.
           Inr \<lparr>vc_instrument = la_instrument la, vc_timestamp = la_timestamp la, vc_mid_price = mid,
                vc_best_bid = top_price (la_bids la), vc_best_ask = top_price (la_asks la), vc_buy_slices = bs,
                vc_sell_slices = ss', vc_depth_10bps = d10, vc_depth_50bps = d50, vc_depth_100bps = d100\<rparr>)))))))"

section \<open>Aggregation\<close>

text \<open>One rung of \<open>price_map\<close>: the price, the total size, the sizes per venue and the number of orders.\<close>

type_synonym rung = "f64 \<times> f64 \<times> (string, f64) dict \<times> int"

definition add_level :: "(int, rung) dict \<Rightarrow> depth_level \<Rightarrow> (int, rung) dict" where
  "add_level m l =
     (let (p, tot, ven, n) = dgetd m (f_key (dl_price l)) (dl_price l, 0, [], 0)
      in dset m (f_key (dl_price l))
           (p, fadd tot (dl_size l), dset ven (dl_venue l) (fadd (dgetd ven (dl_venue l) 0) (dl_size l)), n + dl_order_count l))"

fun cumulate :: "rung list \<Rightarrow> f64 \<Rightarrow> f64 \<Rightarrow> agg_level list" where
  "cumulate [] cs cn = []"
| "cumulate ((p, tot, ven, n) # rs) cs cn =
     (let cs1 = fadd cs tot; cn1 = fadd cn (fmul p tot)
      in \<lparr>ag_price = p, ag_total_size = tot, ag_venue_sizes = ven, ag_order_count = n, ag_cum_size = cs1,
          ag_cum_notional = cn1\<rparr> # cumulate rs cs1 cn1)"

definition aggregate_levels :: "bool \<Rightarrow> depth_level list \<Rightarrow> agg_level list" where
  "aggregate_levels descending ls =
     (let m = sort_key fst (foldl add_level [] ls)
      in cumulate (map snd (if descending then rev m else m)) 0 0)"

section \<open>The engine\<close>

record venue_book =
  vb_bids :: "(f64 \<times> f64) list"
  vb_asks :: "(f64 \<times> f64) list"
  vb_updated_at :: f64

record depth_engine =
  de_ttl :: f64
  de_max_levels :: int
  de_max_instruments :: int
  de_books :: "(string, (string, venue_book) dict) dict"
  de_ladders :: "(string, ladder) dict"
  de_updates :: int
  de_crossed :: int
  de_prev_tob :: "(string, f64 \<times> f64 \<times> f64 \<times> f64) dict"
  de_cum_ofi :: "(string, f64) dict"
  de_cum_cvd :: "(string, f64) dict"
  de_last_seen :: "(string, f64) dict"

definition depth_init :: "f64 \<Rightarrow> int \<Rightarrow> int \<Rightarrow> depth_engine" where
  "depth_init ttl lv mx =
     \<lparr>de_ttl = ttl, de_max_levels = lv, de_max_instruments = mx, de_books = [], de_ladders = [], de_updates = 0, de_crossed = 0,
      de_prev_tob = [], de_cum_ofi = [], de_cum_cvd = [], de_last_seen = []\<rparr>"

definition forget_instrument :: "depth_engine \<Rightarrow> string \<Rightarrow> depth_engine" where
  "forget_instrument e i =
     e\<lparr>de_books := ddel (de_books e) i, de_ladders := ddel (de_ladders e) i, de_prev_tob := ddel (de_prev_tob e) i,
       de_cum_ofi := ddel (de_cum_ofi e) i, de_cum_cvd := ddel (de_cum_cvd e) i, de_last_seen := ddel (de_last_seen e) i\<rparr>"

text \<open>The instruments by age; without NaN among the times, Python's sort is the stable sort by \<^const>\<open>f_key\<close>.\<close>

definition evict_stale :: "depth_engine \<Rightarrow> depth_engine" where
  "evict_stale e =
     (if int (length (de_ladders e)) \<le> de_max_instruments e then e
      else let by_age = sort_key (\<lambda>kv. f_key (snd kv)) (de_last_seen e);
               n = nat (int (length (de_ladders e)) - de_max_instruments e)
           in foldl forget_instrument e (map fst (take n by_age)))"

definition observe_trade :: "string \<Rightarrow> f64 \<Rightarrow> f64 \<Rightarrow> string option \<Rightarrow> depth_engine \<Rightarrow> depth_engine res" where
  "observe_trade inst px qty sd e =
     (let add = (\<lambda>delta. e\<lparr>de_cum_cvd := dset (de_cum_cvd e) inst (fadd (dgetd (de_cum_cvd e) inst 0) delta)\<rparr>)
      in case sd of
           Some (c # cs) \<Rightarrow>
             let s = map upper (c # cs)
             in Inr (add (if s \<in> {''BUY'', ''B'', ''1''} then qty else if s \<in> {''SELL'', ''S'', ''-1''} then fneg qty else 0))
         | _ \<Rightarrow>
             (case dget (de_ladders e) inst of
                Some la \<Rightarrow>
                  if la_bids la \<noteq> [] \<and> la_asks la \<noteq> []
                  then let bb = top_price (la_bids la); ba = top_price (la_asks la)
                       in bindr (fdiv (fadd bb ba) C_2) (\<lambda>mid.
                            Inr (add (if fle ba px then qty else if fle px bb then fneg qty
                                      else if fle mid px then qty else fneg qty)))
                  else Inr (add qty)
              | None \<Rightarrow> Inr (add qty)))"

definition usable_row :: "f64 \<times> f64 \<Rightarrow> bool" where
  "usable_row r = (f_isfinite (fst r) \<and> f_isfinite (snd r) \<and> flt 0 (fst r) \<and> flt 0 (snd r))"

definition levels_of :: "(venue_book \<Rightarrow> (f64 \<times> f64) list) \<Rightarrow> (string, venue_book) dict \<Rightarrow> depth_level list" where
  "levels_of side bk =
     concat (map (\<lambda>(v, b). map (\<lambda>(p, s). \<lparr>dl_price = p, dl_size = s, dl_venue = v, dl_order_count = 1\<rparr>) (filter usable_row (side b))) bk)"

text \<open>\<open>xs[:n]\<close> and the levels of the kept rungs, sorted by price; the sort is stable in both directions.\<close>

definition take_to :: "int \<Rightarrow> 'a list \<Rightarrow> 'a list" where
  "take_to n xs = (if 0 \<le> n then take (nat n) xs else take (length xs - nat (- n)) xs)"

definition merge_side :: "bool \<Rightarrow> agg_level list \<Rightarrow> depth_level list \<Rightarrow> depth_level list" where
  "merge_side descending agg ls =
     sort_key (\<lambda>l. if descending then - f_key (dl_price l) else f_key (dl_price l))
       (filter (\<lambda>l. \<exists>a \<in> set agg. feq (ag_price a) (dl_price l)) ls)"

definition flow_delta :: "(f64 \<times> f64 \<times> f64 \<times> f64) option \<Rightarrow> f64 \<Rightarrow> f64 \<Rightarrow> f64 \<Rightarrow> f64 \<Rightarrow> f64" where
  "flow_delta prev bb bsz ba asz =
     (case prev of
        None \<Rightarrow> 0
      | Some (pbb, pbs, pba, pas) \<Rightarrow>
          let wb = (if flt pbb bb then bsz else if feq bb pbb then fsub bsz pbs else fneg pbs);
              wa = (if flt ba pba then asz else if feq ba pba then fsub asz pas else fneg pas)
          in fsub wb wa)"

definition crossings :: "depth_level list \<Rightarrow> depth_level list \<Rightarrow> crossing list" where
  "crossings bids asks =
     [\<lparr>cr_bid_venue = dl_venue b, cr_bid_price = dl_price b, cr_bid_size = dl_size b, cr_ask_venue = dl_venue a,
       cr_ask_price = dl_price a, cr_ask_size = dl_size a, cr_arb_spread = fround (fsub (dl_price b) (dl_price a)) 4,
       cr_max_volume = fmin (dl_size b) (dl_size a)\<rparr>.
      b \<leftarrow> bids, a \<leftarrow> asks, flt (dl_price a) (dl_price b) \<and> dl_venue b \<noteq> dl_venue a]"

definition depth_micro :: "f64 \<Rightarrow> f64 \<Rightarrow> f64 \<Rightarrow> f64 \<Rightarrow> f64 res" where
  "depth_micro bb bsz ba asz =
     (if flt 0 (fadd bsz asz) then fdiv (fadd (fmul bb asz) (fmul ba bsz)) (fadd bsz asz) else fdiv (fadd bb ba) C_2)"

definition depth_imbalance :: "(f64 list \<Rightarrow> f64) \<Rightarrow> agg_level list \<Rightarrow> agg_level list \<Rightarrow> f64 res" where
  "depth_imbalance psum bids asks =
     (let b = psum (map ag_total_size bids); a = psum (map ag_total_size asks)
      in if flt 0 (fadd b a) then fdiv (fsub b a) (fadd b a) else Inr 0)"

text \<open>The ladder from the levels of both sides, and the flow state; \<open>build\<close> is the tail of \<open>observe\<close>.\<close>

definition build_ladder ::
    "(f64 list \<Rightarrow> f64) \<Rightarrow> string \<Rightarrow> f64 \<Rightarrow> depth_level list \<Rightarrow> depth_level list \<Rightarrow> depth_engine \<Rightarrow> depth_engine \<times> ladder option res" where
  "build_ladder psum inst t bids asks e =
     (let ab = take_to (de_max_levels e) (aggregate_levels True bids); aa = take_to (de_max_levels e) (aggregate_levels False asks);
          mb = merge_side True ab bids; ma = merge_side False aa asks
      in case (ab, aa) of
           (b0 # _, a0 # _) \<Rightarrow>
             let bb = ag_price b0; bsz = ag_total_size b0; ba = ag_price a0; asz = ag_total_size a0
             in (case depth_micro bb bsz ba asz of
                   Inl x \<Rightarrow> (e, Inl x)
                 | Inr micro \<Rightarrow>
                   (case depth_imbalance psum ab aa of
                      Inl x \<Rightarrow> (e, Inl x)
                    | Inr imb \<Rightarrow>
                        let d = flow_delta (dget (de_prev_tob e) inst) bb bsz ba asz;
                            cum = fadd (dgetd (de_cum_ofi e) inst 0) d; cvd = dgetd (de_cum_cvd e) inst 0;
                            opps = crossings mb ma;
                            e1 = e\<lparr>de_prev_tob := dset (de_prev_tob e) inst (bb, bsz, ba, asz),
                                   de_cum_ofi := dset (de_cum_ofi e) inst cum,
                                   de_crossed := de_crossed e + (if opps = [] then 0 else 1), de_updates := de_updates e + 1\<rparr>;
                            la = \<lparr>la_instrument = inst, la_bids = mb, la_asks = ma, la_timestamp = t, la_micro_price = micro,
                                  la_imbalance = imb, la_is_crossed = (opps \<noteq> []), la_crossed = opps, la_agg_bids = ab, la_agg_asks = aa,
                                  la_bid_notional = psum (map (\<lambda>l. fmul (dl_price l) (dl_size l)) bids),
                                  la_ask_notional = psum (map (\<lambda>l. fmul (dl_price l) (dl_size l)) asks),
                                  la_curve = None, la_ofi = fround d 4, la_cum_ofi = fround cum 4, la_cvd = fround cvd 4\<rparr>
                        in (case compute_vwap_curve psum None la of
                              Inl x \<Rightarrow> (e1, Inl x)
                            | Inr c \<Rightarrow>
                                let la' = la\<lparr>la_curve := Some c\<rparr>
                                in (e1\<lparr>de_ladders := dset (de_ladders e1) inst la'\<rparr>, Inr (Some la')))))
         | (_, _) \<Rightarrow> (e, Inl IndexError))"

text \<open>
  The body of \<open>observe\<close> after the event has been read: store the rows of the source if they are not older, evict, prune, build.
  The book of the instrument is kept in hand during the call, so an eviction of the very instrument does not end it.
\<close>

definition dead_venue :: "(string \<Rightarrow> bool) \<Rightarrow> f64 \<Rightarrow> f64 \<Rightarrow> string \<times> venue_book \<Rightarrow> bool" where
  "dead_venue active ttl t vb = (\<not> active (fst vb) \<or> flt ttl (fsub t (vb_updated_at (snd vb))))"

definition store_rows :: "string \<Rightarrow> f64 \<Rightarrow> (f64 \<times> f64) list \<Rightarrow> (f64 \<times> f64) list \<Rightarrow> (string, venue_book) dict \<Rightarrow> (string, venue_book) dict" where
  "store_rows src t bids asks bk =
     (if bids = [] \<and> asks = [] then bk
      else case dget bk src of
             Some old \<Rightarrow> if fle (vb_updated_at old) t then dset bk src \<lparr>vb_bids = bids, vb_asks = asks, vb_updated_at = t\<rparr> else bk
           | None \<Rightarrow> dset bk src \<lparr>vb_bids = bids, vb_asks = asks, vb_updated_at = t\<rparr>)"

definition update_depth ::
    "(string \<Rightarrow> bool) \<Rightarrow> (f64 list \<Rightarrow> f64) \<Rightarrow> string \<Rightarrow> string \<Rightarrow> f64 \<Rightarrow> (f64 \<times> f64) list \<Rightarrow> (f64 \<times> f64) list
     \<Rightarrow> depth_engine \<Rightarrow> depth_engine \<times> ladder option res" where
  "update_depth active psum src inst t bids asks e =
     (if \<not> active src then (e, Inr None)
      else
        let bk = store_rows src t bids asks (dgetd (de_books e) inst []);
            e1 = evict_stale (e\<lparr>de_books := dset (de_books e) inst bk, de_last_seen := dset (de_last_seen e) inst t\<rparr>);
            bk1 = foldl ddel bk (map fst (filter (dead_venue active (de_ttl e) t) bk));
            e2 = (if din inst (de_books e1) then e1\<lparr>de_books := dset (de_books e1) inst bk1\<rparr> else e1);
            bs = levels_of vb_bids bk1; as = levels_of vb_asks bk1
        in if bk1 = [] \<or> bs = [] \<or> as = [] then (e2, Inr None) else build_ladder psum inst t bs as e2)"

definition size_or_one :: "f64 option \<Rightarrow> f64" where
  "size_or_one z = (case z of None \<Rightarrow> F_I | Some x \<Rightarrow> if f_mag x = 0 then F_I else x)"

definition depth_observe :: "(string \<Rightarrow> bool) \<Rightarrow> (f64 list \<Rightarrow> f64) \<Rightarrow> cevent \<Rightarrow> depth_engine \<Rightarrow> depth_engine \<times> ladder option res" where
  "depth_observe active psum ev e =
     (if quality_status ev = INVALID then (e, Inr None)
      else
        let src = map upper (source ev); inst = instrument_id ev;
            q = size_or_one (quantity ev);
            traded = (case (event_type ev, price ev) of
                        (TRADE, Some px) \<Rightarrow> if flt 0 px \<and> flt 0 q then observe_trade inst px q None e else Inr e
                      | _ \<Rightarrow> Inr e);
            bids = (case bid_price ev of None \<Rightarrow> [] | Some p \<Rightarrow> [(p, size_or_one (bid_size ev))]);
            asks = (case ask_price ev of None \<Rightarrow> [] | Some p \<Rightarrow> [(p, size_or_one (ask_size ev))])
        in case traded of
             Inl x \<Rightarrow> (e, Inl x)
           | Inr e1 \<Rightarrow> update_depth active psum src inst (exchange_timestamp ev) bids asks e1)"

end
