(* ===== verification/Depth_Props.thy ===== *)
theory Depth_Props
  imports Depth
begin

text \<open>
  Properties of the depth engine: a published ladder is the aggregation of the usable levels of all live venues into price rungs,
  cut to the best ones, with running totals, and the walk along a ladder takes from each level in order the smaller of what is wanted and
  what it holds.
\<close>

section \<open>Rungs\<close>

definition at_price :: "int \<Rightarrow> depth_level list \<Rightarrow> depth_level list" where
  "at_price k ls = [l \<leftarrow> ls. f_key (dl_price l) = k]"

text \<open>The venue sizes of a list of levels, and the rung they make.\<close>

definition venue_totals :: "depth_level list \<Rightarrow> (string, f64) dict" where
  "venue_totals ls = foldl (\<lambda>d l. dset d (dl_venue l) (fadd (dgetd d (dl_venue l) 0) (dl_size l))) [] ls"

definition rung_of :: "depth_level list \<Rightarrow> rung option" where
  "rung_of ls =
     (case ls of
        [] \<Rightarrow> None
      | l # _ \<Rightarrow> Some (dl_price l, foldl fadd 0 (map dl_size ls), venue_totals ls, sum_list (map dl_order_count ls)))"

lemma rung_of_snoc:
  "rung_of (ls @ [l]) =
     (let (p, t, v, n) = (case rung_of ls of None \<Rightarrow> (dl_price l, 0, [], 0) | Some r \<Rightarrow> r)
      in Some (p, fadd t (dl_size l), dset v (dl_venue l) (fadd (dgetd v (dl_venue l) 0) (dl_size l)), n + dl_order_count l))"
  by (cases ls) (simp_all add: rung_of_def venue_totals_def)

lemma price_map:
  "dwf (foldl add_level [] ls) \<and> (\<forall>k. dget (foldl add_level [] ls) k = rung_of (at_price k ls))"
proof (induction ls rule: rev_induct)
  case Nil
  then show ?case by (simp add: at_price_def rung_of_def)
next
  case (snoc l ls)
  have "at_price k (ls @ [l]) = (if f_key (dl_price l) = k then at_price k ls @ [l] else at_price k ls)" for k
    by (simp add: at_price_def)
  then show ?case using snoc
    by (auto simp: add_level_def dget_dset dgetd_def rung_of_snoc Let_def split: prod.split option.split)
qed

lemma price_map_keys: "fst ` set (foldl add_level [] ls) = (\<lambda>l. f_key (dl_price l)) ` set ls"
proof -
  have "k \<in> fst ` set (foldl add_level [] ls) \<longleftrightarrow> at_price k ls \<noteq> []" for k
    using price_map [of ls] map_of_eq_None_iff [of "foldl add_level [] ls" k]
    by (cases "at_price k ls") (auto simp: rung_of_def)
  then have "k \<in> fst ` set (foldl add_level [] ls) \<longleftrightarrow> k \<in> (\<lambda>l. f_key (dl_price l)) ` set ls" for k
    by (auto simp: at_price_def filter_empty_conv)
  then show ?thesis by blast
qed

definition price_ladder :: "bool \<Rightarrow> depth_level list \<Rightarrow> int list" where
  "price_ladder descending ls =
     (let ks = sorted_list_of_set ((\<lambda>l. f_key (dl_price l)) ` set ls) in if descending then rev ks else ks)"

definition fields_of :: "agg_level \<Rightarrow> rung" where
  "fields_of a = (ag_price a, ag_total_size a, ag_venue_sizes a, ag_order_count a)"

lemma cumulate_fields: "map fields_of (cumulate rs cs cn) = rs"
  by (induction rs cs cn rule: cumulate.induct) (simp_all add: fields_of_def Let_def)

lemma sorted_keys: "dwf m \<Longrightarrow> map fst (sort_key fst m) = sorted_list_of_set (fst ` set m)" for m :: "(int, 'v) dict"
proof (rule sorted_distinct_set_unique)
  assume m: "dwf m"
  show "sorted (map fst (sort_key fst m))" by simp
  have "set (sort_key fst m) = set m" "length (sort_key fst m) = length m" by simp_all
  then show "distinct (map fst (sort_key fst m))"
    using m by (metis dwf_def card_distinct distinct_card length_map set_map)
qed auto

text \<open>
  The aggregation of levels: one rung per distinct price, best price first, each made of exactly the levels at its price.
\<close>

definition aggregates :: "bool \<Rightarrow> depth_level list \<Rightarrow> agg_level list \<Rightarrow> bool" where
  "aggregates descending ls as =
     list_all2 (\<lambda>k a. rung_of (at_price k ls) = Some (fields_of a)) (price_ladder descending ls) as"

lemma aggregate_levels_ok: "aggregates descending ls (aggregate_levels descending ls)"
proof -
  let ?m = "foldl add_level [] ls" and ?o = "if descending then rev else id"
  have m: "dwf ?m" "\<And>k. dget ?m k = rung_of (at_price k ls)" using price_map by auto
  let ?s = "?o (sort_key fst ?m)"
  have fs: "map fields_of (aggregate_levels descending ls) = map snd ?s"
    by (simp add: aggregate_levels_def Let_def cumulate_fields)
  have ks: "price_ladder descending ls = map fst ?s"
    using sorted_keys [OF m(1)] by (simp add: price_ladder_def Let_def price_map_keys flip: rev_map)
  have "rung_of (at_price (fst x) ls) = Some (snd x)" if "x \<in> set ?s" for x
    using that m map_of_is_SomeI [of ?m "fst x" "snd x"] by (auto simp: dwf_def split: if_splits)
  then have "list_all2 (\<lambda>k r. rung_of (at_price k ls) = Some r) (map fst ?s) (map snd ?s)"
    by (auto simp: list_all2_conv_all_nth)
  then show ?thesis unfolding aggregates_def ks by (simp add: list.rel_map(2) flip: fs)
qed

lemma aggregates_take: "aggregates descending ls as \<Longrightarrow>
   list_all2 (\<lambda>k a. rung_of (at_price k ls) = Some (fields_of a)) (take_to n (price_ladder descending ls)) (take_to n as)"
  by (auto simp: aggregates_def take_to_def list_all2_lengthD intro: list_all2_takeI)

lemma merge_side_mem:
  assumes "list_all2 (\<lambda>k a. rung_of (at_price k ls) = Some (fields_of a)) ks as" and "l \<in> set ls" and "\<not> f_isnan (dl_price l)"
    and "\<And>l. l \<in> set ls \<Longrightarrow> \<not> f_isnan (dl_price l)"
  shows "l \<in> set (merge_side d as ls) \<longleftrightarrow> f_key (dl_price l) \<in> set ks"
proof -
  have p: "f_key (ag_price a) = k \<and> \<not> f_isnan (ag_price a)" if r: "rung_of (at_price k ls) = Some (fields_of a)" for k a
  proof -
    obtain x xs where x: "at_price k ls = x # xs" using r by (cases "at_price k ls") (auto simp: rung_of_def)
    then have "x \<in> set (at_price k ls)" by simp
    then have "x \<in> set ls" "f_key (dl_price x) = k" by (auto simp: at_price_def)
    then show ?thesis using r x assms(4) [of x] by (auto simp: rung_of_def fields_of_def)
  qed
  have "(\<exists>a \<in> set as. feq (ag_price a) (dl_price l)) \<longleftrightarrow> f_key (dl_price l) \<in> set ks"
    using assms(1,3) p by (fastforce simp: list_all2_conv_all_nth in_set_conv_nth feq_def)
  then show ?thesis using assms(2) by (simp add: merge_side_def)
qed

lemma levels_clean: "l \<in> set (levels_of side bk) \<Longrightarrow> \<not> f_isnan (dl_price l)"
  by (auto simp: levels_of_def usable_row_def dest: isfinite_not)

lemma crossings_iff:
  "crossings bs as \<noteq> [] \<longleftrightarrow> (\<exists>b \<in> set bs. \<exists>a \<in> set as. flt (dl_price a) (dl_price b) \<and> dl_venue b \<noteq> dl_venue a)"
  by (auto simp: crossings_def)

text \<open>
  The specification of a side of a published ladder: the rungs are those of the best prices, each with the running totals from the
  best rung down to it, and the levels are those at the prices of the rungs, best first and in order of arrival at each price.
\<close>

definition ladder_side :: "bool \<Rightarrow> int \<Rightarrow> depth_level list \<Rightarrow> agg_level list \<Rightarrow> depth_level list \<Rightarrow> bool" where
  "ladder_side descending n ls as ms =
     (let ks = take_to n (price_ladder descending ls)
      in list_all2 (\<lambda>k a. rung_of (at_price k ls) = Some (fields_of a)) ks as
         \<and> (\<forall>i < length as. ag_cum_size (as ! i) = foldl fadd 0 (map ag_total_size (take (Suc i) as))
              \<and> ag_cum_notional (as ! i) = foldl fadd 0 (map (\<lambda>a. fmul (ag_price a) (ag_total_size a)) (take (Suc i) as)))
         \<and> sorted (map (\<lambda>l. if descending then - f_key (dl_price l) else f_key (dl_price l)) ms)
         \<and> (\<forall>k. at_price k ms = (if k \<in> set ks then at_price k ls else [])))"

lemma cumulate_totals:
  "i < length rs \<Longrightarrow>
     ag_cum_size (cumulate rs cs cn ! i) = foldl fadd cs (map ag_total_size (take (Suc i) (cumulate rs cs cn)))
     \<and> ag_cum_notional (cumulate rs cs cn ! i)
        = foldl fadd cn (map (\<lambda>a. fmul (ag_price a) (ag_total_size a)) (take (Suc i) (cumulate rs cs cn)))"
  by (induction rs cs cn arbitrary: i rule: cumulate.induct) (auto simp: Let_def nth_Cons split: nat.split)

lemma length_cumulate: "length (cumulate rs cs cn) = length rs"
  by (induction rs cs cn rule: cumulate.induct) (simp_all add: Let_def)

lemma take_to_totals:
  assumes "i < length (take_to n (aggregate_levels d ls))" and "as = take_to n (aggregate_levels d ls)"
  shows "ag_cum_size (as ! i) = foldl fadd 0 (map ag_total_size (take (Suc i) as))
     \<and> ag_cum_notional (as ! i) = foldl fadd 0 (map (\<lambda>a. fmul (ag_price a) (ag_total_size a)) (take (Suc i) as))"
proof -
  obtain m where m: "take_to n (aggregate_levels d ls) = take m (aggregate_levels d ls)" unfolding take_to_def by metis
  have i: "i < m" "i < length (aggregate_levels d ls)" using assms(1) by (simp_all add: m)
  then have "as ! i = aggregate_levels d ls ! i" "take (Suc i) as = take (Suc i) (aggregate_levels d ls)"
    using assms(2) by (simp_all add: m min_def)
  then show ?thesis using cumulate_totals i(2) unfolding aggregate_levels_def Let_def by (simp add: length_cumulate)
qed

lemma at_price_merge:
  "at_price k (merge_side d as ls) = [l \<leftarrow> at_price k ls. l \<in> set (merge_side d as ls)]"
proof -
  let ?key = "\<lambda>l. if d then - f_key (dl_price l) else f_key (dl_price l)"
  let ?P = "\<lambda>l. \<exists>a \<in> set as. feq (ag_price a) (dl_price l)"
  have "at_price k (merge_side d as ls) = [l \<leftarrow> merge_side d as ls. ?key l = (if d then - k else k)]"
    unfolding at_price_def by (intro filter_cong) auto
  also have "\<dots> = [l \<leftarrow> filter ?P ls. ?key l = (if d then - k else k)]" unfolding merge_side_def by (rule sort_key_stable)
  also have "\<dots> = [l \<leftarrow> at_price k ls. l \<in> set (merge_side d as ls)]"
    unfolding at_price_def filter_filter by (auto simp: merge_side_def intro!: filter_cong)
  finally show ?thesis .
qed

lemma ladder_side_built:
  "ladder_side d n (levels_of side bk) (take_to n (aggregate_levels d (levels_of side bk)))
     (merge_side d (take_to n (aggregate_levels d (levels_of side bk))) (levels_of side bk))"
proof -
  let ?ls = "levels_of side bk" and ?as = "take_to n (aggregate_levels d (levels_of side bk))"
  let ?ks = "take_to n (price_ladder d ?ls)"
  note agg = aggregates_take [OF aggregate_levels_ok [of d ?ls], of n]
  have mem: "l \<in> set ?ls \<Longrightarrow> l \<in> set (merge_side d ?as ?ls) \<longleftrightarrow> f_key (dl_price l) \<in> set ?ks" for l
    by (rule merge_side_mem [OF agg]) (simp_all add: levels_clean)
  have "at_price k (merge_side d ?as ?ls) = (if k \<in> set ?ks then at_price k ?ls else [])" for k
  proof -
    have "l \<in> set (merge_side d ?as ?ls) \<longleftrightarrow> k \<in> set ?ks" if "l \<in> set (at_price k ?ls)" for l
      using that mem [of l] by (auto simp: at_price_def)
    then have "[l \<leftarrow> at_price k ?ls. l \<in> set (merge_side d ?as ?ls)] = [l \<leftarrow> at_price k ?ls. k \<in> set ?ks]" by (intro filter_cong) simp_all
    then show ?thesis unfolding at_price_merge by simp
  qed
  moreover have "sorted (map (\<lambda>l. if d then - f_key (dl_price l) else f_key (dl_price l)) (merge_side d ?as ?ls))"
    unfolding merge_side_def by (rule sorted_sort_key)
  ultimately show ?thesis unfolding ladder_side_def Let_def using agg take_to_totals [of _ n d ?ls] by blast
qed

text \<open>
  The specification of what the ladder is made of: the venues whose source is active and whose last update is not older than the time
  to live, the new rows taking the place of the rows of their source unless those are newer, and of their rows those with a finite
  positive price and a finite positive size.
\<close>

definition live_book :: "(string \<Rightarrow> bool) \<Rightarrow> string \<Rightarrow> string \<Rightarrow> f64 \<Rightarrow> (f64 \<times> f64) list \<Rightarrow> (f64 \<times> f64) list \<Rightarrow> depth_engine \<Rightarrow> (string, venue_book) dict" where
  "live_book active src inst t bids asks e =
     (let old = dgetd (de_books e) inst [];
          newer = (case dget old src of None \<Rightarrow> True | Some b \<Rightarrow> fle (vb_updated_at b) t);
          bk = (if newer \<and> (bids \<noteq> [] \<or> asks \<noteq> []) then dset old src \<lparr>vb_bids = bids, vb_asks = asks, vb_updated_at = t\<rparr> else old)
      in [(v, b) \<leftarrow> bk. active v \<and> \<not> flt (de_ttl e) (fsub t (vb_updated_at b))])"

definition good_levels :: "(venue_book \<Rightarrow> (f64 \<times> f64) list) \<Rightarrow> (string, venue_book) dict \<Rightarrow> depth_level list" where
  "good_levels side bk =
     [\<lparr>dl_price = p, dl_size = z, dl_venue = v, dl_order_count = 1\<rparr>.
        (v, b) \<leftarrow> bk, (p, z) \<leftarrow> side b, f_isfinite p \<and> f_isfinite z \<and> 0 < f_val p \<and> 0 < f_val z]"

lemma zero_facts: "f_val 0 = 0" "f_isfinite 0" "\<not> f_isnan 0" "f_key 0 = 0"
  by (simp_all add: f_val_def f_mag_def f_sign_def f_isfinite_def inf_mag_def f_isnan_def f_key_def)

lemma good_levels_eq: "good_levels side bk = levels_of side bk"
proof -
  have u: "usable_row (p, z) \<longleftrightarrow> f_isfinite p \<and> f_isfinite z \<and> 0 < f_val p \<and> 0 < f_val z" for p z
    by (auto simp: usable_row_def flt_val zero_facts)
  have "concat (map (\<lambda>(p, z). if f_isfinite p \<and> f_isfinite z \<and> 0 < f_val p \<and> 0 < f_val z
        then [\<lparr>dl_price = p, dl_size = z, dl_venue = v, dl_order_count = 1\<rparr>] else []) rows)
      = map (\<lambda>(p, s). \<lparr>dl_price = p, dl_size = s, dl_venue = v, dl_order_count = 1\<rparr>) (filter usable_row rows)" for v rows
    by (induction rows) (auto simp: u)
  then show ?thesis by (simp add: good_levels_def levels_of_def)
qed

lemma live_book_eq:
  "live_book active src inst t bids asks e =
     [x \<leftarrow> store_rows src t bids asks (dgetd (de_books e) inst []). \<not> dead_venue active (de_ttl e) t x]"
  by (auto simp: live_book_def store_rows_def dead_venue_def Let_def split_beta split: option.split intro!: filter_cong)

lemma evict_max_levels: "de_max_levels (evict_stale e) = de_max_levels e"
proof -
  have "de_max_levels (foldl forget_instrument x is) = de_max_levels x" for x "is"
    by (induction "is" arbitrary: x) (simp_all add: forget_instrument_def)
  then show ?thesis by (simp add: evict_stale_def Let_def)
qed

lemma update_depth_split:
  assumes "dwf (dgetd (de_books e) inst [])" and "bk = live_book active src inst t bids asks e"
  obtains e2 where "de_max_levels e2 = de_max_levels e" and "update_depth active psum src inst t bids asks e =
     (if \<not> active src then (e, Inr None)
      else if levels_of vb_bids bk = [] \<or> levels_of vb_asks bk = [] then (e2, Inr None)
      else build_ladder psum inst t (levels_of vb_bids bk) (levels_of vb_asks bk) e2)"
proof -
  let ?raw = "store_rows src t bids asks (dgetd (de_books e) inst [])"
  have wf: "dwf ?raw" using assms(1) by (auto simp: store_rows_def split: option.split)
  have "foldl ddel ?raw (map fst (filter (dead_venue active (de_ttl e) t) ?raw)) = bk"
    unfolding foldl_ddel assms(2) live_book_eq using wf by (auto simp: dwf_def distinct_map intro!: filter_cong dest!: inj_onD)
  then show thesis
    using that [of "let e1 = evict_stale (e\<lparr>de_books := dset (de_books e) inst ?raw, de_last_seen := dset (de_last_seen e) inst t\<rparr>)
        in if din inst (de_books e1) then e1\<lparr>de_books := dset (de_books e1) inst bk\<rparr> else e1"]
    by (auto simp: update_depth_def Let_def evict_max_levels levels_of_def)
qed

text \<open>
  C26: a published ladder.  Each side consists of the best distinct prices among the usable levels of the live venues, at most the
  configured number, best first; each rung holds the price, the total size in the order of arrival, the size per venue and the number of
  orders of exactly the levels at its price, and the cumulative size and notional of the rungs down to it; the merged levels are
  exactly those of the kept rungs, best first and in order of arrival at each price; and the ladder is crossed exactly when a kept
  bid of one venue exceeds a kept ask of another.
\<close>

theorem ladder_aggregates_live_venues:
  assumes "update_depth active psum src inst t bids asks e = (e', Inr (Some la))" and "dwf (dgetd (de_books e) inst [])"
  shows "let bk = live_book active src inst t bids asks e
     in ladder_side True (de_max_levels e) (good_levels vb_bids bk) (la_agg_bids la) (la_bids la)
        \<and> ladder_side False (de_max_levels e) (good_levels vb_asks bk) (la_agg_asks la) (la_asks la)
        \<and> la_is_crossed la = (\<exists>b \<in> set (la_bids la). \<exists>a \<in> set (la_asks la). flt (dl_price a) (dl_price b) \<and> dl_venue b \<noteq> dl_venue a)"
proof -
  let ?bk = "live_book active src inst t bids asks e"
  obtain e2 where b: "build_ladder psum inst t (levels_of vb_bids ?bk) (levels_of vb_asks ?bk) e2 = (e', Inr (Some la))"
    and n: "de_max_levels e2 = de_max_levels e"
    using assms(1) update_depth_split [OF assms(2) refl, where active = active and src = src and t = t and bids = bids and asks = asks and psum = psum]
    by (metis Inr_inject option.distinct(1) snd_conv)
  have "la_agg_bids la = take_to (de_max_levels e) (aggregate_levels True (levels_of vb_bids ?bk))"
    "la_agg_asks la = take_to (de_max_levels e) (aggregate_levels False (levels_of vb_asks ?bk))"
    "la_bids la = merge_side True (la_agg_bids la) (levels_of vb_bids ?bk)" "la_asks la = merge_side False (la_agg_asks la) (levels_of vb_asks ?bk)"
    "la_is_crossed la = (crossings (la_bids la) (la_asks la) \<noteq> [])"
    using b n by (auto simp: build_ladder_def Let_def split: list.splits sum.splits)
  then show ?thesis using ladder_side_built crossings_iff by (simp add: Let_def good_levels_eq)
qed

section \<open>Walking the ladder\<close>

definition sound_level :: "depth_level \<Rightarrow> bool" where
  "sound_level l = (f_isfinite (dl_size l) \<and> flt 0 (dl_size l))"

lemma nano_facts: "f_isfinite F_NANO" "0 \<le> f_val F_NANO" "fle 0 F_NANO"
proof -
  show f: "f_isfinite F_NANO" by (simp add: F_NANO_def f_isfinite_def f_mag_def inf_mag_def)
  show "fle 0 F_NANO" by (simp add: F_NANO_def fle_def f_isnan_def f_mag_def f_key_def f_sign_def inf_mag_def)
  then show "0 \<le> f_val F_NANO" using fle_val [OF zero_facts(2) f] by (simp add: zero_facts)
qed

lemma fsub_self: assumes "f_isfinite r" shows "fle (fsub r r) F_NANO" "f_isfinite (fsub r r)" "0 \<le> f_val (fsub r r)"
proof -
  have k: "f_key (fsub r r) = 0" "\<not> f_isnan (fsub r r)" using fsub_key [OF assms assms] by simp_all
  then show f: "f_isfinite (fsub r r)" using finite_between [OF k(2) zero_facts(2) zero_facts(2)] by (simp add: zero_facts)
  show v: "0 \<le> f_val (fsub r r)" using k f_key_le_val [of 0 "fsub r r"] by (simp add: zero_facts)
  have "f_val (fsub r r) \<le> 0" using k f_key_le_val [of "fsub r r" 0] by (simp add: zero_facts)
  then show "fle (fsub r r) F_NANO" using fle_val [OF f nano_facts(1)] nano_facts(2) by simp
qed

lemma fsub_between:
  assumes "f_isfinite r" and "f_isfinite s" and "0 \<le> f_val s" and "f_val s \<le> f_val r"
  shows "f_isfinite (fsub r s)" and "0 \<le> f_val (fsub r s)" and "fle (fsub r s) r"
proof -
  have k: "f_key (fsub r s) = rkey (f_val r - f_val s)" "\<not> f_isnan (fsub r s)" using fsub_key [OF assms(1,2)] by auto
  have lo: "f_key 0 \<le> f_key (fsub r s)" using rkey_mono [of 0 "f_val r - f_val s"] assms(4) by (simp add: k zero_facts)
  show le: "fle (fsub r s) r" using fsub_le [OF assms(1,2,3)] .
  then show "f_isfinite (fsub r s)" using finite_between [OF k(2) zero_facts(2) assms(1) lo] by (simp add: fle_def)
  show "0 \<le> f_val (fsub r s)" using lo f_key_le_val [of 0] by (simp add: zero_facts)
qed

text \<open>
  The specification of a walk over a ladder, given as the sizes taken from its levels in order: from each level the smaller of what is
  still wanted and what the level holds, as long as more than 1e-9 is wanted and there are levels.
\<close>

definition fills_ladder :: "depth_level list \<Rightarrow> f64 \<Rightarrow> f64 list \<Rightarrow> bool" where
  "fills_ladder ls target fs =
     (length fs \<le> length ls
      \<and> (\<forall>i < length fs. let wanted = foldl fsub target (take i fs); held = dl_size (ls ! i)
           in \<not> fle wanted 0x3E112E0BE826D695 \<and> fs ! i = (if flt held wanted then held else wanted))
      \<and> (length fs = length ls \<or> fle (foldl fsub target fs) 0x3E112E0BE826D695))"

lemma fills_ladder_Nil: "fills_ladder ls r [] \<longleftrightarrow> ls = [] \<or> fle r F_NANO"
  by (auto simp: fills_ladder_def F_NANO_def)

lemma fills_ladder_Cons:
  "fills_ladder (l # ls) r (f # fs) \<longleftrightarrow> \<not> fle r F_NANO \<and> f = fmin r (dl_size l) \<and> fills_ladder ls (fsub r f) fs"
  by (auto simp: fills_ladder_def F_NANO_def fmin_def All_less_Suc2 Let_def)

lemma sweep_fills:
  "sweep ls r n v = (r', n', v') \<Longrightarrow>
     \<exists>fs. fills_ladder ls r fs \<and> r' = foldl fsub r fs \<and> n' = foldl (\<lambda>n (l, f). fadd n (fmul (dl_price l) f)) n (zip ls fs)
       \<and> (\<forall>x. dgetd v' x 0 = foldl fadd (dgetd v x 0) (map snd (filter (\<lambda>(l, f). dl_venue l = x) (zip ls fs))))"
proof (induction ls arbitrary: r n v)
  case Nil
  then show ?case by (intro exI [of _ "[]"]) (simp add: fills_ladder_Nil)
next
  case (Cons l ls)
  show ?case
  proof (cases "fle r F_NANO")
    case True
    then show ?thesis using Cons.prems by (intro exI [of _ "[]"]) (simp add: fills_ladder_Nil)
  next
    case False
    let ?f = "fmin r (dl_size l)"
    obtain fs where "fills_ladder ls (fsub r ?f) fs" "r' = foldl fsub (fsub r ?f) fs"
      "n' = foldl (\<lambda>n (l, f). fadd n (fmul (dl_price l) f)) (fadd n (fmul (dl_price l) ?f)) (zip ls fs)"
      "\<And>x. dgetd v' x 0 = foldl fadd (dgetd (dset v (dl_venue l) (fadd (dgetd v (dl_venue l) 0) ?f)) x 0)
         (map snd (filter (\<lambda>(l, f). dl_venue l = x) (zip ls fs)))"
      using Cons.IH Cons.prems False by (fastforce simp: Let_def)
    then show ?thesis using False
      by (intro exI [of _ "?f # fs"]) (simp add: fills_ladder_Cons dgetd_def dget_dset)
  qed
qed

lemma fills_within:
  "fills_ladder ls r fs \<Longrightarrow> list_all sound_level ls \<Longrightarrow> f_isfinite r \<Longrightarrow> 0 \<le> f_val r \<Longrightarrow>
     list_all2 (\<lambda>f l. fle 0 f \<and> fle f (dl_size l)) fs (take (length fs) ls) \<and> f_isfinite (foldl fsub r fs) \<and> 0 \<le> f_val (foldl fsub r fs)
       \<and> fle (foldl fsub r fs) r \<and> (\<not> fle (foldl fsub r fs) F_NANO \<longrightarrow> fs = map dl_size ls)"
proof (induction fs arbitrary: ls r)
  case Nil
  then show ?case by (auto simp: fills_ladder_Nil fle_def dest: isfinite_not)
next
  case (Cons f fs)
  obtain l ls' where ls: "ls = l # ls'" using Cons.prems(1) by (cases ls) (simp_all add: fills_ladder_def)
  have f: "\<not> fle r F_NANO" "f = fmin r (dl_size l)" "fills_ladder ls' (fsub r f) fs"
    using Cons.prems(1) unfolding ls fills_ladder_Cons by blast+
  have l: "f_isfinite (dl_size l)" "0 \<le> f_val (dl_size l)"
    using Cons.prems(2) flt_val [of 0 "dl_size l"] by (auto simp: ls sound_level_def zero_facts)
  have b: "f_isfinite f" "0 \<le> f_val f" "f_val f \<le> f_val r" "fle f (dl_size l)" "fle 0 f"
    using l Cons.prems(3,4) by (auto simp: f(2) fmin_def flt_val fle_val zero_facts)
  note d = fsub_between [OF Cons.prems(3) b(1-3)]
  have ih: "list_all2 (\<lambda>f l. fle 0 f \<and> fle f (dl_size l)) fs (take (length fs) ls')" "f_isfinite (foldl fsub (fsub r f) fs)"
    "0 \<le> f_val (foldl fsub (fsub r f) fs)" "fle (foldl fsub (fsub r f) fs) (fsub r f)"
    "\<not> fle (foldl fsub (fsub r f) fs) F_NANO \<longrightarrow> fs = map dl_size ls'"
    using Cons.IH [OF f(3) _ d(1,2)] Cons.prems(2) by (auto simp: ls)
  have "f = dl_size l" if "\<not> fle (foldl fsub (fsub r f) fs) F_NANO"
  proof (rule ccontr)
    assume "f \<noteq> dl_size l"
    then have "f = r" using f(2) by (auto simp: fmin_def)
    then have "fle (fsub r f) F_NANO" using fsub_self(1) [OF Cons.prems(3)] by simp
    then show False using fle_trans [OF ih(4)] that by blast
  qed
  then show ?case using ih b fle_trans [OF ih(4) d(3)] by (auto simp: ls)
qed

text \<open>
  C27: the price estimate of a market order.  For a finite positive target the walk over the ladder of the side takes, level after level,
  the smaller of what is still wanted and what the level holds, until no more than 1e-9 is wanted or the ladder is used up.  The
  notional is the sum of price times taken size, the size of a venue the sum of what was taken from its levels, the filled size the target
  less the rest, the average price the notional over the filled size, and the order is reported fully filled exactly when no
  more than 1e-9 is left.  When the sizes on the ladder are finite and positive, nothing negative and never more than a level holds is
  taken from it, the rest is between zero and the target, and an order that is not filled has taken every level in full.
\<close>

theorem vwap_walk_is_exact:
  assumes "compute_vwap sd target la = Inr s" and "list_all sound_level (la_bids la)" and "list_all sound_level (la_asks la)"
    and "ls = (if map upper sd = ''BUY'' then la_asks la else la_bids la)"
  shows "\<exists>fs rest. fills_ladder ls target fs \<and> rest = foldl fsub target fs
     \<and> vs_filled_size s = fsub target rest \<and> vs_is_fully_filled s = fle rest 0x3E112E0BE826D695
     \<and> vs_total_notional s = foldl (\<lambda>n (l, f). fadd n (fmul (dl_price l) f)) 0 (zip ls fs)
     \<and> (\<forall>x. dgetd (vs_venue_breakdown s) x 0 = foldl fadd 0 (map snd (filter (\<lambda>(l, f). dl_venue l = x) (zip ls fs))))
     \<and> (flt 0 (vs_filled_size s) \<longrightarrow> fdiv (vs_total_notional s) (vs_filled_size s) = Inr (vs_vwap_price s))
     \<and> list_all2 (\<lambda>f l. fle 0 f \<and> fle f (dl_size l)) fs (take (length fs) ls)
     \<and> f_isfinite rest \<and> fle 0 rest \<and> fle rest target \<and> (\<not> vs_is_fully_filled s \<longrightarrow> fs = map dl_size ls)"
proof -
  obtain rest n v where w: "sweep ls target 0 [] = (rest, n, v)" by (metis prod_cases3)
  have t: "f_isfinite target" "\<not> fle target 0"
    using assms(1) by (auto simp: compute_vwap_def Let_def bindr_Inr split: if_splits)
  have t0: "0 \<le> f_val target" using t fle_val [OF t(1) zero_facts(2)] by (simp add: zero_facts)
  have so: "list_all sound_level ls" using assms(2-4) by simp
  obtain fs where fs: "fills_ladder ls target fs" "rest = foldl fsub target fs"
    "n = foldl (\<lambda>n (l, f). fadd n (fmul (dl_price l) f)) 0 (zip ls fs)"
    "\<And>x. dgetd v x 0 = foldl fadd 0 (map snd (filter (\<lambda>(l, f). dl_venue l = x) (zip ls fs)))"
    using sweep_fills [OF w] by (auto simp: dgetd_def)
  note fw = fills_within [OF fs(1) so t(1) t0]
  have "vs_filled_size s = fsub target rest" "vs_is_fully_filled s = fle rest F_NANO" "vs_total_notional s = n" "vs_venue_breakdown s = v"
    "flt 0 (fsub target rest) \<longrightarrow> fdiv n (fsub target rest) = Inr (vs_vwap_price s)"
    using assms(1) w unfolding assms(4) by (auto simp: compute_vwap_def Let_def bindr_Inr split: if_splits)
  moreover have "fle 0 rest" using fw fs(2) fle_val [OF zero_facts(2), of rest] by (simp add: zero_facts)
  ultimately show ?thesis using fw fs by (intro exI [of _ fs] exI [of _ rest]) (simp add: F_NANO_def)
qed

section \<open>No exceptions\<close>

lemma fdiv_pos: "flt 0 b \<Longrightarrow> \<exists>c. fdiv a b = Inr c"
  using fdiv_total positive_nonzero by blast

lemma fdiv_const: "\<exists>c. fdiv a C_2 = Inr c" "\<exists>c. fdiv a F_10000 = Inr c"
  by (rule fdiv_total, simp add: C_2_def F_10000_def f_mag_def)+

lemma mid_or_total: "\<exists>m. mid_or d la = Inr m"
  using fdiv_const by (simp add: mid_or_def Let_def)

lemma depth_within_total: "\<exists>x. depth_within_bps psum bps la = Inr x"
proof -
  obtain m where "mid_or 0 la = Inr m" using mid_or_total by blast
  moreover obtain c where "fdiv bps F_10000 = Inr c" using fdiv_const by blast
  ultimately show ?thesis by (simp add: depth_within_bps_def Let_def)
qed

lemma bps_of_total: "\<exists>x. bps_of a b = Inr x"
  using fdiv_pos [of b a] by (auto simp: bps_of_def)

lemma compute_vwap_total:
  assumes "map upper sd = ''BUY'' \<or> map upper sd = ''SELL''" and "f_isfinite target" and "\<not> fle target 0"
  shows "\<exists>s. compute_vwap sd target la = Inr s"
proof -
  let ?b = "map upper sd = ''BUY''"
  let ?best = "if ?b then top_price (la_asks la) else top_price (la_bids la)"
  obtain rest n v where w: "sweep (if ?b then la_asks la else la_bids la) target 0 [] = (rest, n, v)" by (metis prod_cases3)
  obtain mid where mid: "mid_or ?best la = Inr mid" using mid_or_total by blast
  obtain vw where vw: "(if flt 0 (fsub target rest) then fdiv n (fsub target rest) else Inr ?best) = Inr vw"
    using fdiv_pos by (cases "flt 0 (fsub target rest)") auto
  obtain s1 where s1: "bps_of (fmax 0 (if ?b then fsub vw ?best else fsub ?best vw)) ?best = Inr s1" using bps_of_total by blast
  obtain s2 where s2: "bps_of (if ?b then fsub vw mid else fsub mid vw) mid = Inr s2" using bps_of_total by blast
  show ?thesis
    unfolding compute_vwap_def Let_def mid bindr_simps w prod.case vw s1 s2 using assms by auto
qed

lemma vwaps_total:
  assumes "map upper sd = ''BUY'' \<or> map upper sd = ''SELL''" and "list_all (\<lambda>s. f_isfinite s \<and> \<not> fle s 0) ss"
  shows "\<exists>vs. vwaps sd ss la = Inr vs"
  using assms(2)
proof (induction ss)
  case (Cons s ss)
  then show ?case using compute_vwap_total [OF assms(1), of s la] by auto
qed simp

lemma curve_total: "\<exists>c. compute_vwap_curve psum None la = Inr c"
proof -
  have s: "list_all (\<lambda>s. f_isfinite s \<and> \<not> fle s 0) default_sizes" by code_simp
  have u: "map upper ''BUY'' = ''BUY''" "map upper ''SELL'' = ''SELL''" by code_simp+
  obtain bs ss where "vwaps ''BUY'' default_sizes la = Inr bs" "vwaps ''SELL'' default_sizes la = Inr ss"
    using vwaps_total [OF _ s, of "''BUY''" la] vwaps_total [OF _ s, of "''SELL''" la] u by auto
  moreover obtain m where "mid_or 0 la = Inr m" using mid_or_total by blast
  moreover obtain a b c where "depth_within_bps psum F_10 la = Inr a" "depth_within_bps psum F_50 la = Inr b" "depth_within_bps psum F_C la = Inr c"
    using depth_within_total by metis
  ultimately show ?thesis by (simp add: compute_vwap_curve_def Let_def)
qed

lemma aggregate_nonempty: "ls \<noteq> [] \<Longrightarrow> 1 \<le> n \<Longrightarrow> \<exists>a as. take_to n (aggregate_levels d ls) = a # as"
proof -
  assume "ls \<noteq> []" and n: "1 \<le> n"
  then have "length (price_ladder d ls) \<noteq> 0" by (simp add: price_ladder_def Let_def)
  moreover have "length (aggregate_levels d ls) = length (price_ladder d ls)"
    using aggregate_levels_ok [of d ls] by (auto simp: aggregates_def dest: list_all2_lengthD)
  ultimately show ?thesis using n by (cases "take_to n (aggregate_levels d ls)") (auto simp: take_to_def)
qed

lemma build_ladder_total:
  assumes "bids \<noteq> []" and "asks \<noteq> []" and "1 \<le> de_max_levels e"
  shows "\<exists>e' la. build_ladder psum inst t bids asks e = (e', Inr (Some la))"
proof -
  obtain b bs a as where h: "take_to (de_max_levels e) (aggregate_levels True bids) = b # bs"
    "take_to (de_max_levels e) (aggregate_levels False asks) = a # as"
    using aggregate_nonempty [OF assms(1,3)] aggregate_nonempty [OF assms(2,3)] by metis
  have "\<exists>m. depth_micro x y z w = Inr m" for x y z w using fdiv_pos fdiv_const by (simp add: depth_micro_def)
  then obtain m where m: "depth_micro (ag_price b) (ag_total_size b) (ag_price a) (ag_total_size a) = Inr m" by blast
  have "\<exists>i. depth_imbalance psum xs ys = Inr i" for xs ys using fdiv_pos by (simp add: depth_imbalance_def Let_def)
  then obtain i where i: "depth_imbalance psum (b # bs) (a # as) = Inr i" by blast
  have "\<exists>c. compute_vwap_curve psum None la = Inr c" for la by (rule curve_total)
  then show ?thesis unfolding build_ladder_def Let_def h list.case prod.case m i sum.case by (metis (no_types, lifting) sum.case(2))
qed

section \<open>Instances\<close>

definition demo_depth :: depth_engine where
  "demo_depth = (depth_init C_2 1 10)\<lparr>de_books := [(''I'', [(''X'', \<lparr>vb_bids = [(F_C, F_I), (F_50, F_I)], vb_asks = [], vb_updated_at = 0\<rparr>)])]\<rparr>"

theorem ladder_aggregates_live_venues_witness:
  "\<exists>e' la. update_depth (\<lambda>_. True) (foldl fadd 0) ''Y'' ''I'' 0 [(F_C, F_5)] [(F_10000, F_I)] demo_depth = (e', Inr (Some la))
     \<and> (\<exists>bk. ladder_side True 1 (good_levels vb_bids bk) (la_agg_bids la) (la_bids la) \<and> length (good_levels vb_bids bk) = 3)"
proof -
  let ?u = "update_depth (\<lambda>_. True) (foldl fadd 0) ''Y'' ''I'' 0 [(F_C, F_5)] [(F_10000, F_I)] demo_depth"
  let ?bk = "live_book (\<lambda>_. True) ''Y'' ''I'' 0 [(F_C, F_5)] [(F_10000, F_I)] demo_depth"
  have "(length (levels_of vb_bids ?bk), length (levels_of vb_asks ?bk), map fst (dgetd (de_books demo_depth) ''I'' []))
     = (3, 1, [''X''])" by code_simp
  then have k: "length (levels_of vb_bids ?bk) = 3" "length (levels_of vb_asks ?bk) = 1" "dwf (dgetd (de_books demo_depth) ''I'' [])"
    by (auto simp: dwf_def)
  then have ne: "levels_of vb_bids ?bk \<noteq> []" "levels_of vb_asks ?bk \<noteq> []" by auto
  have one: "de_max_levels demo_depth = 1" by (simp add: demo_depth_def depth_init_def)
  obtain e' la where u: "?u = (e', Inr (Some la))"
    using update_depth_split [OF k(3) refl, where active = "\<lambda>_. True" and src = "''Y''" and t = 0 and bids = "[(F_C, F_5)]"
        and asks = "[(F_10000, F_I)]" and psum = "foldl fadd 0"]
      build_ladder_total [OF ne] ne one by (metis order_refl)
  from ladder_aggregates_live_venues [OF u k(3)] show ?thesis using u k(1) one unfolding Let_def good_levels_eq by auto
qed

definition demo_ladder :: ladder where
  "demo_ladder =
     \<lparr>la_instrument = ''I'', la_bids = [], la_asks = [\<lparr>dl_price = F_C, dl_size = F_I, dl_venue = ''X'', dl_order_count = 1\<rparr>],
      la_timestamp = 0, la_micro_price = 0, la_imbalance = 0, la_is_crossed = False, la_crossed = [], la_agg_bids = [], la_agg_asks = [],
      la_bid_notional = 0, la_ask_notional = 0, la_curve = None, la_ofi = 0, la_cum_ofi = 0, la_cvd = 0\<rparr>"

theorem vwap_walk_is_exact_witness:
  "\<exists>s fs. compute_vwap ''buy'' F_5 demo_ladder = Inr s \<and> \<not> vs_is_fully_filled s \<and> fills_ladder (la_asks demo_ladder) F_5 fs
     \<and> fs = [F_I] \<and> dgetd (vs_venue_breakdown s) ''X'' 0 = foldl fadd 0 fs"
proof -
  have "(case compute_vwap ''buy'' F_5 demo_ladder of Inl _ \<Rightarrow> None | Inr s \<Rightarrow> Some (vs_is_fully_filled s)) = Some False" by code_simp
  then obtain s where s: "compute_vwap ''buy'' F_5 demo_ladder = Inr s" "\<not> vs_is_fully_filled s" by (auto split: sum.splits)
  have "list_all sound_level (la_bids demo_ladder) \<and> list_all sound_level (la_asks demo_ladder) \<and> map upper ''buy'' = ''BUY''" by code_simp
  then obtain fs where "fills_ladder (la_asks demo_ladder) F_5 fs" "fs = map dl_size (la_asks demo_ladder)"
     "dgetd (vs_venue_breakdown s) ''X'' 0 = foldl fadd 0 (map snd (filter (\<lambda>(l, f). dl_venue l = ''X'') (zip (la_asks demo_ladder) fs)))"
    using vwap_walk_is_exact [OF s(1) _ _ refl] s(2) by auto
  then show ?thesis using s by (intro exI [of _ s] exI [of _ fs]) (simp add: demo_ladder_def)
qed

section \<open>Instruments without a ladder are never evicted\<close>

text \<open>Eviction starts when there are too many ladders, and an instrument quoted on one side only has none: such instruments
  accumulate without bound, whatever \<open>max_instruments\<close> is.\<close>

lemma one_sided_update:
  assumes "de_ladders e = []" and "0 \<le> de_max_instruments e" and "\<not> din i (de_books e)"
    and "e' = fst (update_depth (\<lambda>_. True) psum v i t [(p, z)] [] e)"
  shows "de_ladders e' = [] \<and> de_max_instruments e' = de_max_instruments e
    \<and> (\<exists>bk. de_books e' = de_books e @ [(i, bk)])"
proof -
  have n: "dgetd (de_books e) i [] = []" using assms(3) by (simp add: dgetd_def din_def)
  have asks: "levels_of vb_asks bk = []" if "bk \<in> {[], [(v, \<lparr>vb_bids = [(p, z)], vb_asks = [], vb_updated_at = t\<rparr>)]}" for bk
    using that by (auto simp: levels_of_def)
  show ?thesis
    using assms(1-3) n unfolding assms(4) update_depth_def
    by (auto simp: Let_def store_rows_def evict_stale_def asks dict_simps dset_absent dset_last)
qed

lemma one_sided_books_accumulate:
  assumes "distinct is" and "\<And>i. i \<in> set is \<Longrightarrow> \<not> din i (de_books e)" and "de_ladders e = []" and "0 \<le> de_max_instruments e"
  shows "length (de_books (foldl (\<lambda>e i. fst (update_depth (\<lambda>_. True) psum v i t [(p, z)] [] e)) e is)) = length (de_books e) + length is"
  using assms
proof (induction "is" arbitrary: e)
  case (Cons i "is")
  let ?e = "fst (update_depth (\<lambda>_. True) psum v i t [(p, z)] [] e)"
  obtain bk where u: "de_ladders ?e = []" "de_max_instruments ?e = de_max_instruments e" "de_books ?e = de_books e @ [(i, bk)]"
    using one_sided_update [OF Cons.prems(3,4) _ refl, of i psum v t p z] Cons.prems(2) by auto
  have "\<not> din j (de_books ?e)" if "j \<in> set is" for j using that Cons.prems(1,2) u(3) by (auto simp: din_iff)
  then show ?case using Cons.IH [of ?e] Cons.prems u by simp
qed simp

end
