(* ===== verification/Partition.thy ===== *)
theory Partition
  imports Pyvalue Gap Pystruct "HOL-Library.List_Lexorder" "HOL-Library.Char_ord"
begin

unbundle bit_operations_syntax

text \<open>
  Partitioning and fan-out of \<open>partition.py\<close>: the ring between one producer and one consumer, the sequencer of a feed channel, the
  assignment of symbols to shards, the bounded queues of the subscribers, the rate quotas of tenants, shards and the fleet that
  routes events to them.  The threads of the shards appear as turns of their loops; every operation that takes a lock is one step.
  The clock is an argument.  The native ring, which replaces the Python one when it is built, is not modelled.
\<close>

section \<open>The ring of one producer and one consumer\<close>

text \<open>A slot holds \<open>None\<close> or an item; an item is a Python object, so the model's \<open>None\<close> is Python's.\<close>

record 'a spsc =
  sp_capacity :: int
  sp_mask :: int
  sp_buffer :: "'a option list"
  sp_head :: int
  sp_tail :: int

text \<open>The loop that doubles the capacity; that it ends is a theorem.\<close>

partial_function (option) grow_cap :: "int \<Rightarrow> int \<Rightarrow> int option" where
  "grow_cap capacity cap = (if cap < capacity then grow_cap capacity (push_bit 1 cap) else Some cap)"

declare grow_cap.simps [code]

definition spsc_init :: "int \<Rightarrow> 'a spsc option" where
  "spsc_init capacity =
     map_option (\<lambda>cap. \<lparr>sp_capacity = cap, sp_mask = cap - 1, sp_buffer = replicate (nat cap) None, sp_head = 0, sp_tail = 0\<rparr>)
       (grow_cap capacity 1)"

definition offer :: "'a option \<Rightarrow> 'a spsc \<Rightarrow> 'a spsc \<times> bool" where
  "offer item q =
     (if sp_capacity q \<le> sp_head q - sp_tail q then (q, False)
      else (q\<lparr>sp_buffer := (sp_buffer q)[nat (sp_head q AND sp_mask q) := item], sp_head := sp_head q + 1\<rparr>, True))"

definition poll :: "'a spsc \<Rightarrow> 'a spsc \<times> 'a option" where
  "poll q =
     (if sp_tail q = sp_head q then (q, None)
      else let i = nat (sp_tail q AND sp_mask q)
           in (q\<lparr>sp_buffer := (sp_buffer q)[i := None], sp_tail := sp_tail q + 1\<rparr>, sp_buffer q ! i))"

definition spsc_qsize :: "'a spsc \<Rightarrow> int" where
  "spsc_qsize q = max 0 (sp_head q - sp_tail q)"

definition spsc_empty :: "'a spsc \<Rightarrow> bool" where
  "spsc_empty q = (sp_tail q = sp_head q)"

definition spsc_full :: "'a spsc \<Rightarrow> bool" where
  "spsc_full q = (sp_capacity q \<le> sp_head q - sp_tail q)"

text \<open>\<open>queue.Queue(maxsize)\<close> with \<open>put_nowait\<close>, where \<open>False\<close> stands for \<open>queue.Full\<close>, and \<open>get\<close>, where \<open>None\<close> stands for
  \<open>queue.Empty\<close>; a size of zero or less means no bound.\<close>

record 'a std_queue =
  sq_maxsize :: int
  sq_items :: "'a list"

definition std_room :: "'a std_queue \<Rightarrow> bool" where
  "std_room q = (sq_maxsize q \<le> 0 \<or> int (length (sq_items q)) < sq_maxsize q)"

definition put_nowait :: "'a \<Rightarrow> 'a std_queue \<Rightarrow> 'a std_queue \<times> bool" where
  "put_nowait x q = (if std_room q then (q\<lparr>sq_items := sq_items q @ [x]\<rparr>, True) else (q, False))"

definition std_get :: "'a std_queue \<Rightarrow> 'a std_queue \<times> 'a option" where
  "std_get q = (case sq_items q of [] \<Rightarrow> (q, None) | x # xs \<Rightarrow> (q\<lparr>sq_items := xs\<rparr>, Some x))"

section \<open>The sequencer of a channel\<close>

record sequencer =
  cs_channel_id :: string
  cs_gap_manager :: "gap_manager option"
  cs_max_jump_limit :: int
  cs_last :: "int option"
  cs_expected :: "int option"
  cs_session :: "string option"
  cs_received :: int
  cs_in_order :: int
  cs_gaps :: int
  cs_missing :: int
  cs_duplicates :: int
  cs_out_of_order :: int
  cs_resets :: int

definition sequencer_init :: "string \<Rightarrow> gap_manager option \<Rightarrow> int \<Rightarrow> sequencer" where
  "sequencer_init ch gm jump =
     \<lparr>cs_channel_id = ch, cs_gap_manager = gm, cs_max_jump_limit = jump, cs_last = None, cs_expected = None, cs_session = None,
      cs_received = 0, cs_in_order = 0, cs_gaps = 0, cs_missing = 0, cs_duplicates = 0, cs_out_of_order = 0, cs_resets = 0\<rparr>"

definition accept_seq :: "int \<Rightarrow> sequencer \<Rightarrow> sequencer" where
  "accept_seq n c = c\<lparr>cs_last := Some n, cs_expected := Some (n + 1)\<rparr>"

text \<open>\<open>verify_sequence\<close> on the fields read from the event: sequence number, session, source and instrument.\<close>

definition verify_sequence ::
    "int option \<Rightarrow> string option \<Rightarrow> string \<Rightarrow> string \<Rightarrow> f64 \<Rightarrow> sequencer \<Rightarrow> sequencer \<times> quality_status \<times> reason option" where
  "verify_sequence sq sess src inst now c0 =
     (let c = c0\<lparr>cs_received := cs_received c0 + 1\<rparr>
      in case sq of
           None \<Rightarrow> (c, VALID, None)
         | Some n \<Rightarrow>
             let s = (case sess of None \<Rightarrow> ''SESSION_0'' | Some x \<Rightarrow> x)
             in if cs_session c \<noteq> None \<and> cs_session c \<noteq> Some s
                then (accept_seq n (c\<lparr>cs_resets := cs_resets c + 1, cs_session := Some s, cs_in_order := cs_in_order c + 1\<rparr>), VALID, None)
                else
                  let c1 = c\<lparr>cs_session := Some s\<rparr>
                  in case cs_expected c1 of
                       None \<Rightarrow> (accept_seq n (c1\<lparr>cs_in_order := cs_in_order c1 + 1\<rparr>), VALID, None)
                     | Some x \<Rightarrow>
                         if n = x then (accept_seq n (c1\<lparr>cs_in_order := cs_in_order c1 + 1\<rparr>), VALID, None)
                         else if cs_last c1 = Some n
                         then (c1\<lparr>cs_duplicates := cs_duplicates c1 + 1\<rparr>, SUSPICIOUS, Some DUPLICATE)
                         else if n < x
                         then let c2 = c1\<lparr>cs_out_of_order := cs_out_of_order c1 + 1\<rparr>
                              in if (case cs_last c2 of None \<Rightarrow> False | Some l \<Rightarrow> l - n < 100)
                                 then (c2\<lparr>cs_duplicates := cs_duplicates c2 + 1\<rparr>, SUSPICIOUS, Some DUPLICATE)
                                 else (c2, SUSPICIOUS, Some OUT_OF_ORDER)
                         else (accept_seq n (c1\<lparr>cs_gaps := cs_gaps c1 + 1, cs_missing := cs_missing c1 + (n - x),
                                                 cs_gap_manager := map_option (\<lambda>m. fst (record_gap m src inst x n s now)) (cs_gap_manager c1)\<rparr>),
                               SUSPICIOUS, Some SEQUENCE_GAP))"

section \<open>Symbols and shards\<close>

definition lower :: "char \<Rightarrow> char" where
  "lower c = (let n = of_char c :: nat in if 65 \<le> n \<and> n \<le> 90 then char_of (n + 32) else c)"

text \<open>\<open>str.encode("utf-8")\<close> on code points below 256.\<close>

definition utf8_char :: "char \<Rightarrow> bytes" where
  "utf8_char c =
     (let n = of_char c :: nat
      in if n < 128 then [word_of_nat n] else [word_of_nat (192 + n div 64), word_of_nat (128 + n mod 64)])"

definition utf8 :: "string \<Rightarrow> bytes" where
  "utf8 s = concat (map utf8_char s)"

record partitioner =
  pt_num_shards :: int
  pt_mode :: string
  pt_ranges :: "(string \<times> string) list"

definition alphabet :: "string list" where
  "alphabet = map (\<lambda>c. [char_of c]) [65..<(91 :: nat)]"

fun chunk_ranges :: "int \<Rightarrow> int list \<Rightarrow> (string \<times> string) list res" where
  "chunk_ranges chunk [] = Inr []"
| "chunk_ranges chunk (i # is) =
     bindr (py_index alphabet (i * chunk)) (\<lambda>a.
     bindr (py_index alphabet (min ((i + 1) * chunk - 1) (int (length alphabet) - 1))) (\<lambda>b.
     bindr (chunk_ranges chunk is) (\<lambda>rs. Inr ((a, b) # rs))))"

definition default_ranges :: "int \<Rightarrow> (string \<times> string) list res" where
  "default_ranges n =
     (if n = 2 then Inr [(''A'', ''L''), (''M'', ''Z'')]
      else if n = 4 then Inr [(''A'', ''F''), (''G'', ''L''), (''M'', ''R''), (''S'', ''Z'')]
      else chunk_ranges ((int (length alphabet) + n - 1) div n) (py_range 0 n))"

definition partitioner_init :: "int \<Rightarrow> string \<Rightarrow> (string \<times> string) list \<Rightarrow> partitioner res" where
  "partitioner_init n mode ranges =
     (if n \<le> 0 then Inl ValueError
      else let m = map lower mode
           in bindr (if m = ''range'' \<and> ranges = [] then default_ranges n else Inr ranges)
                (\<lambda>rs. Inr \<lparr>pt_num_shards = n, pt_mode = m, pt_ranges = rs\<rparr>))"

fun find_range :: "string \<Rightarrow> (string \<times> string) list \<Rightarrow> int \<Rightarrow> int option" where
  "find_range fc [] i = None"
| "find_range fc ((a, b) # rs) i = (if a \<le> fc \<and> fc \<le> b then Some i else find_range fc rs (i + 1))"

definition get_shard_id :: "partitioner \<Rightarrow> string \<Rightarrow> int res" where
  "get_shard_id p instrument =
     (if instrument = [] then Inr 0
      else let s = strip_upper instrument
           in if pt_mode p = ''hash'' then Inr (uint (crc32 (utf8 s)) mod pt_num_shards p)
              else case s of
                     [] \<Rightarrow> Inl IndexError
                   | c # _ \<Rightarrow> (case find_range [c] (pt_ranges p) 0 of Some i \<Rightarrow> Inr i | None \<Rightarrow> Inr (pt_num_shards p - 1)))"

section \<open>Fan-out to subscribers\<close>

record session =
  se_consumer_id :: string
  se_tenant_id :: string
  se_queue :: "(string \<times> bytes) std_queue"
  se_symbols :: "string list option"
  se_connected_at :: f64
  se_dispatched :: int
  se_dropped :: int
  se_active :: bool

record fanout =
  fo_max_buffer :: int
  fo_eviction_timeout :: f64
  fo_consumers :: "(string, session) dict"
  fo_dispatched :: int
  fo_evictions :: int

definition fanout_init :: "int \<Rightarrow> f64 \<Rightarrow> fanout" where
  "fanout_init mx t = \<lparr>fo_max_buffer = mx, fo_eviction_timeout = t, fo_consumers = [], fo_dispatched = 0, fo_evictions = 0\<rparr>"

definition new_session :: "int \<Rightarrow> string \<Rightarrow> string \<Rightarrow> string list option \<Rightarrow> f64 \<Rightarrow> session" where
  "new_session mx cid tenant symbols now =
     \<lparr>se_consumer_id = cid, se_tenant_id = tenant, se_queue = \<lparr>sq_maxsize = mx, sq_items = []\<rparr>,
      se_symbols = (case symbols of Some (x # xs) \<Rightarrow> Some (remdups (map (map upper) (x # xs))) | _ \<Rightarrow> None),
      se_connected_at = now, se_dispatched = 0, se_dropped = 0, se_active = True\<rparr>"

definition register_consumer :: "string \<Rightarrow> string \<Rightarrow> string list option \<Rightarrow> f64 \<Rightarrow> fanout \<Rightarrow> fanout" where
  "register_consumer cid tenant symbols now f =
     f\<lparr>fo_consumers := dset (fo_consumers f) cid (new_session (fo_max_buffer f) cid tenant symbols now)\<rparr>"

definition unregister_consumer :: "string \<Rightarrow> fanout \<Rightarrow> fanout \<times> bool" where
  "unregister_consumer cid f = (f\<lparr>fo_consumers := ddel (fo_consumers f) cid\<rparr>, din cid (fo_consumers f))"

datatype outcome = Skipped | Dispatched | Dropped

text \<open>What a broadcast does to one session.\<close>

definition wants :: "string \<Rightarrow> session \<Rightarrow> bool" where
  "wants s x = (se_active x \<and> (case se_symbols x of None \<Rightarrow> True | Some ss \<Rightarrow> s \<in> set ss))"

definition deliver :: "string \<Rightarrow> bytes \<Rightarrow> session \<Rightarrow> session \<times> outcome" where
  "deliver s frame x =
     (if \<not> wants s x then (x, Skipped)
      else case put_nowait (s, frame) (se_queue x) of
             (q, True) \<Rightarrow> (x\<lparr>se_queue := q, se_dispatched := se_dispatched x + 1\<rparr>, Dispatched)
           | (q, False) \<Rightarrow> (x\<lparr>se_dropped := se_dropped x + 1\<rparr>, Dropped))"

definition overdue :: "session \<times> outcome \<Rightarrow> bool" where
  "overdue r = (snd r = Dropped \<and> 10 \<le> se_dropped (fst r))"

definition evict_consumer :: "fanout \<Rightarrow> string \<Rightarrow> fanout" where
  "evict_consumer f cid =
     (if din cid (fo_consumers f)
      then f\<lparr>fo_consumers := ddel (fo_consumers f) cid, fo_evictions := fo_evictions f + 1\<rparr> else f)"

definition broadcast_event :: "string \<Rightarrow> bytes \<Rightarrow> fanout \<Rightarrow> fanout \<times> int" where
  "broadcast_event symb frame f =
     (let s = map upper symb;
          rs = map (\<lambda>(cid, x). (cid, deliver s frame x)) (fo_consumers f);
          n = int (length (filter (\<lambda>(cid, r). snd r = Dispatched) rs));
          gone = map (\<lambda>(cid, r). se_consumer_id (fst r)) (filter (\<lambda>(cid, r). overdue r) rs);
          f1 = f\<lparr>fo_consumers := map (\<lambda>(cid, r). (cid, fst r)) rs, fo_dispatched := fo_dispatched f + n\<rparr>
      in (foldl evict_consumer f1 gone, n))"

definition fanout_stats :: "fanout \<Rightarrow> int \<times> int \<times> int \<times> (string \<times> string \<times> int \<times> int \<times> int) list" where
  "fanout_stats f =
     (int (length (fo_consumers f)), fo_dispatched f, fo_evictions f,
      map (\<lambda>(cid, x). (cid, se_tenant_id x, se_dispatched x, se_dropped x, int (length (sq_items (se_queue x))))) (fo_consumers f))"

text \<open>The subscriber takes a frame from its queue.\<close>

definition consumer_get :: "string \<Rightarrow> fanout \<Rightarrow> fanout \<times> (string \<times> bytes) option" where
  "consumer_get cid f =
     (case dget (fo_consumers f) cid of
        None \<Rightarrow> (f, None)
      | Some x \<Rightarrow> let (q, r) = std_get (se_queue x) in (f\<lparr>fo_consumers := dset (fo_consumers f) cid (x\<lparr>se_queue := q\<rparr>)\<rparr>, r))"

section \<open>Quotas\<close>

record quota_manager =
  qm_max_subscriptions :: int
  qm_max_rate :: int
  qm_quotas :: "(string, int \<times> int) dict"
  qm_rates :: "(string, f64 list) dict"

definition quota_init :: "int \<Rightarrow> int \<Rightarrow> quota_manager" where
  "quota_init subs rate = \<lparr>qm_max_subscriptions = subs, qm_max_rate = rate, qm_quotas = [], qm_rates = []\<rparr>"

definition set_quota :: "string \<Rightarrow> int \<Rightarrow> int \<Rightarrow> quota_manager \<Rightarrow> quota_manager" where
  "set_quota tenant subs rate m = m\<lparr>qm_quotas := dset (qm_quotas m) tenant (subs, rate)\<rparr>"

definition check_subscription_permitted :: "string \<Rightarrow> int \<Rightarrow> quota_manager \<Rightarrow> bool" where
  "check_subscription_permitted tenant n m =
     (n \<le> (case dget (qm_quotas m) tenant of None \<Rightarrow> qm_max_subscriptions m | Some (subs, _) \<Rightarrow> subs))"

definition rate_of :: "string \<Rightarrow> quota_manager \<Rightarrow> int" where
  "rate_of tenant m = (case dget (qm_quotas m) tenant of None \<Rightarrow> qm_max_rate m | Some (_, r) \<Rightarrow> r)"

definition F_SECOND :: f64 where "F_SECOND = 0x3FF0000000000000"

definition record_and_check_rate :: "string \<Rightarrow> int \<Rightarrow> f64 \<Rightarrow> quota_manager \<Rightarrow> quota_manager \<times> bool" where
  "record_and_check_rate tenant n now m =
     (let start = fsub now F_SECOND;
          q = dropWhile (\<lambda>t. flt t start) (dgetd (qm_rates m) tenant []);
          store = (\<lambda>q. m\<lparr>qm_rates := dset (qm_rates m) tenant q\<rparr>)
      in if rate_of tenant m < int (length q) + n then (store q, False)
         else (store (q @ replicate (nat n) now), True))"

section \<open>Shards and the fleet\<close>

record shard_config =
  sc_shard_id :: int
  sc_name :: string
  sc_prefix_start :: string
  sc_prefix_end :: string
  sc_sbe_port :: int
  sc_data_dir :: string
  sc_max_queue_depth :: int

datatype 'a in_queue = Ring "'a spsc" | Std "'a std_queue"

fun in_put :: "'a \<Rightarrow> 'a in_queue \<Rightarrow> 'a in_queue \<times> bool" where
  "in_put x (Ring q) = (let (q', ok) = offer (Some x) q in (Ring q', ok))"
| "in_put x (Std q) = (let (q', ok) = put_nowait x q in (Std q', ok))"

fun in_get :: "'a in_queue \<Rightarrow> 'a in_queue \<times> 'a option" where
  "in_get (Ring q) = (let (q', r) = poll q in (Ring q', r))"
| "in_get (Std q) = (let (q', r) = std_get q in (Std q', r))"

fun in_qsize :: "'a in_queue \<Rightarrow> int" where
  "in_qsize (Ring q) = spsc_qsize q"
| "in_qsize (Std q) = int (length (sq_items q))"

record shard =
  sh_config :: shard_config
  sh_use_spsc :: bool
  sh_queue :: "(string \<times> bytes) in_queue"
  sh_fanout :: fanout
  sh_sequence :: int
  sh_processed :: int
  sh_running :: bool

definition F_50MS :: f64 where "F_50MS = 0x3FA999999999999A"

definition shard_init :: "shard_config \<Rightarrow> bool \<Rightarrow> shard option" where
  "shard_init cfg spsc =
     map_option (\<lambda>q. \<lparr>sh_config = cfg, sh_use_spsc = spsc, sh_queue = q, sh_fanout = fanout_init 5000 F_50MS, sh_sequence = 0,
                     sh_processed = 0, sh_running = False\<rparr>)
       (if spsc then map_option Ring (spsc_init (sc_max_queue_depth cfg))
        else Some (Std \<lparr>sq_maxsize = sc_max_queue_depth cfg, sq_items = []\<rparr>))"

definition shard_start :: "shard \<Rightarrow> shard" where "shard_start sh = sh\<lparr>sh_running := True\<rparr>"

definition shard_stop :: "shard \<Rightarrow> shard" where "shard_stop sh = sh\<lparr>sh_running := False\<rparr>"

definition enqueue_event :: "string \<Rightarrow> bytes \<Rightarrow> shard \<Rightarrow> shard \<times> bool" where
  "enqueue_event symb payload sh = (let (q, ok) = in_put (symb, payload) (sh_queue sh) in (sh\<lparr>sh_queue := q\<rparr>, ok))"

text \<open>One turn of the loop of the worker thread; the second result is the item it handed to the subscribers.\<close>

definition worker_turn :: "shard \<Rightarrow> shard \<times> (string \<times> bytes) option" where
  "worker_turn sh =
     (if \<not> sh_running sh then (sh, None)
      else case in_get (sh_queue sh) of
             (q, None) \<Rightarrow> (sh\<lparr>sh_queue := q\<rparr>, None)
           | (q, Some (symb, payload)) \<Rightarrow>
               (sh\<lparr>sh_queue := q, sh_sequence := sh_sequence sh + 1, sh_processed := sh_processed sh + 1,
                   sh_fanout := fst (broadcast_event symb payload (sh_fanout sh))\<rparr>, Some (symb, payload)))"

record fleet =
  fl_partitioner :: partitioner
  fl_shards :: "(int, shard) dict"
  fl_quota :: quota_manager

fun make_shards :: "bool \<Rightarrow> shard_config list \<Rightarrow> (int, shard) dict \<Rightarrow> (int, shard) dict option" where
  "make_shards spsc [] d = Some d"
| "make_shards spsc (c # cs) d =
     (case shard_init c spsc of None \<Rightarrow> None | Some sh \<Rightarrow> make_shards spsc cs (dset d (sc_shard_id c) sh))"

definition fleet_init :: "partitioner \<Rightarrow> shard_config list \<Rightarrow> bool \<Rightarrow> fleet option" where
  "fleet_init p cs spsc =
     map_option (\<lambda>d. \<lparr>fl_partitioner = p, fl_shards = d, fl_quota = quota_init 100 5000\<rparr>) (make_shards spsc cs [])"

definition start_fleet :: "fleet \<Rightarrow> fleet" where
  "start_fleet f = f\<lparr>fl_shards := map (\<lambda>(i, sh). (i, shard_start sh)) (fl_shards f)\<rparr>"

definition stop_fleet :: "fleet \<Rightarrow> fleet" where
  "stop_fleet f = f\<lparr>fl_shards := map (\<lambda>(i, sh). (i, shard_stop sh)) (fl_shards f)\<rparr>"

definition dispatch_event :: "string \<Rightarrow> bytes \<Rightarrow> fleet \<Rightarrow> (fleet \<times> int \<times> bool) res" where
  "dispatch_event instrument payload f =
     bindr (get_shard_id (fl_partitioner f) instrument) (\<lambda>i.
       case dget (fl_shards f) i of
         None \<Rightarrow> Inr (f, i, False)
       | Some sh \<Rightarrow> let (sh', ok) = enqueue_event instrument payload sh
                    in Inr (f\<lparr>fl_shards := dset (fl_shards f) i sh'\<rparr>, i, ok))"

record health =
  he_healthy :: bool
  he_shards :: int
  he_processed :: int
  he_backlog :: int
  he_consumers :: int

definition fleet_health :: "fleet \<Rightarrow> health" where
  "fleet_health f =
     \<lparr>he_healthy = list_all (\<lambda>(i, sh). sh_running sh) (fl_shards f), he_shards = int (length (fl_shards f)),
      he_processed = sum_list (map (\<lambda>(i, sh). sh_processed sh) (fl_shards f)),
      he_backlog = sum_list (map (\<lambda>(i, sh). in_qsize (sh_queue sh)) (fl_shards f)),
      he_consumers = sum_list (map (\<lambda>(i, sh). fst (fanout_stats (sh_fanout sh))) (fl_shards f))\<rparr>"

end
