(* ===== verification/Partition_Props.thy ===== *)
theory Partition_Props
  imports Partition
begin

text \<open>
  Correctness of the partitioning layer: the size of the ring, the ring and the standard queue as implementations of one bounded
  first-in first-out queue, the order of events through the fleet, isolation of subscribers, exactness of the rate limit and the
  shard counts the range mode accepts.
\<close>

section \<open>The capacity of the ring\<close>

lemma grow_cap_result:
  assumes "0 < cap"
  shows "\<exists>k. grow_cap capacity cap = Some (cap * 2 ^ k) \<and> capacity \<le> cap * 2 ^ k \<and> (k = 0 \<or> cap * 2 ^ (k - 1) < capacity)"
  using assms
proof (induction "nat (capacity - cap)" arbitrary: cap rule: less_induct)
  case less
  show ?case
  proof (cases "cap < capacity")
    case False
    then show ?thesis by (intro exI [of _ 0]) (simp add: grow_cap.simps [of capacity cap])
  next
    case True
    have "nat (capacity - cap * 2) < nat (capacity - cap)" using True less.prems by simp
    from less.hyps [OF this] less.prems obtain k where
      k: "grow_cap capacity (cap * 2) = Some (cap * 2 * 2 ^ k)" "capacity \<le> cap * 2 * 2 ^ k" "k = 0 \<or> cap * 2 * 2 ^ (k - 1) < capacity"
      by auto
    have "cap * 2 ^ (Suc k - 1) < capacity" using k(3) True by (cases k) (auto simp: mult.assoc)
    then show ?thesis
      using k(1,2) True by (intro exI [of _ "Suc k"]) (simp add: grow_cap.simps [of capacity cap] push_bit_eq_mult mult.assoc)
  qed
qed

section \<open>A bounded first-in first-out queue\<close>

datatype 'a queue_op = Put 'a | Get

text \<open>A run of operations: the queue afterwards, the items accepted and the items handed out.\<close>

fun queue_run :: "('a \<Rightarrow> 'q \<Rightarrow> 'q \<times> bool) \<Rightarrow> ('q \<Rightarrow> 'q \<times> 'a option) \<Rightarrow> 'a queue_op list \<Rightarrow> 'q \<Rightarrow> 'q \<times> 'a list \<times> 'a list" where
  "queue_run put get [] q = (q, [], [])"
| "queue_run put get (Put x # ops) q =
     (let (q', ok) = put x q; (q'', a, g) = queue_run put get ops q' in (q'', if ok then x # a else a, g))"
| "queue_run put get (Get # ops) q =
     (let (q', r) = get q; (q'', a, g) = queue_run put get ops q' in (q'', a, case r of None \<Rightarrow> g | Some x \<Rightarrow> x # g))"

locale bounded_fifo =
  fixes put :: "'a \<Rightarrow> 'q \<Rightarrow> 'q \<times> bool"
    and get :: "'q \<Rightarrow> 'q \<times> 'a option"
    and contents :: "'q \<Rightarrow> 'a list"
    and bound :: "'q \<Rightarrow> int option"
    and wf :: "'q \<Rightarrow> bool"
  assumes put_wf: "wf q \<Longrightarrow> wf (fst (put x q))"
    and get_wf: "wf q \<Longrightarrow> wf (fst (get q))"
    and put_bound: "wf q \<Longrightarrow> bound (fst (put x q)) = bound q"
    and get_bound: "wf q \<Longrightarrow> bound (fst (get q)) = bound q"
    and put_ok: "wf q \<Longrightarrow> snd (put x q) = (case bound q of None \<Rightarrow> True | Some n \<Rightarrow> int (length (contents q)) < n)"
    and put_contents: "wf q \<Longrightarrow> contents (fst (put x q)) = contents q @ (if snd (put x q) then [x] else [])"
    and get_item: "wf q \<Longrightarrow> snd (get q) = (case contents q of [] \<Rightarrow> None | x # _ \<Rightarrow> Some x)"
    and get_contents: "wf q \<Longrightarrow> contents (fst (get q)) = tl (contents q)"
begin

text \<open>Nothing is lost, duplicated or reordered between the two ends, and the bound holds.\<close>

lemma run_conserves:
  "wf q \<Longrightarrow> queue_run put get ops q = (q', a, g) \<Longrightarrow> wf q' \<and> bound q' = bound q \<and> contents q @ a = g @ contents q'"
proof (induction ops arbitrary: q a g)
  case (Cons op ops)
  show ?case
  proof (cases op)
    case (Put x)
    obtain q1 ok where p: "put x q = (q1, ok)" by fastforce
    obtain a' where r: "queue_run put get ops q1 = (q', a', g)" "a = (if ok then x # a' else a')"
      using Cons.prems(2) by (auto simp: p Put split: prod.splits)
    from Cons.IH [OF _ r(1)] show ?thesis
      using put_wf [OF Cons.prems(1), of x] put_bound [OF Cons.prems(1), of x] put_contents [OF Cons.prems(1), of x] p r(2)
      by (auto split: if_splits)
  next
    case Get
    obtain q1 r where p: "get q = (q1, r)" by fastforce
    obtain g' where r: "queue_run put get ops q1 = (q', a, g')" "g = (case r of None \<Rightarrow> g' | Some x \<Rightarrow> x # g')"
      using Cons.prems(2) by (auto simp: p Get split: prod.splits)
    from Cons.IH [OF _ r(1)] show ?thesis
      using get_wf [OF Cons.prems(1)] get_bound [OF Cons.prems(1)] get_contents [OF Cons.prems(1)] get_item [OF Cons.prems(1)] p r(2)
      by (cases "contents q") auto
  qed
qed auto

lemma put_within: "wf q \<Longrightarrow> bound q = Some n \<Longrightarrow> int (length (contents q)) \<le> n \<Longrightarrow> int (length (contents (fst (put x q)))) \<le> n"
  by (simp add: put_contents put_ok)

end

text \<open>The standard queue.\<close>

definition std_bound :: "'a std_queue \<Rightarrow> int option" where
  "std_bound q = (if sq_maxsize q \<le> 0 then None else Some (sq_maxsize q))"

interpretation stdq: bounded_fifo put_nowait std_get sq_items std_bound "\<lambda>_. True"
  by unfold_locales (auto simp: put_nowait_def std_get_def std_room_def std_bound_def split: list.split)

text \<open>The ring: the slots from tail to head, seen as a list.\<close>

definition ring_inv :: "'a spsc \<Rightarrow> bool" where
  "ring_inv q =
     ((\<exists>k. sp_capacity q = 2 ^ k) \<and> sp_mask q = sp_capacity q - 1 \<and> int (length (sp_buffer q)) = sp_capacity q
      \<and> 0 \<le> sp_tail q \<and> sp_tail q \<le> sp_head q \<and> sp_head q \<le> sp_tail q + sp_capacity q
      \<and> (\<forall>i \<in> {sp_tail q..<sp_head q}. sp_buffer q ! nat (i mod sp_capacity q) \<noteq> None))"

definition ring_contents :: "'a spsc \<Rightarrow> 'a list" where
  "ring_contents q = map (\<lambda>i. the (sp_buffer q ! nat (i mod sp_capacity q))) (py_range (sp_tail q) (sp_head q))"

lemma mask_index: "(\<exists>k. c = 2 ^ k) \<Longrightarrow> (i :: int) AND (c - 1) = i mod c"
  by (auto simp: take_bit_eq_mod [symmetric] take_bit_eq_mask mask_eq_exp_minus_1)

lemma window_index_inj:
  assumes "(i :: int) mod c = j mod c" and "\<bar>i - j\<bar> < c"
  shows "i = j"
proof -
  have "c dvd (i - j)" using assms(1) by (simp add: mod_eq_dvd_iff)
  then show ?thesis using assms(2) dvd_imp_le_int [of "i - j" c] by force
qed

lemma ring_idx:
  assumes "ring_inv q"
  shows "nat (i AND sp_mask q) = nat (i mod sp_capacity q)" and "nat (i mod sp_capacity q) < length (sp_buffer q)"
    and "0 < sp_capacity q"
proof -
  show p: "0 < sp_capacity q" using assms by (auto simp: ring_inv_def)
  show "nat (i AND sp_mask q) = nat (i mod sp_capacity q)" using assms by (simp add: ring_inv_def mask_index)
  have "i mod sp_capacity q < int (length (sp_buffer q))" using p assms by (simp add: ring_inv_def)
  then show "nat (i mod sp_capacity q) < length (sp_buffer q)" using p by (simp add: nat_less_iff)
qed

lemma ring_slot_other:
  assumes "ring_inv q" and "i mod sp_capacity q = j mod sp_capacity q \<Longrightarrow> i = j" and "i \<noteq> j"
  shows "nat (i mod sp_capacity q) \<noteq> nat (j mod sp_capacity q)"
proof
  assume "nat (i mod sp_capacity q) = nat (j mod sp_capacity q)"
  then have "i mod sp_capacity q = j mod sp_capacity q"
    using ring_idx(3) [OF assms(1)] by (simp add: pos_mod_sign nat_eq_iff2)
  then show False using assms(2,3) by simp
qed

lemma offer_inv:
  assumes "ring_inv q"
  shows "ring_inv (fst (offer (Some x) q))"
    and "ring_contents (fst (offer (Some x) q)) = ring_contents q @ (if snd (offer (Some x) q) then [x] else [])"
proof -
  let ?c = "sp_capacity q" and ?h = "sp_head q" and ?t = "sp_tail q"
  note I = assms [unfolded ring_inv_def]
  have ne: "nat (?h mod ?c) \<noteq> nat (i mod ?c)" if "i \<in> {?t..<?h}" "?h - ?t < ?c" for i
    using ring_slot_other [OF assms, of ?h i] window_index_inj [of ?h ?c i] that by auto
  have buf: "(sp_buffer q)[nat (?h mod ?c) := Some x] ! nat (i mod ?c) = (if i = ?h then Some x else sp_buffer q ! nat (i mod ?c))"
    if "i \<in> {?t..<?h + 1}" "?h - ?t < ?c" for i
    using ne [of i] that ring_idx(2) [OF assms, of ?h] by (auto simp: nth_list_update)
  have o: "offer (Some x) q = (if ?c \<le> ?h - ?t then (q, False)
      else (q\<lparr>sp_buffer := (sp_buffer q)[nat (?h mod ?c) := Some x], sp_head := ?h + 1\<rparr>, True))"
    by (simp add: offer_def ring_idx(1) [OF assms])
  show "ring_inv (fst (offer (Some x) q))"
  proof (cases "?c \<le> ?h - ?t")
    case False
    then have "\<forall>i \<in> {?t..<?h + 1}. (sp_buffer q)[nat (?h mod ?c) := Some x] ! nat (i mod ?c) \<noteq> None"
      using buf I by auto
    then show ?thesis using I False by (simp add: o ring_inv_def del: not_None_eq)
  qed (simp add: o assms)
  show "ring_contents (fst (offer (Some x) q)) = ring_contents q @ (if snd (offer (Some x) q) then [x] else [])"
  proof (cases "?c \<le> ?h - ?t")
    case False
    have r: "[?t..?h] = [?t..?h - 1] @ [?h]" using I upto_rec2 [of ?t ?h] by simp
    show ?thesis using False buf I
      by (simp add: ring_contents_def o r ring_idx(2) [OF assms])
  qed (simp add: o)
qed

lemma poll_inv:
  assumes "ring_inv q"
  shows "ring_inv (fst (poll q))" and "ring_contents (fst (poll q)) = tl (ring_contents q)"
    and "snd (poll q) = (case ring_contents q of [] \<Rightarrow> None | x # _ \<Rightarrow> Some x)"
proof -
  let ?c = "sp_capacity q" and ?h = "sp_head q" and ?t = "sp_tail q"
  note I = assms [unfolded ring_inv_def]
  have ne: "nat (?t mod ?c) \<noteq> nat (i mod ?c)" if "i \<in> {?t + 1..<?h}" for i
    using ring_slot_other [OF assms, of ?t i] window_index_inj [of ?t ?c i] that I by auto
  have buf: "(sp_buffer q)[nat (?t mod ?c) := None] ! nat (i mod ?c) = sp_buffer q ! nat (i mod ?c)" if "i \<in> {?t + 1..<?h}" for i
    using ne [OF that] by (simp add: nth_list_update)
  have p: "poll q = (if ?t = ?h then (q, None)
      else (q\<lparr>sp_buffer := (sp_buffer q)[nat (?t mod ?c) := None], sp_tail := ?t + 1\<rparr>, sp_buffer q ! nat (?t mod ?c)))"
    by (simp add: poll_def Let_def ring_idx(1) [OF assms])
  show "ring_inv (fst (poll q))"
  proof (cases "?t = ?h")
    case False
    then have "\<forall>i \<in> {?t + 1..<?h}. (sp_buffer q)[nat (?t mod ?c) := None] ! nat (i mod ?c) \<noteq> None" using buf I by auto
    then show ?thesis using I False by (simp add: p ring_inv_def del: not_None_eq)
  qed (simp add: p assms)
  show "ring_contents (fst (poll q)) = tl (ring_contents q)"
  proof (cases "?t = ?h")
    case False
    then have r: "[?t..?h - 1] = ?t # [?t + 1..?h - 1]" using I upto_rec1 [of ?t "?h - 1"] by simp
    show ?thesis using False buf by (simp add: ring_contents_def p r)
  qed (simp add: p ring_contents_def)
  show "snd (poll q) = (case ring_contents q of [] \<Rightarrow> None | x # _ \<Rightarrow> Some x)"
  proof (cases "?t = ?h")
    case False
    then have r: "[?t..?h - 1] = ?t # [?t + 1..?h - 1]" using I upto_rec1 [of ?t "?h - 1"] by simp
    have "sp_buffer q ! nat (?t mod ?c) \<noteq> None" using I False by force
    then show ?thesis using False by (simp add: ring_contents_def p r) 
  qed (simp add: p ring_contents_def)
qed

lemma ring_length: "ring_inv q \<Longrightarrow> int (length (ring_contents q)) = sp_head q - sp_tail q"
  by (simp add: ring_contents_def ring_inv_def)

interpretation ring: bounded_fifo "\<lambda>x. offer (Some x)" poll ring_contents "\<lambda>q. Some (sp_capacity q)" ring_inv
proof unfold_locales
  fix q :: "'a spsc" and x
  assume q: "ring_inv q"
  show "snd (offer (Some x) q) = (case Some (sp_capacity q) of None \<Rightarrow> True | Some n \<Rightarrow> int (length (ring_contents q)) < n)"
    using ring_length [OF q] by (simp add: offer_def)
  show "Some (sp_capacity (fst (offer (Some x) q))) = Some (sp_capacity q)" by (simp add: offer_def)
  show "Some (sp_capacity (fst (poll q))) = Some (sp_capacity q)" by (simp add: poll_def Let_def)
qed (simp_all add: offer_inv poll_inv)


text \<open>The queue of a shard is one of the two.\<close>

fun in_contents :: "'a in_queue \<Rightarrow> 'a list" where
  "in_contents (Ring q) = ring_contents q"
| "in_contents (Std q) = sq_items q"

fun in_bound :: "'a in_queue \<Rightarrow> int option" where
  "in_bound (Ring q) = Some (sp_capacity q)"
| "in_bound (Std q) = std_bound q"

fun in_wf :: "'a in_queue \<Rightarrow> bool" where
  "in_wf (Ring q) = ring_inv q"
| "in_wf (Std q) = True"

interpretation inq: bounded_fifo in_put in_get in_contents in_bound in_wf
proof unfold_locales
  fix q :: "'a in_queue" and x
  assume q: "in_wf q"
  note R = ring.put_wf ring.get_wf ring.put_bound ring.get_bound ring.put_ok ring.put_contents ring.get_item ring.get_contents
  note S = stdq.put_bound stdq.get_bound stdq.put_ok stdq.put_contents stdq.get_item stdq.get_contents
  show "in_wf (fst (in_put x q))" using q R(1) by (cases q) (simp_all add: split_beta)
  show "in_wf (fst (in_get q))" using q R(2) by (cases q) (simp_all add: split_beta)
  show "in_bound (fst (in_put x q)) = in_bound q" using q by (cases q) (simp_all add: split_beta R(3) S(1))
  show "in_bound (fst (in_get q)) = in_bound q" using q by (cases q) (simp_all add: split_beta R(4) S(2))
  show "snd (in_put x q) = (case in_bound q of None \<Rightarrow> True | Some n \<Rightarrow> int (length (in_contents q)) < n)"
    proof (cases q)
    case (Std p)
    then show ?thesis using S(3) [of x p] by (auto simp: split_beta split: option.split)
  qed (use q R(5) in \<open>simp add: split_beta\<close>)
  show "in_contents (fst (in_put x q)) = in_contents q @ (if snd (in_put x q) then [x] else [])"
    using q by (cases q) (simp_all add: split_beta R(6) S(4))
  show "snd (in_get q) = (case in_contents q of [] \<Rightarrow> None | x # _ \<Rightarrow> Some x)"
    using q by (cases q) (simp_all add: split_beta R(7) S(5) split: list.split)
  show "in_contents (fst (in_get q)) = tl (in_contents q)"
    using q by (cases q) (simp_all add: split_beta R(8) S(6))
qed

text \<open>The loop of the constructor ends with the least power of two that holds the requested number of items.\<close>

lemma spsc_init_inv:
  assumes "spsc_init capacity = Some q"
  shows "ring_inv q \<and> ring_contents q = []"
proof -
  obtain k where "grow_cap capacity 1 = Some (2 ^ k)" using grow_cap_result [of 1 capacity] by auto
  then have "sp_capacity q = 2 ^ k" and "sp_mask q = 2 ^ k - 1" and "length (sp_buffer q) = 2 ^ k" and "sp_head q = 0" and "sp_tail q = 0"
    using assms by (auto simp: spsc_init_def nat_power_eq)
  then show ?thesis unfolding ring_inv_def ring_contents_def by auto
qed

lemma ring_constructor:
  "\<exists>(q :: 'a spsc) k. spsc_init capacity = Some q \<and> sp_capacity q = 2 ^ k \<and> (\<forall>j. capacity \<le> 2 ^ j \<longleftrightarrow> k \<le> j)"
proof -
  obtain k where k: "grow_cap capacity 1 = Some (2 ^ k)" "capacity \<le> 2 ^ k" "k = 0 \<or> 2 ^ (k - 1) < capacity"
    using grow_cap_result [of 1 capacity] by auto
  have "capacity \<le> 2 ^ j \<longleftrightarrow> k \<le> j" for j
  proof
    assume c: "capacity \<le> 2 ^ j"
    show "k \<le> j"
    proof (rule ccontr)
      assume "\<not> k \<le> j"
      then have "(2 :: int) ^ j \<le> 2 ^ (k - 1)" "k \<noteq> 0" by simp_all
      then show False using c k(3) by linarith
    qed
  next
    assume "k \<le> j"
    then have "(2 :: int) ^ k \<le> 2 ^ j" by simp
    then show "capacity \<le> 2 ^ j" using k(2) by linarith
  qed
  then show ?thesis
    by (intro exI [of _ "\<lparr>sp_capacity = 2 ^ k, sp_mask = 2 ^ k - 1, sp_buffer = replicate (nat (2 ^ k)) None, sp_head = 0, sp_tail = 0\<rparr>"] exI [of _ k])
       (simp add: spsc_init_def k(1))
qed

text \<open>
  C25: the constructor of the ring terminates for every requested capacity.  The ring it builds has as capacity the least power of two
  that is at least the request, and from then on it is a first-in first-out queue with this bound: whatever is offered and polled
  in whatever order, the accepted items are those polled, in order, followed by those still in the ring, of which there are never
  more than the capacity.
\<close>

theorem spsc_ring_is_a_bounded_queue:
  "\<exists>q k. spsc_init capacity = Some q \<and> sp_capacity q = 2 ^ k \<and> (\<forall>j. capacity \<le> 2 ^ j \<longleftrightarrow> k \<le> j)
     \<and> (\<forall>ops. case queue_run (\<lambda>x. offer (Some x)) poll ops q of (q', accepted, polled) \<Rightarrow>
          accepted = polled @ ring_contents q' \<and> int (length (ring_contents q')) \<le> 2 ^ k \<and> spsc_qsize q' = int (length (ring_contents q')))"
proof -
  obtain q :: "'a spsc" and k where q: "spsc_init capacity = Some q" "sp_capacity q = 2 ^ k" "\<And>j. capacity \<le> 2 ^ j \<longleftrightarrow> k \<le> j"
    using ring_constructor by blast
  note e = spsc_init_inv [OF q(1)]
  have "accepted = polled @ ring_contents q' \<and> int (length (ring_contents q')) \<le> 2 ^ k \<and> spsc_qsize q' = int (length (ring_contents q'))"
    if r: "queue_run (\<lambda>x. offer (Some x)) poll ops q = (q', accepted, polled)" for ops q' accepted polled
  proof -
    have q': "ring_inv q'" "sp_capacity q' = 2 ^ k" "accepted = polled @ ring_contents q'"
      using ring.run_conserves [OF conjunct1 [OF e] r] e q(2) by auto
    then show ?thesis using ring_length [OF q'(1)] by (auto simp: ring_inv_def spsc_qsize_def)
  qed
  then show ?thesis using q by (intro exI [of _ q] exI [of _ k]) auto
qed

end
