(* ===== verification/Partition_Fleet.thy ===== *)
theory Partition_Fleet
  imports Partition_Props
begin

text \<open>
  The fleet as a whole: runs of dispatches, worker turns and subscriber operations in any order, the isolation of subscribers from
  each other, the rate limit against a reference that remembers everything, and the shard counts of the range mode.
\<close>

section \<open>Runs of the fleet\<close>

datatype fleet_act =
    Dispatch string bytes | Turn int | StartAll | StopAll
  | Subscribe int string string "string list option" f64 | Unsubscribe int string | Take int string

definition on_shard :: "int \<Rightarrow> (shard \<Rightarrow> shard) \<Rightarrow> fleet \<Rightarrow> fleet" where
  "on_shard i g f = (case dget (fl_shards f) i of None \<Rightarrow> f | Some sh \<Rightarrow> f\<lparr>fl_shards := dset (fl_shards f) i (g sh)\<rparr>)"

text \<open>A step gives the events a queue accepted and the events a worker handed out, each with its shard.\<close>

type_synonym flow = "(int \<times> string \<times> bytes) list"

fun fleet_step :: "fleet_act \<Rightarrow> fleet \<Rightarrow> fleet \<times> flow \<times> flow" where
  "fleet_step (Dispatch s p) f =
     (case dispatch_event s p f of Inl _ \<Rightarrow> (f, [], []) | Inr (f', i, ok) \<Rightarrow> (f', if ok then [(i, s, p)] else [], []))"
| "fleet_step (Turn i) f =
     (case dget (fl_shards f) i of
        None \<Rightarrow> (f, [], [])
      | Some sh \<Rightarrow> (f\<lparr>fl_shards := dset (fl_shards f) i (fst (worker_turn sh))\<rparr>, [],
                    case snd (worker_turn sh) of None \<Rightarrow> [] | Some x \<Rightarrow> [(i, x)]))"
| "fleet_step StartAll f = (start_fleet f, [], [])"
| "fleet_step StopAll f = (stop_fleet f, [], [])"
| "fleet_step (Subscribe i c t ss now) f =
     (on_shard i (\<lambda>sh. sh\<lparr>sh_fanout := register_consumer c t ss now (sh_fanout sh)\<rparr>) f, [], [])"
| "fleet_step (Unsubscribe i c) f = (on_shard i (\<lambda>sh. sh\<lparr>sh_fanout := fst (unregister_consumer c (sh_fanout sh))\<rparr>) f, [], [])"
| "fleet_step (Take i c) f = (on_shard i (\<lambda>sh. sh\<lparr>sh_fanout := fst (consumer_get c (sh_fanout sh))\<rparr>) f, [], [])"

fun fleet_run :: "fleet_act list \<Rightarrow> fleet \<Rightarrow> fleet \<times> flow \<times> flow" where
  "fleet_run [] f = (f, [], [])"
| "fleet_run (a # as) f =
     (let (f1, i1, o1) = fleet_step a f; (f2, i2, o2) = fleet_run as f1 in (f2, i1 @ i2, o1 @ o2))"

definition of_shard :: "int \<Rightarrow> flow \<Rightarrow> (string \<times> bytes) list" where
  "of_shard i xs = map snd (filter (\<lambda>x. fst x = i) xs)"

lemma of_shard_simps [simp]:
  "of_shard i [] = []" "of_shard i (xs @ ys) = of_shard i xs @ of_shard i ys"
  "of_shard i [(j, x)] = (if j = i then [x] else [])"
  by (simp_all add: of_shard_def)

text \<open>What has gone in is what has come out and what is still queued, per shard.\<close>

definition shard_ok :: "(string \<times> bytes) list \<Rightarrow> (string \<times> bytes) list \<Rightarrow> shard \<Rightarrow> bool" where
  "shard_ok ins outs sh =
     (in_wf (sh_queue sh) \<and> ins = outs @ in_contents (sh_queue sh) \<and> sh_sequence sh = int (length outs)
      \<and> sh_processed sh = int (length outs))"

definition fleet_ok :: "partitioner \<Rightarrow> flow \<Rightarrow> flow \<Rightarrow> fleet \<Rightarrow> bool" where
  "fleet_ok p ins outs f =
     (fl_partitioner f = p
      \<and> (\<forall>i. case dget (fl_shards f) i of None \<Rightarrow> of_shard i ins = [] \<and> of_shard i outs = []
                                        | Some sh \<Rightarrow> shard_ok (of_shard i ins) (of_shard i outs) sh)
      \<and> (\<forall>(i, s, x) \<in> set ins. get_shard_id p s = Inr i))"

lemma fleet_okI:
  assumes "fl_partitioner f = p" and "\<And>i s x. (i, s, x) \<in> set ins \<Longrightarrow> get_shard_id p s = Inr i"
    and "\<And>i. dget (fl_shards f) i = None \<Longrightarrow> of_shard i ins = [] \<and> of_shard i outs = []"
    and "\<And>i sh. dget (fl_shards f) i = Some sh \<Longrightarrow> shard_ok (of_shard i ins) (of_shard i outs) sh"
  shows "fleet_ok p ins outs f"
  using assms by (auto simp: fleet_ok_def split: option.split)

lemma fleet_okD:
  assumes "fleet_ok p ins outs f"
  shows "fl_partitioner f = p" and "\<And>i s x. (i, s, x) \<in> set ins \<Longrightarrow> get_shard_id p s = Inr i"
    and "\<And>i. dget (fl_shards f) i = None \<Longrightarrow> of_shard i ins = [] \<and> of_shard i outs = []"
    and "\<And>i sh. dget (fl_shards f) i = Some sh \<Longrightarrow> shard_ok (of_shard i ins) (of_shard i outs) sh"
proof -
  have *: "case dget (fl_shards f) i of None \<Rightarrow> of_shard i ins = [] \<and> of_shard i outs = []
      | Some sh \<Rightarrow> shard_ok (of_shard i ins) (of_shard i outs) sh" for i
    using assms by (simp add: fleet_ok_def)
  show "dget (fl_shards f) i = None \<Longrightarrow> of_shard i ins = [] \<and> of_shard i outs = []" for i using * [of i] by simp
  show "dget (fl_shards f) i = Some sh \<Longrightarrow> shard_ok (of_shard i ins) (of_shard i outs) sh" for i sh using * [of i] by simp
qed (use assms in \<open>auto simp: fleet_ok_def\<close>)

lemma enqueue_ok:
  assumes "shard_ok ins outs sh" and "enqueue_event s p sh = (sh', ok)"
  shows "shard_ok (ins @ (if ok then [(s, p)] else [])) outs sh'"
  using assms inq.put_wf [of "sh_queue sh" "(s, p)"] inq.put_contents [of "sh_queue sh" "(s, p)"]
  by (auto simp: shard_ok_def enqueue_event_def split: prod.splits)

lemma worker_ok:
  assumes "shard_ok ins outs sh"
  shows "shard_ok ins (outs @ (case snd (worker_turn sh) of None \<Rightarrow> [] | Some x \<Rightarrow> [x])) (fst (worker_turn sh))"
proof (cases "sh_running sh")
  case True
  have wf: "in_wf (sh_queue sh)" using assms by (simp add: shard_ok_def)
  obtain q r where g: "in_get (sh_queue sh) = (q, r)" by fastforce
  show ?thesis
    using assms True g inq.get_wf [OF wf] inq.get_item [OF wf] inq.get_contents [OF wf]
    by (cases "in_contents (sh_queue sh)") (auto simp: shard_ok_def worker_turn_def)
qed (simp add: worker_turn_def assms)

lemma dget_map_values: "dget (map (\<lambda>(k, v). (k, g v)) d) k = map_option g (dget d k)"
  by (simp add: map_of_map)

lemma on_shard_ok:
  assumes "fleet_ok p ins outs f" and "\<And>sh xs ys. shard_ok xs ys sh \<Longrightarrow> shard_ok xs ys (g sh)"
  shows "fleet_ok p ins outs (on_shard i g f)"
  using fleet_okD [OF assms(1)] assms(2)
  by (intro fleet_okI) (auto simp: on_shard_def dict_simps split: option.splits if_splits)

lemma fleet_step_ok:
  assumes "fleet_ok p ins outs f" and "fleet_step a f = (f', di, do)"
  shows "fleet_ok p (ins @ di) (outs @ do) f'"
proof (cases a)
  case (Dispatch s x)
  show ?thesis
  proof (cases "dispatch_event s x f")
    case (Inr r)
    obtain f1 i ok where r: "r = (f1, i, ok)" by (cases r)
    have i: "get_shard_id p s = Inr i" using Inr r fleet_okD(1) [OF assms(1)]
      by (auto simp: dispatch_event_def bindr_Inr split_beta split: option.splits)
    show ?thesis
    proof (cases "dget (fl_shards f) i")
      case None
      then show ?thesis using Inr r assms(1,2) i fleet_okD(1) [OF assms(1)] by (simp add: dispatch_event_def Dispatch)
    next
      case (Some sh)
      obtain sh' ok' where e: "enqueue_event s x sh = (sh', ok')" by fastforce
      have f: "f' = f\<lparr>fl_shards := dset (fl_shards f) i sh'\<rparr>" "di = (if ok' then [(i, s, x)] else [])" "do = []"
        using Inr r assms(2) i Some e fleet_okD(1) [OF assms(1)] by (auto simp: dispatch_event_def Dispatch)
      show ?thesis
        using fleet_okD [OF assms(1)] enqueue_ok [OF fleet_okD(4) [OF assms(1) Some] e] i
        by (intro fleet_okI) (auto simp: f dict_simps split: if_splits)
    qed
  qed (use assms Dispatch in auto)
next
  case (Turn i)
  show ?thesis
  proof (cases "dget (fl_shards f) i")
    case (Some sh)
    have f: "f' = f\<lparr>fl_shards := dset (fl_shards f) i (fst (worker_turn sh))\<rparr>" "di = []"
      "do = (case snd (worker_turn sh) of None \<Rightarrow> [] | Some x \<Rightarrow> [(i, x)])"
      using assms(2) Some by (auto simp: Turn)
    have d: "of_shard j do = (if j = i then case snd (worker_turn sh) of None \<Rightarrow> [] | Some x \<Rightarrow> [x] else [])" for j
      by (auto simp: f split: option.split)
    show ?thesis
      using fleet_okD [OF assms(1)] worker_ok [OF fleet_okD(4) [OF assms(1) Some]] d
      by (intro fleet_okI) (auto simp: f(1,2) dict_simps split: if_splits)
  qed (use assms Turn in auto)
next
  case StartAll
  then show ?thesis using assms fleet_okD [OF assms(1)]
    by (intro fleet_okI) (auto simp: start_fleet_def dget_map_values shard_start_def shard_ok_def)
next
  case StopAll
  then show ?thesis using assms fleet_okD [OF assms(1)]
    by (intro fleet_okI) (auto simp: stop_fleet_def dget_map_values shard_stop_def shard_ok_def)
qed (use assms in \<open>auto intro!: on_shard_ok simp: shard_ok_def\<close>)

lemma fleet_run_ok:
  "fleet_ok p ins outs f \<Longrightarrow> fleet_run as f = (f', di, do) \<Longrightarrow> fleet_ok p (ins @ di) (outs @ do) f'"
proof (induction as arbitrary: f ins outs di do)
  case (Cons a as)
  obtain f1 i1 o1 where 1: "fleet_step a f = (f1, i1, o1)" by (cases "fleet_step a f")
  obtain i2 o2 where 2: "fleet_run as f1 = (f', i2, o2)" "di = i1 @ i2" "do = o1 @ o2"
    using Cons.prems(2) by (auto simp: 1 split: prod.splits)
  show ?case using Cons.IH [OF fleet_step_ok [OF Cons.prems(1) 1] 2(1)] by (simp add: 2)
qed simp

lemma shard_init_ok: "shard_init c spsc = Some sh \<Longrightarrow> shard_ok [] [] sh"
  by (auto simp: shard_init_def shard_ok_def dest: spsc_init_inv split: if_splits)

lemma make_shards_ok:
  "make_shards spsc cs d = Some d' \<Longrightarrow> (\<And>i sh. dget d i = Some sh \<Longrightarrow> shard_ok [] [] sh) \<Longrightarrow> dget d' i = Some sh \<Longrightarrow> shard_ok [] [] sh"
proof (induction spsc cs d rule: make_shards.induct)
  case (2 spsc c cs d)
  then obtain s where s: "shard_init c spsc = Some s" "make_shards spsc cs (dset d (sc_shard_id c) s) = Some d'"
    by (auto split: option.splits)
  have "shard_ok [] [] y" if "dget (dset d (sc_shard_id c) s) j = Some y" for j y
    using that "2.prems"(2) shard_init_ok [OF s(1)] by (auto simp: dict_simps split: if_splits)
  then show ?case using "2.IH" [OF s _ "2.prems"(3)] by blast
qed auto

lemma fleet_init_ok: "fleet_init p cs spsc = Some f \<Longrightarrow> fleet_ok p [] [] f"
  by (auto simp: fleet_init_def intro!: fleet_okI dest: make_shards_ok)


lemma shard_init_total: "\<exists>sh. shard_init c spsc = Some sh"
  using ring_constructor [of "sc_max_queue_depth c"] by (auto simp: shard_init_def)

lemma make_shards_total: "\<exists>d'. make_shards spsc cs d = Some d'"
proof (induction cs arbitrary: d)
  case (Cons c cs)
  obtain sh where "shard_init c spsc = Some sh" using shard_init_total by blast
  then show ?case using Cons by simp
qed simp

text \<open>The events of one symbol.\<close>

definition of_symbol :: "string \<Rightarrow> flow \<Rightarrow> (string \<times> bytes) list" where
  "of_symbol s xs = filter (\<lambda>x. fst x = s) (map snd xs)"

lemma of_symbol_shard:
  "(\<And>j y. (j, s, y) \<in> set xs \<Longrightarrow> j = i) \<Longrightarrow> of_symbol s xs = filter (\<lambda>x. fst x = s) (of_shard i xs)"
  unfolding of_symbol_def of_shard_def filter_map filter_filter by (intro arg_cong [where f = "map snd"] filter_cong) auto

lemma outs_within:
  assumes "fleet_ok p ins outs f" and "(j, y) \<in> set outs"
  shows "(j, y) \<in> set ins"
proof -
  have y: "y \<in> set (of_shard j outs)" using assms(2) by (force simp: of_shard_def)
  then obtain sh where "dget (fl_shards f) j = Some sh" using fleet_okD(3) [OF assms(1), of j] by fastforce
  then have "y \<in> set (of_shard j ins)" using fleet_okD(4) [OF assms(1)] y by (auto simp: shard_ok_def)
  then show ?thesis by (auto simp: of_shard_def)
qed

text \<open>
  C15: the fleet neither loses nor reorders the events of a symbol.  The shards can always be built; after any interleaving of dispatches, worker turns, starts, stops and subscriber operations,
  with either kind of queue, the events of a symbol that dispatch accepted are exactly those a worker has handed to the subscribers,
  in the same order, followed by those that wait in the queue of the symbol's shard; and the sequence number of the shard counts
  the events it has handed out.
\<close>

theorem fleet_keeps_symbol_order:
  assumes "fleet_init p cs spsc = Some f0" and "fleet_run as f0 = (f, ins, outs)"
    and "get_shard_id p s = Inr i" and "dget (fl_shards f) i = Some sh"
  shows "of_symbol s ins = of_symbol s outs @ filter (\<lambda>x. fst x = s) (in_contents (sh_queue sh))
     \<and> sh_sequence sh = int (length (of_shard i outs))"
proof -
  have ok: "fleet_ok p ins outs f" using fleet_run_ok [OF fleet_init_ok [OF assms(1)] assms(2)] by simp
  have i: "j = i" if "(j, s, y) \<in> set ins" for j y using fleet_okD(2) [OF ok that] assms(3) by simp
  have ins: "of_symbol s ins = filter (\<lambda>x. fst x = s) (of_shard i ins)" using i by (rule of_symbol_shard)
  have outs: "of_symbol s outs = filter (\<lambda>x. fst x = s) (of_shard i outs)"
    using i outs_within [OF ok] by (intro of_symbol_shard) blast
  show ?thesis using fleet_okD(4) [OF ok assms(4)] by (simp add: shard_ok_def ins outs)
qed


definition demo_config :: "int \<Rightarrow> shard_config" where
  "demo_config i = \<lparr>sc_shard_id = i, sc_name = ''s'', sc_prefix_start = ''A'', sc_prefix_end = ''Z'', sc_sbe_port = 9002, sc_data_dir = ''d'',
     sc_max_queue_depth = 2\<rparr>"

definition demo_partitioner :: partitioner where
  "demo_partitioner = \<lparr>pt_num_shards = 2, pt_mode = ''range'', pt_ranges = [(''A'', ''L''), (''M'', ''Z'')]\<rparr>"

definition demo_acts :: "fleet_act list" where
  "demo_acts = [StartAll, Dispatch ''MSFT'' [1], Dispatch ''msft'' [2], Dispatch ''MSFT'' [3], Turn 1, Dispatch ''MSFT'' [4]]"

theorem fleet_keeps_symbol_order_witness:
  "\<exists>f outs sh. fleet_run demo_acts (the (fleet_init demo_partitioner [demo_config 0, demo_config 1] True))
       = (f, [(1, ''MSFT'', [1]), (1, ''msft'', [2]), (1, ''MSFT'', [4])], outs) \<and> dget (fl_shards f) 1 = Some sh
     \<and> [(''MSFT'', [1]), (''MSFT'', [4])] = of_symbol ''MSFT'' outs @ filter (\<lambda>x. fst x = ''MSFT'') (in_contents (sh_queue sh))
     \<and> sh_sequence sh = int (length (of_shard 1 outs))"
proof -
  let ?f0 = "the (fleet_init demo_partitioner [demo_config 0, demo_config 1] True)" and ?r = "fleet_run demo_acts (the (fleet_init demo_partitioner [demo_config 0, demo_config 1] True))"
  have 0: "fleet_init demo_partitioner [demo_config 0, demo_config 1] True = Some ?f0"
    using make_shards_total [of True "[demo_config 0, demo_config 1]" "[]"] by (auto simp: fleet_init_def simp del: make_shards.simps)
  have 1: "fst (snd ?r) = [(1, ''MSFT'', [1]), (1, ''msft'', [2]), (1, ''MSFT'', [4])]" by code_simp
  have 2: "dget (fl_shards (fst ?r)) 1 \<noteq> None" by code_simp
  have 3: "get_shard_id demo_partitioner ''MSFT'' = Inr 1" by code_simp
  have 4: "of_symbol ''MSFT'' [(1, ''MSFT'', [1]), (1, ''msft'', [2]), (1, ''MSFT'', [4])] = [(''MSFT'', [1]), (''MSFT'', [4])]" by code_simp
  from 2 obtain sh where "dget (fl_shards (fst ?r)) 1 = Some sh" by blast
  then show ?thesis
    using fleet_keeps_symbol_order [OF 0, of demo_acts "fst ?r" "fst (snd ?r)" "snd (snd ?r)" "''MSFT''" 1 sh] 1 3 4
    by (intro exI [of _ "fst ?r"] exI [of _ "snd (snd ?r)"] exI [of _ sh]) (simp add: prod_eq_iff)
qed

section \<open>Isolation of subscribers\<close>

datatype fan_act = Broadcast string bytes | Join string string "string list option" f64 | Leave string | Fetch string

fun fan_step :: "fan_act \<Rightarrow> fanout \<Rightarrow> fanout" where
  "fan_step (Broadcast s frame) f = fst (broadcast_event s frame f)"
| "fan_step (Join c t ss now) f = register_consumer c t ss now f"
| "fan_step (Leave c) f = fst (unregister_consumer c f)"
| "fan_step (Fetch c) f = fst (consumer_get c f)"

text \<open>
  The specification: one subscriber on its own, as what it asks for (every symbol, or a set of symbols in capitals), its queued frames,
  and how many frames it got and lost.  A frame it asks for is queued when there is room, where a bound of zero or less means no bound, and
  is lost otherwise; the tenth loss ends the subscription.
\<close>

type_synonym subscriber = "string set option \<times> (string \<times> bytes) list \<times> int \<times> int"

fun solo_step :: "int \<Rightarrow> string \<Rightarrow> fan_act \<Rightarrow> subscriber option \<Rightarrow> subscriber option" where
  "solo_step mx cid (Broadcast s frame) None = None"
| "solo_step mx cid (Broadcast s frame) (Some (asked, q, got, lost)) =
     (if asked \<noteq> None \<and> map upper s \<notin> the asked then Some (asked, q, got, lost)
      else if mx \<le> 0 \<or> int (length q) < mx then Some (asked, q @ [(map upper s, frame)], got + 1, lost)
      else if lost = 9 then None
      else Some (asked, q, got, lost + 1))"
| "solo_step mx cid (Join c t ss now) x =
     (if c = cid then Some (if ss = None \<or> ss = Some [] then None else Some (map upper ` set (the ss)), [], 0, 0) else x)"
| "solo_step mx cid (Leave c) x = (if c = cid then None else x)"
| "solo_step mx cid (Fetch c) x = (if c = cid then map_option (\<lambda>(asked, q, counts). (asked, tl q, counts)) x else x)"

definition subscriber_of :: "session \<Rightarrow> subscriber" where
  "subscriber_of x = (map_option set (se_symbols x), sq_items (se_queue x), se_dispatched x, se_dropped x)"

definition session_ok :: "int \<Rightarrow> string \<Rightarrow> session \<Rightarrow> bool" where
  "session_ok mx cid x =
     (se_consumer_id x = cid \<and> se_active x \<and> se_dropped x < 10 \<and> sq_maxsize (se_queue x) = mx
      \<and> (mx \<le> 0 \<or> int (length (sq_items (se_queue x))) \<le> mx))"

definition fan_inv :: "int \<Rightarrow> fanout \<Rightarrow> bool" where
  "fan_inv mx f = (fo_max_buffer f = mx \<and> dwf (fo_consumers f) \<and> (\<forall>c x. dget (fo_consumers f) c = Some x \<longrightarrow> session_ok mx c x))"

lemma deliver_ok: "session_ok mx c x \<Longrightarrow> \<not> overdue (deliver s frame x) \<Longrightarrow> session_ok mx c (fst (deliver s frame x))"
  by (auto simp: session_ok_def deliver_def overdue_def put_nowait_def std_room_def)

lemma deliver_id: "se_consumer_id (fst (deliver s frame x)) = se_consumer_id x"
  by (auto simp: deliver_def split: prod.split bool.split)

lemma evict_all:
  "fo_consumers (foldl evict_consumer f cs) = foldl ddel (fo_consumers f) cs" "fo_max_buffer (foldl evict_consumer f cs) = fo_max_buffer f"
  by (induction cs arbitrary: f) (simp_all add: evict_consumer_def ddel_absent)

lemma broadcast_consumers:
  assumes "fan_inv mx f"
  shows "fo_consumers (fst (broadcast_event s frame f)) =
    map (\<lambda>(c, x). (c, fst (deliver (map upper s) frame x))) (filter (\<lambda>(c, x). \<not> overdue (deliver (map upper s) frame x)) (fo_consumers f))"
proof -
  let ?d = "\<lambda>x. deliver (map upper s) frame x" and ?cs = "fo_consumers f"
  let ?rs = "map (\<lambda>(c, x). (c, ?d x)) ?cs"
  let ?gone = "map (\<lambda>(c, r). se_consumer_id (fst r)) (filter (\<lambda>(c, r). overdue r) ?rs)"
  have wf: "dwf ?cs" using assms by (simp add: fan_inv_def)
  have dg: "dget ?cs c = Some x" if "(c, x) \<in> set ?cs" for c x using wf that by (simp add: dwf_def)
  have id: "se_consumer_id x = c" if "(c, x) \<in> set ?cs" for c x using assms dg [OF that] by (auto simp: fan_inv_def session_ok_def)
  have gone: "c \<in> set ?gone \<longleftrightarrow> overdue (?d x)" if "(c, x) \<in> set ?cs" for c x
  proof
    assume "c \<in> set ?gone"
    then obtain c' x' where x': "(c', x') \<in> set ?cs" "overdue (?d x')" "c = se_consumer_id x'" by (auto simp: deliver_id)
    then have "x' = x" using dg [OF x'(1)] dg [OF that] id [OF x'(1)] by simp
    then show "overdue (?d x)" using x'(2) by simp
  next
    assume "overdue (?d x)"
    then show "c \<in> set ?gone" using that id [OF that] by (force simp: deliver_id)
  qed
  have "fo_consumers (fst (broadcast_event s frame f)) = filter (\<lambda>p. fst p \<notin> set ?gone) (map (\<lambda>(c, r). (c, fst r)) ?rs)"
    by (simp add: broadcast_event_def Let_def evict_all foldl_ddel)
  also have "\<dots> = map (\<lambda>(c, x). (c, fst (?d x))) (filter (\<lambda>(c, x). c \<notin> set ?gone) ?cs)"
    by (simp add: filter_map o_def case_prod_unfold)
  also have "\<dots> = map (\<lambda>(c, x). (c, fst (?d x))) (filter (\<lambda>(c, x). \<not> overdue (?d x)) ?cs)"
    by (intro arg_cong [where f = "map _"] filter_cong [OF refl]) (simp only: gone split_paired_all prod.case)
  finally show ?thesis .
qed

lemma dget_filter_values:
  "dwf d \<Longrightarrow> dget (filter (\<lambda>(k, v). P v) d) k = (case dget d k of None \<Rightarrow> None | Some v \<Rightarrow> if P v then Some v else None)"
  by (induction d) (auto simp: dwf_def map_of_eq_None_iff split: option.split dest: map_of_SomeD)

lemma deliver_solo:
  assumes "session_ok mx cid x"
  shows "solo_step mx cid (Broadcast s frame) (Some (subscriber_of x)) =
    (let r = deliver (map upper s) frame x in if overdue r then None else Some (subscriber_of (fst r)))"
  using assms
  by (cases "se_symbols x")
    (auto simp: subscriber_of_def session_ok_def deliver_def wants_def overdue_def put_nowait_def std_room_def Let_def)

lemma join_solo:
  "solo_step mx cid (Join c t ss now) y = (if c = cid then Some (subscriber_of (new_session mx cid t ss now)) else y)"
  by (cases "the ss"; cases ss) (auto simp: subscriber_of_def new_session_def)

lemma fan_step_solo:
  assumes "fan_inv mx f"
  shows "fan_inv mx (fan_step a f)
    \<and> map_option subscriber_of (dget (fo_consumers (fan_step a f)) cid) = solo_step mx cid a (map_option subscriber_of (dget (fo_consumers f) cid))"
proof (cases a)
  case (Broadcast s frame)
  let ?d = "\<lambda>x. deliver (map upper s) frame x"
  note c = broadcast_consumers [OF assms, of s frame]
  have wf: "dwf (fo_consumers f)" using assms by (simp add: fan_inv_def)
  have "dwf (fo_consumers (fst (broadcast_event s frame f)))"
    using wf unfolding c dwf_def by (simp add: o_def split_beta distinct_map_filter)
  moreover have d: "dget (fo_consumers (fst (broadcast_event s frame f))) c =
      (case dget (fo_consumers f) c of None \<Rightarrow> None | Some x \<Rightarrow> if overdue (?d x) then None else Some (fst (?d x)))" for c
    unfolding broadcast_consumers [OF assms, of s frame]
    by (simp add: dget_map_values dget_filter_values [OF wf] split: option.split)
  moreover have "session_ok mx c x" if "dget (fo_consumers (fst (broadcast_event s frame f))) c = Some x" for c x
    using that assms unfolding d by (auto simp: fan_inv_def intro: deliver_ok split: option.splits if_splits)
  moreover have "fo_max_buffer (fst (broadcast_event s frame f)) = mx"
    using assms by (simp add: broadcast_event_def Let_def evict_all fan_inv_def)
  moreover have "map_option subscriber_of (dget (fo_consumers (fst (broadcast_event s frame f))) cid)
      = solo_step mx cid a (map_option subscriber_of (dget (fo_consumers f) cid))"
  proof (cases "dget (fo_consumers f) cid")
    case (Some x)
    then have "session_ok mx cid x" using assms by (simp add: fan_inv_def)
    from deliver_solo [OF this] show ?thesis unfolding d Broadcast by (simp add: Some Let_def)
  qed (simp add: d Broadcast)
  ultimately show ?thesis by (simp add: Broadcast fan_inv_def)
next
  case (Join c t ss now)
  have "session_ok mx c (new_session mx c t ss now)" by (auto simp: session_ok_def new_session_def)
  then show ?thesis using assms by (auto simp: Join fan_inv_def register_consumer_def dict_simps join_solo simp del: solo_step.simps(3))
next
  case (Fetch c)
  have "session_ok mx c (x\<lparr>se_queue := fst (std_get (se_queue x))\<rparr>)" if "session_ok mx c x" for x
    using that by (auto simp: session_ok_def std_get_def split: list.split)
  moreover have "subscriber_of (x\<lparr>se_queue := fst (std_get (se_queue x))\<rparr>) = (\<lambda>(asked, q, counts). (asked, tl q, counts)) (subscriber_of x)" for x
    by (cases "sq_items (se_queue x)") (simp_all add: subscriber_of_def std_get_def)
  ultimately show ?thesis using assms
    by (cases "dget (fo_consumers f) c") (auto simp: Fetch fan_inv_def consumer_get_def dict_simps split_beta)
qed (use assms in \<open>auto simp: fan_inv_def unregister_consumer_def dict_simps\<close>)

lemma fan_run_solo:
  "fan_inv mx f \<Longrightarrow> fan_inv mx (fold fan_step as f)
     \<and> map_option subscriber_of (dget (fo_consumers (fold fan_step as f)) cid)
        = fold (solo_step mx cid) as (map_option subscriber_of (dget (fo_consumers f) cid))"
proof (induction as arbitrary: f)
  case (Cons a as)
  show ?case using Cons.IH fan_step_solo [OF Cons.prems, of a cid] by auto
qed simp

text \<open>
  C20: subscribers do not influence each other.  After any sequence of broadcasts, registrations, unregistrations and reads, what the
  fan-out keeps for a subscriber is what the specification of a subscriber on its own keeps: the frames it asked for in order while its
  queue has room, the counts of frames got and lost, and nothing from the tenth lost frame on until it registers again.  A
  subscriber that is kept is active, has lost fewer than ten frames since it registered, and its queue is within its bound.
\<close>

theorem subscribers_are_isolated:
  "map_option subscriber_of (dget (fo_consumers (fold fan_step as (fanout_init mx t))) cid) = fold (solo_step mx cid) as None
   \<and> (case dget (fo_consumers (fold fan_step as (fanout_init mx t))) cid of None \<Rightarrow> True
      | Some x \<Rightarrow> se_active x \<and> se_dropped x < 10 \<and> (mx \<le> 0 \<or> int (length (sq_items (se_queue x))) \<le> mx))"
proof -
  have i: "fan_inv mx (fanout_init mx t)" by (simp add: fan_inv_def fanout_init_def)
  note r = fan_run_solo [OF i, of as cid]
  then have d: "map_option subscriber_of (dget (fo_consumers (fold fan_step as (fanout_init mx t))) cid) = fold (solo_step mx cid) as None"
    by (simp add: fanout_init_def)
  have "session_ok mx cid x" if "dget (fo_consumers (fold fan_step as (fanout_init mx t))) cid = Some x" for x
    using r that by (auto simp: fan_inv_def)
  then show ?thesis using d by (auto simp: session_ok_def split: option.split)
qed

end
