(* ===== verification/Partition_Limits.thy ===== *)
theory Partition_Limits
  imports Partition_Fleet
begin

text \<open>
  The rate limit of tenants against a reference that remembers every admitted event, the shard counts the range mode can divide the
  alphabet into, and the accounting of the channel sequencer.
\<close>

section \<open>Rate limits\<close>

text \<open>The calls of all tenants in time order, with their decisions.\<close>

fun rate_run :: "(string \<times> f64 \<times> int) list \<Rightarrow> quota_manager \<Rightarrow> (string \<times> bool) list" where
  "rate_run [] m = []"
| "rate_run ((tn, now, n) # cs) m =
     (let (m', ok) = record_and_check_rate tn n now m in (tn, ok) # rate_run cs m')"

text \<open>The reference: an event is admitted if it and the events admitted in the last second stay within the limit.\<close>

fun sliding :: "int \<Rightarrow> f64 list \<Rightarrow> (f64 \<times> int) list \<Rightarrow> bool list" where
  "sliding mx admitted [] = []"
| "sliding mx admitted ((now, n) # cs) =
     (let ok = (int (length (filter (\<lambda>t. \<not> flt t (fsub now F_SECOND)) admitted)) + n \<le> mx)
      in ok # sliding mx (if ok then admitted @ replicate (nat n) now else admitted) cs)"

definition of_tenant :: "string \<Rightarrow> (string \<times> 'a) list \<Rightarrow> 'a list" where
  "of_tenant tn xs = map snd (filter (\<lambda>x. fst x = tn) xs)"

lemma of_tenant_simps [simp]:
  "of_tenant tn [] = []" "of_tenant tn ((t, x) # xs) = (if t = tn then x # of_tenant tn xs else of_tenant tn xs)"
  by (simp_all add: of_tenant_def)

lemma second_finite: "f_isfinite F_SECOND" "0 \<le> f_val F_SECOND"
  by code_simp+

lemma window_mono:
  assumes "f_isfinite a" and "f_isfinite b" and "fle a b" and "flt t (fsub a F_SECOND)"
  shows "flt t (fsub b F_SECOND)"
proof -
  have "rkey (f_val a - f_val F_SECOND) \<le> rkey (f_val b - f_val F_SECOND)"
    using assms by (intro rkey_mono) (simp add: fle_val)
  then show ?thesis using assms(1,2,4) second_finite by (auto simp: flt_def fsub_key)
qed

lemma own_window: "f_isfinite a \<Longrightarrow> \<not> flt a (fsub a F_SECOND)"
  using fsub_le [of a F_SECOND] second_finite by (auto simp: flt_def fle_def)

text \<open>On a list in time order the prefix that is too old is all that is too old.\<close>

lemma dropWhile_old:
  assumes "sorted_wrt fle ts" and "list_all f_isfinite ts"
  shows "dropWhile (\<lambda>t. flt t w) ts = filter (\<lambda>t. \<not> flt t w) ts"
  using assms
proof (induction ts)
  case (Cons t ts)
  show ?case
  proof (cases "flt t w")
    case False
    then have "\<forall>u \<in> set ts. \<not> flt u w" using Cons.prems by (auto simp: flt_def fle_def)
    then show ?thesis using False by simp
  qed (use Cons in simp)
qed simp

lemma filter_dropWhile_old:
  assumes "sorted_wrt fle ts" and "list_all f_isfinite ts" and "\<And>t. flt t v \<Longrightarrow> flt t w"
  shows "filter (\<lambda>t. \<not> flt t w) (filter (\<lambda>t. \<not> flt t v) ts) = filter (\<lambda>t. \<not> flt t w) ts"
  using assms(3) by (auto intro: filter_cong)

text \<open>The queue of a tenant holds the admitted times from some earlier window start on.\<close>

definition rate_rel :: "f64 list \<Rightarrow> f64 option \<Rightarrow> f64 list \<Rightarrow> bool" where
  "rate_rel admitted prev q =
     (sorted_wrt fle admitted \<and> list_all f_isfinite admitted
      \<and> (case prev of None \<Rightarrow> admitted = [] \<and> q = []
         | Some l \<Rightarrow> f_isfinite l \<and> (\<forall>t \<in> set admitted. fle t l) \<and> q = filter (\<lambda>t. \<not> flt t (fsub l F_SECOND)) admitted))"

lemma rate_rel_step:
  assumes r: "rate_rel admitted prev q" and now: "f_isfinite now" "\<forall>l. prev = Some l \<longrightarrow> fle l now"
  shows "dropWhile (\<lambda>t. flt t (fsub now F_SECOND)) q = filter (\<lambda>t. \<not> flt t (fsub now F_SECOND)) admitted"
    and "rate_rel admitted (Some now) (filter (\<lambda>t. \<not> flt t (fsub now F_SECOND)) admitted)"
    and "rate_rel (admitted @ replicate k now) (Some now) (filter (\<lambda>t. \<not> flt t (fsub now F_SECOND)) admitted @ replicate k now)"
proof -
  have s: "sorted_wrt fle admitted" "list_all f_isfinite admitted" using r by (auto simp: rate_rel_def)
  have le: "\<forall>t \<in> set admitted. fle t now"
    using r now by (auto simp: rate_rel_def split: option.splits intro: fle_trans)
  have q: "sorted_wrt fle q" "list_all f_isfinite q"
    using r s by (auto simp: rate_rel_def list_all_iff sorted_wrt_filter split: option.splits)
  show "dropWhile (\<lambda>t. flt t (fsub now F_SECOND)) q = filter (\<lambda>t. \<not> flt t (fsub now F_SECOND)) admitted"
  proof (cases prev)
    case (Some l)
    then have l: "f_isfinite l" "q = filter (\<lambda>t. \<not> flt t (fsub l F_SECOND)) admitted" using r by (auto simp: rate_rel_def)
    show ?thesis unfolding dropWhile_old [OF q] unfolding l(2)
      by (rule filter_dropWhile_old [OF s]) (use window_mono [of l now] now l Some in blast)
  qed (use r in \<open>simp add: rate_rel_def\<close>)
  show "rate_rel admitted (Some now) (filter (\<lambda>t. \<not> flt t (fsub now F_SECOND)) admitted)"
    using s le now by (simp add: rate_rel_def)
  have rep: "sorted_wrt fle (replicate k now)" "list_all f_isfinite (replicate k now)"
    using now fle_refl [of now] isfinite_not [of now] by (auto simp: sorted_wrt_iff_nth_less list_all_iff)
  show "rate_rel (admitted @ replicate k now) (Some now) (filter (\<lambda>t. \<not> flt t (fsub now F_SECOND)) admitted @ replicate k now)"
    using s le now rep own_window [of now] fle_refl [of now] isfinite_not [of now]
    by (auto simp: rate_rel_def sorted_wrt_append list_all_iff filter_replicate)
qed

lemma rate_of_store [simp]: "rate_of tn (m\<lparr>qm_rates := r\<rparr>) = rate_of tn m"
  by (simp add: rate_of_def split: option.split)

lemma record_other:
  assumes "tn' \<noteq> tn"
  shows "dgetd (qm_rates (fst (record_and_check_rate tn' n now m))) tn [] = dgetd (qm_rates m) tn []"
  using assms by (simp add: record_and_check_rate_def Let_def dict_simps)

lemma record_rate_of [simp]: "rate_of tn (fst (record_and_check_rate tn' n now m)) = rate_of tn m"
  by (simp add: record_and_check_rate_def Let_def)

lemma rate_run_sliding:
  assumes "rate_rel admitted prev (dgetd (qm_rates m) tn [])" and "list_all (\<lambda>(_, now, _). f_isfinite now) cs"
    and "sorted_wrt (\<lambda>a b. fle (fst (snd a)) (fst (snd b))) cs" and "\<forall>l. prev = Some l \<longrightarrow> (\<forall>c \<in> set cs. fle l (fst (snd c)))"
  shows "of_tenant tn (rate_run cs m) = sliding (rate_of tn m) admitted (of_tenant tn cs)"
  using assms
proof (induction cs arbitrary: admitted prev m)
  case (Cons c cs)
  obtain t now n where c: "c = (t, now, n)" by (cases c)
  obtain m' ok where m': "record_and_check_rate t n now m = (m', ok)" by fastforce
  have le: "\<forall>d \<in> set cs. fle now (fst (snd d))" using Cons.prems(3) by (auto simp: c)
  show ?case
  proof (cases "t = tn")
    case False
    have "rate_rel admitted prev (dgetd (qm_rates m') tn [])" "rate_of tn m' = rate_of tn m"
      using record_other [OF False, of n now m] record_rate_of [of tn t n now m] m' Cons.prems(1) by simp_all
    then show ?thesis using Cons.IH [of admitted prev m'] Cons.prems False by (simp add: c m')
  next
    case True
    have now: "f_isfinite now" "\<forall>l. prev = Some l \<longrightarrow> fle l now" using Cons.prems(2,4) by (auto simp: c)
    note st = rate_rel_step [OF Cons.prems(1) now]
    let ?f = "filter (\<lambda>t. \<not> flt t (fsub now F_SECOND)) admitted"
    have o: "ok = (int (length ?f) + n \<le> rate_of tn m)" "rate_of tn m' = rate_of tn m"
      "dgetd (qm_rates m') tn [] = (if ok then ?f @ replicate (nat n) now else ?f)"
      using m' True by (auto simp: record_and_check_rate_def Let_def st(1) dict_simps split: if_splits)
    let ?adm = "if ok then admitted @ replicate (nat n) now else admitted"
    have "rate_rel ?adm (Some now) (dgetd (qm_rates m') tn [])" using st(2,3) o(3) by simp
    then have "of_tenant tn (rate_run cs m') = sliding (rate_of tn m') ?adm (of_tenant tn cs)"
      using Cons.prems(2,3) le by (intro Cons.IH [of ?adm "Some now"]) (auto simp: c)
    then show ?thesis using True o(1,2) m' by (simp add: c Let_def)
  qed
qed simp

text \<open>
  C24: the rate limit is exact and per tenant.  For calls of any tenants in time order, the decisions for one tenant are those of a
  reference that remembers every event ever admitted for this tenant and admits a request exactly if it and the events admitted in
  the second before stay within the tenant's limit; the calls of other tenants do not matter.
\<close>

theorem rate_limit_is_a_sliding_window:
  assumes "list_all (\<lambda>(_, now, _). f_isfinite now) cs" and "sorted_wrt (\<lambda>a b. fle (fst (snd a)) (fst (snd b))) cs"
    and "dget (qm_rates m) tn = None"
  shows "of_tenant tn (rate_run cs m) = sliding (rate_of tn m) [] (of_tenant tn cs)"
  using assms by (intro rate_run_sliding [where prev = None]) (simp_all add: rate_rel_def dgetd_def)

theorem rate_limit_is_a_sliding_window_witness:
  "of_tenant ''a'' (rate_run [(''a'', 0, 1), (''b'', 0, 5), (''a'', 0, 2), (''a'', F_SECOND, 1), (''a'', 0x4000000000000000, 2)]
     (set_quota ''a'' 10 2 (quota_init 100 5000))) = [True, False, True, False]"
proof -
  let ?cs = "[(''a'', 0, 1), (''b'', 0, 5), (''a'', 0, 2), (''a'', F_SECOND, 1), (''a'', 0x4000000000000000, 2)] :: (string \<times> f64 \<times> int) list"
  let ?m = "set_quota ''a'' 10 2 (quota_init 100 5000)"
  have 1: "list_all (\<lambda>(_, now, _). f_isfinite now) ?cs" by code_simp
  have 2: "sorted_wrt (\<lambda>a b. fle (fst (snd a)) (fst (snd b))) ?cs" by code_simp
  have 3: "dget (qm_rates ?m) ''a'' = None" by code_simp
  have 4: "sliding (rate_of ''a'' ?m) [] (of_tenant ''a'' ?cs) = [True, False, True, False]" by code_simp
  show ?thesis using rate_limit_is_a_sliding_window [OF 1 2 3] 4 by simp
qed


section \<open>Shard counts\<close>

lemma py_index_alphabet: "0 \<le> i \<Longrightarrow> py_index alphabet i = (if i < 26 then Inr (alphabet ! nat i) else Inl IndexError)"
  by (simp add: py_index_def alphabet_def)

lemma chunk_ranges_result:
  assumes "\<forall>i \<in> set is. 0 \<le> i" and "1 \<le> chunk"
  shows "case chunk_ranges chunk is of Inl e \<Rightarrow> e = IndexError \<and> (\<exists>i \<in> set is. 26 \<le> i * chunk)
     | Inr rs \<Rightarrow> (\<forall>i \<in> set is. i * chunk < 26) \<and> length rs = length is"
  using assms(1)
proof (induction "is")
  case (Cons i js)
  have "0 \<le> i * chunk" using Cons.prems assms(2) by simp
  then have pos: "0 \<le> i * chunk" "0 \<le> min ((i + 1) * chunk - 1) (int (length alphabet) - 1)" "min ((i + 1) * chunk - 1) (int (length alphabet) - 1) < 26"
    using assms(2) by (auto simp: alphabet_def distrib_right)
  show ?case
    using Cons by (auto simp: py_index_alphabet [OF pos(1)] py_index_alphabet [OF pos(2)] pos(3) split: sum.splits)
qed simp

text \<open>The shard counts that divide the alphabet.\<close>

definition divides_alphabet :: "int list" where
  "divides_alphabet = [1, 2, 3, 4, 5, 6, 7, 9, 13, 26]"

definition ranges_as_expected :: "int \<Rightarrow> bool" where
  "ranges_as_expected n =
     (case default_ranges n of Inl e \<Rightarrow> e = IndexError \<and> n \<notin> set divides_alphabet
      | Inr rs \<Rightarrow> n \<in> set divides_alphabet \<and> int (length rs) = n)"

lemma chunks_fit: "list_all (\<lambda>n. ((n - 1) * ((26 + n - 1) div n) < 26) = (n \<in> set divides_alphabet)) [1..26]"
  by code_simp

lemma chunks_fit_iff:
  assumes "0 < n"
  shows "(n - 1) * ((26 + n - 1) div n) < 26 \<longleftrightarrow> n \<in> set divides_alphabet"
proof (cases "n \<le> 26")
  case True
  then have "n \<in> set [1..26]" using assms by simp
  then show ?thesis using chunks_fit unfolding list_all_iff by blast
next
  case False
  then have "(26 + n - 1) div n = 1" by (simp add: div_pos_geq div_pos_pos_trivial)
  then show ?thesis using False by (simp add: divides_alphabet_def)
qed

lemma default_ranges_result:
  assumes "0 < n"
  shows "ranges_as_expected n"
proof (cases "n = 2 \<or> n = 4")
  case False
  let ?chunk = "(26 + n - 1) div n"
  have d: "default_ranges n = chunk_ranges ?chunk [0..n - 1]" using False by (simp add: default_ranges_def alphabet_def)
  have c: "1 \<le> ?chunk" using assms zdiv_mono1 [of n "26 + n - 1" n] by simp
  have "(\<forall>i \<in> set [0..n - 1]. i * ?chunk < 26) \<longleftrightarrow> (n - 1) * ?chunk < 26"
  proof
    assume l: "(n - 1) * ?chunk < 26"
    show "\<forall>i \<in> set [0..n - 1]. i * ?chunk < 26"
    proof
      fix i assume "i \<in> set [0..n - 1]"
      then have "i * ?chunk \<le> (n - 1) * ?chunk" using c by (intro mult_right_mono) auto
      then show "i * ?chunk < 26" using l by linarith
    qed
  qed (use assms in auto)
  then show ?thesis
    using chunk_ranges_result [OF _ c, of "[0..n - 1]"] chunks_fit_iff [OF assms] assms
    by (fastforce simp: ranges_as_expected_def d split: sum.splits)
qed (auto simp: ranges_as_expected_def default_ranges_def divides_alphabet_def)

lemma find_range_bound: "find_range c rs k = Some i \<Longrightarrow> k \<le> i \<and> i < k + int (length rs)"
  by (induction c rs k rule: find_range.induct) (auto split: if_splits)

lemma shard_id_bound:
  assumes "get_shard_id p s = Inr i" and "0 < pt_num_shards p" and "int (length (pt_ranges p)) \<le> pt_num_shards p"
  shows "0 \<le> i \<and> i < pt_num_shards p"
proof -
  have "0 \<le> j \<and> j < pt_num_shards p" if "find_range c (pt_ranges p) 0 = Some j" for c j
    using find_range_bound [OF that] assms(3) by simp
  then show ?thesis using assms(1,2)
    by (auto simp: get_shard_id_def Let_def split: if_splits list.splits option.splits)
qed

text \<open>
  What the partitioner accepts and where it routes.  With default ranges the range mode can be built for 1 to 7, 9, 13 and 26
  shards only, and raises \<open>IndexError\<close> for every other positive number, 8 among them; every partitioner that is built sends every
  symbol to one of its shards, and raises only for a symbol that consists of white space.
\<close>

theorem partitioner_shard_counts:
  "case partitioner_init n mode [] of
     Inl e \<Rightarrow> (if n \<le> 0 then e = ValueError
              else e = IndexError \<and> map lower mode = ''range'' \<and> n \<notin> {1, 2, 3, 4, 5, 6, 7, 9, 13, 26})
   | Inr p \<Rightarrow> 0 < n \<and> (if map lower mode = ''range'' then n \<in> {1, 2, 3, 4, 5, 6, 7, 9, 13, 26} else True)
       \<and> (\<forall>s. case get_shard_id p s of
              Inl e \<Rightarrow> e = IndexError \<and> s \<noteq> [] \<and> strip_upper s = [] \<and> pt_mode p \<noteq> ''hash''
            | Inr i \<Rightarrow> 0 \<le> i \<and> i < n)"
proof (cases "0 < n")
  case True
  have S: "n \<in> set divides_alphabet \<longleftrightarrow> n \<in> {1, 2, 3, 4, 5, 6, 7, 9, 13, 26}" by (simp add: divides_alphabet_def)
  note d = default_ranges_result [OF True, unfolded ranges_as_expected_def S]
  have route: "case get_shard_id p s of Inl e \<Rightarrow> e = IndexError \<and> s \<noteq> [] \<and> strip_upper s = [] \<and> pt_mode p \<noteq> ''hash''
      | Inr i \<Rightarrow> 0 \<le> i \<and> i < n" if "pt_num_shards p = n" "int (length (pt_ranges p)) \<le> n" for p s
  proof (cases "get_shard_id p s")
    case (Inl e)
    then show ?thesis by (auto simp: get_shard_id_def Let_def split: if_splits list.splits option.splits)
  next
    case (Inr i)
    then show ?thesis using shard_id_bound [OF Inr] that True by simp
  qed
  show ?thesis
  proof (cases "map lower mode = ''range''")
    case m: True
    show ?thesis
    proof (cases "default_ranges n")
      case (Inl e)
      then show ?thesis using d True m by (simp add: partitioner_init_def Let_def)
    next
      case (Inr rs)
      then show ?thesis using d True m route by (simp add: partitioner_init_def Let_def)
    qed
  qed (use True route in \<open>simp add: partitioner_init_def Let_def\<close>)
qed (simp add: partitioner_init_def)


section \<open>The channel sequencer\<close>

definition chan_step :: "string option \<Rightarrow> string \<Rightarrow> string \<Rightarrow> f64 \<Rightarrow> sequencer \<Rightarrow> int \<Rightarrow> sequencer" where
  "chan_step sess src inst now c n = fst (verify_sequence (Some n) sess src inst now c)"

text \<open>Within one session: the highest number seen, and the numbers up to it as in order, gap ends and missing.\<close>

definition chan_inv :: "string option \<Rightarrow> int \<Rightarrow> int \<Rightarrow> sequencer \<Rightarrow> bool" where
  "chan_inv sess lo hi c =
     (cs_session c = Some (case sess of None \<Rightarrow> ''SESSION_0'' | Some x \<Rightarrow> x) \<and> cs_last c = Some hi \<and> cs_expected c = Some (hi + 1)
      \<and> cs_resets c = 0 \<and> cs_in_order c + cs_gaps c + cs_missing c = hi - lo + 1 \<and> 0 \<le> cs_missing c)"

lemma chan_step_inv: "chan_inv sess lo hi c \<Longrightarrow> chan_inv sess lo (max hi n) (chan_step sess src inst now c n)"
  by (auto simp: chan_inv_def chan_step_def verify_sequence_def accept_seq_def Let_def max_def)

lemma chan_first: "chan_inv sess n n (chan_step sess src inst now (sequencer_init ch gm jump) n)"
  by (simp add: chan_inv_def chan_step_def verify_sequence_def accept_seq_def sequencer_init_def Let_def)

lemma chan_run_inv:
  "chan_inv sess lo hi c \<Longrightarrow> chan_inv sess lo (foldl max hi ns) (foldl (chan_step sess src inst now) c ns)"
  by (induction ns arbitrary: hi c) (simp_all add: chan_step_inv)

text \<open>The verdict on the next number depends on the highest one only.\<close>

lemma chan_verdict:
  assumes "chan_inv sess lo hi c"
  shows "snd (verify_sequence (Some n) sess src inst now c) =
    (if n = hi + 1 then (VALID, None) else if hi + 1 < n then (SUSPICIOUS, Some SEQUENCE_GAP)
     else if hi - n < 100 then (SUSPICIOUS, Some DUPLICATE) else (SUSPICIOUS, Some OUT_OF_ORDER))"
  using assms by (auto simp: chan_inv_def verify_sequence_def Let_def)

text \<open>A late packet that was never received is reported as a duplicate, and counted as late and as a duplicate.\<close>

lemma late_packet_called_duplicate:
  "let c = foldl (chan_step None ''F'' ''I'' 0) (sequencer_init ''ch'' None 1000000) [1, 3]
   in snd (verify_sequence (Some 2) None ''F'' ''I'' 0 c) = (SUSPICIOUS, Some DUPLICATE)
      \<and> cs_out_of_order (chan_step None ''F'' ''I'' 0 c 2) = 1 \<and> cs_duplicates (chan_step None ''F'' ''I'' 0 c 2) = 1"
  by code_simp

text \<open>
  The accounting of a channel.  After any numbers of one session, from the first one on, the expected number is one more than
  the highest number seen, and every number from the first to the highest was counted exactly once, as in order, as the end of a
  gap or as missing; the verdict on the next number is then a function of its distance to the highest one.
\<close>

theorem channel_accounting:
  "let c = foldl (chan_step sess src inst now) (sequencer_init ch gm jump) (n # ns); hi = foldl max n ns
   in cs_expected c = Some (hi + 1) \<and> cs_in_order c + cs_gaps c + cs_missing c = hi - n + 1 \<and> 0 \<le> cs_missing c
      \<and> snd (verify_sequence (Some k) sess src inst now c) =
          (if k = hi + 1 then (VALID, None) else if hi + 1 < k then (SUSPICIOUS, Some SEQUENCE_GAP)
           else if hi - k < 100 then (SUSPICIOUS, Some DUPLICATE) else (SUSPICIOUS, Some OUT_OF_ORDER))"
proof -
  have i: "chan_inv sess n (foldl max n ns) (foldl (chan_step sess src inst now) (sequencer_init ch gm jump) (n # ns))"
    unfolding foldl_Cons by (rule chan_run_inv [OF chan_first])
  show ?thesis unfolding Let_def using i chan_verdict [OF i, of k src inst now] by (simp add: chan_inv_def)
qed

end
