(* ===== verification/Audit_Trail.thy ===== *)
theory Audit_Trail
  imports Pyvalue Pystruct
begin

unbundle bit_operations_syntax

text \<open>
  The audit trail of \<open>audit_format.py\<close>, \<open>storage_audit.py\<close> and the Merkle root of \<open>storage_schema.py\<close>: the two serialisations of
  an entry, the hash chain kept in the table \<open>audit_log\<close>, its verification with and without an anchor, signed checkpoints, the
  standalone proof and the chain of Merkle roots of the quarantine.  A text is the list of its code points.  A table is the list of
  its rows by \<open>entry_id\<close> with the next value of the autoincrement; statements that fail are not modelled.  \<open>hashlib.sha256\<close> and the
  decimal texts Python prints for a float are the fields of a record the operations get, so that the theorems hold for every hash.
\<close>

record pylib =
  sha256 :: "bytes \<Rightarrow> bytes"
  float_repr :: "f64 \<Rightarrow> ustr"
  float_fixed6 :: "f64 \<Rightarrow> ustr"

section \<open>Text\<close>

definition u :: "string \<Rightarrow> ustr" where
  "u s = map of_char s"

text \<open>\<open>str.encode("utf-8")\<close> on text without surrogates.\<close>

definition utf8_code :: "int \<Rightarrow> bytes" where
  "utf8_code c =
     (if c < 0x80 then [word_of_int c]
      else if c < 0x800 then [word_of_int (0xC0 OR drop_bit 6 c), word_of_int (0x80 OR (c AND 0x3F))]
      else if c < 0x10000
      then [word_of_int (0xE0 OR drop_bit 12 c), word_of_int (0x80 OR (drop_bit 6 c AND 0x3F)), word_of_int (0x80 OR (c AND 0x3F))]
      else [word_of_int (0xF0 OR drop_bit 18 c), word_of_int (0x80 OR (drop_bit 12 c AND 0x3F)),
            word_of_int (0x80 OR (drop_bit 6 c AND 0x3F)), word_of_int (0x80 OR (c AND 0x3F))])"

definition utf8_bytes :: "ustr \<Rightarrow> bytes" where
  "utf8_bytes s = concat (map utf8_code s)"

definition hex_digit :: "int \<Rightarrow> int" where
  "hex_digit d = (if d < 10 then 48 + d else 87 + d)"

definition hexdigest :: "bytes \<Rightarrow> ustr" where
  "hexdigest bs = concat (map (\<lambda>b. [hex_digit (uint b div 16), hex_digit (uint b mod 16)]) bs)"

text \<open>\<open>json.dumps\<close> of a text with \<open>ensure_ascii\<close>.\<close>

definition json_u :: "int \<Rightarrow> ustr" where
  "json_u n = [92, 117, hex_digit (n div 4096), hex_digit (n div 256 mod 16), hex_digit (n div 16 mod 16), hex_digit (n mod 16)]"

definition json_char :: "int \<Rightarrow> ustr" where
  "json_char c =
     (if c = 34 then [92, 34] else if c = 92 then [92, 92] else if c = 10 then [92, 110] else if c = 13 then [92, 114]
      else if c = 9 then [92, 116] else if c = 8 then [92, 98] else if c = 12 then [92, 102]
      else if 32 \<le> c \<and> c \<le> 126 then [c]
      else if c < 0x10000 then json_u c
      else let v = c - 0x10000 in json_u (0xD800 + v div 1024) @ json_u (0xDC00 + v mod 1024))"

definition json_text :: "ustr \<Rightarrow> ustr" where
  "json_text s = 34 # concat (map json_char s) @ [34]"

definition json_num :: "pylib \<Rightarrow> pynum \<Rightarrow> ustr" where
  "json_num L t = (case t of NI n \<Rightarrow> u (py_str_int n) | NF x \<Rightarrow> float_repr L x)"

section \<open>Serialisation of an entry\<close>

definition esc_bar :: "ustr \<Rightarrow> ustr" where
  "esc_bar s = concat (map (\<lambda>c. if c = 124 then [92, 124] else [c]) s)"

definition audit_bytes_v1 :: "pylib \<Rightarrow> ustr \<Rightarrow> f64 \<Rightarrow> ustr \<Rightarrow> ustr \<Rightarrow> ustr \<Rightarrow> ustr \<Rightarrow> bytes" where
  "audit_bytes_v1 L prev_h ts actor rl action details =
     utf8_bytes (prev_h @ [124] @ float_fixed6 L ts @ [124] @ esc_bar actor @ [124] @ esc_bar rl @ [124] @ esc_bar action @ [124]
       @ esc_bar details)"

definition audit_bytes_v2 :: "pylib \<Rightarrow> ustr \<Rightarrow> pynum \<Rightarrow> ustr \<Rightarrow> ustr \<Rightarrow> ustr \<Rightarrow> ustr \<Rightarrow> bytes" where
  "audit_bytes_v2 L prev_h ts actor rl action details =
     utf8_bytes ([91, 50, 44] @ json_text prev_h @ [44] @ json_num L ts @ [44] @ json_text actor @ [44] @ json_text rl @ [44]
       @ json_text action @ [44] @ json_text details @ [93])"

definition compute_audit_hash :: "pylib \<Rightarrow> ustr \<Rightarrow> pynum \<Rightarrow> ustr \<Rightarrow> ustr \<Rightarrow> ustr \<Rightarrow> ustr \<Rightarrow> int \<Rightarrow> ustr res" where
  "compute_audit_hash L prev_h ts actor rl action details version =
     (if version = 1
      then bindr (n_to_f ts) (\<lambda>t. Inr (hexdigest (sha256 L (audit_bytes_v1 L prev_h t actor rl action details))))
      else Inr (hexdigest (sha256 L (audit_bytes_v2 L prev_h ts actor rl action details))))"

section \<open>The chain\<close>

record audit_row =
  ar_id :: int
  ar_ts :: f64
  ar_actor :: ustr
  ar_role :: ustr
  ar_action :: ustr
  ar_details :: ustr
  ar_prev :: ustr
  ar_hash :: ustr
  ar_version :: int

record audit_store =
  as_rows :: "audit_row list"
  as_next_id :: int

definition GENESIS :: ustr where
  "GENESIS = u (''GENESIS_'' @ replicate 64 (CHR ''0''))"

definition insert_entry :: "f64 \<Rightarrow> ustr \<Rightarrow> ustr \<Rightarrow> ustr \<Rightarrow> ustr \<Rightarrow> ustr \<Rightarrow> ustr \<Rightarrow> int \<Rightarrow> audit_store \<Rightarrow> audit_store" where
  "insert_entry ts actor rl action details prev_h entry_h version s =
     s\<lparr>as_rows := as_rows s @ [\<lparr>ar_id = as_next_id s, ar_ts = ts, ar_actor = actor, ar_role = rl, ar_action = action, ar_details = details,
                               ar_prev = prev_h, ar_hash = entry_h, ar_version = version\<rparr>],
       as_next_id := as_next_id s + 1\<rparr>"

definition write_audit_entry :: "f64 \<Rightarrow> ustr \<Rightarrow> ustr \<Rightarrow> ustr \<Rightarrow> ustr \<Rightarrow> ustr \<Rightarrow> ustr \<Rightarrow> int \<Rightarrow> audit_store \<Rightarrow> audit_store" where
  "write_audit_entry = insert_entry"

definition last_hash :: "audit_row list \<Rightarrow> ustr" where
  "last_hash rs = (if rs = [] then GENESIS else ar_hash (last rs))"

definition get_latest_audit_hash :: "audit_store \<Rightarrow> ustr" where
  "get_latest_audit_hash s = last_hash (as_rows s)"

definition query_audit_log :: "int \<Rightarrow> audit_store \<Rightarrow> audit_row list" where
  "query_audit_log cap s = take (nat (min (max 1 cap) 10000)) (rev (as_rows s))"

text \<open>The column of the time is \<open>REAL\<close>: an integer is stored as a float.\<close>

definition append_audit :: "pylib \<Rightarrow> ustr \<Rightarrow> ustr \<Rightarrow> ustr \<Rightarrow> ustr \<Rightarrow> pynum \<Rightarrow> int \<Rightarrow> audit_store \<Rightarrow> (audit_store \<times> ustr) res" where
  "append_audit L actor rl action details ts version s =
     (let prev_h = get_latest_audit_hash s
      in bindr (compute_audit_hash L prev_h ts actor rl action details version) (\<lambda>h.
         bindr (n_to_f ts) (\<lambda>t. Inr (insert_entry t actor rl action details prev_h h version s, h))))"

datatype verdict =
    LogEmpty | Verified nat int bool | BadCount | GenesisMismatch | Truncated int | PrefixMismatch int | BrokenLink int | TamperedEntry int

fun verdict_ok :: "verdict \<Rightarrow> bool" where
  "verdict_ok LogEmpty = True"
| "verdict_ok (Verified n i a) = True"
| "verdict_ok _ = False"

definition row_hash :: "pylib \<Rightarrow> audit_row \<Rightarrow> ustr res" where
  "row_hash L r = compute_audit_hash L (ar_prev r) (NF (ar_ts r)) (ar_actor r) (ar_role r) (ar_action r) (ar_details r) (ar_version r)"

text \<open>The loop over the rows: \<open>None\<close> when every link and every hash is right.\<close>

fun verify_chain :: "pylib \<Rightarrow> ustr \<Rightarrow> audit_row list \<Rightarrow> verdict option res" where
  "verify_chain L expected [] = Inr None"
| "verify_chain L expected (r # rs) =
     (if ar_prev r \<noteq> expected then Inr (Some (BrokenLink (ar_id r)))
      else bindr (row_hash L r) (\<lambda>h.
        if h \<noteq> ar_hash r then Inr (Some (TamperedEntry (ar_id r))) else verify_chain L (ar_hash r) rs))"

definition check_anchor :: "int \<times> ustr \<Rightarrow> audit_row list \<Rightarrow> verdict option" where
  "check_anchor a rows =
     (let (n, head) = a
      in if n < 0 then Some BadCount
         else if n = 0 \<and> head \<noteq> GENESIS then Some GenesisMismatch
         else if int (length rows) < n then Some (Truncated (int (length rows)))
         else if n \<noteq> 0 \<and> ar_hash (rows ! nat (n - 1)) \<noteq> head then Some (PrefixMismatch n) else None)"

definition start_of :: "int option \<Rightarrow> audit_row list \<Rightarrow> ustr \<times> audit_row list" where
  "start_of since rows =
     (case since of
        Some n \<Rightarrow> if 1 < n
                  then ((case find (\<lambda>r. ar_id r = n - 1) rows of Some r \<Rightarrow> ar_hash r | None \<Rightarrow> GENESIS), filter (\<lambda>r. n \<le> ar_id r) rows)
                  else (GENESIS, rows)
      | None \<Rightarrow> (GENESIS, rows))"

definition verify_audit_integrity :: "pylib \<Rightarrow> (int \<times> ustr) option \<Rightarrow> int option \<Rightarrow> audit_row list \<Rightarrow> verdict res" where
  "verify_audit_integrity L anchor since table =
     (let (expected, rows) = start_of since table
      in case (if since = None then case anchor of None \<Rightarrow> None | Some a \<Rightarrow> check_anchor a rows else None) of
           Some v \<Rightarrow> Inr v
         | None \<Rightarrow>
             if rows = [] then Inr LogEmpty
             else bindr (verify_chain L expected rows) (\<lambda>f.
               case f of Some v \<Rightarrow> Inr v | None \<Rightarrow> Inr (Verified (length rows) (ar_id (last rows)) (anchor \<noteq> None))))"

definition get_audit_anchor :: "audit_store \<Rightarrow> int \<times> ustr" where
  "get_audit_anchor s = (int (length (as_rows s)), last_hash (as_rows s))"

section \<open>Checkpoints\<close>

text \<open>\<open>hmac.new(key, msg, hashlib.sha256)\<close>.\<close>

definition hmac_sha256 :: "pylib \<Rightarrow> bytes \<Rightarrow> bytes \<Rightarrow> bytes" where
  "hmac_sha256 L key msg =
     (let k = (if 64 < length key then sha256 L key else key); k0 = k @ replicate (64 - length k) 0
      in sha256 L (map (\<lambda>b. b XOR 0x5C) k0 @ sha256 L (map (\<lambda>b. b XOR 0x36) k0 @ msg)))"

record checkpoint =
  cp_count :: int
  cp_head :: ustr
  cp_signature :: ustr

definition checkpoint_sig :: "pylib \<Rightarrow> bytes \<Rightarrow> int \<Rightarrow> ustr \<Rightarrow> ustr" where
  "checkpoint_sig L key n head = hexdigest (hmac_sha256 L key (utf8_bytes (u (py_str_int n) @ [58] @ head)))"

definition sign_audit_checkpoint :: "pylib \<Rightarrow> bytes \<Rightarrow> audit_store \<Rightarrow> checkpoint res" where
  "sign_audit_checkpoint L key s =
     (if key = [] then Inl ValueError
      else let (n, head) = get_audit_anchor s in Inr \<lparr>cp_count = n, cp_head = head, cp_signature = checkpoint_sig L key n head\<rparr>)"

definition verify_audit_checkpoint :: "pylib \<Rightarrow> bytes \<Rightarrow> checkpoint \<Rightarrow> bool" where
  "verify_audit_checkpoint L key cp = (key \<noteq> [] \<and> checkpoint_sig L key (cp_count cp) (cp_head cp) = cp_signature cp)"

datatype external = Forged | Diverges verdict | Matches

definition verify_external_checkpoint :: "pylib \<Rightarrow> bytes \<Rightarrow> checkpoint \<Rightarrow> audit_row list \<Rightarrow> external res" where
  "verify_external_checkpoint L key cp table =
     (if \<not> verify_audit_checkpoint L key cp then Inr Forged
      else bindr (verify_audit_integrity L (Some (cp_count cp, cp_head cp)) None table) (\<lambda>v.
        if verdict_ok v then Inr Matches else Inr (Diverges v)))"

section \<open>Standalone proofs\<close>

record proof_data =
  pd_genesis :: ustr
  pd_total :: "int option"
  pd_latest :: "ustr option"
  pd_entries :: "audit_row list"

definition export_audit_proof :: "audit_store \<Rightarrow> proof_data" where
  "export_audit_proof s =
     \<lparr>pd_genesis = GENESIS, pd_total = Some (int (length (as_rows s))), pd_latest = Some (last_hash (as_rows s)), pd_entries = as_rows s\<rparr>"

datatype proof_verdict = LatestMismatch | TotalMismatch | EmptyByAnchor | EmptyUnanchored | AnchorCount | AnchorHead | ChainFault verdict | ProofVerified nat

definition verify_standalone_proof :: "pylib \<Rightarrow> (int \<times> ustr) option \<Rightarrow> proof_data \<Rightarrow> proof_verdict res" where
  "verify_standalone_proof L anchor d =
     (let es = pd_entries d; latest = (if es = [] then pd_genesis d else ar_hash (last es))
      in if pd_latest d \<noteq> None \<and> pd_latest d \<noteq> Some latest then Inr LatestMismatch
         else if pd_total d \<noteq> None \<and> pd_total d \<noteq> Some (int (length es)) then Inr TotalMismatch
         else if es = [] then Inr (case anchor of Some (n, _) \<Rightarrow> if n = 0 then EmptyByAnchor else EmptyUnanchored | None \<Rightarrow> EmptyUnanchored)
         else if (case anchor of None \<Rightarrow> False | Some (n, _) \<Rightarrow> int (length es) \<noteq> n) then Inr AnchorCount
         else if (case anchor of None \<Rightarrow> False | Some (_, h) \<Rightarrow> ar_hash (last es) \<noteq> h) then Inr AnchorHead
         else bindr (verify_chain L (pd_genesis d) es) (\<lambda>f.
           case f of Some v \<Rightarrow> Inr (ChainFault v) | None \<Rightarrow> Inr (ProofVerified (length es))))"

section \<open>Merkle roots of the quarantine\<close>

fun merkle_level :: "pylib \<Rightarrow> bytes list \<Rightarrow> bytes list" where
  "merkle_level L (a # b # rest) = sha256 L (a @ b) # merkle_level L rest"
| "merkle_level L [a] = [sha256 L (a @ a)]"
| "merkle_level L [] = []"

lemma length_merkle_level [simp]: "length (merkle_level L xs) = (length xs + 1) div 2"
  by (induction L xs rule: merkle_level.induct) auto

function merkle_up :: "pylib \<Rightarrow> bytes list \<Rightarrow> bytes list" where
  "merkle_up L xs = (if 1 < length xs then merkle_up L (merkle_level L xs) else xs)"
  by pat_completeness auto
termination by (relation "measure (\<lambda>(L, xs). length xs)") auto

declare merkle_up.simps [simp del]

definition compute_merkle_root :: "pylib \<Rightarrow> bytes list \<Rightarrow> ustr" where
  "compute_merkle_root L leaves =
     (if leaves = [] then hexdigest (sha256 L (utf8_bytes (u ''EMPTY_BATCH''))) else hexdigest (hd (merkle_up L leaves)))"

record merkle_row =
  mr_id :: int
  mr_ts :: f64
  mr_hash :: ustr
  mr_prev :: ustr
  mr_root :: ustr
  mr_size :: int
  mr_version :: int

record merkle_store =
  ms_rows :: "merkle_row list"
  ms_next_id :: int

definition merkle_details :: "int \<Rightarrow> ustr \<Rightarrow> ustr" where
  "merkle_details n rt = u ''n='' @ u (py_str_int n) @ u '',root='' @ rt"

definition batch_hash :: "pylib \<Rightarrow> ustr \<Rightarrow> f64 \<Rightarrow> int \<Rightarrow> ustr \<Rightarrow> int \<Rightarrow> ustr res" where
  "batch_hash L prev_h ts n rt version =
     compute_audit_hash L prev_h (NF ts) (u ''system'') (u ''pipeline'') (u ''QUARANTINE_BATCH'') (merkle_details n rt) version"

text \<open>The rows of the batch come as the JSON texts that are hashed.\<close>

definition append_quarantine_merkle_batch :: "pylib \<Rightarrow> bytes list \<Rightarrow> f64 \<Rightarrow> merkle_store \<Rightarrow> (merkle_store \<times> ustr option) res" where
  "append_quarantine_merkle_batch L rows ts s =
     (if rows = [] then Inr (s, None)
      else let rt = compute_merkle_root L (map (sha256 L) rows);
               prev_h = (if ms_rows s = [] then GENESIS else mr_hash (last (ms_rows s)));
               n = int (length rows)
           in bindr (batch_hash L prev_h ts n rt 3) (\<lambda>h.
                Inr (s\<lparr>ms_rows := ms_rows s @ [\<lparr>mr_id = ms_next_id s, mr_ts = ts, mr_hash = h, mr_prev = prev_h, mr_root = rt,
                                               mr_size = n, mr_version = 3\<rparr>],
                       ms_next_id := ms_next_id s + 1\<rparr>, Some h)))"

fun verify_batches :: "pylib \<Rightarrow> ustr \<Rightarrow> merkle_row list \<Rightarrow> verdict option res" where
  "verify_batches L expected [] = Inr None"
| "verify_batches L expected (r # rs) =
     (if mr_prev r \<noteq> expected then Inr (Some (BrokenLink (mr_id r)))
      else bindr (batch_hash L (mr_prev r) (mr_ts r) (mr_size r) (mr_root r) (if mr_version r = 0 then 3 else mr_version r)) (\<lambda>h.
        if h \<noteq> mr_hash r then Inr (Some (TamperedEntry (mr_id r))) else verify_batches L (mr_hash r) rs))"

definition verify_quarantine_merkle_integrity :: "pylib \<Rightarrow> int option \<Rightarrow> merkle_row list \<Rightarrow> verdict res" where
  "verify_quarantine_merkle_integrity L since table =
     (let (expected, rows) =
        (case since of
           Some n \<Rightarrow> if 1 < n
                     then ((case find (\<lambda>r. mr_id r = n - 1) table of Some r \<Rightarrow> mr_hash r | None \<Rightarrow> GENESIS), filter (\<lambda>r. n \<le> mr_id r) table)
                     else (GENESIS, table)
         | None \<Rightarrow> (GENESIS, table))
      in if rows = [] then Inr LogEmpty
         else bindr (verify_batches L expected rows) (\<lambda>f.
           case f of Some v \<Rightarrow> Inr v | None \<Rightarrow> Inr (Verified (length rows) (mr_id (last rows)) True)))"

end
