(* ===== verification/Audit_Props.thy ===== *)
theory Audit_Props
  imports Audit_Trail
begin

text \<open>
  What the audit trail guarantees: entries are serialised injectively, so two logs that verify and end in the same hash are the same
  log when no two of the hashed texts collide; a log that only grew matches every earlier signed checkpoint; a Merkle root fixes its batch.
\<close>


section \<open>Hexadecimal digits\<close>

definition unhex :: "int \<Rightarrow> int" where
  "unhex d = (if d < 58 then d - 48 else d - 87)"

lemma unhex_hex [simp]: "0 \<le> d \<Longrightarrow> d < 16 \<Longrightarrow> unhex (hex_digit d) = d"
  by (simp add: unhex_def hex_digit_def)

lemma hex_digit_range: "0 \<le> d \<Longrightarrow> d < 16 \<Longrightarrow> 48 \<le> hex_digit d \<and> hex_digit d \<le> 102 \<and> hex_digit d \<noteq> 91"
  by (auto simp: hex_digit_def)

lemma byte_nibbles: "0 \<le> uint (b :: byte) div 16" "uint b div 16 < 16" "0 \<le> uint b mod 16" "uint b mod 16 < 16"
proof -
  have b: "0 \<le> uint b" "uint b < 256" using uint_lt2p [of b] by simp_all
  show "0 \<le> uint b div 16" using b(1) by (simp add: pos_imp_zdiv_nonneg_iff)
  show "uint b div 16 < 16" using b(2) by linarith
qed simp_all

lemma hexdigest_Cons: "hexdigest (b # bs) = hex_digit (uint b div 16) # hex_digit (uint b mod 16) # hexdigest bs"
  by (simp add: hexdigest_def)

lemma hex_digit_inj: "hex_digit a = hex_digit b \<Longrightarrow> 0 \<le> a \<Longrightarrow> a < 16 \<Longrightarrow> 0 \<le> b \<Longrightarrow> b < 16 \<Longrightarrow> a = b"
  by (auto simp: hex_digit_def split: if_splits)

lemma hexdigest_inj: "hexdigest a = hexdigest b \<Longrightarrow> a = b"
proof (induction a arbitrary: b)
  case Nil
  then show ?case by (cases b) (simp_all add: hexdigest_def)
next
  case (Cons x a)
  then obtain y c where b: "b = y # c" by (cases b) (simp_all add: hexdigest_def)
  have h: "hex_digit (uint x div 16) = hex_digit (uint y div 16)" "hex_digit (uint x mod 16) = hex_digit (uint y mod 16)" "hexdigest a = hexdigest c"
    using Cons.prems by (simp_all add: b hexdigest_Cons)
  have "uint x div 16 = uint y div 16" "uint x mod 16 = uint y mod 16"
    using hex_digit_inj [OF h(1) byte_nibbles(1,2) byte_nibbles(1,2)] hex_digit_inj [OF h(2) byte_nibbles(3,4) byte_nibbles(3,4)] .
  then have "uint x = uint y" by (metis div_mult_mod_eq)
  then have "x = y" by (simp only: word_uint_eq_iff)
  then show ?case using Cons.IH [OF h(3)] by (simp add: b)
qed

lemma hexdigest_chars: "\<forall>c \<in> set (hexdigest bs). 48 \<le> c \<and> c \<le> 102 \<and> c \<noteq> 91"
proof (induction bs)
  case (Cons b bs)
  show ?case
    using Cons hex_digit_range [OF byte_nibbles(1,2) [of b]] hex_digit_range [OF byte_nibbles(3,4) [of b]] by (auto simp: hexdigest_Cons)
qed (simp add: hexdigest_def)

section \<open>JSON texts\<close>

definition scalar :: "int \<Rightarrow> bool" where
  "scalar c = (0 \<le> c \<and> c < 0x110000 \<and> \<not> (0xD800 \<le> c \<and> c < 0xE000))"

text \<open>Reading one escaped character back.\<close>

definition un4 :: "ustr \<Rightarrow> int" where
  "un4 xs = unhex (xs ! 0) * 4096 + unhex (xs ! 1) * 256 + unhex (xs ! 2) * 16 + unhex (xs ! 3)"

definition json_next :: "ustr \<Rightarrow> int \<times> ustr" where
  "json_next xs =
     (if hd xs \<noteq> 92 then (hd xs, tl xs)
      else let k = xs ! 1
           in if k = 117
              then let n = un4 (drop 2 xs); r = drop 6 xs
                   in if 0xD800 \<le> n \<and> n < 0xDC00 then (0x10000 + (n - 0xD800) * 1024 + (un4 (drop 2 r) - 0xDC00), drop 6 r) else (n, r)
              else (if k = 110 then 10 else if k = 114 then 13 else if k = 116 then 9 else if k = 98 then 8 else if k = 102 then 12 else k,
                    drop 2 xs))"

lemma nibbles_sum:
  fixes n :: int
  shows "n div 4096 * 4096 + n div 256 mod 16 * 256 + n div 16 mod 16 * 16 + n mod 16 = n"
proof -
  have d: "n div 16 div 16 = n div 256" "n div 256 div 16 = n div 4096" by (simp_all add: zdiv_zmult2_eq [symmetric])
  have "n div 256 = n div 4096 * 16 + n div 256 mod 16" using div_mult_mod_eq [of "n div 256" 16] d by simp
  moreover have "n div 16 = n div 256 * 16 + n div 16 mod 16" using div_mult_mod_eq [of "n div 16" 16] d by simp
  moreover have "n = n div 16 * 16 + n mod 16" by simp
  ultimately show ?thesis by linarith
qed

lemma nibble_ranges:
  fixes n :: int
  assumes "0 \<le> n" and "n < 65536"
  shows "0 \<le> n div 4096" "n div 4096 < 16" "0 \<le> n div 256 mod 16" "n div 256 mod 16 < 16" "0 \<le> n div 16 mod 16" "n div 16 mod 16 < 16"
    "0 \<le> n mod 16" "n mod 16 < 16"
  using assms by (simp_all add: pos_imp_zdiv_nonneg_iff div_less_iff_less_mult)

lemma un4_json_u:
  assumes "0 \<le> n" and "n < 65536"
  shows "un4 (drop 2 (json_u n @ r)) = n"
proof -
  note r = nibble_ranges [OF assms]
  have "un4 (drop 2 (json_u n @ r)) = n div 4096 * 4096 + n div 256 mod 16 * 256 + n div 16 mod 16 * 16 + n mod 16" for r
    unfolding un4_def json_u_def
    by (simp add: unhex_hex [OF r(1,2)] unhex_hex [OF r(3,4)] unhex_hex [OF r(5,6)] unhex_hex [OF r(7,8)] del: unhex_hex)
  then show ?thesis unfolding nibbles_sum .
qed

lemma json_next_u:
  assumes "0 \<le> n" and "n < 65536"
  shows "json_next (json_u n @ r) =
    (if 0xD800 \<le> n \<and> n < 0xDC00 then (0x10000 + (n - 0xD800) * 1024 + (un4 (drop 2 r) - 0xDC00), drop 6 r) else (n, r))"
proof -
  have "hd (json_u n @ r) = 92" "(json_u n @ r) ! 1 = 117" "drop 6 (json_u n @ r) = r" by (simp_all add: json_u_def)
  then show ?thesis using un4_json_u [OF assms, of r] by (simp add: json_next_def Let_def)
qed

definition short_escapes :: "int set" where
  "short_escapes = {34, 92, 10, 13, 9, 8, 12}"

lemma json_char_plain: "c \<notin> short_escapes \<Longrightarrow> 32 \<le> c \<Longrightarrow> c \<le> 126 \<Longrightarrow> json_char c = [c]"
  by (simp add: json_char_def short_escapes_def)

lemma json_char_short: "c \<notin> short_escapes \<Longrightarrow> \<not> (32 \<le> c \<and> c \<le> 126) \<Longrightarrow> c < 0x10000 \<Longrightarrow> json_char c = json_u c"
  unfolding json_char_def short_escapes_def by (simp only: insert_iff empty_iff de_Morgan_disj if_False if_True not_False_eq_True simp_thms)

lemma json_char_long:
  assumes "scalar c" and "0x10000 \<le> c"
  obtains q m where "c = 0x10000 + q * 1024 + m" and "0 \<le> q" "q < 1024" "0 \<le> m" "m < 1024"
    and "json_char c = json_u (0xD800 + q) @ json_u (0xDC00 + m)"
proof
  let ?v = "c - 0x10000"
  have v: "0 \<le> ?v" "?v < 0x100000" using assms by (simp_all add: scalar_def)
  show "c = 0x10000 + ?v div 1024 * 1024 + ?v mod 1024" using div_mult_mod_eq [of ?v 1024] by linarith
  show "0 \<le> ?v div 1024" using v(1) by (simp only: pos_imp_zdiv_nonneg_iff)
  show "?v div 1024 < 1024" using v(2) by (simp add: div_less_iff_less_mult)
  show "json_char c = json_u (0xD800 + ?v div 1024) @ json_u (0xDC00 + ?v mod 1024)"
    using assms(2) unfolding json_char_def Let_def by simp
qed simp_all

lemma json_next_char:
  assumes "scalar c"
  shows "json_next (json_char c @ r) = (c, r)"
proof -
  consider "c \<in> short_escapes" | "c \<notin> short_escapes" "32 \<le> c" "c \<le> 126" | "c \<notin> short_escapes" "\<not> (32 \<le> c \<and> c \<le> 126)" "c < 0x10000"
    | "0x10000 \<le> c" by linarith
  then show ?thesis
  proof cases
    case 1
    then consider "c = 34" | "c = 92" | "c = 10" | "c = 13" | "c = 9" | "c = 8" | "c = 12" by (auto simp: short_escapes_def)
    then show ?thesis by cases (simp_all add: json_char_def json_next_def Let_def)
  next
    case 2
    then have "c \<noteq> 92" by (auto simp: short_escapes_def)
    then show ?thesis by (simp add: json_char_plain [OF 2] json_next_def)
  next
    case 3
    have "0 \<le> c" "\<not> (0xD800 \<le> c \<and> c < 0xDC00)" using assms by (auto simp: scalar_def)
    then show ?thesis using json_next_u [of c r] 3(3) by (simp only: json_char_short [OF 3] if_False)
  next
    case 4
    obtain q m where c: "c = 0x10000 + q * 1024 + m" "0 \<le> q" "q < 1024" "0 \<le> m" "m < 1024"
      "json_char c = json_u (0xD800 + q) @ json_u (0xDC00 + m)" using json_char_long [OF assms 4] .
    have l: "un4 (drop 2 (json_u (0xDC00 + m) @ r)) = 0xDC00 + m" using un4_json_u [of "0xDC00 + m" r] c(4,5) by simp
    have l': "drop 6 (json_u n @ r) = r" for n by (simp add: json_u_def)
    have "json_next (json_char c @ r) = (0x10000 + (0xD800 + q - 0xD800) * 1024 + (0xDC00 + m - 0xDC00), r)"
      using json_next_u [of "0xD800 + q" "json_u (0xDC00 + m) @ r"] c(2,3) unfolding c(6) append_assoc l l' by simp
    then show ?thesis using c(1) by simp
  qed
qed

lemma json_u_form:
  assumes "0 \<le> n" and "n < 65536"
  obtains i j k l where "json_u n = [92, 117, hex_digit i, hex_digit j, hex_digit k, hex_digit l]"
    and "0 \<le> i" "i < 16" "0 \<le> j" "j < 16" "0 \<le> k" "k < 16" "0 \<le> l" "l < 16"
  using that [OF _ nibble_ranges [OF assms]] by (simp add: json_u_def)

lemma json_u_ascii:
  assumes "0 \<le> n" and "n < 65536" and "d \<in> set (json_u n)"
  shows "0 \<le> d \<and> d < 128"
proof -
  obtain i j k l where j: "json_u n = [92, 117, hex_digit i, hex_digit j, hex_digit k, hex_digit l]"
    and r: "0 \<le> i" "i < 16" "0 \<le> j" "j < 16" "0 \<le> k" "k < 16" "0 \<le> l" "l < 16" using json_u_form [OF assms(1,2)] .
  show ?thesis using assms(3) unfolding j
    using hex_digit_range [OF r(1,2)] hex_digit_range [OF r(3,4)] hex_digit_range [OF r(5,6)] hex_digit_range [OF r(7,8)] by auto
qed

lemma json_char_ascii:
  assumes "scalar c" and "d \<in> set (json_char c)"
  shows "0 \<le> d \<and> d < 128"
proof -
  consider "c \<in> short_escapes" | "c \<notin> short_escapes" "32 \<le> c" "c \<le> 126" | "c \<notin> short_escapes" "\<not> (32 \<le> c \<and> c \<le> 126)" "c < 0x10000"
    | "0x10000 \<le> c" by linarith
  then show ?thesis
  proof cases
    case 1
    then consider "c = 34" | "c = 92" | "c = 10" | "c = 13" | "c = 9" | "c = 8" | "c = 12" by (auto simp: short_escapes_def)
    then show ?thesis using assms(2) by cases (auto simp: json_char_def)
  next
    case 2
    then show ?thesis using assms(2) by (simp add: json_char_plain)
  next
    case 3
    have "0 \<le> c" using assms(1) by (simp add: scalar_def)
    then show ?thesis using json_u_ascii [of c d] 3(3) assms(2) by (simp add: json_char_short [OF 3])
  next
    case 4
    obtain q m where c: "0 \<le> q" "q < 1024" "0 \<le> m" "m < 1024" "json_char c = json_u (0xD800 + q) @ json_u (0xDC00 + m)"
      using json_char_long [OF assms(1) 4] by metis
    show ?thesis using assms(2) json_u_ascii [of "0xD800 + q" d] json_u_ascii [of "0xDC00 + m" d] c(1-4) unfolding c(5) by auto
  qed
qed

lemma json_u_head: "\<exists>t. json_u n = 92 # t"
  by (simp add: json_u_def)

lemma json_char_head: "scalar c \<Longrightarrow> \<exists>h t. json_char c = h # t \<and> h \<noteq> 34"
proof -
  assume s: "scalar c"
  consider "c \<in> short_escapes" | "c \<notin> short_escapes" "32 \<le> c" "c \<le> 126" | "c \<notin> short_escapes" "\<not> (32 \<le> c \<and> c \<le> 126)" "c < 0x10000"
    | "0x10000 \<le> c" by linarith
  then show ?thesis
  proof cases
    case 1
    then consider "c = 34" | "c = 92" | "c = 10" | "c = 13" | "c = 9" | "c = 8" | "c = 12" by (auto simp: short_escapes_def)
    then show ?thesis by cases (simp_all add: json_char_def)
  next
    case 2
    then have "c \<noteq> 34" by (auto simp: short_escapes_def)
    then show ?thesis by (simp add: json_char_plain [OF 2])
  next
    case 3
    then show ?thesis using json_u_head [of c] by (auto simp: json_char_short [OF 3])
  next
    case 4
    obtain q m where "json_char c = json_u (0xD800 + q) @ json_u (0xDC00 + m)" using json_char_long [OF s 4] by metis
    then show ?thesis using json_u_head [of "0xD800 + q"] by auto
  qed
qed

lemma json_text_split:
  "list_all scalar s \<Longrightarrow> list_all scalar t \<Longrightarrow> json_text s @ r = json_text t @ r' \<Longrightarrow> s = t \<and> r = r'"
proof (induction s arbitrary: t)
  case Nil
  show ?case
  proof (cases t)
    case (Cons c t')
    then show ?thesis using Nil json_char_head [of c] by (auto simp: json_text_def)
  qed (use Nil in \<open>simp add: json_text_def\<close>)
next
  case (Cons c s)
  show ?case
  proof (cases t)
    case Nil
    then show ?thesis using Cons.prems json_char_head [of c] by (auto simp: json_text_def)
  next
    case t: (Cons d t')
    let ?x = "concat (map json_char s) @ [34] @ r" and ?y = "concat (map json_char t') @ [34] @ r'"
    have e: "json_char c @ ?x = json_char d @ ?y" using Cons.prems(3) by (simp add: json_text_def t)
    have "(c, ?x) = (d, ?y)" using json_next_char [of c ?x] json_next_char [of d ?y] Cons.prems(1,2) unfolding e by (simp add: t)
    then show ?thesis using Cons.IH [of t'] Cons.prems(1,2) by (simp add: t json_text_def)
  qed
qed

lemma json_text_ascii: "list_all scalar s \<Longrightarrow> \<forall>c \<in> set (json_text s). 0 \<le> c \<and> c < 128"
  using json_char_ascii by (auto simp: json_text_def list_all_iff)

lemma until_comma:
  fixes xs ys :: ustr
  shows "44 \<notin> set xs \<Longrightarrow> 44 \<notin> set ys \<Longrightarrow> xs @ 44 # r = ys @ 44 # r' \<Longrightarrow> xs = ys \<and> r = r'"
proof (induction xs arbitrary: ys)
  case Nil
  then show ?case by (cases ys) simp_all
next
  case (Cons x xs)
  then show ?case using Cons.IH [of "tl ys"] by (cases ys) auto
qed

section \<open>Injectivity\<close>

lemma utf8_ascii: "\<forall>c \<in> set s. 0 \<le> c \<and> c < 128 \<Longrightarrow> utf8_bytes s = map word_of_int s"
  by (induction s) (auto simp: utf8_bytes_def utf8_code_def)

lemma utf8_ascii_inj:
  assumes "\<forall>c \<in> set s. 0 \<le> c \<and> c < 128" and "\<forall>c \<in> set t. 0 \<le> c \<and> c < 128" and "utf8_bytes s = utf8_bytes t"
  shows "s = t"
proof -
  have u: "map uint (utf8_bytes s) = s" if "\<forall>c \<in> set s. 0 \<le> c \<and> c < 128" for s
  proof -
    have "uint (word_of_int c :: byte) = c" if "c \<in> set s" for c
      using bspec [OF \<open>\<forall>c \<in> set s. 0 \<le> c \<and> c < 128\<close> that] by (simp add: uint_word_of_int)
    then have "map (uint \<circ> (word_of_int :: int \<Rightarrow> byte)) s = s" by (intro map_idI) simp
    then show ?thesis by (simp only: utf8_ascii [OF that] map_map)
  qed
  have "s = map uint (utf8_bytes s)" by (rule u [OF assms(1), symmetric])
  also have "\<dots> = map uint (utf8_bytes t)" by (simp only: assms(3))
  also have "\<dots> = t" by (rule u [OF assms(2)])
  finally show ?thesis .
qed

text \<open>What Python promises of the text of a float: ASCII without a comma, and different for different finite floats.\<close>

definition repr_ok :: "pylib \<Rightarrow> bool" where
  "repr_ok L = ((\<forall>x. \<forall>c \<in> set (float_repr L x). 0 \<le> c \<and> c < 128 \<and> c \<noteq> 44)
     \<and> (\<forall>x y. f_isfinite x \<and> f_isfinite y \<and> float_repr L x = float_repr L y \<longrightarrow> x = y))"

lemma v2_inj:
  assumes L: "repr_ok L" and ts: "f_isfinite t" "f_isfinite t'"
    and s: "list_all (list_all scalar) [p, a, b, c, d, p', a', b', c', d']"
    and e: "audit_bytes_v2 L p (NF t) a b c d = audit_bytes_v2 L p' (NF t') a' b' c' d'"
  shows "p = p' \<and> t = t' \<and> a = a' \<and> b = b' \<and> c = c' \<and> d = d'"
proof -
  let ?j = "\<lambda>p t a b c d. [91, 50, 44] @ json_text p @ [44] @ float_repr L t @ [44] @ json_text a @ [44] @ json_text b @ [44]
       @ json_text c @ [44] @ json_text d @ [93]"
  have asc: "\<forall>x \<in> set (?j p t a b c d). 0 \<le> x \<and> x < 128" if "list_all (list_all scalar) [p, a, b, c, d]" for p t a b c d
    using that json_text_ascii L by (auto simp: repr_ok_def)
  have "?j p t a b c d = ?j p' t' a' b' c' d'"
    using e s by (intro utf8_ascii_inj asc) (simp_all add: audit_bytes_v2_def json_num_def)
  then have 1: "json_text p @ 44 # float_repr L t @ 44 # json_text a @ 44 # json_text b @ 44 # json_text c @ 44 # json_text d @ [93]
      = json_text p' @ 44 # float_repr L t' @ 44 # json_text a' @ 44 # json_text b' @ 44 # json_text c' @ 44 # json_text d' @ [93]" by simp
  note 2 = json_text_split [OF _ _ 1]
  have 3: "float_repr L t @ 44 # json_text a @ 44 # json_text b @ 44 # json_text c @ 44 # json_text d @ [93]
      = float_repr L t' @ 44 # json_text a' @ 44 # json_text b' @ 44 # json_text c' @ 44 # json_text d' @ [93]"
    using 2 s by simp
  note 4 = until_comma [OF _ _ 3]
  have nc: "44 \<notin> set (float_repr L x)" for x using L by (auto simp: repr_ok_def)
  have t: "t = t'" using 4 nc L ts by (auto simp: repr_ok_def)
  have 5: "json_text a @ 44 # json_text b @ 44 # json_text c @ 44 # json_text d @ [93]
      = json_text a' @ 44 # json_text b' @ 44 # json_text c' @ 44 # json_text d' @ [93]" using 4 nc by blast
  note 6 = json_text_split [OF _ _ 5]
  have 7: "json_text b @ 44 # json_text c @ 44 # json_text d @ [93] = json_text b' @ 44 # json_text c' @ 44 # json_text d' @ [93]"
    using 6 s by simp
  note 8 = json_text_split [OF _ _ 7]
  have 9: "json_text c @ 44 # json_text d @ [93] = json_text c' @ 44 # json_text d' @ [93]" using 8 s by simp
  note 10 = json_text_split [OF _ _ 9]
  have 11: "json_text d @ [93] = json_text d' @ [93]" using 10 s by simp
  show ?thesis using 2 6 8 10 json_text_split [OF _ _ 11] t s by simp
qed

end
