(* ===== verification/Audit_Chain.thy ===== *)
theory Audit_Chain
  imports Audit_Props Sha256
begin

text \<open>
  The chain of the audit trail: two verified logs with the same last hash, growth under an anchor, and Merkle roots of batches.
\<close>

section \<open>Appending\<close>

type_synonym audit_entry = "ustr \<times> ustr \<times> ustr \<times> ustr \<times> f64 \<times> int"

fun appends :: "pylib \<Rightarrow> audit_entry list \<Rightarrow> audit_store \<Rightarrow> audit_store res" where
  "appends L [] s = Inr s"
| "appends L ((actor, rl, action, details, ts, version) # es) s =
     bindr (append_audit L actor rl action details (NF ts) version s) (\<lambda>(s', h). appends L es s')"

definition empty_store :: audit_store where
  "empty_store = \<lparr>as_rows = [], as_next_id = 1\<rparr>"

definition entry_ok :: "audit_entry \<Rightarrow> bool" where
  "entry_ok e = (case e of (actor, rl, action, details, ts, version) \<Rightarrow>
     list_all scalar actor \<and> list_all scalar rl \<and> list_all scalar action \<and> list_all scalar details \<and> f_isfinite ts \<and> version \<noteq> 1)"

definition row_ok :: "audit_row \<Rightarrow> bool" where
  "row_ok r =
     (list_all scalar (ar_actor r) \<and> list_all scalar (ar_role r) \<and> list_all scalar (ar_action r) \<and> list_all scalar (ar_details r)
      \<and> list_all scalar (ar_prev r) \<and> f_isfinite (ar_ts r))"

text \<open>The content of a row: what the hash covers, and the hash.\<close>

definition row_core :: "audit_row \<Rightarrow> f64 \<times> ustr \<times> ustr \<times> ustr \<times> ustr \<times> ustr \<times> ustr" where
  "row_core r = (ar_ts r, ar_actor r, ar_role r, ar_action r, ar_details r, ar_prev r, ar_hash r)"

abbreviation intact :: "pylib \<Rightarrow> audit_row list \<Rightarrow> bool" where
  "intact L rs \<equiv> verify_chain L GENESIS rs = Inr None"

lemma verify_chain_append:
  "verify_chain L h (xs @ ys) = Inr None \<longleftrightarrow>
     verify_chain L h xs = Inr None \<and> verify_chain L (if xs = [] then h else ar_hash (last xs)) ys = Inr None"
  by (induction xs arbitrary: h) (auto simp: bindr_Inr split: if_splits)

lemma intact_snoc: "intact L (xs @ [r]) \<longleftrightarrow> intact L xs \<and> ar_prev r = last_hash xs \<and> row_hash L r = Inr (ar_hash r)"
  by (auto simp: verify_chain_append last_hash_def bindr_Inr split: if_splits)

lemma append_row:
  assumes "append_audit L actor rl action details (NF ts) version s = Inr (s', h)"
  obtains r where "as_rows s' = as_rows s @ [r]" and "ar_prev r = last_hash (as_rows s)" and "row_hash L r = Inr (ar_hash r)"
    and "ar_actor r = actor" "ar_role r = rl" "ar_action r = action" "ar_details r = details" "ar_ts r = ts" "ar_version r = version"
proof -
  let ?r = "\<lparr>ar_id = as_next_id s, ar_ts = ts, ar_actor = actor, ar_role = rl, ar_action = action, ar_details = details,
    ar_prev = last_hash (as_rows s), ar_hash = h, ar_version = version\<rparr>"
  have "as_rows s' = as_rows s @ [?r]" and "row_hash L ?r = Inr h"
    using assms by (auto simp: append_audit_def insert_entry_def get_latest_audit_hash_def row_hash_def bindr_Inr n_to_f_def Let_def)
  then show thesis by (intro that [of ?r]) simp_all
qed

lemma GENESIS_chars: "\<forall>c \<in> set GENESIS. 48 \<le> c \<and> c \<le> 102 \<and> c \<noteq> 91"
  by code_simp

lemma scalar_low: "48 \<le> c \<and> c \<le> 102 \<and> c \<noteq> 91 \<Longrightarrow> scalar c"
  by (simp add: scalar_def)

text \<open>Every hash a verified log links to is made of a few ASCII characters.\<close>

lemma last_hash_chars:
  assumes "intact L rs"
  shows "\<forall>c \<in> set (last_hash rs). 48 \<le> c \<and> c \<le> 102 \<and> c \<noteq> 91"
proof (cases rs rule: rev_cases)
  case Nil
  then show ?thesis using GENESIS_chars by (simp add: last_hash_def)
next
  case (snoc xs r)
  then have "row_hash L r = Inr (ar_hash r)" using assms by (simp add: intact_snoc)
  then have "\<exists>bs. ar_hash r = hexdigest bs" by (auto simp: row_hash_def compute_audit_hash_def bindr_Inr split: if_splits) metis+
  then obtain bs where "ar_hash r = hexdigest bs" ..
  then show ?thesis using hexdigest_chars by (simp add: snoc last_hash_def)
qed

lemma appends_chain:
  "appends L es s = Inr s' \<Longrightarrow> intact L (as_rows s) \<Longrightarrow> list_all entry_ok es \<Longrightarrow>
   \<exists>rs. as_rows s' = as_rows s @ rs \<and> intact L (as_rows s') \<and> length rs = length es \<and> list_all row_ok rs \<and> list_all (\<lambda>r. ar_version r \<noteq> 1) rs"
proof (induction es arbitrary: s)
  case (Cons e es)
  obtain actor rl action details ts version where e: "e = (actor, rl, action, details, ts, version)" by (cases e)
  from Cons.prems(1) obtain s1 h where a: "append_audit L actor rl action details (NF ts) version s = Inr (s1, h)"
    and r: "appends L es s1 = Inr s'" by (auto simp: e bindr_Inr)
  from append_row [OF a] obtain r where row: "as_rows s1 = as_rows s @ [r]" "ar_prev r = last_hash (as_rows s)" "row_hash L r = Inr (ar_hash r)"
    "ar_actor r = actor" "ar_role r = rl" "ar_action r = action" "ar_details r = details" "ar_ts r = ts" "ar_version r = version" by blast
  have i1: "intact L (as_rows s1)" using Cons.prems(2) row(1-3) by (simp add: intact_snoc)
  have "list_all scalar (ar_prev r)"
    using last_hash_chars [OF Cons.prems(2)] scalar_low by (auto simp: row(2) list_all_iff)
  then have ok: "row_ok r" "ar_version r \<noteq> 1" using Cons.prems(3) row(4-9) by (simp_all add: e entry_ok_def row_ok_def)
  obtain rs where "as_rows s' = as_rows s1 @ rs" "intact L (as_rows s')" "length rs = length es" "list_all row_ok rs" "list_all (\<lambda>r. ar_version r \<noteq> 1) rs"
    using Cons.IH [OF r i1] Cons.prems(3) by auto
  then show ?case using row(1) ok by (intro exI [of _ "r # rs"]) simp
qed simp

section \<open>Tampering\<close>

lemma first_byte: "0 \<le> c \<Longrightarrow> c < 128 \<Longrightarrow> hd (utf8_bytes (c # s)) = word_of_int c"
  by (simp add: utf8_bytes_def utf8_code_def)

lemma v1_v2_differ:
  assumes "\<forall>c \<in> set p. 48 \<le> c \<and> c \<le> 102 \<and> c \<noteq> 91"
  shows "audit_bytes_v1 L p t a b c d \<noteq> audit_bytes_v2 L p' t' a' b' c' d'"
proof -
  have v2: "hd (audit_bytes_v2 L p' t' a' b' c' d') = word_of_int 91" by (simp add: audit_bytes_v2_def first_byte)
  have ne: "word_of_int k \<noteq> (word_of_int 91 :: byte)" if "48 \<le> k" "k \<le> 124" "k \<noteq> 91" for k
  proof
    assume "word_of_int k = (word_of_int 91 :: byte)"
    then have "uint (word_of_int k :: byte) = uint (word_of_int 91 :: byte)" by simp
    then show False using that by (simp add: uint_word_of_int)
  qed
  have "hd (audit_bytes_v1 L p t a b c d) \<noteq> word_of_int 91"
  proof (cases p)
    case Nil
    then show ?thesis using ne [of 124] by (simp add: audit_bytes_v1_def first_byte del: word_of_int_numeral)
  next
    case (Cons k ks)
    then show ?thesis using ne [of k] assms by (simp add: audit_bytes_v1_def first_byte del: word_of_int_numeral)
  qed
  then show ?thesis using v2 by metis
qed

text \<open>The bytes whose hash a row must carry.\<close>

definition row_bytes :: "pylib \<Rightarrow> audit_row \<Rightarrow> bytes" where
  "row_bytes L r =
     (if ar_version r = 1 then audit_bytes_v1 L (ar_prev r) (ar_ts r) (ar_actor r) (ar_role r) (ar_action r) (ar_details r)
      else audit_bytes_v2 L (ar_prev r) (NF (ar_ts r)) (ar_actor r) (ar_role r) (ar_action r) (ar_details r))"

lemma row_hash_bytes: "row_hash L r = Inr (hexdigest (sha256 L (row_bytes L r)))"
  by (simp add: row_hash_def compute_audit_hash_def row_bytes_def n_to_f_def)

lemma row_inj:
  assumes L: "repr_ok L" and ok: "row_ok x" "row_ok y" and v: "ar_version x \<noteq> 1"
    and h: "row_hash L x = Inr k" "row_hash L y = Inr k" and p: "\<forall>c \<in> set (ar_prev y). 48 \<le> c \<and> c \<le> 102 \<and> c \<noteq> 91"
    and B: "inj_on (sha256 L) B" "row_bytes L x \<in> B" "row_bytes L y \<in> B"
  shows "ar_ts x = ar_ts y \<and> ar_actor x = ar_actor y \<and> ar_role x = ar_role y \<and> ar_action x = ar_action y \<and> ar_details x = ar_details y
    \<and> ar_prev x = ar_prev y"
proof -
  have "sha256 L (row_bytes L x) = sha256 L (row_bytes L y)" using h hexdigest_inj [of "sha256 L (row_bytes L x)" "sha256 L (row_bytes L y)"] by (simp add: row_hash_bytes)
  then have e: "row_bytes L x = row_bytes L y" using B by (auto dest: inj_onD)
  then have w: "ar_version y \<noteq> 1" using v v1_v2_differ [OF p] by (metis row_bytes_def)
  have t: "f_isfinite (ar_ts x)" "f_isfinite (ar_ts y)"
    and s: "list_all (list_all scalar) [ar_prev x, ar_actor x, ar_role x, ar_action x, ar_details x,
      ar_prev y, ar_actor y, ar_role y, ar_action y, ar_details y]"
    using ok by (simp_all add: row_ok_def)
  show ?thesis using v2_inj [OF L t s] e v w by (simp add: row_bytes_def)
qed

lemma chain_unique:
  assumes L: "repr_ok L" and B: "inj_on (sha256 L) B"
  shows "intact L xs \<Longrightarrow> intact L ys \<Longrightarrow> length xs = length ys \<Longrightarrow> last_hash xs = last_hash ys \<Longrightarrow> list_all row_ok xs \<Longrightarrow>
    list_all row_ok ys \<Longrightarrow> list_all (\<lambda>r. ar_version r \<noteq> 1) xs \<Longrightarrow> row_bytes L ` (set xs \<union> set ys) \<subseteq> B \<Longrightarrow> map row_core xs = map row_core ys"
proof (induction xs arbitrary: ys rule: rev_induct)
  case (snoc x xs)
  obtain zs y where ys: "ys = zs @ [y]" using snoc.prems(3) by (cases ys rule: rev_cases) auto
  have x: "intact L xs" "ar_prev x = last_hash xs" "row_hash L x = Inr (ar_hash x)" using snoc.prems(1) by (simp_all add: intact_snoc)
  have y: "intact L zs" "ar_prev y = last_hash zs" "row_hash L y = Inr (ar_hash y)" using snoc.prems(2) by (simp_all add: ys intact_snoc)
  have h: "ar_hash x = ar_hash y" using snoc.prems(4) by (simp add: last_hash_def ys)
  have e: "ar_ts x = ar_ts y \<and> ar_actor x = ar_actor y \<and> ar_role x = ar_role y \<and> ar_action x = ar_action y \<and> ar_details x = ar_details y
      \<and> ar_prev x = ar_prev y"
    using snoc.prems(5-8) x(3) y(3) h last_hash_chars [OF y(1)] by (intro row_inj [OF L, where k = "ar_hash x", OF _ _ _ _ _ _ B]) (simp_all add: ys y(2))
  moreover have "map row_core xs = map row_core zs"
    using snoc.prems(3,5-8) x(1,2) y(1,2) e by (intro snoc.IH) (auto simp: ys)
  moreover have "row_core x = row_core y" using e h by (simp add: row_core_def)
  ultimately show ?case by (simp add: ys)
qed simp

lemma anchored_prefix:
  assumes "verify_audit_integrity L (Some (int n, head)) None table = Inr v" and "verdict_ok v" and "0 < n"
  shows "n \<le> length table \<and> last_hash (take n table) = head \<and> intact L (take n table)"
proof -
  have c: "check_anchor (int n, head) table = None"
    using assms(1,2) by (auto simp: verify_audit_integrity_def start_of_def check_anchor_def Let_def split: option.splits if_splits)
  then have l: "n \<le> length table" "ar_hash (table ! (n - 1)) = head"
    using assms(3) by (auto simp: check_anchor_def nat_diff_distrib split: if_splits)
  have ne: "table \<noteq> []" using l(1) assms(3) by auto
  have "verify_chain L GENESIS table = Inr None"
  proof (cases "verify_chain L GENESIS table")
    case (Inr f)
    have "f = None \<or> (\<exists>i. f = Some (BrokenLink i) \<or> f = Some (TamperedEntry i))" using Inr
      by (induction table arbitrary: f rule: verify_chain.induct) (auto simp: bindr_Inr split: if_splits)
    then show ?thesis using assms(1,2) c ne Inr by (auto simp: verify_audit_integrity_def start_of_def)
  qed (use assms(1) c ne in \<open>auto simp: verify_audit_integrity_def start_of_def\<close>)
  then have "intact L (take n table)" using verify_chain_append [of L GENESIS "take n table" "drop n table"] by simp
  moreover have "last (take n table) = table ! (n - 1)" using l(1) assms(3) ne by (auto simp: last_conv_nth)
  ultimately show ?thesis using l assms(3) ne by (simp add: last_hash_def)
qed

text \<open>
  C18: the audit trail is tamper evident.  Take the anchor (the number of entries and the last hash) of a log written with the
  default format, and later any contents of the table, however it was changed, including a change of the format version.  If
  verification against the anchor accepts the table, its first entries are the entries of the log, with the same times, actors,
  roles, actions, details and hashes, provided SHA-256 gives different digests to the different entries of the log and the table.
\<close>

theorem audit_log_is_tamper_evident:
  assumes "repr_ok L" and "list_all entry_ok es" and "appends L es empty_store = Inr s"
    and "list_all row_ok table" and "verify_audit_integrity L (Some (get_audit_anchor s)) None table = Inr v" and "verdict_ok v"
    and "inj_on (sha256 L) (row_bytes L ` (set (as_rows s) \<union> set table))"
  shows "map row_core (take (length es) table) = map row_core (as_rows s)"
proof (cases "es = []")
  case False
  obtain rs where rs: "as_rows s = rs" "intact L rs" "length rs = length es" "list_all row_ok rs" "list_all (\<lambda>r. ar_version r \<noteq> 1) rs"
    using appends_chain [OF assms(3) _ assms(2)] by (auto simp: empty_store_def)
  have a: "get_audit_anchor s = (int (length es), last_hash rs)" by (simp add: get_audit_anchor_def rs(1,3))
  note p = anchored_prefix [OF assms(5) [unfolded a] assms(6)]
  have "list_all row_ok (take (length es) table)" using assms(4) by (auto simp: list_all_iff dest: in_set_takeD)
  moreover have "row_bytes L ` (set rs \<union> set (take (length es) table)) \<subseteq> row_bytes L ` (set (as_rows s) \<union> set table)"
    using rs(1) by (auto dest: in_set_takeD)
  ultimately have "map row_core rs = map row_core (take (length es) table)"
    using False p rs by (intro chain_unique [OF assms(1,7)]) auto
  then show ?thesis by (simp add: rs(1))
qed (use assms(3) in \<open>auto simp: empty_store_def\<close>)


section \<open>Growth\<close>

lemma append_total: "version \<noteq> 1 \<Longrightarrow> \<exists>s' h. append_audit L actor rl action details (NF ts) version s = Inr (s', h)"
  by (simp add: append_audit_def compute_audit_hash_def n_to_f_def Let_def)

lemma appends_total: "list_all entry_ok es \<Longrightarrow> \<exists>s'. appends L es s = Inr s'"
proof (induction es arbitrary: s)
  case (Cons e es)
  obtain actor rl action details ts version where e: "e = (actor, rl, action, details, ts, version)" by (cases e)
  have "version \<noteq> 1" using Cons.prems by (simp add: e entry_ok_def)
  then obtain s1 h where "append_audit L actor rl action details (NF ts) version s = Inr (s1, h)" using append_total by blast
  then show ?case using Cons.IH [of s1] Cons.prems by (simp add: e)
qed simp

text \<open>
  C32: a log that only grows matches every checkpoint signed on the way.  Appending never fails on proper text; a checkpoint signed
  with a key at any moment is accepted for the log as it is after any further entries.
\<close>

theorem grown_log_matches_checkpoint:
  assumes "list_all entry_ok (es @ fs)" and "key \<noteq> []"
  shows "\<exists>s s' cp. appends L es empty_store = Inr s \<and> appends L fs s = Inr s' \<and> sign_audit_checkpoint L key s = Inr cp
     \<and> cp_count cp = int (length es) \<and> verify_external_checkpoint L key cp (as_rows s') = Inr Matches"
proof -
  have ok: "list_all entry_ok es" "list_all entry_ok fs" using assms(1) by simp_all
  obtain s where s: "appends L es empty_store = Inr s" using appends_total [OF ok(1)] by blast
  obtain s' where s': "appends L fs s = Inr s'" using appends_total [OF ok(2)] by blast
  have 1: "intact L (as_rows s)" "length (as_rows s) = length es"
    using appends_chain [OF s _ ok(1)] by (auto simp: empty_store_def)
  obtain rs where 2: "as_rows s' = as_rows s @ rs" "intact L (as_rows s')" using appends_chain [OF s' 1(1) ok(2)] by blast
  let ?n = "int (length es)" and ?h = "last_hash (as_rows s)"
  have a: "check_anchor (?n, ?h) (as_rows s @ rs) = None"
  proof (cases "as_rows s = []")
    case True
    then show ?thesis using 1(2) by (simp add: check_anchor_def last_hash_def)
  next
    case False
    then have "0 < length (as_rows s)" by simp
    then have "nat (?n - 1) = length (as_rows s) - 1" "length (as_rows s) - 1 < length (as_rows s)" using 1(2) by linarith+
    then show ?thesis using 1(2) False by (auto simp: check_anchor_def last_hash_def nth_append last_conv_nth)
  qed
  have v: "\<exists>w. verify_audit_integrity L (Some (?n, ?h)) None (as_rows s') = Inr w \<and> verdict_ok w"
    using a 2 by (auto simp: verify_audit_integrity_def start_of_def)
  show ?thesis using s s' v assms(2) 1(2)
    by (intro exI [of _ s] exI [of _ s'])
       (auto simp: sign_audit_checkpoint_def get_audit_anchor_def verify_external_checkpoint_def verify_audit_checkpoint_def)
qed

section \<open>Merkle roots\<close>

text \<open>The pairs a level hashes, and all pairs hashed up to the root.\<close>

fun level_pairs :: "bytes list \<Rightarrow> bytes list" where
  "level_pairs (a # b # rest) = (a @ b) # level_pairs rest"
| "level_pairs [a] = [a @ a]"
| "level_pairs [] = []"

lemma merkle_level_pairs: "merkle_level L xs = map (sha256 L) (level_pairs xs)"
  by (induction L xs rule: merkle_level.induct) simp_all

function tree_pairs :: "pylib \<Rightarrow> bytes list \<Rightarrow> bytes list" where
  "tree_pairs L xs = (if 1 < length xs then level_pairs xs @ tree_pairs L (merkle_level L xs) else [])"
  by pat_completeness auto
termination by (relation "measure (\<lambda>(L, xs). length xs)") auto

declare tree_pairs.simps [simp del]

lemma pairs_inj:
  "length xs = length ys \<Longrightarrow> list_all (\<lambda>x. length x = n) xs \<Longrightarrow> list_all (\<lambda>x. length x = n) ys \<Longrightarrow> level_pairs xs = level_pairs ys \<Longrightarrow> xs = ys"
proof (induction xs arbitrary: ys rule: level_pairs.induct)
  case (1 a b xs)
  obtain c d zs where ys: "ys = c # d # zs" using "1.prems"(1) by (cases ys rule: list.exhaust; cases "tl ys") auto
  then show ?case using "1.prems" "1.IH" [of zs] by simp
next
  case (2 a)
  then obtain c where ys: "ys = [c]" by (cases ys) auto
  then show ?case using "2.prems" by simp
qed simp

lemma map_inj_within: "inj_on f B \<Longrightarrow> set xs \<subseteq> B \<Longrightarrow> set ys \<subseteq> B \<Longrightarrow> map f xs = map f ys \<Longrightarrow> xs = ys"
  by (rule map_inj_on [of f xs ys]) (auto intro: inj_on_subset)

lemma level_lengths: "(\<And>x. length (sha256 L x) = 32) \<Longrightarrow> list_all (\<lambda>x. length x = 32) (merkle_level L xs)"
  by (induction L xs rule: merkle_level.induct) auto

lemma merkle_up_single: "xs \<noteq> [] \<Longrightarrow> \<exists>r. merkle_up L xs = [r]"
proof (induction L xs rule: merkle_up.induct)
  case (1 L xs)
  show ?case
  proof (cases "1 < length xs")
    case True
    then have "0 < length (merkle_level L xs)" unfolding length_merkle_level by simp
    then have "merkle_level L xs \<noteq> []" unfolding length_greater_0_conv .
    then show ?thesis using "1.IH" [OF True] True by (simp add: merkle_up.simps [of L xs])
  next
    case False
    then show ?thesis using "1.prems" by (cases xs) (auto simp: merkle_up.simps)
  qed
qed

lemma up_inj:
  assumes "\<And>x. length (sha256 L x) = 32" and B: "inj_on (sha256 L) B"
  shows "length xs = length ys \<Longrightarrow> list_all (\<lambda>x. length x = 32) xs \<Longrightarrow> list_all (\<lambda>x. length x = 32) ys \<Longrightarrow>
    set (tree_pairs L xs) \<union> set (tree_pairs L ys) \<subseteq> B \<Longrightarrow> merkle_up L xs = merkle_up L ys \<Longrightarrow> xs = ys"
proof (induction "length xs" arbitrary: xs ys rule: less_induct)
  case less
  show ?case
  proof (cases "1 < length xs")
    case True
    have t: "set (level_pairs xs) \<subseteq> B" "set (level_pairs ys) \<subseteq> B" "set (tree_pairs L (merkle_level L xs)) \<union> set (tree_pairs L (merkle_level L ys)) \<subseteq> B"
      using less.prems(1,4) True by (simp_all add: tree_pairs.simps [of L xs] tree_pairs.simps [of L ys])
    have "merkle_up L (merkle_level L xs) = merkle_up L (merkle_level L ys)"
      using less.prems(1,5) True by (simp add: merkle_up.simps [of L xs] merkle_up.simps [of L ys])
    then have "merkle_level L xs = merkle_level L ys"
      by (rule less.hyps [OF _ _ level_lengths [OF assms(1)] level_lengths [OF assms(1)] t(3), rotated 2]) (use True less.prems(1) in simp_all)
    then have "map (sha256 L) (level_pairs xs) = map (sha256 L) (level_pairs ys)" by (simp add: merkle_level_pairs)
    then have "level_pairs xs = level_pairs ys" by (rule map_inj_within [OF B t(1,2)])
    then show ?thesis by (rule pairs_inj [OF less.prems(1-3)])
  next
    case False
    then show ?thesis using less.prems(1,5) by (simp add: merkle_up.simps [of L xs] merkle_up.simps [of L ys])
  qed
qed

text \<open>
  C29: a Merkle root fixes its batch.  The computation ends for every batch; two batches of the same size with the same root are the
  same sequence of records, provided SHA-256 gives different digests to the different byte strings hashed for the two roots (the
  records and the pairs of digests on every level).
\<close>

theorem merkle_root_fixes_batch:
  assumes "\<And>x. length (sha256 L x) = 32" and "length xs = length ys"
    and "inj_on (sha256 L) (set xs \<union> set ys \<union> set (tree_pairs L (map (sha256 L) xs)) \<union> set (tree_pairs L (map (sha256 L) ys)))"
    and "compute_merkle_root L (map (sha256 L) xs) = compute_merkle_root L (map (sha256 L) ys)"
  shows "xs = ys"
proof (cases "xs = []")
  case False
  then have ne: "map (sha256 L) xs \<noteq> []" "map (sha256 L) ys \<noteq> []" using assms(2) by auto
  obtain r where r: "merkle_up L (map (sha256 L) xs) = [r]" using merkle_up_single [OF ne(1)] by blast
  obtain q where q: "merkle_up L (map (sha256 L) ys) = [q]" using merkle_up_single [OF ne(2)] by blast
  have "r = q" using assms(4) ne hexdigest_inj [of r q] by (simp add: compute_merkle_root_def r q)
  then have e: "merkle_up L (map (sha256 L) xs) = merkle_up L (map (sha256 L) ys)" by (simp only: r q)
  have l: "list_all (\<lambda>x. length x = 32) (map (sha256 L) zs)" for zs using assms(1) by (induction zs) simp_all
  have "map (sha256 L) xs = map (sha256 L) ys" by (rule up_inj [OF assms(1,3) _ l l _ e]) (use assms(2) in auto)
  then show ?thesis by (rule map_inj_within [OF assms(3), rotated 2]) auto
qed (use assms(2) in simp)

text \<open>An odd last record is paired with itself, so the root alone does not fix the size of the batch.\<close>

lemma odd_batch_repeats:
  "compute_merkle_root L [a, b, c] = compute_merkle_root L [a, b, c, c]"
  by (simp add: compute_merkle_root_def merkle_up.simps)


section \<open>Examples\<close>

text \<open>A library whose texts of floats are their bits in unary, with SHA-256 and with a hash that keeps the last 32 bytes.\<close>

definition hashlib_lib :: pylib where
  "hashlib_lib = \<lparr>sha256 = sha256_digest, float_repr = (\<lambda>x. replicate (nat (uint x)) 49), float_fixed6 = (\<lambda>x. [48])\<rparr>"

definition demo_lib :: pylib where
  "demo_lib = hashlib_lib\<lparr>sha256 := (\<lambda>bs. take 32 (rev bs @ replicate 32 0))\<rparr>"

lemma hashlib_repr: "repr_ok hashlib_lib"
  by (auto simp: repr_ok_def hashlib_lib_def replicate_eq_replicate word_unat_eq_iff)

definition demo_entry :: audit_entry where
  "demo_entry = (u ''a'', u ''r'', u ''x'', u ''d'', 0, 2)"

lemma demo_entry_ok: "entry_ok demo_entry"
  by code_simp

theorem audit_log_is_tamper_evident_witness:
  "\<exists>s. appends hashlib_lib [demo_entry] empty_store = Inr s
     \<and> (\<exists>v. verify_audit_integrity hashlib_lib (Some (get_audit_anchor s)) None (as_rows s) = Inr v \<and> verdict_ok v)
     \<and> map row_core (take 1 (as_rows s)) = map row_core (as_rows s)"
proof -
  have ok: "list_all entry_ok [demo_entry]" using demo_entry_ok by simp
  obtain s where s: "appends hashlib_lib [demo_entry] empty_store = Inr s" using appends_total [OF ok] by blast
  have c: "intact hashlib_lib (as_rows s)" "list_all row_ok (as_rows s)" "length (as_rows s) = 1"
    using appends_chain [OF s _ ok] by (auto simp: empty_store_def)
  have v: "verify_audit_integrity hashlib_lib (Some (get_audit_anchor s)) None (as_rows s) = Inr (Verified 1 (ar_id (last (as_rows s))) True)"
    using c(1,3) by (cases "as_rows s") (auto simp: verify_audit_integrity_def start_of_def get_audit_anchor_def check_anchor_def last_hash_def
        simp del: verify_chain.simps)
  have "inj_on (sha256 hashlib_lib) (row_bytes hashlib_lib ` (set (as_rows s) \<union> set (as_rows s)))" using c(3) by (cases "as_rows s") auto
  then show ?thesis using audit_log_is_tamper_evident [OF hashlib_repr ok s c(2) v] s v by (simp add: c(3))
qed

lemma hashlib_digest_length: "length (sha256 hashlib_lib x) = 32"
  by (simp add: hashlib_lib_def length_sha256)

theorem grown_log_matches_checkpoint_witness:
  "\<exists>s s' cp. appends demo_lib [demo_entry] empty_store = Inr s \<and> appends demo_lib [demo_entry, demo_entry] s = Inr s'
     \<and> sign_audit_checkpoint demo_lib [1] s = Inr cp \<and> cp_count cp = 1 \<and> verify_external_checkpoint demo_lib [1] cp (as_rows s') = Inr Matches"
  using grown_log_matches_checkpoint [of "[demo_entry]" "[demo_entry, demo_entry]" "[1]" demo_lib] demo_entry_ok by simp

definition hashed_for :: "pylib \<Rightarrow> bytes list \<Rightarrow> bytes list" where
  "hashed_for L xs = xs @ tree_pairs L (map (sha256 L) xs)"

lemma demo_hashed:
  "length (sha256 demo_lib x) = 32" "distinct (map (sha256 demo_lib) (remdups (hashed_for demo_lib [[1], [2]] @ hashed_for demo_lib [[1], [3]])))"
  by (simp add: demo_lib_def) code_simp

theorem merkle_root_fixes_batch_witness:
  "inj_on (sha256 demo_lib) (set (hashed_for demo_lib [[1], [2]]) \<union> set (hashed_for demo_lib [[1], [3]]))
   \<and> compute_merkle_root demo_lib (map (sha256 demo_lib) [[1], [2]]) \<noteq> compute_merkle_root demo_lib (map (sha256 demo_lib) [[1], [3]])"
proof -
  have i: "inj_on (sha256 demo_lib) (set (hashed_for demo_lib [[1], [2]]) \<union> set (hashed_for demo_lib [[1], [3]]))"
    using demo_hashed(2) by (simp only: distinct_map set_remdups set_append)
  have "compute_merkle_root demo_lib (map (sha256 demo_lib) [[1], [2]]) \<noteq> compute_merkle_root demo_lib (map (sha256 demo_lib) [[1], [3]])"
  proof
    assume "compute_merkle_root demo_lib (map (sha256 demo_lib) [[1], [2]]) = compute_merkle_root demo_lib (map (sha256 demo_lib) [[1], [3]])"
    from merkle_root_fixes_batch [OF demo_hashed(1) _ _ this] have "[[1], [2]] = [[1], [3 :: byte]]"
      using i unfolding hashed_for_def set_append by (simp add: Un_ac)
    then show False by simp
  qed
  then show ?thesis using i by blast
qed

text \<open>The old format is ambiguous: an escaped bar and a bar after a backslash look the same.\<close>

lemma v1_is_ambiguous:
  "audit_bytes_v1 L p t (u ''x'' @ [92]) (u ''y'') (u ''z|q'') (u ''d'') = audit_bytes_v1 L p t (u ''x|y'') (u ''z'' @ [92]) (u ''q'') (u ''d'')"
  by (simp add: audit_bytes_v1_def esc_bar_def u_def)

text \<open>An integer time is hashed as it is and stored as a float, whose text differs, so the entry is later reported as tampered.\<close>

definition decimal_lib :: pylib where
  "decimal_lib = \<lparr>sha256 = id, float_repr = (\<lambda>x. u (if x = 0x4014000000000000 then ''5.0'' else ''0.0'')), float_fixed6 = (\<lambda>x. [])\<rparr>"

lemma integer_time_looks_tampered:
  "bindr (append_audit decimal_lib (u ''a'') (u ''r'') (u ''x'') (u ''d'') (NI 5) 2 empty_store)
     (\<lambda>(s, h). verify_audit_integrity decimal_lib None None (as_rows s)) = Inr (TamperedEntry 1)"
  by code_simp

end
