(* ===== verification/Reconcile.thy ===== *)
theory Reconcile
  imports Models "HOL-Library.List_Lexorder" "HOL-Library.Char_ord"
begin

text \<open>
  Cross-feed reconciliation of \<open>reconciliation.py\<close>: the reliability score of every feed, the two strategies that choose the canonical
  observation among the feeds that reported an instrument recently, and the reconciler that keeps the latest observation per
  instrument and feed.  The text of a decision (its reason in prose) is left out; a user's own strategy is not modelled.
\<close>

section \<open>Reliability\<close>

definition R_1 :: f64 where "R_1 = 0x3FF0000000000000"
definition R_2 :: f64 where "R_2 = 0x4000000000000000"
definition R_100 :: f64 where "R_100 = 0x4059000000000000"
definition R_1000 :: f64 where "R_1000 = 0x408F400000000000"
definition R_MINUS_1 :: f64 where "R_MINUS_1 = 0xBFF0000000000000"
definition WEIGHT_ACCURACY :: f64 where "WEIGHT_ACCURACY = 0x3FD999999999999A"
definition WEIGHT_COMPLETENESS :: f64 where "WEIGHT_COMPLETENESS = 0x3FD0000000000000"
definition WEIGHT_DEDUP :: f64 where "WEIGHT_DEDUP = 0x3FC999999999999A"
definition WEIGHT_LATENCY :: f64 where "WEIGHT_LATENCY = 0x3FC3333333333333"

record rel_config =
  rf_alpha :: f64
  rf_threshold :: f64
  rf_window :: f64

record source_stats =
  ss_total :: int
  ss_invalid :: int
  ss_suspicious :: int
  ss_duplicate :: int
  ss_gap :: int
  ss_latency :: f64
  ss_error_rate :: f64
  ss_gap_rate :: f64
  ss_dup_rate :: f64

definition new_stats :: source_stats where
  "new_stats = \<lparr>ss_total = 0, ss_invalid = 0, ss_suspicious = 0, ss_duplicate = 0, ss_gap = 0, ss_latency = 0, ss_error_rate = 0,
     ss_gap_rate = 0, ss_dup_rate = 0\<rparr>"

definition error_rate :: "source_stats \<Rightarrow> f64" where
  "error_rate s = (if 0 < ss_total s then ss_error_rate s else 0)"

definition unit_share :: "f64 \<Rightarrow> f64" where
  "unit_share rate = fmax 0 (fsub R_1 (fmin R_1 rate))"

definition weigh :: "f64 \<Rightarrow> f64 \<Rightarrow> f64 \<Rightarrow> f64 \<Rightarrow> f64" where
  "weigh accuracy completeness dup latency =
     fround (fadd (fadd (fadd (fmul WEIGHT_ACCURACY accuracy) (fmul WEIGHT_COMPLETENESS completeness)) (fmul WEIGHT_DEDUP dup))
       (fmul WEIGHT_LATENCY latency)) 4"

definition score :: "source_stats \<Rightarrow> f64 res" where
  "score s =
     (if ss_total s = 0 then Inr R_1
      else bindr (fdiv R_1 (fadd R_1 (fmul (ss_latency s) R_100))) (\<lambda>lat.
        Inr (weigh (unit_share (ss_error_rate s)) (unit_share (ss_gap_rate s)) (unit_share (ss_dup_rate s)) lat)))"

record tracker =
  tr_cfg :: rel_config
  tr_stats :: "(string, source_stats) dict"
  tr_scores :: "(string, f64) dict"

definition tracker_init :: "rel_config \<Rightarrow> tracker" where
  "tracker_init cfg = \<lparr>tr_cfg = cfg, tr_stats = [], tr_scores = []\<rparr>"

definition ewma :: "f64 \<Rightarrow> f64 \<Rightarrow> f64 \<Rightarrow> f64" where
  "ewma a old new = fadd (fmul (fsub R_1 a) old) (fmul a new)"

definition flag01 :: "bool \<Rightarrow> f64" where
  "flag01 b = (if b then R_1 else 0)"

definition note_event :: "f64 \<Rightarrow> cevent \<Rightarrow> source_stats \<Rightarrow> source_stats" where
  "note_event a ev s0 =
     (let inv = (quality_status ev = INVALID); sus = (quality_status ev = SUSPICIOUS);
          dup = (reason_value DUPLICATE \<in> set (reasons ev)); gap = (reason_value SEQUENCE_GAP \<in> set (reasons ev));
          s = s0\<lparr>ss_total := ss_total s0 + 1, ss_invalid := ss_invalid s0 + (if inv then 1 else 0),
                 ss_duplicate := ss_duplicate s0 + (if inv \<and> dup then 1 else 0), ss_suspicious := ss_suspicious s0 + (if sus then 1 else 0),
                 ss_gap := ss_gap s0 + (if sus \<and> gap then 1 else 0)\<rparr>;
          err = flag01 (inv \<or> sus); lat = fmax 0 (fsub (receive_timestamp ev) (exchange_timestamp ev));
          mix = (\<lambda>old new. if ss_total s = 1 then new else ewma a old new)
      in s\<lparr>ss_latency := mix (ss_latency s) lat, ss_error_rate := mix (ss_error_rate s) err,
           ss_gap_rate := mix (ss_gap_rate s) (flag01 gap), ss_dup_rate := mix (ss_dup_rate s) (flag01 dup)\<rparr>)"

text \<open>The second result is the exception when the score cannot be computed; the statistics have been updated by then.\<close>

definition tracker_observe :: "cevent \<Rightarrow> tracker \<Rightarrow> tracker \<times> unit res" where
  "tracker_observe ev t =
     (let s = note_event (rf_alpha (tr_cfg t)) ev (dgetd (tr_stats t) (source ev) new_stats);
          t1 = t\<lparr>tr_stats := dset (tr_stats t) (source ev) s\<rparr>
      in case score s of
           Inl e \<Rightarrow> (t1, Inl e)
         | Inr x \<Rightarrow> (t1\<lparr>tr_scores := dset (tr_scores t1) (source ev) x\<rparr>, Inr ()))"

section \<open>Strategies\<close>

record decision =
  cd_instrument :: string
  cd_chosen_source :: string
  cd_chosen_event_id :: string
  cd_disagreement :: bool
  cd_competing :: "string list"
  cd_quality_reasons :: "string list"
  cd_lead_source :: string
  cd_lead_delta_ms :: f64

type_synonym candidates = "(string, cevent \<times> f64) dict"

text \<open>The sources in alphabetical order that are inside the window, not blocked and have a price.\<close>

definition usable :: "f64 \<Rightarrow> string list \<Rightarrow> f64 option \<Rightarrow> cevent \<times> f64 \<Rightarrow> string \<Rightarrow> bool" where
  "usable window blocked now c src =
     (\<not> (case now of None \<Rightarrow> False | Some t \<Rightarrow> flt window (fabs (fsub t (snd c)))) \<and> src \<notin> set blocked \<and> price (fst c) \<noteq> None)"

definition recent_items :: "candidates \<Rightarrow> f64 \<Rightarrow> string list \<Rightarrow> f64 option \<Rightarrow> (string \<times> cevent \<times> f64) list" where
  "recent_items cs window blocked now =
     [(src, fst c, the (price (fst c))). src \<leftarrow> sort (dkeys cs), c \<leftarrow> (case dget cs src of None \<Rightarrow> [] | Some c \<Rightarrow> [c]), usable window blocked now c src]"

definition takes_lead :: "f64 \<Rightarrow> string \<Rightarrow> f64 \<Rightarrow> string \<Rightarrow> bool" where
  "takes_lead sc src best chosen = (flt best sc \<or> (feq sc best \<and> (chosen = [] \<or> src < chosen)))"

fun pick_source :: "(string, f64) dict \<Rightarrow> (string \<times> cevent \<times> f64) list \<Rightarrow> f64 \<times> string \<times> cevent option \<Rightarrow> f64 \<times> string \<times> cevent option" where
  "pick_source scores [] acc = acc"
| "pick_source scores ((src, ev, p) # rs) (best, chosen, ce) =
     (let sc = dgetd scores src 0
      in pick_source scores rs (if takes_lead sc src best chosen then (sc, src, Some ev) else (best, chosen, ce)))"

fun any_off :: "f64 \<Rightarrow> f64 \<Rightarrow> f64 list \<Rightarrow> bool res" where
  "any_off thr centre [] = Inr False"
| "any_off thr centre (p # ps) = bindr (fdiv (fabs (fsub p centre)) centre) (\<lambda>d. if flt thr d then Inr True else any_off thr centre ps)"

definition disagrees :: "f64 \<Rightarrow> f64 \<Rightarrow> f64 list \<Rightarrow> bool res" where
  "disagrees thr centre ps = (if flt 0 centre then any_off thr centre ps else Inr False)"

text \<open>\<open>min\<close> by time keeps the first of equal ones.\<close>

fun earliest :: "candidates \<Rightarrow> string \<Rightarrow> string list \<Rightarrow> string" where
  "earliest cs best [] = best"
| "earliest cs best (s # ss) =
     earliest cs (if flt (snd (the (dget cs s))) (snd (the (dget cs best))) then s else best) ss"

definition conclude :: "string \<Rightarrow> candidates \<Rightarrow> f64 option \<Rightarrow> string list \<Rightarrow> string \<Rightarrow> cevent \<Rightarrow> bool \<Rightarrow> decision" where
  "conclude inst cs now srcs chosen ev off =
     (let lead = (case srcs of [] \<Rightarrow> [] | s # ss \<Rightarrow> earliest cs s ss);
          delta = (case now of None \<Rightarrow> 0 | Some t \<Rightarrow> if srcs = [] then 0 else fmax 0 (fmul (fsub t (snd (the (dget cs lead)))) R_1000))
      in \<lparr>cd_instrument = inst, cd_chosen_source = chosen, cd_chosen_event_id = event_id ev, cd_disagreement = off, cd_competing = srcs,
          cd_quality_reasons = (if off then [reason_value CROSS_FEED_DISAGREEMENT] else []), cd_lead_source = lead,
          cd_lead_delta_ms = fround delta 3\<rparr>)"

definition select_highest ::
    "string \<Rightarrow> candidates \<Rightarrow> (string, f64) dict \<Rightarrow> f64 \<Rightarrow> f64 \<Rightarrow> string list \<Rightarrow> f64 option \<Rightarrow> decision option res" where
  "select_highest inst cs scores window thr blocked now =
     (let rs = recent_items cs window blocked now; srcs = map fst rs; ps = map (\<lambda>(_, _, p). p) rs
      in case pick_source scores rs (R_MINUS_1, [], None) of
           (_, chosen, Some ev) \<Rightarrow>
             if length rs < 2 then Inr None
             else bindr (fdiv_nat (foldl fadd 0 ps) (length rs)) (\<lambda>mean.
                  bindr (disagrees thr mean ps) (\<lambda>off. Inr (Some (conclude inst cs now srcs chosen ev off))))
         | (_, _, None) \<Rightarrow> Inr None)"

text \<open>The items come in the order of their sources and the sort is stable, so equal prices stay in this order.  The
  order Python gives to a NaN price is not modelled.\<close>

definition median_index :: "(string, f64) dict \<Rightarrow> (string \<times> cevent \<times> f64) list \<Rightarrow> (nat \<times> f64) res" where
  "median_index scores items =
     (let n = length items; mid = n div 2; px = (\<lambda>i. snd (snd (items ! i)))
      in if n mod 2 = 1 then Inr (mid, px mid)
         else bindr (fdiv (fadd (px (mid - 1)) (px mid)) R_2) (\<lambda>m.
           let dl = fabs (fsub (px (mid - 1)) m); dr = fabs (fsub (px mid) m)
           in Inr (if flt dl dr then mid - 1 else if flt dr dl then mid
                   else if fle (dgetd scores (fst (items ! mid)) 0) (dgetd scores (fst (items ! (mid - 1))) 0) then mid - 1 else mid, m)))"

definition select_median ::
    "string \<Rightarrow> candidates \<Rightarrow> (string, f64) dict \<Rightarrow> f64 \<Rightarrow> f64 \<Rightarrow> string list \<Rightarrow> f64 option \<Rightarrow> decision option res" where
  "select_median inst cs scores window thr blocked now =
     (let items = sort_key (\<lambda>(_, _, p). f_key p) (recent_items cs window blocked now)
      in if length items < 2 then Inr None
         else bindr (median_index scores items) (\<lambda>(i, m).
              bindr (disagrees thr m (map (\<lambda>(_, _, p). p) items)) (\<lambda>off.
                Inr (Some (conclude inst cs now (map fst items) (fst (items ! i)) (fst (snd (items ! i))) off)))))"

section \<open>The reconciler\<close>

datatype strategy = HighestReliability | MedianPrice

record reconciler =
  rc_cfg :: rel_config
  rc_tracker :: tracker
  rc_max :: int
  rc_strategy :: strategy
  rc_latest :: "(string, candidates) dict"
  rc_blocked :: "string list"

definition reconciler_init :: "rel_config \<Rightarrow> int \<Rightarrow> strategy \<Rightarrow> reconciler" where
  "reconciler_init cfg mx st = \<lparr>rc_cfg = cfg, rc_tracker = tracker_init cfg, rc_max = mx, rc_strategy = st, rc_latest = [], rc_blocked = []\<rparr>"

definition rec_block :: "string \<Rightarrow> reconciler \<Rightarrow> reconciler" where
  "rec_block src r = r\<lparr>rc_blocked := List.insert src (rc_blocked r)\<rparr>"

definition rec_unblock :: "string \<Rightarrow> reconciler \<Rightarrow> reconciler" where
  "rec_unblock src r = r\<lparr>rc_blocked := removeAll src (rc_blocked r)\<rparr>"

text \<open>The candidates of the instrument, moved to the end; a new one may push the oldest instrument out.\<close>

definition open_instrument :: "string \<Rightarrow> reconciler \<Rightarrow> ((string, candidates) dict \<times> candidates) res" where
  "open_instrument inst r =
     (case dget (rc_latest r) inst of
        Some c \<Rightarrow> Inr (ddel (rc_latest r) inst, c)
      | None \<Rightarrow>
          if int (length (rc_latest r)) \<ge> rc_max r
          then (case rc_latest r of [] \<Rightarrow> Inl KeyError | _ # rest \<Rightarrow> Inr (rest, []))
          else Inr (rc_latest r, []))"

definition select :: "strategy \<Rightarrow> string \<Rightarrow> candidates \<Rightarrow> (string, f64) dict \<Rightarrow> f64 \<Rightarrow> f64 \<Rightarrow> string list \<Rightarrow> f64 option \<Rightarrow> decision option res" where
  "select st = (case st of HighestReliability \<Rightarrow> select_highest | MedianPrice \<Rightarrow> select_median)"

definition reconcile :: "cevent \<Rightarrow> reconciler \<Rightarrow> reconciler \<times> decision option res" where
  "reconcile ev r =
     (if quality_status ev = INVALID \<or> price ev = None then (r, Inr None)
      else case open_instrument (instrument_id ev) r of
             Inl e \<Rightarrow> (r, Inl e)
           | Inr (rest, c) \<Rightarrow>
               let now = exchange_timestamp ev; c1 = dset c (source ev) (ev, now);
                   r1 = r\<lparr>rc_latest := rest @ [(instrument_id ev, c1)]\<rparr>
               in if length c1 < 2 then (r1, Inr None)
                  else (r1, select (rc_strategy r) (instrument_id ev) c1 (tr_scores (rc_tracker r)) (rf_window (rc_cfg r))
                              (rf_threshold (rc_cfg r)) (rc_blocked r) (Some now)))"

end
