(* ===== verification/Reconcile_Props.thy ===== *)
theory Reconcile_Props
  imports Reconcile
begin

text \<open>
  What reconciliation guarantees: reliability scores stay in the unit interval whatever is observed, the strategy by reliability takes a
  best source, and the strategy by median takes a median.
\<close>

section \<open>Numbers that are not negative\<close>

definition nonneg :: "f64 \<Rightarrow> bool" where
  "nonneg x = (\<not> f_isnan x \<and> 0 \<le> f_key x)"

definition in_unit :: "f64 \<Rightarrow> bool" where
  "in_unit x = (\<not> f_isnan x \<and> 0 \<le> f_key x \<and> f_key x \<le> f_key R_1)"

lemma one_facts [simp]: "f_isfinite R_1" "\<not> f_isnan R_1" "f_val R_1 = 1" "f_isfinite 0" "\<not> f_isnan 0" "f_val 0 = 0" "f_key 0 = 0"
  by code_simp+

lemma rkey_one: "rkey 1 = f_key R_1"
  using rkey_val [of R_1] by simp

lemma nonneg_cases:
  assumes "nonneg x"
  obtains "f_isfinite x" "0 \<le> f_val x" | "f_isinf x" "\<not> f_sign x"
proof (cases "f_isfinite x")
  case True
  then show thesis using assms f_key_le_val [of 0 x] that(1) by (simp add: nonneg_def)
next
  case False
  then have i: "f_isinf x" using assms isnan_cases [of x] by (auto simp: nonneg_def)
  then have "\<not> f_sign x" using assms by (auto simp: nonneg_def f_key_def f_isinf_def inf_mag_def split: if_splits)
  then show thesis using that(2) i by blast
qed

lemma nonnegI: "\<not> f_isnan x \<Longrightarrow> 0 \<le> f_key x \<Longrightarrow> nonneg x"
  by (simp add: nonneg_def)

lemma inf_facts: "f_isinf x \<Longrightarrow> \<not> f_isnan x \<and> \<not> f_isfinite x"
  by (auto simp: f_isinf_def f_isnan_def f_isfinite_def)

lemma inf_nonneg: "f_isinf x \<Longrightarrow> \<not> f_sign x \<Longrightarrow> nonneg x"
  by (auto simp: nonneg_def f_key_def f_isinf_def f_isnan_def inf_mag_def)

lemma rkey_nonneg: "0 \<le> q \<Longrightarrow> 0 \<le> rkey q"
  using rkey_mono [of 0 q] by simp

lemma nonneg_fadd: "nonneg x \<Longrightarrow> nonneg y \<Longrightarrow> nonneg (fadd x y)"
proof (elim nonneg_cases)
  assume "f_isfinite x" "0 \<le> f_val x" "f_isfinite y" "0 \<le> f_val y"
  then show ?thesis by (intro nonnegI) (simp_all add: fadd_key rkey_nonneg)
next
  assume x: "f_isfinite x" and y: "f_isinf y" "\<not> f_sign y"
  then have "fadd x y = y" using isfinite_not [OF x] inf_facts [OF y(1)] by (simp add: fadd_def)
  then show ?thesis using inf_nonneg [OF y] by simp
next
  assume x: "f_isinf x" "\<not> f_sign x" and y: "f_isfinite y"
  then have "fadd x y = x" using isfinite_not [OF y] inf_facts [OF x(1)] by (simp add: fadd_def)
  then show ?thesis using inf_nonneg [OF x] by simp
next
  assume x: "f_isinf x" "\<not> f_sign x" and y: "f_isinf y" "\<not> f_sign y"
  then have "fadd x y = x" using inf_facts [OF x(1)] inf_facts [OF y(1)] by (simp add: fadd_def)
  then show ?thesis using inf_nonneg [OF x] by simp
qed

lemma nonneg_fmul:
  assumes w: "f_isfinite w" "0 < f_val w" and x: "nonneg x"
  shows "nonneg (fmul w x)"
  using x
proof (cases rule: nonneg_cases)
  case 1
  then show ?thesis using w by (intro nonnegI) (simp_all add: fmul_key rkey_nonneg)
next
  case 2
  have "\<not> f_sign w" using w(2) f_val_sign(1) [of w] by auto
  moreover have "f_mag w \<noteq> 0" using w(2) f_val_eq_0 [of w] by auto
  ultimately have "fmul w x = f_mk False inf_mag"
    using 2 isfinite_not [OF w(1)] inf_facts [OF 2(1)] by (simp add: fmul_def Let_def)
  then show ?thesis by (intro inf_nonneg) (simp_all add: f_isinf_def)
qed

lemma nonneg_fmul_right:
  assumes w: "f_isfinite w" "0 < f_val w" and x: "nonneg x"
  shows "nonneg (fmul x w)"
  using x
proof (cases rule: nonneg_cases)
  case 1
  then show ?thesis using w by (intro nonnegI) (simp_all add: fmul_key rkey_nonneg)
next
  case 2
  have "\<not> f_sign w" using w(2) f_val_sign(1) [of w] by auto
  moreover have "f_mag w \<noteq> 0" using w(2) f_val_eq_0 [of w] by auto
  ultimately have "fmul x w = f_mk False inf_mag"
    using 2 isfinite_not [OF w(1)] inf_facts [OF 2(1)] by (simp add: fmul_def Let_def)
  then show ?thesis by (intro inf_nonneg) (simp_all add: f_isinf_def)
qed

lemma nonneg_fmax0: "nonneg (fmax 0 x)"
  by (auto simp: fmax_def flt_def nonneg_def)

lemma in_unit_nonneg: "in_unit x \<Longrightarrow> nonneg x"
  by (simp add: in_unit_def nonneg_def)

lemma in_unit_val: "in_unit x \<Longrightarrow> f_isfinite x \<and> 0 \<le> f_val x \<and> f_val x \<le> 1"
  using finite_between [of x 0 R_1] f_key_le_val [of 0 x] f_key_le_val [of x R_1] by (auto simp: in_unit_def)

lemma in_unitI: "f_isfinite x \<Longrightarrow> 0 \<le> f_val x \<Longrightarrow> f_val x \<le> 1 \<Longrightarrow> in_unit x"
  using f_key_le_val [of 0 x] f_key_le_val [of x R_1] by (auto simp: in_unit_def dest: isfinite_not)

lemma unit_share_in_unit:
  assumes "nonneg r"
  shows "in_unit (unit_share r)"
proof -
  let ?m = "fmin R_1 r"
  have m: "in_unit ?m" using assms by (auto simp: fmin_def flt_def in_unit_def nonneg_def) (code_simp)
  note v = in_unit_val [OF m]
  have k: "f_key (fsub R_1 ?m) = rkey (1 - f_val ?m)" "\<not> f_isnan (fsub R_1 ?m)" using v by (simp_all add: fsub_key)
  have "0 \<le> rkey (1 - f_val ?m)" "rkey (1 - f_val ?m) \<le> f_key R_1"
    using v rkey_mono [of "1 - f_val ?m" 1] by (simp_all add: rkey_nonneg rkey_one)
  then show ?thesis using k by (auto simp: unit_share_def fmax_def flt_def in_unit_def)
qed


section \<open>Scores\<close>

lemma fround_mono:
  assumes "f_isfinite a" and "f_isfinite b" and "0 \<le> f_val a" and "f_val a \<le> f_val b"
  shows "f_key (fround a d) \<le> f_key (fround b d)" and "0 \<le> f_key (fround a d)" and "\<not> f_isnan (fround a d)"
proof -
  have r: "f_key (fround w d) = rkey (of_int (rne (f_val w * 10 ^ d)) / 10 ^ d) \<and> \<not> f_isnan (fround w d)" if w: "f_isfinite w" "0 \<le> f_val w" for w
  proof -
    let ?q = "of_int (rne (mag_val (f_mag w) * 10 ^ d)) / 10 ^ d :: rat"
    have v: "f_val w = mag_val (f_mag w)"
      using w(2) mag_val_nonneg [OF f_mag_range(1), of w] by (auto simp: f_val_def split: if_splits)
    have q: "0 \<le> ?q" using rne_ge_int [of 0 "mag_val (f_mag w) * 10 ^ d"] mag_val_nonneg [OF f_mag_range(1), of w] by simp
    have z: "?q \<le> 0" if "f_sign w"
    proof -
      have "mag_val (f_mag w) = 0" using w(2) that v mag_val_nonneg [OF f_mag_range(1), of w] by (simp add: f_val_def)
      then show ?thesis using rne_of_int [of 0] by simp
    qed
    have "f_key (f_mk (f_sign w) (round_mag \<bar>?q\<bar>)) = rkey ?q" by (rule signed_round_key) (use q z in auto)
    then show ?thesis using w(1) unfolding abs_of_nonneg [OF q] v by (simp add: fround_def)
  qed
  have b: "0 \<le> f_val b" using assms(3,4) by linarith
  have m: "(of_int (rne (f_val a * 10 ^ d)) :: rat) / 10 ^ d \<le> of_int (rne (f_val b * 10 ^ d)) / 10 ^ d"
    using assms(4) by (intro divide_right_mono) (simp_all add: rne_mono mult_right_mono)
  show "f_key (fround a d) \<le> f_key (fround b d)" using r [OF assms(1,3)] r [OF assms(2) b] rkey_mono [OF m] by simp
  show "\<not> f_isnan (fround a d)" using r [OF assms(1,3)] by simp
  have "0 \<le> (of_int (rne (f_val a * 10 ^ d)) :: rat) / 10 ^ d" using rne_ge_int [of 0 "f_val a * 10 ^ d"] assms(3) by simp
  then show "0 \<le> f_key (fround a d)" using r [OF assms(1,3)] rkey_nonneg by simp
qed

lemma fmul_weight:
  assumes "f_isfinite w" and "0 \<le> f_val w" and "in_unit x"
  shows "f_isfinite (fmul w x)" and "0 \<le> f_val (fmul w x)" and "f_val (fmul w x) \<le> f_val w"
proof -
  note v = in_unit_val [OF assms(3)]
  have k: "f_key (fmul w x) = rkey (f_val w * f_val x)" "\<not> f_isnan (fmul w x)" using assms(1) v by (simp_all add: fmul_key)
  have "f_val w * f_val x \<le> f_val w" using assms(2) v by (simp add: mult_left_le)
  then have b: "0 \<le> f_key (fmul w x)" "f_key (fmul w x) \<le> f_key w"
    using k rkey_mono [of "f_val w * f_val x" "f_val w"] assms(1,2) v by (simp_all add: rkey_nonneg rkey_val)
  show "f_isfinite (fmul w x)" using finite_between [OF k(2), of 0 w] b assms(1) by simp
  show "0 \<le> f_val (fmul w x)" "f_val (fmul w x) \<le> f_val w" using b f_key_le_val [of 0 "fmul w x"] f_key_le_val [of "fmul w x" w] by simp_all
qed

lemma fadd_within:
  assumes "f_isfinite a" "0 \<le> f_val a" "f_val a \<le> f_val a'" "f_isfinite b" "0 \<le> f_val b" "f_val b \<le> f_val b'"
    "f_isfinite a'" "f_isfinite b'" "f_isfinite (fadd a' b')"
  shows "f_isfinite (fadd a b)" and "0 \<le> f_val (fadd a b)" and "f_val (fadd a b) \<le> f_val (fadd a' b')"
proof -
  have k: "f_key (fadd a b) = rkey (f_val a + f_val b)" "\<not> f_isnan (fadd a b)" "f_key (fadd a' b') = rkey (f_val a' + f_val b')"
    using assms by (simp_all add: fadd_key)
  have b: "0 \<le> f_key (fadd a b)" "f_key (fadd a b) \<le> f_key (fadd a' b')"
    unfolding k using assms rkey_mono [of "f_val a + f_val b" "f_val a' + f_val b'"] by (simp_all add: rkey_nonneg)
  show "f_isfinite (fadd a b)" using finite_between [OF k(2), of 0 "fadd a' b'"] b assms by simp
  show "0 \<le> f_val (fadd a b)" "f_val (fadd a b) \<le> f_val (fadd a' b')"
    using b f_key_le_val [of 0 "fadd a b"] f_key_le_val [of "fadd a b" "fadd a' b'"] by simp_all
qed

definition W2 :: f64 where "W2 = fadd WEIGHT_ACCURACY WEIGHT_COMPLETENESS"
definition W3 :: f64 where "W3 = fadd W2 WEIGHT_DEDUP"
definition W4 :: f64 where "W4 = fadd W3 WEIGHT_LATENCY"

lemma weights:
  "f_isfinite WEIGHT_ACCURACY" "0 \<le> f_val WEIGHT_ACCURACY" "f_isfinite WEIGHT_COMPLETENESS" "0 \<le> f_val WEIGHT_COMPLETENESS"
  "f_isfinite WEIGHT_DEDUP" "0 \<le> f_val WEIGHT_DEDUP" "f_isfinite WEIGHT_LATENCY" "0 \<le> f_val WEIGHT_LATENCY"
  "f_isfinite W2" "f_isfinite W3" "f_isfinite W4" "f_key (fround W4 4) = f_key R_1"
  by code_simp+

lemma weigh_in_unit:
  assumes "in_unit a" "in_unit c" "in_unit d" "in_unit l"
  shows "in_unit (weigh a c d l)"
proof -
  note wa = fmul_weight [OF weights(1,2) assms(1)] and wc = fmul_weight [OF weights(3,4) assms(2)]
    and wd = fmul_weight [OF weights(5,6) assms(3)] and wl = fmul_weight [OF weights(7,8) assms(4)]
  note s2 = fadd_within [OF wa wc weights(1,3) weights(9) [unfolded W2_def], folded W2_def]
  note s3 = fadd_within [OF s2 wd weights(9,5) weights(10) [unfolded W3_def], folded W3_def]
  note s4 = fadd_within [OF s3 wl weights(10,7) weights(11) [unfolded W4_def], folded W4_def]
  show ?thesis
    using fround_mono [OF s4(1) weights(11) s4(2,3), of 4] weights(12) by (simp add: weigh_def in_unit_def)
qed

lemma inverse_in_unit:
  assumes "nonneg y"
  obtains z where "fdiv R_1 (fadd R_1 y) = Inr z" and "in_unit z"
  using assms
proof (cases rule: nonneg_cases)
  case 1
  let ?d = "fadd R_1 y"
  have k: "f_key ?d = rkey (1 + f_val y)" "\<not> f_isnan ?d" using 1 by (simp_all add: fadd_key)
  have ge: "f_key R_1 \<le> f_key ?d" using k(1) 1 rkey_mono [of 1 "1 + f_val y"] by (simp add: rkey_one)
  show thesis
  proof (cases "f_isfinite ?d")
    case True
    have v: "1 \<le> f_val ?d" using ge f_key_le_val [of R_1 ?d] by simp
    obtain z where z: "fdiv R_1 ?d = Inr z" "f_key z = rkey (1 / f_val ?d)" "\<not> f_isnan z"
      using fdiv_key [of R_1 ?d] True v by auto
    have "0 \<le> 1 / f_val ?d" "1 / f_val ?d \<le> 1" using v by simp_all
    then have "in_unit z" using z rkey_mono [of "1 / f_val ?d" 1] by (simp add: in_unit_def rkey_nonneg rkey_one)
    then show thesis using that z(1) by blast
  next
    case False
    then have i: "f_isinf ?d" using k(2) isnan_cases [of ?d] by blast
    then have "f_mag ?d \<noteq> 0" by (auto simp: f_isinf_def inf_mag_def)
    then have "\<exists>s. fdiv R_1 ?d = Inr (f_mk s 0)" using i k(2) isfinite_not [of R_1] by (auto simp: fdiv_def Let_def)
    then obtain s where "fdiv R_1 ?d = Inr (f_mk s 0)" ..
    moreover have "in_unit (f_mk s 0)" by (cases s) (simp_all add: in_unit_def f_key_def, code_simp+)
    ultimately show thesis using that by blast
  qed
next
  case 2
  have y: "fadd R_1 y = y" using 2 inf_facts [OF 2(1)] isfinite_not [of R_1] by (simp add: fadd_def)
  have "f_mag y \<noteq> 0" using 2 by (auto simp: f_isinf_def inf_mag_def)
  then have "\<exists>s. fdiv R_1 y = Inr (f_mk s 0)" using 2 inf_facts [OF 2(1)] isfinite_not [of R_1] by (auto simp: fdiv_def Let_def)
  then obtain s where "fdiv R_1 (fadd R_1 y) = Inr (f_mk s 0)" unfolding y ..
  moreover have "in_unit (f_mk s 0)" by (cases s) (simp_all add: in_unit_def f_key_def, code_simp+)
  ultimately show thesis using that by blast
qed


section \<open>The tracker\<close>

definition stats_ok :: "source_stats \<Rightarrow> bool" where
  "stats_ok s = (nonneg (ss_latency s) \<and> nonneg (ss_error_rate s) \<and> nonneg (ss_gap_rate s) \<and> nonneg (ss_dup_rate s))"

definition weights_ok :: "f64 \<Rightarrow> bool" where
  "weights_ok a = (f_isfinite a \<and> 0 < f_val a \<and> f_isfinite (fsub R_1 a) \<and> 0 < f_val (fsub R_1 a))"

lemma ewma_nonneg: "weights_ok a \<Longrightarrow> nonneg x \<Longrightarrow> nonneg y \<Longrightarrow> nonneg (ewma a x y)"
  unfolding ewma_def weights_ok_def by (intro nonneg_fadd nonneg_fmul) simp_all

lemma flag01_nonneg: "nonneg (flag01 b)"
  by (cases b) (simp_all add: flag01_def nonneg_def, code_simp)

lemma note_event_ok: "weights_ok a \<Longrightarrow> stats_ok s \<Longrightarrow> stats_ok (note_event a ev s)"
  by (simp add: stats_ok_def note_event_def Let_def ewma_nonneg flag01_nonneg nonneg_fmax0)

lemma score_ok:
  assumes "stats_ok s"
  shows "\<exists>x. score s = Inr x \<and> in_unit x"
proof -
  have h: "f_isfinite R_100" "0 < f_val R_100" by code_simp+
  have "nonneg (fmul (ss_latency s) R_100)" using assms by (intro nonneg_fmul_right [OF h]) (simp add: stats_ok_def)
  then obtain z where z: "fdiv R_1 (fadd R_1 (fmul (ss_latency s) R_100)) = Inr z" "in_unit z" by (rule inverse_in_unit)
  have "in_unit R_1" by (rule in_unitI) simp_all
  then show ?thesis using z assms weigh_in_unit unit_share_in_unit by (auto simp: score_def stats_ok_def)
qed

definition tracker_ok :: "tracker \<Rightarrow> bool" where
  "tracker_ok t = ((\<forall>s. case dget (tr_stats t) s of None \<Rightarrow> True | Some x \<Rightarrow> stats_ok x)
     \<and> (\<forall>s. case dget (tr_scores t) s of None \<Rightarrow> True | Some x \<Rightarrow> in_unit x))"

lemma tracker_observe_ok:
  assumes "weights_ok (rf_alpha (tr_cfg t))" and "tracker_ok t"
  shows "tracker_ok (fst (tracker_observe ev t)) \<and> snd (tracker_observe ev t) = Inr () \<and> tr_cfg (fst (tracker_observe ev t)) = tr_cfg t"
proof -
  let ?s = "note_event (rf_alpha (tr_cfg t)) ev (dgetd (tr_stats t) (source ev) new_stats)"
  have n: "stats_ok new_stats" by (simp add: stats_ok_def new_stats_def nonneg_def)
  have "stats_ok (dgetd (tr_stats t) (source ev) new_stats)"
    using assms(2) n unfolding tracker_ok_def dgetd_def by (auto split: option.splits)
  then have s: "stats_ok ?s" by (rule note_event_ok [OF assms(1)])
  obtain x where x: "score ?s = Inr x" "in_unit x" using score_ok [OF s] by blast
  show ?thesis using assms(2) s x by (simp add: tracker_observe_def Let_def tracker_ok_def dict_simps split: option.split)
qed

text \<open>
  C31: reliability scores are well defined and normalised.  When both smoothing weights are positive, observing events never raises,
  whatever their statuses, reasons and times (infinite and NaN times included), and every score in the cache is a number between
  0 and 1.
\<close>

theorem reliability_scores_are_normalised:
  assumes "f_isfinite (rf_alpha cfg)" and "0 < f_val (rf_alpha cfg)" and "f_isfinite (fsub R_1 (rf_alpha cfg))" and "0 < f_val (fsub R_1 (rf_alpha cfg))"
    and "t = foldl (\<lambda>t ev. fst (tracker_observe ev t)) (tracker_init cfg) evs"
  shows "snd (tracker_observe ev t) = Inr () \<and> (dget (tr_scores t) src = Some x \<longrightarrow> \<not> f_isnan x \<and> fle 0 x \<and> fle x R_1)"
proof -
  have w: "weights_ok (rf_alpha cfg)" using assms(1-4) by (simp add: weights_ok_def)
  have "tracker_ok (foldl (\<lambda>t ev. fst (tracker_observe ev t)) t0 evs) \<and> tr_cfg (foldl (\<lambda>t ev. fst (tracker_observe ev t)) t0 evs) = cfg"
    if "tracker_ok t0" "tr_cfg t0 = cfg" for t0
    using that w tracker_observe_ok by (induction evs arbitrary: t0) simp_all
  then have t: "tracker_ok t" "tr_cfg t = cfg" unfolding assms(5) by (simp_all add: tracker_ok_def tracker_init_def)
  have u: "dget (tr_scores t) src = Some x \<longrightarrow> in_unit x"
  proof
    assume "dget (tr_scores t) src = Some x"
    then show "in_unit x" using t(1) unfolding tracker_ok_def by (metis option.simps(5))
  qed
  then show ?thesis using tracker_observe_ok [of t ev] t w by (auto simp: in_unit_def fle_def)
qed


definition demo_rel :: rel_config where
  "demo_rel = \<lparr>rf_alpha = 0x3F947AE147AE147B, rf_threshold = 0x3F747AE147AE147B, rf_window = 0x4014000000000000\<rparr>"

definition demo_trade :: "string \<Rightarrow> quality_status \<Rightarrow> f64 \<Rightarrow> cevent" where
  "demo_trade src st p = \<lparr>event_id = ''e'' @ src, instrument_id = ''I'', event_type = TRADE, exchange_timestamp = 0x4059000000000000,
     receive_timestamp = 0x4059000000000000, source = src, sequence_number = None, price = Some p, quantity = None, bid_price = None,
     bid_size = None, ask_price = None, ask_size = None, quality_status = st, reasons = [], session_id = None, venue = ''V''\<rparr>"

lemma demo_weights:
  "f_isfinite (rf_alpha demo_rel)" "0 < f_val (rf_alpha demo_rel)" "f_isfinite (fsub R_1 (rf_alpha demo_rel))" "0 < f_val (fsub R_1 (rf_alpha demo_rel))"
  by code_simp+

theorem reliability_scores_are_normalised_witness:
  "snd (tracker_observe (demo_trade ''A'' VALID R_100) (foldl (\<lambda>t ev. fst (tracker_observe ev t)) (tracker_init demo_rel)
     [demo_trade ''A'' SUSPICIOUS R_100])) = Inr ()"
  using reliability_scores_are_normalised [OF demo_weights refl] by blast

end
