(* ===== verification/Reconcile_Choice.thy ===== *)
theory Reconcile_Choice
  imports Reconcile_Props
begin

text \<open>
  Which observation becomes canonical.  A reconciler that has lived through any sequence of events, blocks and unblocks answers with the
  most reliable of the feeds that may compete, and says nothing when fewer than two may; it never raises.  The median strategy takes an
  observation with at most half of the prices below it and at most half above it.
\<close>

section \<open>The candidates that compete\<close>

lemma recent_eq:
  assumes "dwf cs"
  shows "recent_items cs window blocked now =
    map (\<lambda>src. (src, fst (the (dget cs src)), the (price (fst (the (dget cs src))))))
      (filter (\<lambda>src. usable window blocked now (the (dget cs src)) src) (sort (dkeys cs)))"
proof -
  have k: "\<exists>c. dget cs src = Some c" if "src \<in> set (sort (dkeys cs))" for src
    using that by (metis domIff dom_map_of_conv_image_fst image_set set_sort not_None_eq)
  have "concat (map (\<lambda>src. concat (map (\<lambda>c. if usable window blocked now c src then [(src, fst c, the (price (fst c)))] else [])
        (case dget cs src of None \<Rightarrow> [] | Some c \<Rightarrow> [c]))) ks)
      = map (\<lambda>src. (src, fst (the (dget cs src)), the (price (fst (the (dget cs src))))))
          (filter (\<lambda>src. usable window blocked now (the (dget cs src)) src) ks)" if "\<forall>src \<in> set ks. \<exists>c. dget cs src = Some c" for ks
    using that by (induction ks) auto
  then show ?thesis using k by (simp add: recent_items_def)
qed

lemma recent_sources:
  assumes "dwf cs"
  shows "sorted (map fst (recent_items cs window blocked now))" and "distinct (map fst (recent_items cs window blocked now))"
    and "set (map fst (recent_items cs window blocked now)) = {src. \<exists>c. dget cs src = Some c \<and> usable window blocked now c src}"
    and "(src, ev, p) \<in> set (recent_items cs window blocked now) \<Longrightarrow> \<exists>ts. dget cs src = Some (ev, ts) \<and> price ev = Some p"
proof -
  note r = recent_eq [OF assms, of window blocked now]
  let ?ks = "filter (\<lambda>src. usable window blocked now (the (dget cs src)) src) (sort (dkeys cs))"
  have m: "map fst (recent_items cs window blocked now) = ?ks" unfolding r by (simp add: comp_def)
  show "sorted (map fst (recent_items cs window blocked now))" unfolding m by (rule sorted_wrt_filter) simp
  show "distinct (map fst (recent_items cs window blocked now))" unfolding m using assms by (simp add: dwf_def)
  have d: "src \<in> fst ` set cs \<longleftrightarrow> (\<exists>c. dget cs src = Some c)" for src
    by (metis domIff dom_map_of_conv_image_fst not_None_eq)
  show "set (map fst (recent_items cs window blocked now)) = {src. \<exists>c. dget cs src = Some c \<and> usable window blocked now c src}"
    unfolding m by (auto simp: d [simplified] image_iff [symmetric])
  assume "(src, ev, p) \<in> set (recent_items cs window blocked now)"
  then have s: "src \<in> fst ` set cs" "ev = fst (the (dget cs src))" "p = the (price ev)" "usable window blocked now (the (dget cs src)) src"
    unfolding r by auto
  then obtain c where "dget cs src = Some c" using d by blast
  then show "\<exists>ts. dget cs src = Some (ev, ts) \<and> price ev = Some p" using s by (cases c) (auto simp: usable_def)
qed

section \<open>Picking by reliability\<close>

definition beats :: "(string, f64) dict \<Rightarrow> string \<Rightarrow> string \<Rightarrow> bool" where
  "beats scores a b = (flt (dgetd scores b 0) (dgetd scores a 0) \<or> (feq (dgetd scores a 0) (dgetd scores b 0) \<and> a \<le> b))"

lemma beats_trans: "beats scores a b \<Longrightarrow> beats scores b c \<Longrightarrow> beats scores a c"
  unfolding beats_def flt_def feq_def by auto

lemma pick_best:
  assumes "\<forall>s. \<not> f_isnan (dgetd scores s 0)" and "sorted (c # map fst rs)" and "distinct (c # map fst rs)" and "c \<noteq> []" and "[] \<notin> fst ` set rs"
  shows "\<exists>c' ev'. pick_source scores rs (dgetd scores c 0, c, Some ev) = (dgetd scores c' 0, c', Some ev')
     \<and> (c' = c \<and> ev' = ev \<or> (\<exists>p. (c', ev', p) \<in> set rs)) \<and> beats scores c' c \<and> (\<forall>x \<in> set rs. beats scores c' (fst x))"
  using assms
proof (induction rs arbitrary: c ev)
  case Nil
  then show ?case by (simp add: beats_def feq_def)
next
  case (Cons r rs)
  obtain s e p where r: "r = (s, e, p)" by (cases r)
  have cs: "c < s" using Cons.prems(2,3) r by auto
  show ?case
  proof (cases "flt (dgetd scores c 0) (dgetd scores s 0)")
    case True
    then have t: "takes_lead (dgetd scores s 0) s (dgetd scores c 0) c" by (simp add: takes_lead_def)
    obtain c' ev' where ih: "pick_source scores rs (dgetd scores s 0, s, Some e) = (dgetd scores c' 0, c', Some ev')"
       "c' = s \<and> ev' = e \<or> (\<exists>p. (c', ev', p) \<in> set rs)" "beats scores c' s" "\<forall>x \<in> set rs. beats scores c' (fst x)"
      using Cons.IH [of s e] Cons.prems r by auto
    have "beats scores c' c" using beats_trans [OF ih(3), of c] True by (simp add: beats_def)
    then show ?thesis using ih t r by auto
  next
    case False
    then have t: "\<not> takes_lead (dgetd scores s 0) s (dgetd scores c 0) c" using cs Cons.prems(4) by (auto simp: takes_lead_def)
    obtain c' ev' where ih: "pick_source scores rs (dgetd scores c 0, c, Some ev) = (dgetd scores c' 0, c', Some ev')"
       "c' = c \<and> ev' = ev \<or> (\<exists>p. (c', ev', p) \<in> set rs)" "beats scores c' c" "\<forall>x \<in> set rs. beats scores c' (fst x)"
      using Cons.IH [of c ev] Cons.prems r by auto
    have "beats scores c s" using False Cons.prems(1) cs by (auto simp: beats_def flt_def feq_def)
    then have "beats scores c' s" using beats_trans [OF ih(3)] by blast
    then show ?thesis using ih t r by auto
  qed
qed

lemma pick_all:
  assumes "\<forall>s. in_unit (dgetd scores s 0)" and "sorted (map fst rs)" and "distinct (map fst rs)" and "[] \<notin> fst ` set rs" and "rs \<noteq> []"
  obtains c ev p where "pick_source scores rs (R_MINUS_1, [], None) = (dgetd scores c 0, c, Some ev)" and "(c, ev, p) \<in> set rs"
    and "\<forall>x \<in> set rs. beats scores c (fst x)"
proof -
  obtain s e p rs' where r: "rs = (s, e, p) # rs'" using assms(5) by (cases rs) auto
  have neg: "\<not> f_isnan R_MINUS_1 \<and> f_key R_MINUS_1 < 0" by code_simp
  have n: "\<forall>s. \<not> f_isnan (dgetd scores s 0)" using assms(1) by (simp add: in_unit_def)
  have "0 \<le> f_key (dgetd scores s 0)" using assms(1) by (simp add: in_unit_def)
  then have t: "takes_lead (dgetd scores s 0) s R_MINUS_1 []" using neg n by (auto simp: takes_lead_def flt_def)
  obtain c ev where p: "pick_source scores rs' (dgetd scores s 0, s, Some e) = (dgetd scores c 0, c, Some ev)"
       "c = s \<and> ev = e \<or> (\<exists>p. (c, ev, p) \<in> set rs')" "beats scores c s" "\<forall>x \<in> set rs'. beats scores c (fst x)"
    using pick_best [OF n, of s rs' e] assms(2-4) r by auto
  have "pick_source scores rs (R_MINUS_1, [], None) = (dgetd scores c 0, c, Some ev)" using t p(1) r by simp
  then show thesis using that p(2-4) r by auto
qed

section \<open>No strategy raises\<close>

lemma any_off_total: "flt 0 centre \<Longrightarrow> \<exists>b. any_off thr centre ps = Inr b"
proof (induction ps)
  case (Cons p ps)
  have "0 < f_key centre" using Cons.prems by (simp add: flt_def)
  then have "f_mag centre \<noteq> 0" by (auto simp: f_key_def split: if_splits)
  then have "\<exists>d. fdiv (fabs (fsub p centre)) centre = Inr d" by (auto simp: fdiv_def Let_def)
  then show ?case using Cons by auto
qed (simp, blast)

lemma disagrees_total: "\<exists>b. disagrees thr centre ps = Inr b"
  using any_off_total by (auto simp: disagrees_def)


lemma fdiv_nat_total:
  assumes "0 < n" and "n \<le> 2 ^ 62"
  shows "\<exists>x. fdiv_nat y n = Inr x"
proof -
  have c: "0 < round_mag 1" "round_mag (2 ^ 62) < inf_mag" by code_simp+
  have "(of_nat n :: rat) \<le> of_nat (2 ^ 62)" using assms(2) by (rule of_nat_mono)
  then have "round_mag (of_nat n) \<le> round_mag (2 ^ 62)" by (intro round_mag_mono) simp
  moreover have "round_mag 1 \<le> round_mag (of_nat n)" using assms(1) by (intro round_mag_mono) simp
  ultimately have r: "0 < round_mag (of_nat n)" "round_mag (of_nat n) < inf_mag" using c by linarith+
  then have "f_of_int (int n) = Inr (f_mk False (round_mag (of_nat n)))" by (simp add: f_of_int_def Let_def)
  moreover have "f_mag (f_mk False (round_mag (of_nat n))) \<noteq> 0" using r by simp
  ultimately show ?thesis by (auto simp: fdiv_nat_def fdiv_def Let_def)
qed

section \<open>Reachable reconcilers\<close>

datatype rec_op = Observe cevent | Reconciled cevent | Block string | Unblock string

fun rec_run :: "rec_op list \<Rightarrow> reconciler \<Rightarrow> reconciler" where
  "rec_run [] r = r"
| "rec_run (Observe ev # ops) r = rec_run ops (r\<lparr>rc_tracker := fst (tracker_observe ev (rc_tracker r))\<rparr>)"
| "rec_run (Reconciled ev # ops) r = rec_run ops (fst (reconcile ev r))"
| "rec_run (Block s # ops) r = rec_run ops (rec_block s r)"
| "rec_run (Unblock s # ops) r = rec_run ops (rec_unblock s r)"

definition rec_ok :: "rel_config \<Rightarrow> int \<Rightarrow> strategy \<Rightarrow> reconciler \<Rightarrow> bool" where
  "rec_ok cfg mx st r = (rc_cfg r = cfg \<and> rc_max r = mx \<and> rc_strategy r = st \<and> tr_cfg (rc_tracker r) = cfg \<and> tracker_ok (rc_tracker r)
     \<and> dwf (rc_latest r) \<and> int (length (rc_latest r)) \<le> mx \<and> (\<forall>(i, cs) \<in> set (rc_latest r). dwf cs))"

lemma open_instrument_ok:
  assumes "rec_ok cfg mx st r" and "0 < mx"
  obtains rest c where "open_instrument i r = Inr (rest, c)" and "dwf rest" and "dwf c" and "i \<notin> fst ` set rest" and "int (length rest) < mx"
    and "set rest \<subseteq> set (rc_latest r)" and "c = (case dget (rc_latest r) i of None \<Rightarrow> [] | Some c \<Rightarrow> c)"
proof (cases "dget (rc_latest r) i")
  case (Some c)
  then have m: "(i, c) \<in> set (rc_latest r)" by (rule map_of_SomeD)
  then have d: "din i (rc_latest r)" by (force simp: din_iff)
  have "length (ddel (rc_latest r) i) < length (rc_latest r)"
    using length_ddel [of "rc_latest r" i] assms(1) d length_pos_if_in_set [OF m] by (simp add: rec_ok_def)
  moreover have "set (ddel (rc_latest r) i) \<subseteq> set (rc_latest r)" by (auto simp: AList.delete_eq)
  moreover have "i \<notin> fst ` set (ddel (rc_latest r) i)" by (auto simp: AList.delete_eq)
  moreover have "int (length (rc_latest r)) \<le> mx" "dwf (rc_latest r)" "dwf c" using assms(1) m by (auto simp: rec_ok_def)
  ultimately show thesis using Some by (intro that [of "ddel (rc_latest r) i" c]) (simp_all add: open_instrument_def)
next
  case None
  then have n: "i \<notin> fst ` set (rc_latest r)" by (simp add: map_of_eq_None_iff)
  show thesis
  proof (cases "int (length (rc_latest r)) \<ge> mx")
    case True
    then obtain x rest where x: "rc_latest r = x # rest" using assms(2) by (cases "rc_latest r") auto
    then show thesis using that [of rest "[]"] None n True assms by (simp add: open_instrument_def rec_ok_def dwf_def subset_insertI)
  next
    case False
    then show thesis using that [of "rc_latest r" "[]"] None n assms by (auto simp: open_instrument_def rec_ok_def)
  qed
qed

lemma reconcile_ok:
  assumes "rec_ok cfg mx st r" and "0 < mx"
  shows "rec_ok cfg mx st (fst (reconcile ev r))"
proof (cases "quality_status ev = INVALID \<or> price ev = None")
  case True
  then show ?thesis using assms by (simp add: reconcile_def)
next
  case False
  obtain rest c where o: "open_instrument (instrument_id ev) r = Inr (rest, c)" "dwf rest" "dwf c" "instrument_id ev \<notin> fst ` set rest"
    "int (length rest) < mx" "set rest \<subseteq> set (rc_latest r)"
    using open_instrument_ok [OF assms, of "instrument_id ev"] by metis
  have "\<forall>(i, cs) \<in> set rest. dwf cs" using o(6) assms(1) by (auto simp: rec_ok_def)
  then show ?thesis using o False assms(1) by (auto simp: reconcile_def Let_def rec_ok_def dwf_def distinct_update)
qed

lemma rec_run_ok:
  assumes "weights_ok (rf_alpha cfg)" and "0 < mx" and "rec_ok cfg mx st r"
  shows "rec_ok cfg mx st (rec_run ops r)"
  using assms(3)
proof (induction ops r rule: rec_run.induct)
  case (2 ev ops r)
  then show ?case using assms(1) tracker_observe_ok [of "rc_tracker r" ev] by (simp add: rec_ok_def)
next
  case (3 ev ops r)
  then show ?case using reconcile_ok assms(2) by simp
qed (simp_all add: rec_ok_def rec_block_def rec_unblock_def)

lemma reconciler_init_ok: "0 < mx \<Longrightarrow> rec_ok cfg mx st (reconciler_init cfg mx st)"
  by (simp add: rec_ok_def reconciler_init_def tracker_init_def tracker_ok_def)

lemma rec_ok_scores: "rec_ok cfg mx st r \<Longrightarrow> in_unit (dgetd (tr_scores (rc_tracker r)) s 0)"
proof -
  have z: "in_unit 0" by code_simp
  assume "rec_ok cfg mx st r"
  then have "case dget (tr_scores (rc_tracker r)) s of None \<Rightarrow> True | Some x \<Rightarrow> in_unit x" by (simp add: rec_ok_def tracker_ok_def)
  then show ?thesis using z by (auto simp: dgetd_def split: option.splits)
qed


section \<open>The canonical choice\<close>

lemma select_highest_spec:
  assumes "dwf cs" and "\<forall>s. in_unit (dgetd scores s 0)" and "[] \<notin> fst ` set cs" and "length cs \<le> 2 ^ 62"
    and "W = {src. \<exists>c. dget cs src = Some c \<and> usable window blocked now c src}"
  shows "if 2 \<le> card W
    then \<exists>d ts ev. select_highest inst cs scores window thr blocked now = Inr (Some d) \<and> set (cd_competing d) = W \<and> cd_chosen_source d \<in> W
      \<and> dget cs (cd_chosen_source d) = Some (ev, ts) \<and> cd_chosen_event_id d = event_id ev \<and> cd_instrument d = inst
      \<and> (\<forall>s \<in> W. beats scores (cd_chosen_source d) s)
    else select_highest inst cs scores window thr blocked now = Inr None"
proof -
  let ?rs = "recent_items cs window blocked now"
  note r = recent_sources [OF assms(1), where window = window and blocked = blocked and now = now]
  have W: "set (map fst ?rs) = W" using r(3) assms(5) by simp
  have n: "card W = length ?rs" unfolding W [symmetric] using distinct_card [OF r(2)] by simp
  have "length ?rs \<le> length cs" unfolding recent_eq [OF assms(1)] using length_filter_le [of _ "sort (dkeys cs)"] by simp
  then have le: "length ?rs \<le> 2 ^ 62" using assms(4) by linarith
  have ne: "[] \<notin> fst ` set ?rs" using r(3) assms(3) by (auto simp: map_of_SomeD intro: rev_image_eqI dest!: map_of_SomeD)
  show ?thesis
  proof (cases "?rs = []")
    case True
    then show ?thesis using n by (simp add: select_highest_def)
  next
    case False
    obtain c ev p where p: "pick_source scores ?rs (R_MINUS_1, [], None) = (dgetd scores c 0, c, Some ev)" "(c, ev, p) \<in> set ?rs"
      "\<forall>x \<in> set ?rs. beats scores c (fst x)"
      using pick_all [OF assms(2) r(1,2) ne False] by metis
    obtain ts where ts: "dget cs c = Some (ev, ts)" using r(4) [OF p(2)] by blast
    have b: "\<forall>s \<in> W. beats scores c s" unfolding W [symmetric] using p(3) by auto
    have c: "c \<in> W" unfolding W [symmetric] using p(2) by force
    obtain m where m: "fdiv_nat (foldl fadd 0 (map (\<lambda>(_, _, p). p) ?rs)) (length ?rs) = Inr m"
      using fdiv_nat_total [of "length ?rs"] False le by auto
    obtain off where off: "disagrees thr m (map (\<lambda>(_, _, p). p) ?rs) = Inr off" using disagrees_total by blast
    show ?thesis
    proof (cases "2 \<le> card W")
      case True
      then have "select_highest inst cs scores window thr blocked now = Inr (Some (conclude inst cs now (map fst ?rs) c ev off))"
        using p(1) m off n by (simp add: select_highest_def)
      then show ?thesis using True ts b c W by (auto simp: conclude_def Let_def)
    next
      case False
      then show ?thesis using p(1) n by (simp add: select_highest_def)
    qed
  qed
qed


definition candidates_after :: "cevent \<Rightarrow> reconciler \<Rightarrow> candidates" where
  "candidates_after ev r = dset (case dget (rc_latest r) (instrument_id ev) of None \<Rightarrow> [] | Some c \<Rightarrow> c) (source ev) (ev, exchange_timestamp ev)"

text \<open>
  The feeds that compete, stated over the stored observations and not by the code's filter: the feed has an observation with a price, it is
  not blocked, and the time of the observation is not further from the time of the event than the window.
\<close>

definition competitors :: "cevent \<Rightarrow> reconciler \<Rightarrow> string set" where
  "competitors ev r = {src. \<exists>stored p ts. dget (candidates_after ev r) src = Some (stored, ts) \<and> price stored = Some p
     \<and> src \<notin> set (rc_blocked r) \<and> \<not> flt (rf_window (rc_cfg r)) (fabs (fsub (exchange_timestamp ev) ts))}"

lemma competitors_usable:
  "competitors ev r = {src. \<exists>c. dget (candidates_after ev r) src = Some c
     \<and> usable (rf_window (rc_cfg r)) (rc_blocked r) (Some (exchange_timestamp ev)) c src}"
  by (auto simp: competitors_def usable_def)

text \<open>The feeds that are blocked after a sequence of operations.\<close>

fun blocked_after :: "rec_op list \<Rightarrow> string set \<Rightarrow> string set" where
  "blocked_after [] B = B"
| "blocked_after (Block s # ops) B = blocked_after ops (insert s B)"
| "blocked_after (Unblock s # ops) B = blocked_after ops (B - {s})"
| "blocked_after (_ # ops) B = blocked_after ops B"

lemma reconcile_keeps_blocked: "rc_blocked (fst (reconcile ev r)) = rc_blocked r"
  by (auto simp: reconcile_def Let_def split: sum.split)

lemma rec_run_blocked: "set (rc_blocked (rec_run ops r)) = blocked_after ops (set (rc_blocked r))"
  by (induction ops r rule: rec_run.induct) (auto simp: reconcile_keeps_blocked rec_block_def rec_unblock_def)

lemma reconcile_selects:
  assumes "rec_ok cfg mx st r" and "0 < mx" and "quality_status ev \<noteq> INVALID" and "price ev \<noteq> None"
  shows "dwf (candidates_after ev r)"
    and "snd (reconcile ev r) = (if length (candidates_after ev r) < 2 then Inr None
          else select st (instrument_id ev) (candidates_after ev r) (tr_scores (rc_tracker r)) (rf_window cfg) (rf_threshold cfg) (rc_blocked r)
                 (Some (exchange_timestamp ev)))"
    and "dget (rc_latest (fst (reconcile ev r))) (instrument_id ev) = Some (candidates_after ev r)"
proof -
  obtain rest c where o: "open_instrument (instrument_id ev) r = Inr (rest, c)" "dwf c" "instrument_id ev \<notin> fst ` set rest"
    "c = (case dget (rc_latest r) (instrument_id ev) of None \<Rightarrow> [] | Some c \<Rightarrow> c)"
    using open_instrument_ok [OF assms(1,2), of "instrument_id ev"] by metis
  have c: "candidates_after ev r = dset c (source ev) (ev, exchange_timestamp ev)" using o(4) by (simp add: candidates_after_def)
  show "dwf (candidates_after ev r)" using c o(2) by simp
  have d: "dget (rest @ [(instrument_id ev, x)]) (instrument_id ev) = Some x" for x
    using map_of_eq_None_iff [of rest "instrument_id ev"] o(3) by (simp add: map_add_def)
  show "snd (reconcile ev r) = (if length (candidates_after ev r) < 2 then Inr None
          else select st (instrument_id ev) (candidates_after ev r) (tr_scores (rc_tracker r)) (rf_window cfg) (rf_threshold cfg) (rc_blocked r)
                 (Some (exchange_timestamp ev)))"
    "dget (rc_latest (fst (reconcile ev r))) (instrument_id ev) = Some (candidates_after ev r)"
    using assms(1,3,4) o(1) c d by (auto simp: reconcile_def Let_def rec_ok_def)
qed

lemma competitors_card: "dwf (candidates_after ev r) \<Longrightarrow> card (competitors ev r) \<le> length (candidates_after ev r)"
proof -
  assume "dwf (candidates_after ev r)"
  have "competitors ev r \<subseteq> fst ` set (candidates_after ev r)" by (force simp: competitors_def dest: map_of_SomeD)
  then have "card (competitors ev r) \<le> card (fst ` set (candidates_after ev r))" by (intro card_mono) simp_all
  then show ?thesis using card_image_le [of "set (candidates_after ev r)" fst] card_length [of "candidates_after ev r"] by simp
qed

text \<open>
  C19: the canonical observation comes from a most reliable competitor.  After any sequence of observed events, reconciled events, blocks
  and unblocks, a priced event that is not INVALID is answered without an exception: with nothing when fewer than two feeds compete
  (observed inside the window, not blocked and priced), and otherwise with a decision over exactly the competing feeds that names the
  stored event of one of them, whose feed has not been blocked since it was last unblocked; no competitor has a higher score, nor an
  equal score and an earlier name.  It is assumed that no feed has an empty name, for which the tie rule of the code fails.
\<close>

theorem canonical_source_is_most_reliable:
  assumes "f_isfinite (rf_alpha cfg)" and "0 < f_val (rf_alpha cfg)" and "f_isfinite (fsub R_1 (rf_alpha cfg))" and "0 < f_val (fsub R_1 (rf_alpha cfg))"
    and "0 < mx" and "r = rec_run ops (reconciler_init cfg mx HighestReliability)" and "quality_status ev \<noteq> INVALID" and "price ev \<noteq> None"
    and "[] \<notin> set (dkeys (candidates_after ev r))" and "length (candidates_after ev r) \<le> 2 ^ 62"
  shows "if 2 \<le> card (competitors ev r)
    then \<exists>d chosen ts. snd (reconcile ev r) = Inr (Some d) \<and> set (cd_competing d) = competitors ev r \<and> cd_chosen_source d \<in> competitors ev r
      \<and> dget (candidates_after ev r) (cd_chosen_source d) = Some (chosen, ts) \<and> cd_chosen_event_id d = event_id chosen
      \<and> cd_chosen_source d \<notin> blocked_after ops {}
      \<and> (\<forall>s \<in> competitors ev r. beats (tr_scores (rc_tracker r)) (cd_chosen_source d) s)
    else snd (reconcile ev r) = Inr None"
proof -
  have "weights_ok (rf_alpha cfg)" using assms(1-4) by (simp add: weights_ok_def)
  then have ok: "rec_ok cfg mx HighestReliability r" unfolding assms(6) using rec_run_ok reconciler_init_ok assms(5) by blast
  note s = reconcile_selects [OF ok assms(5,7,8)]
  have cfg: "rc_cfg r = cfg" using ok by (simp add: rec_ok_def)
  have e: "[] \<notin> fst ` set (candidates_after ev r)" using assms(9) by simp
  have bl: "competitors ev r \<inter> blocked_after ops {} = {}"
    using rec_run_blocked [of ops "reconciler_init cfg mx HighestReliability"] assms(6)
    by (auto simp: competitors_def reconciler_init_def)
  note spec = select_highest_spec [OF s(1) allI [OF rec_ok_scores [OF ok]] e assms(10) competitors_usable [of ev r, unfolded cfg],
      of "instrument_id ev" "rf_threshold cfg"]
  show ?thesis
  proof (cases "2 \<le> card (competitors ev r)")
    case True
    then have "snd (reconcile ev r) = select_highest (instrument_id ev) (candidates_after ev r) (tr_scores (rc_tracker r)) (rf_window cfg)
        (rf_threshold cfg) (rc_blocked r) (Some (exchange_timestamp ev))"
      using s(2) competitors_card [OF s(1)] by (simp add: select_def)
    then show ?thesis using spec True bl by auto
  next
    case False
    then show ?thesis using spec s(2) by (simp add: select_def)
  qed
qed

section \<open>The median\<close>

lemma sorted_split:
  assumes "sorted xs" and "i < length xs"
  shows "length (filter (\<lambda>x. x < xs ! i) xs) \<le> i" and "length (filter (\<lambda>x. xs ! i < x) xs) \<le> length xs - 1 - i"
proof -
  have "{j. j < length xs \<and> xs ! j < xs ! i} \<subseteq> {..<i}" using assms sorted_nth_mono [of xs i] by (force simp: not_le [symmetric])
  then show "length (filter (\<lambda>x. x < xs ! i) xs) \<le> i" using card_mono [of "{..<i}"] by (simp add: length_filter_conv_card)
  have "{j. j < length xs \<and> xs ! i < xs ! j} \<subseteq> {i<..<length xs}" using assms sorted_nth_mono [of xs _ i] by (force simp: not_le [symmetric])
  then show "length (filter (\<lambda>x. xs ! i < x) xs) \<le> length xs - 1 - i" using card_mono [of "{i<..<length xs}"] by (simp add: length_filter_conv_card)
qed

lemma median_index_range:
  assumes "items \<noteq> []"
  obtains i m where "median_index scores items = Inr (i, m)" and "i < length items" and "2 * i \<le> length items" and "length items \<le> 2 * i + 2"
proof -
  let ?n = "length items"
  have "f_mag R_2 \<noteq> 0" by code_simp
  then have "\<exists>m. fdiv x R_2 = Inr m" for x by (auto simp: fdiv_def Let_def)
  then obtain m where m: "fdiv (fadd (snd (snd (items ! (?n div 2 - 1)))) (snd (snd (items ! (?n div 2))))) R_2 = Inr m" by blast
  show thesis
  proof (cases "?n mod 2 = 1")
    case True
    then obtain k where k: "?n = 2 * k + 1" by (metis mod_eq_self_iff_div_eq_0 mult_div_mod_eq)
    have "median_index scores items = Inr (k, snd (snd (items ! k)))" using k by (simp add: median_index_def Let_def)
    then show thesis using k by (intro that [of k "snd (snd (items ! k))"]) simp_all
  next
    case False
    then have "even ?n" "0 < ?n" using assms by auto
    then obtain k where k: "?n = 2 * k" "0 < k" by (auto elim!: evenE)
    have "\<exists>i. median_index scores items = Inr (i, m) \<and> (i = k - 1 \<or> i = k)" using m k by (auto simp: median_index_def Let_def)
    then obtain i where i: "median_index scores items = Inr (i, m)" "i = k - 1 \<or> i = k" by blast
    then show thesis using k by (intro that [OF i(1)]) auto
  qed
qed


lemma select_median_spec:
  assumes "dwf cs" and "\<forall>src c p. dget cs src = Some c \<and> price (fst c) = Some p \<longrightarrow> \<not> f_isnan p"
    and "W = {src. \<exists>c. dget cs src = Some c \<and> usable window blocked now c src}"
    and "px = (\<lambda>s. the (price (fst (the (dget cs s)))))"
  shows "if 2 \<le> card W
    then \<exists>d. select_median inst cs scores window thr blocked now = Inr (Some d) \<and> set (cd_competing d) = W \<and> cd_chosen_source d \<in> W
      \<and> cd_chosen_event_id d = event_id (fst (the (dget cs (cd_chosen_source d))))
      \<and> 2 * card {s \<in> W. flt (px s) (px (cd_chosen_source d))} \<le> card W \<and> 2 * card {s \<in> W. flt (px (cd_chosen_source d)) (px s)} \<le> card W
    else select_median inst cs scores window thr blocked now = Inr None"
proof -
  let ?rs = "recent_items cs window blocked now" and ?k = "\<lambda>(_, _, p). f_key p"
  let ?items = "sort_key ?k ?rs"
  note r = recent_sources [OF assms(1), where window = window and blocked = blocked and now = now]
  have W: "fst ` set ?items = W" using r(3) assms(3) by simp
  have mem: "x = (fst x, fst (the (dget cs (fst x))), px (fst x)) \<and> \<not> f_isnan (px (fst x))" if "x \<in> set ?items" for x
    using that r(4) [of "fst x" "fst (snd x)" "snd (snd x)"] assms(2) by (force simp: assms(4))
  have dist: "distinct (map fst ?items)" using r(2) by (metis distinct_map distinct_sort set_sort)
  have n: "card W = length ?items" unfolding W [symmetric] using distinct_card [OF dist] by simp
  show ?thesis
  proof (cases "2 \<le> card W")
    case False
    then show ?thesis using n by (simp add: select_median_def)
  next
    case True
    then have "?items \<noteq> []" unfolding n by (intro length_greater_0_conv [THEN iffD1]) linarith
    then obtain i m where i: "median_index scores ?items = Inr (i, m)" "i < length ?items" "2 * i \<le> length ?items" "length ?items \<le> 2 * i + 2"
      by (rule median_index_range)
    obtain off where off: "disagrees thr m (map (\<lambda>(_, _, p). p) ?items) = Inr off" using disagrees_total by blast
    let ?c = "?items ! i"
    have sel: "select_median inst cs scores window thr blocked now = Inr (Some (conclude inst cs now (map fst ?items) (fst ?c) (fst (snd ?c)) off))"
      using True n i(1) off by (simp add: select_median_def Let_def)
    have c: "?c \<in> set ?items" using i(2) by (rule nth_mem)
    note cm = mem [OF c]
    have key: "?k x = f_key (px (fst x))" if "x \<in> set ?items" for x using mem [OF that] by (cases x) simp
    let ?ks = "map ?k ?items"
    have card: "card {s \<in> W. P (px s)} = length (filter (\<lambda>x. P (px (fst x))) ?items)" for P
    proof -
      have "{s \<in> W. P (px s)} = set (map fst (filter (\<lambda>x. P (px (fst x))) ?items))" unfolding W [symmetric] by auto
      moreover have "distinct (map fst (filter (\<lambda>x. P (px (fst x))) ?items))" using dist by (simp add: distinct_map_filter)
      ultimately show ?thesis using distinct_card by fastforce
    qed
    have so: "sorted ?ks" by (rule sorted_sort_key)
    have "length (filter (\<lambda>x. flt (px (fst x)) (px (fst ?c))) ?items) = length (filter (\<lambda>x. x < ?ks ! i) ?ks)"
      unfolding filter_map length_map comp_def using key mem c i(2) by (intro arg_cong [where f = length] filter_cong) (auto simp: flt_def)
    then have lo: "card {s \<in> W. flt (px s) (px (fst ?c))} \<le> i"
      using sorted_split(1) [OF so, of i] i(2) card [of "\<lambda>p. flt p (px (fst ?c))"] by simp
    have "length (filter (\<lambda>x. flt (px (fst ?c)) (px (fst x))) ?items) = length (filter (\<lambda>x. ?ks ! i < x) ?ks)"
      unfolding filter_map length_map comp_def using key mem c i(2) by (intro arg_cong [where f = length] filter_cong) (auto simp: flt_def)
    then have hi: "card {s \<in> W. flt (px (fst ?c)) (px s)} \<le> length ?items - 1 - i"
      using sorted_split(2) [OF so, of i] i(2) card [of "\<lambda>p. flt (px (fst ?c)) p"] by simp
    have "fst ?c \<in> W" unfolding W [symmetric] using c by (rule imageI)
    moreover have "fst (snd ?c) = fst (the (dget cs (fst ?c)))" using cm by (metis fst_conv snd_conv)
    ultimately show ?thesis using True sel lo hi i(3,4) n W by (auto simp: conclude_def Let_def)
  qed
qed


text \<open>
  C30: the median strategy takes a median.  In every reachable state of a reconciler that uses it, when at least two feeds compete and no
  stored price is a NaN, the answer names one of the competitors, at most half of the competitors have a lower price than the chosen one
  and at most half have a higher price; with fewer competitors there is no decision, and nothing raises.  So one rogue feed among three
  never becomes canonical unless its price lies between the others.
\<close>

theorem median_choice_is_a_median:
  assumes "f_isfinite (rf_alpha cfg)" and "0 < f_val (rf_alpha cfg)" and "f_isfinite (fsub R_1 (rf_alpha cfg))" and "0 < f_val (fsub R_1 (rf_alpha cfg))"
    and "0 < mx" and "r = rec_run ops (reconciler_init cfg mx MedianPrice)" and "quality_status ev \<noteq> INVALID" and "price ev \<noteq> None"
    and "\<forall>src c p. dget (candidates_after ev r) src = Some c \<and> price (fst c) = Some p \<longrightarrow> \<not> f_isnan p"
    and "px = (\<lambda>s. the (price (fst (the (dget (candidates_after ev r) s)))))"
  shows "if 2 \<le> card (competitors ev r)
    then \<exists>d. snd (reconcile ev r) = Inr (Some d) \<and> set (cd_competing d) = competitors ev r \<and> cd_chosen_source d \<in> competitors ev r
      \<and> cd_chosen_event_id d = event_id (fst (the (dget (candidates_after ev r) (cd_chosen_source d))))
      \<and> 2 * card {s \<in> competitors ev r. flt (px s) (px (cd_chosen_source d))} \<le> card (competitors ev r)
      \<and> 2 * card {s \<in> competitors ev r. flt (px (cd_chosen_source d)) (px s)} \<le> card (competitors ev r)
    else snd (reconcile ev r) = Inr None"
proof -
  have "weights_ok (rf_alpha cfg)" using assms(1-4) by (simp add: weights_ok_def)
  then have ok: "rec_ok cfg mx MedianPrice r" unfolding assms(6) using rec_run_ok reconciler_init_ok assms(5) by blast
  note s = reconcile_selects [OF ok assms(5,7,8)]
  have cfg: "rc_cfg r = cfg" using ok by (simp add: rec_ok_def)
  note spec = select_median_spec [OF s(1) assms(9) competitors_usable [of ev r, unfolded cfg] assms(10),
      of "instrument_id ev" "tr_scores (rc_tracker r)" "rf_threshold cfg"]
  show ?thesis
  proof (cases "2 \<le> card (competitors ev r)")
    case True
    then have "snd (reconcile ev r) = select_median (instrument_id ev) (candidates_after ev r) (tr_scores (rc_tracker r)) (rf_window cfg)
        (rf_threshold cfg) (rc_blocked r) (Some (exchange_timestamp ev))"
      using s(2) competitors_card [OF s(1)] by (simp add: select_def)
    then show ?thesis using spec True by auto
  next
    case False
    then show ?thesis using spec s(2) by (simp add: select_def)
  qed
qed


section \<open>Examples\<close>

definition demo_ops :: "rec_op list" where
  "demo_ops = [Observe (demo_trade ''A'' SUSPICIOUS R_100), Reconciled (demo_trade ''A'' VALID R_100)]"

definition demo_rec :: "strategy \<Rightarrow> reconciler" where
  "demo_rec st = rec_run demo_ops (reconciler_init demo_rel 10 st)"

definition demo_tracker :: tracker where
  "demo_tracker = \<lparr>tr_cfg = demo_rel, tr_stats = [(''A'', new_stats\<lparr>ss_total := 1, ss_suspicious := 1, ss_error_rate := R_1\<rparr>)],
     tr_scores = [(''A'', 0x3FE3333333333333)]\<rparr>"

lemma demo_observed: "fst (tracker_observe (demo_trade ''A'' SUSPICIOUS R_100) (tracker_init demo_rel)) = demo_tracker"
  by code_simp

lemma demo_rec_eq:
  "demo_rec st = \<lparr>rc_cfg = demo_rel, rc_tracker = demo_tracker, rc_max = 10, rc_strategy = st,
     rc_latest = [(''I'', [(''A'', demo_trade ''A'' VALID R_100, 0x4059000000000000)])], rc_blocked = []\<rparr>"
  by (simp add: demo_rec_def demo_ops_def reconciler_init_def demo_observed)
    (simp add: reconcile_def open_instrument_def demo_trade_def Let_def)

lemma demo_candidates:
  "candidates_after (demo_trade ''B'' VALID R_1000) (demo_rec st)
     = [(''A'', demo_trade ''A'' VALID R_100, 0x4059000000000000), (''B'', demo_trade ''B'' VALID R_1000, 0x4059000000000000)]"
  by (simp add: candidates_after_def demo_rec_eq demo_trade_def)

lemma demo_event: "quality_status (demo_trade ''B'' VALID R_1000) \<noteq> INVALID" "price (demo_trade ''B'' VALID R_1000) \<noteq> None"
  by (simp_all add: demo_trade_def)

theorem canonical_source_is_most_reliable_witness:
  "\<exists>d. snd (reconcile (demo_trade ''B'' VALID R_1000) (demo_rec HighestReliability)) = Inr (Some d) \<and> cd_chosen_source d = ''A''
     \<and> (\<forall>s \<in> set (cd_competing d). beats (tr_scores (rc_tracker (demo_rec HighestReliability))) ''A'' s)"
proof -
  let ?ev = "demo_trade ''B'' VALID R_1000" and ?r = "demo_rec HighestReliability"
  have e: "[] \<notin> set (dkeys (candidates_after ?ev ?r))" "length (candidates_after ?ev ?r) \<le> 2 ^ 62" by (simp_all add: demo_candidates)
  have "(case snd (reconcile ?ev ?r) of Inr (Some d) \<Rightarrow> cd_chosen_source d | _ \<Rightarrow> []) = ''A''" unfolding demo_rec_eq by code_simp
  then obtain d where d: "snd (reconcile ?ev ?r) = Inr (Some d)" "cd_chosen_source d = ''A''" by (auto split: sum.splits option.splits)
  then show ?thesis using canonical_source_is_most_reliable [OF demo_weights _ demo_rec_def demo_event e] by (auto split: if_splits)
qed

theorem median_choice_is_a_median_witness:
  "\<exists>d. snd (reconcile (demo_trade ''B'' VALID R_1000) (demo_rec MedianPrice)) = Inr (Some d)
     \<and> cd_chosen_source d \<in> competitors (demo_trade ''B'' VALID R_1000) (demo_rec MedianPrice)"
proof -
  let ?ev = "demo_trade ''B'' VALID R_1000" and ?r = "demo_rec MedianPrice"
  have "\<not> f_isnan R_100 \<and> \<not> f_isnan R_1000" by code_simp
  then have n: "\<forall>src c p. dget (candidates_after ?ev ?r) src = Some c \<and> price (fst c) = Some p \<longrightarrow> \<not> f_isnan p"
    unfolding demo_candidates by (auto simp: demo_trade_def split: if_splits)
  have "(case snd (reconcile ?ev ?r) of Inr (Some d) \<Rightarrow> True | _ \<Rightarrow> False)" unfolding demo_rec_eq by code_simp
  then show ?thesis using median_choice_is_a_median [OF demo_weights _ demo_rec_def demo_event n refl] by (auto split: if_splits)
qed

end
