(* ===== verification/Watchdog.thy ===== *)
theory Watchdog
  imports Reconcile
begin

text \<open>
  The source watchdog of \<open>watchdog.py\<close>: the state of every feed, driven by the events that arrive, by an active check for silence, and by
  manual blocks.  The attributes \<open>observe\<close> reads from an event (after the conversions it does on them) are a record, with a
  reading of canonical events.  The scores are the cache of the reliability tracker.  Both clocks are arguments.  An alert keeps its
  kind, time and action; its prose is left out.  The heartbeat thread is a sequence of turns.
\<close>

datatype source_state = HEALTHY | DEGRADED | SILENT | BLOCKED

datatype alert_type = SILENCE | DEGRADATION | RECOVERY | BLOCKED_ALERT | UNBLOCKED | WATERMARK_WARNING

record wd_alert =
  al_source :: string
  al_type :: alert_type
  al_timestamp :: f64
  al_adaptive :: bool

record wd_event =
  we_source :: string
  we_now :: f64
  we_instrument :: string
  we_type :: string
  we_status :: string

record watchdog =
  wd_silence :: f64
  wd_degradation :: f64
  wd_recovery :: f64
  wd_min_ticks :: int
  wd_multiplier :: f64
  wd_per_source :: "(string, f64) dict"
  wd_states :: "(string, source_state) dict"
  wd_last_seen :: "(string, f64) dict"
  wd_last_wall :: "(string, f64) dict"
  wd_ewma :: "(string, f64) dict"
  wd_ticks :: "(string, int) dict"
  wd_adaptive_count :: int
  wd_alerts :: "wd_alert list"
  wd_blocked :: "string list"
  wd_halted :: "string list"
  wd_beating :: bool

definition watchdog_init :: "f64 \<Rightarrow> f64 \<Rightarrow> f64 \<Rightarrow> int \<Rightarrow> f64 \<Rightarrow> (string, f64) dict \<Rightarrow> watchdog" where
  "watchdog_init silence degradation recovery min_ticks multiplier per_source =
     \<lparr>wd_silence = silence, wd_degradation = degradation, wd_recovery = recovery, wd_min_ticks = min_ticks, wd_multiplier = multiplier,
      wd_per_source = per_source, wd_states = [], wd_last_seen = [], wd_last_wall = [], wd_ewma = [], wd_ticks = [],
      wd_adaptive_count = 0, wd_alerts = [], wd_blocked = [], wd_halted = [], wd_beating = False\<rparr>"

definition type_value :: "event_type \<Rightarrow> string" where
  "type_value t = (case t of TRADE \<Rightarrow> ''TRADE'' | QUOTE \<Rightarrow> ''QUOTE'' | BBO \<Rightarrow> ''BBO'' | BOOK \<Rightarrow> ''BOOK'' | DEPTH \<Rightarrow> ''DEPTH''
     | HALT \<Rightarrow> ''HALT'' | STATUS \<Rightarrow> ''STATUS'' | UNKNOWN \<Rightarrow> ''UNKNOWN'')"

text \<open>A canonical event has no payload, so its status is empty.\<close>

definition wd_canonical :: "cevent \<Rightarrow> wd_event" where
  "wd_canonical ev = \<lparr>we_source = source ev, we_now = exchange_timestamp ev, we_instrument = instrument_id ev,
     we_type = type_value (event_type ev), we_status = []\<rparr>"

section \<open>Events\<close>

definition F_0_9 :: f64 where "F_0_9 = 0x3FECCCCCCCCCCCCD"
definition F_0_1 :: f64 where "F_0_1 = 0x3FB999999999999A"
definition F_3 :: f64 where "F_3 = 0x4008000000000000"

definition note_halt :: "wd_event \<Rightarrow> string list \<Rightarrow> string list" where
  "note_halt e halted =
     (if we_instrument e = [] then halted
      else if we_type e = ''HALT'' \<or> we_status e \<in> {''HALT'', ''HALTED'', ''PAUSED'', ''SUSPENDED''} then List.insert (we_instrument e) halted
      else if we_type e = ''STATUS'' \<and> we_status e \<in> {''RESUME'', ''RESUMED'', ''ACTIVE'', ''TRADING'', ''OPEN''}
      then removeAll (we_instrument e) halted else halted)"

definition note_seen :: "wd_event \<Rightarrow> f64 \<Rightarrow> watchdog \<Rightarrow> watchdog" where
  "note_seen e mclk w =
     (let s = we_source e; now = we_now e; prev = dget (wd_last_seen w) s;
          w1 = (case prev of
                  Some p \<Rightarrow>
                    if flt p now
                    then let gap = fsub now p; ew = dgetd (wd_ewma w) s gap
                         in w\<lparr>wd_ewma := dset (wd_ewma w) s (fadd (fmul F_0_9 ew) (fmul F_0_1 gap)),
                              wd_ticks := dset (wd_ticks w) s (dgetd (wd_ticks w) s 0 + 1)\<rparr>
                    else if din s (wd_ticks w) then w else w\<lparr>wd_ticks := dset (wd_ticks w) s 1\<rparr>
                | None \<Rightarrow> if din s (wd_ticks w) then w else w\<lparr>wd_ticks := dset (wd_ticks w) s 1\<rparr>)
      in w1\<lparr>wd_halted := note_halt e (wd_halted w1), wd_last_seen := dset (wd_last_seen w1) s now,
            wd_last_wall := dset (wd_last_wall w1) s mclk,
            wd_states := (if din s (wd_states w1) then wd_states w1 else dset (wd_states w1) s HEALTHY)\<rparr>)"

text \<open>The divisor is not zero, so the quotient always exists.\<close>

definition half :: "f64 \<Rightarrow> f64" where
  "half x = (case fdiv x R_2 of Inr y \<Rightarrow> y | Inl _ \<Rightarrow> 0)"

definition paced :: "watchdog \<Rightarrow> wd_event \<Rightarrow> f64 option \<Rightarrow> f64 \<Rightarrow> string \<Rightarrow> string \<Rightarrow> bool" where
  "paced w e prev typical src s =
     (s \<noteq> src
      \<and> fle (fsub (we_now e) (dgetd (wd_last_seen w) s 0)) (fmul (dgetd (wd_ewma w) s (wd_silence w)) (half (wd_multiplier w)))
      \<and> (we_source e \<noteq> s \<or> (case prev of None \<Rightarrow> False | Some p \<Rightarrow> fle (fsub (we_now e) p) (fmul typical F_3))))"

definition fixed_silent :: "watchdog \<Rightarrow> wd_event \<Rightarrow> string \<Rightarrow> bool" where
  "fixed_silent w e src = flt (wd_silence w) (fsub (we_now e) (dgetd (wd_last_seen w) src 0))"

definition adaptive_silent :: "watchdog \<Rightarrow> wd_event \<Rightarrow> f64 option \<Rightarrow> string \<Rightarrow> bool" where
  "adaptive_silent w e prev src =
     (let typical = dgetd (wd_ewma w) src (wd_silence w)
      in wd_min_ticks w \<le> dgetd (wd_ticks w) src 0
         \<and> list_ex (paced w e prev typical src) (dkeys (wd_states w))
         \<and> flt (fmul typical (wd_multiplier w)) (fsub (we_now e) (dgetd (wd_last_seen w) src 0)))"

definition next_state :: "watchdog \<Rightarrow> bool \<Rightarrow> f64 \<Rightarrow> source_state \<Rightarrow> source_state" where
  "next_state w silent sc st =
     (if silent then SILENT
      else if flt sc (wd_degradation w) then DEGRADED
      else if st \<in> {SILENT, DEGRADED} \<and> fle (wd_recovery w) sc then HEALTHY else st)"

definition alert_of :: "source_state \<Rightarrow> alert_type" where
  "alert_of st = (case st of SILENT \<Rightarrow> SILENCE | DEGRADED \<Rightarrow> DEGRADATION | _ \<Rightarrow> RECOVERY)"

text \<open>One round of the loop over the sources, for the pair the snapshot of the states holds.\<close>

definition judge :: "(string, f64) dict \<Rightarrow> wd_event \<Rightarrow> f64 option \<Rightarrow> watchdog \<Rightarrow> string \<times> source_state \<Rightarrow> watchdog" where
  "judge scores e prev w p =
     (let (src, st) = p
      in if st = BLOCKED then w
         else let fixed = fixed_silent w e src; adaptive = adaptive_silent w e prev src;
                  new = next_state w (fixed \<or> adaptive) (dgetd scores src R_1) st
              in if new = st then w
                 else w\<lparr>wd_states := dset (wd_states w) src new,
                        wd_adaptive_count := wd_adaptive_count w + (if new = SILENT \<and> adaptive \<and> \<not> fixed then 1 else 0),
                        wd_alerts := wd_alerts w @ [\<lparr>al_source = src, al_type = alert_of new, al_timestamp = we_now e,
                                                     al_adaptive = (new = SILENT \<and> adaptive \<and> \<not> fixed)\<rparr>]\<rparr>)"

definition wd_observe :: "(string, f64) dict \<Rightarrow> f64 \<Rightarrow> wd_event \<Rightarrow> watchdog \<Rightarrow> watchdog \<times> wd_alert list" where
  "wd_observe scores mclk e w =
     (let w1 = note_seen e mclk w;
          w2 = foldl (judge scores e (dget (wd_last_seen w) (we_source e))) w1 (wd_states w1)
      in (w2, drop (length (wd_alerts w)) (wd_alerts w2)))"

definition wd_apply :: "(string, f64) dict \<Rightarrow> f64 \<Rightarrow> cevent option list \<Rightarrow> watchdog \<Rightarrow> watchdog" where
  "wd_apply scores mclk batch w =
     foldl (\<lambda>w x. case x of None \<Rightarrow> w | Some ev \<Rightarrow> fst (wd_observe scores mclk (wd_canonical ev) w)) w batch"

section \<open>Silence\<close>

text \<open>Without a time the monotonic clock is compared, and the alert carries the wall clock.\<close>

definition silence_round :: "f64 option \<Rightarrow> f64 \<Rightarrow> f64 \<Rightarrow> watchdog \<Rightarrow> string \<times> source_state \<Rightarrow> watchdog" where
  "silence_round time mclk wall w p =
     (let (src, st) = p;
          last_time = (case time of None \<Rightarrow> dgetd (wd_last_wall w) src 0 | Some _ \<Rightarrow> dgetd (wd_last_seen w) src 0);
          now = (case time of None \<Rightarrow> mclk | Some t \<Rightarrow> t)
      in if st = BLOCKED \<or> st = SILENT then w
         else if flt (dgetd (wd_per_source w) src (wd_silence w)) (fsub now last_time)
         then w\<lparr>wd_states := dset (wd_states w) src SILENT,
                wd_alerts := wd_alerts w @ [\<lparr>al_source = src, al_type = SILENCE,
                  al_timestamp = (case time of None \<Rightarrow> wall | Some t \<Rightarrow> t), al_adaptive = False\<rparr>]\<rparr>
         else w)"

definition check_silence :: "f64 option \<Rightarrow> f64 \<Rightarrow> f64 \<Rightarrow> watchdog \<Rightarrow> watchdog \<times> wd_alert list" where
  "check_silence time mclk wall w =
     (let w1 = foldl (silence_round time mclk wall) w (wd_states w) in (w1, drop (length (wd_alerts w)) (wd_alerts w1)))"

definition start_heartbeat :: "watchdog \<Rightarrow> watchdog" where
  "start_heartbeat w = w\<lparr>wd_beating := True\<rparr>"

definition stop_heartbeat :: "watchdog \<Rightarrow> watchdog" where
  "stop_heartbeat w = w\<lparr>wd_beating := False\<rparr>"

text \<open>One turn of the worker: the alerts it hands to the callback.\<close>

definition heartbeat_turn :: "f64 \<Rightarrow> f64 \<Rightarrow> watchdog \<Rightarrow> watchdog \<times> wd_alert list" where
  "heartbeat_turn mclk wall w = (if wd_beating w then check_silence None mclk wall w else (w, []))"

section \<open>Manual control\<close>

definition push_alert :: "string \<Rightarrow> alert_type \<Rightarrow> f64 \<Rightarrow> watchdog \<Rightarrow> watchdog" where
  "push_alert src ty t w = w\<lparr>wd_alerts := wd_alerts w @ [\<lparr>al_source = src, al_type = ty, al_timestamp = t, al_adaptive = False\<rparr>]\<rparr>"

definition wd_block_source :: "string \<Rightarrow> f64 \<Rightarrow> watchdog \<Rightarrow> watchdog" where
  "wd_block_source src t w =
     push_alert src BLOCKED_ALERT t (w\<lparr>wd_blocked := List.insert src (wd_blocked w), wd_states := dset (wd_states w) src BLOCKED\<rparr>)"

definition wd_unblock_source :: "string \<Rightarrow> f64 \<Rightarrow> watchdog \<Rightarrow> watchdog" where
  "wd_unblock_source src t w =
     push_alert src UNBLOCKED t (w\<lparr>wd_blocked := removeAll src (wd_blocked w), wd_states := dset (wd_states w) src HEALTHY\<rparr>)"

definition observe_shm_watermark :: "bool \<Rightarrow> string \<Rightarrow> f64 \<Rightarrow> watchdog \<Rightarrow> watchdog" where
  "observe_shm_watermark warned src t w = (if warned then push_alert src WATERMARK_WARNING t w else w)"

definition source_states :: "watchdog \<Rightarrow> (string, source_state) dict" where
  "source_states w = wd_states w"

text \<open>\<open>self._alerts[-limit:]\<close>: a limit of zero gives all alerts, a negative one cuts from the front.\<close>

definition recent_alerts :: "int \<Rightarrow> watchdog \<Rightarrow> wd_alert list" where
  "recent_alerts n w =
     (if 0 < n then drop (length (wd_alerts w) - nat n) (wd_alerts w) else drop (nat (- n)) (wd_alerts w))"

definition active_sources :: "watchdog \<Rightarrow> string list" where
  "active_sources w = map fst (filter (\<lambda>p. snd p = HEALTHY) (wd_states w))"

definition is_source_active :: "watchdog \<Rightarrow> string \<Rightarrow> bool" where
  "is_source_active w src = (dget (wd_states w) src = Some HEALTHY)"

definition record_halt :: "string \<Rightarrow> watchdog \<Rightarrow> watchdog" where
  "record_halt i w = w\<lparr>wd_halted := List.insert i (wd_halted w)\<rparr>"

definition record_resume :: "string \<Rightarrow> watchdog \<Rightarrow> watchdog" where
  "record_resume i w = w\<lparr>wd_halted := removeAll i (wd_halted w)\<rparr>"

definition is_halted :: "watchdog \<Rightarrow> string \<Rightarrow> bool" where
  "is_halted w i = (i \<in> set (wd_halted w))"

definition check_instrument_staleness :: "string \<Rightarrow> f64 \<Rightarrow> f64 \<Rightarrow> f64 \<Rightarrow> watchdog \<Rightarrow> bool" where
  "check_instrument_staleness i last_ts now threshold w = (\<not> is_halted w i \<and> flt threshold (fsub now last_ts))"

end
