(* ===== verification/Watchdog_Props.thy ===== *)
theory Watchdog_Props
  imports Watchdog Bbo
begin

text \<open>
  What the watchdog guarantees over any sequence of events, silence checks, heartbeats and manual interventions: the alerts tell the
  state of every source, a verdict after an event is justified by the times and the score, and a blocked source stays out of the
  consolidated quote until it is unblocked.
\<close>

section \<open>Runs\<close>

datatype wd_op =
    WObserve "(string, f64) dict" f64 wd_event
  | WCheck "f64 option" f64 f64
  | WBeat f64 f64
  | WBlock string f64
  | WUnblock string f64
  | WMark bool string f64
  | WHalt string
  | WResume string
  | WStart
  | WStop

fun wd_step :: "watchdog \<Rightarrow> wd_op \<Rightarrow> watchdog" where
  "wd_step w (WObserve scores mclk e) = fst (wd_observe scores mclk e w)"
| "wd_step w (WCheck time mclk wall) = fst (check_silence time mclk wall w)"
| "wd_step w (WBeat mclk wall) = fst (heartbeat_turn mclk wall w)"
| "wd_step w (WBlock s t) = wd_block_source s t w"
| "wd_step w (WUnblock s t) = wd_unblock_source s t w"
| "wd_step w (WMark b s t) = observe_shm_watermark b s t w"
| "wd_step w (WHalt i) = record_halt i w"
| "wd_step w (WResume i) = record_resume i w"
| "wd_step w WStart = start_heartbeat w"
| "wd_step w WStop = stop_heartbeat w"

definition tell :: "string \<Rightarrow> source_state \<Rightarrow> wd_alert \<Rightarrow> source_state" where
  "tell s st a =
     (if al_source a \<noteq> s then st
      else case al_type a of SILENCE \<Rightarrow> SILENT | DEGRADATION \<Rightarrow> DEGRADED | RECOVERY \<Rightarrow> HEALTHY | BLOCKED_ALERT \<Rightarrow> BLOCKED
           | UNBLOCKED \<Rightarrow> HEALTHY | WATERMARK_WARNING \<Rightarrow> st)"

definition told :: "wd_alert list \<Rightarrow> string \<Rightarrow> source_state" where
  "told als s = foldl (tell s) HEALTHY als"

lemma told_snoc [simp]: "told (als @ [a]) s = tell s (told als s) a"
  by (simp add: told_def)

definition wd_inv :: "watchdog \<Rightarrow> bool" where
  "wd_inv w = (dwf (wd_states w) \<and> (\<forall>s. dgetd (wd_states w) s HEALTHY = told (wd_alerts w) s)
     \<and> (\<forall>s. s \<in> set (wd_blocked w) \<longleftrightarrow> dget (wd_states w) s = Some BLOCKED))"

section \<open>One loop over the sources\<close>

lemma keys_after_dset: "din k d \<Longrightarrow> dkeys (dset d k v) = dkeys d"
  by (induction d) (auto simp: din_iff)

definition same_inputs :: "watchdog \<Rightarrow> watchdog \<Rightarrow> bool" where
  "same_inputs w w' = (wd_silence w' = wd_silence w \<and> wd_degradation w' = wd_degradation w \<and> wd_recovery w' = wd_recovery w
     \<and> wd_min_ticks w' = wd_min_ticks w \<and> wd_multiplier w' = wd_multiplier w \<and> wd_per_source w' = wd_per_source w
     \<and> wd_last_seen w' = wd_last_seen w \<and> wd_last_wall w' = wd_last_wall w \<and> wd_ewma w' = wd_ewma w \<and> wd_ticks w' = wd_ticks w
     \<and> wd_blocked w' = wd_blocked w \<and> dkeys (wd_states w') = dkeys (wd_states w))"

text \<open>
  A round for a source either leaves the watchdog alone or gives this source a new state that is not \<open>BLOCKED\<close>, with its alert; it
  reads nothing that a round changes.
\<close>

locale source_rounds =
  fixes rnd :: "watchdog \<Rightarrow> string \<times> source_state \<Rightarrow> watchdog" and verdict :: "watchdog \<Rightarrow> string \<Rightarrow> source_state \<Rightarrow> source_state"
  assumes stays: "verdict w src st = st \<Longrightarrow> rnd w (src, st) = w"
    and moves: "verdict w src st \<noteq> st \<Longrightarrow> \<exists>n a. rnd w (src, st) = w\<lparr>wd_states := dset (wd_states w) src (verdict w src st),
        wd_adaptive_count := n, wd_alerts := wd_alerts w @ [a]\<rparr> \<and> (\<forall>s x. tell s x a = (if s = src then verdict w src st else x))"
    and unread: "same_inputs w w' \<Longrightarrow> verdict w' src st = verdict w src st"
    and kept: "(verdict w src st = BLOCKED) = (st = BLOCKED)"
begin

lemma round_inputs:
  assumes "din src (wd_states w)"
  shows "same_inputs w (rnd w (src, st))"
proof (cases "verdict w src st = st")
  case False
  then show ?thesis using moves [OF False] keys_after_dset [OF assms, of "verdict w src st"] by (auto simp: same_inputs_def)
qed (simp add: stays same_inputs_def)

lemma round_state:
  assumes "dget (wd_states w) src = Some st"
  shows "dget (wd_states (rnd w (src, st))) s = (if s = src then Some (verdict w src st) else dget (wd_states w) s)"
proof (cases "verdict w src st = st")
  case False
  then show ?thesis using moves [OF False] by (auto simp: dict_simps)
qed (simp add: stays assms)

lemma round_inv:
  assumes "wd_inv w" and "dget (wd_states w) src = Some st"
  shows "wd_inv (rnd w (src, st))"
proof (cases "verdict w src st = st")
  case False
  obtain n a where r: "rnd w (src, st) = w\<lparr>wd_states := dset (wd_states w) src (verdict w src st), wd_adaptive_count := n,
      wd_alerts := wd_alerts w @ [a]\<rparr>" "\<forall>s x. tell s x a = (if s = src then verdict w src st else x)" using moves [OF False] by blast
  have k: "verdict w src st \<noteq> BLOCKED \<and> st \<noteq> BLOCKED" using kept [of w src st] False by metis
  show ?thesis using assms r k by (auto simp: wd_inv_def dict_simps)
qed (simp add: stays assms)

lemma same_trans: "same_inputs a b \<Longrightarrow> same_inputs b c \<Longrightarrow> same_inputs a c"
  by (simp add: same_inputs_def)

lemma rounds:
  assumes "distinct (map fst ps)" and "\<forall>(src, st) \<in> set ps. dget (wd_states w) src = Some st" and "wd_inv w"
  shows "wd_inv (foldl rnd w ps) \<and> same_inputs w (foldl rnd w ps)
    \<and> (\<forall>s. dget (wd_states (foldl rnd w ps)) s = (case dget ps s of None \<Rightarrow> dget (wd_states w) s | Some st \<Rightarrow> Some (verdict w s st)))"
  using assms
proof (induction ps arbitrary: w)
  case Nil
  then show ?case by (simp add: same_inputs_def)
next
  case (Cons p ps)
  obtain src st where p: "p = (src, st)" by (cases p)
  have st: "dget (wd_states w) src = Some st" using Cons.prems(2) by (simp add: p)
  have d: "din src (wd_states w)" using st by (force simp: din_iff dest: map_of_SomeD)
  let ?w = "rnd w (src, st)"
  note s = round_inputs [OF d, of st] and g = round_state [OF st]
  have ne: "src \<notin> fst ` set ps" using Cons.prems(1) by (simp add: p)
  have "\<forall>(src, st) \<in> set ps. dget (wd_states ?w) src = Some st"
    using Cons.prems(2) ne g by (force simp: p)
  then have ih: "wd_inv (foldl rnd ?w ps) \<and> same_inputs ?w (foldl rnd ?w ps)
    \<and> (\<forall>s. dget (wd_states (foldl rnd ?w ps)) s = (case dget ps s of None \<Rightarrow> dget (wd_states ?w) s | Some st \<Rightarrow> Some (verdict ?w s st)))"
    using Cons.prems(1) round_inv [OF Cons.prems(3) st] by (intro Cons.IH) (simp_all add: p)
  have n: "dget ps src = None" using ne by (simp add: map_of_eq_None_iff)
  show ?case using ih s g n same_trans unread [OF s] by (auto simp: p split: option.splits)
qed

lemma all_rounds:
  assumes "wd_inv w"
  shows "wd_inv (foldl rnd w (wd_states w))" and "same_inputs w (foldl rnd w (wd_states w))"
    and "dget (wd_states (foldl rnd w (wd_states w))) s = (case dget (wd_states w) s of None \<Rightarrow> None | Some st \<Rightarrow> Some (verdict w s st))"
proof -
  have d: "distinct (map fst (wd_states w))" using assms by (simp add: wd_inv_def dwf_def)
  then have "\<forall>(src, st) \<in> set (wd_states w). dget (wd_states w) src = Some st" by auto
  note r = rounds [OF d this assms]
  show "wd_inv (foldl rnd w (wd_states w))" "same_inputs w (foldl rnd w (wd_states w))" using r by simp_all
  show "dget (wd_states (foldl rnd w (wd_states w))) s = (case dget (wd_states w) s of None \<Rightarrow> None | Some st \<Rightarrow> Some (verdict w s st))"
    using r by (auto split: option.splits)
qed

end

definition judged :: "(string, f64) dict \<Rightarrow> wd_event \<Rightarrow> f64 option \<Rightarrow> watchdog \<Rightarrow> string \<Rightarrow> source_state \<Rightarrow> source_state" where
  "judged scores e prev w src st =
     (if st = BLOCKED then BLOCKED
      else next_state w (fixed_silent w e src \<or> adaptive_silent w e prev src) (dgetd scores src R_1) st)"

lemma next_state_BLOCKED: "st \<noteq> BLOCKED \<Longrightarrow> next_state w silent sc st \<noteq> BLOCKED"
  by (auto simp: next_state_def)

lemma tell_alert:
  "st \<noteq> BLOCKED \<Longrightarrow> tell s x \<lparr>al_source = src, al_type = alert_of st, al_timestamp = t, al_adaptive = b\<rparr> = (if s = src then st else x)"
  by (cases st) (auto simp: tell_def alert_of_def)

interpretation obs: source_rounds "judge scores e prev" "judged scores e prev" for scores e prev
proof
  fix w src st
  show "judge scores e prev w (src, st) = w" if "judged scores e prev w src st = st"
    using that by (auto simp: judge_def judged_def Let_def)
  show "\<exists>n a. judge scores e prev w (src, st) = w\<lparr>wd_states := dset (wd_states w) src (judged scores e prev w src st), wd_adaptive_count := n,
      wd_alerts := wd_alerts w @ [a]\<rparr> \<and> (\<forall>s x. tell s x a = (if s = src then judged scores e prev w src st else x))"
    if "judged scores e prev w src st \<noteq> st"
  proof -
    let ?new = "judged scores e prev w src st" and ?ad = "adaptive_silent w e prev src \<and> \<not> fixed_silent w e src"
    have b: "st \<noteq> BLOCKED" using that by (auto simp: judged_def)
    then have n: "?new \<noteq> BLOCKED" by (simp add: judged_def next_state_BLOCKED)
    have "judge scores e prev w (src, st) = w\<lparr>wd_states := dset (wd_states w) src ?new,
        wd_adaptive_count := wd_adaptive_count w + (if ?new = SILENT \<and> ?ad then 1 else 0),
        wd_alerts := wd_alerts w @ [\<lparr>al_source = src, al_type = alert_of ?new, al_timestamp = we_now e, al_adaptive = (?new = SILENT \<and> ?ad)\<rparr>]\<rparr>"
      using that b by (simp add: judge_def judged_def Let_def)
    then show ?thesis using tell_alert [OF n] by blast
  qed
  show "judged scores e prev w' src st = judged scores e prev w src st" if "same_inputs w w'" for w'
  proof -
    have "paced w' = paced w" using that by (intro ext) (simp add: paced_def same_inputs_def)
    then show ?thesis using that
      by (simp add: judged_def next_state_def fixed_silent_def adaptive_silent_def same_inputs_def Let_def)
  qed
  show "(judged scores e prev w src st = BLOCKED) = (st = BLOCKED)" by (simp add: judged_def next_state_BLOCKED)
qed


definition hushed :: "f64 option \<Rightarrow> f64 \<Rightarrow> watchdog \<Rightarrow> string \<Rightarrow> source_state \<Rightarrow> source_state" where
  "hushed time mclk w src st =
     (if st = BLOCKED then BLOCKED
      else if flt (dgetd (wd_per_source w) src (wd_silence w))
                (fsub (case time of None \<Rightarrow> mclk | Some t \<Rightarrow> t)
                   (case time of None \<Rightarrow> dgetd (wd_last_wall w) src 0 | Some _ \<Rightarrow> dgetd (wd_last_seen w) src 0))
      then SILENT else st)"

interpretation sil: source_rounds "silence_round time mclk wall" "hushed time mclk" for time mclk wall
proof
  fix w src st
  show "silence_round time mclk wall w (src, st) = w" if "hushed time mclk w src st = st"
    using that by (auto simp: silence_round_def hushed_def Let_def split: if_splits)
  show "\<exists>n a. silence_round time mclk wall w (src, st) = w\<lparr>wd_states := dset (wd_states w) src (hushed time mclk w src st),
      wd_adaptive_count := n, wd_alerts := wd_alerts w @ [a]\<rparr> \<and> (\<forall>s x. tell s x a = (if s = src then hushed time mclk w src st else x))"
    if "hushed time mclk w src st \<noteq> st"
  proof -
    have h: "hushed time mclk w src st = SILENT" "st \<noteq> BLOCKED" "st \<noteq> SILENT" using that by (auto simp: hushed_def split: if_splits)
    then have "silence_round time mclk wall w (src, st) = w\<lparr>wd_states := dset (wd_states w) src SILENT, wd_adaptive_count := wd_adaptive_count w,
        wd_alerts := wd_alerts w @ [\<lparr>al_source = src, al_type = alert_of SILENT, al_timestamp = (case time of None \<Rightarrow> wall | Some t \<Rightarrow> t), al_adaptive = False\<rparr>]\<rparr>"
      by (auto simp: silence_round_def hushed_def Let_def alert_of_def split: if_splits)
    moreover have "SILENT \<noteq> BLOCKED" by simp
    ultimately show ?thesis unfolding h(1) using tell_alert by blast
  qed
  show "hushed time mclk w' src st = hushed time mclk w src st" if "same_inputs w w'" for w'
    using that by (cases time) (simp_all add: hushed_def same_inputs_def)
  show "(hushed time mclk w src st = BLOCKED) = (st = BLOCKED)" by (simp add: hushed_def)
qed

section \<open>The alerts tell the states\<close>

lemma wd_init_inv: "wd_inv (watchdog_init a b c d m ps)"
  by (simp add: wd_inv_def watchdog_init_def told_def dgetd_def)

lemma note_seen_fields [simp]:
  "wd_alerts (note_seen e mclk w) = wd_alerts w" "wd_blocked (note_seen e mclk w) = wd_blocked w"
  "wd_silence (note_seen e mclk w) = wd_silence w" "wd_degradation (note_seen e mclk w) = wd_degradation w"
  "wd_recovery (note_seen e mclk w) = wd_recovery w"
  "wd_states (note_seen e mclk w) = (if din (we_source e) (wd_states w) then wd_states w else dset (wd_states w) (we_source e) HEALTHY)"
  "wd_last_seen (note_seen e mclk w) = dset (wd_last_seen w) (we_source e) (we_now e)"
  by (auto simp: note_seen_def Let_def split: option.splits)

lemma absent_dget: "\<not> din s d \<Longrightarrow> dget d s = None"
  by (simp add: din_iff map_of_eq_None_iff)

lemma known_state: "dget (wd_states (note_seen e mclk w)) s =
    (if s = we_source e \<and> dget (wd_states w) s = None then Some HEALTHY else dget (wd_states w) s)"
proof (cases "din (we_source e) (wd_states w)")
  case True
  then have "dget (wd_states w) (we_source e) \<noteq> None" by (auto simp: din_iff map_of_eq_None_iff)
  then show ?thesis using True by auto
qed (simp add: absent_dget dict_simps)

lemma note_seen_inv: "wd_inv w \<Longrightarrow> wd_inv (note_seen e mclk w)"
  using absent_dget [of "we_source e" "wd_states w"]
  by (auto simp: wd_inv_def dict_simps dgetd_def) (metis option.case(1))+

lemma wd_step_inv: "wd_inv w \<Longrightarrow> wd_inv (wd_step w x)"
proof (cases x)
  case (WObserve scores mclk e)
  assume "wd_inv w"
  from obs.all_rounds(1) [OF note_seen_inv [OF this]] show ?thesis using WObserve by (simp add: wd_observe_def Let_def)
next
  case (WCheck time mclk wall)
  assume "wd_inv w"
  from sil.all_rounds(1) [OF this] show ?thesis using WCheck by (simp add: check_silence_def Let_def)
next
  case (WBeat mclk wall)
  assume "wd_inv w"
  from sil.all_rounds(1) [OF this] this show ?thesis using WBeat by (simp add: heartbeat_turn_def check_silence_def Let_def)
qed (auto simp: wd_inv_def wd_block_source_def wd_unblock_source_def observe_shm_watermark_def record_halt_def record_resume_def
       start_heartbeat_def stop_heartbeat_def push_alert_def tell_def dict_simps)

lemma wd_run_inv: "wd_inv w \<Longrightarrow> wd_inv (foldl wd_step w ops)"
  by (induction ops arbitrary: w) (simp_all add: wd_step_inv)


text \<open>
  The alerts tell the whole story.  After any sequence of events, silence checks, heartbeats, blocks and unblocks, the state of
  every known source is the one its last alert announces, and \<open>HEALTHY\<close> without an alert; the set of blocked sources is exactly the
  set of sources in state \<open>BLOCKED\<close>, and the active sources are the known ones whose alerts leave them healthy.
\<close>

theorem alerts_tell_the_states:
  assumes "w = foldl wd_step (watchdog_init silence degradation recovery min_ticks multiplier per_source) ops"
  shows "(dget (wd_states w) s = Some st \<longrightarrow> st = told (wd_alerts w) s)
    \<and> set (wd_blocked w) = {s. dget (wd_states w) s = Some BLOCKED}
    \<and> set (active_sources w) = {s. is_source_active w s} \<and> distinct (active_sources w)
    \<and> (is_source_active w s \<longleftrightarrow> s \<in> set (dkeys (wd_states w)) \<and> told (wd_alerts w) s = HEALTHY)"
proof -
  have i: "wd_inv w" unfolding assms by (rule wd_run_inv [OF wd_init_inv])
  then have d: "distinct (map fst (wd_states w))" by (simp add: wd_inv_def dwf_def)
  have t: "dgetd (wd_states w) s HEALTHY = told (wd_alerts w) s" for s using i by (simp add: wd_inv_def)
  have m: "(s, st) \<in> set (wd_states w) \<longleftrightarrow> dget (wd_states w) s = Some st" for s st using d by (auto dest: map_of_SomeD)
  have "set (active_sources w) = {s. is_source_active w s}" by (force simp: active_sources_def is_source_active_def m [symmetric])
  moreover have "distinct (active_sources w)" unfolding active_sources_def using d by (rule distinct_map_filter)
  moreover have "is_source_active w s \<longleftrightarrow> s \<in> set (dkeys (wd_states w)) \<and> told (wd_alerts w) s = HEALTHY"
    using t [of s] map_of_eq_None_iff [of "wd_states w" s] by (auto simp: is_source_active_def dgetd_def split: option.splits)
  moreover have "dget (wd_states w) s = Some st \<longrightarrow> st = told (wd_alerts w) s" using t [of s] by (auto simp: dgetd_def)
  moreover have "set (wd_blocked w) = {s. dget (wd_states w) s = Some BLOCKED}" using i by (auto simp: wd_inv_def)
  ultimately show ?thesis by blast
qed

section \<open>Verdicts\<close>

lemma observed_state:
  assumes "wd_inv w"
  shows "dget (wd_states (fst (wd_observe scores mclk e w))) s = (case dget (wd_states (note_seen e mclk w)) s of None \<Rightarrow> None
     | Some st \<Rightarrow> Some (judged scores e (dget (wd_last_seen w) (we_source e)) (note_seen e mclk w) s st))"
  using obs.all_rounds(3) [OF note_seen_inv [OF assms]]
  by (simp add: wd_observe_def Let_def)

text \<open>When a source last sent an event, told from the operations alone.\<close>

fun hear :: "string \<Rightarrow> f64 option \<Rightarrow> wd_op \<Rightarrow> f64 option" where
  "hear s t (WObserve scores mclk e) = (if we_source e = s then Some (we_now e) else t)"
| "hear s t _ = t"

definition last_event :: "string \<Rightarrow> wd_op list \<Rightarrow> f64 option" where
  "last_event s ops = foldl (hear s) None ops"

definition same_limits :: "watchdog \<Rightarrow> watchdog \<Rightarrow> bool" where
  "same_limits w w' = (wd_silence w' = wd_silence w \<and> wd_degradation w' = wd_degradation w \<and> wd_recovery w' = wd_recovery w)"

lemma wd_step_seen:
  assumes "wd_inv w"
  shows "dget (wd_last_seen (wd_step w x)) s = hear s (dget (wd_last_seen w) s) x \<and> same_limits w (wd_step w x)"
proof (cases x)
  case (WObserve scores mclk e)
  then show ?thesis
    using obs.all_rounds(2) [OF note_seen_inv [OF assms, of e mclk], of scores e "dget (wd_last_seen w) (we_source e)"]
    by (simp add: wd_observe_def Let_def same_inputs_def same_limits_def dict_simps)
next
  case (WCheck time mclk wall)
  then show ?thesis using sil.all_rounds(2) [OF assms, of time mclk wall] by (simp add: check_silence_def Let_def same_inputs_def same_limits_def)
next
  case (WBeat mclk wall)
  then show ?thesis using sil.all_rounds(2) [OF assms, of None mclk wall]
    by (simp add: heartbeat_turn_def check_silence_def Let_def same_inputs_def same_limits_def)
qed (auto simp: wd_block_source_def wd_unblock_source_def observe_shm_watermark_def record_halt_def record_resume_def
       start_heartbeat_def stop_heartbeat_def push_alert_def same_limits_def)

lemma wd_run_seen:
  "wd_inv w \<Longrightarrow> dget (wd_last_seen (foldl wd_step w ops)) s = foldl (hear s) (dget (wd_last_seen w) s) ops \<and> same_limits w (foldl wd_step w ops)"
proof (induction ops arbitrary: w)
  case (Cons x ops)
  show ?case using Cons.IH [OF wd_step_inv [OF Cons.prems, of x]] wd_step_seen [OF Cons.prems, of x s] by (simp add: same_limits_def)
qed (simp add: same_limits_def)

text \<open>
  C23: a healthy verdict is justified.  In any reachable state, after an event every source in state \<open>HEALTHY\<close> has sent its last event
  (at time 0 if it never sent one) no longer before the time of the event than the silence threshold, and its score is not below the
  degradation threshold; a source that was \<open>SILENT\<close> or \<open>DEGRADED\<close> before is \<open>HEALTHY\<close> only if its score reaches the recovery threshold; a
  source whose last event is older is \<open>SILENT\<close> unless it is blocked; and an event neither blocks nor unblocks a source.
\<close>

theorem healthy_means_fresh_and_reliable:
  assumes "w = foldl wd_step (watchdog_init silence degradation recovery min_ticks multiplier per_source) ops"
    and "w' = fst (wd_observe scores mclk e w)" and "dget (wd_states w') s = Some st"
    and "heard = (case last_event s (ops @ [WObserve scores mclk e]) of None \<Rightarrow> 0 | Some t \<Rightarrow> t)"
  shows "(st = HEALTHY \<longrightarrow> \<not> flt silence (fsub (we_now e) heard) \<and> \<not> flt (dgetd scores s 0x3FF0000000000000) degradation
      \<and> (dget (wd_states w) s \<in> {Some SILENT, Some DEGRADED} \<longrightarrow> fle recovery (dgetd scores s 0x3FF0000000000000)))
    \<and> (flt silence (fsub (we_now e) heard) \<longrightarrow> st \<in> {SILENT, BLOCKED})
    \<and> (st = BLOCKED \<longleftrightarrow> dget (wd_states w) s = Some BLOCKED)"
proof -
  let ?i = "watchdog_init silence degradation recovery min_ticks multiplier per_source"
  have i: "wd_inv w" unfolding assms(1) by (rule wd_run_inv [OF wd_init_inv])
  let ?n = "note_seen e mclk w"
  obtain old where old: "dget (wd_states ?n) s = Some old" "st = judged scores e (dget (wd_last_seen w) (we_source e)) ?n s old"
    using observed_state [OF i, of scores mclk e s] assms(2,3) by (auto split: option.splits)
  have r: "dget (wd_last_seen w) s = last_event s ops" "wd_silence w = silence" "wd_degradation w = degradation" "wd_recovery w = recovery"
    using wd_run_seen [OF wd_init_inv, of silence degradation recovery min_ticks multiplier per_source ops s] assms(1)
    by (simp_all add: last_event_def same_limits_def watchdog_init_def)
  have h: "dgetd (wd_last_seen ?n) s 0 = heard"
    using r(1) assms(4) by (auto simp: dgetd_def dict_simps last_event_def)
  have o: "old = HEALTHY \<and> dget (wd_states w) s = None \<or> dget (wd_states w) s = Some old"
    using old(1) unfolding known_state by (auto split: if_splits)
  show ?thesis using old(2) o unfolding h [symmetric] r(2-4) [symmetric]
    by (auto simp: judged_def next_state_def fixed_silent_def R_1_def split: if_splits)
qed

section \<open>Blocked sources\<close>

lemma wd_step_blocked:
  assumes "wd_inv w" and "dget (wd_states w) s = Some BLOCKED" and "\<forall>t. x \<noteq> WUnblock s t"
  shows "dget (wd_states (wd_step w x)) s = Some BLOCKED"
proof (cases x)
  case (WObserve scores mclk e)
  have "dget (wd_states (note_seen e mclk w)) s = Some BLOCKED" unfolding known_state using assms(2) by simp
  then show ?thesis using observed_state [OF assms(1), of scores mclk e s] WObserve by (simp add: judged_def)
next
  case (WCheck time mclk wall)
  then show ?thesis using sil.all_rounds(3) [OF assms(1), of time mclk wall s] assms(2) by (simp add: check_silence_def Let_def hushed_def)
next
  case (WBeat mclk wall)
  then show ?thesis using sil.all_rounds(3) [OF assms(1), of None mclk wall s] assms(2)
    by (simp add: heartbeat_turn_def check_silence_def Let_def hushed_def)
qed (use assms(2,3) in \<open>auto simp: wd_block_source_def wd_unblock_source_def observe_shm_watermark_def record_halt_def record_resume_def
       start_heartbeat_def stop_heartbeat_def push_alert_def dict_simps\<close>)

lemma wd_run_blocked:
  "wd_inv w \<Longrightarrow> dget (wd_states w) s = Some BLOCKED \<Longrightarrow> \<forall>t. WUnblock s t \<notin> set ops \<Longrightarrow> dget (wd_states (foldl wd_step w ops)) s = Some BLOCKED"
proof (induction ops arbitrary: w)
  case (Cons x ops)
  then have "dget (wd_states (wd_step w x)) s = Some BLOCKED" by (intro wd_step_blocked) auto
  then show ?case using Cons by (simp add: wd_step_inv)
qed simp

lemma best_side_source:
  "best_side bid off bk (p, z, s) = (p', z', s') \<Longrightarrow> s' = s \<or> s' \<in> fst ` set bk"
proof (induction bk arbitrary: p z s)
  case (Cons x bk)
  then show ?case by (cases x) (auto split: option.splits if_splits; fastforce)
qed simp

lemma nbbo_sources:
  assumes "bbo_observe active ev e = (e', Inr (Some b))" and "src \<noteq> []" and "src \<in> {cb_best_bid_source b, cb_best_ask_source b}"
  shows "active src"
proof -
  obtain e1 bk0 where en: "enter_instrument (instrument_id ev) e = Inr (e1, bk0)"
    using assms(1) by (auto simp: bbo_observe_def Let_def split: if_splits sum.splits)
  let ?bk = "prune active (be_ttl e) (exchange_timestamp ev) (put_quote active ev bk0)"
  have con: "consolidate (instrument_id ev) (exchange_timestamp ev) ?bk = Inr b"
    using assms(1) en by (auto simp: bbo_observe_def Let_def split: if_splits sum.splits)
  obtain bb bsz bsrc ba asz asrc where sides: "best_bid_of ?bk = (bb, bsz, bsrc)" "best_ask_of ?bk = (ba, asz, asrc)"
    by (metis prod_cases3)
  have "cb_best_bid_source b = bsrc" "cb_best_ask_source b = asrc" using con sides by (auto simp: consolidate_def Let_def bindr_Inr)
  then have "src \<in> fst ` set ?bk" using assms(2,3) sides best_side_source unfolding best_bid_of_def best_ask_of_def by blast
  then show ?thesis using prune_alive by fastforce
qed

text \<open>
  A blocked feed is kept out of the market.  Once a source has been blocked, and until it is unblocked, no sequence of events,
  checks and heartbeats makes it active again, and the consolidated quote that is computed with this watchdog never names it as the
  source of the best bid or of the best offer.
\<close>

theorem blocked_feed_is_kept_out:
  assumes "w = foldl wd_step (watchdog_init silence degradation recovery min_ticks multiplier per_source) (before @ WBlock s t # after)"
    and "\<forall>t'. WUnblock s t' \<notin> set after" and "s \<noteq> []"
    and "bbo_observe (is_source_active w) ev e = (e', Inr (Some b))"
  shows "\<not> is_source_active w s \<and> s \<notin> set (active_sources w) \<and> cb_best_bid_source b \<noteq> s \<and> cb_best_ask_source b \<noteq> s"
proof -
  let ?b = "foldl wd_step (watchdog_init silence degradation recovery min_ticks multiplier per_source) (before @ [WBlock s t])"
  have i: "wd_inv ?b" by (rule wd_run_inv [OF wd_init_inv])
  have "dget (wd_states ?b) s = Some BLOCKED" by (simp add: wd_block_source_def push_alert_def dict_simps)
  then have w: "dget (wd_states w) s = Some BLOCKED" using wd_run_blocked [OF i _ assms(2)] assms(1) by simp
  have "wd_inv w" unfolding assms(1) by (rule wd_run_inv [OF wd_init_inv])
  then have d: "distinct (map fst (wd_states w))" by (simp add: wd_inv_def dwf_def)
  have "s \<notin> set (active_sources w)"
  proof
    assume "s \<in> set (active_sources w)"
    then have "(s, HEALTHY) \<in> set (wd_states w)" by (auto simp: active_sources_def)
    then show False using w map_of_is_SomeI [OF d] by fastforce
  qed
  then show ?thesis using w nbbo_sources [OF assms(4), of s] assms(3) by (auto simp: is_source_active_def)
qed


section \<open>Examples\<close>

definition demo_tick :: "string \<Rightarrow> f64 \<Rightarrow> wd_event" where
  "demo_tick s t = \<lparr>we_source = s, we_now = t, we_instrument = ''I'', we_type = ''QUOTE'', we_status = []\<rparr>"

definition demo_dog :: watchdog where
  "demo_dog = watchdog_init R_2 0x3FECCCCCCCCCCCCD 0x3FEDC28F5C28F5C3 20 0x4024000000000000 []"

definition demo_watch :: "wd_op list" where
  "demo_watch = [WObserve [] 0 (demo_tick ''A'' R_1), WBlock ''B'' 0]"

lemma demo_watch_states: "wd_states (foldl wd_step demo_dog demo_watch) = [(''A'', HEALTHY), (''B'', BLOCKED)]"
  by code_simp

theorem alerts_tell_the_states_witness:
  "told (wd_alerts (foldl wd_step demo_dog demo_watch)) ''B'' = BLOCKED \<and> is_source_active (foldl wd_step demo_dog demo_watch) ''A''"
proof -
  let ?w = "foldl wd_step demo_dog demo_watch"
  have w: "?w = foldl wd_step (watchdog_init R_2 0x3FECCCCCCCCCCCCD 0x3FEDC28F5C28F5C3 20 0x4024000000000000 []) demo_watch" by (simp add: demo_dog_def)
  have "dget (wd_states ?w) ''B'' = Some BLOCKED" by (simp add: demo_watch_states)
  then show ?thesis using alerts_tell_the_states [OF w, of "''B''" BLOCKED] by (simp add: is_source_active_def demo_watch_states)
qed

theorem healthy_means_fresh_and_reliable_witness:
  "dget (wd_states (fst (wd_observe [] 0 (demo_tick ''C'' R_100) (foldl wd_step demo_dog demo_watch)))) ''A'' = Some SILENT
   \<and> dget (wd_states (fst (wd_observe [] 0 (demo_tick ''C'' R_100) (foldl wd_step demo_dog demo_watch)))) ''C'' = Some HEALTHY
   \<and> \<not> flt R_2 (fsub R_100 R_100)"
proof -
  let ?w = "foldl wd_step demo_dog demo_watch"
  let ?w' = "fst (wd_observe [] 0 (demo_tick ''C'' R_100) ?w)"
  have w: "?w = foldl wd_step (watchdog_init R_2 0x3FECCCCCCCCCCCCD 0x3FEDC28F5C28F5C3 20 0x4024000000000000 []) demo_watch" by (simp add: demo_dog_def)
  have s: "dget (wd_states ?w') ''C'' = Some HEALTHY" "dget (wd_states ?w') ''A'' = Some SILENT" by code_simp+
  show ?thesis using healthy_means_fresh_and_reliable [OF w refl s(1) refl] s
    by (simp add: demo_tick_def last_event_def demo_watch_def)
qed

theorem blocked_feed_is_kept_out_witness:
  "\<exists>e' b. bbo_observe (is_source_active (foldl wd_step demo_dog demo_watch)) (demo_quote ''A'' (Some 0x4058800000000000) (Some 0x4058E00000000000)) demo_bbo
      = (e', Inr (Some b)) \<and> cb_best_bid_source b \<noteq> ''B'' \<and> \<not> is_source_active (foldl wd_step demo_dog demo_watch) ''B''"
proof -
  let ?w = "foldl wd_step demo_dog demo_watch"
  let ?r = "bbo_observe (is_source_active ?w) (demo_quote ''A'' (Some 0x4058800000000000) (Some 0x4058E00000000000)) demo_bbo"
  have w: "?w = foldl wd_step (watchdog_init R_2 0x3FECCCCCCCCCCCCD 0x3FEDC28F5C28F5C3 20 0x4024000000000000 [])
      ([WObserve [] 0 (demo_tick ''A'' R_1)] @ WBlock ''B'' 0 # [])" by (simp add: demo_dog_def demo_watch_def)
  have "(case snd ?r of Inr (Some b) \<Rightarrow> True | _ \<Rightarrow> False)" by code_simp
  then obtain e' b where r: "?r = (e', Inr (Some b))" by (cases ?r) (auto split: sum.splits option.splits)
  show ?thesis using blocked_feed_is_kept_out [OF w _ _ r] r by simp
qed

text \<open>An event that only says an instrument trades again has no payload once it is canonical, so the halt is never lifted.\<close>

lemma canonical_event_never_resumes:
  "i \<in> set (wd_halted w) \<Longrightarrow> i \<in> set (wd_halted (note_seen (wd_canonical ev) mclk w))"
  by (auto simp: note_seen_def note_halt_def wd_canonical_def Let_def split: option.splits)

text \<open>A feed with a long threshold of its own is marked silent by the next event of another feed.\<close>

lemma own_threshold_is_ignored:
  "let w = foldl wd_step (watchdog_init R_2 0 0 20 0x4024000000000000 [(''A'', R_1000)]) [WObserve [] 0 (demo_tick ''A'' R_1)]
   in wd_states (fst (check_silence (Some R_100) 0 0 w)) = [(''A'', HEALTHY)]
      \<and> wd_states (fst (wd_observe [] 0 (demo_tick ''C'' R_100) w)) = [(''A'', SILENT), (''C'', HEALTHY)]"
  by code_simp

end
