(* ===== verification/Replication.thy ===== *)
theory Replication
  imports Pystruct
begin

text \<open>
  Journal replication of \<open>journal_replicator.py\<close>: the frame format, the standby that receives frames, fences stale epochs and stores
  payloads, and the primary's client with its spool, acknowledgements and reconnect backoff.  What the network does with every
  transmission and every attempt to connect, and the clock, are arguments.  The standby's log is the list of stored payloads when the
  target has a method \<open>append_raw\<close>, and \<open>None\<close> when there is no target or it lacks that method.
\<close>

section \<open>Frames\<close>

definition REPL_MAGIC :: int where "REPL_MAGIC = 0x5245504C"
definition REPL_VERSION :: int where "REPL_VERSION = 1"
definition MSG_FRAME_DATA :: int where "MSG_FRAME_DATA = 1"
definition MSG_ACK :: int where "MSG_ACK = 3"
definition MSG_ERROR :: int where "MSG_ERROR = 4"
definition REPL_HEADER_SIZE :: nat where "REPL_HEADER_SIZE = 32"

definition pack_replication_frame :: "int \<Rightarrow> int \<Rightarrow> int \<Rightarrow> bytes \<Rightarrow> bytes res" where
  "pack_replication_frame msg_type seq epoch payload =
     (let len = int (length payload)
      in bindr (spack BE [FI, FH, FH, FQ, FQ, FI] [VI REPL_MAGIC, VI REPL_VERSION, VI msg_type, VI seq, VI epoch, VI len]) (\<lambda>prefix.
         bindr (spack BE [FI, FH, FH, FQ, FQ, FI, FI] [VI REPL_MAGIC, VI REPL_VERSION, VI msg_type, VI seq, VI epoch, VI len,
                  VI (uint (crc32 (prefix @ payload)))]) (\<lambda>header.
           Inr (header @ payload))))"

definition unpack_replication_header :: "bytes \<Rightarrow> (int \<times> int \<times> int \<times> int \<times> int \<times> int) res" where
  "unpack_replication_header hdr =
     (if length hdr < REPL_HEADER_SIZE then Inl ValueError
      else bindr (sunpack BE [FI, FH, FH, FQ, FQ, FI, FI] hdr) (\<lambda>vs.
        case vs of
          [VI magic, VI ver, VI msg_type, VI seq, VI epoch, VI len, VI crc] \<Rightarrow>
            if magic \<noteq> REPL_MAGIC then Inl ValueError else Inr (ver, msg_type, seq, epoch, len, crc)
        | _ \<Rightarrow> Inl ValueError))"

record repl_stats =
  frames_sent :: int
  bytes_sent :: int
  frames_received :: int
  bytes_received :: int
  acks_received :: int
  repl_errors :: int
  stale_epoch_rejections :: int
  crc_failures :: int
  repl_last_seq :: int
  spool_queued :: int
  spool_dropped :: int

definition repl_stats_init :: repl_stats where
  "repl_stats_init = \<lparr>frames_sent = 0, bytes_sent = 0, frames_received = 0, bytes_received = 0, acks_received = 0, repl_errors = 0,
     stale_epoch_rejections = 0, crc_failures = 0, repl_last_seq = 0, spool_queued = 0, spool_dropped = 0\<rparr>"

section \<open>The standby\<close>

record standby =
  sb_log :: "bytes list option"
  sb_epoch :: "int option"
  sb_stats :: repl_stats
  sb_open :: bool

definition sb_count :: "(repl_stats \<Rightarrow> repl_stats) \<Rightarrow> standby \<Rightarrow> standby" where
  "sb_count f s = s\<lparr>sb_stats := f (sb_stats s)\<rparr>"

definition one_error :: "repl_stats \<Rightarrow> repl_stats" where
  "one_error st = st\<lparr>repl_errors := repl_errors st + 1\<rparr>"

definition store_payload :: "bytes \<Rightarrow> standby \<Rightarrow> standby" where
  "store_payload payload s = s\<lparr>sb_log := map_option (\<lambda>l. l @ [payload]) (sb_log s)\<rparr>"

text \<open>
  One round of \<open>_handle_client\<close> on the bytes that arrive before the connection ends: the standby, the bytes sent back, what is left, and
  whether the loop goes on.  A reply that cannot be packed raises and ends the loop.
\<close>

definition answer :: "bytes res \<Rightarrow> bytes \<Rightarrow> bool \<Rightarrow> standby \<Rightarrow> standby \<times> bytes \<times> bytes \<times> bool" where
  "answer reply rest again s =
     (case reply of Inl e \<Rightarrow> (sb_count one_error s, [], rest, False) | Inr r \<Rightarrow> (s, r, rest, again))"

definition stale_text :: bytes where
  "stale_text = map of_char ''STALE_EPOCH''"

definition crc_text :: bytes where
  "crc_text = map of_char ''CRC_FAILURE''"

definition serve_one :: "bytes \<Rightarrow> standby \<Rightarrow> standby \<times> bytes \<times> bytes \<times> bool" where
  "serve_one bs s =
     (let hdr = take REPL_HEADER_SIZE bs
      in if hdr = [] then (s, [], [], False)
         else case unpack_replication_header hdr of
           Inl e \<Rightarrow> (sb_count one_error s, [], drop REPL_HEADER_SIZE bs, False)
         | Inr (ver, msg_type, seq, epoch, len, expected_crc) \<Rightarrow>
             if (case sb_epoch s of None \<Rightarrow> False | Some e \<Rightarrow> epoch < e)
             then answer (pack_replication_frame MSG_ERROR seq (the (sb_epoch s)) stale_text) (drop REPL_HEADER_SIZE bs) False
                    (sb_count (\<lambda>st. st\<lparr>stale_epoch_rejections := stale_epoch_rejections st + 1\<rparr>) s)
             else
               let payload = take (nat len) (drop REPL_HEADER_SIZE bs); rest = drop (REPL_HEADER_SIZE + nat len) bs
               in if int (length payload) \<noteq> len then (sb_count one_error s, [], rest, False)
                  else if uint (crc32 (take 28 hdr @ payload)) \<noteq> expected_crc
                  then answer (pack_replication_frame MSG_ERROR seq epoch crc_text) rest True
                         (sb_count (\<lambda>st. one_error (st\<lparr>crc_failures := crc_failures st + 1\<rparr>)) s)
                  else
                    let s1 = sb_count (\<lambda>st. st\<lparr>frames_received := frames_received st + 1,
                               bytes_received := bytes_received st + int REPL_HEADER_SIZE + len, repl_last_seq := seq\<rparr>) s
                    in if msg_type = MSG_FRAME_DATA
                       then answer (pack_replication_frame MSG_ACK seq epoch []) rest True (store_payload payload s1)
                       else (s1, [], rest, True))"

text \<open>The loop on one connection; every round that goes on has used up a header.\<close>

function serve :: "bytes \<Rightarrow> standby \<Rightarrow> standby \<times> bytes" where
  "serve bs s =
     (case serve_one bs s of
        (s1, reply, rest, again) \<Rightarrow>
          if again \<and> rest \<noteq> [] \<and> length rest < length bs
          then (case serve rest s1 of (s2, back) \<Rightarrow> (s2, reply @ back))
          else (s1\<lparr>sb_open := again\<rparr>, reply))"
  by pat_completeness auto
termination by (relation "measure (\<lambda>(bs, s). length bs)") auto

declare serve.simps [simp del]

section \<open>The client\<close>

record repl_client =
  cl_epoch :: int
  cl_max_spool :: int
  cl_backoff :: f64
  cl_max_backoff :: f64
  cl_stats :: repl_stats
  cl_conn :: bool
  cl_inbox :: bytes
  cl_spool :: "(int \<times> bytes) list"
  cl_next :: f64
  cl_cur :: f64

type_synonym repl_sys = "repl_client \<times> standby"

definition client_init :: "int \<Rightarrow> int \<Rightarrow> f64 \<Rightarrow> f64 \<Rightarrow> repl_client" where
  "client_init epoch max_spool backoff max_backoff =
     \<lparr>cl_epoch = epoch, cl_max_spool = max_spool, cl_backoff = backoff, cl_max_backoff = max_backoff, cl_stats = repl_stats_init,
      cl_conn = False, cl_inbox = [], cl_spool = [], cl_next = 0, cl_cur = backoff\<rparr>"

definition cl_count :: "(repl_stats \<Rightarrow> repl_stats) \<Rightarrow> repl_client \<Rightarrow> repl_client" where
  "cl_count f c = c\<lparr>cl_stats := f (cl_stats c)\<rparr>"

definition R_TWO :: f64 where "R_TWO = 0x4000000000000000"

text \<open>The clock before and after the attempt, and whether the peer accepts.\<close>

record attempt =
  at_now :: f64
  at_ok :: bool
  at_later :: f64

definition repl_connect :: "attempt \<Rightarrow> repl_sys \<Rightarrow> repl_sys \<times> bool" where
  "repl_connect a cs =
     (let (c, s) = cs
      in if flt (at_now a) (cl_next c) then (cs, False)
         else if at_ok a
         then ((c\<lparr>cl_conn := True, cl_inbox := [], cl_cur := cl_backoff c, cl_next := 0\<rparr>, s\<lparr>sb_open := True\<rparr>), True)
         else ((c\<lparr>cl_conn := False, cl_next := fadd (at_later a) (cl_cur c), cl_cur := fmin (cl_max_backoff c) (fmul (cl_cur c) R_TWO)\<rparr>, s), False))"

definition repl_close :: "repl_sys \<Rightarrow> repl_sys" where
  "repl_close cs = (let (c, s) = cs in if cl_conn c then (c\<lparr>cl_conn := False, cl_inbox := []\<rparr>, s\<lparr>sb_open := False\<rparr>) else cs)"

text \<open>
  What becomes of a transmission: \<open>sendall\<close> raises after some bytes got through; it returns and the standby gets the frame, and its
  reply arrives or not; or it returns and the frame never arrives.
\<close>

datatype link = SendFails nat | Delivered bool | Vanished

definition transmit :: "link \<Rightarrow> bytes \<Rightarrow> standby \<Rightarrow> standby \<times> bytes \<times> bool" where
  "transmit l frame s =
     (case l of
        SendFails n \<Rightarrow> (if sb_open s then fst (serve (take n frame) s) else s, [], False)
      | Delivered reply \<Rightarrow>
          if sb_open s then (case serve frame s of (s1, r) \<Rightarrow> (s1, if reply then r else [], True)) else (s, [], True)
      | Vanished \<Rightarrow> (s, [], True))"

definition wire_failed :: "repl_sys \<Rightarrow> repl_sys \<times> bool res" where
  "wire_failed cs = (repl_close (cl_count one_error (fst cs), snd cs), Inr False)"

definition read_ack :: "int \<Rightarrow> repl_sys \<Rightarrow> repl_sys \<times> bool res" where
  "read_ack seq cs =
     (let (c, s) = cs; hdr = take REPL_HEADER_SIZE (cl_inbox c); c1 = c\<lparr>cl_inbox := drop REPL_HEADER_SIZE (cl_inbox c)\<rparr>
      in if length hdr < REPL_HEADER_SIZE then wire_failed cs
         else case unpack_replication_header hdr of
           Inl e \<Rightarrow> wire_failed cs
         | Inr (ver, msg_type, ack_seq, ack_epoch, len, crc) \<Rightarrow>
             if msg_type = MSG_ACK \<and> ack_seq = seq
             then ((cl_count (\<lambda>st. st\<lparr>acks_received := acks_received st + 1\<rparr>) c1, s), Inr True)
             else if msg_type = MSG_ERROR then wire_failed cs
             else ((c1, s), Inr True))"

definition send_wire :: "link \<Rightarrow> int \<Rightarrow> bytes \<Rightarrow> bool \<Rightarrow> repl_sys \<Rightarrow> repl_sys \<times> bool res" where
  "send_wire l seq payload wait_ack cs =
     (let (c, s) = cs
      in if \<not> cl_conn c then (cs, Inr False)
         else case pack_replication_frame MSG_FRAME_DATA seq (cl_epoch c) payload of
           Inl e \<Rightarrow> (cs, Inl e)
         | Inr frame \<Rightarrow>
             (case transmit l frame s of
                (s1, reply, sent) \<Rightarrow>
                  if \<not> sent then wire_failed (c, s1)
                  else
                    let c1 = cl_count (\<lambda>st. st\<lparr>frames_sent := frames_sent st + 1, bytes_sent := bytes_sent st + int (length frame),
                               repl_last_seq := seq\<rparr>) (c\<lparr>cl_inbox := cl_inbox c @ reply\<rparr>)
                    in if wait_ack then read_ack seq (c1, s1) else ((c1, s1), Inr True)))"

definition hd_link :: "link list \<Rightarrow> link" where
  "hd_link ls = (case ls of [] \<Rightarrow> SendFails 0 | l # _ \<Rightarrow> l)"

text \<open>The loop of \<open>flush_spool\<close> over the spooled frames.\<close>

fun drain_spool :: "(int \<times> bytes) list \<Rightarrow> link list \<Rightarrow> repl_sys \<Rightarrow> repl_sys \<times> link list \<times> int res" where
  "drain_spool [] ls cs = (cs, ls, Inr 0)"
| "drain_spool ((seq, payload) # fs) ls cs =
     (if \<not> cl_conn (fst cs) then (cs, ls, Inr 0)
      else case send_wire (hd_link ls) seq payload True cs of
        (cs1, Inl e) \<Rightarrow> (cs1, tl ls, Inl e)
      | (cs1, Inr ok) \<Rightarrow>
          if \<not> ok then (cs1, tl ls, Inr 0)
          else (case drain_spool fs (tl ls) (cl_count (\<lambda>st. st\<lparr>spool_queued := int (length fs)\<rparr>) ((fst cs1)\<lparr>cl_spool := fs\<rparr>), snd cs1) of
                  (cs2, ls2, r) \<Rightarrow> (cs2, ls2, bindr r (\<lambda>n. Inr (n + 1)))))"

definition flush_spool :: "attempt \<Rightarrow> link list \<Rightarrow> repl_sys \<Rightarrow> repl_sys \<times> link list \<times> int res" where
  "flush_spool a ls cs =
     (let (cs1, up) = (if cl_conn (fst cs) then (cs, True) else repl_connect a cs)
      in if up then drain_spool (cl_spool (fst cs1)) ls cs1 else (cs1, ls, Inr 0))"

definition spool_frame :: "int \<Rightarrow> bytes \<Rightarrow> repl_client \<Rightarrow> repl_client \<times> bool res" where
  "spool_frame seq payload c =
     (let add = (\<lambda>c. cl_count (\<lambda>st. st\<lparr>spool_queued := int (length (cl_spool c) + 1)\<rparr>) (c\<lparr>cl_spool := cl_spool c @ [(seq, payload)]\<rparr>))
      in if cl_max_spool c \<le> int (length (cl_spool c))
         then (case cl_spool c of
                 [] \<Rightarrow> (c, Inl IndexError)
               | f # fs \<Rightarrow> (add (cl_count (\<lambda>st. st\<lparr>spool_dropped := spool_dropped st + 1\<rparr>) (c\<lparr>cl_spool := fs\<rparr>)), Inr False))
         else (add c, Inr False))"

definition send_frame :: "attempt \<Rightarrow> link list \<Rightarrow> int \<Rightarrow> bytes \<Rightarrow> bool \<Rightarrow> repl_sys \<Rightarrow> repl_sys \<times> bool res" where
  "send_frame a ls seq payload wait_ack cs =
     (case (if cl_spool (fst cs) \<noteq> [] then flush_spool a ls cs else (cs, ls, Inr 0)) of
        (cs1, ls1, Inl e) \<Rightarrow> (cs1, Inl e)
      | (cs1, ls1, Inr n) \<Rightarrow>
          (case (if cl_conn (fst cs1) \<and> cl_spool (fst cs1) = [] then send_wire (hd_link ls1) seq payload wait_ack cs1 else (cs1, Inr False)) of
             (cs2, Inl e) \<Rightarrow> (cs2, Inl e)
           | (cs2, Inr True) \<Rightarrow> (cs2, Inr True)
           | (cs2, Inr False) \<Rightarrow> (case spool_frame seq payload (fst cs2) of (c, r) \<Rightarrow> ((c, snd cs2), r))))"

end
