(* ===== verification/Replication_Props.thy ===== *)
theory Replication_Props
  imports Replication
begin

text \<open>
  What replication guarantees: frames survive the wire, the standby stores what the primary sent, in order and repeated only by
  retransmission; a primary of an older epoch stores nothing; a damaged frame is not stored.
\<close>

section \<open>Frames on the wire\<close>

definition frame_in_range :: "int \<Rightarrow> int \<Rightarrow> int \<Rightarrow> bytes \<Rightarrow> bool" where
  "frame_in_range mt seq epoch payload = (0 \<le> mt \<and> mt < 65536 \<and> 0 \<le> seq \<and> seq < 2 ^ 64 \<and> 0 \<le> epoch \<and> epoch < 2 ^ 64 \<and> length payload < 2 ^ 32)"

lemma packed_frame:
  assumes "frame_in_range mt seq epoch payload"
  obtains prefix hdr where "pack_replication_frame mt seq epoch payload = Inr (hdr @ payload)" and "length prefix = 28" and "length hdr = 32"
    and "take 28 hdr = prefix"
    and "unpack_replication_header hdr = Inr (REPL_VERSION, mt, seq, epoch, int (length payload), uint (crc32 (prefix @ payload)))"
proof -
  let ?fs = "[FI, FH, FH, FQ, FQ, FI]" and ?vs = "[VI REPL_MAGIC, VI REPL_VERSION, VI mt, VI seq, VI epoch, VI (int (length payload))]"
  have r: "0 \<le> mt" "mt < 256 ^ 2" "0 \<le> seq" "seq < 256 ^ 8" "0 \<le> epoch" "epoch < 256 ^ 8" "int (length payload) < 256 ^ 4"
    using assms by (simp_all add: frame_in_range_def)
  have m: "0 \<le> REPL_MAGIC" "REPL_MAGIC < 256 ^ 4" "0 \<le> REPL_VERSION" "REPL_VERSION < 256 ^ 2" by (simp_all add: REPL_MAGIC_def REPL_VERSION_def)
  have "\<exists>prefix. spack BE ?fs ?vs = Inr prefix" using r m by (simp add: spack_uint)
  then obtain prefix where p: "spack BE ?fs ?vs = Inr prefix" ..
  let ?crc = "uint (crc32 (prefix @ payload))"
  have "\<exists>cb. spack BE [FI] [VI ?crc] = Inr cb" using uint_bounded [of "crc32 (prefix @ payload)"] by (simp add: spack_uint)
  then obtain cb where c: "spack BE [FI] [VI ?crc] = Inr cb" ..
  have h: "spack BE (?fs @ [FI]) (?vs @ [VI ?crc]) = Inr (prefix @ cb)" using spack_append [OF p c] .
  have l: "length prefix = 28" "length cb = 4" using spack_length [OF p] spack_length [OF c] by (simp_all add: calcsize_def)
  have "sunpack BE (?fs @ [FI]) (prefix @ cb) = Inr (map2 canon (?fs @ [FI]) (?vs @ [VI ?crc]))" by (rule sunpack_spack [OF h])
  then have "unpack_replication_header (prefix @ cb) = Inr (REPL_VERSION, mt, seq, epoch, int (length payload), ?crc)"
    using l by (simp add: unpack_replication_header_def REPL_HEADER_SIZE_def)
  moreover have "pack_replication_frame mt seq epoch payload = Inr ((prefix @ cb) @ payload)"
    using p h by (simp add: pack_replication_frame_def Let_def)
  ultimately show thesis using that [of "prefix @ cb" prefix] l by simp
qed


section \<open>The standby\<close>

lemma sb_count_fields [simp]: "sb_log (sb_count f s) = sb_log s" "sb_epoch (sb_count f s) = sb_epoch s" "sb_open (sb_count f s) = sb_open s"
  by (simp_all add: sb_count_def)

lemma store_fields [simp]: "sb_log (store_payload p s) = map_option (\<lambda>l. l @ [p]) (sb_log s)" "sb_epoch (store_payload p s) = sb_epoch s"
  by (simp_all add: store_payload_def)

definition fresh_epoch :: "int \<Rightarrow> standby \<Rightarrow> bool" where
  "fresh_epoch epoch s = (case sb_epoch s of None \<Rightarrow> True | Some e \<Rightarrow> e \<le> epoch)"

lemma serve_data:
  assumes r: "frame_in_range MSG_FRAME_DATA seq epoch payload" and "fresh_epoch epoch s"
    and f: "pack_replication_frame MSG_FRAME_DATA seq epoch payload = Inr frame"
  obtains s' ack where "serve frame s = (s', ack)" and "sb_log s' = map_option (\<lambda>l. l @ [payload]) (sb_log s)" and "sb_epoch s' = sb_epoch s"
    and "length ack = 32" and "\<exists>crc. unpack_replication_header ack = Inr (REPL_VERSION, MSG_ACK, seq, epoch, 0, crc)" and "sb_open s'"
proof -
  obtain prefix hdr where h: "frame = hdr @ payload" "length hdr = 32" "take 28 hdr = prefix"
    "unpack_replication_header hdr = Inr (REPL_VERSION, MSG_FRAME_DATA, seq, epoch, int (length payload), uint (crc32 (prefix @ payload)))"
    using packed_frame [OF r] f by (metis sum.inject(2))
  have ra: "frame_in_range MSG_ACK seq epoch []" using r by (simp add: frame_in_range_def MSG_ACK_def)
  obtain ahdr aprefix where a: "pack_replication_frame MSG_ACK seq epoch [] = Inr (ahdr @ [])" "length ahdr = 32"
    "unpack_replication_header ahdr = Inr (REPL_VERSION, MSG_ACK, seq, epoch, int (length ([] :: bytes)), uint (crc32 (aprefix @ [])))"
    using packed_frame [OF ra] by metis
  have ne: "take 32 frame = hdr" "hdr \<noteq> []" "drop 32 frame = payload" using h(1,2) by auto
  have nst: "\<not> (case sb_epoch s of None \<Rightarrow> False | Some e \<Rightarrow> epoch < e)" using assms(2) by (auto simp: fresh_epoch_def split: option.splits)
  have "\<exists>s'. serve_one frame s = (s', ahdr, [], True) \<and> sb_log s' = map_option (\<lambda>l. l @ [payload]) (sb_log s) \<and> sb_epoch s' = sb_epoch s"
    unfolding serve_one_def REPL_HEADER_SIZE_def Let_def ne(1) using ne h nst a(1) by (simp add: answer_def)
  then obtain s' where s: "serve_one frame s = (s', ahdr, [], True)" "sb_log s' = map_option (\<lambda>l. l @ [payload]) (sb_log s)" "sb_epoch s' = sb_epoch s" by blast
  then have "serve frame s = (s'\<lparr>sb_open := True\<rparr>, ahdr)" by (simp add: serve.simps)
  then show thesis using that [of "s'\<lparr>sb_open := True\<rparr>" ahdr] s a(2,3) by simp
qed

lemma serve_one_stale:
  assumes "sb_epoch s = Some e" and "unpack_replication_header (take 32 bs) = Inr (v, mt, seq, epoch, len, crc)" and "epoch < e"
  shows "\<exists>s1 r. serve_one bs s = (s1, r, drop 32 bs, False) \<and> sb_log s1 = sb_log s \<and> sb_epoch s1 = sb_epoch s"
proof -
  have "take 32 bs \<noteq> []" using assms(2) by (auto simp: unpack_replication_header_def REPL_HEADER_SIZE_def)
  then show ?thesis using assms by (auto simp: serve_one_def REPL_HEADER_SIZE_def Let_def answer_def split: sum.split)
qed

lemma serve_one_partial:
  assumes r: "frame_in_range mt seq epoch payload" and f: "pack_replication_frame mt seq epoch payload = Inr frame" and "n < length frame"
  shows "\<exists>s1 r rest. serve_one (take n frame) s = (s1, r, rest, False) \<and> sb_log s1 = sb_log s \<and> sb_epoch s1 = sb_epoch s"
proof -
  obtain prefix hdr where h: "frame = hdr @ payload" "length hdr = 32"
    "unpack_replication_header hdr = Inr (REPL_VERSION, mt, seq, epoch, int (length payload), uint (crc32 (prefix @ payload)))"
    using packed_frame [OF r] f by (metis sum.inject(2))
  show ?thesis
  proof (cases "n < 32")
    case True
    then have "unpack_replication_header (take n frame) = Inl ValueError" using h(1,2) by (simp add: unpack_replication_header_def REPL_HEADER_SIZE_def)
    moreover have "take 32 (take n frame) = take n frame" using True by simp
    ultimately show ?thesis unfolding serve_one_def REPL_HEADER_SIZE_def Let_def by (auto simp: answer_def)
  next
    case False
    then have t: "take 32 (take n frame) = hdr" using h(1,2) by (simp add: min_def)
    have len: "length (take (length payload) (drop 32 (take n frame))) < length payload" using assms(3) False h(1,2) by simp
    show ?thesis unfolding serve_one_def REPL_HEADER_SIZE_def Let_def t using h(2,3) len by (auto simp: answer_def split: sum.splits)
  qed
qed

lemma serve_stops: "serve_one bs s = (s1, r, rest, False) \<Longrightarrow> serve bs s = (s1\<lparr>sb_open := False\<rparr>, r)"
  by (simp add: serve.simps)

section \<open>One transmission\<close>

lemma transmit_data:
  assumes r: "frame_in_range MSG_FRAME_DATA seq epoch payload" and e: "fresh_epoch epoch s"
    and f: "pack_replication_frame MSG_FRAME_DATA seq epoch payload = Inr frame" and t: "transmit l frame s = (s1, reply, sent)"
  shows "sb_epoch s1 = sb_epoch s \<and> (sb_log s1 = sb_log s \<or> sb_log s1 = map_option (\<lambda>l. l @ [payload]) (sb_log s))
    \<and> (reply \<noteq> [] \<longrightarrow> sb_log s1 = map_option (\<lambda>l. l @ [payload]) (sb_log s) \<and> length reply = 32
        \<and> (\<exists>crc. unpack_replication_header reply = Inr (REPL_VERSION, MSG_ACK, seq, epoch, 0, crc)))"
proof (cases l)
  case (SendFails n)
  show ?thesis
  proof (cases "n < length frame")
    case True
    then obtain s2 q where "serve (take n frame) s = (s2, q)" "sb_log s2 = sb_log s" "sb_epoch s2 = sb_epoch s"
      using serve_one_partial [OF r f True, of s] serve_stops by (metis standby.select_convs(1,2) standby.surjective standby.update_convs(4))
    then show ?thesis using t SendFails by (auto simp: transmit_def split: if_splits)
  next
    case False
    obtain s2 q where "serve frame s = (s2, q)" "sb_log s2 = map_option (\<lambda>l. l @ [payload]) (sb_log s)" "sb_epoch s2 = sb_epoch s"
      using serve_data [OF r e f] by metis
    then show ?thesis using t SendFails False by (auto simp: transmit_def split: if_splits)
  qed
next
  case (Delivered b)
  obtain s2 q where "serve frame s = (s2, q)" "sb_log s2 = map_option (\<lambda>l. l @ [payload]) (sb_log s)" "sb_epoch s2 = sb_epoch s" "length q = 32"
    "\<exists>crc. unpack_replication_header q = Inr (REPL_VERSION, MSG_ACK, seq, epoch, 0, crc)"
    using serve_data [OF r e f] by metis
  then show ?thesis using t Delivered by (auto simp: transmit_def split: if_splits)
next
  case Vanished
  then show ?thesis using t by (simp add: transmit_def)
qed

definition calm :: "repl_client \<Rightarrow> bool" where
  "calm c = (cl_inbox c = [])"

lemma cl_count_fields [simp]: "cl_conn (cl_count f c) = cl_conn c" "cl_inbox (cl_count f c) = cl_inbox c" "cl_spool (cl_count f c) = cl_spool c"
  "cl_epoch (cl_count f c) = cl_epoch c" "cl_max_spool (cl_count f c) = cl_max_spool c" "cl_stats (cl_count f c) = f (cl_stats c)"
  by (simp_all add: cl_count_def)

definition same_plan :: "repl_client \<Rightarrow> repl_client \<Rightarrow> bool" where
  "same_plan c c' = (cl_spool c' = cl_spool c \<and> cl_epoch c' = cl_epoch c \<and> cl_max_spool c' = cl_max_spool c
     \<and> spool_dropped (cl_stats c') = spool_dropped (cl_stats c))"

lemma wire_failed_facts:
  assumes "wire_failed (c, s) = ((c', s'), r)" and "cl_conn c \<or> calm c"
  shows "r = Inr False \<and> same_plan c c' \<and> calm c' \<and> sb_log s' = sb_log s \<and> sb_epoch s' = sb_epoch s"
  using assms by (auto simp: wire_failed_def repl_close_def same_plan_def calm_def one_error_def split: if_splits)

lemma send_wire_spec:
  assumes r: "frame_in_range MSG_FRAME_DATA seq (cl_epoch c) payload" and e: "fresh_epoch (cl_epoch c) s" and q: "calm c"
    and w: "send_wire l seq payload True (c, s) = ((c', s'), res)"
  shows "\<exists>ok. res = Inr ok \<and> same_plan c c' \<and> calm c' \<and> sb_epoch s' = sb_epoch s
    \<and> (sb_log s' = sb_log s \<or> sb_log s' = map_option (\<lambda>l. l @ [payload]) (sb_log s))
    \<and> (ok \<longrightarrow> sb_log s' = map_option (\<lambda>l. l @ [payload]) (sb_log s))"
proof (cases "cl_conn c")
  case False
  then show ?thesis using w q by (auto simp: send_wire_def same_plan_def)
next
  case True
  obtain frame where f: "pack_replication_frame MSG_FRAME_DATA seq (cl_epoch c) payload = Inr frame" using packed_frame [OF r] by metis
  obtain s1 reply sent where t: "transmit l frame s = (s1, reply, sent)" by (metis prod_cases3)
  note spec = transmit_data [OF r e f t]
  show ?thesis
  proof (cases sent)
    case False
    then have "wire_failed (c, s1) = ((c', s'), res)" using w f t True by (simp add: send_wire_def)
    from wire_failed_facts [OF this] show ?thesis using spec True by auto
  next
    case sent: True
    let ?c = "cl_count (\<lambda>st. st\<lparr>frames_sent := frames_sent st + 1, bytes_sent := bytes_sent st + int (length frame),
                               repl_last_seq := seq\<rparr>) (c\<lparr>cl_inbox := reply\<rparr>)"
    have a: "read_ack seq (?c, s1) = ((c', s'), res)" using w f t True sent q by (simp add: send_wire_def calm_def)
    have same: "same_plan c ?c" by (simp add: same_plan_def)
    show ?thesis
    proof (cases "reply = []")
      case True
      then have "wire_failed (?c, s1) = ((c', s'), res)" using a by (simp add: read_ack_def REPL_HEADER_SIZE_def)
      from wire_failed_facts [OF this] show ?thesis using spec same \<open>cl_conn c\<close> by (auto simp: same_plan_def)
    next
      case False
      then obtain crc where u: "length reply = 32" "unpack_replication_header reply = Inr (REPL_VERSION, MSG_ACK, seq, cl_epoch c, 0, crc)"
        "sb_log s1 = map_option (\<lambda>l. l @ [payload]) (sb_log s)" using spec by auto
      then have "res = Inr True \<and> s' = s1 \<and> c' = cl_count (\<lambda>st. st\<lparr>acks_received := acks_received st + 1\<rparr>) (?c\<lparr>cl_inbox := []\<rparr>)"
        using a by (simp add: read_ack_def REPL_HEADER_SIZE_def Let_def)
      then show ?thesis using spec u by (auto simp: same_plan_def calm_def)
    qed
  qed
qed


section \<open>Order\<close>

text \<open>
  The frames are numbered by the call that handed them over: the standby holds the payloads of the numbers \<open>ns\<close>, the spool the frames
  of the numbers \<open>js\<close>.
\<close>

definition replicates :: "(nat \<Rightarrow> int \<times> bytes) \<Rightarrow> nat list \<Rightarrow> nat list \<Rightarrow> repl_sys \<Rightarrow> bool" where
  "replicates fr ns js cs = (sb_log (snd cs) = Some (map (snd \<circ> fr) ns) \<and> cl_spool (fst cs) = map fr js \<and> sorted (ns @ js) \<and> sorted_wrt (<) js
     \<and> calm (fst cs) \<and> fresh_epoch (cl_epoch (fst cs)) (snd cs))"

definition sendable :: "int \<Rightarrow> int \<times> bytes \<Rightarrow> bool" where
  "sendable epoch f = frame_in_range MSG_FRAME_DATA (fst f) epoch (snd f)"

lemma fresh_epoch_cong: "sb_epoch s' = sb_epoch s \<Longrightarrow> fresh_epoch e s' = fresh_epoch e s"
  by (simp add: fresh_epoch_def)

lemma resend:
  assumes i: "replicates fr ns (j # js) (c, s)" and r: "sendable (cl_epoch c) (fr j)" and w: "send_wire l (fst (fr j)) (snd (fr j)) True (c, s) = ((c', s'), res)"
  shows "\<exists>ok. res = Inr ok \<and> same_plan c c' \<and> (replicates fr ns (j # js) (c', s') \<or> replicates fr (ns @ [j]) (j # js) (c', s'))
     \<and> (ok \<longrightarrow> replicates fr (ns @ [j]) js (c'\<lparr>cl_spool := map fr js\<rparr>, s'))"
proof -
  have c: "calm c" "fresh_epoch (cl_epoch c) s" using i by (simp_all add: replicates_def)
  obtain ok where ok: "res = Inr ok" "same_plan c c'" "calm c'" "sb_epoch s' = sb_epoch s"
    "sb_log s' = sb_log s \<or> sb_log s' = map_option (\<lambda>l. l @ [snd (fr j)]) (sb_log s)"
    "ok \<longrightarrow> sb_log s' = map_option (\<lambda>l. l @ [snd (fr j)]) (sb_log s)"
    using send_wire_spec [OF r [unfolded sendable_def] c(2,1) w] by blast
  have so: "sorted (ns @ [j] @ j # js)" "sorted (ns @ [j] @ js)" using i by (auto simp: replicates_def sorted_append)
  have fe: "fresh_epoch (cl_epoch c') s'" using c(2) ok(2,4) by (simp add: same_plan_def fresh_epoch_def)
  have "replicates fr ns (j # js) (c', s') \<or> replicates fr (ns @ [j]) (j # js) (c', s')"
    using i ok(2,3,5) so fe by (auto simp: replicates_def same_plan_def)
  moreover have "ok \<longrightarrow> replicates fr (ns @ [j]) js (c'\<lparr>cl_spool := map fr js\<rparr>, s')"
    using i ok(3,6) so fe by (auto simp: replicates_def calm_def)
  ultimately show ?thesis using ok(1,2) by blast
qed

definition kept_frames :: "nat list \<Rightarrow> nat list \<Rightarrow> nat list \<Rightarrow> nat list \<Rightarrow> bool" where
  "kept_frames ns js ns' js' = (set ns' \<union> set js' = set ns \<union> set js \<and> set ns \<subseteq> set ns')"

lemma drain_keeps:
  "replicates fr ns js (c, s) \<Longrightarrow> \<forall>j \<in> set js. sendable (cl_epoch c) (fr j) \<Longrightarrow> drain_spool (map fr js) ls (c, s) = ((c', s'), ls', res) \<Longrightarrow>
   \<exists>ns' js' n. res = Inr n \<and> replicates fr ns' js' (c', s') \<and> kept_frames ns js ns' js' \<and> length js' \<le> length js
     \<and> spool_dropped (cl_stats c') = spool_dropped (cl_stats c) \<and> cl_epoch c' = cl_epoch c \<and> cl_max_spool c' = cl_max_spool c"
proof (induction js arbitrary: ns c s ls res)
  case Nil
  then show ?case by (intro exI [of _ ns] exI [of _ "[]"]) (auto simp: kept_frames_def)
next
  case (Cons j js)
  obtain sq pl where f: "fr j = (sq, pl)" by (cases "fr j")
  show ?case
  proof (cases "cl_conn c")
    case False
    then show ?thesis using Cons.prems by (intro exI [of _ ns] exI [of _ "j # js"]) (auto simp: f kept_frames_def)
  next
    case True
    obtain c1 s1 r where w: "send_wire (hd_link ls) sq pl True (c, s) = ((c1, s1), r)" by (metis prod.collapse)
    obtain ok where ok: "r = Inr ok" "same_plan c c1" "replicates fr ns (j # js) (c1, s1) \<or> replicates fr (ns @ [j]) (j # js) (c1, s1)"
      "ok \<longrightarrow> replicates fr (ns @ [j]) js (c1\<lparr>cl_spool := map fr js\<rparr>, s1)"
      using resend [OF Cons.prems(1) _ w [folded f [THEN arg_cong [where f = fst], simplified] f [THEN arg_cong [where f = snd], simplified]]] Cons.prems(2) f
      by (auto simp: f)
    show ?thesis
    proof (cases ok)
      case False
      then have "c' = c1" "s' = s1" "res = Inr 0" using Cons.prems(3) w ok(1) True by (auto simp: f)
      moreover have "kept_frames ns (j # js) ns (j # js)" "kept_frames ns (j # js) (ns @ [j]) (j # js)" by (auto simp: kept_frames_def)
      then obtain ns' where "replicates fr ns' (j # js) (c1, s1)" "kept_frames ns (j # js) ns' (j # js)" using ok(3) by blast
      ultimately show ?thesis using ok(2) unfolding same_plan_def by (intro exI [of _ ns'] exI [of _ "j # js"] exI [of _ 0]) simp
    next
      case ok': True
      let ?c = "cl_count (\<lambda>st. st\<lparr>spool_queued := int (length (map fr js))\<rparr>) (c1\<lparr>cl_spool := map fr js\<rparr>)"
      have i: "replicates fr (ns @ [j]) js (?c, s1)" using ok(4) ok' by (simp add: replicates_def calm_def)
      obtain q where d: "drain_spool (map fr js) (tl ls) (?c, s1) = ((c', s'), ls', q)" "res = bindr q (\<lambda>n. Inr (n + 1))"
        using Cons.prems(3) w ok(1) ok' True by (auto simp: f split: prod.splits)
      have e: "\<forall>j \<in> set js. sendable (cl_epoch ?c) (fr j)" using Cons.prems(2) ok(2) by (simp add: same_plan_def)
      obtain ns' js' n where ih: "q = Inr n" "replicates fr ns' js' (c', s')" "kept_frames (ns @ [j]) js ns' js'" "length js' \<le> length js"
        "spool_dropped (cl_stats c') = spool_dropped (cl_stats ?c)" "cl_epoch c' = cl_epoch ?c" "cl_max_spool c' = cl_max_spool ?c"
        using Cons.IH [OF i e d(1)] by blast
      have "kept_frames ns (j # js) ns' js'" using ih(3) by (auto simp: kept_frames_def)
      then show ?thesis using ih ok(2) d(2) unfolding same_plan_def by (intro exI [of _ ns'] exI [of _ js'] exI [of _ "n + 1"]) simp
    qed
  qed
qed


lemma connect_keeps:
  assumes "replicates fr ns js (c, s)" and "repl_connect a (c, s) = ((c', s'), up)"
  shows "replicates fr ns js (c', s') \<and> spool_dropped (cl_stats c') = spool_dropped (cl_stats c) \<and> cl_epoch c' = cl_epoch c \<and> cl_max_spool c' = cl_max_spool c"
  using assms by (auto simp: repl_connect_def replicates_def calm_def fresh_epoch_def split: if_splits option.splits)

lemma flush_keeps:
  assumes "replicates fr ns js (c, s)" and "\<forall>j \<in> set js. sendable (cl_epoch c) (fr j)"
    and "(if cl_spool c \<noteq> [] then flush_spool a ls (c, s) else ((c, s), ls, Inr 0)) = ((c', s'), ls', res)"
  shows "\<exists>ns' js' n. res = Inr n \<and> replicates fr ns' js' (c', s') \<and> kept_frames ns js ns' js' \<and> length js' \<le> length js
     \<and> spool_dropped (cl_stats c') = spool_dropped (cl_stats c) \<and> cl_epoch c' = cl_epoch c \<and> cl_max_spool c' = cl_max_spool c"
proof (cases "cl_spool c = []")
  case True
  then have "c' = c" "s' = s" "res = Inr 0" using assms(3) by simp_all
  then show ?thesis using assms(1) by (intro exI [of _ ns] exI [of _ js] exI [of _ 0]) (simp add: kept_frames_def)
next
  case False
  then have fl: "flush_spool a ls (c, s) = ((c', s'), ls', res)" using assms(3) by simp
  let ?u = "if cl_conn c then ((c, s), True) else repl_connect a (c, s)"
  obtain c1 s1 up where u: "?u = ((c1, s1), up)" by (cases ?u; cases "fst ?u"; simp)
  have "replicates fr ns js (c1, s1) \<and> spool_dropped (cl_stats c1) = spool_dropped (cl_stats c) \<and> cl_epoch c1 = cl_epoch c \<and> cl_max_spool c1 = cl_max_spool c"
  proof (cases "cl_conn c")
    case False
    then have "repl_connect a (c, s) = ((c1, s1), up)" using u by simp
    then show ?thesis by (rule connect_keeps [OF assms(1)])
  qed (use u assms(1) in simp)
  then have k: "replicates fr ns js (c1, s1)" "spool_dropped (cl_stats c1) = spool_dropped (cl_stats c)" "cl_epoch c1 = cl_epoch c" "cl_max_spool c1 = cl_max_spool c"
    by simp_all
  have st: "kept_frames ns js ns js" by (simp add: kept_frames_def)
  show ?thesis
  proof (cases up)
    case True
    have "cl_spool c1 = map fr js" using k(1) by (simp add: replicates_def)
    then have d: "drain_spool (map fr js) ls (c1, s1) = ((c', s'), ls', res)" using fl u True by (simp add: flush_spool_def)
    have "\<forall>j \<in> set js. sendable (cl_epoch c1) (fr j)" using assms(2) k(3) by simp
    from drain_keeps [OF k(1) this d] show ?thesis unfolding k(2-4) .
  next
    case False
    then have "c' = c1" "s' = s1" "res = Inr 0" using fl u by (simp_all add: flush_spool_def)
    then show ?thesis using k st by (intro exI [of _ ns] exI [of _ js] exI [of _ 0]) simp
  qed
qed

text \<open>What a call leaves behind: the standby holds the numbers \<open>ns\<close>, the spool \<open>js\<close>, and \<open>lost\<close> were dropped.\<close>

definition accounted :: "(nat \<Rightarrow> int \<times> bytes) \<Rightarrow> nat \<Rightarrow> nat list \<Rightarrow> nat list \<Rightarrow> nat set \<Rightarrow> repl_sys \<Rightarrow> bool" where
  "accounted fr k ns js lost cs = (replicates fr ns js cs \<and> set ns \<union> set js \<union> lost = {..<k} \<and> finite lost
     \<and> int (card lost) \<le> spool_dropped (cl_stats (fst cs)) \<and> int (length js) \<le> cl_max_spool (fst cs))"

lemma spool_accounts:
  assumes i: "replicates fr ns js (c, s)" and u: "insert k (set ns \<union> set js \<union> lost) = {..<Suc k}" and j: "\<forall>j \<in> set js. j < k"
    and l: "finite lost" "int (card lost) \<le> spool_dropped (cl_stats c)" "int (length js) \<le> cl_max_spool c"
    and f: "fr k = (seq, payload)" "spool_frame seq payload c = (c', r)" "1 \<le> cl_max_spool c"
  shows "\<exists>js' lost'. r = Inr False \<and> accounted fr (Suc k) ns js' lost' (c', s) \<and> cl_epoch c' = cl_epoch c \<and> cl_max_spool c' = cl_max_spool c"
proof -
  have sp: "cl_spool c = map fr js" using i by (simp add: replicates_def)
  have "\<forall>i \<in> set ns. i \<le> k" using u by force
  then have so: "sorted (ns @ js @ [k])" "sorted_wrt (<) (js @ [k])"
    using i j by (auto simp: replicates_def sorted_append sorted_wrt_append less_imp_le)
  show ?thesis
  proof (cases "cl_max_spool c \<le> int (length js)")
    case False
    then have c': "cl_spool c' = map fr (js @ [k])" "r = Inr False" "cl_epoch c' = cl_epoch c" "cl_max_spool c' = cl_max_spool c" "calm c' = calm c"
      "spool_dropped (cl_stats c') = spool_dropped (cl_stats c)"
      using f sp by (auto simp: spool_frame_def Let_def calm_def)
    have "replicates fr ns (js @ [k]) (c', s)" using i c' so by (simp add: replicates_def)
    moreover have "set ns \<union> set (js @ [k]) \<union> lost = {..<Suc k}" using u by auto
    ultimately have "accounted fr (Suc k) ns (js @ [k]) lost (c', s)" using l c' False by (simp add: accounted_def)
    then show ?thesis using c' by blast
  next
    case True
    then obtain i1 js1 where j1: "js = i1 # js1" using f(3) by (cases js) auto
    have c': "cl_spool c' = map fr (js1 @ [k])" "r = Inr False" "cl_epoch c' = cl_epoch c" "cl_max_spool c' = cl_max_spool c" "calm c' = calm c"
      "spool_dropped (cl_stats c') = spool_dropped (cl_stats c) + 1"
      using f sp True j1 by (auto simp: spool_frame_def Let_def calm_def)
    have "card (insert i1 lost) \<le> Suc (card lost)" by (rule card_insert_le_m1) simp_all
    then have "int (card (insert i1 lost)) \<le> spool_dropped (cl_stats c')" using l(2) c'(6) by linarith
    moreover have "sorted (ns @ js1 @ [k])" "sorted_wrt (<) (js1 @ [k])" using so j1 by (auto simp: sorted_append)
    then have "replicates fr ns (js1 @ [k]) (c', s)" using i c' by (simp add: replicates_def)
    moreover have "set ns \<union> set (js1 @ [k]) \<union> insert i1 lost = {..<Suc k}" using u j1 by auto
    ultimately have "accounted fr (Suc k) ns (js1 @ [k]) (insert i1 lost) (c', s)" using l c' j1 by (simp add: accounted_def)
    then show ?thesis using c' by blast
  qed
qed

lemma send_accounts:
  assumes i: "accounted fr k ns js lost (c, s)" and f: "fr k = (seq, payload)" and m: "1 \<le> cl_max_spool c"
    and r: "\<forall>j \<le> k. sendable (cl_epoch c) (fr j)" and w: "send_frame a ls seq payload True (c, s) = ((c', s'), res)"
  shows "\<exists>ns' js' lost' ok. res = Inr ok \<and> accounted fr (Suc k) ns' js' lost' (c', s') \<and> set ns \<subseteq> set ns' \<and> (ok \<longrightarrow> k \<in> set ns')
     \<and> cl_epoch c' = cl_epoch c \<and> cl_max_spool c' = cl_max_spool c"
proof -
  obtain c1 s1 ls1 r1 where fl: "(if cl_spool c \<noteq> [] then flush_spool a ls (c, s) else ((c, s), ls, Inr 0)) = ((c1, s1), ls1, r1)"
    by (metis prod_cases3 prod.collapse)
  have js: "set js \<subseteq> {..<k}" "replicates fr ns js (c, s)" using i by (auto simp: accounted_def)
  then have rj: "\<forall>j \<in> set js. sendable (cl_epoch c) (fr j)" using r by auto
  obtain ns1 js1 n where k1: "r1 = Inr n" "replicates fr ns1 js1 (c1, s1)" "kept_frames ns js ns1 js1" "length js1 \<le> length js"
    "spool_dropped (cl_stats c1) = spool_dropped (cl_stats c)" "cl_epoch c1 = cl_epoch c" "cl_max_spool c1 = cl_max_spool c"
    using flush_keeps [OF js(2) rj fl] by blast
  have i1: "accounted fr k ns1 js1 lost (c1, s1)" using i k1 by (auto simp: accounted_def kept_frames_def)
  have sub: "set ns \<subseteq> set ns1" using k1(3) by (simp add: kept_frames_def)
  have sp: "cl_spool c1 = map fr js1" using k1(2) by (simp add: replicates_def)
  show ?thesis
  proof (cases "cl_conn c1 \<and> js1 = []")
    case False
    obtain c2 q where q: "spool_frame seq payload c1 = (c2, q)" by (metis prod.collapse)
    have e: "c' = c2" "s' = s1" "res = q" using w fl k1(1) False q sp by (auto simp: send_frame_def)
    have u: "insert k (set ns1 \<union> set js1 \<union> lost) = {..<Suc k}" "\<forall>j \<in> set js1. j < k" using i1 by (auto simp: accounted_def lessThan_Suc)
    have l: "finite lost" "int (card lost) \<le> spool_dropped (cl_stats c1)" "int (length js1) \<le> cl_max_spool c1" "1 \<le> cl_max_spool c1"
      using i1 m k1(7) by (simp_all add: accounted_def)
    obtain js' lost' where "q = Inr False" "accounted fr (Suc k) ns1 js' lost' (c2, s1)" "cl_epoch c2 = cl_epoch c1" "cl_max_spool c2 = cl_max_spool c1"
      using spool_accounts [OF k1(2) u l(1-3) f q l(4)] by blast
    then show ?thesis using sub e k1(6,7) by (intro exI [of _ ns1] exI [of _ js'] exI [of _ lost'] exI [of _ False]) simp
  next
    case True
    obtain c2 s2 q where sw: "send_wire (hd_link ls1) seq payload True (c1, s1) = ((c2, s2), q)" by (metis prod.collapse)
    have rk: "frame_in_range MSG_FRAME_DATA seq (cl_epoch c1) payload" using r f k1(6) by (auto simp: sendable_def)
    have c1: "calm c1" "fresh_epoch (cl_epoch c1) s1" using k1(2) by (simp_all add: replicates_def)
    obtain ok where ok: "q = Inr ok" "same_plan c1 c2" "calm c2" "sb_epoch s2 = sb_epoch s1"
      "sb_log s2 = sb_log s1 \<or> sb_log s2 = map_option (\<lambda>l. l @ [payload]) (sb_log s1)" "ok \<longrightarrow> sb_log s2 = map_option (\<lambda>l. l @ [payload]) (sb_log s1)"
      using send_wire_spec [OF rk c1(2,1) sw] by blast
    have u: "set ns1 \<union> lost = {..<k}" "finite lost" using i1 True by (auto simp: accounted_def)
    have "x \<le> k" if "x \<in> set ns1" for x using u(1) that by (metis UnI1 lessThan_iff less_imp_le)
    then have so: "sorted (ns1 @ [k])" using k1(2) by (simp add: replicates_def sorted_append)
    have fe: "fresh_epoch (cl_epoch c2) s2" using c1(2) ok(2,4) by (simp add: same_plan_def fresh_epoch_def)
    have stay: "replicates fr ns1 [] (c2, s2)" if "sb_log s2 = sb_log s1" using that k1(2) True ok(2,3) fe by (auto simp: replicates_def same_plan_def)
    have grow: "replicates fr (ns1 @ [k]) [] (c2, s2)" if "sb_log s2 = map_option (\<lambda>l. l @ [payload]) (sb_log s1)"
      using that k1(2) True ok(2,3) fe so f by (auto simp: replicates_def same_plan_def)
    show ?thesis
    proof (cases ok)
      case ok': True
      then have e: "c' = c2" "s' = s2" "res = Inr True" using w fl k1(1) True sp sw ok(1) by (auto simp: send_frame_def)
      have "accounted fr (Suc k) (ns1 @ [k]) [] lost (c2, s2)"
        using grow ok(6) ok' u i1 ok(2) m k1(7) by (auto simp: accounted_def same_plan_def lessThan_Suc)
      then show ?thesis using e sub ok(2) k1(6,7) by (intro exI [of _ "ns1 @ [k]"] exI [of _ "[]"] exI [of _ lost] exI [of _ True]) (auto simp: same_plan_def)
    next
      case False
      obtain c3 q3 where q: "spool_frame seq payload c2 = (c3, q3)" by (metis prod.collapse)
      have e: "c' = c3" "s' = s2" "res = q3" using w fl k1(1) True sp sw ok(1) False q by (auto simp: send_frame_def)
      have l: "int (card lost) \<le> spool_dropped (cl_stats c2)" "int (length ([] :: nat list)) \<le> cl_max_spool c2" "1 \<le> cl_max_spool c2"
        using i1 m k1(7) ok(2) by (simp_all add: accounted_def same_plan_def)
      obtain ns2 where n2: "replicates fr ns2 [] (c2, s2)" "set ns1 \<subseteq> set ns2" "set ns2 \<subseteq> insert k (set ns1)" using stay grow ok(5) by fastforce
      then have "insert k (set ns2 \<union> set [] \<union> lost) = {..<Suc k}" using u(1) by (auto simp: lessThan_Suc)
      then obtain js' lost' where "q3 = Inr False" "accounted fr (Suc k) ns2 js' lost' (c3, s2)" "cl_epoch c3 = cl_epoch c2" "cl_max_spool c3 = cl_max_spool c2"
        using spool_accounts [OF n2(1) _ _ u(2) l(1,2) f q l(3)] by auto
      then show ?thesis using sub n2(2) e ok(2) k1(6,7)
        by (intro exI [of _ ns2] exI [of _ js'] exI [of _ lost'] exI [of _ False]) (auto simp: same_plan_def)
    qed
  qed
qed

end
