(* ===== verification/Replication_Limits.thy ===== *)
theory Replication_Limits
  imports Replication_Props
begin

text \<open>
  Replication over whole runs: the standby's log for every behaviour of the network, the fencing of an older primary, damaged frames,
  and where the code does less than it says.
\<close>

section \<open>Runs\<close>




definition standby_init :: "bytes list option \<Rightarrow> int option \<Rightarrow> standby" where
  "standby_init lg e = \<lparr>sb_log = lg, sb_epoch = e, sb_stats = repl_stats_init, sb_open = False\<rparr>"




section \<open>A primary of an older epoch\<close>














section \<open>Damaged frames\<close>

lemma header_fields:
  assumes "unpack_replication_header hdr = Inr (v, mt, sq, ep, len, crc)"
  shows "len = le_int (rev (take 4 (drop 24 hdr))) \<and> crc = le_int (rev (take 4 (drop 28 hdr))) \<and> length hdr = 32"
  using assms by (auto simp: unpack_replication_header_def sunpack_def calcsize_def order_bytes_def bindr_Inr split: if_splits)

lemma rev_le_int_inj: "length xs = length ys \<Longrightarrow> le_int (rev xs) = le_int (rev ys) \<Longrightarrow> xs = ys"
  using le_bytes_le_int [of "rev xs"] le_bytes_le_int [of "rev ys"] by (metis length_rev rev_rev_ident)

lemma crc_update:
  assumes "i < length bs" and "b \<noteq> bs ! i"
  shows "crc32 (bs[i := b]) \<noteq> crc32 bs"
proof -
  have "bs = take i bs @ bs ! i # drop (Suc i) bs" "bs[i := b] = take i bs @ b # drop (Suc i) bs"
    using assms(1) by (simp_all add: id_take_nth_drop upd_conv_take_nth_drop)
  then show ?thesis using crc32_single_byte [OF assms(2), of 0 "take i bs" "drop (Suc i) bs"] unfolding crc32_def by metis
qed

lemma refused:
  assumes "length p = 28" and "length c = 4" and "length p' = 28" and "length c' = 4" and "drop 24 p' = drop 24 p" and "length q' = length q"
    and h: "unpack_replication_header (p @ c) = Inr (v, mt, sq, ep, int (length q), crc)" and "uint (crc32 (p' @ q')) \<noteq> le_int (rev c')"
  shows "sb_log (fst (serve (p' @ c' @ q') s)) = sb_log s"
proof -
  let ?f = "p' @ c' @ q'"
  have t: "take 32 ?f = p' @ c'" "drop 32 ?f = q'" "take 28 (p' @ c') = p'" "p' @ c' \<noteq> []" using assms(3,4) by auto
  have len: "int (length q) = le_int (rev (drop 24 p))" using header_fields [OF h] assms(1) by simp
  have "\<exists>s1 r rest again. serve_one ?f s = (s1, r, rest, again) \<and> sb_log s1 = sb_log s \<and> (again \<longrightarrow> rest = [])"
  proof (cases "unpack_replication_header (p' @ c')")
    case (Inl x)
    then have "serve_one ?f s = (sb_count one_error s, [], drop 32 ?f, False)"
      unfolding serve_one_def REPL_HEADER_SIZE_def Let_def t(1) using t(4) by auto
    then show ?thesis by (metis sb_count_fields(1))
  next
    case (Inr y)
    obtain v' mt' sq' ep' len' crc' where y: "y = (v', mt', sq', ep', len', crc')" by (cases y) auto
    have "len' = int (length q')" "crc' = le_int (rev c')"
      using header_fields [OF Inr [unfolded y]] len assms(1,3-6) by simp_all
    then show ?thesis unfolding serve_one_def REPL_HEADER_SIZE_def Let_def t(1) using t Inr y assms(3,4,8)
      by (auto simp: answer_def split: sum.splits)
  qed
  then obtain s1 r rest again where "serve_one ?f s = (s1, r, rest, again)" "sb_log s1 = sb_log s" "again \<longrightarrow> rest = []" by blast
  then show ?thesis by (auto simp: serve.simps)
qed

text \<open>
  A damaged frame is not stored.  If one byte of a frame changes on the way, anywhere but in the length field, the standby
  that reads it stores nothing: the checksum covers the rest of the header and the payload.
\<close>

theorem damaged_frame_is_not_stored:
  assumes "frame_in_range MSG_FRAME_DATA seq epoch payload" and "pack_replication_frame MSG_FRAME_DATA seq epoch payload = Inr frame"
    and "i < length frame" and "i \<notin> {24..<28}" and "b \<noteq> frame ! i"
  shows "sb_log (fst (serve (frame[i := b]) s)) = sb_log s"
proof -
  obtain prefix hdr where pk: "pack_replication_frame MSG_FRAME_DATA seq epoch payload = Inr (hdr @ payload)" and h: "length prefix = 28" "length hdr = 32" "take 28 hdr = prefix"
    "unpack_replication_header hdr = Inr (REPL_VERSION, MSG_FRAME_DATA, seq, epoch, int (length payload), uint (crc32 (prefix @ payload)))"
    using packed_frame [OF assms(1)] .
  obtain k where k: "hdr = prefix @ k" "length k = 4" using h(2,3) append_take_drop_id [of 28 hdr] by (intro that [of "drop 28 hdr"]) simp_all
  have f: "frame = prefix @ k @ payload" "length k = 4" using pk assms(2) k by simp_all
  note u = h(4) [unfolded k(1)]
  have crc: "uint (crc32 (prefix @ payload)) = le_int (rev k)" using header_fields [OF u] k(2) h(1) by simp
  have "\<not> (24 \<le> i \<and> i < 28)" using assms(4) by simp
  then consider "i < 24" | "28 \<le> i" "i < 32" | "32 \<le> i" by linarith
  then show ?thesis
  proof cases
    case 1
    have e: "frame[i := b] = prefix[i := b] @ k @ payload" using 1 h(1) by (simp add: f(1) list_update_append1)
    have "b \<noteq> (prefix @ payload) ! i" using assms(5) 1 h(1) by (simp add: f(1) nth_append)
    then have "crc32 ((prefix @ payload)[i := b]) \<noteq> crc32 (prefix @ payload)" using 1 h(1) by (intro crc_update) simp_all
    then have "uint (crc32 (prefix[i := b] @ payload)) \<noteq> le_int (rev k)" unfolding crc [symmetric] using 1 h(1) by (simp add: list_update_append1 word_uint_eq_iff)
    then show ?thesis unfolding e using 1 h(1) f(2) by (intro refused [OF _ _ _ _ _ _ u]) simp_all
  next
    case 2
    have i4: "i - 28 < 4" using 2 by linarith
    then have e: "frame[i := b] = prefix @ k[i - 28 := b] @ payload" using 2 h(1) f(2) by (simp add: f(1) list_update_append)
    have "k[i - 28 := b] \<noteq> k"
    proof
      assume a: "k[i - 28 := b] = k"
      have "k[i - 28 := b] ! (i - 28) = b" using 2 f(2) by (intro nth_list_update_eq) linarith
      moreover have "frame ! i = k ! (i - 28)" using 2 i4 h(1) f(2) by (simp add: f(1) nth_append)
      ultimately show False using a assms(5) by simp
    qed
    then have "le_int (rev (k[i - 28 := b])) \<noteq> le_int (rev k)" using rev_le_int_inj [of "k[i - 28 := b]" k] by auto
    then show ?thesis unfolding e using h(1) f(2) crc by (intro refused [OF _ _ _ _ _ _ u]) simp_all
  next
    case 3
    have i4: "\<not> i - 28 < 4" "i - 28 - 4 = i - 32" using 3 by linarith+
    then have e: "frame[i := b] = prefix @ k @ payload[i - 32 := b]" using 3 h(1) f(2) by (simp add: f(1) list_update_append)
    have j: "\<not> i - 4 < 28" "i - 4 - 28 = i - 32" using 3 by linarith+
    have i: "i - 4 < length (prefix @ payload)" using assms(3) 3 h(1) f(2) by (simp add: f(1))
    have "frame ! i = payload ! (i - 32)" using 3 i4 h(1) f(2) by (simp add: f(1) nth_append)
    then have "b \<noteq> (prefix @ payload) ! (i - 4)" using assms(5) j h(1) by (simp add: nth_append)
    then have "crc32 ((prefix @ payload)[i - 4 := b]) \<noteq> crc32 (prefix @ payload)" using i by (intro crc_update)
    then have "uint (crc32 (prefix @ payload[i - 32 := b])) \<noteq> le_int (rev k)" unfolding crc [symmetric] using j h(1) by (simp add: list_update_append word_uint_eq_iff)
    then show ?thesis unfolding e using h(1) f(2) by (intro refused [OF _ _ _ _ _ _ u]) simp_all
  qed
qed


section \<open>Examples\<close>







theorem damaged_frame_is_not_stored_witness:
  "\<exists>frame. pack_replication_frame MSG_FRAME_DATA 1 1 [10] = Inr frame \<and> sb_log (fst (serve (frame[32 := 11]) (standby_init (Some []) None))) = Some []"
proof -
  have r: "frame_in_range MSG_FRAME_DATA 1 1 [10]" by (simp add: frame_in_range_def MSG_FRAME_DATA_def)
  obtain prefix hdr where p: "pack_replication_frame MSG_FRAME_DATA 1 1 [10] = Inr (hdr @ [10])" "length hdr = 32" using packed_frame [OF r] by metis
  have "sb_log (fst (serve ((hdr @ [10])[32 := 11]) (standby_init (Some []) None))) = sb_log (standby_init (Some []) None)"
    using p(2) by (intro damaged_frame_is_not_stored [OF r p(1)]) (simp_all add: nth_append)
  then show ?thesis using p(1) by (simp add: standby_init_def)
qed

text \<open>
  A target without \<open>append_raw\<close>, such as the ingest log of this program: every frame is acknowledged and nothing is stored.
\<close>

lemma acknowledged_but_not_stored:
  assumes "frame_in_range MSG_FRAME_DATA seq epoch payload" and "fresh_epoch epoch s" and "sb_log s = None"
    and "pack_replication_frame MSG_FRAME_DATA seq epoch payload = Inr frame"
  shows "\<exists>s' ack crc. serve frame s = (s', ack) \<and> sb_log s' = None
    \<and> unpack_replication_header ack = Inr (REPL_VERSION, MSG_ACK, seq, epoch, 0, crc)"
proof -
  obtain s' ack crc where "serve frame s = (s', ack)" "sb_log s' = map_option (\<lambda>l. l @ [payload]) (sb_log s)"
    "unpack_replication_header ack = Inr (REPL_VERSION, MSG_ACK, seq, epoch, 0, crc)"
    using serve_data [OF assms(1,2,4)] by metis
  then show ?thesis using assms(3) by auto
qed

text \<open>
  After a frame sent without waiting, its acknowledgement is taken for the next one's: the call returns \<open>True\<close> for a frame that
  never arrived.
\<close>

lemma late_ack_is_taken_for_the_next:
  assumes "cl_conn c" and "frame_in_range MSG_FRAME_DATA seq (cl_epoch c) payload"
    and "cl_inbox c = ack @ more_bytes" and "length ack = 32" and "unpack_replication_header ack = Inr (v, MSG_ACK, earlier, epoch, 0, crc)"
  shows "\<exists>c'. send_wire Vanished seq payload True (c, s) = ((c', s), Inr True)"
proof -
  obtain frame where f: "pack_replication_frame MSG_FRAME_DATA seq (cl_epoch c) payload = Inr frame" using packed_frame [OF assms(2)] by metis
  have "take 32 (cl_inbox c) = ack" "take 32 (cl_inbox c @ []) = ack" using assms(3,4) by simp_all
  then show ?thesis using assms(1,4,5) f
    by (auto simp: send_wire_def transmit_def read_ack_def Let_def REPL_HEADER_SIZE_def MSG_ACK_def MSG_ERROR_def)
qed

end
