(* ===== verification/Spec2Isabelle.thy ===== *)
theory Spec2Isabelle
  imports Failover Multicast Recovery Protocol Sbe Quality_Held Shm_Race Engine_Limits Mbo_Props Depth_Props Partition_Limits
    Audit_Chain Reconcile_Choice Watchdog_Props Replication_Limits
begin

text \<open>
  \<^bold>\<open>MDRAP, a market-data reliability engine.\<close>
  The program under \<^verbatim>\<open>src/src/mdrap\<close> takes market data from redundant feeds, puts it in order, judges every event, keeps the events in a
  durable log, and publishes consolidated books to subscribers.  This library models its core and proves what makes each part correct.
  It is a shallow embedding: a Python function is an Isabelle function on explicit state, a class a \<^verbatim>\<open>record\<close>, an exception a value.

  \<^bold>\<open>The parts and how they interact.\<close>
  Packets of two multicast feeds are put in order by the arbitrator, or packets of a single feed by the recovery engine; both fetch what is
  missing from a replay service.  Events enter the engine by \<^verbatim>\<open>Engine.submit\<close>: they are checked, appended to the write-ahead log, and folded
  through eight stages into the engine state under an undo journal; gaps in the numbering go to the gap manager.  The quality engine is
  the stand-alone form of the same judgement, with reordering.  Judged events feed the reliability tracker and reconciler, the watchdog, the best bid and
  offer, the depth ladders and the order book; the watchdog tells the book engines which sources are active.  Results are published to other processes
  through a ring in shared memory, to the network as binary frames, and to subscribers through partitioned shards with a fan-out.
  A standby receives the log by replication; failover and the lease coordinator decide who may write.  Operators' actions are kept in a hash chain.

  \<^bold>\<open>Foundations.\<close>
  \<^item> Mdrap_Prelude: the result type \<^verbatim>\<open>res\<close> (an exception or a value), Python's insertion-ordered dictionary as an association list, ranges and
    text helpers; the collections \<^verbatim>\<open>wire_simps\<close>, \<^verbatim>\<open>float_simps\<close> and \<^verbatim>\<open>dict_simps\<close>; the locale \<^verbatim>\<open>dict_contract\<close>, interpreted as \<^verbatim>\<open>pydict\<close>.
  \<^item> Pyfloat: a Python float is its 64-bit pattern; the operations round exact rational results to nearest even, with signed zeros, infinities
    and NaN, and \<^verbatim>\<open>round(x, n)\<close>.  Monotonicity and sign facts carry the bounds proved elsewhere.
  \<^item> Pystruct: \<^verbatim>\<open>struct.pack\<close> and \<^verbatim>\<open>unpack\<close> for the formats in use, CRC-32 and its detection of a changed byte.
  \<^item> Models, Pyvalue: the events and verdicts of \<^verbatim>\<open>models.py\<close> and the dynamically typed payload values with mixed arithmetic.
  \<^item> Sha256: the hash function itself, so that statements about hashes have a concrete instance.
  \<^item> Resequencer: what the two ordering engines share, with the locale \<^verbatim>\<open>resequencer\<close>.

  \<^bold>\<open>Components\<close>, each with its source file under \<^verbatim>\<open>src/src/mdrap\<close> and what is shown.
  \<^item> Gap (\<^verbatim>\<open>gap.py\<close>): every gap ever recorded is open or counted once, within capacity.
  \<^item> Consensus (\<^verbatim>\<open>consensus.py\<close>): two elected leaders share a node; a deposed leader is fenced off for good.  The locale \<^verbatim>\<open>fence\<close> (a number that only
    grows guards acceptance) is interpreted by the fenced writer and by a failover node.
  \<^item> Failover (\<^verbatim>\<open>failover.py\<close>): nodes on a network that loses, repeats and reorders heartbeats, as an inductive step relation; epochs never
    decrease, and a split brain is resolved towards the smaller identifier.
  \<^item> Multicast (\<^verbatim>\<open>multicast_arbitrator.py\<close>): in-order, duplicate-free delivery, nothing lost while the buffer has room, and healing of a lossy feed pair
    from the archive.
  \<^item> Recovery (\<^verbatim>\<open>recovery.py\<close>): the feed state machine; a failed or stale feed stays silent until it is reconnected or gets a newer snapshot.
  \<^item> Ingestlog, Wal (\<^verbatim>\<open>ingestlog.py\<close>): the segmented log with its policies, rollback, rotation, repair and reading, on files with a synced part and a tail
    a crash may cut; acknowledged records survive, and a changed byte is never accepted.
  \<^item> Engine, Engine_Stages, Engine_Step, Engine_Submit (\<^verbatim>\<open>engine.py\<close>): state, undo journal, the eight stages, step, batch, replay and submit in a state and
    exception monad.  Engine_Txn and Engine_Props: the journal undoes every stage (locale \<^verbatim>\<open>fold_rel\<close>, a relation inherited by
    sequencing, interpreted for the journal, the counters and the price slots), each event is counted once, a failed step is rolled back.  Engine_Replay:
    replay reproduces the live run.  Engine_Submit_Props: submit is all or nothing, over the locale \<^verbatim>\<open>batch_log\<close> interpreted by the write-ahead log.
    Engine_Poison and Engine_Limits: concrete runs and where the code does less than it says.
  \<^item> Quality, Quality_Props, Quality_Held (\<^verbatim>\<open>quality.py\<close>): what VALID means, verdicts only escalate, repeats are flagged, a forced drain releases
    every held event; the cache of unsequenced events is an instance of the locale \<^verbatim>\<open>two_generations\<close>.
  \<^item> Shm, Shm_Props, Shm_Race (\<^verbatim>\<open>shm.py\<close>): the ring is a window of the last events; with writer and reader interleaved byte by byte no torn payload is returned.
  \<^item> Protocol (\<^verbatim>\<open>protocol.py\<close>), Sbe (\<^verbatim>\<open>sbe.py\<close>): the stream parser recovers the packed messages under any chunking; round trips of the fixed layouts.
  \<^item> Mbo (\<^verbatim>\<open>mbo.py\<close>), Bbo (\<^verbatim>\<open>bbo.py\<close>), Depth (\<^verbatim>\<open>depth.py\<close>): queue positions are ranks by priority and modifications follow the priority rules; the
    consolidated quote is the best of the live quotes; ladders aggregate the live venues, and the walk along a ladder takes level after level.
  \<^item> Partition and its properties (\<^verbatim>\<open>partition.py\<close>): the locale \<^verbatim>\<open>bounded_fifo\<close> with the standard queue, the power-of-two ring and a shard's choice of both as
    interpretations; per-symbol order through the fleet, isolation of subscribers, exactness of the rate limit, and the shard counts that work.
  \<^item> Reconcile and its properties (\<^verbatim>\<open>reconciliation.py\<close>): scores stay between 0 and 1; the chosen observation is from a most reliable feed, or a median.
  \<^item> Watchdog (\<^verbatim>\<open>watchdog.py\<close>): the alerts tell the states, a healthy verdict is justified, a blocked feed never enters the consolidated quote; the two
    loops over the sources are interpretations of the locale \<^verbatim>\<open>source_rounds\<close>.
  \<^item> Audit_Trail, Audit_Props, Audit_Chain (\<^verbatim>\<open>audit_format.py\<close>, \<^verbatim>\<open>storage_audit.py\<close>, \<^verbatim>\<open>storage_schema.py\<close>): the log is tamper evident, a grown log matches its
    checkpoints, a Merkle root fixes its batch.
  \<^item> Replication and its properties (\<^verbatim>\<open>journal_replicator.py\<close>): whatever the network does the standby holds the stream in order, an older primary stores
    nothing, a damaged frame is not stored.

  \<^bold>\<open>How specifications are stated.\<close>
  Where the code's own tests decide a result, the property compares it with a reference written without them: the set of repeats, the offers of a
  book, one subscriber alone, the sizes taken from a ladder, the feeds that compete, the admitted events of the last second, the time a source was
  last heard.

  \<^bold>\<open>Termination.\<close>
  Loops are structural or have a measure: the rest of a buffer or a file for the scanners and parsers, the number of held events for draining, the number of nodes on a
  Merkle level.  The loop that doubles the capacity of a ring is a partial function into \<^verbatim>\<open>option\<close>, and it is proved to return for every request.
  There is no fuel.  Sequence numbers, offsets and counters are unbounded integers as in Python; packing checks their width.

  \<^bold>\<open>What is an argument.\<close>
  Clocks, random draws, the outcome of every file and network operation, replay services, user rules (pure predicates) and callbacks, configuration, the texts
  made by \<^verbatim>\<open>str\<close>, \<^verbatim>\<open>repr\<close> and JSON, the built-in \<^verbatim>\<open>sum\<close>, the security manager, and SHA-256 where a result holds for every hash.
  A thread is a turn of its loop.

  \<^bold>\<open>Abstractions to know.\<close>
  A NaN loses its payload bits in the conversion between single and double precision.  Case folding and stripping cover ASCII.  In the interleaving
  of the ring the commit word is one atomic access and memory is sequentially consistent.  A broadcast is one step, although the code releases its lock between
  delivery and eviction.  Replay gets the events as they were submitted: the JSON round trip of the log is taken as the identity.  The order Python gives to NaN
  prices when it sorts is not modelled, and the properties about medians and order books exclude NaN.

  \<^bold>\<open>Not modelled.\<close>
  Storage in SQLite and column files, the older memory-mapped journal, security, the network services, vendor decoders, the native fast path, telemetry,
  command line and displays, analytics and simulators: I/O, bindings and display around the parts above, or separate products on top of them.  Of the
  ingest log the sparse index, the manifest and the process lock are left out, and of the others the dictionaries made for telemetry.
\<close>

end
